(* ===== verification/FOS_Prelude.thy ===== *)
theory FOS_Prelude
  imports Main "HOL-Library.Word"
begin

unbundle bit_operations_syntax

text \<open>
  Shared material of the development: the machine-integer types of inc/types.h, the result
  type in which every operation of the kernel model returns (a value, or one of the ways in
  which the C code stops), its sequencing combinator, and the lemmas on words, lists and
  option values that the component theories share.
\<close>

section \<open>Machine integers\<close>

text \<open>The explicitly sized integer types of inc/types.h.\<close>

type_synonym u8 = "8 word"
type_synonym u16 = "16 word"
type_synonym u32 = "32 word"

text \<open>The bytes of a string literal, without the final NUL.\<close>

definition ascii :: "string \<Rightarrow> u8 list" where
  "ascii cs = map (\<lambda>c. of_nat (of_char c)) cs"

section \<open>Results\<close>

text \<open>
  The ways a kernel operation can fail to return. \<open>Panic\<close> is a call of panic() with its
  message, \<open>Assert_failure\<close> a failed assert(), \<open>Kernel_fault\<close> a kernel dereference of a
  virtual address that the MMU does not translate, \<open>Nested_table_fault\<close> a page-directory
  entry that is non-zero but not present (get_page_table() then re-enters the fault handler; no
  operation of the kernel writes such an entry), \<open>Nested_table_creation\<close> a missing page table met while
  a page table is already being created, \<open>Uninitialised\<close> the use of a variable that the C
  function never assigned, \<open>Out_of_bounds\<close> an access outside a fixed-size array,
  \<open>Divide_error\<close> a division by zero, and \<open>Diverges\<close> a loop that never leaves.
\<close>

datatype kerror =
    Panic string
  | Assert_failure string
  | Kernel_fault u32
  | Nested_table_fault u32
  | Nested_table_creation u32
  | Uninitialised string
  | Out_of_bounds string
  | Divide_error
  | Diverges

type_synonym 'a result = "kerror + 'a"

text \<open>Sequencing: the second computation runs on the result of the first, unless that failed.\<close>

definition rbind :: "'a result \<Rightarrow> ('a \<Rightarrow> 'b result) \<Rightarrow> 'b result" where
  "rbind m f = (case m of Inl e \<Rightarrow> Inl e | Inr x \<Rightarrow> f x)"

lemma rbind_Inr [simp]: "rbind (Inr x) f = f x"
  by (simp add: rbind_def)

lemma rbind_Inl [simp]: "rbind (Inl e) f = Inl e"
  by (simp add: rbind_def)

lemma rbind_eq_Inr [simp]: "rbind m f = Inr y \<longleftrightarrow> (\<exists>x. m = Inr x \<and> f x = Inr y)"
  by (cases m) auto

lemma rbind_assoc: "rbind (rbind m f) g = rbind m (\<lambda>x. rbind (f x) g)"
  by (cases m) auto

lemma rbind_cong [fundef_cong]:
  "m = m' \<Longrightarrow> (\<And>x. m' = Inr x \<Longrightarrow> f x = f' x) \<Longrightarrow> rbind m f = rbind m' f'"
  by (cases m') auto

section \<open>Collections of facts\<close>

named_theorems fos_consts \<open>values of the layout constants of inc/memlayout.h and inc/mmu.h\<close>
named_theorems word_facts \<open>facts about address arithmetic on words\<close>

section \<open>Words\<close>

lemma unat_u32_less: "unat (w :: u32) < 4294967296"
  using unsigned_less [of w, where 'a = nat] by simp

lemma unat_u32_le: "unat (w :: u32) \<le> 4294967295"
  using unat_u32_less [of w] by simp

lemma unat_add_u32:
  "unat (a :: u32) + unat b < 4294967296 \<Longrightarrow> unat (a + b) = unat a + unat b"
  using unat_add_lem [of a b] by simp

lemma unat_plus1_less: "(i :: u32) < n \<Longrightarrow> unat (i + 1) = unat i + 1"
  using unat_add_u32 [of i 1] unat_u32_less [of n] by (simp add: word_less_nat_alt)

lemma plus1_le_less: "(i :: u32) < n \<Longrightarrow> i + 1 \<le> n"
  by (simp add: word_le_nat_alt unat_plus1_less) (simp add: word_less_nat_alt)

lemma of_nat_u32_eq: "i < 4294967296 \<Longrightarrow> j < 4294967296 \<Longrightarrow> (of_nat i :: u32) = of_nat j \<longleftrightarrow> i = j"
  by (simp add: word_of_nat_eq_iff take_bit_nat_eq_self)

lemma unat_plus_of_nat: "unat (p :: u32) + i < 2 ^ 32 \<Longrightarrow> unat (p + of_nat i) = unat p + i"
  by (simp add: unat_word_ariths unat_of_nat)

lemma unat_minus_1: "x \<noteq> 0 \<Longrightarrow> unat (x - 1 :: u32) = unat x - 1"
  by (simp add: unat_minus_one)

text \<open>Counting loops over words terminate.\<close>

lemma word_loop_measure: "(i :: u32) < n \<Longrightarrow> unat n - unat (i + 1) < unat n - unat i"
  by (simp add: unat_plus1_less) (simp add: word_less_nat_alt diff_less_mono2)

section \<open>Lists\<close>

lemma last_opt_cases: "xs = [] \<or> (\<exists>ys y. xs = ys @ [y])"
  by (cases xs rule: rev_cases) auto

lemma remove1_split:
  assumes "distinct (as @ x # bs)"
  shows "remove1 x (as @ x # bs) = as @ bs"
  using assms by (simp add: remove1_append)

lemma distinct_split_unique:
  assumes "distinct xs" and "x \<in> set xs"
  obtains as bs where "xs = as @ x # bs" and "x \<notin> set as" and "x \<notin> set bs"
  using assms by (metis distinct.simps(2) distinct_append not_distinct_conv_prefix
      split_list disjoint_insert(1) list.set(2))

end
