(* ===== verification/FOS_Mmu.thy ===== *)
theory FOS_Mmu
  imports FOS_Prelude
begin

text \<open>
  The address arithmetic of the kernel: the decomposition of linear addresses and the
  page-table-entry flags of inc/mmu.h, the rounding macros of inc/types.h, the address-space
  layout of inc/memlayout.h and the entry constructor of kern/helpers.h, all on 32-bit words.
  The lemmas give the algebra the other theories use: a page address is determined by its
  directory and table index, and an entry built from a frame and permissions gives both back.
\<close>

section \<open>Paging constants (inc/mmu.h)\<close>

definition PAGE_SIZE :: u32 where "PAGE_SIZE = 4096"
definition PTSIZE :: u32 where "PTSIZE = 0x400000"
definition PERM_PRESENT :: u32 where "PERM_PRESENT = 0x001"
definition PERM_WRITEABLE :: u32 where "PERM_WRITEABLE = 0x002"
definition PERM_USER :: u32 where "PERM_USER = 0x004"
definition PERM_USED :: u32 where "PERM_USED = 0x020"
definition PERM_MODIFIED :: u32 where "PERM_MODIFIED = 0x040"
definition PERM_BUFFERED :: u32 where "PERM_BUFFERED = 0x200"
definition PERM_AVAILABLE :: u32 where "PERM_AVAILABLE = 0xE00"

section \<open>Decomposing linear addresses (inc/mmu.h)\<close>

definition PPN :: "u32 \<Rightarrow> u32" where "PPN la = drop_bit 12 la"
definition PDX :: "u32 \<Rightarrow> u32" where "PDX la = drop_bit 22 la AND 0x3FF"
definition PTX :: "u32 \<Rightarrow> u32" where "PTX la = drop_bit 12 la AND 0x3FF"
definition PGOFF :: "u32 \<Rightarrow> u32" where "PGOFF la = la AND 0xFFF"
definition PGADDR :: "u32 \<Rightarrow> u32 \<Rightarrow> u32 \<Rightarrow> u32" where
  "PGADDR d t off = push_bit 22 d OR push_bit 12 t OR off"
definition EXTRACT_ADDRESS :: "u32 \<Rightarrow> u32" where "EXTRACT_ADDRESS entry = entry AND NOT 0xFFF"

text \<open>kern/helpers.h builds a directory or table entry by disjunction.\<close>

definition CONSTRUCT_ENTRY :: "u32 \<Rightarrow> u32 \<Rightarrow> u32" where
  "CONSTRUCT_ENTRY phys_frame_address permissions = phys_frame_address OR permissions"

section \<open>Rounding (inc/types.h)\<close>

definition ROUNDDOWN :: "u32 \<Rightarrow> u32 \<Rightarrow> u32" where "ROUNDDOWN a n = a - a mod n"
definition ROUNDUP :: "u32 \<Rightarrow> u32 \<Rightarrow> u32" where "ROUNDUP a n = ROUNDDOWN (a + n - 1) n"

section \<open>Address-space layout (inc/memlayout.h)\<close>

definition KERNEL_BASE :: u32 where "KERNEL_BASE = 0xF0000000"
definition PHYS_IO_MEM :: u32 where "PHYS_IO_MEM = 0x0A0000"
definition PHYS_EXTENDED_MEM :: u32 where "PHYS_EXTENDED_MEM = 0x100000"
definition VPT :: u32 where "VPT = KERNEL_BASE - PTSIZE"
definition KERNEL_STACK_TOP :: u32 where "KERNEL_STACK_TOP = VPT"
definition KERNEL_STACK_SIZE :: u32 where "KERNEL_STACK_SIZE = 8 * PAGE_SIZE"
definition USER_LIMIT :: u32 where "USER_LIMIT = KERNEL_STACK_TOP - PTSIZE"
definition UVPT :: u32 where "UVPT = USER_LIMIT - PTSIZE"
definition UENVS :: u32 where "UENVS = UVPT - 2 * PTSIZE"
definition USER_TOP :: u32 where "USER_TOP = UENVS"
definition USTACKTOP :: u32 where "USTACKTOP = USER_TOP - 2 * PAGE_SIZE"
definition KERNEL_HEAP_START :: u32 where "KERNEL_HEAP_START = 0xF6000000"
definition KERNEL_HEAP_MAX :: u32 where "KERNEL_HEAP_MAX = 0xFFFFF000"
definition USER_HEAP_START :: u32 where "USER_HEAP_START = 0x80000000"
definition USER_HEAP_MAX :: u32 where "USER_HEAP_MAX = 0xA0000000"
definition USER_PAGES_WS_START :: u32 where "USER_PAGES_WS_START = USER_HEAP_MAX"

lemmas layout_defs [fos_consts] =
  PAGE_SIZE_def PTSIZE_def PERM_PRESENT_def PERM_WRITEABLE_def PERM_USER_def PERM_USED_def
  PERM_MODIFIED_def PERM_BUFFERED_def PERM_AVAILABLE_def KERNEL_BASE_def PHYS_IO_MEM_def
  PHYS_EXTENDED_MEM_def VPT_def KERNEL_STACK_TOP_def KERNEL_STACK_SIZE_def USER_LIMIT_def
  UVPT_def UENVS_def USER_TOP_def USTACKTOP_def KERNEL_HEAP_START_def KERNEL_HEAP_MAX_def
  USER_HEAP_START_def USER_HEAP_MAX_def USER_PAGES_WS_START_def

section \<open>The algebra of addresses\<close>

lemma mask_10: "(0x3FF :: u32) = mask 10" and mask_12: "(0xFFF :: u32) = mask 12"
  by (simp_all add: mask_eq_exp_minus_1)

lemma bit_PDX: "bit (PDX la) n \<longleftrightarrow> n < 10 \<and> bit la (22 + n)"
  by (auto simp: PDX_def mask_10 bit_simps dest: bit_imp_le_length)

lemma bit_PTX: "bit (PTX la) n \<longleftrightarrow> n < 10 \<and> bit la (12 + n)"
  by (auto simp: PTX_def mask_10 bit_simps dest: bit_imp_le_length)

lemma bit_PPN: "bit (PPN la) n \<longleftrightarrow> bit la (12 + n)"
  by (auto simp: PPN_def bit_simps)

lemma bit_PGOFF: "bit (PGOFF la) n \<longleftrightarrow> n < 12 \<and> bit la n"
  by (auto simp: PGOFF_def mask_12 bit_simps)

lemma bit_EXTRACT: "bit (EXTRACT_ADDRESS e) n \<longleftrightarrow> 12 \<le> n \<and> bit e n"
  by (auto simp: EXTRACT_ADDRESS_def mask_12 bit_simps dest: bit_imp_le_length)

lemmas bit_macros = bit_PDX bit_PTX bit_PPN bit_PGOFF bit_EXTRACT

lemma PDX_bound [simp]: "PDX la < 0x400" and PTX_bound [simp]: "PTX la < 0x400"
  and PGOFF_bound [simp]: "PGOFF la < 0x1000"
  using and_mask_less' [of 10 "drop_bit 22 la"] and_mask_less' [of 10 "drop_bit 12 la"]
    and_mask_less' [of 12 la]
  by (simp_all add: PDX_def PTX_def PGOFF_def mask_10 mask_12)

lemma PPN_bound [simp]: "PPN la < 0x100000"
proof -
  have "unat la < 2 ^ 32" using unsigned_less [of la] by simp
  then show ?thesis
    by (simp add: PPN_def word_less_nat_alt unat_div_distrib drop_bit_eq_div)
qed

text \<open>An address is its directory index, table index and offset put together again.\<close>

lemma PGADDR_decompose: "PGADDR (PDX la) (PTX la) (PGOFF la) = la"
proof (rule bit_eqI)
  fix n assume "possible_bit TYPE(u32) n"
  then show "bit (PGADDR (PDX la) (PTX la) (PGOFF la)) n = bit la n"
    by (cases "n < 12"; cases "n < 22") (auto simp: PGADDR_def bit_macros bit_simps)
qed

text \<open>Two addresses with the same directory and table index are on the same page.\<close>

lemma PPN_eq_iff: "PPN v = PPN w \<longleftrightarrow> PDX v = PDX w \<and> PTX v = PTX w"
proof
  assume eq: "PPN v = PPN w"
  then have *: "bit v (12 + n) = bit w (12 + n)" for n
    by (metis bit_PPN)
  have "bit (PDX v) n = bit (PDX w) n" "bit (PTX v) n = bit (PTX w) n" for n
    using * [of n] * [of "10 + n"] by (auto simp: bit_PDX bit_PTX)
  then show "PDX v = PDX w \<and> PTX v = PTX w"
    by (auto intro: bit_eqI)
next
  assume eq: "PDX v = PDX w \<and> PTX v = PTX w"
  show "PPN v = PPN w"
  proof (rule bit_eqI)
    fix n assume "possible_bit TYPE(u32) n"
    show "bit (PPN v) n = bit (PPN w) n"
    proof (cases "n < 10")
      case True
      then show ?thesis using eq by (metis bit_PPN bit_PTX)
    next
      case False
      show ?thesis
      proof (cases "n < 20")
        case True
        then have "bit (PDX v) (n - 10) = bit v (12 + n)" "bit (PDX w) (n - 10) = bit w (12 + n)"
          using False by (auto simp: bit_PDX)
        then show ?thesis using eq by (simp add: bit_PPN)
      next
        case False
        then show ?thesis by (auto simp: bit_PPN dest: bit_imp_le_length)
      qed
    qed
  qed
qed

text \<open>Permissions are the low twelve bits of an entry, the frame the high twenty.\<close>

lemma bit_lt_exp: "(p :: u32) < 2 ^ k \<Longrightarrow> bit p n \<Longrightarrow> n < k"
  by (metis bit_and_iff bit_mask_iff less_mask_eq)

lemma bit_lt_4096: "(p :: u32) < 0x1000 \<Longrightarrow> bit p n \<Longrightarrow> n < 12"
  using bit_lt_exp [of p 12] by simp

lemma bit_lt_frame: "(f :: u32) < 0x100000 \<Longrightarrow> bit f n \<Longrightarrow> n < 20"
  using bit_lt_exp [of f 20] by simp

lemma EXTRACT_CONSTRUCT:
  assumes "p < 0x1000"
  shows "EXTRACT_ADDRESS (CONSTRUCT_ENTRY (push_bit 12 f) p) = push_bit 12 f"
  by (rule bit_eqI) (auto simp: bit_EXTRACT CONSTRUCT_ENTRY_def bit_simps dest: bit_lt_4096 [OF assms])

lemma PPN_CONSTRUCT:
  assumes "f < 0x100000" and "p < 0x1000"
  shows "PPN (CONSTRUCT_ENTRY (push_bit 12 f) p) = f"
  by (rule bit_eqI) (auto simp: bit_PPN CONSTRUCT_ENTRY_def bit_simps
      dest: bit_lt_4096 [OF assms(2)] bit_lt_frame [OF assms(1)])

lemma PPN_push_bit:
  assumes "f < 0x100000"
  shows "PPN (push_bit 12 f) = f"
  using PPN_CONSTRUCT [OF assms, of 0] by (simp add: CONSTRUCT_ENTRY_def)

lemma PPN_EXTRACT: "PPN (EXTRACT_ADDRESS e) = PPN e"
  by (rule bit_eqI) (auto simp: bit_macros)

lemma EXTRACT_eq_push: "EXTRACT_ADDRESS e = push_bit 12 (PPN e)"
  by (rule bit_eqI) (auto simp: bit_macros bit_simps)

lemma push_bit_12_eq_0: "f < 0x100000 \<Longrightarrow> push_bit 12 (f :: u32) = 0 \<longleftrightarrow> f = 0"
  using PPN_push_bit [of f] by (auto simp: PPN_def)

lemma present_CONSTRUCT:
  "CONSTRUCT_ENTRY (push_bit 12 f) (p OR PERM_PRESENT) AND PERM_PRESENT = PERM_PRESENT"
  by (rule bit_eqI) (auto simp: CONSTRUCT_ENTRY_def bit_simps PERM_PRESENT_def)

lemma CONSTRUCT_present_neq_0: "CONSTRUCT_ENTRY a (p OR PERM_PRESENT) \<noteq> 0"
proof
  assume "CONSTRUCT_ENTRY a (p OR PERM_PRESENT) = 0"
  then have "\<not> bit (CONSTRUCT_ENTRY a (p OR PERM_PRESENT)) 0" by simp
  then show False by (simp add: CONSTRUCT_ENTRY_def bit_simps PERM_PRESENT_def)
qed

lemma perm_or_bound: "p < 0x1000 \<Longrightarrow> p OR PERM_PRESENT < 0x1000"
proof -
  assume "p < 0x1000"
  then have "p AND mask 12 = p" by (intro less_mask_eq) simp
  then have "(p OR PERM_PRESENT) AND mask 12 = p OR PERM_PRESENT"
    by (simp add: word_bw_comms word_ao_dist PERM_PRESENT_def mask_eq_exp_minus_1)
  then show ?thesis using and_mask_less' [of 12 "p OR PERM_PRESENT"] by simp
qed

section \<open>Rounding\<close>

lemma ROUNDDOWN_eq: "ROUNDDOWN a n = a div n * n"
  by (simp add: ROUNDDOWN_def minus_mod_eq_div_mult)

lemma ROUNDDOWN_page: "ROUNDDOWN a PAGE_SIZE = push_bit 12 (PPN a)"
  by (simp add: ROUNDDOWN_eq PAGE_SIZE_def PPN_def push_bit_eq_mult drop_bit_eq_div)

lemma unat_ROUNDDOWN: "unat (ROUNDDOWN a n) = unat a - unat a mod unat n"
proof -
  have "a mod n \<le> a" by (simp add: word_le_nat_alt unat_mod_distrib)
  then show ?thesis by (simp add: ROUNDDOWN_def unat_sub unat_mod_distrib)
qed

lemma unat_ROUNDUP:
  assumes "0 < n" and "unat a + unat n - 1 < 2 ^ 32"
  shows "unat (ROUNDUP a n) = (unat a + unat n - 1) div unat n * unat n"
proof -
  have n0: "0 < unat n" using assms(1) by (simp add: word_less_nat_alt)
  have "1 \<le> n" using assms(1) by (simp add: word_le_nat_alt word_less_nat_alt)
  then have "unat (n - 1) = unat n - 1" by (simp add: unat_sub word_le_nat_alt)
  then have "unat (a + (n - 1)) = unat a + unat n - 1"
    using assms(2) n0 by (subst unat_add_lem [THEN iffD1]) auto
  then have "unat (a + n - 1) = unat a + unat n - 1" by (simp add: add_diff_eq)
  then show ?thesis
    by (simp add: ROUNDUP_def unat_ROUNDDOWN minus_mod_eq_div_mult)
qed

section \<open>Properties\<close>

lemma bit_lt_1024: "(d :: u32) < 0x400 \<Longrightarrow> bit d n \<Longrightarrow> n < 10"
  using bit_lt_exp [of d 10] by simp

lemma PGADDR_parts:
  assumes "d < 0x400" and "t < 0x400" and "off < 0x1000"
  shows "PDX (PGADDR d t off) = d" and "PTX (PGADDR d t off) = t" and "PGOFF (PGADDR d t off) = off"
proof -
  note [dest] = bit_lt_1024 [OF assms(1)] bit_lt_1024 [OF assms(2)] bit_lt_4096 [OF assms(3)]
  show "PDX (PGADDR d t off) = d"
    by (rule bit_eqI) (auto simp: bit_PDX PGADDR_def bit_simps)
  show "PTX (PGADDR d t off) = t"
    by (rule bit_eqI) (auto simp: bit_PTX PGADDR_def bit_simps)
  show "PGOFF (PGADDR d t off) = off"
    by (rule bit_eqI) (auto simp: bit_PGOFF PGADDR_def bit_simps)
qed

text \<open>
  PGADDR and the macros PDX, PTX and PGOFF are inverse to each other: the parts of an address
  built from in-range indices and an offset are these, and every address is built from its parts.
\<close>

theorem linear_address_roundtrip:
  assumes "d < 0x400" and "t < 0x400" and "off < 0x1000"
  shows "PDX (PGADDR d t off) = d \<and> PTX (PGADDR d t off) = t \<and> PGOFF (PGADDR d t off) = off
    \<and> PGADDR (PDX la) (PTX la) (PGOFF la) = la"
  using PGADDR_parts [OF assms] PGADDR_decompose by simp

theorem linear_address_roundtrip_witness:
  "PDX (PGADDR 960 17 5) = 960 \<and> PTX (PGADDR 960 17 5) = 17 \<and> PGOFF (PGADDR 960 17 5) = 5
    \<and> PGADDR (PDX 0xF0011005) (PTX 0xF0011005) (PGOFF 0xF0011005) = 0xF0011005"
  by (rule linear_address_roundtrip) simp_all

text \<open>
  A page-table entry built from a frame and permission bits gives back the frame's physical
  address, its number, and the permissions.
\<close>

theorem page_entry_roundtrip:
  assumes "f < 0x100000" and "perm < 0x1000"
  shows "EXTRACT_ADDRESS (CONSTRUCT_ENTRY (push_bit 12 f) perm) = push_bit 12 f
    \<and> PPN (CONSTRUCT_ENTRY (push_bit 12 f) perm) = f
    \<and> CONSTRUCT_ENTRY (push_bit 12 f) perm AND 0xFFF = perm"
proof -
  have "CONSTRUCT_ENTRY (push_bit 12 f) perm AND 0xFFF = perm"
    by (rule bit_eqI) (auto simp: CONSTRUCT_ENTRY_def mask_12 bit_simps dest: bit_lt_4096 [OF assms(2)])
  then show ?thesis using EXTRACT_CONSTRUCT [OF assms(2)] PPN_CONSTRUCT [OF assms] by simp
qed

theorem page_entry_roundtrip_witness:
  "EXTRACT_ADDRESS (CONSTRUCT_ENTRY (push_bit 12 300) 7) = push_bit 12 300
    \<and> PPN (CONSTRUCT_ENTRY (push_bit 12 300) 7) = 300
    \<and> CONSTRUCT_ENTRY (push_bit 12 300) 7 AND 0xFFF = 7"
  by (rule page_entry_roundtrip) simp_all

text \<open>
  As long as the sum does not overflow, ROUNDUP gives the least multiple not below its argument
  and ROUNDDOWN the greatest multiple not above it.
\<close>

theorem rounding_tight:
  assumes "0 < n" and "unat a + unat n - 1 < 2 ^ 32"
  shows "unat n dvd unat (ROUNDUP a n) \<and> unat a \<le> unat (ROUNDUP a n)
    \<and> unat (ROUNDUP a n) < unat a + unat n
    \<and> unat n dvd unat (ROUNDDOWN a n) \<and> unat (ROUNDDOWN a n) \<le> unat a
    \<and> unat a < unat (ROUNDDOWN a n) + unat n"
proof -
  have n: "0 < unat n" using assms(1) by (simp add: word_less_nat_alt)
  let ?m = "unat a + unat n - 1"
  have "?m = ?m div unat n * unat n + ?m mod unat n" "?m mod unat n < unat n" using n by simp_all
  then have "unat a \<le> ?m div unat n * unat n" "?m div unat n * unat n < unat a + unat n" using n by linarith+
  moreover have "unat a < unat a - unat a mod unat n + unat n"
    using mod_less_divisor [OF n, of "unat a"] by linarith
  moreover have "unat n dvd unat a - unat a mod unat n" by (simp add: minus_mod_eq_div_mult)
  ultimately show ?thesis unfolding unat_ROUNDUP [OF assms] unat_ROUNDDOWN by simp
qed

theorem rounding_tight_witness:
  "unat (4096 :: u32) dvd unat (ROUNDUP 5000 4096) \<and> unat (5000 :: u32) \<le> unat (ROUNDUP 5000 4096)
    \<and> unat (ROUNDUP 5000 4096) < unat (5000 :: u32) + unat (4096 :: u32)
    \<and> unat (4096 :: u32) dvd unat (ROUNDDOWN 5000 4096) \<and> unat (ROUNDDOWN 5000 4096) \<le> unat (5000 :: u32)
    \<and> unat (5000 :: u32) < unat (ROUNDDOWN 5000 4096) + unat (4096 :: u32)"
  by (rule rounding_tight) simp_all

end
