(* ===== verification/FOS_Queue.thy ===== *)
theory FOS_Queue
  imports FOS_Prelude
begin

text \<open>
  The intrusive doubly-linked lists of inc/queue.h, at the level of the pointers the macros
  assign, with the queue operations of kern/semaphore_manager.c on top of them. The free-frame
  list, the page-file free list, the environment queues and the semaphore queues of the kernel
  are all lists of this kind.

  A list element is a value of an arbitrary type (the address of the structure that embeds the
  links); \<open>None\<close> is NULL. A list state holds the head structure and the two link fields of
  every element. The relation \<open>list_repr\<close> says which sequence of elements such a state
  represents, and each macro is shown to implement the operation on sequences that the rest of
  the kernel relies on; the interface is the locale \<open>kernel_list\<close>.
\<close>

section \<open>Heads, links and macros\<close>

text \<open>LIST_HEAD declares the head, LIST_ENTRY the two links of an element.\<close>

record 'a list_state =
  lh_first :: "'a option"
  lh_last :: "'a option"
  lh_size :: u32
  le_next :: "'a \<Rightarrow> 'a option"
  le_prev :: "'a \<Rightarrow> 'a option"

definition LIST_EMPTY :: "'a list_state \<Rightarrow> bool" where
  "LIST_EMPTY l = (lh_first l = None)"

text \<open>LIST_INIT resets the head only; links of elements are left as they are.\<close>

definition LIST_INIT :: "'a list_state \<Rightarrow> 'a list_state" where
  "LIST_INIT l = l\<lparr>lh_first := None, lh_last := None, lh_size := 0\<rparr>"

definition LIST_INSERT_HEAD :: "'a list_state \<Rightarrow> 'a \<Rightarrow> 'a list_state" where
  "LIST_INSERT_HEAD l elm =
     (let l1 = l\<lparr>le_next := (le_next l)(elm := lh_first l)\<rparr>;
          l2 = (case lh_first l1 of
                  Some f \<Rightarrow> l1\<lparr>le_prev := (le_prev l1)(f := Some elm)\<rparr>
                | None \<Rightarrow> l1\<lparr>lh_last := Some elm\<rparr>);
          l3 = l2\<lparr>lh_first := Some elm\<rparr>
      in l3\<lparr>le_prev := (le_prev l3)(elm := None), lh_size := lh_size l3 + 1\<rparr>)"

definition LIST_INSERT_TAIL :: "'a list_state \<Rightarrow> 'a \<Rightarrow> 'a list_state" where
  "LIST_INSERT_TAIL l elm =
     (let l1 = l\<lparr>le_prev := (le_prev l)(elm := lh_last l)\<rparr>;
          l2 = (case lh_last l1 of
                  Some t \<Rightarrow> l1\<lparr>le_next := (le_next l1)(t := Some elm)\<rparr>
                | None \<Rightarrow> l1\<lparr>lh_first := Some elm\<rparr>);
          l3 = l2\<lparr>lh_last := Some elm\<rparr>
      in l3\<lparr>le_next := (le_next l3)(elm := None), lh_size := lh_size l3 + 1\<rparr>)"

definition LIST_INSERT_AFTER :: "'a list_state \<Rightarrow> 'a \<Rightarrow> 'a \<Rightarrow> 'a list_state" where
  "LIST_INSERT_AFTER l listelm elm =
     (let l1 = l\<lparr>le_next := (le_next l)(elm := le_next l listelm)\<rparr>;
          l2 = (case le_next l1 listelm of
                  Some n \<Rightarrow> l1\<lparr>le_prev := (le_prev l1)(n := Some elm)\<rparr>
                | None \<Rightarrow> l1);
          l3 = l2\<lparr>le_next := (le_next l2)(listelm := Some elm)\<rparr>;
          l4 = l3\<lparr>le_prev := (le_prev l3)(elm := Some listelm)\<rparr>;
          l5 = (if le_next l4 elm = None then l4\<lparr>lh_last := Some elm\<rparr> else l4)
      in l5\<lparr>lh_size := lh_size l5 + 1\<rparr>)"

definition LIST_INSERT_BEFORE :: "'a list_state \<Rightarrow> 'a \<Rightarrow> 'a \<Rightarrow> 'a list_state" where
  "LIST_INSERT_BEFORE l listelm elm =
     (let l1 = l\<lparr>le_prev := (le_prev l)(elm := le_prev l listelm)\<rparr>;
          l2 = l1\<lparr>le_next := (le_next l1)(elm := Some listelm)\<rparr>;
          l3 = (case le_prev l2 listelm of
                  Some p \<Rightarrow> l2\<lparr>le_next := (le_next l2)(p := Some elm)\<rparr>
                | None \<Rightarrow> l2\<lparr>lh_first := Some elm\<rparr>);
          l4 = l3\<lparr>le_prev := (le_prev l3)(listelm := Some elm)\<rparr>
      in l4\<lparr>lh_size := lh_size l4 + 1\<rparr>)"

definition LIST_REMOVE :: "'a list_state \<Rightarrow> 'a \<Rightarrow> 'a list_state" where
  "LIST_REMOVE l elm =
     (let l1 = (case le_next l elm of
                  Some n \<Rightarrow> l\<lparr>le_prev := (le_prev l)(n := le_prev l elm)\<rparr>
                | None \<Rightarrow> l\<lparr>lh_last := le_prev l elm\<rparr>);
          l2 = (case le_prev l1 elm of
                  Some p \<Rightarrow> l1\<lparr>le_next := (le_next l1)(p := le_next l1 elm)\<rparr>
                | None \<Rightarrow> l1\<lparr>lh_first := le_next l1 elm\<rparr>)
      in l2\<lparr>le_next := (le_next l2)(elm := None), le_prev := (le_prev l2)(elm := None),
            lh_size := lh_size l2 - 1\<rparr>)"

text \<open>
  LIST_CONCAT appends a second list, given by its own head (first, last, size), whose elements
  keep their links in the same structures; it returns both heads. A NULL dereference is \<open>None\<close>.
\<close>

definition LIST_CONCAT ::
  "'a list_state \<Rightarrow> 'a option \<times> 'a option \<times> u32
     \<Rightarrow> ('a list_state \<times> 'a option \<times> 'a option \<times> u32) option" where
  "LIST_CONCAT l1 l2 =
     (let (first2, last2, size2) = l2 in
      Option.bind
        (if lh_first l1 = None then
           Some (l1\<lparr>lh_first := first2, lh_last := last2\<rparr>, first2, last2, size2)
         else (case first2 of
             None \<Rightarrow> Some (l1, first2, last2, size2)
           | Some f2 \<Rightarrow>
               (case lh_last l1 of
                  None \<Rightarrow> None
                | Some t1 \<Rightarrow>
                    Some (l1\<lparr>le_next := (le_next l1)(t1 := Some f2),
                             le_prev := (le_prev l1)(f2 := Some t1),
                             lh_last := last2\<rparr>, None, None, 0))))
        (\<lambda>(a, f, t, n). Some (a\<lparr>lh_size := lh_size a + n\<rparr>, f, t, n)))"

text \<open>
  LIST_FOREACH saves the successor of the current element (in ___ptr_next) before it runs the
  body, so the body may unlink the element. The loop is a partial function: it returns only if
  the chain of successors ends.
\<close>

partial_function (option) LIST_FOREACH ::
  "('s \<Rightarrow> 'a \<Rightarrow> 'a option) \<Rightarrow> ('a \<Rightarrow> 's \<Rightarrow> 's) \<Rightarrow> 'a option \<Rightarrow> 's \<Rightarrow> 's option" where
  "LIST_FOREACH nxt body var s =
     (case var of
        None \<Rightarrow> Some s
      | Some x \<Rightarrow> let ptr_next = nxt s x in LIST_FOREACH nxt body ptr_next (body x s))"

text \<open>
  The queues of blocked environments (kern/semaphore_manager.c): dequeue() unlinks the last
  element; on an empty queue LIST_REMOVE dereferences NULL, which is \<open>None\<close> here.
\<close>

definition enqueue :: "'a list_state \<Rightarrow> 'a \<Rightarrow> 'a list_state" where
  "enqueue queue env = LIST_INSERT_HEAD queue env"

definition dequeue :: "'a list_state \<Rightarrow> ('a \<times> 'a list_state) option" where
  "dequeue queue =
     (case lh_last queue of
        None \<Rightarrow> None
      | Some envItem \<Rightarrow> Some (envItem, LIST_REMOVE queue envItem))"

section \<open>The sequence a list state represents\<close>

fun first_of :: "'a list \<Rightarrow> 'a option" where
  "first_of [] = None"
| "first_of (x # xs) = Some x"

definition last_of :: "'a list \<Rightarrow> 'a option" where
  "last_of xs = first_of (rev xs)"

text \<open>\<open>seg nx xs e\<close>: following \<open>nx\<close> from the first element passes through \<open>xs\<close> and leaves to \<open>e\<close>.\<close>

fun seg :: "('a \<Rightarrow> 'a option) \<Rightarrow> 'a list \<Rightarrow> 'a option \<Rightarrow> bool" where
  "seg nx [] e = True"
| "seg nx (x # xs) e = (nx x = (if xs = [] then e else first_of xs) \<and> seg nx xs e)"

definition list_repr :: "'a list_state \<Rightarrow> 'a list \<Rightarrow> bool" where
  "list_repr l xs \<longleftrightarrow> distinct xs \<and> lh_first l = first_of xs \<and> lh_last l = last_of xs
     \<and> seg (le_next l) xs None \<and> seg (le_prev l) (rev xs) None
     \<and> lh_size l = of_nat (length xs)"

lemma first_of_None [simp]: "first_of xs = None \<longleftrightarrow> xs = []"
  by (cases xs) auto

lemma first_of_eq_Some: "first_of xs = Some x \<longleftrightarrow> (\<exists>ys. xs = x # ys)"
  by (cases xs) auto

lemma first_of_append [simp]:
  "first_of (xs @ ys) = (if xs = [] then first_of ys else first_of xs)"
  by (cases xs) auto

lemma last_of_simps [simp]:
  "last_of [] = None" "last_of (xs @ [x]) = Some x" "last_of xs = None \<longleftrightarrow> xs = []"
  "last_of (x # xs) = (if xs = [] then Some x else last_of xs)"
  by (auto simp: last_of_def)

lemma last_of_append [simp]:
  "last_of (xs @ ys) = (if ys = [] then last_of xs else last_of ys)"
  by (auto simp: last_of_def)

lemma last_of_eq_Some: "last_of xs = Some x \<longleftrightarrow> (\<exists>ys. xs = ys @ [x])"
  by (cases xs rule: rev_cases) auto

lemma first_of_rev [simp]: "first_of (rev xs) = last_of xs"
  by (simp add: last_of_def)

lemma last_of_rev [simp]: "last_of (rev xs) = first_of xs"
  by (simp add: last_of_def)

lemma seg_append [simp]:
  "seg nx (xs @ ys) e \<longleftrightarrow> seg nx xs (if ys = [] then e else first_of ys) \<and> seg nx ys e"
  by (induction xs) auto

lemma seg_upd_notin [simp]: "x \<notin> set xs \<Longrightarrow> seg (nx(x := v)) xs e = seg nx xs e"
  by (induction xs) auto

lemma list_repr_distinct: "list_repr l xs \<Longrightarrow> distinct xs"
  by (simp add: list_repr_def)

lemma list_repr_first: "list_repr l xs \<Longrightarrow> lh_first l = first_of xs"
  by (simp add: list_repr_def)

lemma list_repr_last: "list_repr l xs \<Longrightarrow> lh_last l = last_of xs"
  by (simp add: list_repr_def)

lemma list_repr_next:
  "list_repr l (as @ x # bs) \<Longrightarrow> le_next l x = first_of bs"
  by (auto simp: list_repr_def)

lemma list_repr_prev:
  "list_repr l (as @ x # bs) \<Longrightarrow> le_prev l x = last_of as"
  by (auto simp: list_repr_def)

section \<open>The macros implement the operations on sequences\<close>

lemma LIST_INIT_repr: "list_repr (LIST_INIT l) []"
  by (simp add: LIST_INIT_def list_repr_def)

lemma LIST_INSERT_HEAD_repr:
  assumes "list_repr l xs" and "x \<notin> set xs"
  shows "list_repr (LIST_INSERT_HEAD l x) (x # xs)"
proof (cases xs)
  case Nil
  then show ?thesis using assms by (simp add: list_repr_def LIST_INSERT_HEAD_def)
next
  case (Cons y ys)
  then show ?thesis using assms by (auto simp: list_repr_def LIST_INSERT_HEAD_def)
qed

lemma LIST_INSERT_TAIL_repr:
  assumes "list_repr l xs" and "x \<notin> set xs"
  shows "list_repr (LIST_INSERT_TAIL l x) (xs @ [x])"
proof (cases xs rule: rev_cases)
  case Nil
  then show ?thesis using assms by (simp add: list_repr_def LIST_INSERT_TAIL_def)
next
  case (snoc ys y)
  then show ?thesis using assms by (auto simp: list_repr_def LIST_INSERT_TAIL_def)
qed

lemma LIST_INSERT_AFTER_repr:
  assumes "list_repr l (as @ y # bs)" and "x \<notin> set (as @ y # bs)"
  shows "list_repr (LIST_INSERT_AFTER l y x) (as @ y # x # bs)"
  using assms
  by (cases bs) (auto simp: list_repr_def LIST_INSERT_AFTER_def Let_def)

lemma LIST_INSERT_BEFORE_repr:
  assumes "list_repr l (as @ y # bs)" and "x \<notin> set (as @ y # bs)"
  shows "list_repr (LIST_INSERT_BEFORE l y x) (as @ x # y # bs)"
  using assms
  by (cases as rule: rev_cases) (auto simp: list_repr_def LIST_INSERT_BEFORE_def Let_def)

lemma LIST_REMOVE_repr_split:
  assumes "list_repr l (as @ x # bs)"
  shows "list_repr (LIST_REMOVE l x) (as @ bs)"
  using assms
  by (cases as rule: rev_cases; cases bs) (auto simp: list_repr_def LIST_REMOVE_def Let_def)

lemma LIST_REMOVE_repr:
  assumes "list_repr l xs" and "x \<in> set xs"
  shows "list_repr (LIST_REMOVE l x) (remove1 x xs)"
proof -
  obtain as bs where xs: "xs = as @ x # bs"
    using assms(2) by (meson split_list)
  with assms(1) have "distinct (as @ x # bs)" by (metis list_repr_distinct)
  then show ?thesis using assms(1) by (simp add: xs remove1_split LIST_REMOVE_repr_split)
qed

text \<open>A sequence of macro calls, with the guard under which the kernel may make each of them.\<close>

datatype 'a list_op =
    Op_Init
  | Op_Insert_Head 'a
  | Op_Insert_Tail 'a
  | Op_Insert_After 'a 'a
  | Op_Insert_Before 'a 'a
  | Op_Remove 'a

fun list_op_macro :: "'a list_op \<Rightarrow> 'a list_state \<Rightarrow> 'a list_state" where
  "list_op_macro Op_Init l = LIST_INIT l"
| "list_op_macro (Op_Insert_Head x) l = LIST_INSERT_HEAD l x"
| "list_op_macro (Op_Insert_Tail x) l = LIST_INSERT_TAIL l x"
| "list_op_macro (Op_Insert_After y x) l = LIST_INSERT_AFTER l y x"
| "list_op_macro (Op_Insert_Before y x) l = LIST_INSERT_BEFORE l y x"
| "list_op_macro (Op_Remove x) l = LIST_REMOVE l x"

text \<open>The abstract operations on sequences; \<open>None\<close> where the call is not allowed.\<close>

fun insert_next_to :: "bool \<Rightarrow> 'a \<Rightarrow> 'a \<Rightarrow> 'a list \<Rightarrow> 'a list" where
  "insert_next_to after y x [] = []"
| "insert_next_to after y x (z # zs) =
     (if z = y then (if after then z # x # zs else x # z # zs)
      else z # insert_next_to after y x zs)"

fun list_op_spec :: "'a list_op \<Rightarrow> 'a list \<Rightarrow> 'a list option" where
  "list_op_spec Op_Init xs = Some []"
| "list_op_spec (Op_Insert_Head x) xs = (if x \<in> set xs then None else Some (x # xs))"
| "list_op_spec (Op_Insert_Tail x) xs = (if x \<in> set xs then None else Some (xs @ [x]))"
| "list_op_spec (Op_Insert_After y x) xs =
     (if x \<in> set xs \<or> y \<notin> set xs then None else Some (insert_next_to True y x xs))"
| "list_op_spec (Op_Insert_Before y x) xs =
     (if x \<in> set xs \<or> y \<notin> set xs then None else Some (insert_next_to False y x xs))"
| "list_op_spec (Op_Remove x) xs = (if x \<in> set xs then Some (remove1 x xs) else None)"

fun run_macros :: "'a list_op list \<Rightarrow> 'a list_state \<Rightarrow> 'a list_state" where
  "run_macros [] l = l"
| "run_macros (c # cs) l = run_macros cs (list_op_macro c l)"

fun run_specs :: "'a list_op list \<Rightarrow> 'a list \<Rightarrow> 'a list option" where
  "run_specs [] xs = Some xs"
| "run_specs (c # cs) xs = Option.bind (list_op_spec c xs) (run_specs cs)"

lemma insert_next_to_split:
  "y \<notin> set as \<Longrightarrow> insert_next_to after y x (as @ y # bs) =
     (if after then as @ y # x # bs else as @ x # y # bs)"
  by (induction as) auto

lemma list_op_macro_repr:
  assumes "list_repr l xs" and "list_op_spec c xs = Some ys"
  shows "list_repr (list_op_macro c l) ys"
proof (cases c)
  case (Op_Insert_After y x)
  with assms(2) have "y \<in> set xs" "x \<notin> set xs" and ys: "ys = insert_next_to True y x xs"
    by (auto split: if_splits)
  then obtain as bs where "xs = as @ y # bs" "y \<notin> set as"
    by (meson split_list_first)
  with assms(1) \<open>x \<notin> set xs\<close> ys Op_Insert_After show ?thesis
    by (simp add: insert_next_to_split LIST_INSERT_AFTER_repr)
next
  case (Op_Insert_Before y x)
  with assms(2) have "y \<in> set xs" "x \<notin> set xs" and ys: "ys = insert_next_to False y x xs"
    by (auto split: if_splits)
  then obtain as bs where "xs = as @ y # bs" "y \<notin> set as"
    by (meson split_list_first)
  with assms(1) \<open>x \<notin> set xs\<close> ys Op_Insert_Before show ?thesis
    by (simp add: insert_next_to_split LIST_INSERT_BEFORE_repr)
qed (use assms in \<open>auto split: if_splits intro: LIST_INIT_repr LIST_INSERT_HEAD_repr
        LIST_INSERT_TAIL_repr LIST_REMOVE_repr\<close>)

lemma run_macros_repr:
  "list_repr l xs \<Longrightarrow> run_specs cs xs = Some ys \<Longrightarrow> list_repr (run_macros cs l) ys"
proof (induction cs arbitrary: l xs)
  case Nil
  then show ?case by simp
next
  case (Cons c cs)
  then obtain zs where zs: "list_op_spec c xs = Some zs" "run_specs cs zs = Some ys"
    by (auto simp: bind_eq_Some_conv)
  with Cons show ?case by (auto intro: list_op_macro_repr)
qed

section \<open>Traversal and concatenation\<close>

lemma LIST_FOREACH_None [simp]: "LIST_FOREACH nxt body None s = Some s"
  by (subst LIST_FOREACH.simps) simp

lemma LIST_FOREACH_Some:
  "LIST_FOREACH nxt body (Some x) s = LIST_FOREACH nxt body (nxt s x) (body x s)"
  by (subst LIST_FOREACH.simps) simp

text \<open>
  If, whenever the traversal reaches an element, its successor link is still the one of the
  sequence, the loop ends and has run the body on every element in order.
\<close>

lemma LIST_FOREACH_fold:
  assumes "\<And>pre x post. xs = pre @ x # post \<Longrightarrow> nxt (fold body pre s) x = first_of post"
  shows "LIST_FOREACH nxt body (first_of xs) s = Some (fold body xs s)"
  using assms
proof (induction xs arbitrary: s)
  case Nil
  then show ?case by simp
next
  case (Cons x xs)
  have "nxt s x = first_of xs" using Cons.prems [of "[]" x xs] by simp
  moreover have "LIST_FOREACH nxt body (first_of xs) (body x s) = Some (fold body xs (body x s))"
  proof (rule Cons.IH)
    fix pre y post assume "xs = pre @ y # post"
    then show "nxt (fold body pre (body x s)) y = first_of post"
      using Cons.prems [of "x # pre" y post] by simp
  qed
  ultimately show ?case by (simp add: LIST_FOREACH_Some)
qed

text \<open>Removing elements inside the traversal.\<close>

definition remove_if :: "('a \<Rightarrow> bool) \<Rightarrow> 'a \<Rightarrow> 'a list_state \<Rightarrow> 'a list_state" where
  "remove_if P x l = (if P x then LIST_REMOVE l x else l)"

lemma fold_remove_if_repr:
  "list_repr l (ks @ pre @ post) \<Longrightarrow>
     list_repr (fold (remove_if P) pre l) (ks @ filter (\<lambda>x. \<not> P x) pre @ post)"
proof (induction pre arbitrary: l ks)
  case Nil
  then show ?case by simp
next
  case (Cons x pre)
  show ?case
  proof (cases "P x")
    case True
    with Cons.prems have "list_repr (LIST_REMOVE l x) (ks @ pre @ post)"
      using LIST_REMOVE_repr_split by fastforce
    with True Cons.IH show ?thesis by (simp add: remove_if_def)
  next
    case False
    with Cons.prems Cons.IH [of l "ks @ [x]"] show ?thesis by (simp add: remove_if_def)
  qed
qed

lemma LIST_FOREACH_remove_if:
  assumes "list_repr l xs"
  shows "\<exists>l'. LIST_FOREACH le_next (remove_if P) (lh_first l) l = Some l'
     \<and> list_repr l' (filter (\<lambda>x. \<not> P x) xs)"
proof -
  have "LIST_FOREACH le_next (remove_if P) (first_of xs) l = Some (fold (remove_if P) xs l)"
  proof (rule LIST_FOREACH_fold)
    fix pre x post assume "xs = pre @ x # post"
    with assms have "list_repr (fold (remove_if P) pre l) (filter (\<lambda>x. \<not> P x) pre @ x # post)"
      using fold_remove_if_repr [of l "[]" pre "x # post" P] by simp
    then show "le_next (fold (remove_if P) pre l) x = first_of post"
      by (rule list_repr_next)
  qed
  with assms show ?thesis
    using fold_remove_if_repr [of l "[]" xs "[]" P] by (auto simp: list_repr_first)
qed

text \<open>
  LIST_CONCAT links the two sequences correctly but resets the second head before it adds its
  size, so the size of the result counts the first list only.
\<close>

lemma LIST_CONCAT_links:
  assumes "list_repr l xs"
    and "list_repr (l\<lparr>lh_first := f, lh_last := t, lh_size := n\<rparr>) ys"
    and "xs \<noteq> []" and "ys \<noteq> []" and "set xs \<inter> set ys = {}"
  shows "\<exists>l'. LIST_CONCAT l (f, t, n) = Some (l', None, None, 0)
     \<and> lh_size l' = of_nat (length xs)
     \<and> list_repr (l'\<lparr>lh_size := of_nat (length (xs @ ys))\<rparr>) (xs @ ys)"
proof -
  obtain y ys' where ys: "ys = y # ys'" using assms(4) by (cases ys) auto
  obtain x xs' where xs: "xs = xs' @ [x]" using assms(3) by (cases xs rule: rev_cases) auto
  have "lh_first l \<noteq> None" "lh_last l = Some x" "f = Some y" "t = last_of ys"
    using assms by (auto simp: list_repr_def xs ys)
  then show ?thesis using assms
    by (auto simp: LIST_CONCAT_def list_repr_def xs ys)
qed

section \<open>The interface of kernel lists\<close>

text \<open>
  What the users of inc/queue.h rely on. \<open>repr q xs\<close> reads "the list q holds the elements xs,
  in this order". The free lists take the element they freed last (insert and remove at the
  head), the semaphore queues insert at the head and take the last element.
\<close>

locale kernel_list =
  fixes repr :: "'q \<Rightarrow> 'a list \<Rightarrow> bool"
    and init :: "'q \<Rightarrow> 'q"
    and ins_head :: "'q \<Rightarrow> 'a \<Rightarrow> 'q"
    and ins_tail :: "'q \<Rightarrow> 'a \<Rightarrow> 'q"
    and remove :: "'q \<Rightarrow> 'a \<Rightarrow> 'q"
    and first :: "'q \<Rightarrow> 'a option"
    and last :: "'q \<Rightarrow> 'a option"
  assumes repr_distinct: "repr q xs \<Longrightarrow> distinct xs"
    and repr_init: "repr (init q) []"
    and repr_ins_head: "repr q xs \<Longrightarrow> x \<notin> set xs \<Longrightarrow> repr (ins_head q x) (x # xs)"
    and repr_ins_tail: "repr q xs \<Longrightarrow> x \<notin> set xs \<Longrightarrow> repr (ins_tail q x) (xs @ [x])"
    and repr_remove: "repr q xs \<Longrightarrow> x \<in> set xs \<Longrightarrow> repr (remove q x) (remove1 x xs)"
    and repr_first: "repr q xs \<Longrightarrow> first q = first_of xs"
    and repr_last: "repr q xs \<Longrightarrow> last q = last_of xs"
begin

text \<open>An element freed at the head is the next one taken from the head.\<close>

lemma lifo:
  assumes "repr q xs" and "x \<notin> set xs"
  shows "first (ins_head q x) = Some x \<and> repr (remove (ins_head q x) x) xs"
proof -
  from assms have *: "repr (ins_head q x) (x # xs)" by (rule repr_ins_head)
  then have "repr (remove (ins_head q x) x) (remove1 x (x # xs))"
    by (rule repr_remove) simp
  with repr_first [OF *] show ?thesis by simp
qed

text \<open>The oldest element inserted at the head is the one found at the tail.\<close>

lemma fifo:
  assumes "repr q (xs @ [y])" and "x \<notin> set (xs @ [y])"
  shows "last (ins_head q x) = Some y \<and> repr (remove (ins_head q x) y) (x # xs)"
proof -
  from assms have *: "repr (ins_head q x) (x # xs @ [y])" by (rule repr_ins_head)
  have "y \<notin> set (x # xs)" using repr_distinct [OF *] by auto
  then have "remove1 y (x # xs @ [y]) = x # xs" by (auto simp: remove1_append)
  with repr_remove [OF *, of y] repr_last [OF *] show ?thesis by simp
qed

lemma ins_heads_repr:
  "repr q xs \<Longrightarrow> distinct (ys @ xs) \<Longrightarrow> repr (fold (\<lambda>x q. ins_head q x) ys q) (rev ys @ xs)"
proof (induction ys arbitrary: q xs)
  case Nil
  then show ?case by simp
next
  case (Cons y ys)
  then have "repr (ins_head q y) (y # xs)" by (intro repr_ins_head) auto
  with Cons.prems have "repr (fold (\<lambda>x q. ins_head q x) ys (ins_head q y)) (rev ys @ y # xs)"
    by (intro Cons.IH) auto
  then show ?case by simp
qed

end

interpretation queue_h: kernel_list list_repr LIST_INIT LIST_INSERT_HEAD LIST_INSERT_TAIL
  LIST_REMOVE lh_first lh_last
  by unfold_locales
    (auto intro: list_repr_distinct LIST_INIT_repr LIST_INSERT_HEAD_repr LIST_INSERT_TAIL_repr
      LIST_REMOVE_repr list_repr_first list_repr_last)

text \<open>
  The same interface on plain sequences: the other theories keep each kernel list as the
  sequence it represents, and may do so because both implementations satisfy the same laws.
\<close>

definition seq_repr :: "'a list \<Rightarrow> 'a list \<Rightarrow> bool" where
  "seq_repr q xs \<longleftrightarrow> q = xs \<and> distinct xs"

definition seq_insert_head :: "'a list \<Rightarrow> 'a \<Rightarrow> 'a list" where
  "seq_insert_head q x = x # q"

definition seq_insert_tail :: "'a list \<Rightarrow> 'a \<Rightarrow> 'a list" where
  "seq_insert_tail q x = q @ [x]"

definition seq_remove :: "'a list \<Rightarrow> 'a \<Rightarrow> 'a list" where
  "seq_remove q x = remove1 x q"

interpretation seq_list: kernel_list seq_repr "\<lambda>_. []" seq_insert_head seq_insert_tail seq_remove
  first_of last_of
  by unfold_locales
    (auto simp: seq_repr_def seq_insert_head_def seq_insert_tail_def seq_remove_def)

section \<open>Properties\<close>

text \<open>The elements enqueued one after the other, and as many dequeued.\<close>

fun dequeue_all :: "nat \<Rightarrow> 'a list_state \<Rightarrow> ('a list \<times> 'a list_state) option" where
  "dequeue_all 0 q = Some ([], q)"
| "dequeue_all (Suc n) q =
     Option.bind (dequeue q) (\<lambda>(x, q'). map_option (\<lambda>(xs, q''). (x # xs, q'')) (dequeue_all n q'))"

lemma dequeue_all_repr:
  "list_repr q (rev xs) \<Longrightarrow> \<exists>q'. dequeue_all (length xs) q = Some (xs, q') \<and> list_repr q' []"
proof (induction xs arbitrary: q)
  case (Cons x xs)
  then have "lh_last q = Some x" "list_repr (LIST_REMOVE q x) (rev xs)"
    using list_repr_last [of q "rev xs @ [x]"] LIST_REMOVE_repr_split [of q "rev xs" x "[]"] by simp_all
  moreover obtain q' where "dequeue_all (length xs) (LIST_REMOVE q x) = Some (xs, q')" "list_repr q' []"
    using Cons.IH [OF calculation(2)] by blast
  ultimately show ?case by (simp add: dequeue_def)
qed simp

text \<open>
  C30. Any sequence of the list macros of inc/queue.h, each called on elements the list does or does
  not hold as its contract wants, leaves the head, the forward and backward links and the size of
  the list exactly those of the sequence that the same operations on sequences give.
\<close>

theorem queue_macros_refine:
  assumes "list_repr l xs" and "run_specs cs xs = Some ys"
  shows "list_repr (run_macros cs l) ys"
  by (rule run_macros_repr [OF assms])

theorem queue_macros_refine_witness:
  "list_repr (run_macros [Op_Insert_Head 3, Op_Insert_Tail 5, Op_Insert_After 3 4, Op_Insert_Before 3 2,
      Op_Remove (4 :: nat)] (LIST_INIT \<lparr>lh_first = None, lh_last = None, lh_size = 9,
      le_next = \<lambda>_. None, le_prev = \<lambda>_. None\<rparr>)) [2, 3, 5]"
  by (rule queue_macros_refine [OF LIST_INIT_repr]) simp

text \<open>
  A LIST_FOREACH loop whose body may unlink the current element ends, and leaves a well-formed
  list of exactly the elements the body kept, in their order.
\<close>

theorem queue_foreach_unlink:
  assumes "list_repr l xs"
  shows "\<exists>l'. LIST_FOREACH le_next (remove_if P) (lh_first l) l = Some l'
     \<and> list_repr l' (filter (\<lambda>x. \<not> P x) xs)"
  by (rule LIST_FOREACH_remove_if [OF assms])

theorem queue_foreach_unlink_witness:
  "\<exists>l'. LIST_FOREACH le_next (remove_if even) (lh_first (LIST_INSERT_HEAD (LIST_INIT
       \<lparr>lh_first = None, lh_last = None, lh_size = 9, le_next = \<lambda>_. None, le_prev = \<lambda>_. None\<rparr>) (4 :: nat)))
       (LIST_INSERT_HEAD (LIST_INIT
       \<lparr>lh_first = None, lh_last = None, lh_size = 9, le_next = \<lambda>_. None, le_prev = \<lambda>_. None\<rparr>) 4) = Some l'
     \<and> list_repr l' (filter (\<lambda>x. \<not> even x) [4])"
  by (rule queue_foreach_unlink) (simp add: LIST_INSERT_HEAD_repr LIST_INIT_repr)

text \<open>
  LIST_CONCAT of two non-empty lists links the second list behind the first in both directions
  and empties the second head, but the size it records is that of the first list alone.
\<close>

theorem queue_concat_undercounts:
  assumes "list_repr l xs" and "list_repr (l\<lparr>lh_first := f, lh_last := t, lh_size := n\<rparr>) ys"
    and "xs \<noteq> []" and "ys \<noteq> []" and "set xs \<inter> set ys = {}"
  shows "\<exists>l'. LIST_CONCAT l (f, t, n) = Some (l', None, None, 0)
     \<and> lh_size l' = of_nat (length xs)
     \<and> list_repr (l'\<lparr>lh_size := of_nat (length (xs @ ys))\<rparr>) (xs @ ys)"
  by (rule LIST_CONCAT_links [OF assms])

theorem queue_concat_undercounts_witness:
  "\<exists>l'. LIST_CONCAT \<lparr>lh_first = Some 1, lh_last = Some 1, lh_size = 1, le_next = \<lambda>_. None,
      le_prev = \<lambda>_. None\<rparr> (Some (2 :: nat), Some 2, 1) = Some (l', None, None, 0)
     \<and> lh_size l' = of_nat (length [1 :: nat])
     \<and> list_repr (l'\<lparr>lh_size := of_nat (length ([1] @ [2 :: nat]))\<rparr>) ([1] @ [2])"
  by (rule queue_concat_undercounts) (simp_all add: list_repr_def)

text \<open>
  The environment queue of a semaphore is first-in first-out: environments enqueued in some
  order, on an empty queue, are dequeued in the same order, and the queue is empty again.
\<close>

theorem semaphore_queue_fifo:
  assumes "distinct xs"
  shows "\<exists>q. dequeue_all (length xs) (fold (\<lambda>env queue. enqueue queue env) xs (LIST_INIT l)) = Some (xs, q)
    \<and> list_repr q []"
proof -
  have "list_repr (fold (\<lambda>env queue. LIST_INSERT_HEAD queue env) xs (LIST_INIT l)) (rev xs @ [])"
    using queue_h.ins_heads_repr [OF LIST_INIT_repr, of xs l] assms by simp
  then show ?thesis using dequeue_all_repr [of _ xs] by (simp add: enqueue_def)
qed

theorem semaphore_queue_fifo_witness:
  "\<exists>q. dequeue_all (length [7, 3, 5 :: nat]) (fold (\<lambda>env queue. enqueue queue env) [7, 3, 5 :: nat] (LIST_INIT
     \<lparr>lh_first = None, lh_last = None, lh_size = 9, le_next = \<lambda>_. None, le_prev = \<lambda>_. None\<rparr>))
       = Some ([7, 3, 5], q) \<and> list_repr q []"
  by (rule semaphore_queue_fifo) simp

end
