(* ===== verification/FOS_State.thy ===== *)
theory FOS_State
  imports FOS_Mmu FOS_Queue
begin

text \<open>
  The state of the kernel: the structures of inc/memlayout.h, inc/environment_definitions.h,
  inc/trap.h and the global variables of the kern directory, together with the hardware the
  kernel works on (physical memory, the page-table walk of the MMU, the page file on disk).

  Physical memory is a function from frame numbers to pages of 1024 words. A kernel pointer is
  a 32-bit virtual address; a dereference goes through the page-table walk from the kernel page
  directory, whose upper half every environment shares, and fails with \<open>Kernel_fault\<close> where the
  walk finds no present entry. Page directories, page tables and page-file tables are arrays in
  this memory, so aliasing between two virtual addresses of one frame is part of the model.
  A Frame_Info pointer is the number of its frame, an Env pointer the index of its slot.
  The working-set arrays are kept as lists in their environment, which is what the kernel
  address ptr_pageWorkingSet and its read-only user image __uptr_pws both designate.
\<close>

section \<open>Structures\<close>

record Frame_Info =
  fi_references :: u16
  fi_va :: u32
  fi_environment :: "nat option"
  fi_isBuffered :: u8

record WorkingSetElement =
  ws_virtual_address :: u32
  ws_empty :: u8
  ws_time_stamp :: u32

record PushRegs =
  reg_edi :: u32
  reg_esi :: u32
  reg_ebp :: u32
  reg_oesp :: u32
  reg_ebx :: u32
  reg_edx :: u32
  reg_ecx :: u32
  reg_eax :: u32

record Trapframe =
  tf_regs :: PushRegs
  tf_es :: u16
  tf_ds :: u16
  tf_trapno :: u32
  tf_err :: u32
  tf_eip :: u32
  tf_cs :: u16
  tf_eflags :: u32
  tf_esp :: u32
  tf_ss :: u16

record Env =
  env_tf :: Trapframe
  env_id :: u32
  env_parent_id :: u32
  env_status :: u32
  env_runs :: u32
  env_page_directory :: u32
  env_cr3 :: u32
  disk_env_pgdir :: u32
  disk_env_pgdir_PA :: u32
  disk_env_tabledir :: u32
  disk_env_tabledir_PA :: u32
  page_WS_max_size :: u32
  ptr_pageWorkingSet :: u32
  pageWorkingSet :: "WorkingSetElement list"
  tableWorkingSet :: "WorkingSetElement list"
  page_last_WS_index :: u32
  table_last_WS_index :: u32
  pageFaultsCounter :: u32
  tableFaultsCounter :: u32
  nModifiedPages :: u32
  nNotModifiedPages :: u32
  prog_name :: string
  shared_free_address :: u32
  uptr_pws :: u32

text \<open>A structure of zero bytes, as memset() leaves it.\<close>

definition zero_trapframe :: Trapframe where
  "zero_trapframe =
     \<lparr>tf_regs = \<lparr>reg_edi = 0, reg_esi = 0, reg_ebp = 0, reg_oesp = 0, reg_ebx = 0, reg_edx = 0,
        reg_ecx = 0, reg_eax = 0\<rparr>,
      tf_es = 0, tf_ds = 0, tf_trapno = 0, tf_err = 0, tf_eip = 0, tf_cs = 0, tf_eflags = 0,
      tf_esp = 0, tf_ss = 0\<rparr>"

definition zero_env :: Env where
  "zero_env =
     \<lparr>env_tf = zero_trapframe, env_id = 0, env_parent_id = 0, env_status = 0, env_runs = 0,
      env_page_directory = 0, env_cr3 = 0, disk_env_pgdir = 0, disk_env_pgdir_PA = 0,
      disk_env_tabledir = 0, disk_env_tabledir_PA = 0, page_WS_max_size = 0,
      ptr_pageWorkingSet = 0, pageWorkingSet = [],
      tableWorkingSet =
        replicate 50 \<lparr>ws_virtual_address = 0, ws_empty = 0, ws_time_stamp = 0\<rparr>,
      page_last_WS_index = 0,
      table_last_WS_index = 0, pageFaultsCounter = 0, tableFaultsCounter = 0, nModifiedPages = 0,
      nNotModifiedPages = 0, prog_name = [], shared_free_address = 0, uptr_pws = 0\<rparr>"

text \<open>An entry of allocatedHAddresses in kern/kheap.c.\<close>

record Size_Address_KHeap =
  kh_size :: u32
  kh_virtualAddress :: u32
  kh_empty :: u32

text \<open>Sizes and status values of inc/environment_definitions.h.\<close>

definition TWS_MAX_SIZE :: u32 where "TWS_MAX_SIZE = 50"
definition ENV_FREE :: u32 where "ENV_FREE = 0"
definition ENV_READY :: u32 where "ENV_READY = 1"
definition ENV_BLOCKED :: u32 where "ENV_BLOCKED = 2"
definition ENV_NEW :: u32 where "ENV_NEW = 3"
definition ENV_EXIT :: u32 where "ENV_EXIT = 4"
definition ENV_UNKNOWN :: u32 where "ENV_UNKNOWN = 5"

lemmas env_status_defs [fos_consts] =
  TWS_MAX_SIZE_def ENV_FREE_def ENV_READY_def ENV_BLOCKED_def ENV_NEW_def ENV_EXIT_def
  ENV_UNKNOWN_def

section \<open>The kernel state\<close>

type_synonym page = "u32 \<Rightarrow> u32"

record kstate =
  phys :: "u32 \<Rightarrow> page"
  number_of_frames :: u32
  frames_info :: "u32 \<Rightarrow> Frame_Info"
  free_frame_list :: "u32 list"
  modified_frame_list :: "u32 list"
  ptr_page_directory :: u32
  phys_page_directory :: u32
  ptr_free_mem :: u32
  virtualAddresses :: "u32 \<Rightarrow> u32"
  allocatedHAddresses :: "u32 \<Rightarrow> Size_Address_KHeap"
  kheap_idx :: u32
  firstFreeVAInKHeap :: u32
  page_file :: "u32 \<Rightarrow> page"
  disk_error :: bool
  disk_free_frame_list :: "u32 list"
  envs :: "nat \<Rightarrow> Env"
  env_free_list :: "nat list"
  curenv :: "nat option"
  env_ready_queue :: "nat list"
  env_new_queue :: "nat list"
  env_exit_queue :: "nat list"
  sched_next :: "nat option"
  scheduler_status :: u32
  reg_cr2 :: u32
  reg_cr3 :: u32
  PageRepAlgoType :: u32
  EnableBuffering :: u32
  EnableModifiedBuffer :: u32
  ModifiedBufferLength :: u32
  UHeapPlacementStrategy :: u32
  bypassInstrLength :: u8
  tstcnt :: u32

section \<open>Memory accesses of the kernel\<close>

text \<open>
  The two-level walk the MMU performs from the directory in frame \<open>d\<close>: the frame a virtual
  address is mapped to, if both entries are present. check_va2pa() in kern/helpers.c is the
  kernel's own version of it.
\<close>

definition mmu_walk :: "(u32 \<Rightarrow> page) \<Rightarrow> u32 \<Rightarrow> u32 \<Rightarrow> u32 option" where
  "mmu_walk m d va =
     (let pde = m d (PDX va) in
      if pde AND PERM_PRESENT = 0 then None
      else let pte = m (PPN pde) (PTX va) in
        if pte AND PERM_PRESENT = 0 then None else Some (PPN pte))"

text \<open>The frame behind a kernel pointer, and reading, writing and filling the array it points to.\<close>

definition kframe :: "kstate \<Rightarrow> u32 \<Rightarrow> u32 option" where
  "kframe s p = mmu_walk (phys s) (PPN (phys_page_directory s)) p"

definition phys_store :: "kstate \<Rightarrow> u32 \<Rightarrow> u32 \<Rightarrow> u32 \<Rightarrow> kstate" where
  "phys_store s f i v = s\<lparr>phys := (phys s)(f := (phys s f)(i := v))\<rparr>"

definition phys_fill :: "kstate \<Rightarrow> u32 \<Rightarrow> page \<Rightarrow> kstate" where
  "phys_fill s f pg = s\<lparr>phys := (phys s)(f := pg)\<rparr>"

definition kload :: "kstate \<Rightarrow> u32 \<Rightarrow> u32 \<Rightarrow> u32 result" where
  "kload s p i = (case kframe s p of None \<Rightarrow> Inl (Kernel_fault p) | Some f \<Rightarrow> Inr (phys s f i))"

definition kstore :: "kstate \<Rightarrow> u32 \<Rightarrow> u32 \<Rightarrow> u32 \<Rightarrow> kstate result" where
  "kstore s p i v =
     (case kframe s p of None \<Rightarrow> Inl (Kernel_fault p) | Some f \<Rightarrow> Inr (phys_store s f i v))"

definition kread_page :: "kstate \<Rightarrow> u32 \<Rightarrow> page result" where
  "kread_page s p = (case kframe s p of None \<Rightarrow> Inl (Kernel_fault p) | Some f \<Rightarrow> Inr (phys s f))"

definition kfill :: "kstate \<Rightarrow> u32 \<Rightarrow> page \<Rightarrow> kstate result" where
  "kfill s p pg =
     (case kframe s p of None \<Rightarrow> Inl (Kernel_fault p) | Some f \<Rightarrow> Inr (phys_fill s f pg))"

text \<open>Static translation between kernel virtual and physical addresses (kern/helpers.h).\<close>

definition STATIC_KERNEL_PHYSICAL_ADDRESS :: "u32 \<Rightarrow> u32 result" where
  "STATIC_KERNEL_PHYSICAL_ADDRESS kva =
     (if kva < KERNEL_BASE then Inl (Panic ''K_PHYSICAL_ADDRESS called with invalid kva'')
      else Inr (kva - KERNEL_BASE))"

definition STATIC_KERNEL_VIRTUAL_ADDRESS :: "kstate \<Rightarrow> u32 \<Rightarrow> u32 result" where
  "STATIC_KERNEL_VIRTUAL_ADDRESS s pa =
     (if PPN pa \<ge> number_of_frames s then Inl (Panic ''K_VIRTUAL_ADDRESS called with invalid pa'')
      else Inr (pa + KERNEL_BASE))"

text \<open>kern/memory_manager.h: kernel addresses, and Frame_Info pointers against physical addresses.\<close>

definition CHECK_IF_KERNEL_ADDRESS :: "u32 \<Rightarrow> bool" where
  "CHECK_IF_KERNEL_ADDRESS va \<longleftrightarrow> va \<ge> USER_TOP"

definition to_physical_address :: "u32 \<Rightarrow> u32" where
  "to_physical_address f = push_bit 12 f"

definition to_frame_info :: "kstate \<Rightarrow> u32 \<Rightarrow> u32 result" where
  "to_frame_info s pa =
     (if PPN pa \<ge> number_of_frames s then Inl (Panic ''to_frame_info called with invalid pa'')
      else Inr (PPN pa))"

text \<open>kern/kheap.c: the kernel-heap address at which a physical page is mapped, 0 if none.\<close>

definition kheap_virtual_address :: "kstate \<Rightarrow> u32 \<Rightarrow> u32" where
  "kheap_virtual_address s physical_address = virtualAddresses s (physical_address div PAGE_SIZE)"

text \<open>
  The choice repeated wherever the code turns a directory entry into a pointer to its table
  (USE_KHEAP is 1): through the kernel heap for user addresses, statically for kernel ones.
\<close>

definition table_pointer :: "kstate \<Rightarrow> u32 \<Rightarrow> u32 \<Rightarrow> u32 result" where
  "table_pointer s va pde =
     (if \<not> CHECK_IF_KERNEL_ADDRESS va then Inr (kheap_virtual_address s (EXTRACT_ADDRESS pde))
      else STATIC_KERNEL_VIRTUAL_ADDRESS s (EXTRACT_ADDRESS pde))"

text \<open>Updating one environment.\<close>

definition upd_env :: "kstate \<Rightarrow> nat \<Rightarrow> (Env \<Rightarrow> Env) \<Rightarrow> kstate" where
  "upd_env s e g = s\<lparr>envs := (envs s)(e := g (envs s e))\<rparr>"

section \<open>Transfers between memory and the page file\<close>

text \<open>
  The frame behind an address the processor dereferences: user addresses go through the directory
  in CR3, addresses from USER_TOP on through tables that all directories share.
\<close>

definition cpu_frame :: "kstate \<Rightarrow> u32 \<Rightarrow> u32 option" where
  "cpu_frame s p =
     (if CHECK_IF_KERNEL_ADDRESS p then kframe s p else mmu_walk (phys s) (PPN (reg_cr3 s)) p)"

text \<open>Bytes of memory: the little-endian byte of a page at an address, loading and storing one.\<close>

definition byte_at :: "page \<Rightarrow> u32 \<Rightarrow> u8" where
  "byte_at pg a = ucast (drop_bit (8 * unat (a AND 3)) (pg (PGOFF a div 4)))"

definition cpu_load8 :: "kstate \<Rightarrow> u32 \<Rightarrow> u8 result" where
  "cpu_load8 s a =
     (case cpu_frame s a of None \<Rightarrow> Inl (Kernel_fault a) | Some f \<Rightarrow> Inr (byte_at (phys s f) a))"

definition cpu_store8 :: "kstate \<Rightarrow> u32 \<Rightarrow> u8 \<Rightarrow> kstate result" where
  "cpu_store8 s a b =
     (case cpu_frame s a of
        None \<Rightarrow> Inl (Kernel_fault a)
      | Some f \<Rightarrow>
          let i = PGOFF a div 4; k = 8 * unat (a AND 3) in
          Inr (phys_store s f i ((phys s f i AND NOT (push_bit k 0xFF)) OR push_bit k (ucast b))))"

text \<open>The 4096 bytes from an address on, which lie in two frames unless the address is aligned.\<close>

definition straddling_page :: "page \<Rightarrow> page \<Rightarrow> u32 \<Rightarrow> page" where
  "straddling_page p q va i =
     (let b = (\<lambda>a. ucast (byte_at (if PPN a = PPN va then p else q) a) :: u32); a = va + 4 * i in
      b a OR push_bit 8 (b (a + 1)) OR push_bit 16 (b (a + 2)) OR push_bit 24 (b (a + 3)))"

definition cpu_read_page :: "kstate \<Rightarrow> u32 \<Rightarrow> page result" where
  "cpu_read_page s va =
     (case cpu_frame s va of
        None \<Rightarrow> Inl (Kernel_fault va)
      | Some f \<Rightarrow>
          if PGOFF va = 0 then Inr (phys s f)
          else case cpu_frame s (va + PAGE_SIZE) of
                 None \<Rightarrow> Inl (Kernel_fault (va + PAGE_SIZE))
               | Some g \<Rightarrow> Inr (straddling_page (phys s f) (phys s g) va))"

text \<open>
  kern/file_manager.c transfers one page as eight sectors. The drive either transfers the page and
  answers 0 or, when it reports an error, transfers nothing and answers -1; the state component
  \<open>disk_error\<close> is that report. A page is always read to an aligned address, but may be written from
  any address: the program loader writes from inside a program image.
\<close>

definition read_disk_page :: "kstate \<Rightarrow> u32 \<Rightarrow> u32 \<Rightarrow> (u32 \<times> kstate) result" where
  "read_disk_page s dfn va =
     (if disk_error s then Inr (- 1, s)
      else case cpu_frame s va of
             None \<Rightarrow> Inl (Kernel_fault va)
           | Some f \<Rightarrow> Inr (0, phys_fill s f (page_file s dfn)))"

definition write_disk_page :: "kstate \<Rightarrow> u32 \<Rightarrow> u32 \<Rightarrow> (u32 \<times> kstate) result" where
  "write_disk_page s dfn va =
     (if disk_error s then Inl (Panic ''Error writing on disk'')
      else rbind (cpu_read_page s va) (\<lambda>pg. Inr (0, s\<lparr>page_file := (page_file s)(dfn := pg)\<rparr>)))"

section \<open>Facts about memory accesses\<close>

lemma mmu_walk_cong:
  assumes "m d (PDX va) = m' d' (PDX va)"
    and "m (PPN (m d (PDX va))) (PTX va) = m' (PPN (m d (PDX va))) (PTX va)"
  shows "mmu_walk m d va = mmu_walk m' d' va"
  using assms by (simp add: mmu_walk_def Let_def)

lemma phys_store_simps [simp]:
  "phys (phys_store s f i v) = (phys s)(f := (phys s f)(i := v))"
  "number_of_frames (phys_store s f i v) = number_of_frames s"
  "frames_info (phys_store s f i v) = frames_info s"
  "free_frame_list (phys_store s f i v) = free_frame_list s"
  "modified_frame_list (phys_store s f i v) = modified_frame_list s"
  "ptr_page_directory (phys_store s f i v) = ptr_page_directory s"
  "phys_page_directory (phys_store s f i v) = phys_page_directory s"
  "virtualAddresses (phys_store s f i v) = virtualAddresses s"
  "allocatedHAddresses (phys_store s f i v) = allocatedHAddresses s"
  "kheap_idx (phys_store s f i v) = kheap_idx s"
  "firstFreeVAInKHeap (phys_store s f i v) = firstFreeVAInKHeap s"
  "page_file (phys_store s f i v) = page_file s"
  "disk_free_frame_list (phys_store s f i v) = disk_free_frame_list s"
  "envs (phys_store s f i v) = envs s"
  "curenv (phys_store s f i v) = curenv s"
  by (simp_all add: phys_store_def)

lemma phys_fill_simps [simp]:
  "phys (phys_fill s f pg) = (phys s)(f := pg)"
  "number_of_frames (phys_fill s f pg) = number_of_frames s"
  "frames_info (phys_fill s f pg) = frames_info s"
  "free_frame_list (phys_fill s f pg) = free_frame_list s"
  "modified_frame_list (phys_fill s f pg) = modified_frame_list s"
  "ptr_page_directory (phys_fill s f pg) = ptr_page_directory s"
  "phys_page_directory (phys_fill s f pg) = phys_page_directory s"
  "virtualAddresses (phys_fill s f pg) = virtualAddresses s"
  "allocatedHAddresses (phys_fill s f pg) = allocatedHAddresses s"
  "kheap_idx (phys_fill s f pg) = kheap_idx s"
  "firstFreeVAInKHeap (phys_fill s f pg) = firstFreeVAInKHeap s"
  "page_file (phys_fill s f pg) = page_file s"
  "disk_free_frame_list (phys_fill s f pg) = disk_free_frame_list s"
  "envs (phys_fill s f pg) = envs s"
  "curenv (phys_fill s f pg) = curenv s"
  by (simp_all add: phys_fill_def)

lemma kload_Inr: "kframe s p = Some f \<Longrightarrow> kload s p i = Inr (phys s f i)"
  by (simp add: kload_def)

lemma kstore_Inr: "kframe s p = Some f \<Longrightarrow> kstore s p i v = Inr (phys_store s f i v)"
  by (simp add: kstore_def)

lemma kfill_Inr: "kframe s p = Some f \<Longrightarrow> kfill s p pg = Inr (phys_fill s f pg)"
  by (simp add: kfill_def)

lemma div_PAGE_SIZE: "a div PAGE_SIZE = PPN a"
  by (simp add: PAGE_SIZE_def PPN_def drop_bit_eq_div)

lemma kheap_virtual_address_PPN: "kheap_virtual_address s pa = virtualAddresses s (PPN pa)"
  by (simp add: kheap_virtual_address_def div_PAGE_SIZE)

end
