(* ===== verification/FOS_Frames.thy ===== *)
theory FOS_Frames
  imports FOS_State
begin

text \<open>
  The frame allocator of kern/memory_manager.c: the reference-counted Frame_Info structures, the
  free list, their initialisation at boot, and the counters the system calls report. The
  interface of a pool of frames is the locale \<open>frame_pool\<close>; the physical frames are one
  instance here, the page-file frames another in the theory of the page file.
\<close>

section \<open>Frame_Info structures and the free list\<close>

definition zero_frame_info :: Frame_Info where
  "zero_frame_info = \<lparr>fi_references = 0, fi_va = 0, fi_environment = None, fi_isBuffered = 0\<rparr>"

definition initialize_frame_info :: "kstate \<Rightarrow> u32 \<Rightarrow> kstate" where
  "initialize_frame_info s f = s\<lparr>frames_info := (frames_info s)(f := zero_frame_info)\<rparr>"

text \<open>Error codes of inc/error.h.\<close>

definition E_BAD_ENV :: u32 where "E_BAD_ENV = - 2"
definition E_INVAL :: u32 where "E_INVAL = - 3"
definition E_NO_MEM :: u32 where "E_NO_MEM = - 4"
definition E_NO_FREE_ENV :: u32 where "E_NO_FREE_ENV = - 5"
definition E_NO_PAGE_FILE_SPACE :: u32 where "E_NO_PAGE_FILE_SPACE = - 8"
definition E_PAGE_NOT_EXIST_IN_PF :: u32 where "E_PAGE_NOT_EXIST_IN_PF = - 9"
definition E_TABLE_NOT_EXIST_IN_PF :: u32 where "E_TABLE_NOT_EXIST_IN_PF = - 10"
definition E_NO_VM :: u32 where "E_NO_VM = - 20"

lemmas error_codes [fos_consts] =
  E_BAD_ENV_def E_INVAL_def E_NO_MEM_def E_NO_FREE_ENV_def E_NO_PAGE_FILE_SPACE_def
  E_PAGE_NOT_EXIST_IN_PF_def E_TABLE_NOT_EXIST_IN_PF_def E_NO_VM_def

text \<open>
  The pages initialize_paging() reserves as ptr_zero_page and ptr_temp_page, and
  __pf_read_env_table() of kern/file_manager.c, which brings a page table back from the page file.
\<close>

definition ptr_zero_page :: u32 where "ptr_zero_page = KERNEL_BASE + PAGE_SIZE"
definition ptr_temp_page :: u32 where "ptr_temp_page = KERNEL_BASE + 2 * PAGE_SIZE"

definition pf_read_env_table :: "kstate \<Rightarrow> nat \<Rightarrow> u32 \<Rightarrow> u32 \<Rightarrow> (u32 \<times> kstate) result" where
  "pf_read_env_table s e va tableKVirtualAddress =
     (let dir = disk_env_tabledir (envs s e) in
      if dir = 0 then Inr (E_TABLE_NOT_EXIST_IN_PF, s)
      else rbind (kload s dir (PDX va)) (\<lambda>dfn.
        if dfn = 0 then Inr (E_TABLE_NOT_EXIST_IN_PF, s)
        else read_disk_page s dfn tableKVirtualAddress))"

text \<open>
  The pt_ functions work on a table that is in the page file by reading it into the temporary page,
  changing it there and writing it back; \<open>f\<close> is the change of the entry. The read has found the
  table directory and its entry, so __pf_write_env_table() neither creates a directory nor
  allocates a disk frame and is the write to the frame found there.
\<close>

definition on_disk_table ::
  "kstate \<Rightarrow> nat \<Rightarrow> u32 \<Rightarrow> string \<Rightarrow> (u32 \<Rightarrow> u32) \<Rightarrow> kstate result" where
  "on_disk_table s e va msg f =
     rbind (pf_read_env_table s e va ptr_temp_page) (\<lambda>(success, s).
       if success = E_TABLE_NOT_EXIST_IN_PF then Inl (Panic msg)
       else
         rbind (kload s ptr_temp_page (PTX va)) (\<lambda>pte.
         rbind (kstore s ptr_temp_page (PTX va) (f pte)) (\<lambda>s.
         if \<not> va < KERNEL_BASE then Inl (Assert_failure ''virtual_address < KERNEL_BASE'')
         else
           rbind (kload s (disk_env_tabledir (envs s e)) (PDX va)) (\<lambda>dfn.
           rbind (write_disk_page s dfn ptr_temp_page) (\<lambda>(_, s). Inr s)))))"

text \<open>pt_clear_page_table_entry() zeroes one entry of a page table of an environment.\<close>

definition pt_clear_page_table_entry :: "kstate \<Rightarrow> nat \<Rightarrow> u32 \<Rightarrow> kstate result" where
  "pt_clear_page_table_entry s e va =
     (let pgdir = env_page_directory (envs s e) in
      rbind (kload s pgdir (PDX va)) (\<lambda>pde.
        if pde AND PERM_PRESENT = PERM_PRESENT then
          rbind (table_pointer s va pde) (\<lambda>pt. kstore s pt (PTX va) 0)
        else if pde \<noteq> 0 then
          on_disk_table s e va ''pt_clear_page_table_entry: table not found in PF'' (\<lambda>_. 0)
        else Inl (Panic ''pt_clear_page_table_entry: page table does not exist'')))"

definition allocate_frame :: "kstate \<Rightarrow> (u32 \<times> kstate) result" where
  "allocate_frame s =
     (case first_of (free_frame_list s) of
        None \<Rightarrow> Inl (Panic ''Kernel run out of memory'')
      | Some f \<Rightarrow>
          let s = s\<lparr>free_frame_list := seq_remove (free_frame_list s) f\<rparr> in
          rbind (if fi_isBuffered (frames_info s f) \<noteq> 0 then
                   (case fi_environment (frames_info s f) of
                      None \<Rightarrow> Inl (Kernel_fault 0)
                    | Some e \<Rightarrow> pt_clear_page_table_entry s e (fi_va (frames_info s f)))
                 else Inr s)
            (\<lambda>s. Inr (f, initialize_frame_info s f)))"

definition free_frame :: "kstate \<Rightarrow> u32 \<Rightarrow> kstate" where
  "free_frame s f =
     (let s = initialize_frame_info s f in
      s\<lparr>free_frame_list := seq_insert_head (free_frame_list s) f\<rparr>)"

text \<open>The 16-bit reference count.\<close>

definition set_references :: "kstate \<Rightarrow> u32 \<Rightarrow> u16 \<Rightarrow> kstate" where
  "set_references s f n =
     s\<lparr>frames_info := (frames_info s)(f := (frames_info s f)\<lparr>fi_references := n\<rparr>)\<rparr>"

definition references :: "kstate \<Rightarrow> u32 \<Rightarrow> u16" where
  "references s f = fi_references (frames_info s f)"

definition decrement_references :: "kstate \<Rightarrow> u32 \<Rightarrow> kstate" where
  "decrement_references s f =
     (let s = set_references s f (references s f - 1) in
      if references s f = 0 then free_frame s f else s)"

text \<open>calculate_available_frames() walks both lists.\<close>

record freeFramesCounters =
  freeBuffered :: u32
  freeNotBuffered :: u32
  modified :: u32

definition calculate_available_frames :: "kstate \<Rightarrow> freeFramesCounters" where
  "calculate_available_frames s =
     (let (b, u) = fold (\<lambda>f (b, u). if fi_isBuffered (frames_info s f) \<noteq> 0 then (b + 1, u)
                                    else (b, u + 1)) (free_frame_list s) (0, 0);
          m = fold (\<lambda>_ m. m + 1) (modified_frame_list s) 0
      in \<lparr>freeBuffered = b, freeNotBuffered = u, modified = m\<rparr>)"

text \<open>sys_clearFFL() of kern/syscall.c takes every free frame.\<close>

fun clearFFL_loop :: "nat \<Rightarrow> kstate \<Rightarrow> kstate result" where
  "clearFFL_loop 0 s = Inr s"
| "clearFFL_loop (Suc n) s = rbind (allocate_frame s) (\<lambda>(_, s). clearFFL_loop n s)"

definition sys_clearFFL :: "kstate \<Rightarrow> kstate result" where
  "sys_clearFFL s = clearFFL_loop (length (free_frame_list s)) s"

section \<open>Boot-time initialisation\<close>

text \<open>
  initialize_paging(): frames 0 to 2, the I/O hole and the kernel image are in use, all other
  frames go on the free list. ptr_zero_page and ptr_temp_page are byte pointers, so the loop to
  1024 clears the first 256 words of frames 1 and 2.
\<close>

definition clear_low_words :: "kstate \<Rightarrow> u32 \<Rightarrow> kstate result" where
  "clear_low_words s p =
     (case kframe s p of
        None \<Rightarrow> Inl (Kernel_fault p)
      | Some f \<Rightarrow> Inr (phys_fill s f (\<lambda>i. if i < 256 then 0 else phys s f i)))"

definition mark_used :: "nat \<Rightarrow> kstate \<Rightarrow> kstate" where
  "mark_used i s = set_references s (of_nat i) 1"

definition mark_free :: "nat \<Rightarrow> kstate \<Rightarrow> kstate" where
  "mark_free i s =
     (let s = initialize_frame_info s (of_nat i) in
      s\<lparr>free_frame_list := seq_insert_head (free_frame_list s) (of_nat i)\<rparr>)"

definition PAGES_PER_FILE :: nat where "PAGES_PER_FILE = 133120"

definition initialize_disk_page_file :: "kstate \<Rightarrow> kstate" where
  "initialize_disk_page_file s =
     fold (\<lambda>i s. s\<lparr>disk_free_frame_list := seq_insert_head (disk_free_frame_list s) (of_nat i)\<rparr>)
       [1..<PAGES_PER_FILE] (s\<lparr>disk_free_frame_list := []\<rparr>)"

definition initialize_paging :: "kstate \<Rightarrow> kstate result" where
  "initialize_paging s =
     (let s = s\<lparr>free_frame_list := [], modified_frame_list := []\<rparr>;
          s = mark_used 2 (mark_used 1 (mark_used 0 s)) in
      rbind (clear_low_words s ptr_zero_page) (\<lambda>s.
      rbind (clear_low_words s ptr_temp_page) (\<lambda>s.
      let range_end = ROUNDUP PHYS_IO_MEM PAGE_SIZE;
          s = fold mark_free [3..<unat (range_end div PAGE_SIZE)] s;
          s = fold mark_used
                [unat (PHYS_IO_MEM div PAGE_SIZE)..<unat (PHYS_EXTENDED_MEM div PAGE_SIZE)] s in
      rbind (STATIC_KERNEL_PHYSICAL_ADDRESS (ptr_free_mem s)) (\<lambda>pa.
      let range_end = ROUNDUP pa PAGE_SIZE;
          s = fold mark_used [unat (PHYS_EXTENDED_MEM div PAGE_SIZE)..<unat (range_end div PAGE_SIZE)] s;
          s = fold mark_free [unat (range_end div PAGE_SIZE)..<unat (number_of_frames s)] s
      in Inr (initialize_disk_page_file s)))))"

section \<open>Facts\<close>

lemma seq_simps [simp]:
  "seq_insert_head xs x = x # xs" "seq_insert_tail xs x = xs @ [x]" "seq_remove xs x = remove1 x xs"
  by (simp_all add: seq_insert_head_def seq_insert_tail_def seq_remove_def)

lemma zero_frame_info_simps [simp]:
  "fi_references zero_frame_info = 0" "fi_va zero_frame_info = 0"
  "fi_environment zero_frame_info = None" "fi_isBuffered zero_frame_info = 0"
  by (simp_all add: zero_frame_info_def)

section \<open>Pools of frames\<close>

text \<open>
  The contract of a pool kept as a list: the head is handed out, a released element becomes the
  head, and the invariant \<open>ok\<close> is kept; \<open>may\<close> says which elements may be released.
\<close>

locale frame_pool =
  fixes ok :: "'s \<Rightarrow> bool" and may :: "'s \<Rightarrow> 'f \<Rightarrow> bool" and pool :: "'s \<Rightarrow> 'f list"
    and alloc :: "'s \<Rightarrow> ('f \<times> 's) option" and release :: "'s \<Rightarrow> 'f \<Rightarrow> 's"
  assumes ok_distinct: "ok s \<Longrightarrow> distinct (pool s)"
    and alloc_head: "ok s \<Longrightarrow> pool s = f # fs \<Longrightarrow> \<exists>s'. alloc s = Some (f, s') \<and> pool s' = fs \<and> ok s'"
    and alloc_empty: "pool s = [] \<Longrightarrow> alloc s = None"
    and release_head: "ok s \<Longrightarrow> may s f \<Longrightarrow> pool (release s f) = f # pool s \<and> ok (release s f)"

fun take_frames :: "('s \<Rightarrow> ('f \<times> 's) option) \<Rightarrow> nat \<Rightarrow> 's \<Rightarrow> ('f list \<times> 's) option" where
  "take_frames alloc 0 s = Some ([], s)"
| "take_frames alloc (Suc n) s =
     Option.bind (alloc s) (\<lambda>(f, s). map_option (\<lambda>(fs, s). (f # fs, s)) (take_frames alloc n s))"

context frame_pool
begin

lemma release_alloc:
  assumes "ok s" and "may s f"
  shows "\<exists>s'. alloc (release s f) = Some (f, s') \<and> pool s' = pool s \<and> ok s'"
  using release_head [OF assms] alloc_head [of "release s f" f "pool s"] by blast

lemma take_prefix:
  "ok s \<Longrightarrow> n \<le> length (pool s) \<Longrightarrow>
     \<exists>s'. take_frames alloc n s = Some (take n (pool s), s') \<and> pool s' = drop n (pool s) \<and> ok s'"
proof (induction n arbitrary: s)
  case (Suc n)
  then obtain f fs where p: "pool s = f # fs" by (cases "pool s") auto
  with Suc.prems obtain s1 where s1: "alloc s = Some (f, s1)" "pool s1 = fs" "ok s1"
    using alloc_head by blast
  then obtain s' where "take_frames alloc n s1 = Some (take n fs, s')" "pool s' = drop n fs" "ok s'"
    using Suc.IH [of s1] Suc.prems(2) p by auto
  then show ?case using s1 p by simp
qed simp

lemma take_too_many:
  "ok s \<Longrightarrow> length (pool s) < n \<Longrightarrow> take_frames alloc n s = None"
proof (induction n arbitrary: s)
  case (Suc n)
  show ?case
  proof (cases "pool s")
    case Nil
    then show ?thesis by (simp add: alloc_empty)
  next
    case (Cons f fs)
    with Suc.prems(1) obtain s1 where "alloc s = Some (f, s1)" "pool s1 = fs" "ok s1"
      using alloc_head by blast
    then show ?thesis using Suc.IH [of s1] Suc.prems(2) Cons by simp
  qed
qed simp

end

text \<open>The value of a computation that returned.\<close>

definition returned :: "'a result \<Rightarrow> 'a option" where
  "returned r = (case r of Inl _ \<Rightarrow> None | Inr x \<Rightarrow> Some x)"

definition plain_frames :: "kstate \<Rightarrow> bool" where
  "plain_frames s \<longleftrightarrow> distinct (free_frame_list s)
     \<and> (\<forall>f \<in> set (free_frame_list s). fi_isBuffered (frames_info s f) = 0)"

lemma allocate_plain:
  assumes "free_frame_list s = f # fs" and "fi_isBuffered (frames_info s f) = 0"
  shows "allocate_frame s = Inr (f, initialize_frame_info (s\<lparr>free_frame_list := fs\<rparr>) f)"
  using assms by (simp add: allocate_frame_def)

interpretation frames: frame_pool plain_frames "\<lambda>s f. f \<notin> set (free_frame_list s)" free_frame_list
  "\<lambda>s. returned (allocate_frame s)" free_frame
proof unfold_locales
  fix s :: kstate and f :: u32 and fs :: "u32 list"
  assume "plain_frames s" "free_frame_list s = f # fs"
  then show "\<exists>s'. returned (allocate_frame s) = Some (f, s') \<and> free_frame_list s' = fs \<and> plain_frames s'"
    using allocate_plain [of s f fs]
    by (auto simp: plain_frames_def returned_def initialize_frame_info_def)
qed (auto simp: plain_frames_def returned_def allocate_frame_def free_frame_def initialize_frame_info_def)

section \<open>The free list at boot\<close>

lemma mark_simps [simp]:
  "free_frame_list (mark_used i s) = free_frame_list s"
  "frames_info (mark_used i s) = (frames_info s)(of_nat i := (frames_info s (of_nat i))\<lparr>fi_references := 1\<rparr>)"
  "free_frame_list (mark_free i s) = of_nat i # free_frame_list s"
  "frames_info (mark_free i s) = (frames_info s)(of_nat i := zero_frame_info)"
  by (simp_all add: mark_used_def mark_free_def set_references_def initialize_frame_info_def)

lemma mark_other [simp]:
  "ptr_free_mem (mark_used i s) = ptr_free_mem s" "ptr_free_mem (mark_free i s) = ptr_free_mem s"
  "number_of_frames (mark_used i s) = number_of_frames s"
  "number_of_frames (mark_free i s) = number_of_frames s"
  "phys (mark_used i s) = phys s" "phys (mark_free i s) = phys s"
  "phys_page_directory (mark_used i s) = phys_page_directory s"
  "phys_page_directory (mark_free i s) = phys_page_directory s"
  by (simp_all add: mark_used_def mark_free_def set_references_def initialize_frame_info_def)

lemma fold_mark_other [simp]:
  "ptr_free_mem (fold mark_used is s) = ptr_free_mem s" "ptr_free_mem (fold mark_free is s) = ptr_free_mem s"
  "number_of_frames (fold mark_used is s) = number_of_frames s"
  "number_of_frames (fold mark_free is s) = number_of_frames s"
  "free_frame_list (fold mark_used is s) = free_frame_list s"
  by (induction "is" arbitrary: s) simp_all

lemma fold_mark_free_list:
  "free_frame_list (fold mark_free is s) = rev (map of_nat is) @ free_frame_list s"
  by (induction "is" arbitrary: s) simp_all

end
