(* ===== verification/FOS_PageTable.thy ===== *)
theory FOS_PageTable
  imports FOS_Frames
begin

text \<open>
  Page tables of kern/memory_manager.c: finding the table of a virtual address, reading the frame
  mapped there, mapping and unmapping frames with their reference counts. map_frame() creates a
  missing table through create_page_table(), which allocates from the kernel heap, which itself
  calls map_frame() on the kernel directory; the body is therefore defined over the function that
  creates a table, and the theory of the kernel heap ties the knot.
\<close>

section \<open>Operations\<close>

definition TABLE_IN_MEMORY :: u32 where "TABLE_IN_MEMORY = 0"
definition TABLE_NOT_EXIST :: u32 where "TABLE_NOT_EXIST = 1"

text \<open>The status returned, and the table pointer stored through ptr_page_table.\<close>

definition get_page_table :: "kstate \<Rightarrow> u32 \<Rightarrow> u32 \<Rightarrow> (u32 \<times> u32) result" where
  "get_page_table s dir va =
     rbind (kload s dir (PDX va)) (\<lambda>pde.
     rbind (table_pointer s va pde) (\<lambda>pt.
       if pde AND PERM_PRESENT = PERM_PRESENT then Inr (TABLE_IN_MEMORY, pt)
       else if pde \<noteq> 0 then Inl (Nested_table_fault va)
       else Inr (TABLE_NOT_EXIST, 0)))"

text \<open>The frame mapped at an address, if any, and the table pointer for the caller.\<close>

definition get_frame_info :: "kstate \<Rightarrow> u32 \<Rightarrow> u32 \<Rightarrow> (u32 option \<times> u32) result" where
  "get_frame_info s dir va =
     rbind (get_page_table s dir va) (\<lambda>(ret, pt).
       if pt \<noteq> 0 then
         rbind (kload s pt (PTX va)) (\<lambda>pte.
           if pte \<noteq> 0 then rbind (to_frame_info s (EXTRACT_ADDRESS pte)) (\<lambda>f. Inr (Some f, pt))
           else Inr (None, pt))
       else Inr (None, pt))"

definition unmap_frame :: "kstate \<Rightarrow> u32 \<Rightarrow> u32 \<Rightarrow> kstate result" where
  "unmap_frame s dir va =
     rbind (get_frame_info s dir va) (\<lambda>(fo, pt).
       case fo of
         None \<Rightarrow> Inr s
       | Some f \<Rightarrow> kstore (decrement_references s f) pt (PTX va) 0)"

definition map_frame_body ::
  "(kstate \<Rightarrow> u32 \<Rightarrow> u32 \<Rightarrow> (u32 \<times> kstate) result)
     \<Rightarrow> kstate \<Rightarrow> u32 \<Rightarrow> u32 \<Rightarrow> u32 \<Rightarrow> u32 \<Rightarrow> kstate result" where
  "map_frame_body cpt s dir f va perm =
     (let physical_address = to_physical_address f in
      rbind (get_page_table s dir va) (\<lambda>(st, pt).
      rbind (if st = TABLE_NOT_EXIST then cpt s dir va else Inr (pt, s)) (\<lambda>(pt, s).
      rbind (kload s pt (PTX va)) (\<lambda>pte.
        if pte AND PERM_PRESENT = PERM_PRESENT \<and> EXTRACT_ADDRESS pte = physical_address
        then Inr s
        else
          rbind (if pte AND PERM_PRESENT = PERM_PRESENT then unmap_frame s dir va else Inr s) (\<lambda>s.
            let s = set_references s f (references s f + 1) in
            kstore s pt (PTX va) (CONSTRUCT_ENTRY physical_address (perm OR PERM_PRESENT)))))))"

text \<open>The table creator handed to mappings made while a table is being created.\<close>

definition no_nested_table :: "kstate \<Rightarrow> u32 \<Rightarrow> u32 \<Rightarrow> (u32 \<times> kstate) result" where
  "no_nested_table s dir va = Inl (Nested_table_creation va)"

text \<open>kheap_physical_address() of kern/kheap.c reads the kernel page tables.\<close>

definition kheap_physical_address :: "kstate \<Rightarrow> u32 \<Rightarrow> u32 result" where
  "kheap_physical_address s va =
     rbind (get_page_table s (ptr_page_directory s) va) (\<lambda>(_, pt).
     rbind (kload s pt (PTX va)) (\<lambda>pte. Inr (drop_bit 12 pte * PAGE_SIZE)))"

end
