(* ===== verification/FOS_KHeap.thy ===== *)
theory FOS_KHeap
  imports FOS_PageTable
begin

text \<open>
  The kernel heap of kern/kheap.c: kmalloc() with its two alternative placement strategies,
  kfree(), and the translations between kernel-heap virtual addresses and physical addresses;
  then the operations of kern/memory_manager.c that create page tables on it.
\<close>

section \<open>Allocation\<close>

definition KHEAP_ENTRIES :: u32 where
  "KHEAP_ENTRIES = (KERNEL_HEAP_MAX - KERNEL_HEAP_START + 1) div PAGE_SIZE"

definition pages_of :: "u32 \<Rightarrow> u32" where
  "pages_of sz = (sz + PAGE_SIZE - 1) div PAGE_SIZE"

text \<open>One round of the mapping loops: take a frame, map it, record its address.\<close>

definition kmalloc_page :: "kstate \<Rightarrow> u32 \<Rightarrow> kstate result" where
  "kmalloc_page s writeAt =
     rbind (allocate_frame s) (\<lambda>(f, s).
     rbind (map_frame_body no_nested_table s (ptr_page_directory s) f writeAt
              (PERM_PRESENT OR PERM_WRITEABLE)) (\<lambda>s.
     Inr (s\<lparr>virtualAddresses :=
             (virtualAddresses s)(to_physical_address f div PAGE_SIZE := writeAt)\<rparr>)))"

fun kmalloc_loop :: "nat \<Rightarrow> kstate \<Rightarrow> kstate result" where
  "kmalloc_loop 0 s = Inr s"
| "kmalloc_loop (Suc n) s =
     rbind (kmalloc_page s (firstFreeVAInKHeap s)) (\<lambda>s.
     kmalloc_loop n (s\<lparr>firstFreeVAInKHeap := firstFreeVAInKHeap s + PAGE_SIZE\<rparr>))"

definition kmalloc :: "kstate \<Rightarrow> u32 \<Rightarrow> (u32 \<times> kstate) result" where
  "kmalloc s sz =
     (let sz = pages_of sz in
      if firstFreeVAInKHeap s \<ge> KERNEL_HEAP_MAX - sz * PAGE_SIZE then Inr (0, s)
      else let retVal = firstFreeVAInKHeap s in
        rbind (kmalloc_loop (unat sz) s) (\<lambda>s.
        if kheap_idx s \<ge> KHEAP_ENTRIES then Inl (Out_of_bounds ''allocatedHAddresses'')
        else Inr (retVal,
          s\<lparr>allocatedHAddresses := (allocatedHAddresses s)(kheap_idx s :=
              \<lparr>kh_size = sz, kh_virtualAddress = retVal, kh_empty = 0\<rparr>),
            kheap_idx := kheap_idx s + 1\<rparr>)))"

section \<open>The first-fit and best-fit strategies\<close>

text \<open>The inner loop of both: extend the run of freed entries from \<open>j\<close> until it is big enough.\<close>

function fit_extend :: "kstate \<Rightarrow> u32 \<Rightarrow> u32 \<Rightarrow> u32 \<Rightarrow> u32 \<Rightarrow> u32 \<times> u32" where
  "fit_extend s sz j freeSizeSum count =
     (if j < kheap_idx s \<and> freeSizeSum < sz \<and> kh_empty (allocatedHAddresses s j) = 1
      then fit_extend s sz (j + 1) (freeSizeSum + kh_size (allocatedHAddresses s j)) (count + 1)
      else (freeSizeSum, count))"
  by pat_completeness auto
termination
  by (relation "measure (\<lambda>(s, sz, j, _, _). unat (kheap_idx s) - unat j)")
    (auto intro: word_loop_measure)

declare fit_extend.simps [simp del]

text \<open>
  The search of kmallocFirstFit(): the first freed entry from which the accumulated free size is
  big enough. As in the code, freeSizeSum and count keep accumulating over the candidates that
  were too small.
\<close>

function firstfit_search :: "kstate \<Rightarrow> u32 \<Rightarrow> u32 \<Rightarrow> u32 \<Rightarrow> u32 \<Rightarrow> (u32 \<times> u32) option" where
  "firstfit_search s sz i freeSizeSum count =
     (if i < kheap_idx s then
        (if kh_empty (allocatedHAddresses s i) = 1 then
           (let (sum, cnt) = fit_extend s sz (i + 1)
                               (freeSizeSum + kh_size (allocatedHAddresses s i)) (count + 1)
            in if sum \<ge> sz then Some (i, cnt) else firstfit_search s sz (i + 1) sum cnt)
         else firstfit_search s sz (i + 1) freeSizeSum count)
      else None)"
  by pat_completeness auto
termination
  by (relation "measure (\<lambda>(s, sz, i, _, _). unat (kheap_idx s) - unat i)")
    (auto intro: word_loop_measure)

declare firstfit_search.simps [simp del]

text \<open>The search of kmallocBestFit() goes over every entry; the count is the final one.\<close>

function bestfit_search ::
  "kstate \<Rightarrow> u32 \<Rightarrow> u32 \<Rightarrow> u32 \<Rightarrow> u32 \<Rightarrow> u32 option \<Rightarrow> u32 \<Rightarrow> u32 option \<times> u32" where
  "bestfit_search s sz i freeSizeSum count best difference =
     (if i < kheap_idx s then
        (if kh_empty (allocatedHAddresses s i) = 1 then
           (let (sum, cnt) = fit_extend s sz (i + 1)
                               (freeSizeSum + kh_size (allocatedHAddresses s i)) (count + 1)
            in if sum \<ge> sz \<and> sum - sz < difference
               then bestfit_search s sz (i + 1) sum cnt (Some i) (sum - sz)
               else bestfit_search s sz (i + 1) sum cnt best difference)
         else bestfit_search s sz (i + 1) freeSizeSum count best difference)
      else (best, count))"
  by pat_completeness auto
termination
  by (relation "measure (\<lambda>(s, sz, i, _, _, _, _). unat (kheap_idx s) - unat i)")
    (auto intro: word_loop_measure)

declare bestfit_search.simps [simp del]

fun map_pages :: "nat \<Rightarrow> u32 \<Rightarrow> kstate \<Rightarrow> (u32 \<times> kstate) result" where
  "map_pages 0 writeAt s = Inr (writeAt, s)"
| "map_pages (Suc n) writeAt s =
     rbind (kmalloc_page s writeAt) (\<lambda>s. map_pages n (writeAt + PAGE_SIZE) s)"

text \<open>Marking \<open>count\<close> entries from the chosen one as used, and its size.\<close>

definition reuse_entries :: "kstate \<Rightarrow> u32 \<Rightarrow> u32 \<Rightarrow> u32 \<Rightarrow> kstate" where
  "reuse_entries s i sz count =
     (let a = (allocatedHAddresses s)(i := (allocatedHAddresses s i)\<lparr>kh_size := sz\<rparr>) in
      s\<lparr>allocatedHAddresses :=
          fold (\<lambda>k a. a(i + of_nat k := (a (i + of_nat k))\<lparr>kh_empty := 0\<rparr>)) [0..<unat count] a\<rparr>)"

definition append_entry :: "kstate \<Rightarrow> u32 \<Rightarrow> u32 \<Rightarrow> u32 \<Rightarrow> kstate result" where
  "append_entry s writeAt retVal sz =
     (if kheap_idx s \<ge> KHEAP_ENTRIES then Inl (Out_of_bounds ''allocatedHAddresses'')
      else Inr (s\<lparr>firstFreeVAInKHeap := writeAt,
       allocatedHAddresses := (allocatedHAddresses s)(kheap_idx s :=
         (allocatedHAddresses s (kheap_idx s))\<lparr>kh_virtualAddress := retVal, kh_size := sz\<rparr>),
       kheap_idx := kheap_idx s + 1\<rparr>))"

definition kmallocFirstFit :: "kstate \<Rightarrow> u32 \<Rightarrow> (u32 \<times> kstate) result" where
  "kmallocFirstFit s sz =
     (let sz = pages_of sz;
          no_room = firstFreeVAInKHeap s \<ge> KERNEL_HEAP_MAX - sz * PAGE_SIZE;
          found = (if no_room then firstfit_search s sz 0 0 0 else None) in
      if no_room \<and> found = None then Inr (0, s)
      else
        let retVal = (case found of Some (i, _) \<Rightarrow> kh_virtualAddress (allocatedHAddresses s i)
                      | None \<Rightarrow> firstFreeVAInKHeap s) in
        rbind (map_pages (unat sz) retVal s) (\<lambda>(writeAt, s).
        rbind (case found of Some (i, count) \<Rightarrow> Inr (reuse_entries s i sz count)
               | None \<Rightarrow> append_entry s writeAt retVal sz) (\<lambda>s. Inr (retVal, s))))"

definition kmallocBestFit :: "kstate \<Rightarrow> u32 \<Rightarrow> (u32 \<times> kstate) result" where
  "kmallocBestFit s sz =
     (let sz = pages_of sz;
          (best, count) = bestfit_search s sz 0 0 0 None 1000000000 in
      if firstFreeVAInKHeap s \<ge> KERNEL_HEAP_MAX - sz * PAGE_SIZE \<and> best = None then Inr (0, s)
      else
        let retVal = (case best of Some i \<Rightarrow> kh_virtualAddress (allocatedHAddresses s i)
                      | None \<Rightarrow> firstFreeVAInKHeap s) in
        rbind (map_pages (unat sz) retVal s) (\<lambda>(writeAt, s).
        rbind (case best of Some i \<Rightarrow> Inr (reuse_entries s i sz count)
               | None \<Rightarrow> append_entry s writeAt retVal sz) (\<lambda>s. Inr (retVal, s))))"

section \<open>Deallocation\<close>

text \<open>The first entry with the given address, searched over the whole array.\<close>

function kfree_search :: "kstate \<Rightarrow> u32 \<Rightarrow> u32 \<Rightarrow> u32 option" where
  "kfree_search s va i =
     (if i < KHEAP_ENTRIES then
        (if kh_virtualAddress (allocatedHAddresses s i) = va then Some i
         else kfree_search s va (i + 1))
      else None)"
  by pat_completeness auto
termination
  by (relation "measure (\<lambda>(s, va, i). unat KHEAP_ENTRIES - unat i)") (auto intro: word_loop_measure)

declare kfree_search.simps [simp del]

fun kfree_loop :: "nat \<Rightarrow> u32 \<Rightarrow> kstate \<Rightarrow> kstate result" where
  "kfree_loop 0 va s = Inr s"
| "kfree_loop (Suc n) va s =
     rbind (kheap_physical_address s va) (\<lambda>pa.
     let s = s\<lparr>virtualAddresses := (virtualAddresses s)(pa div PAGE_SIZE := 0)\<rparr> in
     rbind (unmap_frame s (ptr_page_directory s) va) (\<lambda>s.
     kfree_loop n (va + PAGE_SIZE) s))"

text \<open>When no entry has the address, the variable index is used without having been assigned.\<close>

definition kfree :: "kstate \<Rightarrow> u32 \<Rightarrow> kstate result" where
  "kfree s va =
     (case kfree_search s va 0 of
        None \<Rightarrow> Inl (Uninitialised ''index'')
      | Some index \<Rightarrow>
          rbind (kfree_loop (unat (kh_size (allocatedHAddresses s index))) va s) (\<lambda>s.
          Inr (s\<lparr>allocatedHAddresses := (allocatedHAddresses s)(index :=
                   (allocatedHAddresses s index)\<lparr>kh_empty := 1\<rparr>)\<rparr>)))"

section \<open>Page tables on the kernel heap\<close>

definition create_page_table :: "kstate \<Rightarrow> u32 \<Rightarrow> u32 \<Rightarrow> (u32 \<times> kstate) result" where
  "create_page_table s dir va =
     rbind (kmalloc s PAGE_SIZE) (\<lambda>(p, s).
       if p = 0 then Inr (0, s)
       else
         rbind (kheap_physical_address s p) (\<lambda>pa.
         rbind (kfill s p (\<lambda>_. 0)) (\<lambda>s.
         rbind (kstore s dir (PDX va)
                  ((pa AND 0xFFFFF000) OR PERM_USER OR PERM_WRITEABLE OR PERM_PRESENT)) (\<lambda>s.
         Inr (p, s)))))"

definition map_frame :: "kstate \<Rightarrow> u32 \<Rightarrow> u32 \<Rightarrow> u32 \<Rightarrow> u32 \<Rightarrow> kstate result" where
  "map_frame = map_frame_body create_page_table"

text \<open>loadtime_map_frame() neither unmaps what was there nor looks at a swapped-out table.\<close>

definition loadtime_map_frame :: "kstate \<Rightarrow> u32 \<Rightarrow> u32 \<Rightarrow> u32 \<Rightarrow> u32 \<Rightarrow> kstate result" where
  "loadtime_map_frame s dir f va perm =
     rbind (kload s dir (PDX va)) (\<lambda>pde.
     rbind (table_pointer s va pde) (\<lambda>pt.
     rbind (if pde = 0 then create_page_table s dir va else Inr (pt, s)) (\<lambda>(pt, s).
       let s = set_references s f (references s f + 1) in
       kstore s pt (PTX va)
         (CONSTRUCT_ENTRY (to_physical_address f) (perm OR PERM_PRESENT)))))"

text \<open>The frame storage of shared objects: a directory indexed by object page.\<close>

definition add_frame_to_storage :: "kstate \<Rightarrow> u32 \<Rightarrow> u32 \<Rightarrow> u32 \<Rightarrow> kstate result" where
  "add_frame_to_storage s frames_storage f index =
     (let va = index * PAGE_SIZE in
      rbind (get_page_table s frames_storage va) (\<lambda>(r, pt).
      rbind (if r = TABLE_NOT_EXIST then create_page_table s frames_storage va else Inr (pt, s))
        (\<lambda>(pt, s). kstore s pt (PTX va)
                     (CONSTRUCT_ENTRY (to_physical_address f) (0 OR PERM_PRESENT)))))"

definition get_frame_from_storage :: "kstate \<Rightarrow> u32 \<Rightarrow> u32 \<Rightarrow> u32 option result" where
  "get_frame_from_storage s frames_storage index =
     rbind (get_frame_info s frames_storage (index * PAGE_SIZE)) (\<lambda>(fo, _). Inr fo)"

fun clear_storage_loop :: "nat \<Rightarrow> u32 \<Rightarrow> u32 \<Rightarrow> kstate \<Rightarrow> kstate result" where
  "clear_storage_loop 0 i st s = Inr s"
| "clear_storage_loop (Suc n) i st s =
     rbind (kload s st i) (\<lambda>pde.
     rbind (if pde \<noteq> 0 then
              rbind (kfree s (kheap_virtual_address s (EXTRACT_ADDRESS pde))) (\<lambda>s. kstore s st i 0)
            else Inr s) (\<lambda>s.
     clear_storage_loop n (i + 1) st s))"

definition clear_frames_storage :: "kstate \<Rightarrow> u32 \<Rightarrow> kstate result" where
  "clear_frames_storage s frames_storage = clear_storage_loop 1024 0 frames_storage s"

end
