(* ===== verification/FOS_KernelMap.thy ===== *)
theory FOS_KernelMap
  imports FOS_KHeap
begin

text \<open>
  The invariant of the kernel half of the address space: the page directory and the page tables
  of the addresses from KERNEL_BASE on are present, pairwise different, inside memory, and mapped
  at their static kernel addresses, below the kernel heap. Under it the kernel reads and writes
  its own tables through the MMU exactly as the code intends, and neither a write to another
  frame nor a change of a kernel-heap entry disturbs it.
\<close>

section \<open>The kernel's tables\<close>

definition kdir :: "kstate \<Rightarrow> u32" where
  "kdir s = PPN (phys_page_directory s)"

definition ktab :: "kstate \<Rightarrow> u32 \<Rightarrow> u32" where
  "ktab s d = PPN (phys s (kdir s) d)"

text \<open>Directory indices of the addresses from KERNEL_BASE on, and of the kernel heap.\<close>

definition kernel_index :: "u32 \<Rightarrow> bool" where
  "kernel_index d \<longleftrightarrow> 960 \<le> d \<and> d < 1024"

definition heap_index :: "u32 \<Rightarrow> bool" where
  "heap_index d \<longleftrightarrow> 984 \<le> d \<and> d < 1024"

definition static_va :: "u32 \<Rightarrow> u32" where
  "static_va f = push_bit 12 f + KERNEL_BASE"

definition kernel_frame :: "kstate \<Rightarrow> u32 \<Rightarrow> bool" where
  "kernel_frame s f \<longleftrightarrow> f = kdir s \<or> (\<exists>d. kernel_index d \<and> f = ktab s d)"

text \<open>A frame mapped at its static address, through a table that is not one of the heap's.\<close>

definition static_mapped :: "kstate \<Rightarrow> u32 \<Rightarrow> bool" where
  "static_mapped s f \<longleftrightarrow> kframe s (static_va f) = Some f
     \<and> kernel_index (PDX (static_va f)) \<and> \<not> heap_index (PDX (static_va f))"

definition kmap_inv :: "kstate \<Rightarrow> bool" where
  "kmap_inv s \<longleftrightarrow>
     ptr_page_directory s = static_va (kdir s) \<and> static_mapped s (kdir s)
   \<and> number_of_frames s \<le> 0x100000
   \<and> (\<forall>d. kernel_index d \<longrightarrow>
        phys s (kdir s) d AND PERM_PRESENT = PERM_PRESENT
      \<and> ktab s d < number_of_frames s \<and> ktab s d \<noteq> kdir s \<and> static_mapped s (ktab s d))
   \<and> (\<forall>d d'. kernel_index d \<longrightarrow> kernel_index d' \<longrightarrow> ktab s d = ktab s d' \<longrightarrow> d = d')"

lemma kmap_inv_cong:
  assumes "phys s' = phys s" "phys_page_directory s' = phys_page_directory s"
    "ptr_page_directory s' = ptr_page_directory s" "number_of_frames s' = number_of_frames s"
  shows "kmap_inv s' = kmap_inv s"
  using assms by (simp add: kmap_inv_def static_mapped_def kdir_def ktab_def kframe_def)

lemma kframe_cong:
  "phys s' = phys s \<Longrightarrow> phys_page_directory s' = phys_page_directory s \<Longrightarrow> kframe s' = kframe s"
  by (auto simp: kframe_def)

text \<open>None of this depends on the bookkeeping of frames, heap and environments.\<close>

lemma kdir_upd [simp]:
  "kdir (s\<lparr>frames_info := x0\<rparr>) = kdir s"
  "kdir (s\<lparr>free_frame_list := x1\<rparr>) = kdir s"
  "kdir (s\<lparr>modified_frame_list := x2\<rparr>) = kdir s"
  "kdir (s\<lparr>virtualAddresses := x3\<rparr>) = kdir s"
  "kdir (s\<lparr>firstFreeVAInKHeap := x4\<rparr>) = kdir s"
  "kdir (s\<lparr>allocatedHAddresses := x5\<rparr>) = kdir s"
  "kdir (s\<lparr>kheap_idx := x6\<rparr>) = kdir s"
  "kdir (s\<lparr>page_file := x7\<rparr>) = kdir s"
  "kdir (s\<lparr>disk_free_frame_list := x1\<rparr>) = kdir s"
  "kdir (s\<lparr>envs := x9\<rparr>) = kdir s"
  "kdir (s\<lparr>env_free_list := x10\<rparr>) = kdir s"
  "kdir (s\<lparr>curenv := x11\<rparr>) = kdir s"
  "kdir (s\<lparr>env_ready_queue := x12\<rparr>) = kdir s"
  "kdir (s\<lparr>env_new_queue := x13\<rparr>) = kdir s"
  "kdir (s\<lparr>env_exit_queue := x14\<rparr>) = kdir s"
  "kdir (s\<lparr>scheduler_status := x15\<rparr>) = kdir s"
  by (simp_all add: kdir_def)

lemma ktab_upd [simp]:
  "ktab (s\<lparr>frames_info := x0\<rparr>) = ktab s"
  "ktab (s\<lparr>free_frame_list := x1\<rparr>) = ktab s"
  "ktab (s\<lparr>modified_frame_list := x2\<rparr>) = ktab s"
  "ktab (s\<lparr>virtualAddresses := x3\<rparr>) = ktab s"
  "ktab (s\<lparr>firstFreeVAInKHeap := x4\<rparr>) = ktab s"
  "ktab (s\<lparr>allocatedHAddresses := x5\<rparr>) = ktab s"
  "ktab (s\<lparr>kheap_idx := x6\<rparr>) = ktab s"
  "ktab (s\<lparr>page_file := x7\<rparr>) = ktab s"
  "ktab (s\<lparr>disk_free_frame_list := x1\<rparr>) = ktab s"
  "ktab (s\<lparr>envs := x9\<rparr>) = ktab s"
  "ktab (s\<lparr>env_free_list := x10\<rparr>) = ktab s"
  "ktab (s\<lparr>curenv := x11\<rparr>) = ktab s"
  "ktab (s\<lparr>env_ready_queue := x12\<rparr>) = ktab s"
  "ktab (s\<lparr>env_new_queue := x13\<rparr>) = ktab s"
  "ktab (s\<lparr>env_exit_queue := x14\<rparr>) = ktab s"
  "ktab (s\<lparr>scheduler_status := x15\<rparr>) = ktab s"
  by (simp_all add: ktab_def fun_eq_iff)

lemma kmap_inv_upd [simp]:
  "kmap_inv (s\<lparr>frames_info := x0\<rparr>) = kmap_inv s"
  "kmap_inv (s\<lparr>free_frame_list := x1\<rparr>) = kmap_inv s"
  "kmap_inv (s\<lparr>modified_frame_list := x2\<rparr>) = kmap_inv s"
  "kmap_inv (s\<lparr>virtualAddresses := x3\<rparr>) = kmap_inv s"
  "kmap_inv (s\<lparr>firstFreeVAInKHeap := x4\<rparr>) = kmap_inv s"
  "kmap_inv (s\<lparr>allocatedHAddresses := x5\<rparr>) = kmap_inv s"
  "kmap_inv (s\<lparr>kheap_idx := x6\<rparr>) = kmap_inv s"
  "kmap_inv (s\<lparr>page_file := x7\<rparr>) = kmap_inv s"
  "kmap_inv (s\<lparr>disk_free_frame_list := x1\<rparr>) = kmap_inv s"
  "kmap_inv (s\<lparr>envs := x9\<rparr>) = kmap_inv s"
  "kmap_inv (s\<lparr>env_free_list := x10\<rparr>) = kmap_inv s"
  "kmap_inv (s\<lparr>curenv := x11\<rparr>) = kmap_inv s"
  "kmap_inv (s\<lparr>env_ready_queue := x12\<rparr>) = kmap_inv s"
  "kmap_inv (s\<lparr>env_new_queue := x13\<rparr>) = kmap_inv s"
  "kmap_inv (s\<lparr>env_exit_queue := x14\<rparr>) = kmap_inv s"
  "kmap_inv (s\<lparr>scheduler_status := x15\<rparr>) = kmap_inv s"
  by (rule kmap_inv_cong; simp)+

lemma kernel_frame_upd [simp]:
  "kernel_frame (s\<lparr>frames_info := x0\<rparr>) = kernel_frame s"
  "kernel_frame (s\<lparr>free_frame_list := x1\<rparr>) = kernel_frame s"
  "kernel_frame (s\<lparr>modified_frame_list := x2\<rparr>) = kernel_frame s"
  "kernel_frame (s\<lparr>virtualAddresses := x3\<rparr>) = kernel_frame s"
  "kernel_frame (s\<lparr>firstFreeVAInKHeap := x4\<rparr>) = kernel_frame s"
  "kernel_frame (s\<lparr>allocatedHAddresses := x5\<rparr>) = kernel_frame s"
  "kernel_frame (s\<lparr>kheap_idx := x6\<rparr>) = kernel_frame s"
  "kernel_frame (s\<lparr>page_file := x7\<rparr>) = kernel_frame s"
  "kernel_frame (s\<lparr>disk_free_frame_list := x1\<rparr>) = kernel_frame s"
  "kernel_frame (s\<lparr>envs := x9\<rparr>) = kernel_frame s"
  "kernel_frame (s\<lparr>env_free_list := x10\<rparr>) = kernel_frame s"
  "kernel_frame (s\<lparr>curenv := x11\<rparr>) = kernel_frame s"
  "kernel_frame (s\<lparr>env_ready_queue := x12\<rparr>) = kernel_frame s"
  "kernel_frame (s\<lparr>env_new_queue := x13\<rparr>) = kernel_frame s"
  "kernel_frame (s\<lparr>env_exit_queue := x14\<rparr>) = kernel_frame s"
  "kernel_frame (s\<lparr>scheduler_status := x15\<rparr>) = kernel_frame s"
  by (simp_all add: kernel_frame_def fun_eq_iff)

lemma heap_kernel_index: "heap_index d \<Longrightarrow> kernel_index d"
  by (simp add: heap_index_def kernel_index_def word_le_nat_alt word_less_nat_alt)

lemma unat_PDX: "unat (PDX va) = unat va div 4194304"
  using unat_u32_less [of va]
  by (simp add: PDX_def mask_10 drop_bit_eq_div take_bit_eq_mod unat_mod_distrib unat_div_distrib
      flip: take_bit_eq_mask)

lemma unat_PTX: "unat (PTX va) = unat va div 4096 mod 1024"
  by (simp add: PTX_def mask_10 drop_bit_eq_div take_bit_eq_mod unat_mod_distrib unat_div_distrib
      flip: take_bit_eq_mask)

lemma unat_PGOFF: "unat (PGOFF va) = unat va mod 4096"
  by (simp add: PGOFF_def mask_12 take_bit_eq_mod unat_mod_distrib flip: take_bit_eq_mask)

lemma PGOFF_0_iff: "PGOFF va = 0 \<longleftrightarrow> unat va mod 4096 = 0"
  by (metis unat_PGOFF unat_eq_zero)

lemma aligned_eqI:
  "PGOFF v = 0 \<Longrightarrow> PGOFF w = 0 \<Longrightarrow> PDX v = PDX w \<Longrightarrow> PTX v = PTX w \<Longrightarrow> v = w"
  by (metis PGADDR_decompose)

lemma kernel_PDX_iff: "kernel_index (PDX va) \<longleftrightarrow> KERNEL_BASE \<le> va"
  using unat_u32_less [of va]
  by (auto simp: kernel_index_def word_le_nat_alt word_less_nat_alt unat_PDX KERNEL_BASE_def)

lemma heap_PDX_iff: "heap_index (PDX va) \<longleftrightarrow> KERNEL_HEAP_START \<le> va"
  using unat_u32_less [of va]
  by (auto simp: heap_index_def word_le_nat_alt word_less_nat_alt unat_PDX KERNEL_HEAP_START_def)

section \<open>Reading the tables\<close>

definition kpte :: "kstate \<Rightarrow> u32 \<Rightarrow> u32" where
  "kpte s va = phys s (ktab s (PDX va)) (PTX va)"

lemma kpte_upd [simp]:
  "kpte (s\<lparr>frames_info := x0\<rparr>) = kpte s"
  "kpte (s\<lparr>free_frame_list := x1\<rparr>) = kpte s"
  "kpte (s\<lparr>modified_frame_list := x2\<rparr>) = kpte s"
  "kpte (s\<lparr>virtualAddresses := x3\<rparr>) = kpte s"
  "kpte (s\<lparr>firstFreeVAInKHeap := x4\<rparr>) = kpte s"
  "kpte (s\<lparr>allocatedHAddresses := x5\<rparr>) = kpte s"
  "kpte (s\<lparr>kheap_idx := x6\<rparr>) = kpte s"
  "kpte (s\<lparr>page_file := x7\<rparr>) = kpte s"
  "kpte (s\<lparr>disk_free_frame_list := x1\<rparr>) = kpte s"
  "kpte (s\<lparr>envs := x9\<rparr>) = kpte s"
  "kpte (s\<lparr>env_free_list := x10\<rparr>) = kpte s"
  "kpte (s\<lparr>curenv := x11\<rparr>) = kpte s"
  "kpte (s\<lparr>env_ready_queue := x12\<rparr>) = kpte s"
  "kpte (s\<lparr>env_new_queue := x13\<rparr>) = kpte s"
  "kpte (s\<lparr>env_exit_queue := x14\<rparr>) = kpte s"
  "kpte (s\<lparr>scheduler_status := x15\<rparr>) = kpte s"
  by (simp_all add: kpte_def fun_eq_iff)

lemma present_cases: "e AND PERM_PRESENT = PERM_PRESENT \<or> e AND PERM_PRESENT = 0"
  by (simp add: PERM_PRESENT_def and_one_eq mod_2_eq_odd)

lemma present_eq_0 [simp]: "e AND PERM_PRESENT = PERM_PRESENT \<Longrightarrow> e AND PERM_PRESENT \<noteq> 0"
  by (simp add: PERM_PRESENT_def)

lemma kframe_kernel:
  assumes "kmap_inv s" and "KERNEL_BASE \<le> va"
  shows "kframe s va = (if kpte s va AND PERM_PRESENT = 0 then None else Some (PPN (kpte s va)))"
proof -
  have "phys s (kdir s) (PDX va) AND PERM_PRESENT = PERM_PRESENT"
    using assms by (simp add: kmap_inv_def kernel_PDX_iff)
  then show ?thesis
    by (simp add: kframe_def mmu_walk_def kpte_def ktab_def kdir_def Let_def PERM_PRESENT_def)
qed

lemma kframe_ktab:
  assumes "kmap_inv s" and "kernel_index d"
  shows "kframe s (static_va (ktab s d)) = Some (ktab s d)"
  using assms by (simp add: kmap_inv_def static_mapped_def)

lemma kload_kdir:
  assumes "kmap_inv s"
  shows "kload s (ptr_page_directory s) i = Inr (phys s (kdir s) i)"
  using assms by (simp add: kload_def kmap_inv_def static_mapped_def)

lemma kernel_get_page_table:
  assumes "kmap_inv s" and "KERNEL_BASE \<le> va"
  shows "get_page_table s (ptr_page_directory s) va
           = Inr (TABLE_IN_MEMORY, static_va (ktab s (PDX va)))"
proof -
  have k: "kernel_index (PDX va)" using assms(2) by (simp add: kernel_PDX_iff)
  have "CHECK_IF_KERNEL_ADDRESS va"
    using assms(2) by (simp add: CHECK_IF_KERNEL_ADDRESS_def layout_defs word_le_nat_alt)
  moreover have "PPN (phys s (kdir s) (PDX va)) < number_of_frames s"
    and p: "phys s (kdir s) (PDX va) AND PERM_PRESENT = PERM_PRESENT"
    using assms(1) k by (simp_all add: kmap_inv_def ktab_def)
  ultimately have "table_pointer s va (phys s (kdir s) (PDX va)) = Inr (static_va (ktab s (PDX va)))"
    by (simp add: table_pointer_def STATIC_KERNEL_VIRTUAL_ADDRESS_def static_va_def ktab_def
        EXTRACT_eq_push PPN_push_bit)
  with p show ?thesis
    by (simp add: get_page_table_def kload_kdir [OF assms(1)])
qed

lemma kload_ktab:
  assumes "kmap_inv s" and "KERNEL_BASE \<le> va"
  shows "kload s (static_va (ktab s (PDX va))) i = Inr (phys s (ktab s (PDX va)) i)"
  using assms by (simp add: kload_def kframe_ktab kernel_PDX_iff)

lemma kstore_ktab:
  assumes "kmap_inv s" and "KERNEL_BASE \<le> va"
  shows "kstore s (static_va (ktab s (PDX va))) i v = Inr (phys_store s (ktab s (PDX va)) i v)"
  using assms by (simp add: kstore_def kframe_ktab kernel_PDX_iff)

lemma kheap_physical_address_kpte:
  assumes "kmap_inv s" and "KERNEL_BASE \<le> va"
  shows "kheap_physical_address s va = Inr (push_bit 12 (PPN (kpte s va)))"
  using assms by (simp add: kheap_physical_address_def kernel_get_page_table kload_ktab kpte_def
      PPN_def PAGE_SIZE_def push_bit_eq_mult)

section \<open>Writing the tables and other memory\<close>

lemma kmap_inv_other_frame:
  assumes inv: "kmap_inv s"
    and eq: "\<And>f. kernel_frame s f \<Longrightarrow> phys s' f = phys s f"
    and st: "phys_page_directory s' = phys_page_directory s"
      "ptr_page_directory s' = ptr_page_directory s" "number_of_frames s' = number_of_frames s"
  shows "kmap_inv s'" and "kernel_frame s' = kernel_frame s"
    and "KERNEL_BASE \<le> va \<Longrightarrow> kpte s' va = kpte s va"
    and "kernel_index d \<Longrightarrow> ktab s' d = ktab s d"
proof -
  have d: "kdir s' = kdir s" by (simp add: kdir_def st)
  have pd: "phys s' (kdir s) = phys s (kdir s)" by (rule eq) (simp add: kernel_frame_def)
  have t: "ktab s' d = ktab s d" for d by (simp add: ktab_def d pd)
  have pt: "phys s' (ktab s d) = phys s (ktab s d)" if "kernel_index d" for d
    by (rule eq) (use that in \<open>auto simp: kernel_frame_def\<close>)
  have kf: "kframe s' va = kframe s va" if "kernel_index (PDX va)" for va
    using that pt [of "PDX va"] pd
    by (simp add: kframe_def mmu_walk_def Let_def st ktab_def flip: kdir_def)
  show "kmap_inv s'"
    using inv unfolding kmap_inv_def static_mapped_def d st t pd by (auto simp: kf)
  show "kernel_frame s' = kernel_frame s" by (auto simp: kernel_frame_def d t fun_eq_iff)
  show "KERNEL_BASE \<le> va \<Longrightarrow> kpte s' va = kpte s va"
    by (simp add: kpte_def t pt kernel_PDX_iff)
  show "ktab s' d = ktab s d" by (rule t)
qed

text \<open>An entry of a kernel-heap table can change freely: the tables themselves lie elsewhere.\<close>

lemma kmap_inv_heap_store:
  assumes inv: "kmap_inv s" and h: "KERNEL_HEAP_START \<le> va"
    and s': "phys s' = (phys s)(ktab s (PDX va) := (phys s (ktab s (PDX va)))(PTX va := e))"
      "phys_page_directory s' = phys_page_directory s"
      "ptr_page_directory s' = ptr_page_directory s" "number_of_frames s' = number_of_frames s"
  shows "kmap_inv s'" and "kernel_frame s' = kernel_frame s" and "ktab s' = ktab s"
    and "KERNEL_BASE \<le> w \<Longrightarrow>
      kpte s' w = (if PDX w = PDX va \<and> PTX w = PTX va then e else kpte s w)"
proof -
  have hi: "heap_index (PDX va)" using h by (simp add: heap_PDX_iff)
  then have ki: "kernel_index (PDX va)" by (rule heap_kernel_index)
  have d: "kdir s' = kdir s" by (simp add: kdir_def s')
  have nd: "ktab s (PDX va) \<noteq> kdir s" using inv ki by (simp add: kmap_inv_def)
  then have pd: "phys s' (kdir s) = phys s (kdir s)" by (simp add: s')
  have t: "ktab s' d = ktab s d" for d by (simp add: ktab_def d pd)
  then show tt: "ktab s' = ktab s" by (rule ext)
  have inj: "ktab s d = ktab s (PDX va) \<longleftrightarrow> d = PDX va" if "kernel_index d" for d
    using inv ki that by (auto simp: kmap_inv_def)
  have kf: "kframe s' w = kframe s w" if "kernel_index (PDX w)" "\<not> heap_index (PDX w)" for w
  proof -
    have "ktab s (PDX w) \<noteq> ktab s (PDX va)" using inj that hi by auto
    then show ?thesis using pd
      by (simp add: kframe_def mmu_walk_def Let_def s' ktab_def flip: kdir_def)
  qed
  have sm: "static_mapped s' f \<longleftrightarrow> static_mapped s f" for f
    by (auto simp: static_mapped_def kf)
  show "kmap_inv s'"
    using inv unfolding kmap_inv_def sm d s'(2-4) t pd by simp
  show "kernel_frame s' = kernel_frame s" by (auto simp: kernel_frame_def d t fun_eq_iff)
  show "kpte s' w = (if PDX w = PDX va \<and> PTX w = PTX va then e else kpte s w)"
    if "KERNEL_BASE \<le> w"
    using inj [of "PDX w"] that by (auto simp: kpte_def t s' kernel_PDX_iff)
qed

end
