(* ===== verification/FOS_Sample.thy ===== *)
theory FOS_Sample
  imports FOS_KernelMap
begin

text \<open>
  A small instance of the memory right after initialize_kernel_VM(): the directory in frame 3, the
  64 kernel tables in frames 4 to 67, the first table mapping the low four megabytes at
  KERNEL_BASE. It is the state on which the theorems are applied to concrete inputs.
\<close>

definition sample_memory :: "u32 \<Rightarrow> page" where
  "sample_memory f i =
     (if f = 3 then (if 960 \<le> i \<and> i < 1024 then push_bit 12 (i - 956) OR 3 else 0)
      else if f = 4 \<and> i < 1024 then push_bit 12 i OR 3 else 0)"

definition sample_state :: kstate where
  "sample_state =
     \<lparr>phys = sample_memory, number_of_frames = 400,
      frames_info = (\<lambda>_. \<lparr>fi_references = 0, fi_va = 0, fi_environment = None, fi_isBuffered = 0\<rparr>),
      free_frame_list = [100, 101, 102], modified_frame_list = [],
      ptr_page_directory = 0xF0003000, phys_page_directory = 0x3000, ptr_free_mem = 0xF0150000,
      virtualAddresses = (\<lambda>_. 0),
      allocatedHAddresses = (\<lambda>_. \<lparr>kh_size = 0, kh_virtualAddress = 0, kh_empty = 0\<rparr>),
      kheap_idx = 0, firstFreeVAInKHeap = 0xF6000000, page_file = (\<lambda>_ _. 0), disk_error = False,
      disk_free_frame_list = [3, 2, 1], envs = (\<lambda>_. zero_env), env_free_list = [0, 1],
      curenv = None, env_ready_queue = [], env_new_queue = [], env_exit_queue = [],
      sched_next = None, scheduler_status = 0, reg_cr2 = 0, reg_cr3 = 0x3000, PageRepAlgoType = 0,
      EnableBuffering = 0, EnableModifiedBuffer = 0, ModifiedBufferLength = 0,
      UHeapPlacementStrategy = 0, bypassInstrLength = 0, tstcnt = 0\<rparr>"

lemma sample_simps [simp]:
  "phys sample_state = sample_memory"
  "number_of_frames sample_state = 400"
  "frames_info sample_state = (\<lambda>_. \<lparr>fi_references = 0, fi_va = 0, fi_environment = None, fi_isBuffered = 0\<rparr>)"
  "free_frame_list sample_state = [100, 101, 102]"
  "modified_frame_list sample_state = []"
  "ptr_page_directory sample_state = 0xF0003000"
  "phys_page_directory sample_state = 0x3000"
  "ptr_free_mem sample_state = 0xF0150000"
  "virtualAddresses sample_state = (\<lambda>_. 0)"
  "allocatedHAddresses sample_state = (\<lambda>_. \<lparr>kh_size = 0, kh_virtualAddress = 0, kh_empty = 0\<rparr>)"
  "kheap_idx sample_state = 0"
  "firstFreeVAInKHeap sample_state = 0xF6000000"
  "page_file sample_state = (\<lambda>_ _. 0)"
  "disk_error sample_state = False"
  "disk_free_frame_list sample_state = [3, 2, 1]"
  "envs sample_state = (\<lambda>_. zero_env)"
  "env_free_list sample_state = [0, 1]"
  "curenv sample_state = None"
  "env_ready_queue sample_state = []"
  "env_new_queue sample_state = []"
  "env_exit_queue sample_state = []"
  "sched_next sample_state = None"
  "scheduler_status sample_state = 0"
  "reg_cr2 sample_state = 0"
  "reg_cr3 sample_state = 0x3000"
  "PageRepAlgoType sample_state = 0"
  "EnableBuffering sample_state = 0"
  "EnableModifiedBuffer sample_state = 0"
  "ModifiedBufferLength sample_state = 0"
  "UHeapPlacementStrategy sample_state = 0"
  "bypassInstrLength sample_state = 0"
  "tstcnt sample_state = 0"
  by (simp_all add: sample_state_def)

lemma sample_entry:
  fixes i :: u32
  assumes "i < 0x100000"
  shows "PPN (push_bit 12 i OR 3) = i" "(push_bit 12 i OR 3) AND PERM_PRESENT = PERM_PRESENT"
proof -
  show "PPN (push_bit 12 i OR 3) = i"
    using PPN_CONSTRUCT [OF assms, of 3] by (simp add: CONSTRUCT_ENTRY_def)
  show "(push_bit 12 i OR 3) AND PERM_PRESENT = PERM_PRESENT"
    by (rule bit_eqI) (auto simp: bit_simps PERM_PRESENT_def)
qed

lemma sample_kdir [simp]: "kdir sample_state = 3"
  by (simp add: kdir_def PPN_def)

lemma sample_index:
  assumes "kernel_index d" shows "unat (d - 956) = unat d - 956" "d - 956 < 0x100000"
  using assms by (auto simp: kernel_index_def word_le_nat_alt word_less_nat_alt unat_sub)

lemma sample_ktab: "kernel_index d \<Longrightarrow> ktab sample_state d = d - 956"
  using sample_entry(1) [OF sample_index(2)]
  by (simp add: ktab_def kernel_index_def sample_memory_def)

lemma sample_static:
  assumes "f < 1024"
  shows "unat (static_va f) = unat f * 4096 + 4026531840"
    "PDX (static_va f) = 960" "PTX (static_va f) = f" "static_mapped sample_state f"
proof -
  have f: "unat f < 1024" using assms by (simp add: word_less_nat_alt)
  have "unat (push_bit 12 f) = unat f * 4096"
    using f by (simp add: push_bit_eq_mult unat_word_ariths)
  then show *: "unat (static_va f) = unat f * 4096 + 4026531840"
    using f unfolding static_va_def by (subst unat_add_u32) (simp_all add: KERNEL_BASE_def)
  have "unat (PDX (static_va f)) = unat (960 :: u32)" using f by (simp add: unat_PDX *)
  then show d: "PDX (static_va f) = 960" by (rule word_unat_eq_iff [THEN iffD2])
  have "(unat f + 983040) mod 1024 = unat f"
    using f mod_mult_self2 [of "unat f" 1024 960] by simp
  then have "unat (PTX (static_va f)) = unat f" by (simp add: unat_PTX *)
  then show t: "PTX (static_va f) = f" by (rule word_unat_eq_iff [THEN iffD2])
  have "f < 0x100000" using f by (simp add: word_less_nat_alt)
  note e = sample_entry [OF this]
  have "kframe sample_state (static_va f) = Some f"
    using assms e sample_entry [of 4]
    by (simp add: kframe_def mmu_walk_def d t sample_memory_def PPN_def Let_def
        PERM_PRESENT_def)
  then show "static_mapped sample_state f"
    by (simp add: static_mapped_def d kernel_index_def heap_index_def)
qed

lemma sample_kmap_inv: "kmap_inv sample_state"
proof -
  have d: "ktab sample_state d < 1024 \<and> ktab sample_state d < 400 \<and> ktab sample_state d \<noteq> 3"
    if "kernel_index d" for d
    using sample_index(1) [OF that] that
    by (auto simp: sample_ktab kernel_index_def word_less_nat_alt word_le_nat_alt)
  have p: "phys sample_state 3 d AND PERM_PRESENT = PERM_PRESENT" if "kernel_index d" for d
    using that sample_entry(2) [OF sample_index(2) [OF that]]
    by (simp add: sample_memory_def kernel_index_def)
  have inj: "d = d'" if "kernel_index d" "kernel_index d'" "ktab sample_state d = ktab sample_state d'"
    for d d' using that by (simp add: sample_ktab)
  have n: "number_of_frames sample_state = 400" "ptr_page_directory sample_state = static_va 3"
    by (simp_all add: static_va_def KERNEL_BASE_def)
  show ?thesis
    unfolding kmap_inv_def sample_kdir n
    using d p inj sample_static(4) by (auto simp: word_le_nat_alt)
qed
end
