(* ===== verification/FOS_KHeapInv.thy ===== *)
theory FOS_KHeapInv
  imports FOS_Sample
begin

text \<open>
  Correctness of kmalloc() and kfree(): the invariant of the kernel heap (the free list holds
  only frames that nothing uses, every mapped heap page is found again through virtualAddresses,
  and nothing is mapped from firstFreeVAInKHeap on), the effect of one page of either operation,
  and then of the whole operations.
\<close>

section \<open>The invariant\<close>

text \<open>Frames on the free list are inside memory, not buffered, and used by no kernel table.\<close>

definition free_frames_inv :: "kstate \<Rightarrow> bool" where
  "free_frames_inv s \<longleftrightarrow> distinct (free_frame_list s)
     \<and> (\<forall>f \<in> set (free_frame_list s). f < number_of_frames s
          \<and> fi_isBuffered (frames_info s f) = 0 \<and> \<not> kernel_frame s f \<and> virtualAddresses s f = 0)"

text \<open>A mapped page of the kernel heap, and the agreement of both address translations.\<close>

definition heap_page :: "u32 \<Rightarrow> bool" where
  "heap_page va \<longleftrightarrow> KERNEL_HEAP_START \<le> va \<and> PGOFF va = 0"

definition heap_mapped :: "kstate \<Rightarrow> u32 \<Rightarrow> u32 \<Rightarrow> bool" where
  "heap_mapped s va f \<longleftrightarrow> kpte s va AND PERM_PRESENT = PERM_PRESENT \<and> PPN (kpte s va) = f"

definition kheap_inv :: "kstate \<Rightarrow> bool" where
  "kheap_inv s \<longleftrightarrow> kmap_inv s \<and> free_frames_inv s
     \<and> heap_page (firstFreeVAInKHeap s) \<and> firstFreeVAInKHeap s \<le> KERNEL_HEAP_MAX
     \<and> (\<forall>va. heap_page va \<and> firstFreeVAInKHeap s \<le> va \<longrightarrow> kpte s va = 0)
     \<and> (\<forall>va. heap_page va \<and> kpte s va \<noteq> 0 \<longrightarrow>
          heap_mapped s va (PPN (kpte s va)) \<and> virtualAddresses s (PPN (kpte s va)) = va
        \<and> PPN (kpte s va) < number_of_frames s)
     \<and> (\<forall>f. virtualAddresses s f \<noteq> 0 \<longrightarrow>
          heap_page (virtualAddresses s f) \<and> heap_mapped s (virtualAddresses s f) f
        \<and> \<not> kernel_frame s f)"

lemma kheap_inv_upd [simp]:
  "kheap_inv (s\<lparr>allocatedHAddresses := x\<rparr>) = kheap_inv s"
  "kheap_inv (s\<lparr>kheap_idx := y\<rparr>) = kheap_inv s"
  by (simp_all add: kheap_inv_def free_frames_inv_def heap_mapped_def)

lemma heap_page_kernel: "heap_page va \<Longrightarrow> KERNEL_BASE \<le> va"
  by (auto simp: heap_page_def layout_defs word_le_nat_alt)

lemma heap_page_neq_0: "heap_page va \<Longrightarrow> va \<noteq> 0"
  by (auto simp: heap_page_def KERNEL_HEAP_START_def)

lemma heap_page_eqI:
  "heap_page v \<Longrightarrow> heap_page w \<Longrightarrow> PDX v = PDX w \<Longrightarrow> PTX v = PTX w \<Longrightarrow> v = w"
  by (auto simp: heap_page_def intro: aligned_eqI)

lemma unat_page_add:
  assumes "unat va + n * 4096 < 4294967296"
  shows "unat (va + of_nat n * PAGE_SIZE) = unat va + n * 4096"
proof -
  have "unat (of_nat n * PAGE_SIZE :: u32) = n * 4096"
    using assms by (simp add: PAGE_SIZE_def unat_word_ariths unat_of_nat)
  then show ?thesis using assms by (subst unat_add_u32) simp_all
qed

lemma unat_PPN: "unat (PPN va) = unat va div 4096"
  by (simp add: PPN_def drop_bit_eq_div unat_div_distrib)

lemma heap_page_add:
  assumes "heap_page va" and "unat va + n * 4096 < 4294967296"
  shows "heap_page (va + of_nat n * PAGE_SIZE)"
  using assms by (simp add: heap_page_def PGOFF_0_iff word_le_nat_alt unat_page_add)

lemma frame_bound:
  assumes "kmap_inv s" and "f < number_of_frames s" shows "f < 0x100000"
  using assms by (auto simp: kmap_inv_def)

section \<open>Taking a frame\<close>

text \<open>A plain frame is taken from the head of the list, with its Frame_Info cleared.\<close>

lemma allocate_frame_plain:
  assumes "free_frame_list s = f # fs" and "fi_isBuffered (frames_info s f) = 0"
  shows "allocate_frame s
           = Inr (f, initialize_frame_info (s\<lparr>free_frame_list := fs\<rparr>) f)"
  using assms by (simp add: allocate_frame_def)

text \<open>Mapping a frame at an unused kernel address writes one entry and one reference count.\<close>

lemma map_frame_fresh:
  assumes "kmap_inv s" and "KERNEL_BASE \<le> va" and "kpte s va = 0"
  shows "map_frame_body cpt s (ptr_page_directory s) f va perm
    = Inr (phys_store (set_references s f (references s f + 1)) (ktab s (PDX va)) (PTX va)
             (CONSTRUCT_ENTRY (to_physical_address f) (perm OR PERM_PRESENT)))"
proof -
  let ?s = "set_references s f (references s f + 1)"
  have "kmap_inv ?s = kmap_inv s" and t: "ktab ?s = ktab s"
    by (simp_all add: set_references_def)
  with assms(1,2) have "kstore ?s (static_va (ktab s (PDX va))) i e
      = Inr (phys_store ?s (ktab s (PDX va)) i e)" for i e
    using kstore_ktab [of ?s va] by simp
  with assms show ?thesis
    by (simp add: map_frame_body_def kernel_get_page_table TABLE_IN_MEMORY_def
        TABLE_NOT_EXIST_def kload_ktab kpte_def PERM_PRESENT_def Let_def)
qed

definition heap_perm :: u32 where "heap_perm = PERM_PRESENT OR PERM_WRITEABLE"

definition grow_page :: "kstate \<Rightarrow> u32 \<Rightarrow> u32 \<Rightarrow> u32 list \<Rightarrow> kstate" where
  "grow_page s va f fs =
     s\<lparr>free_frame_list := fs,
       frames_info := (frames_info s)(f := zero_frame_info\<lparr>fi_references := 1\<rparr>),
       phys := (phys s)(ktab s (PDX va) := (phys s (ktab s (PDX va)))(PTX va :=
                 CONSTRUCT_ENTRY (push_bit 12 f) (heap_perm OR PERM_PRESENT))),
       virtualAddresses := (virtualAddresses s)(f := va)\<rparr>"

lemma kmalloc_page_grow:
  assumes "kheap_inv s" and "heap_page va" and "kpte s va = 0" and "free_frame_list s = f # fs"
  shows "kmalloc_page s va = Inr (grow_page s va f fs)"
proof -
  let ?s = "initialize_frame_info (s\<lparr>free_frame_list := fs\<rparr>) f"
  from assms have m: "kmap_inv s" and b: "fi_isBuffered (frames_info s f) = 0"
      and f: "f < number_of_frames s"
    by (auto simp: kheap_inv_def free_frames_inv_def)
  have t: "ktab ?s = ktab s" "phys ?s = phys s" "references ?s f = 0"
    by (simp_all add: initialize_frame_info_def references_def)
  have m': "kmap_inv ?s" using m by (simp add: initialize_frame_info_def)
  have "kpte ?s va = 0" using assms(3) by (simp add: kpte_def t)
  note map = map_frame_fresh [OF m' heap_page_kernel [OF assms(2)] this, of no_nested_table f]
  have "to_physical_address f div PAGE_SIZE = f"
    using frame_bound [OF m f] by (simp add: to_physical_address_def div_PAGE_SIZE PPN_push_bit)
  then show ?thesis
    using allocate_frame_plain [OF assms(4) b] map t
    by (simp add: kmalloc_page_def grow_page_def phys_store_def set_references_def
        initialize_frame_info_def to_physical_address_def heap_perm_def references_def)
qed

lemma grow_page_simps [simp]:
  "free_frame_list (grow_page s va f fs) = fs"
  "firstFreeVAInKHeap (grow_page s va f fs) = firstFreeVAInKHeap s"
  "kheap_idx (grow_page s va f fs) = kheap_idx s"
  "allocatedHAddresses (grow_page s va f fs) = allocatedHAddresses s"
  "virtualAddresses (grow_page s va f fs) = (virtualAddresses s)(f := va)"
  "number_of_frames (grow_page s va f fs) = number_of_frames s"
  "frames_info (grow_page s va f fs)
     = (frames_info s)(f := zero_frame_info\<lparr>fi_references := 1\<rparr>)"
  by (simp_all add: grow_page_def)

lemma heap_entry:
  assumes "f < 0x100000"
  shows "PPN (CONSTRUCT_ENTRY (push_bit 12 f) (heap_perm OR PERM_PRESENT)) = f"
    and "CONSTRUCT_ENTRY (push_bit 12 f) (heap_perm OR PERM_PRESENT) AND PERM_PRESENT = PERM_PRESENT"
    and "CONSTRUCT_ENTRY (push_bit 12 f) (heap_perm OR PERM_PRESENT) \<noteq> 0"
proof -
  have "heap_perm < 0x1000" by (simp add: heap_perm_def PERM_WRITEABLE_def PERM_PRESENT_def)
  then show "PPN (CONSTRUCT_ENTRY (push_bit 12 f) (heap_perm OR PERM_PRESENT)) = f"
    using assms by (intro PPN_CONSTRUCT perm_or_bound)
qed (simp_all add: present_CONSTRUCT CONSTRUCT_present_neq_0)

lemma grow_page_map:
  assumes "kmap_inv s" and "heap_page va"
  shows "kmap_inv (grow_page s va f fs)" and "kernel_frame (grow_page s va f fs) = kernel_frame s"
    and "KERNEL_BASE \<le> w \<Longrightarrow> kpte (grow_page s va f fs) w =
      (if PDX w = PDX va \<and> PTX w = PTX va
       then CONSTRUCT_ENTRY (push_bit 12 f) (heap_perm OR PERM_PRESENT) else kpte s w)"
  using assms kmap_inv_heap_store [of s va "grow_page s va f fs"]
  by (auto simp: grow_page_def heap_page_def)

text \<open>One round of the loop keeps the invariant.\<close>

lemma kheap_inv_grow:
  assumes inv: "kheap_inv s" and ffl: "free_frame_list s = f # fs"
    and room: "unat (firstFreeVAInKHeap s) + 4096 \<le> unat KERNEL_HEAP_MAX"
  defines "va \<equiv> firstFreeVAInKHeap s"
  shows "kheap_inv ((grow_page s va f fs)\<lparr>firstFreeVAInKHeap := va + PAGE_SIZE\<rparr>)"
proof -
  let ?g = "grow_page s va f fs"
  have va: "heap_page va" and m: "kmap_inv s" and fi: "free_frames_inv s"
    and f: "f < number_of_frames s" "virtualAddresses s f = 0" "\<not> kernel_frame s f"
    using inv ffl by (auto simp: kheap_inv_def free_frames_inv_def va_def)
  have unva: "unat (va + PAGE_SIZE) = unat va + 4096"
    using room unat_page_add [of va 1] by (simp add: va_def KERNEL_HEAP_MAX_def)
  have va': "heap_page (va + PAGE_SIZE)" "va + PAGE_SIZE \<le> KERNEL_HEAP_MAX"
    using heap_page_add [of va 1] va room unva
    by (auto simp: word_le_nat_alt va_def KERNEL_HEAP_MAX_def)
  have k: "kpte ?g w = (if w = va then CONSTRUCT_ENTRY (push_bit 12 f) (heap_perm OR PERM_PRESENT)
      else kpte s w)" if "heap_page w" for w
    using grow_page_map(3) [OF m va heap_page_kernel [OF that]] heap_page_eqI [OF that va] by auto
  have ff: "free_frames_inv ?g"
    using fi ffl grow_page_map(2) [OF m va, of f fs] by (auto simp: free_frames_inv_def)
  have above: "kpte ?g w = 0" if "heap_page w" "va + PAGE_SIZE \<le> w" for w
  proof -
    have "w \<noteq> va" "va \<le> w" using that(2) unva by (auto simp: word_le_nat_alt)
    then show ?thesis using k [OF that(1)] inv that(1) by (auto simp: kheap_inv_def va_def)
  qed
  have nof: "PPN (kpte s w) \<noteq> f" if "heap_page w" "kpte s w \<noteq> 0" for w
    using inv that f(2) heap_page_neq_0 [OF that(1)] by (auto simp: kheap_inv_def)
  have nov: "virtualAddresses s g \<noteq> va" if "heap_mapped s (virtualAddresses s g) g" for g
    using inv that va by (auto simp: kheap_inv_def va_def heap_mapped_def PERM_PRESENT_def)
  have maps: "heap_mapped ?g w (PPN (kpte ?g w)) \<and> virtualAddresses ?g (PPN (kpte ?g w)) = w
      \<and> PPN (kpte ?g w) < number_of_frames s" if "heap_page w" "kpte ?g w \<noteq> 0" for w
    using k [OF that(1)] that inv heap_entry [OF frame_bound [OF m f(1)]] f(1) nof [OF that(1)]
    by (auto simp: kheap_inv_def heap_mapped_def)
  have vas: "heap_page (virtualAddresses ?g g) \<and> heap_mapped ?g (virtualAddresses ?g g) g
      \<and> \<not> kernel_frame ?g g" if "virtualAddresses ?g g \<noteq> 0" for g
    using k inv that va heap_entry [OF frame_bound [OF m f(1)]] nov f(3) grow_page_map(2) [OF m va]
    by (auto simp: kheap_inv_def heap_mapped_def split: if_splits)
  show ?thesis
    using grow_page_map(1) [OF m va, of f fs] ff va' above maps vas
    by (simp add: kheap_inv_def free_frames_inv_def heap_mapped_def)
qed

section \<open>kmalloc\<close>

text \<open>Everything but the kernel's tables and the bookkeeping of frames and heap stays the same.\<close>

definition heap_only :: "kstate \<Rightarrow> kstate \<Rightarrow> bool" where
  "heap_only s s' \<longleftrightarrow> (\<forall>f. \<not> kernel_frame s f \<longrightarrow> phys s' f = phys s f)
     \<and> kernel_frame s' = kernel_frame s
     \<and> number_of_frames s' = number_of_frames s \<and> envs s' = envs s \<and> curenv s' = curenv s
     \<and> page_file s' = page_file s \<and> disk_free_frame_list s' = disk_free_frame_list s
     \<and> disk_error s' = disk_error s \<and> reg_cr3 s' = reg_cr3 s
     \<and> PageRepAlgoType s' = PageRepAlgoType s"

lemma heap_only_refl [simp]: "heap_only s s"
  by (simp add: heap_only_def)

lemma heap_only_trans: "heap_only s s1 \<Longrightarrow> heap_only s1 s2 \<Longrightarrow> heap_only s s2"
  by (simp add: heap_only_def)

lemma heap_only_grow:
  assumes "kmap_inv s" and "heap_page va"
  shows "heap_only s ((grow_page s va f fs)\<lparr>firstFreeVAInKHeap := x\<rparr>)"
proof -
  have "kernel_index (PDX va)" using heap_page_kernel [OF assms(2)] by (simp add: kernel_PDX_iff)
  then have "kernel_frame s (ktab s (PDX va))" by (auto simp: kernel_frame_def)
  then have "phys (grow_page s va f fs) g = phys s g" if "\<not> kernel_frame s g" for g
    using that by (auto simp: grow_page_def)
  then show ?thesis
    using grow_page_map(2) [OF assms] by (simp add: heap_only_def) (simp add: grow_page_def)
qed

text \<open>What \<open>n\<close> rounds of the loop do to the heap.\<close>

definition grown :: "nat \<Rightarrow> kstate \<Rightarrow> kstate \<Rightarrow> bool" where
  "grown n s s' \<longleftrightarrow> kheap_inv s'
     \<and> firstFreeVAInKHeap s' = firstFreeVAInKHeap s + of_nat n * PAGE_SIZE
     \<and> free_frame_list s' = drop n (free_frame_list s)
     \<and> kheap_idx s' = kheap_idx s \<and> allocatedHAddresses s' = allocatedHAddresses s
     \<and> (\<forall>i<n. heap_mapped s' (firstFreeVAInKHeap s + of_nat i * PAGE_SIZE) (free_frame_list s ! i)
          \<and> references s' (free_frame_list s ! i) = 1)
     \<and> (\<forall>va. KERNEL_BASE \<le> va \<and> va < firstFreeVAInKHeap s \<longrightarrow> kpte s' va = kpte s va)
     \<and> (\<forall>f. f \<notin> set (take n (free_frame_list s)) \<longrightarrow> frames_info s' f = frames_info s f
          \<and> virtualAddresses s' f = virtualAddresses s f)
     \<and> heap_only s s'"

lemma grown_step:
  assumes inv: "kheap_inv s" and ffl: "free_frame_list s = f # fs"
    and room: "unat (firstFreeVAInKHeap s) + 4096 \<le> unat KERNEL_HEAP_MAX"
  defines "va \<equiv> firstFreeVAInKHeap s"
  assumes g: "grown n ((grow_page s va f fs)\<lparr>firstFreeVAInKHeap := va + PAGE_SIZE\<rparr>) s'"
  shows "grown (Suc n) s s'"
proof -
  have va: "heap_page va" and m: "kmap_inv s" and d: "f \<notin> set fs"
    and fb: "f < 0x100000"
    using inv ffl frame_bound [of s f] by (auto simp: kheap_inv_def free_frames_inv_def va_def)
  have unva: "unat (va + PAGE_SIZE) = unat va + 4096"
    using room unat_page_add [of va 1] by (simp add: va_def KERNEL_HEAP_MAX_def)
  have below: "kpte s' w = kpte s w" if "KERNEL_BASE \<le> w" "w < va" for w
  proof -
    have "w < va + PAGE_SIZE" using that(2) unva by (simp add: word_less_nat_alt)
    then have "kpte s' w = kpte (grow_page s va f fs) w" using g that by (simp add: grown_def)
    moreover have "unat w div 4096 \<noteq> unat va div 4096"
      using that(2) va by (auto simp: heap_page_def PGOFF_0_iff word_less_nat_alt)
    then have "PPN w \<noteq> PPN va"
      by (metis unat_PPN)
    ultimately show ?thesis
      using grow_page_map(3) [OF m va that(1), of f fs] by (auto simp: PPN_eq_iff)
  qed
  have first: "kpte s' va = CONSTRUCT_ENTRY (push_bit 12 f) (heap_perm OR PERM_PRESENT)"
    using g unva heap_page_kernel [OF va] grow_page_map(3) [OF m va, of va f fs]
    by (simp add: grown_def word_less_nat_alt)
  have ref: "references s' f = 1"
    using g d by (auto simp: grown_def references_def dest: in_set_takeD)
  have rest: "heap_mapped s' (va + of_nat i * PAGE_SIZE) (free_frame_list s ! i)
      \<and> references s' (free_frame_list s ! i) = 1" if "i < Suc n" for i
  proof (cases i)
    case 0
    then show ?thesis using first ref heap_entry [OF fb] by (simp add: heap_mapped_def ffl)
  next
    case (Suc j)
    then show ?thesis using g that by (simp add: grown_def ffl algebra_simps)
  qed
  have "heap_only s s'"
    using g heap_only_trans [OF heap_only_grow [OF m va]] unfolding grown_def by blast
  then show ?thesis
    using g below rest unfolding grown_def by (auto simp: ffl va_def algebra_simps)
qed

lemma kmalloc_loop_grown:
  assumes "kheap_inv s" and "unat (firstFreeVAInKHeap s) + n * 4096 \<le> unat KERNEL_HEAP_MAX"
    and "n \<le> length (free_frame_list s)"
  shows "\<exists>s'. kmalloc_loop n s = Inr s' \<and> grown n s s'"
  using assms
proof (induction n arbitrary: s)
  case 0
  then show ?case by (simp add: grown_def)
next
  case (Suc n)
  let ?va = "firstFreeVAInKHeap s"
  from Suc.prems(3) obtain f fs where ffl: "free_frame_list s = f # fs"
    by (cases "free_frame_list s") auto
  let ?s = "(grow_page s ?va f fs)\<lparr>firstFreeVAInKHeap := ?va + PAGE_SIZE\<rparr>"
  have z: "heap_page ?va" "kpte s ?va = 0" using Suc.prems(1) by (auto simp: kheap_inv_def)
  have room: "unat ?va + 4096 \<le> unat KERNEL_HEAP_MAX" using Suc.prems(2) by simp
  then have "unat (?va + PAGE_SIZE) = unat ?va + 4096"
    using unat_page_add [of ?va 1] by (simp add: KERNEL_HEAP_MAX_def)
  then have "\<exists>s'. kmalloc_loop n ?s = Inr s' \<and> grown n ?s s'"
    using Suc.prems ffl kheap_inv_grow [OF Suc.prems(1) ffl room] by (intro Suc.IH) simp_all
  then show ?case
    using kmalloc_page_grow [OF Suc.prems(1) z ffl] grown_step [OF Suc.prems(1) ffl room]
    by auto
qed

text \<open>The number of pages is computed modulo 2 to the 32.\<close>

lemma unat_pages_of: "unat (pages_of sz) = (4095 + unat sz) mod 4294967296 div 4096"
proof -
  have "sz + PAGE_SIZE - 1 = sz + 4095" by (simp add: PAGE_SIZE_def)
  then show ?thesis
    by (simp add: pages_of_def PAGE_SIZE_def unat_div_distrib unat_word_ariths)
qed

lemma kmalloc_guard:
  "firstFreeVAInKHeap s \<ge> KERNEL_HEAP_MAX - pages_of sz * PAGE_SIZE \<longleftrightarrow>
     unat KERNEL_HEAP_MAX \<le> unat (firstFreeVAInKHeap s) + unat (pages_of sz) * 4096"
proof -
  have b: "unat (pages_of sz) < 1048576" by (simp add: unat_pages_of)
  then have *: "unat (pages_of sz * PAGE_SIZE) = unat (pages_of sz) * 4096"
    by (simp add: unat_word_ariths PAGE_SIZE_def)
  then have "pages_of sz * PAGE_SIZE \<le> KERNEL_HEAP_MAX"
    using b by (simp add: word_le_nat_alt KERNEL_HEAP_MAX_def)
  then show ?thesis by (auto simp: word_le_nat_alt unat_sub *)
qed

lemma kmalloc_loop_no_frames:
  assumes "kheap_inv s" and "unat (firstFreeVAInKHeap s) + n * 4096 \<le> unat KERNEL_HEAP_MAX"
    and "length (free_frame_list s) < n"
  shows "kmalloc_loop n s = Inl (Panic ''Kernel run out of memory'')"
proof -
  let ?k = "length (free_frame_list s)"
  have add: "kmalloc_loop (m + k) s = rbind (kmalloc_loop m s) (kmalloc_loop k)" for m k s
    by (induction m arbitrary: s) (auto simp: rbind_assoc intro!: rbind_cong)
  obtain s' where s': "kmalloc_loop ?k s = Inr s'" "grown ?k s s'"
    using kmalloc_loop_grown [of s ?k] assms by auto
  moreover obtain j where "n = ?k + Suc j" using assms(3) less_iff_Suc_add by auto
  moreover have "kmalloc_loop (Suc j) s' = Inl (Panic ''Kernel run out of memory'')"
    using s'(2) by (simp add: kmalloc_page_def allocate_frame_def grown_def)
  ultimately show ?thesis by (simp only: add rbind_Inr)
qed

section \<open>kfree\<close>

text \<open>Unmapping one heap page gives its frame back when nothing else refers to it.\<close>

definition shrink_page :: "kstate \<Rightarrow> u32 \<Rightarrow> u32 \<Rightarrow> kstate" where
  "shrink_page s va f =
     s\<lparr>virtualAddresses := (virtualAddresses s)(f := 0),
       frames_info := (frames_info s)(f := zero_frame_info),
       free_frame_list := f # free_frame_list s,
       phys := (phys s)(ktab s (PDX va) := (phys s (ktab s (PDX va)))(PTX va := 0))\<rparr>"

lemma decrement_last:
  assumes "references s f = 1"
  shows "decrement_references s f =
    s\<lparr>frames_info := (frames_info s)(f := zero_frame_info), free_frame_list := f # free_frame_list s\<rparr>"
  using assms by (simp add: decrement_references_def references_def set_references_def
      free_frame_def initialize_frame_info_def)

lemma unmap_frame_last:
  assumes m: "kmap_inv s" and va: "KERNEL_BASE \<le> va" and hm: "heap_mapped s va f"
    and f: "f < number_of_frames s" "references s f = 1"
  shows "unmap_frame s (ptr_page_directory s) va
     = Inr (phys_store (decrement_references s f) (ktab s (PDX va)) (PTX va) 0)"
proof -
  let ?s = "decrement_references s f"
  have fb: "f < 0x100000" using frame_bound [OF m f(1)] .
  have "static_va (ktab s (PDX va)) \<noteq> 0"
  proof
    assume "static_va (ktab s (PDX va)) = 0"
    then have "PDX (static_va (ktab s (PDX va))) = 0" by (simp add: PDX_def)
    moreover have "kernel_index (PDX (static_va (ktab s (PDX va))))"
      using m va by (simp add: kmap_inv_def static_mapped_def kernel_PDX_iff)
    ultimately show False by (simp add: kernel_index_def)
  qed
  moreover have "kpte s va \<noteq> 0" "PPN (kpte s va) = f"
    using hm by (auto simp: heap_mapped_def PERM_PRESENT_def)
  moreover have "kstore ?s (static_va (ktab s (PDX va))) (PTX va) 0
      = Inr (phys_store ?s (ktab s (PDX va)) (PTX va) 0)"
    using m va kstore_ktab [of ?s va] by (simp add: decrement_last [OF f(2)])
  ultimately show ?thesis
    using m va f(1) by (simp add: unmap_frame_def get_frame_info_def kernel_get_page_table
        kload_ktab to_frame_info_def PPN_EXTRACT not_le flip: kpte_def)
qed

lemma kfree_loop_step:
  assumes inv: "kheap_inv s" and va: "heap_page va" and hm: "heap_mapped s va f"
    and r: "references s f = 1"
  shows "kfree_loop (Suc n) va s = kfree_loop n (va + PAGE_SIZE) (shrink_page s va f)"
proof -
  have m: "kmap_inv s" using inv by (simp add: kheap_inv_def)
  have "kpte s va \<noteq> 0" "PPN (kpte s va) = f"
    using hm by (auto simp: heap_mapped_def PERM_PRESENT_def)
  then have f: "f < number_of_frames s" using inv va by (auto simp: kheap_inv_def)
  have fb: "f < 0x100000" using frame_bound [OF m f] .
  let ?s = "s\<lparr>virtualAddresses := (virtualAddresses s)(f := 0)\<rparr>"
  have "unmap_frame ?s (ptr_page_directory ?s) va
     = Inr (phys_store (decrement_references ?s f) (ktab ?s (PDX va)) (PTX va) 0)"
    using m hm f r by (intro unmap_frame_last heap_page_kernel [OF va])
      (simp_all add: heap_mapped_def references_def)
  moreover have "decrement_references ?s f = ?s\<lparr>frames_info := (frames_info s)(f := zero_frame_info),
      free_frame_list := f # free_frame_list s\<rparr>"
    using r decrement_last [of ?s f] by (simp add: references_def)
  ultimately show ?thesis
    using heap_page_kernel [OF va] \<open>PPN (kpte s va) = f\<close>
    by (simp add: kheap_physical_address_kpte [OF m] div_PAGE_SIZE PPN_push_bit [OF fb]
        shrink_page_def phys_store_def)
qed

lemma shrink_page_simps [simp]:
  "free_frame_list (shrink_page s va f) = f # free_frame_list s"
  "firstFreeVAInKHeap (shrink_page s va f) = firstFreeVAInKHeap s"
  "kheap_idx (shrink_page s va f) = kheap_idx s"
  "allocatedHAddresses (shrink_page s va f) = allocatedHAddresses s"
  "virtualAddresses (shrink_page s va f) = (virtualAddresses s)(f := 0)"
  "number_of_frames (shrink_page s va f) = number_of_frames s"
  "frames_info (shrink_page s va f) = (frames_info s)(f := zero_frame_info)"
  by (simp_all add: shrink_page_def)

lemma shrink_page_map:
  assumes "kmap_inv s" and "heap_page va"
  shows "kmap_inv (shrink_page s va f)" and "kernel_frame (shrink_page s va f) = kernel_frame s"
    and "KERNEL_BASE \<le> w \<Longrightarrow> kpte (shrink_page s va f) w =
      (if PDX w = PDX va \<and> PTX w = PTX va then 0 else kpte s w)"
  using assms kmap_inv_heap_store [of s va "shrink_page s va f"]
  by (auto simp: shrink_page_def heap_page_def)

lemma kheap_inv_shrink:
  assumes inv: "kheap_inv s" and va: "heap_page va" and hm: "heap_mapped s va f"
  shows "kheap_inv (shrink_page s va f)"
proof -
  let ?g = "shrink_page s va f"
  have m: "kmap_inv s" and fi: "free_frames_inv s" using inv by (simp_all add: kheap_inv_def)
  have nz: "kpte s va \<noteq> 0" and p: "PPN (kpte s va) = f"
    using hm by (auto simp: heap_mapped_def PERM_PRESENT_def)
  then have f: "f < number_of_frames s" "virtualAddresses s f = va"
    using inv va by (auto simp: kheap_inv_def)
  then have nk: "\<not> kernel_frame s f" "f \<notin> set (free_frame_list s)"
    using inv heap_page_neq_0 [OF va] by (auto simp: kheap_inv_def free_frames_inv_def)
  have k: "kpte ?g w = (if w = va then 0 else kpte s w)" if "heap_page w" for w
    using shrink_page_map(3) [OF m va heap_page_kernel [OF that]] heap_page_eqI [OF that va] by auto
  have ff: "free_frames_inv ?g"
    using fi nk f(1) shrink_page_map(2) [OF m va, of f] by (auto simp: free_frames_inv_def)
  have nof: "PPN (kpte s w) \<noteq> f" if "heap_page w" "kpte s w \<noteq> 0" "w \<noteq> va" for w
    using inv that f(2) by (auto simp: kheap_inv_def)
  have maps: "heap_mapped ?g w (PPN (kpte ?g w)) \<and> virtualAddresses ?g (PPN (kpte ?g w)) = w
      \<and> PPN (kpte ?g w) < number_of_frames s" if "heap_page w" "kpte ?g w \<noteq> 0" for w
    using k [OF that(1)] that inv nof [OF that(1)]
    by (auto simp: kheap_inv_def heap_mapped_def split: if_splits)
  have vas: "heap_page (virtualAddresses ?g g) \<and> heap_mapped ?g (virtualAddresses ?g g) g
      \<and> \<not> kernel_frame ?g g" if "virtualAddresses ?g g \<noteq> 0" for g
  proof -
    have g: "g \<noteq> f" "virtualAddresses s g \<noteq> 0" using that by (auto split: if_splits)
    then have *: "heap_page (virtualAddresses s g)" "heap_mapped s (virtualAddresses s g) g"
      "\<not> kernel_frame s g" using inv by (auto simp: kheap_inv_def)
    moreover have "virtualAddresses s g \<noteq> va" using * g(1) p by (auto simp: heap_mapped_def)
    ultimately show ?thesis
      using g k [OF *(1)] shrink_page_map(2) [OF m va, of f] by (simp add: heap_mapped_def)
  qed
  have above: "kpte ?g w = 0" if "heap_page w" "firstFreeVAInKHeap s \<le> w" for w
    using k that inv by (auto simp: kheap_inv_def)
  show ?thesis
    using shrink_page_map(1) [OF m va, of f] ff inv maps vas above by (simp add: kheap_inv_def)
qed

text \<open>What freeing \<open>n\<close> pages from \<open>va\<close>, mapped to the frames \<open>fs\<close>, does to the heap.\<close>

definition shrunk :: "u32 \<Rightarrow> u32 list \<Rightarrow> kstate \<Rightarrow> kstate \<Rightarrow> bool" where
  "shrunk va fs s s' \<longleftrightarrow> kheap_inv s'
     \<and> firstFreeVAInKHeap s' = firstFreeVAInKHeap s
     \<and> free_frame_list s' = rev fs @ free_frame_list s
     \<and> kheap_idx s' = kheap_idx s \<and> allocatedHAddresses s' = allocatedHAddresses s
     \<and> (\<forall>w. heap_page w \<longrightarrow> kpte s' w =
          (if w \<in> (\<lambda>i. va + of_nat i * PAGE_SIZE) ` {..<length fs} then 0 else kpte s w))"

lemma kfree_loop_shrunk:
  assumes "kheap_inv s" and "heap_page va"
    and "unat va + length fs * 4096 \<le> unat KERNEL_HEAP_MAX" and "distinct fs"
    and "\<And>i. i < length fs \<Longrightarrow> heap_mapped s (va + of_nat i * PAGE_SIZE) (fs ! i)"
    and "\<And>f. f \<in> set fs \<Longrightarrow> references s f = 1"
  shows "\<exists>s'. kfree_loop (length fs) va s = Inr s' \<and> shrunk va fs s s'"
  using assms
proof (induction fs arbitrary: va s)
  case Nil
  then show ?case by (simp add: shrunk_def)
next
  case (Cons f fs)
  let ?s = "shrink_page s va f" and ?va = "va + PAGE_SIZE"
  have m: "kmap_inv s" using Cons.prems(1) by (simp add: kheap_inv_def)
  have hm: "heap_mapped s va f" using Cons.prems(5) [of 0] by simp
  have un: "unat (va + of_nat i * PAGE_SIZE) = unat va + i * 4096" if "i \<le> Suc (length fs)" for i
    using Cons.prems(3) that by (intro unat_page_add) (auto simp: KERNEL_HEAP_MAX_def)
  have k: "kpte ?s w = (if w = va then 0 else kpte s w)" if "heap_page w" for w
    using shrink_page_map(3) [OF m Cons.prems(2) heap_page_kernel [OF that]]
      heap_page_eqI [OF that Cons.prems(2)] by auto
  have hp: "heap_page (va + of_nat i * PAGE_SIZE)" if "i \<le> Suc (length fs)" for i
    using Cons.prems(3) that by (intro heap_page_add Cons.prems(2)) (auto simp: KERNEL_HEAP_MAX_def)
  have "\<exists>s'. kfree_loop (length fs) ?va ?s = Inr s' \<and> shrunk ?va fs ?s s'"
  proof (rule Cons.IH)
    show "kheap_inv ?s" by (rule kheap_inv_shrink [OF Cons.prems(1,2) hm])
    show "heap_page ?va" "unat ?va + length fs * 4096 \<le> unat KERNEL_HEAP_MAX"
      using hp [of 1] un [of 1] Cons.prems(3) by simp_all
    show "distinct fs" using Cons.prems(4) by simp
    show "references ?s g = 1" if "g \<in> set fs" for g
      using that Cons.prems(4) Cons.prems(6) [of g] by (auto simp: references_def)
    show "heap_mapped ?s (?va + of_nat i * PAGE_SIZE) (fs ! i)" if "i < length fs" for i
    proof -
      have e: "?va + of_nat i * PAGE_SIZE = va + of_nat (Suc i) * PAGE_SIZE"
        by (simp add: algebra_simps)
      have ne: "va + of_nat (Suc i) * PAGE_SIZE \<noteq> va"
        using un [of "Suc i"] that by (metis Suc_leI add_is_0 less_SucI mult_is_0 nat.distinct(1)
            add_cancel_right_right zero_neq_numeral)
      show ?thesis
        using k [OF hp, of "Suc i"] ne Cons.prems(5) [of "Suc i"] that
        unfolding e heap_mapped_def by simp
    qed
  qed
  then obtain s' where s': "kfree_loop (length fs) ?va ?s = Inr s'" "shrunk ?va fs ?s s'" by blast
  have "{..<length (f # fs)} = insert 0 (Suc ` {..<length fs})"
    by (simp add: lessThan_Suc_eq_insert_0)
  then have "shrunk va (f # fs) s s'"
    using s'(2) k unfolding shrunk_def by (auto simp: image_image algebra_simps)
  then show ?case
    using s'(1) kfree_loop_step [OF Cons.prems(1,2) hm Cons.prems(6)] by simp
qed

text \<open>The search finds the first entry with the address.\<close>

lemma kfree_search_first:
  assumes "i \<le> index" and "index < KHEAP_ENTRIES"
    and "kh_virtualAddress (allocatedHAddresses s index) = va"
    and "\<And>j. j < index \<Longrightarrow> kh_virtualAddress (allocatedHAddresses s j) \<noteq> va"
  shows "kfree_search s va i = Some index"
  using assms
proof (induction s va i rule: kfree_search.induct)
  case (1 s va i)
  show ?case
  proof (cases "i = index")
    case True
    with 1 show ?thesis by (simp add: kfree_search.simps)
  next
    case False
    with "1.prems"(1) have i: "i < index" by simp
    then have "i < KHEAP_ENTRIES" "kh_virtualAddress (allocatedHAddresses s i) \<noteq> va"
      using "1.prems" by auto
    moreover from this have "kfree_search s va (i + 1) = Some index"
      using 1 plus1_le_less [OF i] by blast
    ultimately show ?thesis by (simp add: kfree_search.simps)
  qed
qed

section \<open>Properties of the kernel heap\<close>

lemma heap_mapped_kframe:
  assumes "kmap_inv s" and "KERNEL_BASE \<le> va"
  shows "kframe s va = Some f \<longleftrightarrow> heap_mapped s va f"
  using kframe_kernel [OF assms] present_cases [of "kpte s va"]
  by (auto simp: heap_mapped_def PERM_PRESENT_def)

lemma heap_translation:
  assumes inv: "kheap_inv s" and va: "heap_page va" and hm: "heap_mapped s va f"
  shows "kframe s va = Some f" and "kheap_physical_address s va = Inr (to_physical_address f)"
    and "kheap_virtual_address s (to_physical_address f) = va"
proof -
  have m: "kmap_inv s" using inv by (simp add: kheap_inv_def)
  have "kpte s va \<noteq> 0" "PPN (kpte s va) = f" using hm by (auto simp: heap_mapped_def PERM_PRESENT_def)
  moreover from this have "f < number_of_frames s" "virtualAddresses s f = va"
    using inv va by (auto simp: kheap_inv_def)
  ultimately show "kheap_physical_address s va = Inr (to_physical_address f)"
    and "kheap_virtual_address s (to_physical_address f) = va"
    using frame_bound [OF m] heap_page_kernel [OF va]
    by (simp_all add: kheap_physical_address_kpte [OF m] to_physical_address_def
        kheap_virtual_address_PPN PPN_push_bit)
  show "kframe s va = Some f"
    using hm heap_mapped_kframe [OF m heap_page_kernel [OF va]] by simp
qed

lemma sample_kpte_0:
  assumes "heap_page va" shows "kpte sample_state va = 0"
proof -
  have h: "heap_index (PDX va)" using assms by (simp add: heap_page_def heap_PDX_iff)
  then have k: "kernel_index (PDX va)" by (rule heap_kernel_index)
  have "unat (PDX va - 956) \<noteq> unat (3 :: u32)" "unat (PDX va - 956) \<noteq> unat (4 :: u32)"
    using h unfolding sample_index(1) [OF k] by (auto simp: heap_index_def word_le_nat_alt)
  then have "PDX va - 956 \<noteq> 3 \<and> PDX va - 956 \<noteq> 4" by (auto simp only:)
  then show ?thesis by (simp add: kpte_def sample_ktab [OF k] sample_memory_def)
qed

lemma sample_not_kernel_frame:
  assumes "100 \<le> f" shows "\<not> kernel_frame sample_state f"
proof
  assume "kernel_frame sample_state f"
  moreover have "f \<noteq> 3" using assms by (auto simp: word_le_nat_alt)
  ultimately obtain d where d: "kernel_index d" "f = d - 956"
    by (auto simp: kernel_frame_def sample_ktab)
  then show False
    using sample_index(1) [OF d(1)] assms
    by (auto simp: word_le_nat_alt kernel_index_def word_less_nat_alt)
qed

lemma sample_kheap_inv: "kheap_inv sample_state"
  using sample_kpte_0 sample_not_kernel_frame
  by (auto simp: kheap_inv_def sample_kmap_inv free_frames_inv_def heap_page_def
      KERNEL_HEAP_START_def KERNEL_HEAP_MAX_def PGOFF_def)

text \<open>Freeing what was just allocated restores every heap entry.\<close>

lemma grown_shrunk_kpte:
  assumes inv: "kheap_inv s" and g: "grown n s s1"
    and sh: "shrunk (firstFreeVAInKHeap s) (take n (free_frame_list s)) (s1\<lparr>allocatedHAddresses := a, kheap_idx := k\<rparr>) s2"
    and room: "unat (firstFreeVAInKHeap s) + n * 4096 < unat KERNEL_HEAP_MAX"
    and len: "n \<le> length (free_frame_list s)" and w: "heap_page w"
  shows "kpte s2 w = kpte s w"
proof -
  let ?va = "firstFreeVAInKHeap s"
  have k: "kpte s2 w = (if w \<in> (\<lambda>i. ?va + of_nat i * PAGE_SIZE) ` {..<n} then 0 else kpte s1 w)"
    using sh w len by (simp add: shrunk_def min_def)
  have va: "heap_page ?va" and up: "\<And>w. heap_page w \<Longrightarrow> ?va \<le> w \<Longrightarrow> kpte s w = 0"
    using inv by (auto simp: kheap_inv_def)
  show ?thesis
  proof (cases "w < ?va")
    case True
    then have "kpte s1 w = kpte s w" using g w by (auto simp: grown_def dest: heap_page_kernel)
    moreover have "w \<noteq> ?va + of_nat i * PAGE_SIZE" if "i < n" for i
      using True unat_page_add [of ?va i] that room
      by (auto simp: word_less_nat_alt KERNEL_HEAP_MAX_def)
    ultimately show ?thesis using k by auto
  next
    case False
    then have le: "unat ?va \<le> unat w" by (simp add: word_less_nat_alt)
    define i where "i = (unat w - unat ?va) div 4096"
    have "4096 dvd unat w - unat ?va"
      using va w by (intro dvd_diff_nat) (simp_all add: heap_page_def PGOFF_0_iff mod_eq_0_iff_dvd)
    then have wi: "unat w = unat ?va + i * 4096" using le by (simp add: i_def)
    show ?thesis
    proof (cases "i < n")
      case True
      have "unat (?va + of_nat i * PAGE_SIZE) = unat w"
        using wi unat_u32_less [of w] by (subst unat_page_add) auto
      then have "w = ?va + of_nat i * PAGE_SIZE" by (simp add: word_unat_eq_iff)
      then show ?thesis using k True up [OF w] False by auto
    next
      case high: False
      have "unat (?va + of_nat n * PAGE_SIZE) = unat ?va + n * 4096"
        using room by (intro unat_page_add) (simp add: KERNEL_HEAP_MAX_def)
      then have "firstFreeVAInKHeap s1 \<le> w"
        using high wi g by (simp add: grown_def word_le_nat_alt)
      then have "kpte s1 w = 0" using g w by (simp add: grown_def kheap_inv_def)
      then show ?thesis using k up [OF w] False by auto
    qed
  qed
qed

text \<open>The whole operations over the relations \<open>grown\<close> and \<open>shrunk\<close>.\<close>

lemma kmalloc_grown:
  assumes "kheap_inv s" and "unat (firstFreeVAInKHeap s) + unat (pages_of sz) * 4096 < unat KERNEL_HEAP_MAX"
    and "unat (pages_of sz) \<le> length (free_frame_list s)" and "kheap_idx s < KHEAP_ENTRIES"
  shows "\<exists>s1. grown (unat (pages_of sz)) s s1 \<and> kmalloc s sz = Inr (firstFreeVAInKHeap s,
     s1\<lparr>allocatedHAddresses := (allocatedHAddresses s1)(kheap_idx s1 :=
          \<lparr>kh_size = pages_of sz, kh_virtualAddress = firstFreeVAInKHeap s, kh_empty = 0\<rparr>),
        kheap_idx := kheap_idx s1 + 1\<rparr>)"
proof -
  let ?n = "unat (pages_of sz)"
  obtain s1 where s1: "kmalloc_loop ?n s = Inr s1" "grown ?n s s1"
    using kmalloc_loop_grown [of s ?n] assms by auto
  then show ?thesis
    using assms(2,4) kmalloc_guard [of sz s]
    by (intro exI [of _ s1]) (auto simp: kmalloc_def Let_def grown_def not_le)
qed

lemma kfree_shrunk:
  assumes "kheap_inv s" and "heap_page va" and "index < KHEAP_ENTRIES"
    and "kh_virtualAddress (allocatedHAddresses s index) = va"
    and "\<And>j. j < index \<Longrightarrow> kh_virtualAddress (allocatedHAddresses s j) \<noteq> va"
    and "unat (kh_size (allocatedHAddresses s index)) = length fs" and "distinct fs"
    and "unat va + length fs * 4096 \<le> unat KERNEL_HEAP_MAX"
    and "\<And>i. i < length fs \<Longrightarrow>
      heap_mapped s (va + of_nat i * PAGE_SIZE) (fs ! i) \<and> references s (fs ! i) = 1"
  shows "\<exists>s1. shrunk va fs s s1 \<and> kfree s va = Inr (s1\<lparr>allocatedHAddresses :=
     (allocatedHAddresses s1)(index := (allocatedHAddresses s1 index)\<lparr>kh_empty := 1\<rparr>)\<rparr>)"
proof -
  have "\<exists>s1. kfree_loop (length fs) va s = Inr s1 \<and> shrunk va fs s s1"
    using assms(1,2,7-9) by (intro kfree_loop_shrunk) (auto simp: in_set_conv_nth)
  then show ?thesis
    using assms(6) kfree_search_first [of 0 index s va] assms(3-5) by (auto simp: kfree_def)
qed

text \<open>
  C1. For a request that fits below KERNEL_HEAP_MAX and for which there are enough free frames,
  kmalloc() returns the first unused heap address; every page of the block is mapped to its own
  frame taken from the head of the free list, both address translations of the heap agree on it,
  all earlier kernel mappings are unchanged, the request is recorded, and the heap invariant holds.
\<close>

theorem kmalloc_success:
  assumes "kheap_inv s" and "unat (firstFreeVAInKHeap s) + unat (pages_of sz) * 4096 < unat KERNEL_HEAP_MAX"
    and "unat (pages_of sz) \<le> length (free_frame_list s)" and "kheap_idx s < KHEAP_ENTRIES"
  shows "\<exists>s'. kmalloc s sz = Inr (firstFreeVAInKHeap s, s') \<and> kheap_inv s'
     \<and> free_frame_list s' = drop (unat (pages_of sz)) (free_frame_list s)
     \<and> (\<forall>i < unat (pages_of sz).
          let va = firstFreeVAInKHeap s + of_nat i * PAGE_SIZE; f = free_frame_list s ! i in
          kframe s' va = Some f \<and> references s' f = 1
        \<and> kheap_physical_address s' va = Inr (to_physical_address f)
        \<and> kheap_virtual_address s' (to_physical_address f) = va)
     \<and> (\<forall>va. KERNEL_BASE \<le> va \<and> va < firstFreeVAInKHeap s \<longrightarrow> kframe s' va = kframe s va)
     \<and> allocatedHAddresses s' (kheap_idx s)
         = \<lparr>kh_size = pages_of sz, kh_virtualAddress = firstFreeVAInKHeap s, kh_empty = 0\<rparr>
     \<and> kheap_idx s' = kheap_idx s + 1"
proof -
  let ?n = "unat (pages_of sz)" and ?va = "firstFreeVAInKHeap s"
  obtain s1 where s1: "grown ?n s s1" and "kmalloc s sz = Inr (?va,
     s1\<lparr>allocatedHAddresses := (allocatedHAddresses s1)(kheap_idx s1 :=
          \<lparr>kh_size = pages_of sz, kh_virtualAddress = ?va, kh_empty = 0\<rparr>),
        kheap_idx := kheap_idx s1 + 1\<rparr>)" (is "_ = Inr (_, ?s)")
    using kmalloc_grown [OF assms] by blast
  note eq = this(2)
  have inv1: "kheap_inv s1" using s1 by (simp add: grown_def)
  have inv: "kheap_inv ?s"
    using inv1 by simp
  have m: "kmap_inv s" "kmap_inv s1" using assms(1) inv1 by (simp_all add: kheap_inv_def)
  have pages: "kframe ?s (?va + of_nat i * PAGE_SIZE) = Some (free_frame_list s ! i)"
      "references ?s (free_frame_list s ! i) = 1"
      "kheap_physical_address ?s (?va + of_nat i * PAGE_SIZE)
         = Inr (to_physical_address (free_frame_list s ! i))"
      "kheap_virtual_address ?s (to_physical_address (free_frame_list s ! i))
         = ?va + of_nat i * PAGE_SIZE" if "i < ?n" for i
  proof -
    have p: "heap_page (?va + of_nat i * PAGE_SIZE)"
      using assms(1,2) that by (intro heap_page_add) (auto simp: kheap_inv_def KERNEL_HEAP_MAX_def)
    have h: "heap_mapped ?s (?va + of_nat i * PAGE_SIZE) (free_frame_list s ! i)"
        "references ?s (free_frame_list s ! i) = 1"
      using s1 that by (simp_all add: grown_def heap_mapped_def references_def)
    show "references ?s (free_frame_list s ! i) = 1" by (rule h)
    show "kframe ?s (?va + of_nat i * PAGE_SIZE) = Some (free_frame_list s ! i)"
      "kheap_physical_address ?s (?va + of_nat i * PAGE_SIZE)
         = Inr (to_physical_address (free_frame_list s ! i))"
      "kheap_virtual_address ?s (to_physical_address (free_frame_list s ! i))
         = ?va + of_nat i * PAGE_SIZE"
      by (rule heap_translation [OF inv p h(1)])+
  qed
  have old: "kframe ?s va = kframe s va" if "KERNEL_BASE \<le> va" "va < ?va" for va
    using s1 that m inv kframe_kernel [of ?s va] kframe_kernel [of s va]
    by (simp add: grown_def)
  show ?thesis
    using eq inv pages old s1 by (intro exI [of _ ?s]) (simp add: grown_def Let_def)
qed

theorem kmalloc_success_witness:
  "\<exists>s'. kmalloc sample_state 5000 = Inr (0xF6000000, s') \<and> kheap_inv s'
     \<and> kframe s' 0xF6000000 = Some 100 \<and> kframe s' 0xF6001000 = Some 101
     \<and> free_frame_list s' = [102]"
proof -
  have n: "unat (pages_of 5000) = 2" by (simp add: unat_pages_of)
  have "kheap_idx sample_state < KHEAP_ENTRIES"
    by (simp add: KHEAP_ENTRIES_def KERNEL_HEAP_MAX_def KERNEL_HEAP_START_def PAGE_SIZE_def)
  then obtain s' where s': "kmalloc sample_state 5000 = Inr (0xF6000000, s')" "kheap_inv s'"
      "free_frame_list s' = drop 2 [100, 101, 102]"
    and p: "\<And>i. i < 2 \<Longrightarrow> kframe s' (0xF6000000 + of_nat i * PAGE_SIZE) = Some ([100, 101, 102] ! i)"
    using kmalloc_success [OF sample_kheap_inv, of 5000]
    by (auto simp: n KERNEL_HEAP_MAX_def Let_def)
  show ?thesis using s' p [of 0] p [of 1] by (simp add: PAGE_SIZE_def)
qed

text \<open>
  kmalloc() never wraps its bound check: it returns NULL and leaves the state alone exactly
  when the block would not end below KERNEL_HEAP_MAX.
\<close>

theorem kmalloc_null_iff:
  assumes "kheap_inv s"
  shows "kmalloc s sz = Inr (0, s) \<longleftrightarrow>
     unat KERNEL_HEAP_MAX \<le> unat (firstFreeVAInKHeap s) + unat (pages_of sz) * 4096"
proof -
  have "firstFreeVAInKHeap s \<noteq> 0" using assms by (auto simp: kheap_inv_def dest: heap_page_neq_0)
  then show ?thesis
    using kmalloc_guard [of sz s] by (auto simp: kmalloc_def Let_def split: if_splits)
qed

theorem kmalloc_null_iff_witness:
  "kmalloc sample_state 0x0A000000 = Inr (0, sample_state)"
  using kmalloc_null_iff [OF sample_kheap_inv, of "0x0A000000"]
  by (simp add: unat_pages_of KERNEL_HEAP_MAX_def)

text \<open>
  C40. When the address range fits but the free list is too short, kmalloc() ends in the panic
  of allocate_frame(), whatever the number of pages already mapped.
\<close>

theorem kmalloc_out_of_memory:
  assumes "kheap_inv s" and "unat (firstFreeVAInKHeap s) + unat (pages_of sz) * 4096 < unat KERNEL_HEAP_MAX"
    and "length (free_frame_list s) < unat (pages_of sz)"
  shows "kmalloc s sz = Inl (Panic ''Kernel run out of memory'')"
  using kmalloc_loop_no_frames [of s "unat (pages_of sz)"] kmalloc_guard [of sz s] assms
  by (auto simp: kmalloc_def Let_def not_le)

theorem kmalloc_out_of_memory_witness:
  "kmalloc sample_state 0x4000 = Inl (Panic ''Kernel run out of memory'')"
  using kmalloc_out_of_memory [OF sample_kheap_inv, of "0x4000"]
  by (simp add: unat_pages_of KERNEL_HEAP_MAX_def)

text \<open>
  The size computation of kmalloc() wraps: for a request within 4095 bytes of 2 to the 32 the
  page count is zero, so the call succeeds, returns a non-null address and maps nothing there.
\<close>

theorem kmalloc_size_wraps:
  assumes "kheap_inv s" and "unat sz > 4294967296 - 4096" and "firstFreeVAInKHeap s < KERNEL_HEAP_MAX"
    and "kheap_idx s < KHEAP_ENTRIES"
  shows "\<exists>s'. kmalloc s sz = Inr (firstFreeVAInKHeap s, s') \<and> firstFreeVAInKHeap s \<noteq> 0
     \<and> phys s' = phys s \<and> kframe s' (firstFreeVAInKHeap s) = None
     \<and> firstFreeVAInKHeap s' = firstFreeVAInKHeap s"
proof -
  let ?va = "firstFreeVAInKHeap s"
  have m: "kmap_inv s" and va: "heap_page ?va" and z: "kpte s ?va = 0"
    using assms(1) by (auto simp: kheap_inv_def)
  have "4095 + unat sz = (unat sz - 4294963201) + 4294967296" using assms(2) by simp
  then have "(4095 + unat sz) mod 4294967296 = unat sz - 4294963201"
    using unat_u32_less [of sz] by (metis mod_add_self2 mod_less less_imp_diff_less)
  then have n: "pages_of sz = 0"
    using unat_u32_less [of sz] by (simp add: unat_pages_of word_unat_eq_iff)
  let ?s = "s\<lparr>allocatedHAddresses := (allocatedHAddresses s)(kheap_idx s :=
      \<lparr>kh_size = 0, kh_virtualAddress = ?va, kh_empty = 0\<rparr>), kheap_idx := kheap_idx s + 1\<rparr>"
  have "kframe ?s ?va = None"
    using m z kframe_kernel [OF _ heap_page_kernel [OF va], of ?s] by simp
  then show ?thesis
    using assms(3,4) heap_page_neq_0 [OF va] by (auto simp: kmalloc_def n not_le Let_def)
qed

theorem kmalloc_size_wraps_witness:
  "\<exists>s'. kmalloc sample_state 0xFFFFFFFF = Inr (0xF6000000, s') \<and> kframe s' 0xF6000000 = None"
  using kmalloc_size_wraps [OF sample_kheap_inv, of "0xFFFFFFFF"]
  by (auto simp: KERNEL_HEAP_MAX_def KERNEL_HEAP_START_def KHEAP_ENTRIES_def PAGE_SIZE_def)

text \<open>
  C9. kfree() of a recorded block whose pages are mapped and referenced once gives every frame
  back to the free list, leaves none of its pages mapped and touches no other heap page, marks the
  record free, and keeps the heap invariant.
\<close>

theorem kfree_success:
  assumes "kheap_inv s" and "heap_page va" and "index < KHEAP_ENTRIES"
    and "kh_virtualAddress (allocatedHAddresses s index) = va"
    and "\<And>j. j < index \<Longrightarrow> kh_virtualAddress (allocatedHAddresses s j) \<noteq> va"
    and "unat (kh_size (allocatedHAddresses s index)) = length fs" and "distinct fs"
    and "unat va + length fs * 4096 \<le> unat KERNEL_HEAP_MAX"
    and "\<And>i. i < length fs \<Longrightarrow>
      kframe s (va + of_nat i * PAGE_SIZE) = Some (fs ! i) \<and> references s (fs ! i) = 1"
  shows "\<exists>s'. kfree s va = Inr s' \<and> kheap_inv s'
     \<and> free_frame_list s' = rev fs @ free_frame_list s
     \<and> (\<forall>i < length fs. kframe s' (va + of_nat i * PAGE_SIZE) = None)
     \<and> (\<forall>w. heap_page w \<and> (\<forall>i < length fs. w \<noteq> va + of_nat i * PAGE_SIZE) \<longrightarrow> kframe s' w = kframe s w)
     \<and> kh_empty (allocatedHAddresses s' index) = 1"
proof -
  have m: "kmap_inv s" using assms(1) by (simp add: kheap_inv_def)
  have hp: "heap_page (va + of_nat i * PAGE_SIZE)" if "i < length fs" for i
    using assms(8) that by (intro heap_page_add assms(2)) (auto simp: KERNEL_HEAP_MAX_def)
  obtain s1 where s1: "shrunk va fs s s1" and "kfree s va = Inr (s1\<lparr>allocatedHAddresses :=
     (allocatedHAddresses s1)(index := (allocatedHAddresses s1 index)\<lparr>kh_empty := 1\<rparr>)\<rparr>)"
      (is "_ = Inr ?s")
    using kfree_shrunk [OF assms(1-8)] assms(9) hp heap_mapped_kframe [OF m heap_page_kernel]
    by blast
  note eq = this(2)
  have inv: "kheap_inv ?s"
    using s1 by (simp add: shrunk_def)
  then have m': "kmap_inv ?s" by (simp add: kheap_inv_def)
  have k: "kpte ?s w = (if w \<in> (\<lambda>i. va + of_nat i * PAGE_SIZE) ` {..<length fs} then 0 else kpte s w)"
    if "heap_page w" for w using s1 that by (simp add: shrunk_def)
  have freed: "kframe ?s (va + of_nat i * PAGE_SIZE) = None" if "i < length fs" for i
    using k [OF hp [OF that]] that kframe_kernel [OF m' heap_page_kernel [OF hp [OF that]]] by auto
  have other: "kframe ?s w = kframe s w"
    if "heap_page w" "\<forall>i < length fs. w \<noteq> va + of_nat i * PAGE_SIZE" for w
    using k [OF that(1)] that kframe_kernel [OF m' heap_page_kernel [OF that(1)]]
      kframe_kernel [OF m heap_page_kernel [OF that(1)]] by auto
  show ?thesis
    using eq inv freed other s1 by (intro exI [of _ ?s]) (simp add: shrunk_def)
qed

theorem kfree_success_witness:
  "\<exists>s1 s2. kmalloc sample_state 4096 = Inr (0xF6000000, s1) \<and> kfree s1 0xF6000000 = Inr s2
     \<and> free_frame_list s2 = [100, 101, 102] \<and> kframe s2 0xF6000000 = None"
proof -
  have n: "unat (pages_of 4096) = 1" "pages_of 4096 = 1" by (simp_all add: unat_pages_of word_unat_eq_iff)
  have b: "kheap_idx sample_state < KHEAP_ENTRIES"
    by (simp add: KERNEL_HEAP_MAX_def KERNEL_HEAP_START_def KHEAP_ENTRIES_def PAGE_SIZE_def)
  then obtain t where t: "grown 1 sample_state t" and a: "kmalloc sample_state 4096 = Inr (0xF6000000,
     t\<lparr>allocatedHAddresses := (allocatedHAddresses t)(kheap_idx t :=
          \<lparr>kh_size = 1, kh_virtualAddress = 0xF6000000, kh_empty = 0\<rparr>),
        kheap_idx := kheap_idx t + 1\<rparr>)" (is "_ = Inr (_, ?s)")
    using kmalloc_grown [OF sample_kheap_inv, of 4096] by (auto simp: n KERNEL_HEAP_MAX_def)
  have inv: "kheap_inv ?s" using t by (simp add: grown_def)
  then have m: "kmap_inv ?s" by (simp add: kheap_inv_def)
  have h: "heap_page 0xF6000000" by (simp add: heap_page_def KERNEL_HEAP_START_def PGOFF_def)
  have "heap_mapped ?s 0xF6000000 100" "references ?s 100 = 1"
    using t by (simp_all add: grown_def heap_mapped_def references_def)
  then have "kframe ?s 0xF6000000 = Some 100 \<and> references ?s 100 = 1"
    using heap_mapped_kframe [OF m heap_page_kernel [OF h]] by simp
  then have "\<exists>s2. kfree ?s 0xF6000000 = Inr s2 \<and> free_frame_list s2 = [100, 101, 102]
      \<and> kframe s2 0xF6000000 = None"
    using kfree_success [OF inv h, of 0 "[100]"] t b
    by (auto simp: grown_def KERNEL_HEAP_MAX_def)
  then show ?thesis using a by blast
qed

text \<open>
  C37. The block returned by a successful kmalloc() can be freed at once when no earlier record has
  the same address: kfree() then restores the set of free frames and unmaps exactly what the
  allocation mapped.
\<close>

theorem kmalloc_kfree:
  assumes "kheap_inv s" and "unat (firstFreeVAInKHeap s) + unat (pages_of sz) * 4096 < unat KERNEL_HEAP_MAX"
    and "unat (pages_of sz) \<le> length (free_frame_list s)" and "kheap_idx s < KHEAP_ENTRIES"
    and "\<And>j. j < kheap_idx s \<Longrightarrow>
      kh_virtualAddress (allocatedHAddresses s j) \<noteq> firstFreeVAInKHeap s"
  shows "\<exists>s1 s2. kmalloc s sz = Inr (firstFreeVAInKHeap s, s1)
     \<and> kfree s1 (firstFreeVAInKHeap s) = Inr s2 \<and> kheap_inv s2
     \<and> set (free_frame_list s2) = set (free_frame_list s)
     \<and> length (free_frame_list s2) = length (free_frame_list s)
     \<and> (\<forall>w. heap_page w \<longrightarrow> kframe s2 w = kframe s w)"
proof -
  let ?n = "unat (pages_of sz)" and ?va = "firstFreeVAInKHeap s"
  let ?fs = "take ?n (free_frame_list s)"
  obtain s1 where s1: "grown ?n s s1" and "kmalloc s sz = Inr (?va,
     s1\<lparr>allocatedHAddresses := (allocatedHAddresses s1)(kheap_idx s1 :=
          \<lparr>kh_size = pages_of sz, kh_virtualAddress = ?va, kh_empty = 0\<rparr>),
        kheap_idx := kheap_idx s1 + 1\<rparr>)" (is "_ = Inr (_, ?s)")
    using kmalloc_grown [OF assms(1-4)] by blast
  note alloc = this(2)
  have len: "length ?fs = ?n" using assms(3) by simp
  have "\<exists>s2. shrunk ?va ?fs ?s s2 \<and> kfree ?s ?va = Inr (s2\<lparr>allocatedHAddresses :=
     (allocatedHAddresses s2)(kheap_idx s := (allocatedHAddresses s2 (kheap_idx s))\<lparr>kh_empty := 1\<rparr>)\<rparr>)"
  proof (rule kfree_shrunk)
    show "kheap_inv ?s" using s1 by (simp add: grown_def)
    show "heap_page ?va" "distinct ?fs"
      using assms(1) by (simp_all add: kheap_inv_def free_frames_inv_def)
    show "heap_mapped ?s (?va + of_nat i * PAGE_SIZE) (?fs ! i) \<and> references ?s (?fs ! i) = 1"
      if "i < length ?fs" for i
      using s1 that by (simp add: grown_def heap_mapped_def references_def)
  qed (use s1 assms len in \<open>auto simp: grown_def\<close>)
  then obtain s2 where s2: "shrunk ?va ?fs ?s s2"
    and free: "kfree ?s ?va = Inr (s2\<lparr>allocatedHAddresses := (allocatedHAddresses s2)(kheap_idx s :=
       (allocatedHAddresses s2 (kheap_idx s))\<lparr>kh_empty := 1\<rparr>)\<rparr>)" (is "_ = Inr ?t")
    by blast
  have same: "kpte ?t w = kpte s w" if "heap_page w" for w
    using grown_shrunk_kpte [OF assms(1) s1 s2 _ _ that] assms(2,3) by simp
  have m: "kmap_inv s" "kmap_inv ?t" using assms(1) s2 by (simp_all add: kheap_inv_def shrunk_def)
  have "kframe ?t w = kframe s w" if "heap_page w" for w
    using kframe_kernel [OF m(1) heap_page_kernel [OF that]] same [OF that]
      kframe_kernel [OF m(2) heap_page_kernel [OF that]] by simp
  moreover have "set (free_frame_list ?t) = set (free_frame_list s)"
    "length (free_frame_list ?t) = length (free_frame_list s)"
  proof -
    have "free_frame_list ?t = rev ?fs @ drop ?n (free_frame_list s)"
      using s1 s2 by (simp add: grown_def shrunk_def)
    then show "length (free_frame_list ?t) = length (free_frame_list s)"
      and "set (free_frame_list ?t) = set (free_frame_list s)"
      using assms(3) by (simp, metis append_take_drop_id set_append set_rev)
  qed
  moreover have "kheap_inv ?t" using s2 by (simp add: shrunk_def)
  ultimately show ?thesis
    using alloc free by (intro exI [of _ ?s] exI [of _ ?t]) simp
qed

theorem kmalloc_kfree_witness:
  "\<exists>s1 s2. kmalloc sample_state 8192 = Inr (0xF6000000, s1) \<and> kfree s1 0xF6000000 = Inr s2
     \<and> set (free_frame_list s2) = {100, 101, 102} \<and> kframe s2 0xF6000000 = None"
proof -
  have h: "heap_page 0xF6000000" by (simp add: heap_page_def KERNEL_HEAP_START_def PGOFF_def)
  have "kframe sample_state 0xF6000000 = None"
    using kframe_kernel [OF sample_kmap_inv heap_page_kernel [OF h]] sample_kpte_0 [OF h] by simp
  then show ?thesis
    using kmalloc_kfree [OF sample_kheap_inv, of 8192] h
    by (auto simp: unat_pages_of KERNEL_HEAP_MAX_def KERNEL_HEAP_START_def KHEAP_ENTRIES_def
        PAGE_SIZE_def)
qed

text \<open>
  kfree() of an address no record holds uses its local variable index without ever having
  assigned it.
\<close>

theorem kfree_unknown_address:
  assumes "\<And>j. j < KHEAP_ENTRIES \<Longrightarrow> kh_virtualAddress (allocatedHAddresses s j) \<noteq> va"
  shows "kfree s va = Inl (Uninitialised ''index'')"
proof -
  have "kfree_search s va i = None" for i
    using assms
  proof (induction s va i rule: kfree_search.induct)
    case (1 s va i)
    then show ?case by (subst kfree_search.simps) auto
  qed
  then show ?thesis by (simp add: kfree_def)
qed

theorem kfree_unknown_address_witness:
  "kfree sample_state 0xF6000000 = Inl (Uninitialised ''index'')"
  using kfree_unknown_address [of sample_state "0xF6000000"] by simp

end
