(* ===== verification/FOS_PageFile.thy ===== *)
theory FOS_PageFile
  imports FOS_KHeapInv
begin

text \<open>
  The page file of kern/file_manager.c: the free list of disk frames, the per-environment disk
  directory and disk tables (arrays on the kernel heap whose entries are disk frame numbers), the
  pages of an environment on disk, the table file, and allocateMem() of kern/memory_manager.c,
  which reserves page-file space for the user heap.
\<close>

section \<open>Disk frames\<close>

definition allocate_disk_frame :: "kstate \<Rightarrow> (u32 \<times> kstate) option" where
  "allocate_disk_frame s =
     (case first_of (disk_free_frame_list s) of
        None \<Rightarrow> None
      | Some dfn \<Rightarrow> Some (dfn, s\<lparr>disk_free_frame_list := seq_remove (disk_free_frame_list s) dfn\<rparr>))"

definition free_disk_frame :: "kstate \<Rightarrow> u32 \<Rightarrow> kstate" where
  "free_disk_frame s dfn =
     (if dfn = 0 then s
      else s\<lparr>disk_free_frame_list := seq_insert_head (disk_free_frame_list s) dfn\<rparr>)"

definition pf_calculate_free_frames :: "kstate \<Rightarrow> u32" where
  "pf_calculate_free_frames s = fold (\<lambda>_ n. n + 1) (disk_free_frame_list s) 0"

section \<open>Disk directories and tables\<close>

text \<open>
  get_disk_page_directory() is always called with the address of the field disk_env_pgdir itself;
  the value returned is the return code.
\<close>

definition get_disk_page_directory :: "kstate \<Rightarrow> nat \<Rightarrow> (u32 \<times> kstate) result" where
  "get_disk_page_directory s e =
     (if disk_env_pgdir (envs s e) = 0 then
        rbind (kmalloc s PAGE_SIZE) (\<lambda>(p, s).
          let s = upd_env s e (\<lambda>env. env\<lparr>disk_env_pgdir := p\<rparr>) in
          if p = 0 then Inr (E_NO_VM, s)
          else
            rbind (kheap_physical_address s p) (\<lambda>pa.
            let s = upd_env s e (\<lambda>env. env\<lparr>disk_env_pgdir_PA := pa\<rparr>) in
            rbind (kfill s p (\<lambda>_. 0)) (\<lambda>s. Inr (0, s))))
      else Inr (0, s))"

text \<open>The return code, the table pointer stored through ptr_disk_page_table, and the state.\<close>

definition get_disk_page_table :: "kstate \<Rightarrow> u32 \<Rightarrow> u32 \<Rightarrow> bool \<Rightarrow> (u32 \<times> u32 \<times> kstate) result" where
  "get_disk_page_table s dir va create =
     rbind (kload s dir (PDX va)) (\<lambda>pde.
     rbind (table_pointer s va pde) (\<lambda>pt.
       if pde = 0 then
         (if create then
            rbind (kmalloc s PAGE_SIZE) (\<lambda>(pt, s).
              if pt = 0 then Inr (E_NO_VM, pt, s)
              else
                rbind (kheap_physical_address s pt) (\<lambda>pa.
                rbind (kstore s dir (PDX va) (CONSTRUCT_ENTRY pa PERM_PRESENT)) (\<lambda>s.
                rbind (kfill s pt (\<lambda>_. 0)) (\<lambda>s. Inr (0, pt, s)))))
          else Inr (0, 0, s))
       else Inr (0, pt, s)))"

section \<open>Pages of an environment\<close>

text \<open>
  The part pf_add_empty_env_page() and pf_add_env_page() share: find or create the entry of the
  page and give it a disk frame. \<open>Inl\<close> inside the result is an early return with an error code.
\<close>

definition pf_reserve :: "kstate \<Rightarrow> nat \<Rightarrow> u32 \<Rightarrow> ((u32 + u32) \<times> kstate) result" where
  "pf_reserve s e va =
     (if \<not> va < KERNEL_BASE then Inl (Assert_failure ''virtual_address < KERNEL_BASE'')
      else
        rbind (get_disk_page_directory s e) (\<lambda>(_, s).
        rbind (get_disk_page_table s (disk_env_pgdir (envs s e)) va True) (\<lambda>(_, pt, s).
        rbind (kload s pt (PTX va)) (\<lambda>dfn.
          if dfn = 0 then
            (case allocate_disk_frame s of
               None \<Rightarrow> Inr (Inl E_NO_PAGE_FILE_SPACE, s)
             | Some (dfn, s) \<Rightarrow> rbind (kstore s pt (PTX va) dfn) (\<lambda>s. Inr (Inr dfn, s)))
          else Inr (Inr dfn, s)))))"

definition pf_add_env_page :: "kstate \<Rightarrow> nat \<Rightarrow> u32 \<Rightarrow> u32 \<Rightarrow> (u32 \<times> kstate) result" where
  "pf_add_env_page s e va dataSrc =
     rbind (pf_reserve s e va) (\<lambda>(r, s).
       case r of Inl err \<Rightarrow> Inr (err, s) | Inr dfn \<Rightarrow> write_disk_page s dfn dataSrc)"

definition pf_add_empty_env_page :: "kstate \<Rightarrow> nat \<Rightarrow> u32 \<Rightarrow> u8 \<Rightarrow> (u32 \<times> kstate) result" where
  "pf_add_empty_env_page s e va initializeByZero =
     (if initializeByZero \<noteq> 0 then pf_add_env_page s e va ptr_zero_page
      else rbind (pf_reserve s e va) (\<lambda>(r, s).
        case r of Inl err \<Rightarrow> Inr (err, s) | Inr _ \<Rightarrow> Inr (0, s)))"

text \<open>
  pf_update_env_page() maps the modified frame at USER_LIMIT, writes it from there, and unmaps it
  with its reference count raised so that unmap_frame() does not free it.
\<close>

definition pf_update_env_page :: "kstate \<Rightarrow> nat \<Rightarrow> u32 \<Rightarrow> u32 \<Rightarrow> (u32 \<times> kstate) result" where
  "pf_update_env_page s e va f =
     (if \<not> va < KERNEL_BASE then Inl (Assert_failure ''virtual_address < KERNEL_BASE'')
      else
        rbind (get_disk_page_directory s e) (\<lambda>(_, s).
        rbind (get_disk_page_table s (disk_env_pgdir (envs s e)) va False) (\<lambda>(_, pt, s).
        if pt = 0 then Inr (E_PAGE_NOT_EXIST_IN_PF, s)
        else
          rbind (kload s pt (PTX va)) (\<lambda>dfn.
          if dfn = 0 then Inr (E_PAGE_NOT_EXIST_IN_PF, s)
          else
            rbind (map_frame s (env_page_directory (envs s e)) f USER_LIMIT 0) (\<lambda>s.
            rbind (write_disk_page s dfn (ROUNDDOWN USER_LIMIT PAGE_SIZE)) (\<lambda>(ret, s).
            let s = set_references s f (references s f + 1) in
            rbind (unmap_frame s (env_page_directory (envs s e)) USER_LIMIT) (\<lambda>s.
            let s = set_references s f (references s f - 1) in
            Inr (ret, s))))))))"

text \<open>
  pt_set_page_permissions() sets and then clears bits of a page-table entry; pf_read_env_page()
  uses it on the current environment, whatever environment it was called for.
\<close>

definition pt_set_page_permissions :: "kstate \<Rightarrow> nat \<Rightarrow> u32 \<Rightarrow> u32 \<Rightarrow> u32 \<Rightarrow> kstate result" where
  "pt_set_page_permissions s e va permissions_to_set permissions_to_clear =
     (let upd = (\<lambda>pte. (pte OR permissions_to_set) AND NOT permissions_to_clear) in
      rbind (kload s (env_page_directory (envs s e)) (PDX va)) (\<lambda>pde.
        if pde AND PERM_PRESENT = PERM_PRESENT then
          rbind (table_pointer s va pde) (\<lambda>pt.
          rbind (kload s pt (PTX va)) (\<lambda>pte. kstore s pt (PTX va) (upd pte)))
        else if pde \<noteq> 0 then
          on_disk_table s e va ''pt_set_page_permissions: table not found in PF'' upd
        else Inl (Panic ''pt_set_page_permissions: page table does not exist'')))"

definition pt_get_page_permissions :: "kstate \<Rightarrow> nat \<Rightarrow> u32 \<Rightarrow> (u32 \<times> kstate) result" where
  "pt_get_page_permissions s e va =
     rbind (kload s (env_page_directory (envs s e)) (PDX va)) (\<lambda>pde.
       if pde AND PERM_PRESENT = PERM_PRESENT then
         rbind (table_pointer s va pde) (\<lambda>pt.
         rbind (kload s pt (PTX va)) (\<lambda>pte. Inr (pte AND 0xFFF, s)))
       else if pde \<noteq> 0 then
         rbind (pf_read_env_table s e va ptr_temp_page) (\<lambda>(success, s).
           if success = E_TABLE_NOT_EXIST_IN_PF
           then Inl (Panic ''pt_get_page_permissions: table not found in PF'')
           else rbind (kload s ptr_temp_page (PTX va)) (\<lambda>pte. Inr (pte AND 0xFFF, s)))
       else Inr (0, s))"

definition pf_read_env_page :: "kstate \<Rightarrow> nat \<Rightarrow> u32 \<Rightarrow> (u32 \<times> kstate) result" where
  "pf_read_env_page s e va =
     (let va = ROUNDDOWN va PAGE_SIZE in
      if disk_env_pgdir (envs s e) = 0 then Inr (E_PAGE_NOT_EXIST_IN_PF, s)
      else
        rbind (get_disk_page_table s (disk_env_pgdir (envs s e)) va False) (\<lambda>(_, pt, s).
        if pt = 0 then Inr (E_PAGE_NOT_EXIST_IN_PF, s)
        else
          rbind (kload s pt (PTX va)) (\<lambda>dfn.
          if dfn = 0 then Inr (E_PAGE_NOT_EXIST_IN_PF, s)
          else
            rbind (read_disk_page s dfn va) (\<lambda>(disk_read_error, s).
            case curenv s of
              None \<Rightarrow> Inl (Kernel_fault 0)
            | Some c \<Rightarrow>
                rbind (pt_set_page_permissions s c va 0 PERM_MODIFIED) (\<lambda>s.
                Inr (disk_read_error, s))))))"

definition pf_remove_env_page :: "kstate \<Rightarrow> nat \<Rightarrow> u32 \<Rightarrow> kstate result" where
  "pf_remove_env_page s e va =
     (if disk_env_pgdir (envs s e) = 0 then Inr s
      else
        rbind (get_disk_page_table s (disk_env_pgdir (envs s e)) va False) (\<lambda>(_, pt, s).
        if pt = 0 then Inr s
        else
          rbind (kload s pt (PTX va)) (\<lambda>dfn.
          rbind (kstore s pt (PTX va) 0) (\<lambda>s. Inr (free_disk_frame s dfn)))))"

section \<open>Releasing and counting\<close>

text \<open>Clearing \<open>n\<close> entries of a disk array from index \<open>i\<close> on, freeing their frames.\<close>

fun free_disk_entries :: "nat \<Rightarrow> u32 \<Rightarrow> u32 \<Rightarrow> kstate \<Rightarrow> kstate result" where
  "free_disk_entries 0 i pt s = Inr s"
| "free_disk_entries (Suc n) i pt s =
     rbind (kload s pt i) (\<lambda>dfn.
     rbind (kstore s pt i 0) (\<lambda>s.
     free_disk_entries n (i + 1) pt (free_disk_frame s dfn)))"

definition pf_remove_env_all_tables :: "kstate \<Rightarrow> nat \<Rightarrow> kstate result" where
  "pf_remove_env_all_tables s e =
     (if disk_env_tabledir (envs s e) = 0 then Inr s
      else free_disk_entries (unat (PDX USER_TOP)) 0 (disk_env_tabledir (envs s e)) s)"

definition pf_remove_env_table :: "kstate \<Rightarrow> nat \<Rightarrow> u32 \<Rightarrow> kstate result" where
  "pf_remove_env_table s e va =
     (let dir = disk_env_tabledir (envs s e) in
      if dir = 0 then Inr s
      else rbind (kload s dir (PDX va)) (\<lambda>dfn.
           rbind (kstore s dir (PDX va) 0) (\<lambda>s. Inr (free_disk_frame s dfn))))"

fun pf_free_tables :: "nat \<Rightarrow> u32 \<Rightarrow> nat \<Rightarrow> kstate \<Rightarrow> kstate result" where
  "pf_free_tables 0 pdeno e s = Inr s"
| "pf_free_tables (Suc n) pdeno e s =
     rbind (kload s (disk_env_pgdir (envs s e)) pdeno) (\<lambda>pde.
     if pde AND PERM_PRESENT = 0 then pf_free_tables n (pdeno + 1) e s
     else
       let pt = kheap_virtual_address s (EXTRACT_ADDRESS pde) in
       rbind (free_disk_entries 1024 0 pt s) (\<lambda>s.
       rbind (kstore s (disk_env_pgdir (envs s e)) pdeno 0) (\<lambda>s.
       rbind (kfree s pt) (\<lambda>s.
       pf_free_tables n (pdeno + 1) e s))))"

definition pf_free_env :: "kstate \<Rightarrow> nat \<Rightarrow> kstate result" where
  "pf_free_env s e =
     rbind (pf_free_tables (unat (PDX USER_TOP)) 0 e s) (\<lambda>s.
     rbind (kfree s (disk_env_pgdir (envs s e))) (\<lambda>s.
     let s = upd_env s e (\<lambda>env. env\<lparr>disk_env_pgdir := 0, disk_env_pgdir_PA := 0\<rparr>) in
     if disk_env_tabledir (envs s e) = 0 then Inr s
     else
       rbind (pf_remove_env_all_tables s e) (\<lambda>s.
       rbind (kfree s (disk_env_tabledir (envs s e))) (\<lambda>s.
       Inr (upd_env s e (\<lambda>env. env\<lparr>disk_env_tabledir := 0, disk_env_tabledir_PA := 0\<rparr>))))))"

fun count_disk_entries :: "nat \<Rightarrow> u32 \<Rightarrow> u32 \<Rightarrow> kstate \<Rightarrow> u32 \<Rightarrow> u32 result" where
  "count_disk_entries 0 i pt s counter = Inr counter"
| "count_disk_entries (Suc n) i pt s counter =
     rbind (kload s pt i) (\<lambda>dfn.
     count_disk_entries n (i + 1) pt s (if dfn \<noteq> 0 then counter + 1 else counter))"

fun pf_count_tables :: "nat \<Rightarrow> u32 \<Rightarrow> nat \<Rightarrow> kstate \<Rightarrow> u32 \<Rightarrow> u32 result" where
  "pf_count_tables 0 pdIndex e s counter = Inr counter"
| "pf_count_tables (Suc n) pdIndex e s counter =
     rbind (kload s (disk_env_pgdir (envs s e)) pdIndex) (\<lambda>pde.
     if pde AND PERM_PRESENT = 0 then pf_count_tables n (pdIndex + 1) e s counter
     else
       rbind (count_disk_entries 1024 0 (kheap_virtual_address s (EXTRACT_ADDRESS pde)) s counter)
         (\<lambda>counter. pf_count_tables n (pdIndex + 1) e s counter))"

definition pf_calculate_allocated_pages :: "kstate \<Rightarrow> nat \<Rightarrow> u32 result" where
  "pf_calculate_allocated_pages s e = pf_count_tables (unat (PDX USER_TOP)) 0 e s 0"

section \<open>The table file\<close>

definition get_disk_table_directory :: "kstate \<Rightarrow> nat \<Rightarrow> (u32 \<times> kstate) result" where
  "get_disk_table_directory s e =
     (if disk_env_tabledir (envs s e) = 0 then
        rbind (kmalloc s PAGE_SIZE) (\<lambda>(p, s).
          let s = upd_env s e (\<lambda>env. env\<lparr>disk_env_tabledir := p\<rparr>) in
          if p = 0 then Inr (E_NO_VM, s)
          else
            rbind (kheap_physical_address s p) (\<lambda>pa.
            let s = upd_env s e (\<lambda>env. env\<lparr>disk_env_tabledir_PA := pa\<rparr>) in
            rbind (kfill s p (\<lambda>_. 0)) (\<lambda>s. Inr (0, s))))
      else Inr (0, s))"

definition pf_write_env_table :: "kstate \<Rightarrow> nat \<Rightarrow> u32 \<Rightarrow> u32 \<Rightarrow> (u32 \<times> kstate) result" where
  "pf_write_env_table s e va tableKVirtualAddress =
     (if \<not> va < KERNEL_BASE then Inl (Assert_failure ''virtual_address < KERNEL_BASE'')
      else
        rbind (get_disk_table_directory s e) (\<lambda>(_, s).
        let dir = disk_env_tabledir (envs s e) in
        rbind (kload s dir (PDX va)) (\<lambda>dfn.
          if dfn = 0 then
            (case allocate_disk_frame s of
               None \<Rightarrow> Inr (E_NO_PAGE_FILE_SPACE, s)
             | Some (dfn, s) \<Rightarrow>
                 rbind (kstore s dir (PDX va) dfn) (\<lambda>s.
                 write_disk_page s dfn tableKVirtualAddress))
          else write_disk_page s dfn tableKVirtualAddress)))"

section \<open>Reserving the user heap\<close>

text \<open>
  allocateMem() counts with a signed variable up to an unsigned bound, which is an unsigned
  comparison; the return code of each reservation is ignored.
\<close>

fun allocateMem_loop :: "nat \<Rightarrow> nat \<Rightarrow> u32 \<Rightarrow> kstate \<Rightarrow> kstate result" where
  "allocateMem_loop 0 e va s = Inr s"
| "allocateMem_loop (Suc n) e va s =
     rbind (pf_add_empty_env_page s e va 0) (\<lambda>(_, s).
     allocateMem_loop n e (va + PAGE_SIZE) s)"

definition allocateMem :: "kstate \<Rightarrow> nat \<Rightarrow> u32 \<Rightarrow> u32 \<Rightarrow> kstate result" where
  "allocateMem s e va sz = allocateMem_loop (unat (pages_of sz)) e va s"

end
