(* ===== verification/FOS_WorkingSet.thy ===== *)
theory FOS_WorkingSet
  imports FOS_PageFile
begin

text \<open>
  The working sets of an environment (kern/memory_manager.c): the array of pages that are in
  memory, with page_WS_max_size entries, and the array of page tables, with TWS_MAX_SIZE entries;
  the used bit of a page table in the directory, and the time stamps that approximate LRU
  (update_WS_time_stamps() of kern/sched.c).
\<close>

section \<open>Arrays of working-set entries\<close>

text \<open>Reading and writing an element of a C array of entries; an index outside it is an error.\<close>

definition ws_read :: "string \<Rightarrow> WorkingSetElement list \<Rightarrow> u32 \<Rightarrow> WorkingSetElement result" where
  "ws_read name ws i =
     (if unat i < length ws then Inr (ws ! unat i) else Inl (Out_of_bounds name))"

definition ws_write ::
  "string \<Rightarrow> WorkingSetElement list \<Rightarrow> u32 \<Rightarrow> WorkingSetElement \<Rightarrow> WorkingSetElement list result" where
  "ws_write name ws i w =
     (if unat i < length ws then Inr (ws[unat i := w]) else Inl (Out_of_bounds name))"

definition cleared_entry :: WorkingSetElement where
  "cleared_entry = \<lparr>ws_virtual_address = 0, ws_empty = 1, ws_time_stamp = 0\<rparr>"

text \<open>The number of entries in use among the first \<open>n\<close>.\<close>

definition ws_count :: "nat \<Rightarrow> WorkingSetElement list \<Rightarrow> u32" where
  "ws_count n ws = fold (\<lambda>w counter. if ws_empty w = 0 then counter + 1 else counter) (take n ws) 0"

text \<open>The first of the first \<open>n\<close> entries whose address, rounded down to \<open>align\<close>, is that of \<open>va\<close>.\<close>

fun ws_find :: "nat \<Rightarrow> u32 \<Rightarrow> u32 \<Rightarrow> WorkingSetElement list \<Rightarrow> nat option" where
  "ws_find 0 align va ws = None"
| "ws_find (Suc n) align va [] = None"
| "ws_find (Suc n) align va (w # ws) =
     (if ROUNDDOWN (ws_virtual_address w) align = ROUNDDOWN va align then Some 0
      else map_option Suc (ws_find n align va ws))"

section \<open>The page working set\<close>

definition set_page_ws :: "kstate \<Rightarrow> nat \<Rightarrow> u32 \<Rightarrow> WorkingSetElement \<Rightarrow> kstate result" where
  "set_page_ws s e i w =
     rbind (ws_write ''ptr_pageWorkingSet'' (pageWorkingSet (envs s e)) i w) (\<lambda>ws.
     Inr (upd_env s e (\<lambda>env. env\<lparr>pageWorkingSet := ws\<rparr>)))"

definition env_page_ws_get_size :: "kstate \<Rightarrow> nat \<Rightarrow> u32" where
  "env_page_ws_get_size s e =
     ws_count (unat (page_WS_max_size (envs s e))) (pageWorkingSet (envs s e))"

definition env_page_ws_clear_entry :: "kstate \<Rightarrow> nat \<Rightarrow> u32 \<Rightarrow> kstate result" where
  "env_page_ws_clear_entry s e entry_index =
     (if \<not> entry_index < page_WS_max_size (envs s e)
      then Inl (Assert_failure ''entry_index < page_WS_max_size'')
      else set_page_ws s e entry_index cleared_entry)"

definition env_page_ws_set_entry :: "kstate \<Rightarrow> nat \<Rightarrow> u32 \<Rightarrow> u32 \<Rightarrow> kstate result" where
  "env_page_ws_set_entry s e entry_index va =
     (if \<not> entry_index < page_WS_max_size (envs s e)
      then Inl (Assert_failure ''entry_index < page_WS_max_size'')
      else if \<not> va < USER_TOP then Inl (Assert_failure ''virtual_address < USER_TOP'')
      else set_page_ws s e entry_index
             \<lparr>ws_virtual_address = ROUNDDOWN va PAGE_SIZE, ws_empty = 0,
              ws_time_stamp = 0x80000000\<rparr>)"

definition env_page_ws_invalidate :: "kstate \<Rightarrow> nat \<Rightarrow> u32 \<Rightarrow> kstate result" where
  "env_page_ws_invalidate s e va =
     (case ws_find (unat (page_WS_max_size (envs s e))) PAGE_SIZE va (pageWorkingSet (envs s e)) of
        None \<Rightarrow> Inr s
      | Some i \<Rightarrow> env_page_ws_clear_entry s e (of_nat i))"

definition env_page_ws_get_virtual_address :: "kstate \<Rightarrow> nat \<Rightarrow> u32 \<Rightarrow> u32 result" where
  "env_page_ws_get_virtual_address s e entry_index =
     (if \<not> entry_index < page_WS_max_size (envs s e)
      then Inl (Assert_failure ''entry_index < page_WS_max_size'')
      else rbind (ws_read ''ptr_pageWorkingSet'' (pageWorkingSet (envs s e)) entry_index) (\<lambda>w.
        Inr (ROUNDDOWN (ws_virtual_address w) PAGE_SIZE)))"

definition env_page_ws_get_time_stamp :: "kstate \<Rightarrow> nat \<Rightarrow> u32 \<Rightarrow> u32 result" where
  "env_page_ws_get_time_stamp s e entry_index =
     (if \<not> entry_index < page_WS_max_size (envs s e)
      then Inl (Assert_failure ''entry_index < page_WS_max_size'')
      else rbind (ws_read ''ptr_pageWorkingSet'' (pageWorkingSet (envs s e)) entry_index) (\<lambda>w.
        Inr (ws_time_stamp w)))"

definition env_page_ws_is_entry_empty :: "kstate \<Rightarrow> nat \<Rightarrow> u32 \<Rightarrow> u8 result" where
  "env_page_ws_is_entry_empty s e entry_index =
     rbind (ws_read ''ptr_pageWorkingSet'' (pageWorkingSet (envs s e)) entry_index) (\<lambda>w.
     Inr (ws_empty w))"

section \<open>The table working set\<close>

definition set_table_ws :: "kstate \<Rightarrow> nat \<Rightarrow> u32 \<Rightarrow> WorkingSetElement \<Rightarrow> kstate result" where
  "set_table_ws s e i w =
     rbind (ws_write ''__ptr_tws'' (tableWorkingSet (envs s e)) i w) (\<lambda>ws.
     Inr (upd_env s e (\<lambda>env. env\<lparr>tableWorkingSet := ws\<rparr>)))"

definition env_table_ws_get_size :: "kstate \<Rightarrow> nat \<Rightarrow> u32" where
  "env_table_ws_get_size s e = ws_count (unat TWS_MAX_SIZE) (tableWorkingSet (envs s e))"

definition env_table_ws_clear_entry :: "kstate \<Rightarrow> nat \<Rightarrow> u32 \<Rightarrow> kstate result" where
  "env_table_ws_clear_entry s e entry_index =
     (if \<not> entry_index < TWS_MAX_SIZE then Inl (Assert_failure ''entry_index < __TWS_MAX_SIZE'')
      else set_table_ws s e entry_index cleared_entry)"

definition env_table_ws_set_entry :: "kstate \<Rightarrow> nat \<Rightarrow> u32 \<Rightarrow> u32 \<Rightarrow> kstate result" where
  "env_table_ws_set_entry s e entry_index va =
     (if \<not> entry_index < TWS_MAX_SIZE then Inl (Assert_failure ''entry_index < __TWS_MAX_SIZE'')
      else if \<not> va < USER_TOP then Inl (Assert_failure ''virtual_address < USER_TOP'')
      else set_table_ws s e entry_index
             \<lparr>ws_virtual_address = ROUNDDOWN va (PAGE_SIZE * 1024), ws_empty = 0,
              ws_time_stamp = 0x80000000\<rparr>)"

definition env_table_ws_invalidate :: "kstate \<Rightarrow> nat \<Rightarrow> u32 \<Rightarrow> kstate result" where
  "env_table_ws_invalidate s e va =
     (case ws_find (unat TWS_MAX_SIZE) (PAGE_SIZE * 1024) va (tableWorkingSet (envs s e)) of
        None \<Rightarrow> Inr s
      | Some i \<Rightarrow> env_table_ws_clear_entry s e (of_nat i))"

definition env_table_ws_get_virtual_address :: "kstate \<Rightarrow> nat \<Rightarrow> u32 \<Rightarrow> u32 result" where
  "env_table_ws_get_virtual_address s e entry_index =
     (if \<not> entry_index < TWS_MAX_SIZE then Inl (Assert_failure ''entry_index < __TWS_MAX_SIZE'')
      else rbind (ws_read ''__ptr_tws'' (tableWorkingSet (envs s e)) entry_index) (\<lambda>w.
        Inr (ROUNDDOWN (ws_virtual_address w) (PAGE_SIZE * 1024))))"

definition env_table_ws_get_time_stamp :: "kstate \<Rightarrow> nat \<Rightarrow> u32 \<Rightarrow> u32 result" where
  "env_table_ws_get_time_stamp s e entry_index =
     (if \<not> entry_index < TWS_MAX_SIZE then Inl (Assert_failure ''entry_index < __TWS_MAX_SIZE'')
      else rbind (ws_read ''__ptr_tws'' (tableWorkingSet (envs s e)) entry_index) (\<lambda>w.
        Inr (ws_time_stamp w)))"

definition env_table_ws_is_entry_empty :: "kstate \<Rightarrow> nat \<Rightarrow> u32 \<Rightarrow> u8 result" where
  "env_table_ws_is_entry_empty s e entry_index =
     rbind (ws_read ''__ptr_tws'' (tableWorkingSet (envs s e)) entry_index) (\<lambda>w.
     Inr (ws_empty w))"

text \<open>addTableToTableWorkingSet() writes at the last index and moves it on, round the array.\<close>

definition addTableToTableWorkingSet :: "kstate \<Rightarrow> nat \<Rightarrow> u32 \<Rightarrow> kstate result" where
  "addTableToTableWorkingSet s e tableAddress =
     (let last = table_last_WS_index (envs s e) in
      rbind (set_table_ws s e last
               \<lparr>ws_virtual_address = ROUNDDOWN tableAddress (PAGE_SIZE * 1024), ws_empty = 0,
                ws_time_stamp = 0\<rparr>) (\<lambda>s.
      Inr (upd_env s e (\<lambda>env. env\<lparr>table_last_WS_index := (last + 1) mod TWS_MAX_SIZE\<rparr>))))"

section \<open>Directory entries\<close>

definition pd_is_table_used :: "kstate \<Rightarrow> nat \<Rightarrow> u32 \<Rightarrow> bool result" where
  "pd_is_table_used s e va =
     rbind (kload s (env_page_directory (envs s e)) (PDX va)) (\<lambda>pde.
     Inr (pde AND PERM_USED = PERM_USED))"

definition pd_set_table_unused :: "kstate \<Rightarrow> nat \<Rightarrow> u32 \<Rightarrow> kstate result" where
  "pd_set_table_unused s e va =
     rbind (kload s (env_page_directory (envs s e)) (PDX va)) (\<lambda>pde.
     kstore s (env_page_directory (envs s e)) (PDX va) (pde AND NOT PERM_USED))"

definition pd_clear_page_dir_entry :: "kstate \<Rightarrow> nat \<Rightarrow> u32 \<Rightarrow> kstate result" where
  "pd_clear_page_dir_entry s e va = kstore s (env_page_directory (envs s e)) (PDX va) 0"

section \<open>Time stamps\<close>

text \<open>A time stamp is shifted right by two; a reference sets its top bit.\<close>

definition aged :: "bool \<Rightarrow> u32 \<Rightarrow> u32" where
  "aged used old = (if used then drop_bit 2 old OR 0x80000000 else drop_bit 2 old)"

text \<open>The loop over the page working set, from entry \<open>i\<close> on.\<close>

fun age_pages :: "nat \<Rightarrow> u32 \<Rightarrow> nat \<Rightarrow> kstate \<Rightarrow> kstate result" where
  "age_pages 0 i e s = Inr s"
| "age_pages (Suc n) i e s =
     rbind (ws_read ''ptr_pageWorkingSet'' (pageWorkingSet (envs s e)) i) (\<lambda>w.
     if ws_empty w = 1 then age_pages n (i + 1) e s
     else
       rbind (pt_get_page_permissions s e (ws_virtual_address w)) (\<lambda>(perm, s).
       let used = (perm AND PERM_USED \<noteq> 0) in
       rbind (set_page_ws s e i (w\<lparr>ws_time_stamp := aged used (ws_time_stamp w)\<rparr>)) (\<lambda>s.
       rbind (if used then pt_set_page_permissions s e (ws_virtual_address w) 0 PERM_USED
              else Inr s) (\<lambda>s.
       age_pages n (i + 1) e s))))"

fun age_tables :: "nat \<Rightarrow> u32 \<Rightarrow> nat \<Rightarrow> kstate \<Rightarrow> kstate result" where
  "age_tables 0 i e s = Inr s"
| "age_tables (Suc n) i e s =
     rbind (ws_read ''__ptr_tws'' (tableWorkingSet (envs s e)) i) (\<lambda>w.
     if ws_empty w = 1 then age_tables n (i + 1) e s
     else
       rbind (pd_is_table_used s e (ws_virtual_address w)) (\<lambda>used.
       rbind (set_table_ws s e i (w\<lparr>ws_time_stamp := aged used (ws_time_stamp w)\<rparr>)) (\<lambda>s.
       rbind (if used then pd_set_table_unused s e (ws_virtual_address w) else Inr s) (\<lambda>s.
       age_tables n (i + 1) e s))))"

definition update_WS_time_stamps :: "kstate \<Rightarrow> kstate result" where
  "update_WS_time_stamps s =
     (case curenv s of
        None \<Rightarrow> Inr s
      | Some e \<Rightarrow>
          rbind (age_pages (unat (page_WS_max_size (envs s e))) 0 e s) (\<lambda>s.
          age_tables (unat TWS_MAX_SIZE) 0 e s))"

end
