(* ===== verification/FOS_Fault.thy ===== *)
theory FOS_Fault
  imports FOS_WorkingSet
begin

text \<open>
  The fault handler of kern/trap.c: table faults, and page faults with the LRU, FIFO and CLOCK
  replacement of a page when the working set is full; and the operations of kern/memory_manager.c
  behind free(), which give back the page-file space, the resident pages and the empty tables of a
  range.
\<close>

section \<open>Constants\<close>

definition PG_REP_LRU :: u32 where "PG_REP_LRU = 1"
definition PG_REP_CLOCK :: u32 where "PG_REP_CLOCK = 2"
definition PG_REP_FIFO :: u32 where "PG_REP_FIFO = 3"
definition PG_REP_MODIFIEDCLOCK :: u32 where "PG_REP_MODIFIEDCLOCK = 4"

text \<open>
  USER_PAGES_WS_MAX multiplies before it divides, on 32-bit integers; a WorkingSetElement is 12
  bytes long.
\<close>

definition sizeof_WorkingSetElement :: u32 where "sizeof_WorkingSetElement = 12"

definition USER_PAGES_WS_MAX :: u32 where
  "USER_PAGES_WS_MAX = USER_PAGES_WS_START + sizeof_WorkingSetElement * USER_TOP div PAGE_SIZE"

definition USTACKBOTTOM :: u32 where "USTACKBOTTOM = ROUNDUP USER_PAGES_WS_MAX PAGE_SIZE"

lemmas fault_consts [fos_consts] =
  PG_REP_LRU_def PG_REP_CLOCK_def PG_REP_FIFO_def PG_REP_MODIFIEDCLOCK_def

section \<open>Choosing a victim\<close>

text \<open>LRU: the first entry with the smallest time stamp below 10 to the 9.\<close>

fun lru_search :: "nat \<Rightarrow> u32 \<Rightarrow> kstate \<Rightarrow> nat \<Rightarrow> u32 \<Rightarrow> u32 \<Rightarrow> u32 result" where
  "lru_search 0 i s e idxToReplace minTime = Inr idxToReplace"
| "lru_search (Suc n) i s e idxToReplace minTime =
     rbind (env_page_ws_get_time_stamp s e i) (\<lambda>time.
       if time < minTime then lru_search n (i + 1) s e i time
       else lru_search n (i + 1) s e idxToReplace minTime)"

text \<open>
  CLOCK: from the last index on, the first page whose used bit is clear, clearing the bits passed.
  The bound on the rounds makes a loop that never leaves the value \<open>Diverges\<close>.
\<close>

fun clock_search :: "nat \<Rightarrow> u32 \<Rightarrow> nat \<Rightarrow> kstate \<Rightarrow> (u32 \<times> kstate) result" where
  "clock_search 0 idx e s = Inl Diverges"
| "clock_search (Suc fuel) idx e s =
     rbind (env_page_ws_get_virtual_address s e idx) (\<lambda>killVA.
     rbind (get_page_table s (env_page_directory (envs s e)) killVA) (\<lambda>(_, pageT).
     rbind (kload s pageT (PTX killVA)) (\<lambda>pte.
       if pte AND PERM_USED = 0 then Inr (idx, s)
       else
         rbind (kstore s pageT (PTX killVA) (pte AND NOT PERM_USED)) (\<lambda>s.
         clock_search fuel ((idx + 1) mod page_WS_max_size (envs s e)) e s))))"

definition clock_rounds :: "kstate \<Rightarrow> nat \<Rightarrow> nat" where
  "clock_rounds s e = 2 * unat (page_WS_max_size (envs s e)) + 1"

definition choose_victim :: "kstate \<Rightarrow> nat \<Rightarrow> (u32 \<times> kstate) result" where
  "choose_victim s e =
     (let idx = page_last_WS_index (envs s e) in
      if PageRepAlgoType s = PG_REP_LRU then
        rbind (lru_search (unat (page_WS_max_size (envs s e))) 0 s e idx 1000000000) (\<lambda>idx.
        Inr (idx, s))
      else if PageRepAlgoType s = PG_REP_FIFO then Inr (idx, s)
      else if PageRepAlgoType s = PG_REP_CLOCK then clock_search (clock_rounds s e) idx e s
      else Inr (idx, s))"

section \<open>Eviction and placement\<close>

text \<open>A modified page is written to the page file before its frame is given up.\<close>

definition evict :: "kstate \<Rightarrow> nat \<Rightarrow> u32 \<Rightarrow> kstate result" where
  "evict s e idx =
     rbind (env_page_ws_get_virtual_address s e idx) (\<lambda>va.
     let dir = env_page_directory (envs s e) in
     rbind (get_frame_info s dir va) (\<lambda>(fo, page_table).
     rbind (kload s page_table (PTX va)) (\<lambda>page_permissions.
     rbind (if page_permissions AND PERM_MODIFIED \<noteq> 0 then
              (case fo of
                 None \<Rightarrow> Inl (Kernel_fault 0)
               | Some f \<Rightarrow> rbind (pf_update_env_page s e va f) (\<lambda>(_, s). Inr s))
            else Inr s) (\<lambda>s.
     rbind (unmap_frame s dir va) (\<lambda>s.
     env_page_ws_clear_entry s e idx)))))"

text \<open>The first empty entry from \<open>idx\<close> on, round the array.\<close>

fun find_empty :: "nat \<Rightarrow> u32 \<Rightarrow> kstate \<Rightarrow> nat \<Rightarrow> u32 result" where
  "find_empty 0 idx s e = Inl Diverges"
| "find_empty (Suc fuel) idx s e =
     rbind (ws_read ''__uptr_pws'' (pageWorkingSet (envs s e)) idx) (\<lambda>w.
       if ws_empty w \<noteq> 0 then Inr idx
       else find_empty fuel ((idx + 1) mod page_WS_max_size (envs s e)) s e)"

definition place_page :: "kstate \<Rightarrow> nat \<Rightarrow> u32 \<Rightarrow> u32 \<Rightarrow> kstate result" where
  "place_page s e fault_va idx =
     rbind (allocate_frame s) (\<lambda>(f, s).
     rbind (map_frame s (env_page_directory (envs s e)) f fault_va
              (PERM_USER OR PERM_WRITEABLE OR PERM_PRESENT OR PERM_USED)) (\<lambda>s.
     rbind (pf_read_env_page s e fault_va) (\<lambda>(r1, s).
     rbind (if r1 = 0 then env_page_ws_set_entry s e idx fault_va
            else if r1 = E_PAGE_NOT_EXIST_IN_PF then
              (if fault_va < USTACKTOP \<and> fault_va \<ge> USTACKBOTTOM then
                 rbind (pf_add_empty_env_page s e fault_va 0) (\<lambda>(_, s).
                 env_page_ws_set_entry s e idx fault_va)
               else
                 rbind (unmap_frame s (env_page_directory (envs s e)) fault_va) (\<lambda>s.
                 Inl (Panic ''NOT STACK'')))
            else Inr s) (\<lambda>s.
     Inr (upd_env s e (\<lambda>env. env\<lparr>page_last_WS_index := (idx + 1) mod page_WS_max_size env\<rparr>))))))"

definition page_fault_handler :: "kstate \<Rightarrow> nat \<Rightarrow> u32 \<Rightarrow> kstate result" where
  "page_fault_handler s e fault_va =
     rbind (if env_page_ws_get_size s e \<ge> page_WS_max_size (envs s e) then
              rbind (choose_victim s e) (\<lambda>(idx, s).
              rbind (evict s e idx) (\<lambda>s. Inr (idx, s)))
            else Inr (page_last_WS_index (envs s e), s)) (\<lambda>(idx, s).
     rbind (find_empty (unat (page_WS_max_size (envs s e)) + 1) idx s e) (\<lambda>idx.
     place_page s e fault_va idx))"

definition table_fault_handler :: "kstate \<Rightarrow> nat \<Rightarrow> u32 \<Rightarrow> kstate result" where
  "table_fault_handler s e fault_va =
     rbind (create_page_table s (env_page_directory (envs s e)) fault_va) (\<lambda>(_, s). Inr s)"

text \<open>With buffering enabled the page-fault handler is an empty function.\<close>

definition page_fault_handler_with_buffering :: "kstate \<Rightarrow> nat \<Rightarrow> u32 \<Rightarrow> kstate result" where
  "page_fault_handler_with_buffering s e fault_va = Inr s"

definition fault_handler :: "kstate \<Rightarrow> kstate result" where
  "fault_handler s =
     (let fault_va = reg_cr2 s in
      case curenv s of
        None \<Rightarrow> Inl (Kernel_fault 0)
      | Some e \<Rightarrow>
          rbind (kload s (env_page_directory (envs s e)) (PDX fault_va)) (\<lambda>pde.
          if pde AND PERM_PRESENT \<noteq> PERM_PRESENT then
            table_fault_handler
              (upd_env s e (\<lambda>env. env\<lparr>tableFaultsCounter := tableFaultsCounter env + 1\<rparr>)) e fault_va
          else
            let s = upd_env s e (\<lambda>env. env\<lparr>pageFaultsCounter := pageFaultsCounter env + 1\<rparr>) in
            if EnableBuffering s \<noteq> 0 then page_fault_handler_with_buffering s e fault_va
            else page_fault_handler s e fault_va))"

section \<open>Releasing a range\<close>

fun freeMem_page_file :: "nat \<Rightarrow> nat \<Rightarrow> u32 \<Rightarrow> kstate \<Rightarrow> kstate result" where
  "freeMem_page_file 0 e va s = Inr s"
| "freeMem_page_file (Suc n) e va s =
     rbind (pf_remove_env_page s e va) (\<lambda>s. freeMem_page_file n e (va + PAGE_SIZE) s)"

text \<open>The index of the first working-set entry with exactly this address.\<close>

fun ws_index_of :: "nat \<Rightarrow> u32 \<Rightarrow> WorkingSetElement list \<Rightarrow> nat option" where
  "ws_index_of 0 va ws = None"
| "ws_index_of (Suc n) va [] = None"
| "ws_index_of (Suc n) va (w # ws) =
     (if ws_virtual_address w = va then Some 0 else map_option Suc (ws_index_of n va ws))"

fun freeMem_resident :: "nat \<Rightarrow> nat \<Rightarrow> u32 \<Rightarrow> kstate \<Rightarrow> kstate result" where
  "freeMem_resident 0 e va s = Inr s"
| "freeMem_resident (Suc n) e va s =
     rbind (case ws_index_of (unat (page_WS_max_size (envs s e))) va (pageWorkingSet (envs s e)) of
              None \<Rightarrow> Inr s
            | Some i \<Rightarrow>
                rbind (env_page_ws_clear_entry s e (of_nat i)) (\<lambda>s.
                unmap_frame s (env_page_directory (envs s e)) va)) (\<lambda>s.
     freeMem_resident n e (va + PAGE_SIZE) s)"

text \<open>Whether the entries from \<open>j\<close> on are all zero; the scan stops at the first that is not.\<close>

fun table_empty :: "nat \<Rightarrow> u32 \<Rightarrow> u32 \<Rightarrow> kstate \<Rightarrow> bool result" where
  "table_empty 0 j pt s = Inr True"
| "table_empty (Suc n) j pt s =
     rbind (kload s pt j) (\<lambda>tableEntry.
       if tableEntry \<noteq> 0 then Inr False else table_empty n (j + 1) pt s)"

fun freeMem_tables :: "nat \<Rightarrow> nat \<Rightarrow> u32 \<Rightarrow> u32 \<Rightarrow> kstate \<Rightarrow> kstate result" where
  "freeMem_tables 0 e i bound s = (if i \<le> bound then Inl Diverges else Inr s)"
| "freeMem_tables (Suc fuel) e i bound s =
     (if i \<le> bound then
        rbind (get_page_table s (env_page_directory (envs s e)) i) (\<lambda>(_, pt).
        rbind (if pt = 0 then Inr s
               else
                 rbind (table_empty 1024 0 pt s) (\<lambda>empty.
                 if empty then
                   rbind (kfree s pt) (\<lambda>s.
                   kstore s (env_page_directory (envs s e)) (PDX i) 0)
                 else Inr s)) (\<lambda>s.
        freeMem_tables fuel e (i + PAGE_SIZE * 1024) bound s))
      else Inr s)"

text \<open>There are 1024 tables, so a loop that visits more of them has wrapped and never leaves.\<close>

definition freeMem :: "kstate \<Rightarrow> nat \<Rightarrow> u32 \<Rightarrow> u32 \<Rightarrow> kstate result" where
  "freeMem s e va sz =
     (let va = ROUNDDOWN va PAGE_SIZE;
          sz = ROUNDUP sz PAGE_SIZE;
          n = unat (sz div PAGE_SIZE) in
      rbind (freeMem_page_file n e va s) (\<lambda>s.
      rbind (freeMem_resident n e va s) (\<lambda>s.
      freeMem_tables 1024 e (ROUNDDOWN va (PAGE_SIZE * 1024)) (va + sz) s)))"

text \<open>moveMem() is not implemented.\<close>

definition moveMem :: "kstate \<Rightarrow> nat \<Rightarrow> u32 \<Rightarrow> u32 \<Rightarrow> u32 \<Rightarrow> kstate result" where
  "moveMem s e src dst sz = Inl (Panic ''moveMem() is not implemented yet'')"

section \<open>Counting the frames a range still needs\<close>

fun count_tables :: "nat \<Rightarrow> u32 \<Rightarrow> u32 \<Rightarrow> u32 \<Rightarrow> kstate \<Rightarrow> u32 \<Rightarrow> u32 result" where
  "count_tables 0 dir cur bound s n = (if cur < bound then Inl Diverges else Inr n)"
| "count_tables (Suc fuel) dir cur bound s n =
     (if cur < bound then
        rbind (get_page_table s dir cur) (\<lambda>(_, pt).
        count_tables fuel dir (cur + PAGE_SIZE * 1024) bound s (if pt = 0 then n + 1 else n))
      else Inr n)"

fun count_pages :: "nat \<Rightarrow> u32 \<Rightarrow> u32 \<Rightarrow> u32 \<Rightarrow> kstate \<Rightarrow> u32 \<Rightarrow> u32 result" where
  "count_pages 0 dir cur bound s n = (if cur < bound then Inl Diverges else Inr n)"
| "count_pages (Suc fuel) dir cur bound s n =
     (if cur < bound then
        rbind (get_frame_info s dir cur) (\<lambda>(fo, _).
        count_pages fuel dir (cur + PAGE_SIZE) bound s (if fo = None then n + 1 else n))
      else Inr n)"

definition calculate_required_frames :: "kstate \<Rightarrow> u32 \<Rightarrow> u32 \<Rightarrow> u32 \<Rightarrow> u32 result" where
  "calculate_required_frames s dir start sz =
     rbind (count_tables 1024 dir (ROUNDDOWN start (PAGE_SIZE * 1024)) (start + sz) s 0)
       (\<lambda>number_of_tables.
     rbind (count_pages 1048576 dir (ROUNDDOWN start PAGE_SIZE) (start + sz) s 0)
       (\<lambda>number_of_pages. Inr (number_of_tables + number_of_pages)))"

end
