(* ===== verification/FOS_Env.thy ===== *)
theory FOS_Env
  imports FOS_Fault
begin

text \<open>
  Environments of kern/user_environment.c: the free list of Env structures, the set-up of an
  environment's address space and identifier, the switch to it, and the release of everything it
  uses; envid2env() of kern/helpers.c. Loading the bytes of a program (env_create()) is represented
  by the walk over its ELF program headers and by the entry point.
\<close>

section \<open>Constants\<close>

text \<open>NENV is (PTSIZE/4) / sizeof(struct Env), and sizeof(struct Env) is 760.\<close>

definition sizeof_Env :: u32 where "sizeof_Env = 760"
definition NENV :: u32 where "NENV = (PTSIZE div 4) div sizeof_Env"
definition ENVX :: "u32 \<Rightarrow> u32" where "ENVX envid = envid AND (NENV - 1)"
definition ENVGENSHIFT :: nat where "ENVGENSHIFT = 12"
definition GD_UT :: u16 where "GD_UT = 0x18"
definition GD_UD :: u16 where "GD_UD = 0x20"
definition GD_KT :: u16 where "GD_KT = 0x08"
definition FL_IF :: u32 where "FL_IF = 0x200"
definition USER_SHARED_MEM_START :: u32 where "USER_SHARED_MEM_START = USER_HEAP_MAX"

lemmas env_consts [fos_consts] =
  sizeof_Env_def NENV_def ENVGENSHIFT_def GD_UT_def GD_UD_def GD_KT_def FL_IF_def
  USER_SHARED_MEM_START_def

section \<open>The free list of environments\<close>

text \<open>allocate_environment() leaves the environment on the list until it is initialised.\<close>

definition allocate_environment :: "kstate \<Rightarrow> (u32 + nat) \<times> kstate" where
  "allocate_environment s =
     (case first_of (env_free_list s) of
        None \<Rightarrow> (Inl E_NO_FREE_ENV, s)
      | Some e \<Rightarrow> (Inr e, upd_env s e (\<lambda>env. env\<lparr>env_status := ENV_UNKNOWN\<rparr>)))"

definition free_environment :: "kstate \<Rightarrow> nat \<Rightarrow> kstate" where
  "free_environment s e =
     (let s = upd_env s e (\<lambda>_. zero_env\<lparr>env_status := ENV_FREE\<rparr>) in
      s\<lparr>env_free_list := seq_insert_head (env_free_list s) e\<rparr>)"

definition env_init :: "kstate \<Rightarrow> kstate" where
  "env_init s =
     fold (\<lambda>iEnv s.
         let s = upd_env s iEnv (\<lambda>env. env\<lparr>env_status := ENV_FREE, env_id := 0\<rparr>) in
         s\<lparr>env_free_list := seq_insert_head (env_free_list s) iEnv\<rparr>)
       (rev [0..<unat NENV]) s"

section \<open>Address space of a new environment\<close>

definition create_user_page_WS :: "kstate \<Rightarrow> u32 \<Rightarrow> (u32 \<times> kstate) result" where
  "create_user_page_WS s numOfElements = kmalloc s (numOfElements * sizeof_WorkingSetElement)"

text \<open>The directory is cleared without a test of the pointer.\<close>

definition create_user_directory :: "kstate \<Rightarrow> (u32 \<times> kstate) result" where
  "create_user_directory s =
     rbind (kmalloc s PAGE_SIZE) (\<lambda>(p, s).
     rbind (kfill s p (\<lambda>_. 0)) (\<lambda>s. Inr (p, s)))"

text \<open>complete_environment_initialization(): self-map, identifier, status and registers.\<close>

definition next_env_id :: "u32 \<Rightarrow> nat \<Rightarrow> u32" where
  "next_env_id old e =
     (let generation = (old + push_bit ENVGENSHIFT 1) AND NOT (NENV - 1);
          generation = (if sint generation \<le> 0 then push_bit ENVGENSHIFT 1 else generation)
      in generation OR of_nat e)"

definition user_trapframe :: Trapframe where
  "user_trapframe = zero_trapframe\<lparr>tf_ds := GD_UD OR 3, tf_es := GD_UD OR 3, tf_ss := GD_UD OR 3,
     tf_esp := USTACKTOP, tf_cs := GD_UT OR 3, tf_eflags := FL_IF\<rparr>"

definition complete_environment_initialization :: "kstate \<Rightarrow> nat \<Rightarrow> kstate result" where
  "complete_environment_initialization s e =
     (let dir = env_page_directory (envs s e); cr3 = env_cr3 (envs s e) in
      rbind (kstore s dir (PDX VPT) (cr3 OR PERM_PRESENT OR PERM_WRITEABLE)) (\<lambda>s.
      rbind (kstore s dir (PDX UVPT) (cr3 OR PERM_PRESENT OR PERM_USER)) (\<lambda>s.
      let s = upd_env s e (\<lambda>env. env\<lparr>disk_env_pgdir := 0, disk_env_pgdir_PA := 0,
                disk_env_tabledir := 0, disk_env_tabledir_PA := 0,
                env_id := next_env_id (env_id env) e, env_parent_id := 0, env_status := ENV_NEW,
                env_runs := 0, env_tf := user_trapframe\<rparr>)
      in Inr (s\<lparr>env_free_list := seq_remove (env_free_list s) e\<rparr>))))"

text \<open>The pages of the working-set array are mapped read-only into the user half.\<close>

fun map_user_ws :: "nat \<Rightarrow> u32 \<Rightarrow> u32 \<Rightarrow> u32 \<Rightarrow> nat \<Rightarrow> kstate \<Rightarrow> kstate result" where
  "map_user_ws 0 sva bound dva e s = (if sva < bound then Inl Diverges else Inr s)"
| "map_user_ws (Suc fuel) sva bound dva e s =
     (if sva < bound then
        rbind (kheap_physical_address s sva) (\<lambda>pa.
        rbind (to_frame_info s pa) (\<lambda>f.
        rbind (map_frame s (env_page_directory (envs s e)) f dva PERM_USER) (\<lambda>s.
        map_user_ws fuel (sva + PAGE_SIZE) bound (dva + PAGE_SIZE) e s)))
      else Inr s)"

definition initialize_environment :: "kstate \<Rightarrow> nat \<Rightarrow> u32 \<Rightarrow> u32 \<Rightarrow> kstate result" where
  "initialize_environment s e ptr_user_page_directory phys_user_page_directory =
     (let s = upd_env s e (\<lambda>env. env\<lparr>env_page_directory := ptr_user_page_directory,
                                      env_cr3 := phys_user_page_directory\<rparr>) in
      rbind (kread_page s (ptr_page_directory s)) (\<lambda>kd.
      rbind (kread_page s ptr_user_page_directory) (\<lambda>old.
      rbind (kfill s ptr_user_page_directory
               (\<lambda>i. if i < PDX USER_TOP then 0 else if i < 1024 then kd i else old i)) (\<lambda>s.
      let s = upd_env s e (\<lambda>env. env\<lparr>uptr_pws := USER_PAGES_WS_START\<rparr>) in
      rbind (create_user_page_WS s (page_WS_max_size (envs s e))) (\<lambda>(pws, s).
      let nBytes = sizeof_WorkingSetElement * page_WS_max_size (envs s e);
          s = upd_env s e (\<lambda>env. env\<lparr>ptr_pageWorkingSet := pws\<rparr>) in
      rbind (map_user_ws 1048576 pws (pws + nBytes) USER_PAGES_WS_START e s) (\<lambda>s.
      let s = upd_env s e (\<lambda>env. env\<lparr>
                pageWorkingSet := replicate (unat (page_WS_max_size env)) cleared_entry,
                page_last_WS_index := 0,
                tableWorkingSet := replicate (unat TWS_MAX_SIZE) cleared_entry,
                table_last_WS_index := 0, pageFaultsCounter := 0, tableFaultsCounter := 0,
                nModifiedPages := 0, nNotModifiedPages := 0,
                shared_free_address := USER_SHARED_MEM_START\<rparr>)
      in complete_environment_initialization s e))))))"

section \<open>Program headers\<close>

record Proghdr =
  p_type :: u32
  p_offset :: u32
  p_va :: u32
  p_filesz :: u32
  p_memsz :: u32

record Elf =
  e_magic :: u32
  e_entry :: u32
  e_phnum :: u16
  e_ph :: "u32 \<Rightarrow> Proghdr"

record ProgramSegment =
  ptr_start :: u32
  size_in_file :: u32
  size_in_memory :: u32
  seg_virtual_address :: u32
  segment_id :: u32

definition ELF_MAGIC :: u32 where "ELF_MAGIC = 0x464C457F"
definition ELF_PROG_LOAD :: u32 where "ELF_PROG_LOAD = 1"

definition phnum :: "Elf \<Rightarrow> u32" where "phnum elf = ucast (e_phnum elf)"

text \<open>The first loadable header from \<open>i\<close> on; e_phnum if there is none.\<close>

function next_load :: "Elf \<Rightarrow> u32 \<Rightarrow> u32" where
  "next_load elf i =
     (if p_type (e_ph elf i) \<noteq> ELF_PROG_LOAD \<and> i < phnum elf then next_load elf (i + 1) else i)"
  by pat_completeness auto
termination
  by (relation "measure (\<lambda>(elf, i). unat (phnum elf) - unat i)") (auto intro: word_loop_measure)

declare next_load.simps [simp del]

definition segment_at :: "Elf \<Rightarrow> u32 \<Rightarrow> u32 \<Rightarrow> ProgramSegment" where
  "segment_at elf start i =
     \<lparr>ptr_start = start + p_offset (e_ph elf i), size_in_file = p_filesz (e_ph elf i),
      size_in_memory = p_memsz (e_ph elf i), seg_virtual_address = p_va (e_ph elf i),
      segment_id = i\<rparr>"

definition PROGRAM_SEGMENT_FIRST :: "Elf \<Rightarrow> u32 \<Rightarrow> ProgramSegment option result" where
  "PROGRAM_SEGMENT_FIRST elf start =
     (if e_magic elf \<noteq> ELF_MAGIC then Inl (Panic ''Matafa2nash 3ala Keda'')
      else let index = next_load elf 0 in
        Inr (if index < phnum elf then Some (segment_at elf start index) else None))"

definition PROGRAM_SEGMENT_NEXT ::
  "ProgramSegment \<Rightarrow> Elf \<Rightarrow> u32 \<Rightarrow> ProgramSegment option result" where
  "PROGRAM_SEGMENT_NEXT sg elf start =
     (if e_magic elf \<noteq> ELF_MAGIC then Inl (Panic ''Matafa2nash 3ala Keda'')
      else let index = next_load elf (segment_id sg + 1) in
        Inr (if index < phnum elf then Some (segment_at elf start index) else None))"

text \<open>The segments PROGRAM_SEGMENT_FOREACH visits.\<close>

fun segments_from :: "nat \<Rightarrow> ProgramSegment option \<Rightarrow> Elf \<Rightarrow> u32 \<Rightarrow> ProgramSegment list result" where
  "segments_from fuel None elf start = Inr []"
| "segments_from 0 (Some sg) elf start = Inl Diverges"
| "segments_from (Suc fuel) (Some sg) elf start =
     rbind (PROGRAM_SEGMENT_NEXT sg elf start) (\<lambda>nxt.
     rbind (segments_from fuel nxt elf start) (\<lambda>segs. Inr (sg # segs)))"

definition PROGRAM_SEGMENT_FOREACH :: "Elf \<Rightarrow> u32 \<Rightarrow> ProgramSegment list result" where
  "PROGRAM_SEGMENT_FOREACH elf start =
     rbind (PROGRAM_SEGMENT_FIRST elf start) (\<lambda>first.
     segments_from (unat (phnum elf)) first elf start)"

definition set_environment_entry_point :: "kstate \<Rightarrow> nat \<Rightarrow> Elf \<Rightarrow> kstate result" where
  "set_environment_entry_point s e elf =
     (if e_magic elf \<noteq> ELF_MAGIC then Inl (Panic ''Matafa2nash 3ala Keda'')
      else Inr (upd_env s e (\<lambda>env. env\<lparr>env_tf := (env_tf env)\<lparr>tf_eip := e_entry elf\<rparr>\<rparr>)))"

section \<open>Running and looking up environments\<close>

text \<open>The switch of address space; the return to user mode is the caller's outcome.\<close>

definition env_run :: "kstate \<Rightarrow> nat \<Rightarrow> kstate" where
  "env_run s e =
     (if curenv s \<noteq> Some e then
        let s = upd_env (s\<lparr>curenv := Some e\<rparr>) e (\<lambda>env. env\<lparr>env_runs := env_runs env + 1\<rparr>)
        in s\<lparr>reg_cr3 := env_cr3 (envs s e)\<rparr>
      else s)"

definition envid2env :: "kstate \<Rightarrow> u32 \<Rightarrow> bool \<Rightarrow> (u32 \<times> nat option) result" where
  "envid2env s envid checkperm =
     (if envid = 0 then Inr (0, curenv s)
      else
        let e = unat (ENVX envid) in
        if env_status (envs s e) = ENV_FREE \<or> env_id (envs s e) \<noteq> envid then Inr (E_BAD_ENV, None)
        else if checkperm \<and> Some e \<noteq> curenv s then
          (case curenv s of
             None \<Rightarrow> Inl (Kernel_fault 0)
           | Some c \<Rightarrow> if env_parent_id (envs s e) \<noteq> env_id (envs s c) then Inr (E_BAD_ENV, None)
                       else Inr (0, Some e))
        else Inr (0, Some e))"

section \<open>Releasing an environment\<close>

fun unmap_user_ws :: "nat \<Rightarrow> u32 \<Rightarrow> u32 \<Rightarrow> nat \<Rightarrow> kstate \<Rightarrow> kstate result" where
  "unmap_user_ws 0 sva bound e s = (if sva < bound then Inl Diverges else Inr s)"
| "unmap_user_ws (Suc fuel) sva bound e s =
     (if sva < bound then
        rbind (unmap_frame s (env_page_directory (envs s e)) sva) (\<lambda>s.
        unmap_user_ws fuel (sva + PAGE_SIZE) bound e s)
      else Inr s)"

fun free_user_ws_tables :: "nat \<Rightarrow> u32 \<Rightarrow> u32 \<Rightarrow> nat \<Rightarrow> kstate \<Rightarrow> kstate result" where
  "free_user_ws_tables 0 tsva bound e s = (if tsva < bound then Inl Diverges else Inr s)"
| "free_user_ws_tables (Suc fuel) tsva bound e s =
     (if tsva < bound then
        rbind (get_page_table s (env_page_directory (envs s e)) tsva) (\<lambda>(_, uws_table).
        rbind (kfree s uws_table) (\<lambda>s.
        rbind (kstore s (env_page_directory (envs s e)) (PDX tsva) 0) (\<lambda>s.
        free_user_ws_tables fuel (tsva + PTSIZE) bound e s)))
      else Inr s)"

definition remove_pws_user_pages :: "kstate \<Rightarrow> nat \<Rightarrow> kstate result" where
  "remove_pws_user_pages s e =
     (let nBytes = sizeof_WorkingSetElement * page_WS_max_size (envs s e);
          first = uptr_pws (envs s e) in
      rbind (unmap_user_ws 1048576 first (first + nBytes) e s) (\<lambda>s.
      free_user_ws_tables 1024 first (first + nBytes) e s))"

fun free_ws_pages :: "nat \<Rightarrow> u32 \<Rightarrow> nat \<Rightarrow> kstate \<Rightarrow> kstate result" where
  "free_ws_pages 0 i e s = Inr s"
| "free_ws_pages (Suc n) i e s =
     rbind (env_page_ws_get_virtual_address s e i) (\<lambda>va.
     rbind (env_page_ws_is_entry_empty s e i) (\<lambda>empty.
     rbind (if empty = 0 then unmap_frame s (env_page_directory (envs s e)) va else Inr s) (\<lambda>s.
     free_ws_pages n (i + 1) e s)))"

fun free_tables :: "nat \<Rightarrow> u32 \<Rightarrow> nat \<Rightarrow> kstate \<Rightarrow> kstate result" where
  "free_tables 0 i e s = Inr s"
| "free_tables (Suc n) i e s =
     rbind (kload s (env_page_directory (envs s e)) i) (\<lambda>pa.
     rbind (if pa \<noteq> 0 then kfree s (kheap_virtual_address s pa) else Inr s) (\<lambda>s.
     free_tables n (i + 1) e s))"

definition env_free :: "kstate \<Rightarrow> nat \<Rightarrow> kstate result" where
  "env_free s e =
     rbind (remove_pws_user_pages s e) (\<lambda>s.
     rbind (free_ws_pages (unat (page_WS_max_size (envs s e))) 0 e s) (\<lambda>s.
     rbind (kfree s (ptr_pageWorkingSet (envs s e))) (\<lambda>s.
     rbind (free_tables (unat (PDX USER_TOP)) 0 e s) (\<lambda>s.
     rbind (kfree s (env_page_directory (envs s e))) (\<lambda>s.
     rbind (pf_free_env s e) (\<lambda>s.
     Inr (free_environment s e)))))))"

definition env_free_with_buffering :: "kstate \<Rightarrow> nat \<Rightarrow> kstate result" where
  "env_free_with_buffering s e = Inr s"

definition start_env_free :: "kstate \<Rightarrow> nat \<Rightarrow> kstate result" where
  "start_env_free s e =
     (if EnableBuffering s \<noteq> 0 then env_free_with_buffering s e else env_free s e)"

text \<open>
  The buffer lists: bufferList_add_page() appends, bufferlist_remove_page() unlinks, and
  cleanup_buffers() takes the modified pages of one environment off the modified list.
\<close>

definition bufferList_add_page :: "u32 list \<Rightarrow> u32 \<Rightarrow> u32 list" where
  "bufferList_add_page bufferList f = seq_insert_tail bufferList f"

definition bufferlist_remove_page :: "u32 list \<Rightarrow> u32 \<Rightarrow> u32 list" where
  "bufferlist_remove_page bufferList f = seq_remove bufferList f"

fun cleanup_loop :: "u32 list \<Rightarrow> nat \<Rightarrow> kstate \<Rightarrow> kstate result" where
  "cleanup_loop [] e s = Inr s"
| "cleanup_loop (f # fs) e s =
     rbind (if fi_environment (frames_info s f) = Some e then
              rbind (pt_clear_page_table_entry s e (fi_va (frames_info s f))) (\<lambda>s.
              Inr (free_frame (s\<lparr>modified_frame_list :=
                     bufferlist_remove_page (modified_frame_list s) f\<rparr>) f))
            else Inr s) (\<lambda>s.
     cleanup_loop fs e s)"

definition cleanup_buffers :: "kstate \<Rightarrow> nat \<Rightarrow> kstate result" where
  "cleanup_buffers s e = cleanup_loop (modified_frame_list s) e s"

end
