(* ===== verification/FOS_Sched.thy ===== *)
theory FOS_Sched
  imports FOS_Env
begin

text \<open>
  The round-robin scheduler of kern/sched.c: the NEW, READY and EXIT queues, the pointer to the
  environment to run next, and the operations that create, run, exit and kill environments. The
  abstract specification is a cyclic sequence of environments, the one to run next first: running
  rotates it, a new environment goes to its end.
\<close>

section \<open>Operations\<close>

definition SCH_STOPPED :: u32 where "SCH_STOPPED = 0"
definition SCH_STARTED :: u32 where "SCH_STARTED = 1"

text \<open>
  Where control goes: back to the caller, to an environment in user mode, or to the command
  prompt. The last two never come back.
\<close>

datatype outcome = Returns | Runs nat | Command_prompt

text \<open>LIST_NEXT of an element of a queue.\<close>

fun next_in :: "'a list \<Rightarrow> 'a \<Rightarrow> 'a option" where
  "next_in [] x = None"
| "next_in (y # ys) x = (if y = x then first_of ys else next_in ys x)"

definition sched_next_circular :: "kstate \<Rightarrow> nat option \<Rightarrow> nat option" where
  "sched_next_circular s env =
     (case env of
        None \<Rightarrow> None
      | Some e \<Rightarrow>
          (case next_in (env_ready_queue s) e of
             None \<Rightarrow> first_of (env_ready_queue s)
           | Some nxt \<Rightarrow> Some nxt))"

definition fos_scheduler :: "kstate \<Rightarrow> outcome \<times> kstate" where
  "fos_scheduler s =
     (let s = s\<lparr>scheduler_status := SCH_STARTED\<rparr>;
          current_env = sched_next s;
          s = s\<lparr>sched_next := sched_next_circular s (sched_next s)\<rparr> in
      case current_env of
        Some e \<Rightarrow> (Runs e, env_run s e)
      | None \<Rightarrow> (Command_prompt,
                 s\<lparr>curenv := None, reg_cr3 := phys_page_directory s,
                   scheduler_status := SCH_STOPPED\<rparr>))"

definition sched_init :: "kstate \<Rightarrow> kstate" where
  "sched_init s = s\<lparr>env_ready_queue := [], env_new_queue := [], env_exit_queue := [],
                    sched_next := None, scheduler_status := SCH_STOPPED\<rparr>"

definition set_status :: "kstate \<Rightarrow> nat \<Rightarrow> u32 \<Rightarrow> kstate" where
  "set_status s e st = upd_env s e (\<lambda>env. env\<lparr>env_status := st\<rparr>)"

definition sched_insert_ready :: "kstate \<Rightarrow> nat \<Rightarrow> kstate" where
  "sched_insert_ready s e =
     (let s = set_status s e ENV_READY in
      case sched_next s of
        Some n \<Rightarrow> s\<lparr>env_ready_queue := insert_next_to False n e (env_ready_queue s)\<rparr>
      | None \<Rightarrow> s\<lparr>env_ready_queue := seq_insert_tail (env_ready_queue s) e, sched_next := Some e\<rparr>)"

definition sched_remove_ready :: "kstate \<Rightarrow> nat \<Rightarrow> kstate" where
  "sched_remove_ready s e =
     (let s = (if sched_next s = Some e then
                 let nxt = sched_next_circular s (Some e) in
                 s\<lparr>sched_next := (if nxt = Some e then None else nxt)\<rparr>
               else s)
      in set_status (s\<lparr>env_ready_queue := seq_remove (env_ready_queue s) e\<rparr>) e ENV_UNKNOWN)"

definition sched_insert_new :: "kstate \<Rightarrow> nat \<Rightarrow> kstate" where
  "sched_insert_new s e =
     (let s = set_status s e ENV_NEW in
      s\<lparr>env_new_queue := seq_insert_tail (env_new_queue s) e\<rparr>)"

definition sched_remove_new :: "kstate \<Rightarrow> nat \<Rightarrow> kstate" where
  "sched_remove_new s e =
     set_status (s\<lparr>env_new_queue := seq_remove (env_new_queue s) e\<rparr>) e ENV_UNKNOWN"

definition sched_insert_exit :: "kstate \<Rightarrow> nat \<Rightarrow> kstate" where
  "sched_insert_exit s e =
     (let s = set_status s e ENV_EXIT in
      s\<lparr>env_exit_queue := seq_insert_tail (env_exit_queue s) e\<rparr>)"

definition sched_remove_exit :: "kstate \<Rightarrow> nat \<Rightarrow> kstate" where
  "sched_remove_exit s e =
     set_status (s\<lparr>env_exit_queue := seq_remove (env_exit_queue s) e\<rparr>) e ENV_UNKNOWN"

definition sched_new_env :: "kstate \<Rightarrow> nat option \<Rightarrow> kstate" where
  "sched_new_env s eo = (case eo of None \<Rightarrow> s | Some e \<Rightarrow> sched_insert_new s e)"

text \<open>
  The loops over a queue follow the links it had when the loop started, since LIST_FOREACH keeps
  the successor before the body moves the element.
\<close>

definition sched_run_all :: "kstate \<Rightarrow> outcome \<times> kstate" where
  "sched_run_all s =
     (let s = fold (\<lambda>e s. sched_insert_ready (sched_remove_new s e) e) (env_new_queue s) s in
      if scheduler_status s = SCH_STOPPED then fos_scheduler s else (Returns, s))"

fun kill_each :: "(kstate \<Rightarrow> nat \<Rightarrow> kstate) \<Rightarrow> nat list \<Rightarrow> kstate \<Rightarrow> kstate result" where
  "kill_each unlink [] s = Inr s"
| "kill_each unlink (e # es) s =
     rbind (start_env_free (unlink s e) e) (\<lambda>s. kill_each unlink es s)"

definition sched_kill_all :: "kstate \<Rightarrow> (outcome \<times> kstate) result" where
  "sched_kill_all s =
     rbind (kill_each sched_remove_new (env_new_queue s) s) (\<lambda>s.
     rbind (kill_each sched_remove_ready (env_ready_queue s) s) (\<lambda>s.
     rbind (kill_each sched_remove_exit (env_exit_queue s) s) (\<lambda>s.
     Inr (fos_scheduler s))))"

text \<open>The first environment of a queue with the given identifier.\<close>

definition find_id :: "kstate \<Rightarrow> u32 \<Rightarrow> nat list \<Rightarrow> nat option" where
  "find_id s envId q = find (\<lambda>e. env_id (envs s e) = envId) q"

definition sched_run_env :: "kstate \<Rightarrow> u32 \<Rightarrow> outcome \<times> kstate" where
  "sched_run_env s envId =
     (case find_id s envId (env_new_queue s) of
        None \<Rightarrow> (Returns, s)
      | Some e \<Rightarrow>
          let s = sched_insert_ready (sched_remove_new s e) e in
          if scheduler_status s = SCH_STOPPED then fos_scheduler s else (Returns, s))"

definition cleanup_if_buffering :: "kstate \<Rightarrow> nat \<Rightarrow> kstate result" where
  "cleanup_if_buffering s e = (if EnableBuffering s \<noteq> 0 then cleanup_buffers s e else Inr s)"

definition sched_exit_env :: "kstate \<Rightarrow> u32 \<Rightarrow> (outcome \<times> kstate) result" where
  "sched_exit_env s envId =
     (case find_id s envId (env_new_queue s) of
        Some e \<Rightarrow>
          rbind (cleanup_if_buffering (sched_insert_exit (sched_remove_new s e) e) e) (\<lambda>s.
          Inr (Returns, s))
      | None \<Rightarrow>
          (case find_id s envId (env_ready_queue s) of
             None \<Rightarrow> Inr (Returns, s)
           | Some e \<Rightarrow>
               rbind (cleanup_if_buffering (sched_insert_exit (sched_remove_ready s e) e) e) (\<lambda>s.
               case curenv s of
                 None \<Rightarrow> Inl (Kernel_fault 0)
               | Some c \<Rightarrow> if env_id (envs s c) = envId then Inr (fos_scheduler s)
                           else Inr (Returns, s))))"

definition sched_kill_env :: "kstate \<Rightarrow> u32 \<Rightarrow> (outcome \<times> kstate) result" where
  "sched_kill_env s envId =
     (case find_id s envId (env_new_queue s) of
        Some e \<Rightarrow> rbind (start_env_free (sched_remove_new s e) e) (\<lambda>s. Inr (Returns, s))
      | None \<Rightarrow>
          (case find_id s envId (env_ready_queue s) of
             Some e \<Rightarrow>
               rbind (start_env_free (sched_remove_ready s e) e) (\<lambda>s.
               case curenv s of
                 None \<Rightarrow> Inl (Kernel_fault 0)
               | Some c \<Rightarrow> if env_id (envs s c) = envId
                           then Inr (fos_scheduler (s\<lparr>reg_cr3 := phys_page_directory s, curenv := None\<rparr>))
                           else Inr (Returns, s))
           | None \<Rightarrow>
               (case find_id s envId (env_exit_queue s) of
                  Some e \<Rightarrow> rbind (start_env_free (sched_remove_exit s e) e) (\<lambda>s. Inr (Returns, s))
                | None \<Rightarrow> Inr (Returns, s))))"

definition clock_interrupt_handler :: "kstate \<Rightarrow> (outcome \<times> kstate) result" where
  "clock_interrupt_handler s =
     rbind (if PageRepAlgoType s = PG_REP_LRU then update_WS_time_stamps s else Inr s) (\<lambda>s.
     Inr (fos_scheduler s))"

text \<open>env_exit() of kern/user_environment.c.\<close>

definition env_exit :: "kstate \<Rightarrow> (outcome \<times> kstate) result" where
  "env_exit s =
     (case curenv s of
        None \<Rightarrow> Inl (Kernel_fault 0)
      | Some c \<Rightarrow>
          rbind (sched_exit_env s (env_id (envs s c))) (\<lambda>(out, s).
          if out = Returns then Inr (fos_scheduler s) else Inr (out, s)))"

section \<open>The invariant\<close>

definition sched_inv :: "kstate \<Rightarrow> bool" where
  "sched_inv s \<longleftrightarrow>
     distinct (env_ready_queue s) \<and> distinct (env_new_queue s) \<and> distinct (env_exit_queue s)
   \<and> set (env_ready_queue s) \<inter> set (env_new_queue s) = {}
   \<and> set (env_ready_queue s) \<inter> set (env_exit_queue s) = {}
   \<and> set (env_new_queue s) \<inter> set (env_exit_queue s) = {}
   \<and> (\<forall>e \<in> set (env_ready_queue s). env_status (envs s e) = ENV_READY)
   \<and> (\<forall>e \<in> set (env_new_queue s). env_status (envs s e) = ENV_NEW)
   \<and> (\<forall>e \<in> set (env_exit_queue s). env_status (envs s e) = ENV_EXIT)
   \<and> (case sched_next s of
        None \<Rightarrow> env_ready_queue s = []
      | Some n \<Rightarrow> n \<in> set (env_ready_queue s))"

text \<open>The ready environments in the order in which they will run.\<close>

definition cycle :: "kstate \<Rightarrow> nat list" where
  "cycle s =
     (case sched_next s of
        None \<Rightarrow> []
      | Some n \<Rightarrow> dropWhile (\<lambda>x. x \<noteq> n) (env_ready_queue s) @ takeWhile (\<lambda>x. x \<noteq> n) (env_ready_queue s))"

lemma while_split:
  "n \<notin> set as \<Longrightarrow> dropWhile (\<lambda>x. x \<noteq> n) (as @ n # bs) = n # bs"
  "n \<notin> set as \<Longrightarrow> takeWhile (\<lambda>x. x \<noteq> n) (as @ n # bs) = as"
  by (induction as) auto

lemma cycle_split:
  assumes "env_ready_queue s = as @ n # bs" and "sched_next s = Some n" and "n \<notin> set as"
  shows "cycle s = n # bs @ as"
  using assms by (simp add: cycle_def while_split)

lemma sched_inv_split:
  assumes "sched_inv s" and "sched_next s = Some n"
  obtains as bs where "env_ready_queue s = as @ n # bs" and "n \<notin> set as" and "n \<notin> set bs"
  using assms distinct_split_unique [of "env_ready_queue s" n] by (auto simp: sched_inv_def)

lemma next_in_split: "n \<notin> set as \<Longrightarrow> next_in (as @ n # bs) n = first_of bs"
  by (induction as) auto

lemma next_circular_split:
  assumes "env_ready_queue s = as @ n # bs" and "n \<notin> set as"
  shows "sched_next_circular s (Some n) = first_of (bs @ as @ [n])"
  using assms by (cases bs; cases as) (auto simp: sched_next_circular_def next_in_split)

lemma set_cycle: "sched_inv s \<Longrightarrow> set (cycle s) = set (env_ready_queue s)"
proof (cases "sched_next s")
  case (Some n)
  assume "sched_inv s"
  then obtain as bs where "env_ready_queue s = as @ n # bs" "n \<notin> set as" "n \<notin> set bs"
    using Some by (rule sched_inv_split)
  then show ?thesis using Some by (auto simp: cycle_split)
qed (auto simp: sched_inv_def cycle_def)

lemma cycle_cong:
  "env_ready_queue s' = env_ready_queue s \<Longrightarrow> sched_next s' = sched_next s \<Longrightarrow> cycle s' = cycle s"
  by (auto simp: cycle_def split: option.splits)

lemma upd_env_simps [simp]:
  "env_ready_queue (upd_env s e g) = env_ready_queue s" "env_new_queue (upd_env s e g) = env_new_queue s"
  "env_exit_queue (upd_env s e g) = env_exit_queue s" "sched_next (upd_env s e g) = sched_next s"
  "curenv (upd_env s e g) = curenv s" "scheduler_status (upd_env s e g) = scheduler_status s"
  "envs (upd_env s e g) = (envs s)(e := g (envs s e))"
  "env_free_list (upd_env s e g) = env_free_list s"
  "reg_cr3 (upd_env s e g) = reg_cr3 s" "EnableBuffering (upd_env s e g) = EnableBuffering s"
  by (simp_all add: upd_env_def)

lemma set_status_simps [simp]:
  "env_ready_queue (set_status s e st) = env_ready_queue s"
  "env_new_queue (set_status s e st) = env_new_queue s"
  "env_exit_queue (set_status s e st) = env_exit_queue s"
  "sched_next (set_status s e st) = sched_next s" "curenv (set_status s e st) = curenv s"
  "scheduler_status (set_status s e st) = scheduler_status s"
  "envs (set_status s e st) = (envs s)(e := (envs s e)\<lparr>env_status := st\<rparr>)"
  by (simp_all add: set_status_def)

section \<open>Refinement to the cyclic sequence\<close>

lemma insert_ready_cycle:
  assumes "sched_inv s" and "e \<notin> set (env_ready_queue s)"
  shows "cycle (sched_insert_ready s e) = cycle s @ [e]"
proof (cases "sched_next s")
  case None
  then show ?thesis using assms by (auto simp: sched_insert_ready_def cycle_def sched_inv_def)
next
  case (Some n)
  obtain as bs where q: "env_ready_queue s = as @ n # bs" "n \<notin> set as" "n \<notin> set bs"
    using assms(1) Some by (rule sched_inv_split)
  let ?s = "sched_insert_ready s e"
  have "env_ready_queue ?s = (as @ [e]) @ n # bs" "sched_next ?s = Some n" "n \<notin> set (as @ [e])"
    using Some q assms(2) by (auto simp: sched_insert_ready_def insert_next_to_split)
  then have "cycle ?s = n # bs @ as @ [e]" by (rule cycle_split)
  then show ?thesis using q Some by (simp add: cycle_split)
qed

lemma remove_ready_cycle:
  assumes "sched_inv s" and "e \<in> set (env_ready_queue s)"
  shows "cycle (sched_remove_ready s e) = remove1 e (cycle s)"
proof -
  obtain n where n: "sched_next s = Some n" using assms by (auto simp: sched_inv_def split: option.splits)
  obtain as bs where q: "env_ready_queue s = as @ n # bs" "n \<notin> set as" "n \<notin> set bs"
    using assms(1) n by (rule sched_inv_split)
  have d: "distinct (as @ n # bs)" using assms(1) q by (simp add: sched_inv_def)
  let ?s = "sched_remove_ready s e"
  show ?thesis
  proof (cases "e = n")
    case True
    have nx: "sched_next_circular s (Some n) = first_of (bs @ as @ [n])"
      using q by (intro next_circular_split)
    have qs: "env_ready_queue ?s = as @ bs"
      using q d n True by (simp add: sched_remove_ready_def Let_def remove1_split)
    have nn: "sched_next ?s = first_of (bs @ as)"
      using nx n True d by (cases bs; cases as) (auto simp: sched_remove_ready_def)
    have "cycle ?s = bs @ as"
    proof (cases bs)
      case Nil
      then show ?thesis using qs nn by (cases as) (auto simp: cycle_def)
    next
      case (Cons b bs')
      then have "cycle ?s = b # bs' @ as"
        using qs nn d by (intro cycle_split) auto
      with Cons show ?thesis by simp
    qed
    then show ?thesis using True q n by (simp add: cycle_split)
  next
    case False
    have qs: "env_ready_queue ?s = remove1 e (as @ n # bs)" "sched_next ?s = Some n"
      using q n False by (simp_all add: sched_remove_ready_def)
    have e: "e \<in> set as \<or> e \<in> set bs" using assms(2) q False by auto
    moreover from e d have ni: "e \<in> set as \<Longrightarrow> e \<notin> set bs" "e \<in> set bs \<Longrightarrow> e \<notin> set as" by auto
    ultimately have "env_ready_queue ?s = remove1 e as @ n # remove1 e bs"
      using qs False by (auto simp: remove1_append remove1_idem)
    then have "cycle ?s = n # remove1 e bs @ remove1 e as"
      using qs(2) q(2) notin_set_remove1 by (intro cycle_split) auto
    moreover have "remove1 e (bs @ as) = remove1 e bs @ remove1 e as"
      using e ni by (auto simp: remove1_append remove1_idem)
    ultimately show ?thesis using False q n by (simp add: cycle_split)
  qed
qed

lemma fos_scheduler_cycle:
  assumes "sched_inv s" and "cycle s = e # es"
  shows "\<exists>s'. fos_scheduler s = (Runs e, s') \<and> cycle s' = es @ [e] \<and> curenv s' = Some e
     \<and> env_ready_queue s' = env_ready_queue s"
proof -
  obtain n where n: "sched_next s = Some n" using assms(2) by (auto simp: cycle_def split: option.splits)
  obtain as bs where q: "env_ready_queue s = as @ n # bs" "n \<notin> set as" "n \<notin> set bs"
    using assms(1) n by (rule sched_inv_split)
  have d: "distinct (as @ n # bs)" using assms(1) q by (simp add: sched_inv_def)
  have e: "e = n" "es = bs @ as" using assms(2) q n by (auto simp: cycle_split)
  let ?s = "s\<lparr>scheduler_status := SCH_STARTED, sched_next := first_of (bs @ as @ [n])\<rparr>"
  have nx: "sched_next_circular (s\<lparr>scheduler_status := SCH_STARTED\<rparr>) (Some n) = first_of (bs @ as @ [n])"
    using q by (intro next_circular_split) auto
  have run: "env_ready_queue (env_run ?s n) = env_ready_queue s"
      "sched_next (env_run ?s n) = first_of (bs @ as @ [n])" "curenv (env_run ?s n) = Some n"
    by (auto simp: env_run_def Let_def)
  have "cycle (env_run ?s n) = bs @ as @ [n]"
  proof (cases "bs")
    case (Cons b bs')
    then have "cycle (env_run ?s n) = b # bs' @ as @ [n]"
      using run q d cycle_split [of "env_run ?s n" "as @ [n]" b bs'] by auto
    with Cons show ?thesis by simp
  next
    case Nil
    show ?thesis
    proof (cases as)
      case (Cons a as')
      then show ?thesis
        using run q d Nil cycle_split [of "env_run ?s n" "[]" a "as' @ [n]"] by auto
    next
      case Nil2: Nil
      then show ?thesis using run q Nil cycle_split [of "env_run ?s n" "[]" n "[]"] by auto
    qed
  qed
  moreover have "fos_scheduler s = (Runs n, env_run ?s n)"
    using n nx by (simp add: fos_scheduler_def Let_def)
  ultimately show ?thesis using run e by auto
qed

section \<open>Preservation of the invariant\<close>

lemma sched_inv_upd [simp]:
  "sched_inv (s\<lparr>scheduler_status := x\<rparr>) = sched_inv s"
  "sched_inv (s\<lparr>curenv := c\<rparr>) = sched_inv s"
  "sched_inv (s\<lparr>reg_cr3 := r\<rparr>) = sched_inv s"
  by (auto simp: sched_inv_def split: option.splits)

lemma env_run_inv: "sched_inv s \<Longrightarrow> sched_inv (env_run s e)"
  unfolding env_run_def Let_def
  by (auto simp: sched_inv_def split: option.splits)

lemma next_circular_in:
  assumes "sched_inv s" and "sched_next s = Some n"
  shows "\<exists>m \<in> set (env_ready_queue s). sched_next_circular s (Some n) = Some m"
proof -
  obtain as bs where "env_ready_queue s = as @ n # bs" "n \<notin> set as" "n \<notin> set bs"
    using assms by (rule sched_inv_split)
  then show ?thesis
    using next_circular_split [of s as n bs] by (cases bs; cases as) auto
qed

lemma fos_scheduler_inv: "sched_inv s \<Longrightarrow> sched_inv (snd (fos_scheduler s))"
proof (cases "sched_next s")
  case None
  assume "sched_inv s"
  with None show ?thesis by (simp add: fos_scheduler_def sched_next_circular_def sched_inv_def)
next
  case (Some n)
  assume inv: "sched_inv s"
  let ?t = "s\<lparr>scheduler_status := SCH_STARTED\<rparr>"
  obtain m where m: "m \<in> set (env_ready_queue s)" "sched_next_circular ?t (Some n) = Some m"
    using next_circular_in [of ?t n] inv Some by auto
  have "sched_inv (?t\<lparr>sched_next := Some m\<rparr>)"
    using inv m by (auto simp: sched_inv_def)
  then show ?thesis using Some m by (simp add: fos_scheduler_def Let_def env_run_inv)
qed

lemma set_insert_next_to:
  "set (insert_next_to b n e xs) = (if n \<in> set xs then insert e (set xs) else set xs)"
  by (induction xs) auto

lemma distinct_insert_next_to:
  "distinct xs \<Longrightarrow> e \<notin> set xs \<Longrightarrow> distinct (insert_next_to b n e xs)"
  by (induction xs) (auto simp: set_insert_next_to)

lemma insert_ready_inv:
  assumes "sched_inv s" and "e \<notin> set (env_ready_queue s)" and "e \<notin> set (env_new_queue s)"
    and "e \<notin> set (env_exit_queue s)"
  shows "sched_inv (sched_insert_ready s e)"
  using assms unfolding sched_insert_ready_def sched_inv_def
  by (auto simp: Let_def set_insert_next_to distinct_insert_next_to split: option.splits)

lemma insert_new_inv:
  assumes "sched_inv s" and "e \<notin> set (env_ready_queue s)" and "e \<notin> set (env_new_queue s)"
    and "e \<notin> set (env_exit_queue s)"
  shows "sched_inv (sched_insert_new s e)"
  using assms unfolding sched_insert_new_def sched_inv_def
  by (auto simp: Let_def split: option.splits)

lemma insert_exit_inv:
  assumes "sched_inv s" and "e \<notin> set (env_ready_queue s)" and "e \<notin> set (env_new_queue s)"
    and "e \<notin> set (env_exit_queue s)"
  shows "sched_inv (sched_insert_exit s e)"
  using assms unfolding sched_insert_exit_def sched_inv_def
  by (auto simp: Let_def split: option.splits)

lemma remove_new_inv:
  assumes "sched_inv s" and "e \<in> set (env_new_queue s)"
  shows "sched_inv (sched_remove_new s e)"
    and "e \<notin> set (env_ready_queue (sched_remove_new s e))"
    and "set (env_new_queue (sched_remove_new s e)) = set (env_new_queue s) - {e}"
    and "e \<notin> set (env_exit_queue (sched_remove_new s e))"
    and "scheduler_status (sched_remove_new s e) = scheduler_status s"
  using assms unfolding sched_remove_new_def sched_inv_def
  by (auto split: option.splits)

lemma remove_ready_inv:
  assumes "sched_inv s" and "e \<in> set (env_ready_queue s)"
  shows "sched_inv (sched_remove_ready s e)"
    and "e \<notin> set (env_ready_queue (sched_remove_ready s e))"
    and "e \<notin> set (env_new_queue (sched_remove_ready s e))"
    and "e \<notin> set (env_exit_queue (sched_remove_ready s e))"
proof -
  let ?t = "sched_remove_ready s e"
  have q: "env_ready_queue ?t = remove1 e (env_ready_queue s)" "env_new_queue ?t = env_new_queue s"
      "env_exit_queue ?t = env_exit_queue s"
    "envs ?t = (envs s)(e := (envs s e)\<lparr>env_status := ENV_UNKNOWN\<rparr>)"
    by (simp_all add: sched_remove_ready_def Let_def)
  have d: "distinct (env_ready_queue s)" using assms(1) by (simp add: sched_inv_def)
  obtain n where n: "sched_next s = Some n" "n \<in> set (env_ready_queue s)"
    using assms by (auto simp: sched_inv_def split: option.splits)
  have sn: "case sched_next ?t of None \<Rightarrow> env_ready_queue ?t = []
      | Some m \<Rightarrow> m \<in> set (env_ready_queue ?t)"
  proof (cases "n = e")
    case True
    obtain as bs where s: "env_ready_queue s = as @ n # bs" "n \<notin> set as" "n \<notin> set bs"
      using assms(1) n(1) by (rule sched_inv_split)
    have "sched_next_circular s (Some n) = first_of (bs @ as @ [n])"
      using s by (intro next_circular_split)
    then show ?thesis
      using s n True d
      by (cases bs; cases as) (auto simp: sched_remove_ready_def Let_def remove1_append)
  next
    case False
    then show ?thesis using n d q(1) by (simp add: sched_remove_ready_def Let_def in_set_remove1)
  qed
  show "sched_inv ?t"
    unfolding sched_inv_def using assms sn d unfolding q sched_inv_def by auto
  show "e \<notin> set (env_ready_queue ?t)" "e \<notin> set (env_new_queue ?t)" "e \<notin> set (env_exit_queue ?t)"
    using assms d unfolding q sched_inv_def by auto
qed

lemma move_to_ready_inv:
  assumes "sched_inv s" and "e \<in> set (env_new_queue s)"
  shows "sched_inv (sched_insert_ready (sched_remove_new s e) e)"
  using remove_new_inv [OF assms] by (intro insert_ready_inv) auto

lemma move_all_to_ready_inv:
  assumes "sched_inv s" and "set es \<subseteq> set (env_new_queue s)" and "distinct es"
  shows "sched_inv (fold (\<lambda>e s. sched_insert_ready (sched_remove_new s e) e) es s)"
  using assms
proof (induction es arbitrary: s)
  case (Cons e es)
  let ?t = "sched_insert_ready (sched_remove_new s e) e"
  have "env_new_queue ?t = remove1 e (env_new_queue s)"
    by (simp add: sched_insert_ready_def sched_remove_new_def Let_def split: option.splits)
  moreover have "distinct (env_new_queue s)" using Cons.prems(1) by (simp add: sched_inv_def)
  ultimately have "set es \<subseteq> set (env_new_queue ?t)" using Cons.prems by auto
  with Cons show ?case by (simp add: move_to_ready_inv)
qed simp

section \<open>Reachable states\<close>

text \<open>The queue operations as steps, from the state sched_init() leaves.\<close>

inductive sched_step :: "kstate \<Rightarrow> kstate \<Rightarrow> bool" where
  New: "e \<notin> set (env_ready_queue s) \<Longrightarrow> e \<notin> set (env_new_queue s) \<Longrightarrow> e \<notin> set (env_exit_queue s)
    \<Longrightarrow> sched_step s (sched_new_env s (Some e))"
| Run_all: "sched_step s (snd (sched_run_all s))"
| Run_env: "sched_step s (snd (sched_run_env s envId))"
| Exit: "EnableBuffering s = 0 \<Longrightarrow> sched_exit_env s envId = Inr (out, s') \<Longrightarrow> sched_step s s'"
| Schedule: "sched_step s (snd (fos_scheduler s))"

inductive_cases sched_stepE: "sched_step s s'"

inductive sched_reach :: "kstate \<Rightarrow> bool" where
  Init: "sched_reach (sched_init s)"
| Step: "sched_reach s \<Longrightarrow> sched_step s s' \<Longrightarrow> sched_reach s'"

lemma find_id_Some: "find_id s i q = Some e \<Longrightarrow> e \<in> set q \<and> env_id (envs s e) = i"
  by (auto simp: find_id_def find_Some_iff)

lemma sched_exit_env_inv:
  assumes "sched_inv s" and "EnableBuffering s = 0" and "sched_exit_env s envId = Inr (out, s')"
  shows "sched_inv s'"
proof -
  have b: "cleanup_if_buffering (sched_insert_exit t e) e = Inr (sched_insert_exit t e)"
    if "EnableBuffering t = 0" for t e
    using that by (simp add: cleanup_if_buffering_def sched_insert_exit_def set_status_def Let_def)
  have n: "EnableBuffering (sched_remove_new s e) = 0" "EnableBuffering (sched_remove_ready s e) = 0" for e
    using assms(2) by (simp_all add: sched_remove_new_def sched_remove_ready_def set_status_def Let_def)
  show ?thesis
  proof (cases "find_id s envId (env_new_queue s)")
    case (Some e)
    then have "sched_inv (sched_insert_exit (sched_remove_new s e) e)"
      using remove_new_inv [OF assms(1), of e] by (intro insert_exit_inv) (auto dest: find_id_Some)
    then show ?thesis using Some assms(3) n b by (auto simp: sched_exit_env_def)
  next
    case None
    show ?thesis
    proof (cases "find_id s envId (env_ready_queue s)")
      case (Some e)
      then have "sched_inv (sched_insert_exit (sched_remove_ready s e) e)"
        using remove_ready_inv [OF assms(1), of e] by (intro insert_exit_inv) (auto dest: find_id_Some)
      then show ?thesis using Some None assms(3) n b fos_scheduler_inv
        by (auto simp: sched_exit_env_def split: option.splits if_splits)
          (metis snd_conv)
    qed (use None assms in \<open>simp add: sched_exit_env_def\<close>)
  qed
qed

lemma sched_step_inv: "sched_step s s' \<Longrightarrow> sched_inv s \<Longrightarrow> sched_inv s'"
proof (induction rule: sched_step.induct)
  case (New e s)
  then show ?case by (simp add: sched_new_env_def insert_new_inv)
next
  case (Run_all s)
  then have "sched_inv (fold (\<lambda>e s. sched_insert_ready (sched_remove_new s e) e) (env_new_queue s) s)"
    by (intro move_all_to_ready_inv) (auto simp: sched_inv_def)
  then show ?case by (simp add: sched_run_all_def Let_def fos_scheduler_inv)
next
  case (Run_env s envId)
  then show ?case
    by (auto simp: sched_run_env_def Let_def fos_scheduler_inv move_to_ready_inv dest: find_id_Some
        split: option.splits)
next
  case (Exit s envId out s')
  then show ?case by (auto intro: sched_exit_env_inv)
next
  case (Schedule s)
  then show ?case by (simp add: fos_scheduler_inv)
qed

section \<open>Round robin as an interface\<close>

text \<open>Repeated scheduling decisions: the outcomes and the final state.\<close>

fun decisions :: "('s \<Rightarrow> 'o \<times> 's) \<Rightarrow> nat \<Rightarrow> 's \<Rightarrow> 'o list \<times> 's" where
  "decisions sched 0 s = ([], s)"
| "decisions sched (Suc n) s =
     (let (out, s1) = sched s; (outs, s2) = decisions sched n s1 in (out # outs, s2))"

locale round_robin =
  fixes inv :: "'s \<Rightarrow> bool"
    and order :: "'s \<Rightarrow> 'e list"
    and sched :: "'s \<Rightarrow> 'o \<times> 's"
    and runs :: "'e \<Rightarrow> 'o"
    and add :: "'s \<Rightarrow> 'e \<Rightarrow> 's"
    and add_ok :: "'s \<Rightarrow> 'e \<Rightarrow> bool"
  assumes sched_keeps: "inv s \<Longrightarrow> inv (snd (sched s))"
    and sched_rotates: "inv s \<Longrightarrow> order s = e # es \<Longrightarrow>
      fst (sched s) = runs e \<and> order (snd (sched s)) = es @ [e]"
    and add_keeps: "inv s \<Longrightarrow> add_ok s e \<Longrightarrow> inv (add s e)"
    and add_last: "inv s \<Longrightarrow> add_ok s e \<Longrightarrow> order (add s e) = order s @ [e]"
begin

lemma decisions_rotate:
  assumes "inv s" and "order s \<noteq> []"
  shows "inv (snd (decisions sched n s)) \<and> order (snd (decisions sched n s)) = rotate n (order s)
     \<and> length (fst (decisions sched n s)) = n
     \<and> (\<forall>i<n. fst (decisions sched n s) ! i = runs (order s ! (i mod length (order s))))"
  using assms
proof (induction n arbitrary: s)
  case 0
  then show ?case by simp
next
  case (Suc n)
  obtain e es where o: "order s = e # es" using Suc.prems(2) by (cases "order s") auto
  obtain out s1 where s1: "sched s = (out, s1)" by force
  have step: "inv s1" "out = runs e" "order s1 = es @ [e]"
    using sched_keeps [OF Suc.prems(1)] sched_rotates [OF Suc.prems(1) o] s1 by auto
  note IH = Suc.IH [OF step(1)]
  have "order s1 ! (i mod length (order s1)) = order s ! (Suc i mod length (order s))" for i
    using nth_rotate1 [of "i mod length (order s)" "order s"] step(3) o
    by (simp add: mod_Suc_eq)
  moreover have "rotate n (order s1) = rotate (Suc n) (order s)"
    by (simp add: rotate_def step(3) o funpow_swap1)
  ultimately show ?case
    using IH step s1 o by (auto simp: Let_def split: prod.splits simp: less_Suc_eq_0_disj)
qed

text \<open>Within one round every ready element runs, whatever order the others have.\<close>

lemma runs_within_round:
  assumes "inv s" and "e \<in> set (order s)"
  shows "\<exists>i < length (order s). fst (decisions sched (length (order s)) s) ! i = runs e"
proof -
  obtain i where "i < length (order s)" "order s ! i = e" using assms(2) by (auto simp: in_set_conv_nth)
  then show ?thesis
    using decisions_rotate [OF assms(1), of "length (order s)"] by (intro exI [of _ i]) fastforce
qed

end

text \<open>An environment that no queue holds.\<close>

definition unqueued :: "kstate \<Rightarrow> nat \<Rightarrow> bool" where
  "unqueued s e \<longleftrightarrow> e \<notin> set (env_ready_queue s) \<and> e \<notin> set (env_new_queue s)
     \<and> e \<notin> set (env_exit_queue s)"

interpretation fos_rr: round_robin sched_inv cycle fos_scheduler Runs sched_insert_ready unqueued
proof unfold_locales
  fix s e es
  show "fst (fos_scheduler s) = Runs e \<and> cycle (snd (fos_scheduler s)) = es @ [e]"
    if "sched_inv s" "cycle s = e # es"
    using fos_scheduler_cycle [OF that] by auto
qed (auto simp: unqueued_def fos_scheduler_inv insert_ready_inv insert_ready_cycle)

section \<open>Properties of the scheduler\<close>

definition sample_sched :: kstate where
  "sample_sched = sample_state\<lparr>env_ready_queue := [3, 1, 2], sched_next := Some 1,
     envs := (\<lambda>e. zero_env\<lparr>env_status := (if e \<in> {1, 2, 3} then ENV_READY else ENV_FREE),
                            env_id := 4096 + of_nat e\<rparr>), curenv := Some 3\<rparr>"

lemma sample_sched_inv: "sched_inv sample_sched" and sample_sched_cycle: "cycle sample_sched = [1, 2, 3]"
  by (simp_all add: sample_sched_def sched_inv_def cycle_def)

text \<open>
  Scheduling is round robin: as long as no environment is added or removed, the i-th of any
  number of calls of fos_scheduler() runs the environment at position i of the cycle that starts
  with sched_next, counted modulo its length.
\<close>

theorem scheduler_round_robin:
  assumes "sched_inv s" and "cycle s \<noteq> []" and "i < n"
  shows "fst (decisions fos_scheduler n s) ! i = Runs (cycle s ! (i mod length (cycle s)))"
  using fos_rr.decisions_rotate [OF assms(1,2), of n] assms(3) by simp

theorem scheduler_round_robin_witness:
  "fst (decisions fos_scheduler 5 sample_sched) ! 4 = Runs 2"
  using scheduler_round_robin [OF sample_sched_inv, of 4 5] by (simp add: sample_sched_cycle)

text \<open>
  C39. No environment starves: every environment of the READY queue runs within one round, that is
  within as many scheduler calls as there are ready environments.
\<close>

theorem scheduler_no_starvation:
  assumes "sched_inv s" and "e \<in> set (env_ready_queue s)"
  shows "\<exists>i < length (cycle s). fst (decisions fos_scheduler (length (cycle s)) s) ! i = Runs e"
  using fos_rr.runs_within_round [OF assms(1)] assms(2) set_cycle [OF assms(1)] by simp

theorem scheduler_no_starvation_witness:
  "\<exists>i<3. fst (decisions fos_scheduler 3 sample_sched) ! i = Runs 3"
proof -
  have "3 \<in> set (env_ready_queue sample_sched)" by (simp add: sample_sched_def)
  moreover have "length (cycle sample_sched) = 3" by (simp add: sample_sched_cycle)
  ultimately show ?thesis using scheduler_no_starvation [OF sample_sched_inv, of 3] by metis
qed

text \<open>
  C14. The queue operations refine the cyclic sequence: an inserted environment goes last, behind
  every environment already waiting, and a removed one leaves the order of the others as it is.
\<close>

theorem scheduler_refines_cycle:
  assumes "sched_inv s"
  shows "(unqueued s e \<longrightarrow> sched_inv (sched_insert_ready s e) \<and> cycle (sched_insert_ready s e) = cycle s @ [e])
     \<and> (e \<in> set (env_ready_queue s) \<longrightarrow>
          sched_inv (sched_remove_ready s e) \<and> cycle (sched_remove_ready s e) = remove1 e (cycle s))"
  using fos_rr.add_keeps [OF assms] fos_rr.add_last [OF assms] remove_ready_inv(1) [OF assms]
    remove_ready_cycle [OF assms] by simp

theorem scheduler_refines_cycle_witness:
  "cycle (sched_insert_ready sample_sched 7) = [1, 2, 3, 7]
   \<and> cycle (sched_remove_ready sample_sched 1) = [2, 3]"
  using scheduler_refines_cycle [OF sample_sched_inv, of 7]
    scheduler_refines_cycle [OF sample_sched_inv, of 1]
  by (simp add: sample_sched_cycle unqueued_def) (simp add: sample_sched_def)

text \<open>
  C8. In every state reached from sched_init() by creating, running, exiting and scheduling
  environments the three queues are duplicate-free and pairwise disjoint, the status of each queued
  environment is that of its queue, and sched_next is a ready environment, or NULL exactly when
  there is none.
\<close>

theorem sched_reach_inv:
  assumes "sched_reach s"
  shows "sched_inv s"
  using assms
proof induction
  case (Init s)
  then show ?case by (simp add: sched_init_def sched_inv_def)
next
  case (Step s s')
  then show ?case by (auto intro: sched_step_inv)
qed

theorem sched_reach_inv_witness:
  "sched_inv (snd (sched_run_all (sched_new_env (sched_init sample_state) (Some 4))))"
proof -
  have "sched_reach (sched_init sample_state)" by (rule sched_reach.Init)
  then have "sched_reach (sched_new_env (sched_init sample_state) (Some 4))"
    by (rule sched_reach.Step) (rule sched_step.New, simp_all add: sched_init_def)
  then show ?thesis by (intro sched_reach_inv sched_reach.Step [OF _ sched_step.Run_all])
qed

end
