(* ===== verification/FOS_Load.thy ===== *)
theory FOS_Load
  imports FOS_Env
begin

text \<open>
  Loading a program: env_create() of kern/user_environment.c, which makes the address space of a new
  environment, maps and fills the first pages of each segment, writes every page of the segments and
  the first stack page to the page file, and sets the entry point. The program images are linked into
  the kernel by the build; the argument \<open>prog\<close> gives, for the name of a program of the table, the
  address of its image and the headers found there.
\<close>

section \<open>The table of programs\<close>

type_synonym images = "string \<Rightarrow> u32 \<times> Elf"

definition userPrograms :: "string list" where
  "userPrograms =
     [''fos_helloWorld'', ''fos_add'', ''fos_alloc'', ''fos_input'', ''fos_game'',
      ''fos_static_data_section'', ''fos_data_on_stack'', ''tqs'',
      ''tpp'', ''tia'', ''tpr1'', ''tpr2'', ''tpr3'', ''tpr4'', ''tm1'', ''tm2'', ''tm3'',
      ''tf1'', ''tf2'', ''tnf'', ''tbf1'', ''tbf2'', ''hp'',
      ''tqsfh'', ''qs1'', ''qs2'', ''qs3'', ''qs4'', ''qs5'', ''fact'', ''fib'', ''qs'', ''ms1'', ''ms2'',
      ''tff1'', ''tff2'', ''twf'', ''tr1'', ''tr2'', ''tfr1'', ''tfr2'', ''tfifo1'', ''tfifo2'', ''tmodclk'']"

text \<open>Both look-ups compare names from the start of the table and stop at the first that is equal.\<close>

definition get_user_program_info :: "string \<Rightarrow> string option" where
  "get_user_program_info user_program_name = find (\<lambda>n. n = user_program_name) userPrograms"

definition get_user_program_info_by_env :: "kstate \<Rightarrow> nat \<Rightarrow> string option" where
  "get_user_program_info_by_env s e = find (\<lambda>n. n = prog_name (envs s e)) userPrograms"

section \<open>Copying bytes\<close>

fun copy_bytes :: "nat \<Rightarrow> u32 \<Rightarrow> u32 \<Rightarrow> kstate \<Rightarrow> kstate result" where
  "copy_bytes 0 dst src s = Inr s"
| "copy_bytes (Suc n) dst src s =
     rbind (cpu_load8 s src) (\<lambda>b.
     rbind (cpu_store8 s dst b) (\<lambda>s.
     copy_bytes n (dst + 1) (src + 1) s))"

fun zero_bytes :: "nat \<Rightarrow> u32 \<Rightarrow> kstate \<Rightarrow> kstate result" where
  "zero_bytes 0 dst s = Inr s"
| "zero_bytes (Suc n) dst s = rbind (cpu_store8 s dst 0) (\<lambda>s. zero_bytes n (dst + 1) s)"

section \<open>The resident pages of a segment\<close>

text \<open>An entry of the working set written at the last index, which then moves on round the array.\<close>

definition push_page_ws :: "kstate \<Rightarrow> nat \<Rightarrow> u32 \<Rightarrow> kstate result" where
  "push_page_ws s e iVA =
     rbind (set_page_ws s e (page_last_WS_index (envs s e))
              \<lparr>ws_virtual_address = iVA, ws_empty = 0, ws_time_stamp = 0\<rparr>) (\<lambda>s.
     Inr (upd_env s e (\<lambda>env. env\<lparr>page_last_WS_index :=
            (page_last_WS_index env + 1) mod page_WS_max_size env\<rparr>)))"

text \<open>
  The loop over the pages; it stops at the end of the segment or when \<open>n\<close> pages have been mapped. It
  returns the number of pages mapped and the number of the last table.
\<close>

fun map_segment :: "nat \<Rightarrow> u32 \<Rightarrow> u32 \<Rightarrow> nat \<Rightarrow> u32 \<Rightarrow> u32 \<Rightarrow> kstate \<Rightarrow> (u32 \<times> u32 \<times> kstate) result" where
  "map_segment 0 iVA end_vaddr e allocated_pages lastTableNumber s = Inr (allocated_pages, lastTableNumber, s)"
| "map_segment (Suc n) iVA end_vaddr e allocated_pages lastTableNumber s =
     (if iVA < end_vaddr then
        rbind (allocate_frame s) (\<lambda>(p, s).
        rbind (loadtime_map_frame s (env_page_directory (envs s e)) p iVA (PERM_USER OR PERM_WRITEABLE)) (\<lambda>s.
        rbind (push_page_ws s e iVA) (\<lambda>s.
        rbind (if PDX iVA \<noteq> lastTableNumber then
                 rbind (addTableToTableWorkingSet s e (ROUNDDOWN iVA (PAGE_SIZE * 1024))) (\<lambda>s.
                 if table_last_WS_index (envs s e) = 0
                 then Inl (Panic ''env_create: Table working set become FULL during the application loading'')
                 else Inr s)
               else Inr s) (\<lambda>s.
        map_segment n (iVA + PAGE_SIZE) end_vaddr e (allocated_pages + 1) (PDX iVA) s))))
      else Inr (allocated_pages, lastTableNumber, s))"

text \<open>
  The copy goes on to the end of the mapped pages or of the segment in the file, whichever comes
  first; the rest of the mapped pages is cleared.
\<close>

definition program_segment_alloc_map_copy_workingset ::
  "kstate \<Rightarrow> nat \<Rightarrow> ProgramSegment \<Rightarrow> u32 \<Rightarrow> u32 \<Rightarrow> (u32 \<times> u32 \<times> kstate) result" where
  "program_segment_alloc_map_copy_workingset s e sg remaining_ws_pages lastTableNumber =
     (let vaddr = seg_virtual_address sg;
          end_vaddr = ROUNDUP (vaddr + size_in_memory sg) PAGE_SIZE;
          iVA = ROUNDDOWN vaddr PAGE_SIZE;
          remaining_ws_pages = (if iVA = 0x200000 \<and> prog_name (envs s e) \<noteq> ''tpp''
                                then min remaining_ws_pages 6 else remaining_ws_pages) in
      rbind (map_segment (unat remaining_ws_pages) iVA end_vaddr e 0 lastTableNumber s)
        (\<lambda>(allocated_pages, lastTableNumber, s).
      let mapped_end = iVA + allocated_pages * PAGE_SIZE;
          copy_end = min mapped_end (vaddr + size_in_file sg);
          copied = unat copy_end - unat vaddr in
      rbind (copy_bytes copied vaddr (ptr_start sg) s) (\<lambda>s.
      rbind (zero_bytes (unat mapped_end - (unat vaddr + copied)) (vaddr + of_nat copied) s) (\<lambda>s.
      Inr (allocated_pages, lastTableNumber, s)))))"

section \<open>The pages of a segment in the page file\<close>

definition page_file_full :: "kerror" where
  "page_file_full = Panic ''ERROR: Page File OUT OF SPACE. can't load the program in Page file!!''"

definition pf_add_or_panic :: "(u32 \<times> kstate) result \<Rightarrow> kstate result" where
  "pf_add_or_panic r = rbind r (\<lambda>(code, s). if code = E_NO_PAGE_FILE_SPACE then Inl page_file_full else Inr s)"

fun write_middle :: "nat \<Rightarrow> u32 \<Rightarrow> u32 \<Rightarrow> nat \<Rightarrow> kstate \<Rightarrow> kstate result" where
  "write_middle 0 i src e s = Inr s"
| "write_middle (Suc n) i src e s =
     rbind (pf_add_or_panic (pf_add_env_page s e i src)) (\<lambda>s.
     write_middle n (i + PAGE_SIZE) (src + PAGE_SIZE) e s)"

fun write_zeros :: "nat \<Rightarrow> u32 \<Rightarrow> nat \<Rightarrow> kstate \<Rightarrow> kstate result" where
  "write_zeros 0 va e s = Inr s"
| "write_zeros (Suc n) va e s =
     rbind (pf_add_or_panic (pf_add_empty_env_page s e va 1)) (\<lambda>s. write_zeros n (va + PAGE_SIZE) e s)"

text \<open>
  The number of rounds of a loop that steps from \<open>a\<close> to below \<open>b\<close> by pages, both multiples of the
  page size.
\<close>

definition page_steps :: "u32 \<Rightarrow> u32 \<Rightarrow> nat" where
  "page_steps a b = (unat b - unat a) div unat PAGE_SIZE"

definition segment_to_page_file :: "kstate \<Rightarrow> nat \<Rightarrow> ProgramSegment \<Rightarrow> kstate result" where
  "segment_to_page_file s e sg =
     (let seg_va = seg_virtual_address sg; src = ptr_start sg;
          start_first_page = ROUNDDOWN seg_va PAGE_SIZE;
          end_first_page = ROUNDUP seg_va PAGE_SIZE;
          first = unat end_first_page - unat seg_va in
      rbind (kfill s ptr_temp_page (\<lambda>_. 0)) (\<lambda>s.
      rbind (copy_bytes first (ptr_temp_page + (seg_va - start_first_page)) src s) (\<lambda>s.
      rbind (pf_add_or_panic (pf_add_env_page s e start_first_page ptr_temp_page)) (\<lambda>s.
      let src = src + of_nat first;
          start_last_page = ROUNDDOWN (seg_va + size_in_file sg) PAGE_SIZE;
          end_last_page = seg_va + size_in_file sg;
          middle = page_steps end_first_page start_last_page in
      rbind (write_middle middle end_first_page src e s) (\<lambda>s.
      let src = src + of_nat middle * PAGE_SIZE in
      rbind (kfill s ptr_temp_page (\<lambda>_. 0)) (\<lambda>s.
      rbind (copy_bytes (unat end_last_page - unat start_last_page) ptr_temp_page src s) (\<lambda>s.
      rbind (pf_add_or_panic (pf_add_env_page s e start_last_page ptr_temp_page)) (\<lambda>s.
      let start_remaining_area = ROUNDUP (seg_va + size_in_file sg) PAGE_SIZE;
          remainingLength = (seg_va + size_in_memory sg) - start_remaining_area in
      write_zeros (page_steps 0 (ROUNDUP remainingLength PAGE_SIZE)) start_remaining_area e s))))))))"

section \<open>Creating an environment\<close>

fun load_segments :: "ProgramSegment list \<Rightarrow> nat \<Rightarrow> u32 \<Rightarrow> u32 \<Rightarrow> kstate \<Rightarrow> kstate result" where
  "load_segments [] e remaining_ws_pages lastTableNumber s = Inr s"
| "load_segments (sg # segs) e remaining_ws_pages lastTableNumber s =
     rbind (program_segment_alloc_map_copy_workingset s e sg remaining_ws_pages lastTableNumber)
       (\<lambda>(allocated_pages, lastTableNumber, s).
     rbind (segment_to_page_file s e sg) (\<lambda>s.
     load_segments segs e (remaining_ws_pages - allocated_pages) lastTableNumber s))"

text \<open>The modified bit of every resident page is cleared.\<close>

fun clear_modified :: "nat \<Rightarrow> u32 \<Rightarrow> nat \<Rightarrow> kstate \<Rightarrow> kstate result" where
  "clear_modified 0 i e s = Inr s"
| "clear_modified (Suc n) i e s =
     rbind (ws_read ''ptr_pageWorkingSet'' (pageWorkingSet (envs s e)) i) (\<lambda>w.
     rbind (if ws_empty w = 0 then
              let va = ws_virtual_address w in
              rbind (get_page_table s (env_page_directory (envs s e)) va) (\<lambda>(_, pt).
              rbind (kload s pt (PTX va)) (\<lambda>pte. kstore s pt (PTX va) (pte AND NOT PERM_MODIFIED)))
            else Inr s) (\<lambda>s.
     clear_modified n (i + 1) e s))"

definition map_stack :: "kstate \<Rightarrow> nat \<Rightarrow> kstate result" where
  "map_stack s e =
     (let stackVa = USTACKTOP - PAGE_SIZE in
      rbind (allocate_frame s) (\<lambda>(pp, s).
      rbind (loadtime_map_frame s (env_page_directory (envs s e)) pp stackVa (PERM_USER OR PERM_WRITEABLE)) (\<lambda>s.
      rbind (zero_bytes (unat PAGE_SIZE) stackVa s) (\<lambda>s.
      rbind (env_page_ws_set_entry s e (page_last_WS_index (envs s e)) stackVa) (\<lambda>s.
      let s = upd_env s e (\<lambda>env. env\<lparr>page_last_WS_index :=
                (page_last_WS_index env + 1) mod page_WS_max_size env\<rparr>) in
      rbind (pf_add_empty_env_page s e stackVa 1) (\<lambda>(_, s). Inr s))))))"

definition env_create :: "images \<Rightarrow> kstate \<Rightarrow> string \<Rightarrow> u32 \<Rightarrow> (nat option \<times> kstate) result" where
  "env_create prog s user_program_name page_WS_size =
     (case get_user_program_info user_program_name of
        None \<Rightarrow> Inr (None, s)
      | Some name \<Rightarrow>
          let (ptr_program_start, elf) = prog name in
          (case allocate_environment s of
             (Inl _, s) \<Rightarrow> Inr (None, s)
           | (Inr e, s) \<Rightarrow>
               let s = upd_env s e (\<lambda>env. env\<lparr>prog_name := name\<rparr>) in
               rbind (create_user_directory s) (\<lambda>(dir, s).
               rbind (kheap_physical_address s dir) (\<lambda>phys_dir.
               let s = upd_env s e (\<lambda>env. env\<lparr>page_WS_max_size := page_WS_size\<rparr>) in
               rbind (initialize_environment s e dir phys_dir) (\<lambda>s.
               let kern_phys_pgdir = reg_cr3 s; s = s\<lparr>reg_cr3 := env_cr3 (envs s e)\<rparr> in
               rbind (PROGRAM_SEGMENT_FOREACH elf ptr_program_start) (\<lambda>segs.
               rbind (load_segments segs e (page_WS_max_size (envs s e) - 1) 0xFFFFFFFF s) (\<lambda>s.
               rbind (clear_modified (unat (page_WS_max_size (envs s e))) 0 e s) (\<lambda>s.
               rbind (set_environment_entry_point s e elf) (\<lambda>s.
               rbind (map_stack s e) (\<lambda>s.
               Inr (Some e, s\<lparr>reg_cr3 := kern_phys_pgdir\<rparr>)))))))))))"

section \<open>The segments of a program\<close>

text \<open>The loadable headers from index \<open>i\<close> on.\<close>

definition loads_from :: "Elf \<Rightarrow> nat \<Rightarrow> u32 list" where
  "loads_from elf i = filter (\<lambda>j. p_type (e_ph elf j) = ELF_PROG_LOAD) (map of_nat [i..<unat (phnum elf)])"

lemma loads_from_step:
  "i < unat (phnum elf) \<Longrightarrow> loads_from elf i =
     (if p_type (e_ph elf (of_nat i)) = ELF_PROG_LOAD then of_nat i # loads_from elf (Suc i) else loads_from elf (Suc i))"
  by (simp add: loads_from_def upt_conv_Cons)

lemma loads_from_end: "unat (phnum elf) \<le> i \<Longrightarrow> loads_from elf i = []"
  by (simp add: loads_from_def)

lemma next_load_spec:
  "loads_from elf (unat i) = (if next_load elf i < phnum elf
     then next_load elf i # loads_from elf (Suc (unat (next_load elf i))) else [])
   \<and> i \<le> next_load elf i"
proof (induction elf i rule: next_load.induct)
  case (1 elf i)
  show ?case
  proof (cases "i < phnum elf")
    case True
    then have u: "unat i < unat (phnum elf)" by (simp add: word_less_nat_alt)
    show ?thesis
    proof (cases "p_type (e_ph elf i) = ELF_PROG_LOAD")
      case load: True
      then have "next_load elf i = i" by (subst next_load.simps) simp
      then show ?thesis using True load loads_from_step [OF u] by simp
    next
      case False
      then have n: "next_load elf i = next_load elf (i + 1)" using True by (subst next_load.simps) simp
      have i1: "unat (i + 1) = Suc (unat i)" using unat_plus1_less [OF True] by simp
      then have "loads_from elf (unat (i + 1)) = loads_from elf (unat i)" using loads_from_step [OF u] False by simp
      moreover have "i \<le> i + 1" using i1 by (simp add: word_le_nat_alt)
      ultimately show ?thesis using 1 False True n by (auto intro: order_trans)
    qed
  next
    case False
    then have "next_load elf i = i" by (subst next_load.simps) simp
    then show ?thesis using False loads_from_end [of elf "unat i"] by (simp add: word_less_nat_alt)
  qed
qed


lemma segments_from_loads:
  assumes "e_magic elf = ELF_MAGIC" and "unat (phnum elf) - unat i \<le> fuel"
  shows "segments_from fuel (if next_load elf i < phnum elf then Some (segment_at elf start (next_load elf i)) else None) elf start
    = Inr (map (segment_at elf start) (loads_from elf (unat i)))"
  using assms(2)
proof (induction fuel arbitrary: i)
  case 0
  then have "loads_from elf (unat i) = []" by (simp add: loads_from_end)
  then show ?case using next_load_spec [of elf i] by (auto split: if_splits)
next
  case (Suc fuel)
  let ?j = "next_load elf i"
  show ?case
  proof (cases "?j < phnum elf")
    case True
    then have j: "unat (?j + 1) = Suc (unat ?j)" using unat_plus1_less by simp
    have "i \<le> ?j" using next_load_spec [of elf i] by simp
    then have "unat (phnum elf) - unat (?j + 1) \<le> fuel"
      using Suc.prems True j by (simp add: word_le_nat_alt word_less_nat_alt)
    note IH = Suc.IH [OF this]
    have "PROGRAM_SEGMENT_NEXT (segment_at elf start ?j) elf start
        = Inr (if next_load elf (?j + 1) < phnum elf then Some (segment_at elf start (next_load elf (?j + 1))) else None)"
      using assms(1) by (simp add: PROGRAM_SEGMENT_NEXT_def segment_at_def Let_def)
    then show ?thesis using True IH next_load_spec [of elf i] j by simp
  next
    case False
    then show ?thesis using next_load_spec [of elf i] by simp
  qed
qed

text \<open>
  PROGRAM_SEGMENT_FOREACH visits exactly the loadable program headers, each once and in the order
  of the table, and ends.
\<close>

theorem program_segments_visited:
  assumes "e_magic elf = ELF_MAGIC"
  shows "PROGRAM_SEGMENT_FOREACH elf start = Inr (map (segment_at elf start)
    (filter (\<lambda>i. p_type (e_ph elf i) = ELF_PROG_LOAD) (map of_nat [0..<unat (phnum elf)])))"
  using segments_from_loads [OF assms, of 0 "unat (phnum elf)" start] assms
  by (simp add: PROGRAM_SEGMENT_FOREACH_def PROGRAM_SEGMENT_FIRST_def Let_def loads_from_def)

definition sample_elf :: Elf where
  "sample_elf = \<lparr>e_magic = ELF_MAGIC, e_entry = 0x800020, e_phnum = 3,
     e_ph = (\<lambda>i. \<lparr>p_type = (if i = 1 then 6 else 1), p_offset = 0x1000 * i, p_va = 0x200000 + 0x600000 * i,
                  p_filesz = 0x100, p_memsz = 0x200\<rparr>)\<rparr>"

theorem program_segments_visited_witness:
  "PROGRAM_SEGMENT_FOREACH sample_elf 0xF0150000 = Inr (map (segment_at sample_elf 0xF0150000)
    (filter (\<lambda>i. p_type (e_ph sample_elf i) = ELF_PROG_LOAD) (map of_nat [0..<unat (phnum sample_elf)])))"
  by (rule program_segments_visited) (simp add: sample_elf_def)

end
