(* ===== verification/FOS_Syscall.thy ===== *)
theory FOS_Syscall
  imports FOS_Sched FOS_Load
begin

text \<open>
  The system calls of kern/syscall.c, with the semaphores and shared objects behind them
  (kern/semaphore_manager.c, kern/shared_memory_manager.c, most of which panic as not required). The
  record \<open>sys_context\<close> holds what the calls read and nothing in the kernel changes: the tables of
  semaphores and shared objects, which no operation extends, the program images, and what the
  keyboard and the time-stamp counter answer.
\<close>

section \<open>Numbers and context\<close>

text \<open>The enumeration of inc/syscall.h.\<close>

definition SYS_cputs :: u32 where "SYS_cputs = 0"
definition SYS_cgetc :: u32 where "SYS_cgetc = 1"
definition SYS_getenvid :: u32 where "SYS_getenvid = 2"
definition SYS_env_destroy :: u32 where "SYS_env_destroy = 3"
definition SYS_env_exit :: u32 where "SYS_env_exit = 4"
definition SYS_allocate_page :: u32 where "SYS_allocate_page = 5"
definition SYS_map_frame :: u32 where "SYS_map_frame = 6"
definition SYS_unmap_frame :: u32 where "SYS_unmap_frame = 7"
definition SYS_calc_req_frames :: u32 where "SYS_calc_req_frames = 8"
definition SYS_calc_free_frames :: u32 where "SYS_calc_free_frames = 9"
definition SYS_calc_modified_frames :: u32 where "SYS_calc_modified_frames = 10"
definition SYS_calc_notmod_frames :: u32 where "SYS_calc_notmod_frames = 11"
definition SYS_pf_calc_allocated_pages :: u32 where "SYS_pf_calc_allocated_pages = 12"
definition SYS_freeMem :: u32 where "SYS_freeMem = 13"
definition SYS_allocateMem :: u32 where "SYS_allocateMem = 14"
definition SYS_moveMem :: u32 where "SYS_moveMem = 15"
definition SYS_disableINTR :: u32 where "SYS_disableINTR = 16"
definition SYS_enableINTR :: u32 where "SYS_enableINTR = 17"
definition SYS_cputc :: u32 where "SYS_cputc = 18"
definition SYS_clearFFL :: u32 where "SYS_clearFFL = 19"
definition SYS_create_semaphore :: u32 where "SYS_create_semaphore = 20"
definition SYS_wait_semaphore :: u32 where "SYS_wait_semaphore = 21"
definition SYS_signal_semaphore :: u32 where "SYS_signal_semaphore = 22"
definition SYS_get_semaphore_value :: u32 where "SYS_get_semaphore_value = 23"
definition SYS_create_shared_object :: u32 where "SYS_create_shared_object = 24"
definition SYS_get_shared_object :: u32 where "SYS_get_shared_object = 25"
definition SYS_free_shared_object :: u32 where "SYS_free_shared_object = 26"
definition SYS_get_current_shared_address :: u32 where "SYS_get_current_shared_address = 27"
definition SYS_get_max_shares :: u32 where "SYS_get_max_shares = 28"
definition SYS_create_env :: u32 where "SYS_create_env = 29"
definition SYS_run_env :: u32 where "SYS_run_env = 30"
definition SYS_free_env :: u32 where "SYS_free_env = 31"
definition SYS_get_virtual_time :: u32 where "SYS_get_virtual_time = 32"
definition SYS_rcr2 :: u32 where "SYS_rcr2 = 33"
definition SYS_bypassPageFault :: u32 where "SYS_bypassPageFault = 34"
definition SYS_testNum :: u32 where "SYS_testNum = 35"
definition SYS_rsttst :: u32 where "SYS_rsttst = 36"
definition SYS_chktst :: u32 where "SYS_chktst = 37"
definition SYS_get_heap_strategy :: u32 where "SYS_get_heap_strategy = 38"
definition SYS_set_heap_strategy :: u32 where "SYS_set_heap_strategy = 39"
definition NSYSCALLS :: u32 where "NSYSCALLS = 40"

lemmas syscall_numbers [fos_consts] =
  SYS_cputs_def SYS_cgetc_def SYS_getenvid_def SYS_env_destroy_def
  SYS_env_exit_def SYS_allocate_page_def SYS_map_frame_def SYS_unmap_frame_def
  SYS_calc_req_frames_def SYS_calc_free_frames_def SYS_calc_modified_frames_def SYS_calc_notmod_frames_def
  SYS_pf_calc_allocated_pages_def SYS_freeMem_def SYS_allocateMem_def SYS_moveMem_def
  SYS_disableINTR_def SYS_enableINTR_def SYS_cputc_def SYS_clearFFL_def
  SYS_create_semaphore_def SYS_wait_semaphore_def SYS_signal_semaphore_def SYS_get_semaphore_value_def
  SYS_create_shared_object_def SYS_get_shared_object_def SYS_free_shared_object_def SYS_get_current_shared_address_def
  SYS_get_max_shares_def SYS_create_env_def SYS_run_env_def SYS_free_env_def
  SYS_get_virtual_time_def SYS_rcr2_def SYS_bypassPageFault_def SYS_testNum_def
  SYS_rsttst_def SYS_chktst_def SYS_get_heap_strategy_def SYS_set_heap_strategy_def
  NSYSCALLS_def

definition E_ENV_CREATION_ERROR :: u32 where "E_ENV_CREATION_ERROR = - 17"
definition MAX_SHARES :: u32 where "MAX_SHARES = 100"

record Semaphore =
  sem_env_queue :: "nat list"
  sem_value :: u32
  sem_name :: string

record Share =
  share_size :: u32
  share_name :: string
  share_references :: u32
  share_isWritable :: u8

record sys_context =
  sc_semaphores :: "Semaphore list"
  sc_shares :: "Share list"
  sc_programs :: images
  sc_key :: u32
  sc_time :: "u32 \<times> u32"

text \<open>The current environment, which most calls dereference.\<close>

definition current :: "kstate \<Rightarrow> nat result" where
  "current s = (case curenv s of None \<Rightarrow> Inl (Kernel_fault 0) | Some e \<Rightarrow> Inr e)"

text \<open>The string a user pointer designates, read byte by byte; it cannot be longer than memory.\<close>

fun read_string :: "nat \<Rightarrow> kstate \<Rightarrow> u32 \<Rightarrow> string result" where
  "read_string 0 s p = Inl Diverges"
| "read_string (Suc n) s p =
     rbind (cpu_load8 s p) (\<lambda>b.
     if b = 0 then Inr [] else rbind (read_string n s (p + 1)) (\<lambda>r. Inr (char_of (unat b) # r)))"

definition user_string :: "kstate \<Rightarrow> u32 \<Rightarrow> string result" where
  "user_string s p = read_string (2 ^ 32) s p"

section \<open>Environments\<close>

definition sys_getenvid :: "kstate \<Rightarrow> u32 result" where
  "sys_getenvid s = rbind (current s) (\<lambda>e. Inr (of_nat e))"

definition sys_env_destroy :: "kstate \<Rightarrow> u32 \<Rightarrow> (outcome \<times> u32 \<times> kstate) result" where
  "sys_env_destroy s envid =
     rbind (envid2env s envid False) (\<lambda>(r, eo).
       if sint r < 0 then Inr (Returns, r, s)
       else case eo of
              None \<Rightarrow> Inl (Kernel_fault 0)
            | Some e \<Rightarrow> rbind (sched_kill_env s (env_id (envs s e))) (\<lambda>(out, s). Inr (out, 0, s)))"

definition sys_create_env :: "sys_context \<Rightarrow> kstate \<Rightarrow> u32 \<Rightarrow> u32 \<Rightarrow> (u32 \<times> kstate) result" where
  "sys_create_env ctx s programName page_WS_size =
     rbind (user_string s programName) (\<lambda>name.
     rbind (env_create (sc_programs ctx) s name page_WS_size) (\<lambda>(eo, s).
       case eo of
         None \<Rightarrow> Inr (E_ENV_CREATION_ERROR, s)
       | Some e \<Rightarrow> let s = sched_new_env s (Some e) in Inr (env_id (envs s e), s)))"

section \<open>Memory\<close>

text \<open>
  __sys_allocate_page() takes the frame before it checks its arguments. It clears the frame through a
  temporary mapping at USER_LIMIT, with the reference count raised so that unmapping keeps the frame.
\<close>

definition sys_allocate_page :: "kstate \<Rightarrow> u32 \<Rightarrow> u32 \<Rightarrow> (u32 \<times> kstate) result" where
  "sys_allocate_page s va perm =
     rbind (current s) (\<lambda>e.
     rbind (allocate_frame s) (\<lambda>(f, s).
       if va \<ge> USER_TOP \<or> va mod PAGE_SIZE \<noteq> 0 then Inr (E_INVAL, s)
       else if perm AND (NOT PERM_AVAILABLE AND NOT PERM_WRITEABLE) \<noteq> PERM_USER then Inr (E_INVAL, s)
       else
         let dir = env_page_directory (envs s e) in
         rbind (map_frame s dir f USER_LIMIT PERM_WRITEABLE) (\<lambda>s.
         rbind (kfill s USER_LIMIT (\<lambda>_. 0)) (\<lambda>s.
         let s = set_references s f (references s f + 1) in
         rbind (unmap_frame s dir USER_LIMIT) (\<lambda>s.
         let s = set_references s f (references s f - 1) in
         rbind (map_frame s dir f va perm) (\<lambda>s. Inr (0, s)))))))"

definition sys_map_frame :: "kstate \<Rightarrow> u32 \<Rightarrow> u32 \<Rightarrow> u32 \<Rightarrow> u32 \<Rightarrow> u32 \<Rightarrow> kstate result" where
  "sys_map_frame s srcenvid srcva dstenvid dstva perm = Inl (Panic ''sys_map_frame not implemented'')"

definition sys_unmap_frame :: "kstate \<Rightarrow> u32 \<Rightarrow> u32 \<Rightarrow> kstate result" where
  "sys_unmap_frame s envid va = Inl (Panic ''sys_page_unmap not implemented'')"

definition sys_calculate_required_frames :: "kstate \<Rightarrow> u32 \<Rightarrow> u32 \<Rightarrow> u32 result" where
  "sys_calculate_required_frames s start sz =
     rbind (current s) (\<lambda>e. calculate_required_frames s (env_page_directory (envs s e)) start sz)"

definition sys_calculate_free_frames :: "kstate \<Rightarrow> u32" where
  "sys_calculate_free_frames s =
     (let counters = calculate_available_frames s in freeBuffered counters + freeNotBuffered counters)"

definition sys_calculate_modified_frames :: "kstate \<Rightarrow> u32" where
  "sys_calculate_modified_frames s = modified (calculate_available_frames s)"

definition sys_calculate_notmod_frames :: "kstate \<Rightarrow> u32" where
  "sys_calculate_notmod_frames s = freeBuffered (calculate_available_frames s)"

definition sys_pf_calculate_allocated_pages :: "kstate \<Rightarrow> u32 result" where
  "sys_pf_calculate_allocated_pages s = rbind (current s) (\<lambda>e. pf_calculate_allocated_pages s e)"

text \<open>__freeMem_with_buffering() is an empty function.\<close>

definition freeMem_with_buffering :: "kstate \<Rightarrow> nat \<Rightarrow> u32 \<Rightarrow> u32 \<Rightarrow> kstate result" where
  "freeMem_with_buffering s e va sz = Inr s"

definition sys_freeMem :: "kstate \<Rightarrow> u32 \<Rightarrow> u32 \<Rightarrow> kstate result" where
  "sys_freeMem s va sz =
     rbind (current s) (\<lambda>e.
       if EnableBuffering s \<noteq> 0 then freeMem_with_buffering s e va sz else freeMem s e va sz)"

definition sys_allocateMem :: "kstate \<Rightarrow> u32 \<Rightarrow> u32 \<Rightarrow> kstate result" where
  "sys_allocateMem s va sz = rbind (current s) (\<lambda>e. allocateMem s e va sz)"

definition sys_moveMem :: "kstate \<Rightarrow> u32 \<Rightarrow> u32 \<Rightarrow> u32 \<Rightarrow> kstate result" where
  "sys_moveMem s src dst sz = rbind (current s) (\<lambda>e. moveMem s e src dst sz)"

section \<open>Interrupts, time and faults\<close>

definition sys_disable_interrupt :: "kstate \<Rightarrow> kstate result" where
  "sys_disable_interrupt s =
     rbind (current s) (\<lambda>e. Inr (upd_env s e (\<lambda>env. env\<lparr>env_tf :=
       (env_tf env)\<lparr>tf_eflags := tf_eflags (env_tf env) AND NOT FL_IF\<rparr>\<rparr>)))"

definition sys_enable_interrupt :: "kstate \<Rightarrow> kstate result" where
  "sys_enable_interrupt s =
     rbind (current s) (\<lambda>e. Inr (upd_env s e (\<lambda>env. env\<lparr>env_tf :=
       (env_tf env)\<lparr>tf_eflags := tf_eflags (env_tf env) OR FL_IF\<rparr>\<rparr>)))"

text \<open>Storing a 32-bit word at a user address, byte by byte.\<close>

definition cpu_store32 :: "kstate \<Rightarrow> u32 \<Rightarrow> u32 \<Rightarrow> kstate result" where
  "cpu_store32 s p v =
     rbind (cpu_store8 s p (ucast v)) (\<lambda>s.
     rbind (cpu_store8 s (p + 1) (ucast (drop_bit 8 v))) (\<lambda>s.
     rbind (cpu_store8 s (p + 2) (ucast (drop_bit 16 v))) (\<lambda>s.
     cpu_store8 s (p + 3) (ucast (drop_bit 24 v)))))"

definition sys_get_virtual_time :: "sys_context \<Rightarrow> kstate \<Rightarrow> u32 \<Rightarrow> u32 \<Rightarrow> kstate result" where
  "sys_get_virtual_time ctx s ptrlow ptrhi =
     rbind (cpu_store32 s ptrlow (fst (sc_time ctx))) (\<lambda>s. cpu_store32 s ptrhi (snd (sc_time ctx)))"

definition sys_bypassPageFault :: "kstate \<Rightarrow> u8 \<Rightarrow> kstate" where
  "sys_bypassPageFault s instrLength = s\<lparr>bypassInstrLength := instrLength\<rparr>"

section \<open>Semaphores and shared objects\<close>

fun name_index :: "string list \<Rightarrow> string \<Rightarrow> nat option" where
  "name_index [] x = None"
| "name_index (y # ys) x = (if x = y then Some 0 else map_option Suc (name_index ys x))"

definition getSemaphoreNumber :: "sys_context \<Rightarrow> string \<Rightarrow> nat option" where
  "getSemaphoreNumber ctx name = name_index (map sem_name (sc_semaphores ctx)) name"

definition getShareNumber :: "sys_context \<Rightarrow> string \<Rightarrow> nat option" where
  "getShareNumber ctx name = name_index (map share_name (sc_shares ctx)) name"

definition createSemaphore :: "kstate \<Rightarrow> u32 \<Rightarrow> u32 \<Rightarrow> u32 result" where
  "createSemaphore s semaphoreName initialValue = Inl (Panic ''This function is not required'')"

definition waitSemaphore :: "kstate \<Rightarrow> u32 \<Rightarrow> kstate result" where
  "waitSemaphore s semaphoreName = Inl (Panic ''This function is not required'')"

definition signalSemaphore :: "kstate \<Rightarrow> u32 \<Rightarrow> kstate result" where
  "signalSemaphore s semaphoreName = Inl (Panic ''This function is not required'')"

definition createSharedObject :: "kstate \<Rightarrow> u32 \<Rightarrow> u32 \<Rightarrow> u8 \<Rightarrow> u32 \<Rightarrow> u32 result" where
  "createSharedObject s shareName sz isWritable returned_shared_address =
     Inl (Panic ''This function is not required'')"

definition getSharedObject :: "kstate \<Rightarrow> u32 \<Rightarrow> u32 \<Rightarrow> u32 result" where
  "getSharedObject s shareName returned_shared_address = Inl (Panic ''This function is not required'')"

definition freeSharedObject :: "kstate \<Rightarrow> u32 \<Rightarrow> u32 result" where
  "freeSharedObject s shareName = Inl (Panic ''This function is not required'')"

definition sys_getSemaphoreValue :: "sys_context \<Rightarrow> kstate \<Rightarrow> u32 \<Rightarrow> u32 result" where
  "sys_getSemaphoreValue ctx s semaphoreName =
     rbind (user_string s semaphoreName) (\<lambda>name.
       case getSemaphoreNumber ctx name of
         None \<Rightarrow> Inl (Assert_failure ''semNo>=0 && semNo < nSemaphores'')
       | Some semNo \<Rightarrow> Inr (sem_value (sc_semaphores ctx ! semNo)))"

definition sys_getCurrentSharedAddress :: "kstate \<Rightarrow> u32 result" where
  "sys_getCurrentSharedAddress s = rbind (current s) (\<lambda>e. Inr (shared_free_address (envs s e)))"

section \<open>Counters of the test programs and the heap strategy\<close>

definition rsttst :: "kstate \<Rightarrow> kstate" where
  "rsttst s = s\<lparr>tstcnt := 0\<rparr>"

text \<open>The comparison is chosen by the character l, g, e or b.\<close>

definition tst :: "kstate \<Rightarrow> u32 \<Rightarrow> u32 \<Rightarrow> u32 \<Rightarrow> u8 \<Rightarrow> u32 \<Rightarrow> kstate result" where
  "tst s n v1 v2 c invert =
     (let chk = (if c = 0x6C then n < v1 \<or> invert \<noteq> 0
                 else if c = 0x67 then n > v1 \<or> invert \<noteq> 0
                 else if c = 0x65 then n = v1 \<or> invert \<noteq> 0
                 else if c = 0x62 then n \<ge> v1 \<and> n \<le> v1
                 else False)
      in if \<not> chk then Inl (Panic ''Error!! test fails'') else Inr (s\<lparr>tstcnt := tstcnt s + 1\<rparr>))"

definition chktst :: "kstate \<Rightarrow> u32 \<Rightarrow> kstate result" where
  "chktst s n = (if tstcnt s = n then Inr s else Inl (Panic ''Error!! test fails at final''))"

definition sys_get_heap_strategy :: "kstate \<Rightarrow> u32" where
  "sys_get_heap_strategy s = UHeapPlacementStrategy s"

definition sys_set_uheap_strategy :: "kstate \<Rightarrow> u32 \<Rightarrow> kstate" where
  "sys_set_uheap_strategy s heapStrategy = s\<lparr>UHeapPlacementStrategy := heapStrategy\<rparr>"

section \<open>Dispatch\<close>

text \<open>
  How a call ends: without a value, which is 0; with a value; or through the scheduler, which may not
  come back.
\<close>

definition returning :: "kstate \<Rightarrow> (outcome \<times> u32 \<times> kstate) result" where
  "returning s = Inr (Returns, 0, s)"

definition no_value :: "kstate result \<Rightarrow> (outcome \<times> u32 \<times> kstate) result" where
  "no_value r = rbind r (\<lambda>s. Inr (Returns, 0, s))"

definition value_of :: "kstate \<Rightarrow> u32 result \<Rightarrow> (outcome \<times> u32 \<times> kstate) result" where
  "value_of s r = rbind r (\<lambda>v. Inr (Returns, v, s))"

definition leaving :: "(outcome \<times> kstate) result \<Rightarrow> (outcome \<times> u32 \<times> kstate) result" where
  "leaving r = rbind r (\<lambda>(out, s). Inr (out, 0, s))"

definition syscall ::
  "sys_context \<Rightarrow> kstate \<Rightarrow> u32 \<Rightarrow> u32 \<Rightarrow> u32 \<Rightarrow> u32 \<Rightarrow> u32 \<Rightarrow> u32 \<Rightarrow> (outcome \<times> u32 \<times> kstate) result" where
  "syscall ctx s syscallno a1 a2 a3 a4 a5 =
     (if syscallno = SYS_cputs then returning s
      else if syscallno = SYS_cgetc then Inr (Returns, sc_key ctx, s)
      else if syscallno = SYS_getenvid then value_of s (sys_getenvid s)
      else if syscallno = SYS_env_destroy then sys_env_destroy s a1
      else if syscallno = SYS_env_exit then leaving (env_exit s)
      else if syscallno = SYS_calc_req_frames then value_of s (sys_calculate_required_frames s a1 a2)
      else if syscallno = SYS_calc_free_frames then Inr (Returns, sys_calculate_free_frames s, s)
      else if syscallno = SYS_calc_modified_frames then Inr (Returns, sys_calculate_modified_frames s, s)
      else if syscallno = SYS_calc_notmod_frames then Inr (Returns, sys_calculate_notmod_frames s, s)
      else if syscallno = SYS_pf_calc_allocated_pages then value_of s (sys_pf_calculate_allocated_pages s)
      else if syscallno = SYS_freeMem then no_value (sys_freeMem s a1 a2)
      else if syscallno = SYS_allocate_page then rbind (sys_allocate_page s a1 a2) (\<lambda>(_, s). returning s)
      else if syscallno = SYS_map_frame then no_value (sys_map_frame s a1 a2 a3 a4 a5)
      else if syscallno = SYS_unmap_frame then no_value (sys_unmap_frame s a1 a2)
      else if syscallno = SYS_allocateMem then no_value (sys_allocateMem s a1 a2)
      else if syscallno = SYS_disableINTR then no_value (sys_disable_interrupt s)
      else if syscallno = SYS_enableINTR then no_value (sys_enable_interrupt s)
      else if syscallno = SYS_cputc then returning s
      else if syscallno = SYS_clearFFL then no_value (sys_clearFFL s)
      else if syscallno = SYS_create_semaphore then value_of s (createSemaphore s a1 a2)
      else if syscallno = SYS_wait_semaphore then no_value (waitSemaphore s a1)
      else if syscallno = SYS_signal_semaphore then no_value (signalSemaphore s a1)
      else if syscallno = SYS_get_semaphore_value then value_of s (sys_getSemaphoreValue ctx s a1)
      else if syscallno = SYS_create_shared_object then value_of s (createSharedObject s a1 a2 (ucast a3) a4)
      else if syscallno = SYS_get_shared_object then value_of s (getSharedObject s a1 a2)
      else if syscallno = SYS_free_shared_object then value_of s (freeSharedObject s a1)
      else if syscallno = SYS_get_current_shared_address then value_of s (sys_getCurrentSharedAddress s)
      else if syscallno = SYS_get_max_shares then Inr (Returns, MAX_SHARES, s)
      else if syscallno = SYS_create_env then rbind (sys_create_env ctx s a1 a2) (\<lambda>(r, s). Inr (Returns, r, s))
      else if syscallno = SYS_free_env then leaving (sched_kill_env s a1)
      else if syscallno = SYS_run_env then leaving (Inr (sched_run_env s a1))
      else if syscallno = SYS_get_virtual_time then no_value (sys_get_virtual_time ctx s a1 a2)
      else if syscallno = SYS_moveMem then no_value (sys_moveMem s a1 a2 a3)
      else if syscallno = SYS_rcr2 then Inr (Returns, reg_cr2 s, s)
      else if syscallno = SYS_bypassPageFault then returning (sys_bypassPageFault s (ucast a1))
      else if syscallno = SYS_rsttst then returning (rsttst s)
      else if syscallno = SYS_chktst then no_value (chktst s a1)
      else if syscallno = SYS_testNum then no_value (tst s a1 a2 a3 (ucast a4) a5)
      else if syscallno = SYS_get_heap_strategy then Inr (Returns, sys_get_heap_strategy s, s)
      else if syscallno = SYS_set_heap_strategy then returning (sys_set_uheap_strategy s a1)
      else Inr (Returns, - E_INVAL, s))"

end
