(* ===== verification/FOS_Trap.thy ===== *)
theory FOS_Trap
  imports FOS_Syscall
begin

text \<open>
  The entry points of kern/trap.c: trap(), which every exception, interrupt and system call goes
  through, trap_dispatch(), the settings of the replacement algorithm and of buffering, and the check
  for a cycle in the modified list.
\<close>

section \<open>Trap numbers\<close>

definition T_DBLFLT :: u32 where "T_DBLFLT = 8"
definition T_PGFLT :: u32 where "T_PGFLT = 14"
definition IRQ0_Clock :: u32 where "IRQ0_Clock = 32"
definition T_SYSCALL :: u32 where "T_SYSCALL = 48"

lemmas trap_numbers [fos_consts] = T_DBLFLT_def T_PGFLT_def IRQ0_Clock_def T_SYSCALL_def

section \<open>Settings\<close>

definition setPageReplacmentAlgorithmLRU :: "kstate \<Rightarrow> kstate" where
  "setPageReplacmentAlgorithmLRU s = s\<lparr>PageRepAlgoType := PG_REP_LRU\<rparr>"

definition setPageReplacmentAlgorithmCLOCK :: "kstate \<Rightarrow> kstate" where
  "setPageReplacmentAlgorithmCLOCK s = s\<lparr>PageRepAlgoType := PG_REP_CLOCK\<rparr>"

definition setPageReplacmentAlgorithmFIFO :: "kstate \<Rightarrow> kstate" where
  "setPageReplacmentAlgorithmFIFO s = s\<lparr>PageRepAlgoType := PG_REP_FIFO\<rparr>"

definition setPageReplacmentAlgorithmModifiedCLOCK :: "kstate \<Rightarrow> kstate" where
  "setPageReplacmentAlgorithmModifiedCLOCK s = s\<lparr>PageRepAlgoType := PG_REP_MODIFIEDCLOCK\<rparr>"

definition isPageReplacmentAlgorithmLRU :: "kstate \<Rightarrow> bool" where
  "isPageReplacmentAlgorithmLRU s \<longleftrightarrow> PageRepAlgoType s = PG_REP_LRU"

definition isPageReplacmentAlgorithmCLOCK :: "kstate \<Rightarrow> bool" where
  "isPageReplacmentAlgorithmCLOCK s \<longleftrightarrow> PageRepAlgoType s = PG_REP_CLOCK"

definition isPageReplacmentAlgorithmFIFO :: "kstate \<Rightarrow> bool" where
  "isPageReplacmentAlgorithmFIFO s \<longleftrightarrow> PageRepAlgoType s = PG_REP_FIFO"

definition isPageReplacmentAlgorithmModifiedCLOCK :: "kstate \<Rightarrow> bool" where
  "isPageReplacmentAlgorithmModifiedCLOCK s \<longleftrightarrow> PageRepAlgoType s = PG_REP_MODIFIEDCLOCK"

definition enableModifiedBuffer :: "kstate \<Rightarrow> u32 \<Rightarrow> kstate" where
  "enableModifiedBuffer s enableIt = s\<lparr>EnableModifiedBuffer := enableIt\<rparr>"

definition enableBuffering :: "kstate \<Rightarrow> u32 \<Rightarrow> kstate" where
  "enableBuffering s enableIt = s\<lparr>EnableBuffering := enableIt\<rparr>"

definition setModifiedBufferLength :: "kstate \<Rightarrow> u32 \<Rightarrow> kstate" where
  "setModifiedBufferLength s len = s\<lparr>ModifiedBufferLength := len\<rparr>"

definition isModifiedBufferEnabled :: "kstate \<Rightarrow> u32" where
  "isModifiedBufferEnabled s = EnableModifiedBuffer s"

definition isBufferingEnabled :: "kstate \<Rightarrow> u32" where
  "isBufferingEnabled s = EnableBuffering s"

definition getModifiedBufferLength :: "kstate \<Rightarrow> u32" where
  "getModifiedBufferLength s = ModifiedBufferLength s"

section \<open>The cycle check\<close>

text \<open>
  detect_modified_loop() moves a fast pointer two links for every link of a slow one; \<open>nx\<close> is
  LIST_NEXT. The result says whether the two met. Both start at the first element.
\<close>

partial_function (option) detect_loop :: "('a \<Rightarrow> 'a option) \<Rightarrow> 'a option \<Rightarrow> 'a option \<Rightarrow> bool option" where
  "detect_loop nx slowPtr fastPtr =
     (case (slowPtr, fastPtr) of
        (Some slow, Some fast) \<Rightarrow>
          (case nx fast of
             None \<Rightarrow> Some False
           | Some fast \<Rightarrow>
               if fast = slow then Some True
               else
                 let fastPtr = nx fast in
                 if fastPtr = Some slow then Some True else detect_loop nx (nx slow) fastPtr)
      | _ \<Rightarrow> Some False)"

definition detect_modified_loop :: "'a list_state \<Rightarrow> bool option" where
  "detect_modified_loop l = detect_loop (le_next l) (lh_first l) (lh_first l)"

section \<open>Traps\<close>

text \<open>
  Where the trap frame is: copied into the current environment when the trap came from user mode, on
  the kernel stack otherwise.
\<close>

datatype frame_place = In_env nat | On_stack Trapframe

fun frame_of :: "kstate \<Rightarrow> frame_place \<Rightarrow> Trapframe" where
  "frame_of s (In_env e) = env_tf (envs s e)"
| "frame_of s (On_stack tf) = tf"

fun set_eax :: "kstate \<Rightarrow> frame_place \<Rightarrow> u32 \<Rightarrow> kstate" where
  "set_eax s (In_env e) v = upd_env s e (\<lambda>env. env\<lparr>env_tf :=
     (env_tf env)\<lparr>tf_regs := (tf_regs (env_tf env))\<lparr>reg_eax := v\<rparr>\<rparr>\<rparr>)"
| "set_eax s (On_stack tf) v = s"

definition trap_dispatch :: "sys_context \<Rightarrow> kstate \<Rightarrow> frame_place \<Rightarrow> (outcome \<times> kstate) result" where
  "trap_dispatch ctx s tfp =
     (let tf = frame_of s tfp in
      if tf_trapno tf = T_PGFLT then
        rbind (if isPageReplacmentAlgorithmLRU s then update_WS_time_stamps s else Inr s) (\<lambda>s.
        rbind (fault_handler s) (\<lambda>s. Inr (Returns, s)))
      else if tf_trapno tf = T_SYSCALL then
        rbind (syscall ctx s (reg_eax (tf_regs tf)) (reg_edx (tf_regs tf)) (reg_ecx (tf_regs tf))
                 (reg_ebx (tf_regs tf)) (reg_edi (tf_regs tf)) (reg_esi (tf_regs tf))) (\<lambda>(out, ret, s).
          if out = Returns then Inr (Returns, set_eax s tfp ret) else Inr (out, s))
      else if tf_trapno tf = T_DBLFLT then Inl (Panic ''double fault!!'')
      else if tf_trapno tf = IRQ0_Clock then clock_interrupt_handler s
      else if tf_cs tf = GD_KT then Inl (Panic ''unhandled trap in kernel'')
      else Inr (Returns, s))"

text \<open>
  How trap() ends: an environment runs, the prompt reads commands, or the kernel code that trapped is
  resumed from a trap frame.
\<close>

datatype trap_end = Control outcome | Resume_kernel Trapframe

definition trap :: "sys_context \<Rightarrow> kstate \<Rightarrow> Trapframe \<Rightarrow> (trap_end \<times> kstate) result" where
  "trap ctx s tf =
     (let userTrap = (tf_cs tf AND 3 = 3) in
      rbind (if userTrap then
               (case curenv s of
                  None \<Rightarrow> Inl (Assert_failure ''curenv'')
                | Some e \<Rightarrow> Inr (In_env e, upd_env s e (\<lambda>env. env\<lparr>env_tf := tf\<rparr>)))
             else Inr (On_stack tf, s)) (\<lambda>(tfp, s).
      if tf_trapno tf = T_PGFLT \<and> bypassInstrLength s \<noteq> 0 then
        (case tfp of
           In_env e \<Rightarrow>
             let s = upd_env s e (\<lambda>env. env\<lparr>env_tf := (env_tf env)\<lparr>tf_eip :=
                       tf_eip (env_tf env) + ucast (bypassInstrLength s)\<rparr>\<rparr>)
             in Inr (Control (Runs e), env_run s e)
         | On_stack tf \<Rightarrow>
             Inr (Resume_kernel (tf\<lparr>tf_eip := tf_eip tf + ucast (bypassInstrLength s)\<rparr>), s))
      else
        rbind (trap_dispatch ctx s tfp) (\<lambda>(out, s).
          if out \<noteq> Returns then Inr (Control out, s)
          else case curenv s of
                 None \<Rightarrow> Inl (Assert_failure ''curenv && curenv->env_status == ENV_READY'')
               | Some e \<Rightarrow>
                   if env_status (envs s e) \<noteq> ENV_READY
                   then Inl (Assert_failure ''curenv && curenv->env_status == ENV_READY'')
                   else Inr (Control (Runs e), env_run s e))))"

section \<open>The cycle check ends\<close>

text \<open>The element \<open>k\<close> links after the pointer \<open>p\<close>.\<close>

primrec chain :: "('a \<Rightarrow> 'a option) \<Rightarrow> 'a option \<Rightarrow> nat \<Rightarrow> 'a option" where
  "chain nx p 0 = p"
| "chain nx p (Suc k) = Option.bind (chain nx p k) nx"

lemma chain_add: "chain nx (chain nx p a) b = chain nx p (a + b)"
  by (induction b) simp_all

lemma chain_None_mono: "chain nx p a = None \<Longrightarrow> a \<le> b \<Longrightarrow> chain nx p b = None"
proof (induction b)
  case (Suc b)
  then show ?case by (cases "a = Suc b") simp_all
qed simp

lemma chain_period:
  assumes "chain nx p a = chain nx p (a + d)" and "a \<le> k"
  shows "chain nx p (k + j * d) = chain nx p k"
proof (induction j)
  case (Suc j)
  have "chain nx p (k + j * d) = chain nx (chain nx p a) (k + j * d - a)" using assms(2) by (simp add: chain_add)
  also have "\<dots> = chain nx p (k + Suc j * d)" using assms by (simp add: chain_add algebra_simps)
  finally show ?case using Suc by simp
qed simp

lemma chain_ends_distinct:
  assumes "chain nx p n = None" and "a < b" and "chain nx p a = Some x"
  shows "chain nx p b \<noteq> Some x"
proof
  assume "chain nx p b = Some x"
  then have "chain nx p a = chain nx p (a + (b - a))" using assms(2,3) by simp
  then have "chain nx p (a + n * (b - a)) = Some x" using chain_period [where j = n and k = a] assms(3) by fastforce
  moreover have "n \<le> a + n * (b - a)" using assms(2) by (cases "b - a") auto
  ultimately show False using chain_None_mono [OF assms(1)] by fastforce
qed

text \<open>In round \<open>k\<close> the slow pointer is \<open>k\<close> and the fast pointer \<open>2 * k\<close> links from the start.\<close>

lemma detect_round:
  "detect_loop nx (chain nx p k) (chain nx p (2 * k)) =
     (if chain nx p k = None \<or> chain nx p (Suc (2 * k)) = None then Some False
      else if chain nx p (Suc (2 * k)) = chain nx p k \<or> chain nx p (2 * Suc k) = chain nx p k then Some True
      else detect_loop nx (chain nx p (Suc k)) (chain nx p (2 * Suc k)))"
  by (subst detect_loop.simps) (auto split: option.splits bind_splits simp: Let_def)

lemma detect_ends:
  assumes "chain nx p n = None"
  shows "detect_loop nx (chain nx p k) (chain nx p (2 * k)) = Some False"
proof (induction "n - k" arbitrary: k rule: less_induct)
  case less
  show ?case
  proof (cases "chain nx p k = None \<or> chain nx p (Suc (2 * k)) = None")
    case False
    then obtain x where x: "chain nx p k = Some x" by auto
    have "chain nx p (Suc (2 * k)) \<noteq> chain nx p k" "chain nx p (2 * Suc k) \<noteq> chain nx p k"
      unfolding x by (rule chain_ends_distinct [OF assms _ x]; simp)+
    moreover have "k < n" using False chain_None_mono [OF assms, of k] by (meson not_le)
    ultimately show ?thesis using less [of "Suc k"] False by (subst detect_round) simp
  qed (subst detect_round, simp)
qed

lemma detect_meets:
  assumes "\<forall>k. chain nx p k \<noteq> None" and "chain nx p (Suc (2 * m)) = chain nx p m" and "k \<le> m"
  shows "detect_loop nx (chain nx p k) (chain nx p (2 * k)) = Some True"
  using assms(3)
proof (induction "m - k" arbitrary: k)
  case 0
  then show ?case using assms(1,2) by (subst detect_round) simp
next
  case (Suc n)
  then have "k < m" "n = m - Suc k" by simp_all
  then show ?case using Suc(1) [of "Suc k"] assms(1) by (subst detect_round) (simp del: chain.simps(2))
qed

lemma chain_meets:
  assumes fin: "finite {x. \<exists>k. chain nx p k = Some x}" and all: "\<forall>k. chain nx p k \<noteq> None"
  shows "\<exists>m. chain nx p (Suc (2 * m)) = chain nx p m"
proof -
  have "range (\<lambda>k. the (chain nx p k)) \<subseteq> {x. \<exists>k. chain nx p k = Some x}" using all by force
  then have "finite (range (\<lambda>k. the (chain nx p k)))" using fin by (rule finite_subset)
  then have "\<not> inj (\<lambda>k. the (chain nx p k))" using finite_imageD infinite_UNIV_nat by blast
  then obtain a b where ab: "a < b" "the (chain nx p a) = the (chain nx p b)"
    by (metis injI linorder_neqE_nat)
  have "chain nx p a = chain nx p b" using all [rule_format, of a] all [rule_format, of b] ab(2) by (intro option.expand) auto
  then have per: "chain nx p a = chain nx p (a + (b - a))" using ab(1) by simp
  define m where "m = Suc a * (b - a) - 1"
  have m: "a \<le> m" "Suc (2 * m) = m + Suc a * (b - a)" using ab(1) by (cases "b - a"; simp add: m_def)+
  have "chain nx p (Suc (2 * m)) = chain nx p m" unfolding m(2) by (rule chain_period [OF per m(1)])
  then show ?thesis ..
qed

section \<open>Properties\<close>

text \<open>
  detect_modified_loop() ends on every list of finitely many elements, whatever its links are, and
  reports a cycle exactly when following the links from the first element never ends.
\<close>

theorem detect_modified_loop_decides:
  assumes "finite {x. \<exists>k. chain (le_next l) (lh_first l) k = Some x}"
  shows "detect_modified_loop l = Some (\<forall>k. chain (le_next l) (lh_first l) k \<noteq> None)"
proof (cases "\<forall>k. chain (le_next l) (lh_first l) k \<noteq> None")
  case True
  then obtain m where "chain (le_next l) (lh_first l) (Suc (2 * m)) = chain (le_next l) (lh_first l) m"
    using chain_meets [OF assms] by blast
  then show ?thesis using detect_meets [OF True, of m 0] True by (simp add: detect_modified_loop_def)
next
  case False
  then show ?thesis using detect_ends [of "le_next l" "lh_first l" _ 0] by (auto simp: detect_modified_loop_def)
qed

definition looped_list :: "nat list_state" where
  "looped_list = \<lparr>lh_first = Some 1, lh_last = Some 2, lh_size = 2,
     le_next = (\<lambda>x. if x = 1 then Some 2 else Some 1), le_prev = (\<lambda>_. None)\<rparr>"

theorem detect_modified_loop_decides_witness: "detect_modified_loop looped_list = Some True"
proof -
  let ?c = "chain (le_next looped_list) (lh_first looped_list)"
  have c: "?c k = Some 1 \<or> ?c k = Some 2" for k by (induction k) (auto simp: looped_list_def)
  have "{x. \<exists>k. ?c k = Some x} \<subseteq> {1, 2}"
  proof
    fix x assume "x \<in> {x. \<exists>k. ?c k = Some x}"
    then obtain k where "?c k = Some x" by blast
    then show "x \<in> {1, 2}" using c [of k] by auto
  qed
  then have "finite {x. \<exists>k. ?c k = Some x}" by (rule finite_subset) simp
  moreover have "\<forall>k. ?c k \<noteq> None" using c by force
  ultimately show ?thesis using detect_modified_loop_decides [of looped_list] by simp
qed

text \<open>
  A system call from user mode that comes back to its caller resumes the environment with its trap
  frame as it was saved, changed only by what the call did to it and by the result in eax.
\<close>

theorem trap_syscall_resumes:
  assumes "curenv s = Some e" and "tf_cs tf AND 3 = 3" and "tf_trapno tf = T_SYSCALL"
    and "syscall ctx (upd_env s e (\<lambda>env. env\<lparr>env_tf := tf\<rparr>)) (reg_eax (tf_regs tf)) (reg_edx (tf_regs tf))
           (reg_ecx (tf_regs tf)) (reg_ebx (tf_regs tf)) (reg_edi (tf_regs tf)) (reg_esi (tf_regs tf)) = Inr (Returns, v, s')"
    and "curenv s' = Some e" and "env_status (envs s' e) = ENV_READY"
  shows "\<exists>s''. trap ctx s tf = Inr (Control (Runs e), s'') \<and> curenv s'' = Some e
    \<and> env_tf (envs s'' e) = (env_tf (envs s' e))\<lparr>tf_regs := (tf_regs (env_tf (envs s' e)))\<lparr>reg_eax := v\<rparr>\<rparr>
    \<and> reg_cr3 s'' = reg_cr3 s' \<and> (\<forall>x. x \<noteq> e \<longrightarrow> envs s'' x = envs s' x) \<and> phys s'' = phys s'"
  using assms
  by (simp add: trap_def trap_dispatch_def Let_def upd_env_def trap_numbers env_run_def)

definition calling_frame :: Trapframe where
  "calling_frame = zero_trapframe\<lparr>tf_cs := 0x1B, tf_trapno := T_SYSCALL,
     tf_regs := (tf_regs zero_trapframe)\<lparr>reg_eax := SYS_get_heap_strategy\<rparr>\<rparr>"

definition calling_state :: kstate where
  "calling_state = sample_state\<lparr>curenv := Some 0, UHeapPlacementStrategy := 2,
     envs := (\<lambda>_. zero_env\<lparr>env_status := ENV_READY\<rparr>)\<rparr>"

definition sample_context :: sys_context where
  "sample_context = \<lparr>sc_semaphores = [], sc_shares = [], sc_programs = (\<lambda>_. (0, sample_elf)), sc_key = 65, sc_time = (0, 0)\<rparr>"

theorem trap_syscall_resumes_witness:
  "\<exists>s''. trap sample_context calling_state calling_frame = Inr (Control (Runs 0), s'')
     \<and> reg_eax (tf_regs (env_tf (envs s'' 0))) = 2"
  using trap_syscall_resumes [of calling_state 0 calling_frame sample_context 2
      "upd_env calling_state 0 (\<lambda>env. env\<lparr>env_tf := calling_frame\<rparr>)"]
  by (auto simp: calling_state_def calling_frame_def upd_env_def syscall_def syscall_numbers sys_get_heap_strategy_def)

end
