(* ===== verification/FOS_UHeap.thy ===== *)
theory FOS_UHeap
  imports FOS_Mmu
begin

text \<open>
  The user heap of lib/uheap.c: malloc() with its four placement strategies (next fit, first fit,
  best fit, worst fit), free(), and the unimplemented realloc(). UHeap_Tracker has one integer per
  page of the heap: the number of pages of the block that starts there, 0 elsewhere. The system
  calls malloc() and free() make are recorded in the order they are made; allocateMem() and
  freeMem() are what the kernel does for them.
\<close>

section \<open>State\<close>

record Size_Address_UHeap =
  uh_size :: u32
  uh_virtualAddress :: u32

datatype heap_syscall = Sys_allocateMem u32 u32 | Sys_freeMem u32 u32

record uheap =
  sizeOfVAs :: "u32 \<Rightarrow> Size_Address_UHeap"
  UHeap_Tracker :: "u32 \<Rightarrow> u32"
  generalAddress :: u32
  syscalls :: "heap_syscall list"

definition UHP_PLACE_FIRSTFIT :: u32 where "UHP_PLACE_FIRSTFIT = 1"
definition UHP_PLACE_BESTFIT :: u32 where "UHP_PLACE_BESTFIT = 2"
definition UHP_PLACE_NEXTFIT :: u32 where "UHP_PLACE_NEXTFIT = 3"
definition UHP_PLACE_WORSTFIT :: u32 where "UHP_PLACE_WORSTFIT = 4"

lemmas uhp_consts [fos_consts] =
  UHP_PLACE_FIRSTFIT_def UHP_PLACE_BESTFIT_def UHP_PLACE_NEXTFIT_def UHP_PLACE_WORSTFIT_def

definition HEAP_PAGES :: u32 where
  "HEAP_PAGES = (USER_HEAP_MAX - USER_HEAP_START) div PAGE_SIZE"

text \<open>The tracker index of a heap address.\<close>

definition page_index :: "u32 \<Rightarrow> u32" where
  "page_index a = (a - USER_HEAP_START) div PAGE_SIZE"

text \<open>Reading the local variable j, which the loops assign when a hole begins.\<close>

definition use_j :: "u32 option \<Rightarrow> u32 result" where
  "use_j j = (case j of None \<Rightarrow> Inl (Uninitialised ''j'') | Some a \<Rightarrow> Inr a)"

section \<open>The scan of the heap\<close>

text \<open>
  The loop that first fit, best fit and worst fit share: a page that starts no block extends the
  current hole or begins one, at a block the strategy looks at the hole just ended (\<open>visit\<close>) and
  the scan jumps over the block. The result says whether the strategy stopped the loop.
\<close>

fun heap_scan ::
  "nat \<Rightarrow> (u32 \<Rightarrow> u32) \<Rightarrow> ('a \<Rightarrow> u32 option \<Rightarrow> u32 \<Rightarrow> (bool \<times> 'a) result)
     \<Rightarrow> u32 \<Rightarrow> bool \<Rightarrow> u32 option \<Rightarrow> u32 \<Rightarrow> 'a \<Rightarrow> (bool \<times> u32 option \<times> u32 \<times> 'a) result" where
  "heap_scan 0 T visit i flag j currentSize acc =
     (if i < USER_HEAP_MAX then Inl Diverges else Inr (False, j, currentSize, acc))"
| "heap_scan (Suc fuel) T visit i flag j currentSize acc =
     (if i < USER_HEAP_MAX then
        (if T (page_index i) = 0 then
           heap_scan fuel T visit (i + PAGE_SIZE) True (if flag then j else Some i)
             (currentSize + PAGE_SIZE) acc
         else
           rbind (visit acc j currentSize) (\<lambda>(stop, acc).
             if stop then Inr (True, j, currentSize, acc)
             else heap_scan fuel T visit (i + PAGE_SIZE * T (page_index i)) False j 0 acc))
      else Inr (False, j, currentSize, acc))"

text \<open>There are HEAP_PAGES pages, and every round moves on by at least one.\<close>

definition scan_heap where
  "scan_heap T visit acc = heap_scan (unat HEAP_PAGES) T visit USER_HEAP_START False None 0 acc"

text \<open>First fit stops at the first hole that is big enough; the address, if any.\<close>

definition ff_visit :: "u32 \<Rightarrow> u32 option \<Rightarrow> u32 option \<Rightarrow> u32 \<Rightarrow> (bool \<times> u32 option) result" where
  "ff_visit sz acc j currentSize =
     (if currentSize \<ge> sz then rbind (use_j j) (\<lambda>a. Inr (True, Some a)) else Inr (False, acc))"

definition first_fit :: "(u32 \<Rightarrow> u32) \<Rightarrow> u32 \<Rightarrow> u32 option result" where
  "first_fit T sz =
     rbind (scan_heap T (ff_visit sz) None) (\<lambda>(found, j, currentSize, acc).
       if found then Inr acc
       else if currentSize \<ge> sz then rbind (use_j j) (\<lambda>a. Inr (Some a))
       else Inr None)"

text \<open>
  Best fit and worst fit remember the best hole followed by a block; the hole at the end of the
  heap is used only when no such hole was found.
\<close>

definition pick_visit ::
  "(u32 \<Rightarrow> u32 \<Rightarrow> bool) \<Rightarrow> u32 \<Rightarrow> (u32 option \<times> u32) \<Rightarrow> u32 option \<Rightarrow> u32
     \<Rightarrow> (bool \<times> (u32 option \<times> u32)) result" where
  "pick_visit better sz acc j currentSize =
     (if currentSize \<ge> sz \<and> better currentSize (snd acc)
      then rbind (use_j j) (\<lambda>a. Inr (False, Some a, currentSize))
      else Inr (False, acc))"

definition pick_result :: "u32 \<Rightarrow> bool \<times> u32 option \<times> u32 \<times> (u32 option \<times> u32) \<Rightarrow> u32 option result" where
  "pick_result sz = (\<lambda>(_, j, currentSize, best, _).
     if best = None \<and> currentSize \<ge> sz then rbind (use_j j) (\<lambda>a. Inr (Some a)) else Inr best)"

definition best_fit :: "(u32 \<Rightarrow> u32) \<Rightarrow> u32 \<Rightarrow> u32 option result" where
  "best_fit T sz =
     rbind (scan_heap T (pick_visit (\<lambda>currentSize minViableSize. minViableSize > currentSize) sz)
              (None, USER_HEAP_MAX - USER_HEAP_START)) (pick_result sz)"

definition worst_fit :: "(u32 \<Rightarrow> u32) \<Rightarrow> u32 \<Rightarrow> u32 option result" where
  "worst_fit T sz =
     rbind (scan_heap T (pick_visit (\<lambda>currentSize maxViableSize. maxViableSize < currentSize) sz)
              (None, 0)) (pick_result sz)"

section \<open>Next fit\<close>

text \<open>
  Next fit starts at the last address handed out and goes round the heap; k counts the pages still
  to visit. The result is the address found, or none.
\<close>

fun nf_loop ::
  "nat \<Rightarrow> (u32 \<Rightarrow> u32) \<Rightarrow> u32 \<Rightarrow> u32 \<Rightarrow> u32 \<Rightarrow> bool \<Rightarrow> u32 option \<Rightarrow> u32 \<Rightarrow> u32 option result" where
  "nf_loop 0 T sz k i flag j currentSize =
     (if k \<noteq> 0 then Inl Diverges
      else if currentSize \<ge> sz then rbind (use_j j) (\<lambda>a. Inr (Some a)) else Inr None)"
| "nf_loop (Suc fuel) T sz k i flag j currentSize =
     (if k \<noteq> 0 then
        (let t = T (page_index i);
             blk = (t \<noteq> 0);
             j' = (if \<not> blk \<and> \<not> flag then Some i else j) in
         if blk \<and> currentSize \<ge> sz then rbind (use_j j) (\<lambda>a. Inr (Some a))
         else
           let k' = (if blk then k - t else k - 1);
               i' = (if blk then i + PAGE_SIZE * t else i + PAGE_SIZE);
               cur' = (if blk then 0 else currentSize + PAGE_SIZE) in
           if cur' \<ge> sz then rbind (use_j j') (\<lambda>a. Inr (Some a))
           else if i' \<ge> USER_HEAP_MAX then nf_loop fuel T sz k' USER_HEAP_START False j' 0
           else nf_loop fuel T sz k' i' (\<not> blk) j' cur')
      else if currentSize \<ge> sz then rbind (use_j j) (\<lambda>a. Inr (Some a))
      else Inr None)"

definition next_fit :: "(u32 \<Rightarrow> u32) \<Rightarrow> u32 \<Rightarrow> u32 \<Rightarrow> u32 option result" where
  "next_fit T start sz = nf_loop (unat HEAP_PAGES) T sz HEAP_PAGES start False None 0"

section \<open>malloc, free and realloc\<close>

text \<open>
  The address the strategy chooses. First, best and worst fit reset generalAddress to the start of
  the heap before they search, and leave it there when they fail; with no strategy set the block
  goes to generalAddress without a search.
\<close>

definition choose_address :: "u32 \<Rightarrow> uheap \<Rightarrow> u32 \<Rightarrow> (u32 option \<times> uheap) result" where
  "choose_address strategy u sz =
     (let reset = u\<lparr>generalAddress := USER_HEAP_START\<rparr> in
      if strategy = UHP_PLACE_NEXTFIT then
        rbind (next_fit (UHeap_Tracker u) (generalAddress u) sz) (\<lambda>a. Inr (a, u))
      else if strategy = UHP_PLACE_FIRSTFIT then
        rbind (first_fit (UHeap_Tracker u) sz) (\<lambda>a. Inr (a, reset))
      else if strategy = UHP_PLACE_BESTFIT then
        rbind (best_fit (UHeap_Tracker u) sz) (\<lambda>a. Inr (a, reset))
      else if strategy = UHP_PLACE_WORSTFIT then
        rbind (worst_fit (UHeap_Tracker u) sz) (\<lambda>a. Inr (a, reset))
      else Inr (Some (generalAddress u), u))"

definition malloc :: "u32 \<Rightarrow> uheap \<Rightarrow> u32 \<Rightarrow> (u32 \<times> uheap) result" where
  "malloc strategy u sz =
     (let sz = ROUNDUP sz PAGE_SIZE in
      rbind (choose_address strategy u sz) (\<lambda>(ao, u).
        case ao of
          None \<Rightarrow> Inr (0, u)
        | Some a \<Rightarrow>
            if \<not> page_index a < HEAP_PAGES then Inl (Out_of_bounds ''UHeap_Tracker'')
            else Inr (a, u\<lparr>UHeap_Tracker := (UHeap_Tracker u)(page_index a := sz div PAGE_SIZE),
                     syscalls := syscalls u @ [Sys_allocateMem a sz],
                     sizeOfVAs := (sizeOfVAs u)(page_index a := \<lparr>uh_size = sz, uh_virtualAddress = a\<rparr>),
                     generalAddress := (if a + sz \<ge> USER_HEAP_MAX then USER_HEAP_START else a)\<rparr>)))"

text \<open>
  free() looks the address up in the table of sizes; an address that is not there does nothing.
  Unused entries of the table hold the address 0, whose tracker index is outside the array.
\<close>

function free_search :: "uheap \<Rightarrow> u32 \<Rightarrow> u32 \<Rightarrow> u32 option" where
  "free_search u va i =
     (if i < HEAP_PAGES then
        (if uh_virtualAddress (sizeOfVAs u i) = va then Some i else free_search u va (i + 1))
      else None)"
  by pat_completeness auto
termination
  by (relation "measure (\<lambda>(u, va, i). unat HEAP_PAGES - unat i)") (auto intro: word_loop_measure)

declare free_search.simps [simp del]

definition free :: "uheap \<Rightarrow> u32 \<Rightarrow> uheap result" where
  "free u va =
     (case free_search u va 0 of
        None \<Rightarrow> Inr u
      | Some i \<Rightarrow>
          let tmp = page_index (uh_virtualAddress (sizeOfVAs u i)) in
          if \<not> tmp < HEAP_PAGES then Inl (Out_of_bounds ''UHeap_Tracker'')
          else Inr (u\<lparr>UHeap_Tracker := (UHeap_Tracker u)(tmp := 0),
                  syscalls := syscalls u @ [Sys_freeMem va (uh_size (sizeOfVAs u i))],
                  sizeOfVAs := (sizeOfVAs u)(i := \<lparr>uh_size = 0, uh_virtualAddress = 0\<rparr>)\<rparr>))"

definition realloc :: "uheap \<Rightarrow> u32 \<Rightarrow> u32 \<Rightarrow> (u32 \<times> uheap) result" where
  "realloc u va new_size = Inl (Panic ''realloc() is not implemented yet'')"

section \<open>Blocks and free pages\<close>

text \<open>Pages are numbered from the start of the heap; there are 131072 of them.\<close>

definition pages_at :: "(u32 \<Rightarrow> u32) \<Rightarrow> nat \<Rightarrow> nat" where
  "pages_at T p = unat (T (of_nat p))"

definition haddr :: "nat \<Rightarrow> u32" where
  "haddr p = USER_HEAP_START + of_nat p * PAGE_SIZE"

text \<open>Blocks end inside the heap and no block starts inside another.\<close>

definition heap_wf :: "(u32 \<Rightarrow> u32) \<Rightarrow> bool" where
  "heap_wf T \<longleftrightarrow> (\<forall>p < 131072. pages_at T p \<noteq> 0 \<longrightarrow> p + pages_at T p \<le> 131072
     \<and> (\<forall>q. p < q \<and> q < p + pages_at T p \<longrightarrow> pages_at T q = 0))"

definition free_page :: "(u32 \<Rightarrow> u32) \<Rightarrow> nat \<Rightarrow> bool" where
  "free_page T p \<longleftrightarrow> p < 131072 \<and> (\<forall>q \<le> p. pages_at T q \<noteq> 0 \<longrightarrow> q + pages_at T q \<le> p)"

definition fits :: "(u32 \<Rightarrow> u32) \<Rightarrow> nat \<Rightarrow> nat \<Rightarrow> bool" where
  "fits T n a \<longleftrightarrow> (\<forall>q \<in> {a..<a + n}. free_page T q)"

lemma unat_haddr: "p \<le> 131072 \<Longrightarrow> unat (haddr p) = 2147483648 + p * 4096"
proof -
  assume p: "p \<le> 131072"
  then have "unat (of_nat p * PAGE_SIZE :: u32) = p * 4096"
    by (simp add: PAGE_SIZE_def unat_word_ariths unat_of_nat)
  with p show ?thesis
    unfolding haddr_def by (subst unat_add_u32) (simp_all add: USER_HEAP_START_def)
qed

lemma haddr_less: "p \<le> 131072 \<Longrightarrow> haddr p < USER_HEAP_MAX \<longleftrightarrow> p < 131072"
  by (simp add: word_less_nat_alt unat_haddr USER_HEAP_MAX_def)

lemma page_index_haddr: "p < 131072 \<Longrightarrow> page_index (haddr p) = of_nat p"
proof -
  assume p: "p < 131072"
  have "haddr p - USER_HEAP_START = of_nat p * PAGE_SIZE" by (simp add: haddr_def)
  moreover have "unat (of_nat p * PAGE_SIZE :: u32) = p * 4096"
    using p by (simp add: PAGE_SIZE_def unat_word_ariths unat_of_nat)
  ultimately have "unat (page_index (haddr p)) = p"
    by (simp add: page_index_def unat_div_distrib) (simp add: PAGE_SIZE_def)
  then have "of_nat p = (of_nat (unat (page_index (haddr p))) :: u32)" by simp
  then show ?thesis by simp
qed

lemma haddr_Suc: "haddr p + PAGE_SIZE = haddr (p + 1)"
  by (simp add: haddr_def algebra_simps)

lemma haddr_block: "haddr p + PAGE_SIZE * T (of_nat p) = haddr (p + pages_at T p)"
  by (simp add: haddr_def pages_at_def algebra_simps)

section \<open>The scan, page by page\<close>

text \<open>
  At page \<open>p\<close> the scan stands between blocks, and the pages from \<open>e\<close> on are the current hole,
  which is as long to the left as possible.
\<close>

definition scan_at :: "(u32 \<Rightarrow> u32) \<Rightarrow> nat \<Rightarrow> nat \<Rightarrow> bool" where
  "scan_at T p e \<longleftrightarrow> (\<forall>q < p. pages_at T q \<noteq> 0 \<longrightarrow> q + pages_at T q \<le> p)
     \<and> e \<le> p \<and> (\<forall>q \<in> {e..<p}. free_page T q) \<and> (e = 0 \<or> \<not> free_page T (e - 1))"

lemma scan_at_free:
  assumes "scan_at T p e" and "p < 131072" and "pages_at T p = 0"
  shows "scan_at T (p + 1) e" and "free_page T p"
proof -
  show f: "free_page T p" using assms by (auto simp: scan_at_def free_page_def le_less)
  show "scan_at T (p + 1) e"
    using assms f by (auto simp: scan_at_def less_Suc_eq le_SucI)
qed

lemma scan_at_block:
  assumes "heap_wf T" and "scan_at T p e" and "p < 131072" and "pages_at T p \<noteq> 0"
  shows "scan_at T (p + pages_at T p) (p + pages_at T p)" and "p + pages_at T p \<le> 131072"
    and "p \<le> q \<Longrightarrow> q < p + pages_at T p \<Longrightarrow> \<not> free_page T q"
proof -
  show "p + pages_at T p \<le> 131072" using assms(1,3,4) unfolding heap_wf_def by blast
  show nf: "\<not> free_page T q" if "p \<le> q" "q < p + pages_at T p" for q
    using assms(4) that unfolding free_page_def by (meson not_le)
  have "q + pages_at T q \<le> p + pages_at T p" if "q < p + pages_at T p" "pages_at T q \<noteq> 0" for q
  proof (cases q p rule: linorder_cases)
    case less
    then have "q + pages_at T q \<le> p" using assms(2) that(2) by (simp add: scan_at_def)
    then show ?thesis by simp
  next
    case greater
    then have "pages_at T q = 0" using assms(1,3,4) that(1) unfolding heap_wf_def by blast
    then show ?thesis using that(2) by simp
  qed simp
  moreover have "\<not> free_page T (p + pages_at T p - 1)" using assms(4) by (intro nf) simp_all
  ultimately show "scan_at T (p + pages_at T p) (p + pages_at T p)" by (simp add: scan_at_def)
qed

definition hole_bytes :: "nat \<Rightarrow> u32" where
  "hole_bytes n = of_nat n * PAGE_SIZE"

lemma unat_hole_bytes: "n < 1048576 \<Longrightarrow> unat (hole_bytes n) = n * 4096"
  by (simp add: hole_bytes_def PAGE_SIZE_def unat_word_ariths unat_of_nat)

lemma hole_bytes_le: "m < 1048576 \<Longrightarrow> n < 1048576 \<Longrightarrow> hole_bytes m \<le> hole_bytes n \<longleftrightarrow> m \<le> n"
  by (simp add: word_le_nat_alt unat_hole_bytes)

lemma hole_bytes_less: "m < 1048576 \<Longrightarrow> n < 1048576 \<Longrightarrow> hole_bytes m < hole_bytes n \<longleftrightarrow> m < n"
  by (simp add: word_less_nat_alt unat_hole_bytes)

text \<open>
  The rule for the scan: an invariant \<open>J\<close> of the strategy's accumulator, kept by free pages and,
  at blocks, either kept or turned into the postcondition \<open>Q\<close> of an early stop.
\<close>

lemma heap_scan_rule:
  assumes wf: "heap_wf T"
    and free: "\<And>p e acc. scan_at T p e \<Longrightarrow> J p e acc \<Longrightarrow> p < 131072 \<Longrightarrow> pages_at T p = 0
      \<Longrightarrow> J (p + 1) e acc"
    and block: "\<And>p e acc j. scan_at T p e \<Longrightarrow> J p e acc \<Longrightarrow> p < 131072 \<Longrightarrow> pages_at T p \<noteq> 0
      \<Longrightarrow> (e < p \<Longrightarrow> j = Some (haddr e)) \<Longrightarrow>
        \<exists>stop acc'. visit acc j (hole_bytes (p - e)) = Inr (stop, acc')
          \<and> (if stop then Q acc' else J (p + pages_at T p) (p + pages_at T p) acc')"
  shows "scan_at T p e \<Longrightarrow> J p e acc \<Longrightarrow> p \<le> 131072 \<Longrightarrow> 131072 - p \<le> fuel
    \<Longrightarrow> (e < p \<Longrightarrow> j = Some (haddr e)) \<Longrightarrow>
     \<exists>stop j' c' acc'. heap_scan fuel T visit (haddr p) (e < p) j (hole_bytes (p - e)) acc
         = Inr (stop, j', c', acc')
       \<and> (stop \<longrightarrow> Q acc')
       \<and> (\<not> stop \<longrightarrow> (\<exists>e'. scan_at T 131072 e' \<and> J 131072 e' acc' \<and> c' = hole_bytes (131072 - e')
            \<and> (e' < 131072 \<longrightarrow> j' = Some (haddr e'))))"
proof (induction fuel arbitrary: p e acc j)
  case 0
  then have "p = 131072" by simp
  with 0 show ?case by (auto simp: haddr_less)
next
  case (Suc fuel)
  show ?case
  proof (cases "p < 131072")
    case False
    then have "p = 131072" using Suc.prems by simp
    with Suc.prems show ?thesis by (auto simp: haddr_less)
  next
    case True
    note lt = haddr_less [OF Suc.prems(3)] and pi = page_index_haddr [OF True]
    show ?thesis
    proof (cases "pages_at T p = 0")
      case z: True
      have "hole_bytes (p - e) + PAGE_SIZE = hole_bytes (p + 1 - e)"
        using Suc.prems(1) by (simp add: hole_bytes_def scan_at_def Suc_diff_le algebra_simps)
      moreover have "e < p + 1" using Suc.prems(1) by (simp add: scan_at_def)
      moreover have "(if e < p then j else Some (haddr p)) = Some (haddr e)"
        using Suc.prems(1,5) by (auto simp: scan_at_def)
      moreover have "T (of_nat p) = 0" using z by (simp add: pages_at_def unat_eq_zero)
      ultimately show ?thesis
        using Suc.IH [of "p + 1" e acc "Some (haddr e)"] True lt pi Suc.prems
          scan_at_free(1) [OF Suc.prems(1) True z] free [OF Suc.prems(1,2) True z]
        by (simp add: haddr_Suc)
    next
      case nz: False
      let ?p = "p + pages_at T p"
      obtain stop acc' where v: "visit acc j (hole_bytes (p - e)) = Inr (stop, acc')"
        "if stop then Q acc' else J ?p ?p acc'"
        using block [OF Suc.prems(1,2) True nz Suc.prems(5)] by auto
      have "T (of_nat p) \<noteq> 0" using nz by (auto simp: pages_at_def)
      then show ?thesis
        using Suc.IH [of ?p ?p acc' j] True lt pi v nz Suc.prems
          scan_at_block [OF wf Suc.prems(1) True nz]
        by (cases stop) (auto simp: haddr_block hole_bytes_def)
    qed
  qed
qed

lemma scan_heap_rule:
  assumes "heap_wf T" and "J 0 0 acc"
    and "\<And>p e acc. scan_at T p e \<Longrightarrow> J p e acc \<Longrightarrow> p < 131072 \<Longrightarrow> pages_at T p = 0
      \<Longrightarrow> J (p + 1) e acc"
    and "\<And>p e acc j. scan_at T p e \<Longrightarrow> J p e acc \<Longrightarrow> p < 131072 \<Longrightarrow> pages_at T p \<noteq> 0
      \<Longrightarrow> (e < p \<Longrightarrow> j = Some (haddr e)) \<Longrightarrow>
        \<exists>stop acc'. visit acc j (hole_bytes (p - e)) = Inr (stop, acc')
          \<and> (if stop then Q acc' else J (p + pages_at T p) (p + pages_at T p) acc')"
  shows "\<exists>stop j' c' acc'. scan_heap T visit acc = Inr (stop, j', c', acc')
       \<and> (stop \<longrightarrow> Q acc')
       \<and> (\<not> stop \<longrightarrow> (\<exists>e'. scan_at T 131072 e' \<and> J 131072 e' acc' \<and> c' = hole_bytes (131072 - e')
            \<and> (e' < 131072 \<longrightarrow> j' = Some (haddr e'))))"
proof -
  have "unat HEAP_PAGES = 131072"
    by (simp add: HEAP_PAGES_def USER_HEAP_MAX_def USER_HEAP_START_def PAGE_SIZE_def)
  moreover have "haddr 0 = USER_HEAP_START" by (simp add: haddr_def)
  moreover have "scan_at T 0 0" by (simp add: scan_at_def)
  moreover have "\<exists>stop j' c' acc'. heap_scan 131072 T visit (haddr 0) (0 < (0 :: nat)) None
         (hole_bytes (0 - 0)) acc = Inr (stop, j', c', acc')
       \<and> (stop \<longrightarrow> Q acc')
       \<and> (\<not> stop \<longrightarrow> (\<exists>e'. scan_at T 131072 e' \<and> J 131072 e' acc' \<and> c' = hole_bytes (131072 - e')
            \<and> (e' < 131072 \<longrightarrow> j' = Some (haddr e'))))"
  proof (rule heap_scan_rule [OF assms(1)])
    show "scan_at T 0 0" by (rule calculation(3))
    show "J 0 0 acc" by (rule assms(2))
  qed (fact assms(3), fact assms(4), simp_all)
  ultimately show ?thesis by (simp only: scan_heap_def hole_bytes_def) simp
qed

section \<open>Holes\<close>

text \<open>A hole that a block ends.\<close>

definition closed_hole :: "(u32 \<Rightarrow> u32) \<Rightarrow> nat \<Rightarrow> nat \<Rightarrow> bool" where
  "closed_hole T a b \<longleftrightarrow> a < b \<and> b < 131072 \<and> fits T (b - a) a
     \<and> (a = 0 \<or> \<not> free_page T (a - 1)) \<and> pages_at T b \<noteq> 0"

text \<open>Every run of \<open>n\<close> free pages before \<open>p\<close> is in the current hole or in a closed one.\<close>

definition covered :: "(u32 \<Rightarrow> u32) \<Rightarrow> nat \<Rightarrow> nat \<Rightarrow> nat \<Rightarrow> bool" where
  "covered T n p e \<longleftrightarrow> (\<forall>c. fits T n c \<and> c + n \<le> p \<longrightarrow>
     e \<le> c \<or> (\<exists>a b. closed_hole T a b \<and> b < p \<and> n \<le> b - a))"

lemma fits_pages: "fits T n c \<Longrightarrow> c \<le> q \<Longrightarrow> q < c + n \<Longrightarrow> free_page T q"
  by (simp add: fits_def)

lemma fits_within: "fits T n c \<Longrightarrow> 0 < n \<Longrightarrow> c + n \<le> 131072"
proof -
  assume "fits T n c" "0 < n"
  then have "free_page T (c + n - 1)" by (intro fits_pages) auto
  then have "c + n - 1 < 131072" by (simp add: free_page_def)
  then show ?thesis by linarith
qed

lemma scan_hole: "scan_at T p e \<Longrightarrow> fits T (p - e) e"
  by (simp add: scan_at_def fits_def)

lemma fits_mono: "fits T m a \<Longrightarrow> n \<le> m \<Longrightarrow> fits T n a"
  by (auto simp: fits_def)

lemma closed_size: "closed_hole T a b \<Longrightarrow> b - a < 131072"
  unfolding closed_hole_def by linarith

lemma closed_hole_here:
  assumes "scan_at T p e" and "closed_hole T a p"
  shows "a = e"
proof (rule ccontr)
  have f: "\<And>q. a \<le> q \<Longrightarrow> q < p \<Longrightarrow> free_page T q" "a < p" "a = 0 \<or> \<not> free_page T (a - 1)"
    using assms(2) by (auto simp: closed_hole_def fits_def)
  have g: "\<And>q. e \<le> q \<Longrightarrow> q < p \<Longrightarrow> free_page T q" "e \<le> p" "e = 0 \<or> \<not> free_page T (e - 1)"
    using assms(1) by (auto simp: scan_at_def)
  assume "a \<noteq> e"
  then consider "a < e" | "e < a" by linarith
  then show False
  proof cases
    case 1
    then have "free_page T (e - 1)" using f(1) [of "e - 1"] g(2) by simp
    with 1 g(3) show False by simp
  next
    case 2
    then have "free_page T (a - 1)" using g(1) [of "a - 1"] f(2) by simp
    with 2 f(3) show False by simp
  qed
qed

lemma scan_closed:
  assumes "scan_at T p e" and "p < 131072" and "pages_at T p \<noteq> 0" and "e < p"
  shows "closed_hole T e p"
  using assms scan_hole [OF assms(1)] by (simp add: closed_hole_def scan_at_def)

lemma closed_before_free:
  "pages_at T p = 0 \<Longrightarrow> closed_hole T a b \<and> b < p + 1 \<longleftrightarrow> closed_hole T a b \<and> b < p"
  using less_Suc_eq by (auto simp: closed_hole_def)

lemma closed_before_block:
  assumes "heap_wf T" and "scan_at T p e" and "p < 131072" and "pages_at T p \<noteq> 0"
  shows "closed_hole T a b \<and> b < p + pages_at T p \<longleftrightarrow>
    closed_hole T a b \<and> b < p \<or> e < p \<and> a = e \<and> b = p"
proof -
  have "b \<le> p" if "closed_hole T a b" "b < p + pages_at T p"
  proof (rule ccontr)
    assume "\<not> b \<le> p"
    then have "pages_at T b = 0" using assms(1,3,4) that(2) unfolding heap_wf_def by (meson not_le)
    with that(1) show False by (simp add: closed_hole_def)
  qed
  moreover have "e < p" if "closed_hole T e p" using that by (simp add: closed_hole_def)
  ultimately show ?thesis
    using closed_hole_here [OF assms(2), of a] scan_closed [OF assms(2-4)] assms(4)
    by (metis le_neq_implies_less less_add_same_cancel1 neq0_conv trans_less_add1)
qed

lemma covered_free:
  assumes "scan_at T p e" and "covered T n p e" and "pages_at T p = 0" and "0 < n"
  shows "covered T n (p + 1) e"
  unfolding covered_def
proof (intro allI impI)
  fix c assume c: "fits T n c \<and> c + n \<le> p + 1"
  show "e \<le> c \<or> (\<exists>a b. closed_hole T a b \<and> b < p + 1 \<and> n \<le> b - a)"
  proof (cases "c + n \<le> p")
    case True
    then show ?thesis using c assms(2) by (fastforce simp: covered_def)
  next
    case False
    then have eq: "c + n = p + 1" using c by simp
    have "e \<le> c"
    proof (rule ccontr)
      assume lt: "\<not> e \<le> c"
      moreover have "e \<le> p" using assms(1) by (simp add: scan_at_def)
      ultimately have "free_page T (e - 1)" using c eq fits_pages [of T n c "e - 1"] by simp
      then show False using lt assms(1) by (simp add: scan_at_def)
    qed
    then show ?thesis ..
  qed
qed

lemma covered_block:
  assumes "heap_wf T" and "scan_at T p e" and "p < 131072" and "pages_at T p \<noteq> 0"
    and "covered T n p e" and "0 < n"
  shows "covered T n (p + pages_at T p) (p + pages_at T p)"
  unfolding covered_def
proof (intro allI impI)
  fix c assume c: "fits T n c \<and> c + n \<le> p + pages_at T p"
  note nf = scan_at_block(3) [OF assms(1-4)]
  show "p + pages_at T p \<le> c \<or> (\<exists>a b. closed_hole T a b \<and> b < p + pages_at T p \<and> n \<le> b - a)"
  proof (cases "c + n \<le> p")
    case True
    then consider "e \<le> c" | "\<exists>a b. closed_hole T a b \<and> b < p \<and> n \<le> b - a"
      using c assms(5) by (auto simp: covered_def)
    then show ?thesis
    proof cases
      case 1
      then have "closed_hole T e p" "n \<le> p - e"
        using True assms(6) scan_closed [OF assms(2-4)] by simp_all
      then show ?thesis using assms(4) by (intro disjI2 exI [of _ e] exI [of _ p]) simp
    next
      case 2
      then show ?thesis by (meson trans_less_add1)
    qed
  next
    case False
    then have "\<not> c \<le> p" using c nf [of p] fits_pages [of T n c p] assms(4) by auto
    then have "p + pages_at T p \<le> c"
      using c nf [of c] fits_pages [of T n c c] assms(6) by (metis le_add1 less_add_same_cancel1 not_le
          order_refl linear)
    then show ?thesis ..
  qed
qed

section \<open>The strategies\<close>

lemma hole_size_bound: "scan_at T p e \<Longrightarrow> p \<le> 131072 \<Longrightarrow> p - e < 1048576"
  by (simp add: scan_at_def)

lemma covered_start: "0 < n \<Longrightarrow> covered T n 0 0"
  by (simp add: covered_def)

text \<open>First fit: the least page from which \<open>n\<close> pages are free, or none if there is no such page.\<close>

definition ff_inv :: "(u32 \<Rightarrow> u32) \<Rightarrow> nat \<Rightarrow> nat \<Rightarrow> nat \<Rightarrow> u32 option \<Rightarrow> bool" where
  "ff_inv T n p e acc \<longleftrightarrow> acc = None \<and> covered T n p e
     \<and> (\<forall>a b. closed_hole T a b \<and> b < p \<longrightarrow> b - a < n)"

definition ff_found :: "(u32 \<Rightarrow> u32) \<Rightarrow> nat \<Rightarrow> u32 option \<Rightarrow> bool" where
  "ff_found T n acc \<longleftrightarrow> (\<exists>a. acc = Some (haddr a) \<and> fits T n a \<and> (\<forall>c. fits T n c \<longrightarrow> a \<le> c))"

lemma ff_inv_least: "ff_inv T n p e acc \<Longrightarrow> fits T n c \<Longrightarrow> c + n \<le> p \<Longrightarrow> e \<le> c"
  unfolding ff_inv_def covered_def by (meson not_less)

lemma ff_visit_block:
  assumes wf: "heap_wf T" and n: "0 < n" "n < 1048576" and at: "scan_at T p e"
    and J: "ff_inv T n p e acc" and p: "p < 131072" and nz: "pages_at T p \<noteq> 0"
    and j: "e < p \<Longrightarrow> j = Some (haddr e)"
  shows "\<exists>stop acc'. ff_visit (hole_bytes n) acc j (hole_bytes (p - e)) = Inr (stop, acc')
      \<and> (if stop then ff_found T n acc' else ff_inv T n (p + pages_at T p) (p + pages_at T p) acc')"
proof -
  have le: "hole_bytes n \<le> hole_bytes (p - e) \<longleftrightarrow> n \<le> p - e"
    using n p hole_size_bound [OF at] by (intro hole_bytes_le) auto
  show ?thesis
  proof (cases "n \<le> p - e")
    case True
    then have ep: "e < p" using n(1) by linarith
    have fe: "fits T n e" by (rule fits_mono [OF scan_hole [OF at] True])
    have np: "\<not> free_page T p" using scan_at_block(3) [OF wf at p nz, of p] nz by simp
    have "e \<le> c" if "fits T n c" for c
      using ff_inv_least [OF J that] np that fits_pages [of T n c p] ep by force
    then have "ff_found T n (Some (haddr e))" using fe by (auto simp: ff_found_def)
    then show ?thesis
      using j [OF ep] le True by (intro exI [of _ True]) (simp add: ff_visit_def use_j_def)
  next
    case False
    then have "\<forall>a b. closed_hole T a b \<and> b < p + pages_at T p \<longrightarrow> b - a < n"
      using J unfolding ff_inv_def closed_before_block [OF wf at p nz] by auto
    then have "ff_inv T n (p + pages_at T p) (p + pages_at T p) acc"
      using J covered_block [OF wf at p nz _ n(1)] by (simp add: ff_inv_def)
    then show ?thesis using le False by (intro exI [of _ False]) (simp add: ff_visit_def)
  qed
qed

lemma first_fit_spec:
  assumes wf: "heap_wf T" and n: "0 < n" "n < 1048576"
  shows "(\<exists>a. first_fit T (hole_bytes n) = Inr (Some (haddr a)) \<and> fits T n a
            \<and> (\<forall>c. fits T n c \<longrightarrow> a \<le> c))
       \<or> (first_fit T (hole_bytes n) = Inr None \<and> (\<forall>c. \<not> fits T n c))"
proof -
  have "\<exists>stop j' c' acc'. scan_heap T (ff_visit (hole_bytes n)) None = Inr (stop, j', c', acc')
       \<and> (stop \<longrightarrow> ff_found T n acc')
       \<and> (\<not> stop \<longrightarrow> (\<exists>e'. scan_at T 131072 e' \<and> ff_inv T n 131072 e' acc'
            \<and> c' = hole_bytes (131072 - e') \<and> (e' < 131072 \<longrightarrow> j' = Some (haddr e'))))"
  proof (rule scan_heap_rule [OF wf])
    show "ff_inv T n 0 0 None" by (simp add: ff_inv_def covered_start n)
    show "ff_inv T n (p + 1) e acc"
      if "scan_at T p e" "ff_inv T n p e acc" "pages_at T p = 0" for p e acc
      using that covered_free [OF that(1) _ that(3) n(1)] closed_before_free [OF that(3)]
      by (auto simp: ff_inv_def)
  qed (rule ff_visit_block [OF wf n])
  then obtain stop j' c' acc' where r: "scan_heap T (ff_visit (hole_bytes n)) None = Inr (stop, j', c', acc')"
      "stop \<Longrightarrow> ff_found T n acc'"
    and fin: "\<not> stop \<Longrightarrow> \<exists>e'. scan_at T 131072 e' \<and> ff_inv T n 131072 e' acc'
      \<and> c' = hole_bytes (131072 - e') \<and> (e' < 131072 \<longrightarrow> j' = Some (haddr e'))" by blast
  show ?thesis
  proof (cases stop)
    case True
    then show ?thesis using r by (auto simp: first_fit_def ff_found_def)
  next
    case False
    then obtain e' where e': "scan_at T 131072 e'" "ff_inv T n 131072 e' acc'"
      "c' = hole_bytes (131072 - e')" "e' < 131072 \<longrightarrow> j' = Some (haddr e')" using fin by blast
    have le: "hole_bytes n \<le> c' \<longleftrightarrow> n \<le> 131072 - e'"
      unfolding e'(3) using n hole_size_bound [OF e'(1)] by (intro hole_bytes_le) auto
    have least: "e' \<le> c \<and> c + n \<le> 131072" if "fits T n c" for c
      using ff_inv_least [OF e'(2) that] fits_within [OF that n(1)] by simp
    show ?thesis
    proof (cases "n \<le> 131072 - e'")
      case True
      then have "fits T n e'" "e' < 131072"
        using fits_mono [OF scan_hole [OF e'(1)]] n(1) by auto
      then show ?thesis using True least le False r(1) e'(4)
        by (auto simp: first_fit_def use_j_def)
    next
      case nofit: False
      then have "\<not> fits T n c" for c using least [of c] by linarith
      then show ?thesis using nofit le False r(1) by (simp add: first_fit_def)
    qed
  qed
qed

text \<open>
  Best fit and worst fit, for an order on hole sizes: the best closed hole that is big enough, and
  the hole at the end of the heap when no closed hole is.
\<close>

definition pick_inv ::
  "(nat \<Rightarrow> nat \<Rightarrow> bool) \<Rightarrow> u32 \<Rightarrow> (u32 \<Rightarrow> u32) \<Rightarrow> nat \<Rightarrow> nat \<Rightarrow> nat \<Rightarrow> u32 option \<times> u32 \<Rightarrow> bool" where
  "pick_inv le init T n p e acc \<longleftrightarrow> covered T n p e \<and>
     (case fst acc of
        None \<Rightarrow> snd acc = init \<and> (\<forall>a b. closed_hole T a b \<and> b < p \<longrightarrow> b - a < n)
      | Some x \<Rightarrow> \<exists>a b. x = haddr a \<and> closed_hole T a b \<and> n \<le> b - a \<and> snd acc = hole_bytes (b - a)
          \<and> (\<forall>a' b'. closed_hole T a' b' \<and> b' < p \<and> n \<le> b' - a' \<longrightarrow> le (b - a) (b' - a')))"

definition pick_spec :: "(nat \<Rightarrow> nat \<Rightarrow> bool) \<Rightarrow> (u32 \<Rightarrow> u32) \<Rightarrow> nat \<Rightarrow> u32 option result \<Rightarrow> bool" where
  "pick_spec le T n r \<longleftrightarrow>
     (\<exists>a b. r = Inr (Some (haddr a)) \<and> closed_hole T a b \<and> n \<le> b - a
        \<and> (\<forall>a' b'. closed_hole T a' b' \<and> n \<le> b' - a' \<longrightarrow> le (b - a) (b' - a')))
   \<or> (\<forall>a b. closed_hole T a b \<longrightarrow> b - a < n)
       \<and> ((\<exists>a. r = Inr (Some (haddr a)) \<and> fits T n a) \<or> (r = Inr None \<and> (\<forall>c. \<not> fits T n c)))"

text \<open>What makes a comparison of byte counts the strict part of an order on hole sizes.\<close>

definition picks :: "(u32 \<Rightarrow> u32 \<Rightarrow> bool) \<Rightarrow> (nat \<Rightarrow> nat \<Rightarrow> bool) \<Rightarrow> u32 \<Rightarrow> bool" where
  "picks better le init \<longleftrightarrow> (\<forall>x. le x x) \<and> (\<forall>x y z. le x y \<longrightarrow> le y z \<longrightarrow> le x z)
     \<and> (\<forall>x y. x < 131072 \<longrightarrow> y < 131072 \<longrightarrow> better (hole_bytes x) (hole_bytes y) = (\<not> le y x))
     \<and> (\<forall>x y. \<not> le y x \<longrightarrow> le x y)
     \<and> (\<forall>x. 0 < x \<longrightarrow> x < 131072 \<longrightarrow> better (hole_bytes x) init)"

lemma picks_best: "picks (\<lambda>c m. m > c) (\<le>) (USER_HEAP_MAX - USER_HEAP_START)"
  by (auto simp: picks_def hole_bytes_less)
    (simp add: word_less_nat_alt unat_hole_bytes USER_HEAP_MAX_def USER_HEAP_START_def)

lemma picks_worst: "picks (\<lambda>c m. m < c) (\<ge>) 0"
  by (auto simp: picks_def hole_bytes_less)
    (simp add: word_less_nat_alt unat_hole_bytes)

lemma pick_visit_block:
  assumes pk: "picks better le init" and wf: "heap_wf T" and n: "0 < n" "n < 1048576"
    and at: "scan_at T p e" and J: "pick_inv le init T n p e acc" and p: "p < 131072"
    and nz: "pages_at T p \<noteq> 0" and j: "e < p \<Longrightarrow> j = Some (haddr e)"
  shows "\<exists>stop acc'. pick_visit better (hole_bytes n) acc j (hole_bytes (p - e)) = Inr (stop, acc')
      \<and> (if stop then False else pick_inv le init T n (p + pages_at T p) (p + pages_at T p) acc')"
proof -
  let ?p = "p + pages_at T p"
  have refl: "le x x" and tr: "le x y \<Longrightarrow> le y z \<Longrightarrow> le x z" and tot: "\<not> le y x \<Longrightarrow> le x y"
    and bt: "x < 131072 \<Longrightarrow> y < 131072 \<Longrightarrow> better (hole_bytes x) (hole_bytes y) = (\<not> le y x)"
    and bi: "0 < x \<Longrightarrow> x < 131072 \<Longrightarrow> better (hole_bytes x) init" for x y z
    using pk unfolding picks_def by blast+
  note cb = closed_before_block [OF wf at p nz]
  have cov: "covered T n ?p ?p"
    using J covered_block [OF wf at p nz _ n(1)] by (simp add: pick_inv_def)
  have le: "hole_bytes n \<le> hole_bytes (p - e) \<longleftrightarrow> n \<le> p - e"
    using n p hole_size_bound [OF at] by (intro hole_bytes_le) auto
  show ?thesis
  proof (cases "n \<le> p - e \<and> better (hole_bytes (p - e)) (snd acc)")
    case True
    then have ep: "e < p" using n(1) by linarith
    have new: "closed_hole T e p" by (rule scan_closed [OF at p nz ep])
    have better: "le (p - e) (b' - a')" if "closed_hole T a' b'" "b' < p" "n \<le> b' - a'" for a' b'
    proof (cases "fst acc")
      case None
      then show ?thesis using J that by (fastforce simp: pick_inv_def)
    next
      case (Some x)
      then obtain a b where "closed_hole T a b" "snd acc = hole_bytes (b - a)"
        "\<forall>a' b'. closed_hole T a' b' \<and> b' < p \<and> n \<le> b' - a' \<longrightarrow> le (b - a) (b' - a')"
        using J by (auto simp: pick_inv_def)
      then have ab: "closed_hole T a b" "snd acc = hole_bytes (b - a)" "le (b - a) (b' - a')"
        using that by simp_all
      have "b - a < 131072" "p - e < 131072" using closed_size [OF ab(1)] p by linarith+
      then have "\<not> le (b - a) (p - e)" using True ab(2) bt [of "p - e" "b - a"] by simp
      then show ?thesis using tot tr ab(3) by blast
    qed
    have "le (p - e) (b' - a')" if "closed_hole T a' b'" "b' < ?p" "n \<le> b' - a'" for a' b'
      using cb [of a' b'] that better [of a' b'] refl by blast
    then have "pick_inv le init T n ?p ?p (Some (haddr e), hole_bytes (p - e))"
      using cov new True unfolding pick_inv_def by simp blast
    then show ?thesis
      using True le j [OF ep] by (intro exI [of _ False]) (simp add: pick_visit_def use_j_def)
  next
    case False
    have "pick_inv le init T n ?p ?p acc"
    proof (cases "fst acc")
      case None
      then have "\<not> n \<le> p - e"
        using False J bi [of "p - e"] p n(1) by (auto simp: pick_inv_def)
      then have "b - a < n" if "closed_hole T a b" "b < ?p" for a b
        using cb [of a b] that None J unfolding pick_inv_def by auto
      then show ?thesis using None J cov by (simp add: pick_inv_def)
    next
      case (Some x)
      then obtain a b where ab: "x = haddr a" "closed_hole T a b" "n \<le> b - a" "snd acc = hole_bytes (b - a)"
        "\<And>a' b'. closed_hole T a' b' \<Longrightarrow> b' < p \<Longrightarrow> n \<le> b' - a' \<Longrightarrow> le (b - a) (b' - a')"
        using J by (auto simp: pick_inv_def)
      have "le (b - a) (p - e)" if "n \<le> p - e" "e < p"
      proof -
        have "b - a < 131072" "p - e < 131072" using closed_size [OF ab(2)] p by linarith+
        then show ?thesis using False that ab(4) bt [of "p - e" "b - a"] by simp
      qed
      then have "le (b - a) (b' - a')" if "closed_hole T a' b'" "b' < ?p" "n \<le> b' - a'" for a' b'
        using cb [of a' b'] that ab(5) [of a' b'] by blast
      then show ?thesis using Some ab(1-4) cov unfolding pick_inv_def by simp blast
    qed
    then show ?thesis using False le by (intro exI [of _ False] exI [of _ acc]) (auto simp: pick_visit_def)
  qed
qed

lemma pick_fit_spec:
  assumes pk: "picks better le init" and wf: "heap_wf T" and n: "0 < n" "n < 1048576"
  shows "pick_spec le T n (rbind (scan_heap T (pick_visit better (hole_bytes n)) (None, init))
           (pick_result (hole_bytes n)))"
proof -
  have "\<exists>stop j' c' acc'. scan_heap T (pick_visit better (hole_bytes n)) (None, init)
         = Inr (stop, j', c', acc')
       \<and> (stop \<longrightarrow> False)
       \<and> (\<not> stop \<longrightarrow> (\<exists>e'. scan_at T 131072 e' \<and> pick_inv le init T n 131072 e' acc'
            \<and> c' = hole_bytes (131072 - e') \<and> (e' < 131072 \<longrightarrow> j' = Some (haddr e'))))"
  proof (rule scan_heap_rule [OF wf])
    show "pick_inv le init T n 0 0 (None, init)" by (simp add: pick_inv_def covered_start n)
    show "pick_inv le init T n (p + 1) e acc"
      if "scan_at T p e" "pick_inv le init T n p e acc" "pages_at T p = 0" for p e acc
      using that(2) covered_free [OF that(1) _ that(3) n(1)] closed_before_free [OF that(3)]
      unfolding pick_inv_def by (auto split: option.splits) metis+
  qed (rule pick_visit_block [OF pk wf n])
  then obtain stop j' c' acc' e' where r: "scan_heap T (pick_visit better (hole_bytes n)) (None, init)
         = Inr (stop, j', c', acc')" "\<not> stop"
      and e': "scan_at T 131072 e'" "pick_inv le init T n 131072 e' acc'"
        "c' = hole_bytes (131072 - e')" "e' < 131072 \<longrightarrow> j' = Some (haddr e')" by blast
  have inside: "b < 131072" if "closed_hole T a b" for a b using that by (simp add: closed_hole_def)
  show ?thesis
  proof (cases "fst acc'")
    case (Some x)
    then have "pick_result (hole_bytes n) (stop, j', c', acc') = Inr (Some x)"
      by (cases acc') (simp add: pick_result_def)
    moreover obtain a b where "x = haddr a" "closed_hole T a b" "n \<le> b - a"
      "\<And>a' b'. closed_hole T a' b' \<Longrightarrow> b' < 131072 \<Longrightarrow> n \<le> b' - a' \<Longrightarrow> le (b - a) (b' - a')"
      using Some e'(2) by (auto simp: pick_inv_def)
    ultimately show ?thesis using r(1) inside unfolding pick_spec_def
      by (intro disjI1 exI [of _ a] exI [of _ b]) simp
  next
    case None
    have le: "hole_bytes n \<le> c' \<longleftrightarrow> n \<le> 131072 - e'"
      unfolding e'(3) using n hole_size_bound [OF e'(1)] by (intro hole_bytes_le) auto
    have closed: "\<forall>a b. closed_hole T a b \<longrightarrow> b - a < n"
      using None e'(2) inside by (auto simp: pick_inv_def)
    have least: "e' \<le> c \<and> c + n \<le> 131072" if "fits T n c" for c
      using e'(2) closed that fits_within [OF that n(1)]
      unfolding pick_inv_def covered_def by (meson not_less)
    show ?thesis
    proof (cases "n \<le> 131072 - e'")
      case True
      then have "fits T n e'" "e' < 131072"
        using fits_mono [OF scan_hole [OF e'(1)]] n(1) by auto
      then show ?thesis using True le None r(1) e'(4) closed
        by (cases acc') (auto simp: pick_spec_def pick_result_def use_j_def)
    next
      case False
      then have "\<not> fits T n c" for c using least [of c] by linarith
      then show ?thesis using False le None r(1) closed
        by (cases acc') (auto simp: pick_spec_def pick_result_def)
    qed
  qed
qed

lemma best_fit_spec: "heap_wf T \<Longrightarrow> 0 < n \<Longrightarrow> n < 1048576 \<Longrightarrow> pick_spec (\<le>) T n (best_fit T (hole_bytes n))"
  unfolding best_fit_def by (rule pick_fit_spec [OF picks_best])

lemma worst_fit_spec: "heap_wf T \<Longrightarrow> 0 < n \<Longrightarrow> n < 1048576 \<Longrightarrow> pick_spec (\<ge>) T n (worst_fit T (hole_bytes n))"
  unfolding worst_fit_def by (rule pick_fit_spec [OF picks_worst])

section \<open>Placing and removing blocks\<close>

lemma pages_at_upd:
  "p < 131072 \<Longrightarrow> q < 131072 \<Longrightarrow> n < 131073 \<Longrightarrow>
     pages_at (T(of_nat p := of_nat n)) q = (if q = p then n else pages_at T q)"
  by (auto simp: pages_at_def unat_of_nat of_nat_eq_iff word_of_nat_eq_iff take_bit_nat_eq_self)

text \<open>One entry of a table of block sizes is set, or cleared.\<close>

lemma upd_blocks: 
  fixes f g :: "nat \<Rightarrow> nat"
  assumes "\<And>r. r \<le> q \<Longrightarrow> g r = (if r = p then n else f r)" "f p = 0" "0 < n"
  shows "(\<forall>r \<le> q. g r \<noteq> 0 \<longrightarrow> r + g r \<le> q) \<longleftrightarrow> (\<forall>r \<le> q. f r \<noteq> 0 \<longrightarrow> r + f r \<le> q) \<and> (p \<le> q \<longrightarrow> p + n \<le> q)"
  using assms by (metis not_gr_zero)

lemma upd_wf:
  fixes f g :: "nat \<Rightarrow> nat"
  assumes g: "\<And>r. r < N \<Longrightarrow> g r = (if r = p then 0 else f r)"
   and f: "\<forall>p < N. f p \<noteq> 0 \<longrightarrow> p + f p \<le> N \<and> (\<forall>q. p < q \<and> q < p + f p \<longrightarrow> f q = 0)"
  shows "\<forall>p < N. g p \<noteq> 0 \<longrightarrow> p + g p \<le> N \<and> (\<forall>q. p < q \<and> q < p + g p \<longrightarrow> g q = 0)"
proof (intro allI impI)
  fix q assume q: "q < N" "g q \<noteq> 0"
  then have "g q = f q" using g [of q] by (simp split: if_splits)
  then show "q + g q \<le> N \<and> (\<forall>r. q < r \<and> r < q + g q \<longrightarrow> g r = 0)"
    using f q g by (metis less_le_trans)
qed

text \<open>A block in \<open>fits\<close> meets no other block.\<close>

lemma fits_before: "fits T n p \<Longrightarrow> 0 < n \<Longrightarrow> q < p \<Longrightarrow> pages_at T q \<noteq> 0 \<Longrightarrow> q + pages_at T q \<le> p"
  by (simp add: fits_def free_page_def)

lemma fits_inside: "fits T n p \<Longrightarrow> p \<le> q \<Longrightarrow> q < p + n \<Longrightarrow> pages_at T q = 0"
proof -
  assume "fits T n p" "p \<le> q" "q < p + n"
  then have "free_page T q" unfolding fits_def by simp
  then have "pages_at T q \<noteq> 0 \<longrightarrow> q + pages_at T q \<le> q" unfolding free_page_def by blast
  then show ?thesis by simp
qed

lemma place_free_page:
  assumes "fits T n p" and n: "0 < n" and "p + n \<le> 131072"
  shows "free_page (T(of_nat p := of_nat n)) q \<longleftrightarrow> free_page T q \<and> \<not> (p \<le> q \<and> q < p + n)"
proof (cases "q < 131072")
  case True
  have z: "pages_at T p = 0" using fits_inside [OF assms(1)] n by simp
  have upd: "pages_at (T(of_nat p := of_nat n)) r = (if r = p then n else pages_at T r)"
    if "r \<le> q" for r
    using that True assms(2,3) by (intro pages_at_upd) auto
  show ?thesis
    using True upd_blocks [of q _ p n "pages_at T", OF upd z n] unfolding free_page_def
    by (metis linorder_not_less)
qed (simp add: free_page_def)

lemma place_wf:
  assumes "heap_wf T" and "fits T n p" and "0 < n" and "p + n \<le> 131072"
  shows "heap_wf (T(of_nat p := of_nat n))"
  unfolding heap_wf_def
proof (intro allI impI)
  let ?T = "T(of_nat p := of_nat n)"
  have upd: "r < 131072 \<Longrightarrow> pages_at ?T r = (if r = p then n else pages_at T r)" for r
    using assms(3,4) by (intro pages_at_upd) auto
  fix q assume q: "q < 131072" "pages_at ?T q \<noteq> 0"
  show "q + pages_at ?T q \<le> 131072 \<and> (\<forall>r. q < r \<and> r < q + pages_at ?T q \<longrightarrow> pages_at ?T r = 0)"
  proof (cases "q = p")
    case True
    then show ?thesis using assms(3,4) upd fits_inside [OF assms(2)] by auto
  next
    case False
    then have nz: "pages_at T q \<noteq> 0" "pages_at ?T q = pages_at T q" using q upd by auto
    then have old: "q + pages_at T q \<le> 131072" "\<And>r. q < r \<Longrightarrow> r < q + pages_at T q \<Longrightarrow> pages_at T r = 0"
      using assms(1) q(1) unfolding heap_wf_def by blast+
    have "\<not> (q < p \<and> p < q + pages_at T q)" using fits_before [OF assms(2,3) _ nz(1)] by linarith
    then have "pages_at ?T r = 0" if "q < r" "r < q + pages_at T q" for r
      using that old upd [of r] by auto
    then show ?thesis using old(1) nz(2) by simp
  qed
qed

text \<open>Removing a block makes exactly its pages free.\<close>

lemma remove_wf: "heap_wf T \<Longrightarrow> p < 131072 \<Longrightarrow> heap_wf (T(of_nat p := 0))"
proof -
  assume wf: "heap_wf T" and p: "p < 131072"
  have upd: "r < 131072 \<Longrightarrow> pages_at (T(of_nat p := 0)) r = (if r = p then 0 else pages_at T r)" for r
    using pages_at_upd [OF p, of r 0] by simp
  show ?thesis
    using upd_wf [of 131072 "pages_at (T(of_nat p := 0))" p "pages_at T", OF upd] wf
    unfolding heap_wf_def by blast
qed

lemma clear_blocks:
  fixes f g :: "nat \<Rightarrow> nat"
  assumes g: "\<And>r. r \<le> q \<Longrightarrow> g r = (if r = p then 0 else f r)"
    and left: "\<And>r. r < p \<Longrightarrow> f r \<noteq> 0 \<Longrightarrow> f p \<noteq> 0 \<Longrightarrow> r + f r \<le> p"
    and right: "\<And>r. p < r \<Longrightarrow> r < p + f p \<Longrightarrow> f r = 0"
  shows "(\<forall>r \<le> q. g r \<noteq> 0 \<longrightarrow> r + g r \<le> q)
    \<longleftrightarrow> (\<forall>r \<le> q. f r \<noteq> 0 \<longrightarrow> r + f r \<le> q) \<or> (p \<le> q \<and> q < p + f p)"
proof -
  have "r + f r \<le> q" if "p \<le> q" "q < p + f p" "r \<le> q" "r \<noteq> p" "f r \<noteq> 0" for r
    using that left [of r] right [of r] by (cases "r < p") auto
  then show ?thesis using g by (metis linorder_not_less)
qed

lemma remove_free_page:
  assumes "heap_wf T" and p: "p < 131072"
  shows "free_page (T(of_nat p := 0)) q \<longleftrightarrow> free_page T q \<or> (p \<le> q \<and> q < p + pages_at T p)"
proof -
  have wf: "p + pages_at T p \<le> 131072" "\<And>r. p < r \<Longrightarrow> r < p + pages_at T p \<Longrightarrow> pages_at T r = 0"
    if "pages_at T p \<noteq> 0" using assms that unfolding heap_wf_def by blast+
  show ?thesis
  proof (cases "q < 131072")
    case True
    have upd: "r \<le> q \<Longrightarrow> pages_at (T(of_nat p := 0)) r = (if r = p then 0 else pages_at T r)" for r
      using pages_at_upd [OF p, of r 0] True by simp
    have "r + pages_at T r \<le> p" if "r < p" "pages_at T r \<noteq> 0" "pages_at T p \<noteq> 0" for r
      using that assms less_trans [OF that(1) p] unfolding heap_wf_def by (meson linorder_not_less)
    then show ?thesis
      using clear_blocks [of q _ p "pages_at T", OF upd] True wf unfolding free_page_def by auto
  next
    case False
    then have "\<not> (p \<le> q \<and> q < p + pages_at T p)" using wf(1) p by (cases "pages_at T p = 0") auto
    then show ?thesis using False by (simp add: free_page_def)
  qed
qed

section \<open>malloc and free over any placement strategy\<close>

text \<open>Every block is in the table of sizes with its address, and nothing else is.\<close>

definition uheap_inv :: "uheap \<Rightarrow> bool" where
  "uheap_inv u \<longleftrightarrow> heap_wf (UHeap_Tracker u) \<and> (\<forall>p < 131072. sizeOfVAs u (of_nat p) =
     (if pages_at (UHeap_Tracker u) p = 0 then \<lparr>uh_size = 0, uh_virtualAddress = 0\<rparr>
      else \<lparr>uh_size = hole_bytes (pages_at (UHeap_Tracker u) p), uh_virtualAddress = haddr p\<rparr>))"

definition pages_for :: "u32 \<Rightarrow> nat" where
  "pages_for sz = (unat sz + 4095) div 4096"

lemma ROUNDUP_hole:
  assumes "unat sz + 4095 < 4294967296"
  shows "ROUNDUP sz PAGE_SIZE = hole_bytes (pages_for sz)" and "pages_for sz < 1048576"
proof -
  show b: "pages_for sz < 1048576" using assms by (simp add: pages_for_def)
  have "unat (ROUNDUP sz PAGE_SIZE) = pages_for sz * 4096"
    using assms by (subst unat_ROUNDUP) (simp_all add: PAGE_SIZE_def pages_for_def)
  then have "unat (ROUNDUP sz PAGE_SIZE) = unat (hole_bytes (pages_for sz))"
    using unat_hole_bytes [OF b] by simp
  then show "ROUNDUP sz PAGE_SIZE = hole_bytes (pages_for sz)" by (rule unsigned_word_eqI)
qed

lemma pages_for_pos: "0 < sz \<Longrightarrow> 0 < pages_for sz"
  by (simp add: pages_for_def word_less_nat_alt)

lemma hole_bytes_div:
  assumes "n < 1048576"
  shows "hole_bytes n div PAGE_SIZE = of_nat n"
proof -
  have "unat (hole_bytes n div PAGE_SIZE) = n"
    using unat_hole_bytes [OF assms] by (simp add: unat_div_distrib PAGE_SIZE_def)
  then have "of_nat n = (of_nat (unat (hole_bytes n div PAGE_SIZE)) :: u32)" by simp
  then show ?thesis by simp
qed

text \<open>
  What malloc() promises: a block of free pages that are then the only pages taken, with the
  system call for it; or NULL, when no sequence of free pages is long enough, and no change.
\<close>

definition malloc_took :: "uheap \<Rightarrow> u32 \<Rightarrow> (u32 \<times> uheap) result \<Rightarrow> bool" where
  "malloc_took u sz r \<longleftrightarrow>
     (\<exists>p u'. r = Inr (haddr p, u') \<and> p + pages_for sz \<le> 131072
        \<and> fits (UHeap_Tracker u) (pages_for sz) p \<and> uheap_inv u'
        \<and> (\<forall>q. free_page (UHeap_Tracker u') q \<longleftrightarrow>
              free_page (UHeap_Tracker u) q \<and> \<not> (p \<le> q \<and> q < p + pages_for sz))
        \<and> UHeap_Tracker u' = (UHeap_Tracker u)(of_nat p := of_nat (pages_for sz))
        \<and> sizeOfVAs u' = (sizeOfVAs u)(of_nat p :=
              \<lparr>uh_size = hole_bytes (pages_for sz), uh_virtualAddress = haddr p\<rparr>)
        \<and> syscalls u' = syscalls u @ [Sys_allocateMem (haddr p) (hole_bytes (pages_for sz))]
        \<and> generalAddress u' \<in> {haddr p, USER_HEAP_START})"

definition malloc_null :: "uheap \<Rightarrow> (u32 \<times> uheap) result \<Rightarrow> bool" where
  "malloc_null u r \<longleftrightarrow> (\<exists>u'. r = Inr (0, u') \<and> UHeap_Tracker u' = UHeap_Tracker u
     \<and> sizeOfVAs u' = sizeOfVAs u \<and> syscalls u' = syscalls u
     \<and> generalAddress u' \<in> {generalAddress u, USER_HEAP_START})"

definition malloc_spec :: "uheap \<Rightarrow> u32 \<Rightarrow> (u32 \<times> uheap) result \<Rightarrow> bool" where
  "malloc_spec u sz r \<longleftrightarrow> malloc_took u sz r
     \<or> malloc_null u r \<and> (\<forall>p. \<not> fits (UHeap_Tracker u) (pages_for sz) p)"

text \<open>
  The contract of a placement search, on well-formed heaps that meet its precondition \<open>ok\<close>: it
  returns, and an address it answers with starts enough free pages. A complete search answers with
  none only when no address does.
\<close>

locale placement_sound =
  fixes ok :: "(u32 \<Rightarrow> u32) \<Rightarrow> bool" and search :: "(u32 \<Rightarrow> u32) \<Rightarrow> u32 \<Rightarrow> u32 option result"
  assumes search_sound: "heap_wf T \<Longrightarrow> ok T \<Longrightarrow> 0 < n \<Longrightarrow> n < 1048576 \<Longrightarrow>
    (\<exists>a. search T (hole_bytes n) = Inr (Some (haddr a)) \<and> fits T n a)
    \<or> search T (hole_bytes n) = Inr None"

locale placement = placement_sound +
  assumes search_complete: "heap_wf T \<Longrightarrow> ok T \<Longrightarrow> 0 < n \<Longrightarrow> n < 1048576 \<Longrightarrow>
    search T (hole_bytes n) = Inr None \<Longrightarrow> \<not> fits T n c"

lemma pick_spec_fits:
  "pick_spec le T n r \<Longrightarrow> (\<exists>a. r = Inr (Some (haddr a)) \<and> fits T n a) \<or> (r = Inr None \<and> (\<forall>c. \<not> fits T n c))"
  unfolding pick_spec_def closed_hole_def using fits_mono [of T _ _ n] by blast

lemma placementI:
  assumes "\<And>T n. heap_wf T \<Longrightarrow> 0 < n \<Longrightarrow> n < 1048576 \<Longrightarrow>
      (\<exists>a. search T (hole_bytes n) = Inr (Some (haddr a)) \<and> fits T n a)
      \<or> (search T (hole_bytes n) = Inr None \<and> (\<forall>c. \<not> fits T n c))"
  shows "placement (\<lambda>T. True) search"
proof unfold_locales
  fix T :: "u32 \<Rightarrow> u32" and n c :: nat
  assume "heap_wf T" "0 < n" "n < 1048576"
  note r = assms [OF this]
  from r show "(\<exists>a. search T (hole_bytes n) = Inr (Some (haddr a)) \<and> fits T n a)
      \<or> search T (hole_bytes n) = Inr None" by blast
  from r show "search T (hole_bytes n) = Inr None \<Longrightarrow> \<not> fits T n c" by auto
qed

interpretation ff: placement "\<lambda>T. True" first_fit
proof (rule placementI)
  fix T :: "u32 \<Rightarrow> u32" and n :: nat
  assume "heap_wf T" "0 < n" "n < 1048576"
  from first_fit_spec [OF this] show "(\<exists>a. first_fit T (hole_bytes n) = Inr (Some (haddr a)) \<and> fits T n a)
      \<or> (first_fit T (hole_bytes n) = Inr None \<and> (\<forall>c. \<not> fits T n c))" by blast
qed

interpretation bf: placement "\<lambda>T. True" best_fit
  by (rule placementI) (rule pick_spec_fits [OF best_fit_spec])

interpretation wof: placement "\<lambda>T. True" worst_fit
  by (rule placementI) (rule pick_spec_fits [OF worst_fit_spec])

section \<open>Next fit, page by page\<close>

text \<open>A page that no block runs over: the scan may stand there.\<close>

definition boundary :: "(u32 \<Rightarrow> u32) \<Rightarrow> nat \<Rightarrow> bool" where
  "boundary T p \<longleftrightarrow> (\<forall>q < p. pages_at T q \<noteq> 0 \<longrightarrow> q + pages_at T q \<le> p)"

lemma boundary_free:
  assumes "boundary T p" and "p < 131072" and "pages_at T p = 0"
  shows "boundary T (p + 1)" and "free_page T p"
  using assms by (auto simp: boundary_def free_page_def less_Suc_eq le_SucI le_less)

lemma boundary_block:
  assumes wf: "heap_wf T" and b: "boundary T p" and p: "p < 131072" "pages_at T p \<noteq> 0"
  shows "boundary T (p + pages_at T p)" and "p + pages_at T p \<le> 131072"
    and "p \<le> q \<Longrightarrow> q < p + pages_at T p \<Longrightarrow> \<not> free_page T q"
    and "boundary T p0 \<Longrightarrow> p < p0 \<Longrightarrow> p + pages_at T p \<le> p0"
proof -
  have wf': "p + pages_at T p \<le> 131072" "\<And>q. p < q \<Longrightarrow> q < p + pages_at T p \<Longrightarrow> pages_at T q = 0"
    using wf p unfolding heap_wf_def by blast+
  then show "p + pages_at T p \<le> 131072" by simp
  show "\<not> free_page T q" if "p \<le> q" "q < p + pages_at T p"
    using p that unfolding free_page_def by (meson not_le)
  show "p + pages_at T p \<le> p0" if "boundary T p0" "p < p0" using that p unfolding boundary_def by blast
  show "boundary T (p + pages_at T p)" unfolding boundary_def
  proof (intro allI impI)
    fix q assume q: "q < p + pages_at T p" "pages_at T q \<noteq> 0"
    show "q + pages_at T q \<le> p + pages_at T p"
    proof (cases "q < p")
      case True
      then show ?thesis using b q(2) unfolding boundary_def by fastforce
    next
      case False
      then have "q = p" using wf'(2) [of q] q by linarith
      then show ?thesis by simp
    qed
  qed
qed

text \<open>
  The search begins at page \<open>p0\<close>, goes to the end of the heap (\<open>wrapped\<close> false) and then from
  page 0 back to \<open>p0\<close>. At page \<open>p\<close> the pages from \<open>e\<close> on are the current hole.
\<close>

definition nf_at :: "(u32 \<Rightarrow> u32) \<Rightarrow> nat \<Rightarrow> nat \<Rightarrow> bool \<Rightarrow> nat \<Rightarrow> nat \<Rightarrow> bool" where
  "nf_at T n p0 wrapped p e \<longleftrightarrow> boundary T p \<and> (if wrapped then 0 else p0) \<le> e \<and> e \<le> p
     \<and> p \<le> (if wrapped then p0 else 131072) \<and> (\<forall>q \<in> {e..<p}. free_page T q) \<and> p - e < n
     \<and> (\<forall>c. fits T n c \<and> (wrapped \<or> p0 \<le> c) \<longrightarrow> e \<le> c)
     \<and> (wrapped \<longrightarrow> (\<forall>c. fits T n c \<longrightarrow> c < p0))"

definition nf_spec :: "(u32 \<Rightarrow> u32) \<Rightarrow> nat \<Rightarrow> nat \<Rightarrow> u32 option result \<Rightarrow> bool" where
  "nf_spec T n p0 r \<longleftrightarrow> (\<exists>a. r = Inr (Some (haddr a)) \<and> fits T n a)
     \<or> (r = Inr None \<and> (\<forall>c. fits T n c \<longrightarrow> c < p0 \<and> p0 < c + n))"

definition nf_left :: "nat \<Rightarrow> bool \<Rightarrow> nat \<Rightarrow> nat" where
  "nf_left p0 wrapped p = (if wrapped then p0 - p else 131072 - p + p0)"

lemma nf_at_free:
  assumes at: "nf_at T n p0 w p e" and p: "p < 131072" "pages_at T p = 0" "p < (if w then p0 else 131072)"
    and small: "p + 1 - e < n"
  shows "nf_at T n p0 w (p + 1) e"
proof -
  have b: "boundary T p" using at by (simp add: nf_at_def)
  have "free_page T q" if "q \<in> {e..<p + 1}" for q
    using that at boundary_free(2) [OF b p(1,2)] by (cases "q = p") (auto simp: nf_at_def)
  then show ?thesis
    using at small p(3) boundary_free(1) [OF b p(1,2)] unfolding nf_at_def by auto
qed

lemma nf_at_block:
  assumes wf: "heap_wf T" and at: "nf_at T n p0 w p e" and p: "p < 131072" "pages_at T p \<noteq> 0"
    and hi: "p < (if w then p0 else 131072)" and p0: "boundary T p0" and n: "0 < n"
  shows "nf_at T n p0 w (p + pages_at T p) (p + pages_at T p)"
proof -
  let ?p = "p + pages_at T p"
  have b: "boundary T p" using at by (simp add: nf_at_def)
  note bb = boundary_block [OF wf b p]
  have e: "e \<le> p" "p - e < n" using at by (simp_all add: nf_at_def)
  have "?p \<le> c" if f: "fits T n c" and c: "e \<le> c" for c
  proof (rule ccontr)
    assume "\<not> ?p \<le> c"
    then have "max c p \<in> {c..<c + n}" "p \<le> max c p" "max c p < ?p" using c e n p(2) by auto
    then show False using f bb(3) [of "max c p"] unfolding fits_def by blast
  qed
  then show ?thesis
    using at bb(1,2) bb(4) [OF p0] hi n unfolding nf_at_def by (auto split: if_splits)
qed

text \<open>At the end of the heap the search goes on from page 0.\<close>

lemma nf_at_wrap:
  assumes at: "nf_at T n p0 w 131072 e" and p0: "p0 < 131072" and n: "0 < n"
  shows "\<not> w" and "nf_at T n p0 True 0 0" and "nf_left p0 w 131072 = nf_left p0 True 0"
proof -
  show w: "\<not> w" using at p0 by (auto simp: nf_at_def)
  then show "nf_left p0 w 131072 = nf_left p0 True 0" by (simp add: nf_left_def)
  have "c < p0" if "fits T n c" for c
  proof (rule ccontr)
    assume "\<not> c < p0"
    then have "e \<le> c" using at that w by (simp add: nf_at_def)
    moreover have "131072 - e < n" using at by (simp add: nf_at_def)
    ultimately show False using fits_within [OF that n] by linarith
  qed
  then show "nf_at T n p0 True 0 0" using n by (simp add: nf_at_def boundary_def)
qed

lemma nf_at_end: "nf_at T n p0 True p0 e \<Longrightarrow> fits T n c \<Longrightarrow> c < p0 \<and> p0 < c + n"
  unfolding nf_at_def by fastforce

lemma word_minus_pages:
  "pages_at T p \<le> k \<Longrightarrow> (of_nat k :: u32) - T (of_nat p) = of_nat (k - pages_at T p)"
  by (simp add: pages_at_def of_nat_diff)

text \<open>The loop leaves when no page is left to visit.\<close>

lemma nf_exit:
  assumes at: "nf_at T n p0 w p e" and "w \<or> p < 131072" and "nf_left p0 w p = 0"
    and n: "n < 1048576" and p0: "p0 < 131072"
  shows "\<not> hole_bytes n \<le> hole_bytes (p - e)" and "nf_spec T n p0 (Inr None)"
proof -
  have w: "w" "p = p0" using assms by (auto simp: nf_left_def nf_at_def split: if_splits)
  have "p - e < n" using at by (simp add: nf_at_def)
  then show "\<not> hole_bytes n \<le> hole_bytes (p - e)"
    using n p0 w(2) hole_bytes_le [of n "p - e"] by simp
  show "nf_spec T n p0 (Inr None)"
    using nf_at_end [of T n p0 e] at w unfolding nf_spec_def by simp
qed

lemma hole_bytes_0: "hole_bytes 0 = 0"
  by (simp add: hole_bytes_def)

lemma nf_loop_spec:
  assumes wf: "heap_wf T" and p0: "p0 < 131072" "boundary T p0" and n: "0 < n" "n < 1048576"
  shows "nf_at T n p0 w p e \<Longrightarrow> w \<or> p < 131072 \<Longrightarrow> nf_left p0 w p \<le> fuel
    \<Longrightarrow> (e < p \<Longrightarrow> j = Some (haddr e)) \<Longrightarrow>
    nf_spec T n p0 (nf_loop fuel T (hole_bytes n) (of_nat (nf_left p0 w p)) (haddr p) (e < p) j
      (hole_bytes (p - e)))"
proof (induction fuel arbitrary: w p e j)
  case 0
  then show ?case using nf_exit [OF 0(1,2)] n p0(1) by simp
next
  case (Suc fuel)
  note at = Suc.prems(1)
  have p: "p < 131072" "e \<le> p" "p - e < n" "p \<le> (if w then p0 else 131072)" "\<not> w \<Longrightarrow> p0 \<le> p"
    using at Suc.prems(2) p0(1) by (auto simp: nf_at_def split: if_splits)
  have small: "hole_bytes n \<le> hole_bytes (q - r) \<longleftrightarrow> n \<le> q - r" if "q \<le> 131072" for q r
    using that n by (intro hole_bytes_le) auto
  have next_step: "nf_spec T n p0 (if USER_HEAP_MAX \<le> haddr q then
        nf_loop fuel T (hole_bytes n) (of_nat (nf_left p0 w q)) USER_HEAP_START False i 0
      else nf_loop fuel T (hole_bytes n) (of_nat (nf_left p0 w q)) (haddr q) (r < q) i (hole_bytes (q - r)))"
    if q: "nf_at T n p0 w q r" "p < q" "r < q \<Longrightarrow> i = Some (haddr r)" for q r i
  proof -
    have q131: "q \<le> 131072" using q(1) p0(1) by (auto simp: nf_at_def split: if_splits)
    have left: "nf_left p0 w q < nf_left p0 w p"
      using q(2) q131 p(1,4) q(1) by (auto simp: nf_left_def nf_at_def)
    show ?thesis
    proof (cases "q = 131072")
      case True
      note wr = nf_at_wrap [OF q(1) [unfolded True] p0(1) n(1)]
      have "nf_spec T n p0 (nf_loop fuel T (hole_bytes n) (of_nat (nf_left p0 True 0)) (haddr 0)
          (0 < (0 :: nat)) i (hole_bytes (0 - 0)))"
        using Suc.prems(3) left wr(3) True by (intro Suc.IH wr(2)) simp_all
      moreover have "USER_HEAP_MAX \<le> haddr 131072" using haddr_less [of 131072] by simp
      ultimately show ?thesis unfolding True wr(3)
        by (simp add: haddr_def hole_bytes_def)
    next
      case False
      then have "\<not> USER_HEAP_MAX \<le> haddr q" using q131 haddr_less [of q] by (simp add: not_le)
      moreover have "nf_spec T n p0 (nf_loop fuel T (hole_bytes n) (of_nat (nf_left p0 w q)) (haddr q)
          (r < q) i (hole_bytes (q - r)))"
        using Suc.prems(3) left q131 False q(3) by (intro Suc.IH q(1)) simp_all
      ultimately show ?thesis by simp
    qed
  qed
  show ?case
  proof (cases "nf_left p0 w p = 0")
    case True
    then show ?thesis using nf_exit [OF at Suc.prems(2) True n(2) p0(1)] by simp
  next
    case False
    then have hi: "p < (if w then p0 else 131072)" using p(1) by (auto simp: nf_left_def split: if_splits)
    have "nf_left p0 w p \<le> 131072" using p0(1) p(5) by (auto simp: nf_left_def)
    then have "unat (of_nat (nf_left p0 w p) :: u32) = nf_left p0 w p" by (simp add: unat_of_nat)
    then have k: "(of_nat (nf_left p0 w p) :: u32) \<noteq> 0" using False by auto
    have t: "T (page_index (haddr p)) = T (of_nat p)" using p(1) by (simp add: page_index_haddr)
    show ?thesis
    proof (cases "pages_at T p = 0")
      case True
      then have T0: "T (of_nat p) = 0" by (simp add: pages_at_def unsigned_eq_0_iff)
      have k1: "(of_nat (nf_left p0 w p) :: u32) - 1 = of_nat (nf_left p0 w (p + 1))"
        using False hi by (auto simp: nf_left_def of_nat_diff split: if_splits)
      let ?j = "if \<not> e < p then Some (haddr p) else j"
      have j: "?j = Some (haddr e)" using Suc.prems(4) p(2) by auto
      have cur: "hole_bytes (p - e) + PAGE_SIZE = hole_bytes (p + 1 - e)"
        using p(2) by (simp add: hole_bytes_def Suc_diff_le algebra_simps)
      show ?thesis
      proof (cases "n \<le> p + 1 - e")
        case big: True
        then have "n = p + 1 - e" using p(3) by linarith
        moreover have "fits T (p + 1 - e) e"
          using at True boundary_free(2) [OF _ p(1) True] p(2) unfolding fits_def nf_at_def
          by (auto simp: less_Suc_eq)
        ultimately show ?thesis
          using k t T0 j cur by (auto simp: nf_spec_def use_j_def Let_def)
      next
        case nbig: False
        then have "nf_at T n p0 w (p + 1) e" using nf_at_free [OF at p(1) True hi] by simp
        from next_step [OF this, of "Some (haddr e)"] show ?thesis
          using nbig k t T0 j cur k1 small [of "p + 1" e] p(1,2)
          by (simp add: Let_def haddr_Suc split: if_split_asm)
      qed
    next
      case nz: False
      then have T0: "T (of_nat p) \<noteq> 0" by (auto simp: pages_at_def)
      note bk = nf_at_block [OF wf at p(1) nz hi p0(2) n(1)]
      have "pages_at T p \<le> nf_left p0 w p"
        "nf_left p0 w p - pages_at T p = nf_left p0 w (p + pages_at T p)"
        using bk p(5) by (auto simp: nf_left_def nf_at_def split: if_splits)
      then have k1: "(of_nat (nf_left p0 w p) :: u32) - T (of_nat p)
          = of_nat (nf_left p0 w (p + pages_at T p))"
        using word_minus_pages [of T p "nf_left p0 w p"] by simp
      have "\<not> hole_bytes n \<le> hole_bytes (p - e)" "\<not> hole_bytes n \<le> 0"
        using small [of p e] small [of 0 0] p(1,3) n(1) by (simp_all add: hole_bytes_def)
      then show ?thesis
        using next_step [OF bk, of j] nz k t T0 k1
        by (simp add: Let_def haddr_block hole_bytes_0 split: if_split_asm)
    qed
  qed
qed

lemma unat_HEAP_PAGES: "unat HEAP_PAGES = 131072"
  by (simp add: HEAP_PAGES_def fos_consts)

lemma next_fit_spec:
  assumes "heap_wf T" and p0: "p0 < 131072" "boundary T p0" and n: "0 < n" "n < 1048576"
  shows "nf_spec T n p0 (next_fit T (haddr p0) (hole_bytes n))"
proof -
  have "nf_at T n p0 False p0 p0" using p0 n(1) by (simp add: nf_at_def)
  from nf_loop_spec [OF assms this, of 131072 None] show ?thesis
    using p0(1) by (simp add: next_fit_def nf_left_def unat_HEAP_PAGES hole_bytes_0)
      (simp add: HEAP_PAGES_def fos_consts)
qed

text \<open>Next fit is a sound search from any address no block runs over.\<close>

definition next_ok :: "u32 \<Rightarrow> (u32 \<Rightarrow> u32) \<Rightarrow> bool" where
  "next_ok start T \<longleftrightarrow> (\<exists>p0 < 131072. start = haddr p0 \<and> boundary T p0)"

interpretation nf: placement_sound "next_ok start" "\<lambda>T. next_fit T start" for start
proof unfold_locales
  fix T :: "u32 \<Rightarrow> u32" and n :: nat
  assume wf: "heap_wf T" and ok: "next_ok start T" and n: "0 < n" "n < 1048576"
  from ok obtain p0 where "p0 < 131072" "boundary T p0" "start = haddr p0" unfolding next_ok_def by blast
  then show "(\<exists>a. next_fit T start (hole_bytes n) = Inr (Some (haddr a)) \<and> fits T n a)
      \<or> next_fit T start (hole_bytes n) = Inr None"
    using next_fit_spec [OF wf _ _ n, of p0] unfolding nf_spec_def by auto
qed

text \<open>Recording a block in free pages keeps the invariant.\<close>

lemma uheap_inv_place:
  assumes inv: "uheap_inv u" and f: "fits (UHeap_Tracker u) n p" and n: "0 < n" "p + n \<le> 131072"
  shows "uheap_inv (u\<lparr>UHeap_Tracker := (UHeap_Tracker u)(of_nat p := of_nat n), syscalls := cs,
       sizeOfVAs := (sizeOfVAs u)(of_nat p := \<lparr>uh_size = hole_bytes n, uh_virtualAddress = haddr p\<rparr>),
       generalAddress := g\<rparr>)"
proof -
  have "p < 131072" using n by linarith
  then have upd: "pages_at ((UHeap_Tracker u)(of_nat p := of_nat n)) q
      = (if q = p then n else pages_at (UHeap_Tracker u) q)"
    and eq: "(of_nat q :: u32) = of_nat p \<longleftrightarrow> q = p" if "q < 131072" for q
    using that n pages_at_upd [of p q n] by (simp_all add: word_of_nat_eq_iff take_bit_nat_eq_self)
  show ?thesis
    using inv n(1) place_wf [OF _ f n] unfolding uheap_inv_def by (simp add: upd eq)
qed

text \<open>The promise follows from the contract of the search alone.\<close>

context placement_sound
begin

lemma malloc_sound:
  assumes inv: "uheap_inv u" and ok: "ok (UHeap_Tracker u)" and sz: "0 < sz" "unat sz + 4095 < 4294967296"
    and ch: "\<And>sz. choose_address strategy u sz =
      rbind (search (UHeap_Tracker u) sz) (\<lambda>a. Inr (a, u\<lparr>generalAddress := g\<rparr>))"
    and g: "g \<in> {generalAddress u, USER_HEAP_START}"
  shows "malloc_took u sz (malloc strategy u sz) \<or> malloc_null u (malloc strategy u sz)
    \<and> search (UHeap_Tracker u) (hole_bytes (pages_for sz)) = Inr None"
proof -
  define n where "n = pages_for sz"
  have n: "0 < n" "n < 1048576" and r: "ROUNDUP sz PAGE_SIZE = hole_bytes n"
    using ROUNDUP_hole [OF sz(2)] pages_for_pos [OF sz(1)] by (simp_all add: n_def)
  have wf: "heap_wf (UHeap_Tracker u)" using inv by (simp add: uheap_inv_def)
  from search_sound [OF wf ok n] show ?thesis
  proof (elim disjE exE conjE)
    fix p assume s: "search (UHeap_Tracker u) (hole_bytes n) = Inr (Some (haddr p))"
      and f: "fits (UHeap_Tracker u) n p"
    have pn: "p + n \<le> 131072" by (rule fits_within [OF f n(1)])
    then have p: "p < 131072" "page_index (haddr p) < HEAP_PAGES" using n(1) page_index_haddr [of p]
      by (simp_all add: HEAP_PAGES_def fos_consts word_less_nat_alt unat_of_nat)
    show ?thesis
      unfolding malloc_took_def n_def [symmetric]
      using s p pn f uheap_inv_place [OF inv f n(1) pn] place_free_page [OF f n(1) pn]
      by (intro disjI1 exI [of _ p])
        (simp add: malloc_def Let_def r ch page_index_haddr hole_bytes_div n(2))
  next
    assume "search (UHeap_Tracker u) (hole_bytes n) = Inr None"
    then show ?thesis unfolding malloc_null_def n_def [symmetric]
      by (intro disjI2) (use g in \<open>simp add: malloc_def Let_def r ch\<close>)
  qed
qed

end

context placement
begin

lemma malloc_meets_spec:
  assumes "uheap_inv u" and "ok (UHeap_Tracker u)" and sz: "0 < sz" "unat sz + 4095 < 4294967296"
    and "\<And>sz. choose_address strategy u sz =
      rbind (search (UHeap_Tracker u) sz) (\<lambda>a. Inr (a, u\<lparr>generalAddress := g\<rparr>))"
    and g: "g \<in> {generalAddress u, USER_HEAP_START}"
  shows "malloc_spec u sz (malloc strategy u sz)"
proof -
  have "heap_wf (UHeap_Tracker u)" using assms(1) by (simp add: uheap_inv_def)
  then show ?thesis
    using malloc_sound [OF assms] search_complete [of "UHeap_Tracker u" "pages_for sz"] assms(2)
      ROUNDUP_hole(2) [OF sz(2)] pages_for_pos [OF sz(1)]
    unfolding malloc_spec_def by blast
qed

end

lemma malloc_searching:
  assumes "uheap_inv u" and "0 < sz" "unat sz + 4095 < 4294967296"
    and "strategy \<in> {UHP_PLACE_FIRSTFIT, UHP_PLACE_BESTFIT, UHP_PLACE_WORSTFIT}"
  shows "malloc_spec u sz (malloc strategy u sz)"
  using assms(4)
proof (elim insertE emptyE)
  assume "strategy = UHP_PLACE_FIRSTFIT"
  then show ?thesis using assms(1-3)
    by (intro ff.malloc_meets_spec [of _ _ _ USER_HEAP_START]) (simp_all add: choose_address_def uhp_consts)
next
  assume "strategy = UHP_PLACE_BESTFIT"
  then show ?thesis using assms(1-3)
    by (intro bf.malloc_meets_spec [of _ _ _ USER_HEAP_START]) (simp_all add: choose_address_def uhp_consts)
next
  assume "strategy = UHP_PLACE_WORSTFIT"
  then show ?thesis using assms(1-3)
    by (intro wof.malloc_meets_spec [of _ _ _ USER_HEAP_START]) (simp_all add: choose_address_def uhp_consts)
qed

text \<open>The search of free() in the table of sizes.\<close>

lemma free_search_step:
  assumes "unat i < 131072"
  shows "free_search u va i = (if uh_virtualAddress (sizeOfVAs u i) = va then Some i
           else free_search u va (i + 1))" and "unat (i + 1) = unat i + 1"
proof -
  have lt: "i < HEAP_PAGES" using assms by (simp add: word_less_nat_alt unat_HEAP_PAGES)
  then show "free_search u va i = (if uh_virtualAddress (sizeOfVAs u i) = va then Some i
           else free_search u va (i + 1))" by (simp add: free_search.simps [of u va i])
  show "unat (i + 1) = unat i + 1" by (rule unat_plus1_less [OF lt])
qed

lemma free_search_Some:
  assumes "p < 131072" and "uh_virtualAddress (sizeOfVAs u (of_nat p)) = va"
    and "\<And>q. unat i \<le> q \<Longrightarrow> q < p \<Longrightarrow> uh_virtualAddress (sizeOfVAs u (of_nat q)) \<noteq> va"
    and "unat i \<le> p"
  shows "free_search u va i = Some (of_nat p)"
  using assms(3,4)
proof (induction "p - unat i" arbitrary: i)
  case 0
  then have i: "unat i = p" by simp
  have "i = of_nat (unat i)" by simp
  then have "i = of_nat p" unfolding i .
  then show ?case using free_search_step(1) [of i u va] assms(1,2) i by simp
next
  case (Suc d)
  then have lt: "unat i < p" by simp
  have "uh_virtualAddress (sizeOfVAs u i) \<noteq> va" using Suc.prems(1) [of "unat i"] lt by simp
  moreover have "free_search u va (i + 1) = Some (of_nat p)"
    using Suc lt free_search_step(2) [of i] assms(1) by (intro Suc.hyps(1)) simp_all
  ultimately show ?case using free_search_step(1) [of i u va] lt assms(1) by simp
qed

lemma free_search_None:
  assumes "\<And>q. q < 131072 \<Longrightarrow> uh_virtualAddress (sizeOfVAs u (of_nat q)) \<noteq> va"
  shows "free_search u va i = None"
proof (induction "131072 - unat i" arbitrary: i)
  case 0
  then show ?case by (simp add: free_search.simps [of u va i] word_less_nat_alt unat_HEAP_PAGES)
next
  case (Suc d)
  then have lt: "unat i < 131072" by simp
  then have "uh_virtualAddress (sizeOfVAs u i) \<noteq> va" using assms [of "unat i"] by simp
  moreover have "free_search u va (i + 1) = None"
    using Suc(2) lt free_search_step(2) [of i] by (intro Suc.hyps(1)) simp
  ultimately show ?case using free_search_step(1) [of i u va] lt by simp
qed

lemma haddr_inj: "p < 131072 \<Longrightarrow> q < 131072 \<Longrightarrow> haddr p = haddr q \<longleftrightarrow> p = q"
proof -
  assume "p < 131072" "q < 131072"
  then have "unat (haddr p) = 2147483648 + p * 4096" "unat (haddr q) = 2147483648 + q * 4096"
    by (simp_all add: unat_haddr)
  then show ?thesis by (metis add_left_cancel mult_cancel2 zero_neq_numeral)
qed

lemma haddr_neq_0: "p < 131072 \<Longrightarrow> haddr p \<noteq> 0"
  using unat_haddr [of p] by auto

text \<open>The addresses in the table of sizes.\<close>

lemma table_address:
  "uheap_inv u \<Longrightarrow> p < 131072 \<Longrightarrow> uh_virtualAddress (sizeOfVAs u (of_nat p)) =
     (if pages_at (UHeap_Tracker u) p = 0 then 0 else haddr p)"
  "uheap_inv u \<Longrightarrow> p < 131072 \<Longrightarrow> uh_size (sizeOfVAs u (of_nat p)) = hole_bytes (pages_at (UHeap_Tracker u) p)"
  by (simp_all add: uheap_inv_def hole_bytes_def)

lemma free_search_block:
  assumes inv: "uheap_inv u" and p: "p < 131072" "pages_at (UHeap_Tracker u) p \<noteq> 0"
  shows "free_search u (haddr p) 0 = Some (of_nat p)"
proof (rule free_search_Some [OF p(1)])
  show "uh_virtualAddress (sizeOfVAs u (of_nat q)) \<noteq> haddr p" if "q < p" for q
    using that p haddr_inj [of q p] haddr_neq_0 [of p] table_address(1) [OF inv, of q] by simp
qed (simp_all add: table_address(1) [OF inv p(1)] p)

text \<open>What free() does at the address of a block.\<close>

lemma free_block_eq:
  assumes inv: "uheap_inv u" and p: "p < 131072" "pages_at (UHeap_Tracker u) p \<noteq> 0"
  shows "free u (haddr p) = Inr (u\<lparr>UHeap_Tracker := (UHeap_Tracker u)(of_nat p := 0),
      syscalls := syscalls u @ [Sys_freeMem (haddr p) (hole_bytes (pages_at (UHeap_Tracker u) p))],
      sizeOfVAs := (sizeOfVAs u)(of_nat p := \<lparr>uh_size = 0, uh_virtualAddress = 0\<rparr>)\<rparr>)"
proof -
  have "page_index (haddr p) = of_nat p" "(of_nat p :: u32) < HEAP_PAGES"
    using p(1) by (simp_all add: page_index_haddr word_less_nat_alt unat_HEAP_PAGES unat_of_nat)
  then show ?thesis
    by (simp add: free_def Let_def free_search_block [OF inv p] table_address [OF inv p(1)] p)
qed

lemma uheap_inv_remove:
  assumes inv: "uheap_inv u" and p: "p < 131072"
  shows "uheap_inv (u\<lparr>UHeap_Tracker := (UHeap_Tracker u)(of_nat p := 0), syscalls := cs,
      sizeOfVAs := (sizeOfVAs u)(of_nat p := \<lparr>uh_size = 0, uh_virtualAddress = 0\<rparr>)\<rparr>)"
proof -
  have upd: "pages_at ((UHeap_Tracker u)(of_nat p := 0)) q
      = (if q = p then 0 else pages_at (UHeap_Tracker u) q)"
    and eq: "(of_nat q :: u32) = of_nat p \<longleftrightarrow> q = p" if "q < 131072" for q
    using that p pages_at_upd [of p q 0] by (simp_all add: word_of_nat_eq_iff take_bit_nat_eq_self)
  show ?thesis
    using inv remove_wf [OF _ p] unfolding uheap_inv_def by (simp add: upd eq)
qed

text \<open>A concrete heap: one block of two pages at the start, one page at page 3, the rest free.\<close>

definition sample_uheap :: uheap where
  "sample_uheap = \<lparr>sizeOfVAs = (\<lambda>i. if i = 0 then \<lparr>uh_size = 8192, uh_virtualAddress = 0x80000000\<rparr>
       else if i = 3 then \<lparr>uh_size = 4096, uh_virtualAddress = 0x80003000\<rparr>
       else \<lparr>uh_size = 0, uh_virtualAddress = 0\<rparr>),
     UHeap_Tracker = (\<lambda>i. if i = 0 then 2 else if i = 3 then 1 else 0),
     generalAddress = USER_HEAP_START, syscalls = []\<rparr>"

lemma sample_pages: "p < 131072 \<Longrightarrow> pages_at (UHeap_Tracker sample_uheap) p = (if p = 0 then 2 else if p = 3 then 1 else 0)"
proof -
  assume "p < 131072"
  then have "(of_nat p :: u32) = 0 \<longleftrightarrow> p = 0" "(of_nat p :: u32) = 3 \<longleftrightarrow> p = 3"
    using word_of_nat_eq_iff [of p 3, where 'a = 32] word_of_nat_eq_iff [of p 0, where 'a = 32]
    by (simp_all add: take_bit_nat_eq_self)
  then show ?thesis by (simp add: pages_at_def sample_uheap_def)
qed

lemma sample_uheap_inv: "uheap_inv sample_uheap"
proof -
  have "heap_wf (UHeap_Tracker sample_uheap)"
    unfolding heap_wf_def by (auto simp: sample_pages split: if_splits)
  moreover have "(of_nat p :: u32) = 0 \<longleftrightarrow> p = 0" "(of_nat p :: u32) = 3 \<longleftrightarrow> p = 3" if "p < 131072" for p
    using that word_of_nat_eq_iff [of p 3, where 'a = 32] word_of_nat_eq_iff [of p 0, where 'a = 32]
    by (simp_all add: take_bit_nat_eq_self)
  ultimately show ?thesis
    unfolding uheap_inv_def by (auto simp: sample_pages)
      (auto simp: sample_uheap_def hole_bytes_def haddr_def fos_consts)
qed

section \<open>Runs of the heap\<close>

text \<open>The heap invariant with the next-fit address at a place from which the search can start.\<close>

definition uheap_ok :: "uheap \<Rightarrow> bool" where
  "uheap_ok u \<longleftrightarrow> uheap_inv u \<and> next_ok (generalAddress u) (UHeap_Tracker u)"

lemma next_ok_start: "next_ok USER_HEAP_START T"
  unfolding next_ok_def by (rule exI [of _ 0]) (simp add: haddr_def boundary_def)

lemma next_ok_placed:
  assumes "fits T n p" and "0 < n" and "p + n \<le> 131072"
  shows "next_ok (haddr p) (T(of_nat p := of_nat n))"
proof -
  have "pages_at (T(of_nat p := of_nat n)) q = pages_at T q" if "q < p" for q
    using pages_at_upd [of p q n T] that assms(2,3) by simp
  then have "boundary (T(of_nat p := of_nat n)) p"
    using fits_before [OF assms(1,2)] unfolding boundary_def by simp
  then show ?thesis unfolding next_ok_def using assms(2,3) by (intro exI [of _ p]) simp
qed

lemma next_ok_removed: "next_ok g T \<Longrightarrow> p < 131072 \<Longrightarrow> next_ok g (T(of_nat p := 0))"
proof -
  assume "next_ok g T" and p: "p < 131072"
  then obtain p0 where p0: "p0 < 131072" "g = haddr p0" "boundary T p0" unfolding next_ok_def by blast
  have "pages_at (T(of_nat p := 0)) q = (if q = p then 0 else pages_at T q)" if "q < p0" for q
    using pages_at_upd [OF p, of q 0] that p0(1) by simp
  then have "boundary (T(of_nat p := 0)) p0" using p0(3) unfolding boundary_def by simp
  then show ?thesis unfolding next_ok_def using p0(1,2) by blast
qed

lemma malloc_next_fit_sound:
  assumes "uheap_ok u" and "0 < sz" "unat sz + 4095 < 4294967296"
  shows "malloc_took u sz (malloc UHP_PLACE_NEXTFIT u sz) \<or> malloc_null u (malloc UHP_PLACE_NEXTFIT u sz)
    \<and> next_fit (UHeap_Tracker u) (generalAddress u) (hole_bytes (pages_for sz)) = Inr None"
  using assms
  by (intro nf.malloc_sound [of _ _ _ _ "generalAddress u"])
    (simp_all add: uheap_ok_def choose_address_def uhp_consts)

definition all_strategies :: "u32 set" where
  "all_strategies = {UHP_PLACE_FIRSTFIT, UHP_PLACE_BESTFIT, UHP_PLACE_NEXTFIT, UHP_PLACE_WORSTFIT}"

lemma malloc_any:
  assumes "uheap_ok u" and "0 < sz" "unat sz + 4095 < 4294967296" and "strategy \<in> all_strategies"
  shows "malloc_took u sz (malloc strategy u sz) \<or> malloc_null u (malloc strategy u sz)"
  using assms malloc_next_fit_sound [OF assms(1-3)] malloc_searching [OF _ assms(2,3), of u strategy]
  unfolding all_strategies_def malloc_spec_def uheap_ok_def by auto

lemma malloc_keeps_ok:
  assumes "uheap_ok u" and "0 < sz" "unat sz + 4095 < 4294967296" and "strategy \<in> all_strategies"
  shows "\<exists>a u'. malloc strategy u sz = Inr (a, u') \<and> uheap_ok u'"
proof -
  from malloc_any [OF assms] show ?thesis
  proof
    assume "malloc_took u sz (malloc strategy u sz)"
    then obtain p u' where "malloc strategy u sz = Inr (haddr p, u')" "uheap_inv u'"
      "p + pages_for sz \<le> 131072" "fits (UHeap_Tracker u) (pages_for sz) p"
      "UHeap_Tracker u' = (UHeap_Tracker u)(of_nat p := of_nat (pages_for sz))"
      "generalAddress u' \<in> {haddr p, USER_HEAP_START}" unfolding malloc_took_def by blast
    then show ?thesis using next_ok_placed pages_for_pos [OF assms(2)] next_ok_start
      by (auto simp: uheap_ok_def)
  next
    assume "malloc_null u (malloc strategy u sz)"
    then obtain u' where "malloc strategy u sz = Inr (0, u')" "UHeap_Tracker u' = UHeap_Tracker u"
      "sizeOfVAs u' = sizeOfVAs u" "generalAddress u' \<in> {generalAddress u, USER_HEAP_START}"
      unfolding malloc_null_def by blast
    then show ?thesis using assms(1) next_ok_start by (auto simp: uheap_ok_def uheap_inv_def)
  qed
qed

lemma free_unknown: 
  assumes inv: "uheap_inv u" and "va \<noteq> 0"
    and no: "\<And>p. p < 131072 \<Longrightarrow> pages_at (UHeap_Tracker u) p \<noteq> 0 \<Longrightarrow> va \<noteq> haddr p"
  shows "free u va = Inr u"
proof -
  have "free_search u va 0 = None"
    using assms table_address(1) [OF inv] by (intro free_search_None) auto
  then show ?thesis by (simp add: free_def)
qed

lemma free_keeps_ok:
  assumes "uheap_ok u" and "va \<noteq> 0"
  obtains u' where "free u va = Inr u'" and "uheap_ok u'"
proof (cases "\<exists>p < 131072. pages_at (UHeap_Tracker u) p \<noteq> 0 \<and> va = haddr p")
  case True
  then obtain p where p: "p < 131072" "pages_at (UHeap_Tracker u) p \<noteq> 0" "va = haddr p" by blast
  have inv: "uheap_inv u" using assms(1) by (simp add: uheap_ok_def)
  show ?thesis
    using that free_block_eq [OF inv p(1,2)] uheap_inv_remove [OF inv p(1)] next_ok_removed [OF _ p(1)]
      assms(1) p(3) by (simp add: uheap_ok_def)
next
  case False
  have "free u va = Inr u"
    using assms False by (intro free_unknown) (auto simp: uheap_ok_def)
  then show ?thesis using that assms(1) by blast
qed

text \<open>The calls of a program, in order. A program does not free NULL.\<close>

datatype heap_op = Do_malloc u32 u32 | Do_free u32

fun heap_run :: "uheap \<Rightarrow> heap_op list \<Rightarrow> uheap result" where
  "heap_run u [] = Inr u"
| "heap_run u (Do_malloc strategy sz # ops) = rbind (malloc strategy u sz) (\<lambda>(_, u). heap_run u ops)"
| "heap_run u (Do_free va # ops) = rbind (free u va) (\<lambda>u. heap_run u ops)"

fun op_allowed :: "heap_op \<Rightarrow> bool" where
  "op_allowed (Do_malloc strategy sz) \<longleftrightarrow> strategy \<in> all_strategies \<and> 0 < sz \<and> unat sz + 4095 < 4294967296"
| "op_allowed (Do_free va) \<longleftrightarrow> va \<noteq> 0"

definition uheap_init :: uheap where
  "uheap_init = \<lparr>sizeOfVAs = (\<lambda>_. \<lparr>uh_size = 0, uh_virtualAddress = 0\<rparr>), UHeap_Tracker = (\<lambda>_. 0),
     generalAddress = USER_HEAP_START, syscalls = []\<rparr>"

lemma uheap_init_ok: "uheap_ok uheap_init"
  by (simp add: uheap_ok_def uheap_inv_def heap_wf_def next_ok_start pages_at_def uheap_init_def)

lemma heap_run_keeps_ok:
  "uheap_ok u \<Longrightarrow> list_all op_allowed ops \<Longrightarrow> \<exists>u'. heap_run u ops = Inr u' \<and> uheap_ok u'"
proof (induction u ops rule: heap_run.induct)
  case (2 u strategy sz ops)
  from 2(3) have "strategy \<in> all_strategies" "0 < sz" "unat sz + 4095 < 4294967296" by simp_all
  then obtain a u' where "malloc strategy u sz = Inr (a, u')" "uheap_ok u'"
    using malloc_keeps_ok [OF 2(2)] by blast
  then show ?case using 2 by auto
next
  case (3 u va ops)
  from 3(3) have "va \<noteq> 0" by simp
  with 3(2) obtain u' where "free u va = Inr u'" "uheap_ok u'" by (rule free_keeps_ok)
  then show ?case using 3 by auto
qed auto

text \<open>The address malloc() returns is the one the strategy chose.\<close>

lemma malloc_address:
  assumes "unat sz + 4095 < 4294967296" and "p < 131072"
    and "choose_address strategy u (hole_bytes (pages_for sz)) = Inr (Some (haddr p), v)"
  shows "\<exists>u'. malloc strategy u sz = Inr (haddr p, u')"
  using assms ROUNDUP_hole(1) [OF assms(1)]
  by (simp add: malloc_def Let_def page_index_haddr word_less_nat_alt unat_HEAP_PAGES unat_of_nat)

lemma choose_first: "choose_address UHP_PLACE_FIRSTFIT u sz =
    rbind (first_fit (UHeap_Tracker u) sz) (\<lambda>a. Inr (a, u\<lparr>generalAddress := USER_HEAP_START\<rparr>))"
  and choose_best: "choose_address UHP_PLACE_BESTFIT u sz =
    rbind (best_fit (UHeap_Tracker u) sz) (\<lambda>a. Inr (a, u\<lparr>generalAddress := USER_HEAP_START\<rparr>))"
  and choose_worst: "choose_address UHP_PLACE_WORSTFIT u sz =
    rbind (worst_fit (UHeap_Tracker u) sz) (\<lambda>a. Inr (a, u\<lparr>generalAddress := USER_HEAP_START\<rparr>))"
  by (simp_all add: choose_address_def uhp_consts)

lemma closed_hole_pages: "closed_hole T a b \<Longrightarrow> a < 131072"
  unfolding closed_hole_def by linarith

lemma sample_free_page:
  "free_page (UHeap_Tracker sample_uheap) q \<longleftrightarrow> q < 131072 \<and> q \<notin> {0, 1, 3}"
proof (cases "q < 131072")
  case True
  then have "r \<le> q \<Longrightarrow> pages_at (UHeap_Tracker sample_uheap) r = (if r = 0 then 2 else if r = 3 then 1 else 0)"
    for r by (simp add: sample_pages)
  then show ?thesis using True unfolding free_page_def by (auto simp: Suc_le_eq)
qed (simp add: free_page_def)

lemma sample_closed_hole: "closed_hole (UHeap_Tracker sample_uheap) 2 3"
  by (simp add: closed_hole_def fits_def sample_free_page sample_pages)

lemma sample_uheap_ok: "uheap_ok sample_uheap"
proof -
  have "generalAddress sample_uheap = USER_HEAP_START" by (simp add: sample_uheap_def)
  then show ?thesis by (simp add: uheap_ok_def sample_uheap_inv next_ok_start)
qed

section \<open>Properties\<close>

text \<open>
  C7. A program that calls malloc() with any of the four strategies, with positive sizes that do
  not overflow when rounded up to pages, and free() with any non-NULL address, in any order, never
  leaves the tracker arrays, never reads an unassigned variable and never loops forever, and after
  every such sequence of calls the heap is well formed: blocks lie inside the heap, do not overlap
  and are exactly those recorded in the table of sizes.
\<close>

theorem heap_run_safe:
  assumes "list_all op_allowed ops"
  shows "\<exists>u. heap_run uheap_init ops = Inr u \<and> uheap_ok u"
  by (rule heap_run_keeps_ok [OF uheap_init_ok assms])

theorem heap_run_safe_witness:
  "\<exists>u. heap_run uheap_init [Do_malloc UHP_PLACE_NEXTFIT 5000, Do_malloc UHP_PLACE_BESTFIT 1,
     Do_free 0x80000000, Do_free 0x12345000, Do_malloc UHP_PLACE_WORSTFIT 0x20000000] = Inr u \<and> uheap_ok u"
  by (rule heap_run_safe) (simp add: all_strategies_def)

text \<open>
  C38. With first fit, best fit or worst fit, malloc() returns the start of a run of free pages that
  is long enough for the size, takes exactly these pages, records the block in both tables and makes
  the system call for it; it returns NULL, and changes no table, only when no run of free pages is
  long enough.
\<close>

theorem malloc_allocates:
  assumes "uheap_inv u" and "0 < sz" and "unat sz + 4095 < 4294967296"
    and "strategy \<in> {UHP_PLACE_FIRSTFIT, UHP_PLACE_BESTFIT, UHP_PLACE_WORSTFIT}"
  shows "malloc_spec u sz (malloc strategy u sz)"
  by (rule malloc_searching [OF assms])

theorem malloc_allocates_witness:
  "malloc_spec sample_uheap 5000 (malloc UHP_PLACE_WORSTFIT sample_uheap 5000)"
  by (rule malloc_allocates [OF sample_uheap_inv]) simp_all

text \<open>
  First fit returns the lowest address at which the block fits.
\<close>

theorem malloc_first_fit_lowest:
  assumes "uheap_inv u" and "0 < sz" and "unat sz + 4095 < 4294967296"
    and "fits (UHeap_Tracker u) (pages_for sz) c"
  shows "\<exists>p u'. malloc UHP_PLACE_FIRSTFIT u sz = Inr (haddr p, u') \<and> p \<le> c
    \<and> fits (UHeap_Tracker u) (pages_for sz) p"
proof -
  have n: "0 < pages_for sz" "pages_for sz < 1048576"
    using ROUNDUP_hole(2) [OF assms(3)] pages_for_pos [OF assms(2)] by simp_all
  have "heap_wf (UHeap_Tracker u)" using assms(1) by (simp add: uheap_inv_def)
  from first_fit_spec [OF this n] assms(4) obtain p where
    p: "first_fit (UHeap_Tracker u) (hole_bytes (pages_for sz)) = Inr (Some (haddr p))"
      "fits (UHeap_Tracker u) (pages_for sz) p" "p \<le> c" by blast
  have "p < 131072" using fits_within [OF p(2) n(1)] n(1) by linarith
  then have "\<exists>u'. malloc UHP_PLACE_FIRSTFIT u sz = Inr (haddr p, u')"
    using p(1) by (intro malloc_address [OF assms(3)]) (simp_all add: choose_first)
  then show ?thesis using p by blast
qed

theorem malloc_first_fit_lowest_witness:
  "\<exists>p u'. malloc UHP_PLACE_FIRSTFIT sample_uheap 100 = Inr (haddr p, u') \<and> p \<le> 2
    \<and> fits (UHeap_Tracker sample_uheap) (pages_for 100) p"
  by (rule malloc_first_fit_lowest [OF sample_uheap_inv])
    (simp_all add: fits_def pages_for_def sample_free_page)

text \<open>
  When some hole between two blocks (or between the start of the heap and a block) is long
  enough, best fit returns the start of such a hole, and no such hole that is long enough is shorter.
\<close>

theorem malloc_best_fit_tightest:
  assumes "uheap_inv u" and "0 < sz" and "unat sz + 4095 < 4294967296"
    and "closed_hole (UHeap_Tracker u) c d" and "pages_for sz \<le> d - c"
  shows "\<exists>a b u'. malloc UHP_PLACE_BESTFIT u sz = Inr (haddr a, u')
    \<and> closed_hole (UHeap_Tracker u) a b \<and> pages_for sz \<le> b - a \<and> b - a \<le> d - c"
proof -
  have "heap_wf (UHeap_Tracker u)" using assms(1) by (simp add: uheap_inv_def)
  from best_fit_spec [OF this pages_for_pos [OF assms(2)] ROUNDUP_hole(2) [OF assms(3)]] assms(4,5)
  obtain a b where ab: "best_fit (UHeap_Tracker u) (hole_bytes (pages_for sz)) = Inr (Some (haddr a))"
      "closed_hole (UHeap_Tracker u) a b" "pages_for sz \<le> b - a" "b - a \<le> d - c"
    unfolding pick_spec_def by (meson not_le)
  then have "\<exists>u'. malloc UHP_PLACE_BESTFIT u sz = Inr (haddr a, u')"
    by (intro malloc_address [OF assms(3) closed_hole_pages [OF ab(2)]]) (simp add: choose_best)
  then show ?thesis using ab by blast
qed

theorem malloc_best_fit_tightest_witness:
  "\<exists>a b u'. malloc UHP_PLACE_BESTFIT sample_uheap 100 = Inr (haddr a, u')
    \<and> closed_hole (UHeap_Tracker sample_uheap) a b \<and> pages_for 100 \<le> b - a \<and> b - a \<le> 3 - 2"
  by (rule malloc_best_fit_tightest [OF sample_uheap_inv _ _ sample_closed_hole])
    (simp_all add: pages_for_def)

text \<open>
  When some hole between two blocks (or between the start of the heap and a block) is long
  enough, worst fit returns the start of such a hole, and no such hole that is long enough is longer.
\<close>

theorem malloc_worst_fit_widest:
  assumes "uheap_inv u" and "0 < sz" and "unat sz + 4095 < 4294967296"
    and "closed_hole (UHeap_Tracker u) c d" and "pages_for sz \<le> d - c"
  shows "\<exists>a b u'. malloc UHP_PLACE_WORSTFIT u sz = Inr (haddr a, u')
    \<and> closed_hole (UHeap_Tracker u) a b \<and> pages_for sz \<le> b - a \<and> d - c \<le> b - a"
proof -
  have "heap_wf (UHeap_Tracker u)" using assms(1) by (simp add: uheap_inv_def)
  from worst_fit_spec [OF this pages_for_pos [OF assms(2)] ROUNDUP_hole(2) [OF assms(3)]] assms(4,5)
  obtain a b where ab: "worst_fit (UHeap_Tracker u) (hole_bytes (pages_for sz)) = Inr (Some (haddr a))"
      "closed_hole (UHeap_Tracker u) a b" "pages_for sz \<le> b - a" "d - c \<le> b - a"
    unfolding pick_spec_def by (meson not_le)
  then have "\<exists>u'. malloc UHP_PLACE_WORSTFIT u sz = Inr (haddr a, u')"
    by (intro malloc_address [OF assms(3) closed_hole_pages [OF ab(2)]]) (simp add: choose_worst)
  then show ?thesis using ab by blast
qed

theorem malloc_worst_fit_widest_witness:
  "\<exists>a b u'. malloc UHP_PLACE_WORSTFIT sample_uheap 100 = Inr (haddr a, u')
    \<and> closed_hole (UHeap_Tracker sample_uheap) a b \<and> pages_for 100 \<le> b - a \<and> 3 - 2 \<le> b - a"
  by (rule malloc_worst_fit_widest [OF sample_uheap_inv _ _ sample_closed_hole])
    (simp_all add: pages_for_def)

text \<open>
  Next fit, from an address no block runs over, either takes a run of free pages as the other
  strategies do, or returns NULL; it returns NULL only if every run of free pages that is long
  enough runs over the address where the search started.
\<close>

theorem malloc_next_fit_sound_complete:
  assumes "uheap_inv u" and "generalAddress u = haddr p0" and "p0 < 131072"
    and "boundary (UHeap_Tracker u) p0" and "0 < sz" and "unat sz + 4095 < 4294967296"
  shows "malloc_took u sz (malloc UHP_PLACE_NEXTFIT u sz) \<or>
    (malloc_null u (malloc UHP_PLACE_NEXTFIT u sz)
      \<and> (\<forall>c. fits (UHeap_Tracker u) (pages_for sz) c \<longrightarrow> c < p0 \<and> p0 < c + pages_for sz))"
proof -
  have "uheap_ok u" using assms(1-4) unfolding uheap_ok_def next_ok_def by blast
  note m = malloc_next_fit_sound [OF this assms(5,6)]
  have "heap_wf (UHeap_Tracker u)" using assms(1) by (simp add: uheap_inv_def)
  from next_fit_spec [OF this assms(3,4) pages_for_pos [OF assms(5)] ROUNDUP_hole(2) [OF assms(6)]] m
  show ?thesis unfolding assms(2) nf_spec_def by auto
qed

theorem malloc_next_fit_sound_complete_witness:
  "malloc_took sample_uheap 5000 (malloc UHP_PLACE_NEXTFIT sample_uheap 5000) \<or>
    (malloc_null sample_uheap (malloc UHP_PLACE_NEXTFIT sample_uheap 5000)
      \<and> (\<forall>c. fits (UHeap_Tracker sample_uheap) (pages_for 5000) c \<longrightarrow> c < 0 \<and> 0 < c + pages_for 5000))"
  by (rule malloc_next_fit_sound_complete [OF sample_uheap_inv])
    (simp_all add: sample_uheap_def haddr_def boundary_def)

text \<open>
  free() at the address of a block frees exactly the pages of the block, makes the system call
  with the size the block was allocated with, and keeps the heap well formed.
\<close>

theorem free_releases_block:
  assumes "uheap_inv u" and "p < 131072" and "pages_at (UHeap_Tracker u) p \<noteq> 0"
  shows "\<exists>u'. free u (haddr p) = Inr u' \<and> uheap_inv u'
    \<and> (\<forall>q. free_page (UHeap_Tracker u') q \<longleftrightarrow> free_page (UHeap_Tracker u) q
          \<or> (p \<le> q \<and> q < p + pages_at (UHeap_Tracker u) p))
    \<and> syscalls u' = syscalls u @
        [Sys_freeMem (haddr p) (hole_bytes (pages_at (UHeap_Tracker u) p))]"
proof -
  have "heap_wf (UHeap_Tracker u)" using assms(1) by (simp add: uheap_inv_def)
  then show ?thesis
    using free_block_eq [OF assms] uheap_inv_remove [OF assms(1,2)] remove_free_page [OF _ assms(2)] by simp
qed

theorem free_releases_block_witness:
  "\<exists>u'. free sample_uheap (haddr 3) = Inr u' \<and> uheap_inv u'
    \<and> (\<forall>q. free_page (UHeap_Tracker u') q \<longleftrightarrow> free_page (UHeap_Tracker sample_uheap) q
          \<or> (3 \<le> q \<and> q < 3 + pages_at (UHeap_Tracker sample_uheap) 3))
    \<and> syscalls u' = syscalls sample_uheap @
        [Sys_freeMem (haddr 3) (hole_bytes (pages_at (UHeap_Tracker sample_uheap) 3))]"
  by (rule free_releases_block [OF sample_uheap_inv]) (simp_all add: sample_pages)

text \<open>
  Freeing the block malloc() has just returned restores both tables exactly.
\<close>

theorem malloc_free:
  assumes "uheap_ok u" and "0 < sz" and "unat sz + 4095 < 4294967296" and "strategy \<in> all_strategies"
    and "malloc strategy u sz = Inr (a, u')" and "a \<noteq> 0"
  shows "\<exists>u''. free u' a = Inr u'' \<and> UHeap_Tracker u'' = UHeap_Tracker u \<and> sizeOfVAs u'' = sizeOfVAs u
    \<and> syscalls u'' = syscalls u @ [Sys_allocateMem a (hole_bytes (pages_for sz)),
        Sys_freeMem a (hole_bytes (pages_for sz))]"
proof -
  let ?n = "pages_for sz" let ?T = "UHeap_Tracker u"
  have n: "0 < ?n" by (rule pages_for_pos [OF assms(2)])
  have inv: "uheap_inv u" using assms(1) by (simp add: uheap_ok_def)
  from malloc_any [OF assms(1-4)] assms(5,6) obtain p where p: "a = haddr p" "p + ?n \<le> 131072"
      "fits ?T ?n p" "uheap_inv u'" "UHeap_Tracker u' = ?T(of_nat p := of_nat ?n)"
      "sizeOfVAs u' = (sizeOfVAs u)(of_nat p := \<lparr>uh_size = hole_bytes ?n, uh_virtualAddress = haddr p\<rparr>)"
      "syscalls u' = syscalls u @ [Sys_allocateMem (haddr p) (hole_bytes ?n)]"
    unfolding malloc_took_def malloc_null_def by auto
  have lt: "p < 131072" using p(2) n by linarith
  have old: "pages_at ?T p = 0" using fits_inside [OF p(3), of p] n by simp
  then have old': "?T (of_nat p) = 0" "sizeOfVAs u (of_nat p) = \<lparr>uh_size = 0, uh_virtualAddress = 0\<rparr>"
    using inv lt by (simp_all add: pages_at_def unsigned_eq_0_iff uheap_inv_def)
  have new: "pages_at (UHeap_Tracker u') p = ?n"
    unfolding p(5) using pages_at_upd [OF lt lt, of ?n] p(2) n by simp
  show ?thesis
    using free_block_eq [OF p(4) lt] new n p(1,5-7) old' by (auto simp: fun_upd_idem)
qed

theorem malloc_free_witness:
  "\<exists>a u' u''. malloc UHP_PLACE_BESTFIT sample_uheap 100 = Inr (a, u') \<and> free u' a = Inr u''
    \<and> UHeap_Tracker u'' = UHeap_Tracker sample_uheap"
proof -
  obtain p u' where m: "malloc UHP_PLACE_BESTFIT sample_uheap 100 = Inr (haddr p, u')" "p < 131072"
  proof -
    have "fits (UHeap_Tracker sample_uheap) (pages_for 100) 2"
      by (simp add: fits_def pages_for_def sample_free_page)
    then have "malloc_took sample_uheap 100 (malloc UHP_PLACE_BESTFIT sample_uheap 100)"
      using malloc_searching [OF sample_uheap_inv, of 100 UHP_PLACE_BESTFIT]
      unfolding malloc_spec_def by auto
    then show ?thesis using that unfolding malloc_took_def by (auto simp: pages_for_def)
  qed
  then show ?thesis
    using malloc_free [OF sample_uheap_ok _ _ _ m(1)] haddr_neq_0 [OF m(2)]
    by (auto simp: all_strategies_def)
qed

text \<open>
  free(NULL) is not a no-op: unless every page of the heap starts a block, the search finds an
  unused entry, whose address field is NULL, and free() writes the tracker outside its bounds.
\<close>

theorem free_null_out_of_bounds:
  assumes "uheap_inv u" and "p < 131072" and "pages_at (UHeap_Tracker u) p = 0"
  shows "free u 0 = Inl (Out_of_bounds ''UHeap_Tracker'')"
proof -
  define q where "q = (LEAST q. q < 131072 \<and> pages_at (UHeap_Tracker u) q = 0)"
  have q: "q < 131072 \<and> pages_at (UHeap_Tracker u) q = 0"
    unfolding q_def by (rule LeastI [of _ p]) (simp add: assms)
  have "pages_at (UHeap_Tracker u) r \<noteq> 0" if "r < q" for r
    using that q not_less_Least [of r] unfolding q_def by fastforce
  then have "free_search u 0 0 = Some (of_nat q)"
    using q haddr_neq_0 table_address(1) [OF assms(1)] by (intro free_search_Some) simp_all
  moreover have "uh_virtualAddress (sizeOfVAs u (of_nat q)) = 0"
    using q table_address(1) [OF assms(1)] by simp
  ultimately show ?thesis
    by (simp add: free_def Let_def page_index_def HEAP_PAGES_def fos_consts)
qed

theorem free_null_out_of_bounds_witness:
  "free sample_uheap 0 = Inl (Out_of_bounds ''UHeap_Tracker'')"
  by (rule free_null_out_of_bounds [OF sample_uheap_inv, of 1]) (simp_all add: sample_pages)

end
