(* ===== verification/FOS_Prompt.thy ===== *)
theory FOS_Prompt
  imports FOS_Prelude
begin

text \<open>
  The line editor of the kernel's command prompt (kern/command_prompt.c): command_prompt_readline()
  with its history of ten lines and the completion of command names, and the history that
  run_command_prompt() keeps. A key is what getchar() returns. Character arrays are lists of bytes with
  a NUL somewhere; copying a string that has none, or one too long for its destination, is an error.
\<close>

section \<open>Strings in arrays\<close>

fun array_strlen :: "u8 list \<Rightarrow> nat result" where
  "array_strlen [] = Inl (Out_of_bounds ''strlen'')"
| "array_strlen (x # xs) = (if x = 0 then Inr 0 else rbind (array_strlen xs) (\<lambda>n. Inr (Suc n)))"

definition array_strcpy :: "u8 list \<Rightarrow> u8 list \<Rightarrow> u8 list result" where
  "array_strcpy dst src =
     rbind (array_strlen src) (\<lambda>n.
     if n < length dst then Inr (take (Suc n) src @ drop (Suc n) dst) else Inl (Out_of_bounds ''strcpy''))"

text \<open>Whether strncmp() returns 0.\<close>

fun array_strncmp0 :: "nat \<Rightarrow> u8 list \<Rightarrow> u8 list \<Rightarrow> bool" where
  "array_strncmp0 0 ps qs = True"
| "array_strncmp0 (Suc n) (p # ps) (q # qs) = (if p \<noteq> 0 \<and> p = q then array_strncmp0 n ps qs else p = q)"
| "array_strncmp0 (Suc n) ps qs = False"

section \<open>The commands\<close>

definition command_names :: "string list" where
  "command_names =
     [''help'', ''kernel_info'', ''wum'', ''rum'', ''wm'', ''rm'', ''rub'', ''kill'', ''rut'', ''aup'', ''meminfo'',
      ''run'', ''load'', ''runall'', ''printall'', ''killall'', ''lru'', ''fifo'', ''clock'', ''modifiedclock'', ''rep?'',
      ''firstfit'', ''bestfit'', ''nextfit'', ''worstfit'', ''heap?'', ''nobuff'', ''buff'', ''nomodbuff'', ''modbuff'',
      ''modbufflength?'', ''modbufflength'', ''tstkmalloc'', ''tstkfree'', ''tstkphysaddr'', ''tstkvirtaddr'',
      ''tst3functions'']"

definition NUM_OF_COMMANDS :: nat where
  "NUM_OF_COMMANDS = length command_names"

text \<open>The array that holds the name of a command, with its NUL.\<close>

definition name_array :: "nat \<Rightarrow> u8 list" where
  "name_array k = ascii (command_names ! k) @ [0]"

section \<open>The history\<close>

definition BUFLEN :: nat where "BUFLEN = 1024"

definition history_max :: nat where "history_max = 10"

record history =
  history_size :: nat
  history_write :: nat
  history_list :: "u8 list list"

definition history_line :: "history \<Rightarrow> int \<Rightarrow> u8 list result" where
  "history_line h i =
     (if 0 \<le> i \<and> i < int (length (history_list h)) then Inr (history_list h ! nat i)
      else Inl (Out_of_bounds ''history_list''))"

text \<open>What run_command_prompt() does with a line before it executes it.\<close>

definition save_history :: "history \<Rightarrow> u8 list \<Rightarrow> history result" where
  "save_history h command_line =
     rbind (history_line h (int (history_write h))) (\<lambda>old.
     rbind (array_strcpy old command_line) (\<lambda>new.
     let w = history_write h;
         h = h\<lparr>history_list := (history_list h)[w := new],
               history_write := (if Suc w = history_max then 0 else Suc w)\<rparr>
     in Inr (if history_size h \<noteq> 10 then h\<lparr>history_size := Suc (history_size h)\<rparr> else h)))"

section \<open>The line editor\<close>

record editor =
  ed_buf :: "u8 list"
  ed_i :: nat
  ed_found_matches :: bool
  ed_matches :: "nat list"
  ed_used_match :: nat
  ed_history_index :: int
  ed_history_used :: bool

datatype key_result = Continue editor | Line "u8 list" | Read_error "u8 list"

definition put_char :: "editor \<Rightarrow> u8 \<Rightarrow> editor result" where
  "put_char ed c =
     (if ed_i ed < length (ed_buf ed) then Inr (ed\<lparr>ed_buf := (ed_buf ed)[ed_i ed := c]\<rparr>)
      else Inl (Out_of_bounds ''buf''))"

text \<open>Both arrow keys replace the line by one of the history.\<close>

definition history_key :: "history \<Rightarrow> editor \<Rightarrow> int \<Rightarrow> editor result" where
  "history_key h ed c =
     (let ed = ed\<lparr>ed_found_matches := False\<rparr> in
      if history_size h = 0 then Inr ed
      else
        let ed = (if \<not> ed_history_used ed
                  then ed\<lparr>ed_history_index := int (history_write h), ed_history_used := True\<rparr> else ed);
            i = (if c = 226
                 then (if ed_history_index ed - 1 = - 1 then int (history_size h) - 1 else ed_history_index ed - 1)
                 else (if ed_history_index ed + 1 \<ge> int (history_size h) then 0 else ed_history_index ed + 1))
        in
        rbind (history_line h i) (\<lambda>line.
        rbind (array_strcpy (ed_buf ed) line) (\<lambda>buf.
        rbind (array_strlen line) (\<lambda>n.
        Inr (ed\<lparr>ed_history_index := i, ed_buf := buf, ed_i := n\<rparr>)))))"

text \<open>The tabulator key completes the line to the next command that starts with it.\<close>

definition tab_key :: "editor \<Rightarrow> editor result" where
  "tab_key ed =
     (let ed = ed\<lparr>ed_history_used := False\<rparr>;
          ed = (if \<not> ed_found_matches ed then
                  let ms = filter (\<lambda>k. array_strncmp0 (ed_i ed) (ed_buf ed) (name_array k)) [0..<NUM_OF_COMMANDS]
                  in ed\<lparr>ed_matches := ms, ed_used_match := 0, ed_found_matches := (ms \<noteq> [])\<rparr>
                else ed)
      in
      if ed_found_matches ed then
        if ed_used_match ed < length (ed_matches ed) then
          let name = name_array (ed_matches ed ! ed_used_match ed) in
          rbind (array_strcpy (ed_buf ed) name) (\<lambda>buf.
          rbind (array_strlen name) (\<lambda>n.
          let used = Suc (ed_used_match ed) in
          Inr (ed\<lparr>ed_buf := buf, ed_i := n, ed_used_match := (if used = length (ed_matches ed) then 0 else used)\<rparr>)))
        else Inl (Out_of_bounds ''matches'')
      else Inr ed)"

definition readline_key :: "history \<Rightarrow> editor \<Rightarrow> int \<Rightarrow> key_result result" where
  "readline_key h ed c =
     (let plain = ed\<lparr>ed_found_matches := False, ed_history_used := False\<rparr> in
      if c < 0 then Inr (Read_error (ed_buf ed))
      else if c = 226 \<or> c = 227 then rbind (history_key h ed c) (\<lambda>ed. Inr (Continue ed))
      else if c \<ge> 32 \<and> ed_i ed < BUFLEN - 1 then
        rbind (put_char plain (word_of_int c)) (\<lambda>ed. Inr (Continue (ed\<lparr>ed_i := Suc (ed_i ed)\<rparr>)))
      else if c = 8 \<and> ed_i ed > 0 then Inr (Continue (plain\<lparr>ed_i := ed_i ed - 1\<rparr>))
      else if c = 10 \<or> c = 13 then rbind (put_char plain 0) (\<lambda>ed. Inr (Line (ed_buf ed)))
      else if c = 9 then rbind (tab_key ed) (\<lambda>ed. Inr (Continue ed))
      else Inr (Continue ed))"

text \<open>The loop, on the keys typed so far: it waits for more unless the last one ended the line.\<close>

fun readline_keys :: "history \<Rightarrow> editor \<Rightarrow> int list \<Rightarrow> (key_result \<times> int list) result" where
  "readline_keys h ed [] = Inr (Continue ed, [])"
| "readline_keys h ed (c # cs) =
     rbind (readline_key h ed c) (\<lambda>r.
     case r of Continue ed \<Rightarrow> readline_keys h ed cs | Line buf \<Rightarrow> Inr (r, cs) | Read_error buf \<Rightarrow> Inr (r, cs))"

text \<open>The buffer holds what the caller's array holds when the function is called.\<close>

definition new_editor :: "u8 list \<Rightarrow> editor" where
  "new_editor buf = \<lparr>ed_buf = buf, ed_i = 0, ed_found_matches = False, ed_matches = [], ed_used_match = 0,
     ed_history_index = 0, ed_history_used = False\<rparr>"

definition command_prompt_readline :: "history \<Rightarrow> u8 list \<Rightarrow> int list \<Rightarrow> (key_result \<times> int list) result" where
  "command_prompt_readline h buf keys = readline_keys h (new_editor buf) keys"

definition no_history :: history where
  "no_history = \<lparr>history_size = 0, history_write = 0, history_list = replicate 10 (replicate 1024 0)\<rparr>"

text \<open>
  The loop of run_command_prompt(), on the keys typed so far. Executing a line may change the buffer;
  a negative value ends the loop, otherwise it stops when it has to wait for a key. The state is
  that of the kernel. Every line takes at least one key, which bounds the rounds.
\<close>

fun prompt_rounds ::
  "nat \<Rightarrow> (u8 list \<Rightarrow> 's \<Rightarrow> (int \<times> u8 list \<times> 's) result) \<Rightarrow> history \<Rightarrow> u8 list \<Rightarrow> int list \<Rightarrow> 's
     \<Rightarrow> (history \<times> u8 list \<times> 's) result" where
  "prompt_rounds 0 execute h buf keys s = Inl Diverges"
| "prompt_rounds (Suc n) execute h buf keys s =
     rbind (command_prompt_readline h buf keys) (\<lambda>(r, keys).
     case r of
       Continue ed \<Rightarrow> Inr (h, ed_buf ed, s)
     | Read_error command_line \<Rightarrow>
         rbind (save_history h command_line) (\<lambda>h.
         rbind (execute command_line s) (\<lambda>(v, buf, s).
         if v < 0 then Inr (h, buf, s) else prompt_rounds n execute h buf keys s))
     | Line command_line \<Rightarrow>
         rbind (save_history h command_line) (\<lambda>h.
         rbind (execute command_line s) (\<lambda>(v, buf, s).
         if v < 0 then Inr (h, buf, s) else prompt_rounds n execute h buf keys s)))"

definition run_command_prompt ::
  "(u8 list \<Rightarrow> 's \<Rightarrow> (int \<times> u8 list \<times> 's) result) \<Rightarrow> history \<Rightarrow> u8 list \<Rightarrow> int list \<Rightarrow> 's
     \<Rightarrow> (history \<times> u8 list \<times> 's) result" where
  "run_command_prompt execute h buf keys s = prompt_rounds (Suc (length keys)) execute h buf keys s"

section \<open>Text of an array\<close>

definition text_of :: "u8 list \<Rightarrow> u8 list" where
  "text_of xs = takeWhile (\<lambda>x. x \<noteq> 0) xs"

lemma array_strlen_text: "0 \<in> set xs \<Longrightarrow> array_strlen xs = Inr (length (text_of xs))"
  by (induction xs) (auto simp: text_of_def)

lemma text_short: "0 \<in> set xs \<Longrightarrow> length (text_of xs) < length xs"
  by (induction xs) (auto simp: text_of_def)

lemma text_of_at: "i < length xs \<Longrightarrow> 0 \<notin> set (take i xs) \<Longrightarrow> xs ! i = 0 \<Longrightarrow> text_of xs = take i xs"
proof (induction i arbitrary: xs)
  case 0
  then show ?case by (cases xs) (simp_all add: text_of_def)
next
  case (Suc i)
  then show ?case by (cases xs) (auto simp: text_of_def)
qed

lemma take_text: "0 \<in> set xs \<Longrightarrow> take (Suc (length (text_of xs))) xs = text_of xs @ [0]"
  by (induction xs) (auto simp: text_of_def)

lemma text_nonzero: "0 \<notin> set (text_of xs)"
  by (auto simp: text_of_def dest: set_takeWhileD)

lemma text_append: "0 \<notin> set xs \<Longrightarrow> text_of (xs @ 0 # ys) = xs"
  by (induction xs) (auto simp: text_of_def)

lemma array_strcpy_text:
  assumes "0 \<in> set src" and "length (text_of src) < length dst"
  shows "array_strcpy dst src = Inr (text_of src @ 0 # drop (Suc (length (text_of src))) dst)"
  using assms by (simp add: array_strcpy_def array_strlen_text take_text)

lemma names_nonzero: "\<forall>n \<in> set command_names. 0 \<notin> set (ascii n) \<and> length n < 1024"
  by (simp add: command_names_def ascii_def)

lemma name_array_text:
  assumes "k < NUM_OF_COMMANDS"
  shows "text_of (name_array k) = ascii (command_names ! k)" "0 \<in> set (name_array k)"
    "length (text_of (name_array k)) < 1024"
proof -
  have "command_names ! k \<in> set command_names" using assms by (simp add: NUM_OF_COMMANDS_def)
  then have n: "0 \<notin> set (ascii (command_names ! k))" "length (command_names ! k) < 1024" using names_nonzero by blast+
  show t: "text_of (name_array k) = ascii (command_names ! k)" using text_append [OF n(1), of "[]"] by (simp add: name_array_def)
  show "0 \<in> set (name_array k)" by (simp add: name_array_def)
  show "length (text_of (name_array k)) < 1024" using n(2) by (simp add: t ascii_def)
qed

section \<open>The editor stays inside its buffers\<close>

text \<open>Ten lines, each terminated; the next one goes behind the last until the list is full.\<close>

definition history_ok :: "history \<Rightarrow> bool" where
  "history_ok h \<longleftrightarrow> length (history_list h) = 10 \<and> (\<forall>line \<in> set (history_list h). length line = 1024 \<and> 0 \<in> set line)
     \<and> history_write h < 10 \<and> history_size h \<le> 10 \<and> (history_size h < 10 \<longrightarrow> history_write h = history_size h)"

definition editor_ok :: "history \<Rightarrow> editor \<Rightarrow> bool" where
  "editor_ok h ed \<longleftrightarrow> length (ed_buf ed) = 1024 \<and> ed_i ed < 1024
     \<and> (ed_found_matches ed \<longrightarrow> ed_used_match ed < length (ed_matches ed) \<and> (\<forall>k \<in> set (ed_matches ed). k < NUM_OF_COMMANDS))
     \<and> (ed_history_used ed \<longrightarrow> 0 \<le> ed_history_index ed \<and> ed_history_index ed < int (history_size h))"

lemma history_line_ok:
  assumes "history_ok h" and "0 \<le> i" and "i < 10"
  shows "\<exists>line. history_line h i = Inr line \<and> line = history_list h ! nat i \<and> length line = 1024 \<and> 0 \<in> set line"
proof -
  have "history_list h ! nat i \<in> set (history_list h)" using assms by (simp add: history_ok_def)
  then show ?thesis using assms by (simp add: history_line_def history_ok_def)
qed

text \<open>The index an arrow key goes to.\<close>

definition next_index :: "history \<Rightarrow> editor \<Rightarrow> int \<Rightarrow> int" where
  "next_index h ed c =
     (let j = (if ed_history_used ed then ed_history_index ed else int (history_write h)) in
      if c = 226 then (if j = 0 then int (history_size h) - 1 else j - 1)
      else (if j + 1 \<ge> int (history_size h) then 0 else j + 1))"

lemma next_index_range:
  assumes "history_ok h" and "editor_ok h ed" and "history_size h \<noteq> 0"
  shows "0 \<le> next_index h ed c" "next_index h ed c < int (history_size h)"
  using assms by (auto simp: next_index_def history_ok_def editor_ok_def Let_def)

lemma history_key_result:
  fixes c :: int
  assumes h: "history_ok h" and ed: "editor_ok h ed" and n: "history_size h \<noteq> 0"
  defines "line \<equiv> history_list h ! nat (next_index h ed c)"
  shows "history_key h ed c = Inr (ed\<lparr>ed_found_matches := False, ed_history_used := True,
      ed_history_index := next_index h ed c,
      ed_buf := text_of line @ 0 # drop (Suc (length (text_of line))) (ed_buf ed), ed_i := length (text_of line)\<rparr>)"
    and "length (text_of line) < 1024"
proof -
  note r = next_index_range [OF h ed n, of c]
  have r': "next_index h ed c < 10" using r h by (simp add: history_ok_def)
  have l: "history_line h (next_index h ed c) = Inr line" "length line = 1024" "0 \<in> set line"
    using history_line_ok [OF h r(1) r'] by (simp_all add: line_def)
  show short: "length (text_of line) < 1024" using text_short [OF l(3)] l(2) by simp
  have b: "length (ed_buf ed) = 1024" using ed by (simp add: editor_ok_def)
  show "history_key h ed c = Inr (ed\<lparr>ed_found_matches := False, ed_history_used := True,
      ed_history_index := next_index h ed c,
      ed_buf := text_of line @ 0 # drop (Suc (length (text_of line))) (ed_buf ed), ed_i := length (text_of line)\<rparr>)"
    using n l(1,3) short b array_strcpy_text [OF l(3), of "ed_buf ed"]
    by (auto simp: history_key_def Let_def next_index_def array_strlen_text algebra_simps split: if_splits)
qed

lemma history_key_ok:
  assumes "history_ok h" and "editor_ok h ed"
  shows "\<exists>ed'. history_key h ed c = Inr ed' \<and> editor_ok h ed'"
proof (cases "history_size h = 0")
  case True
  then show ?thesis using assms by (simp add: history_key_def editor_ok_def)
next
  case False
  then show ?thesis
    using history_key_result [OF assms False, of c] next_index_range [OF assms False, of c] assms(2)
    by (simp add: editor_ok_def)
qed

definition candidates :: "editor \<Rightarrow> nat list" where
  "candidates ed = filter (\<lambda>k. array_strncmp0 (ed_i ed) (ed_buf ed) (name_array k)) [0..<NUM_OF_COMMANDS]"

lemma name_copied:
  assumes "k < NUM_OF_COMMANDS" and "length buf = 1024"
  shows "array_strcpy buf (name_array k) = Inr (ascii (command_names ! k) @ 0 # drop (Suc (length (ascii (command_names ! k)))) buf)"
    "array_strlen (name_array k) = Inr (length (ascii (command_names ! k)))" "length (ascii (command_names ! k)) < 1024"
  using name_array_text [OF assms(1)] assms(2) array_strcpy_text [of "name_array k" buf]
  by (simp_all add: array_strlen_text)

text \<open>The tabulator shows the candidates one after the other.\<close>

definition completed :: "editor \<Rightarrow> nat list \<Rightarrow> nat \<Rightarrow> editor" where
  "completed ed ms j =
     (let name = ascii (command_names ! (ms ! j)) in
      ed\<lparr>ed_history_used := False, ed_matches := ms, ed_found_matches := True,
         ed_buf := name @ 0 # drop (Suc (length name)) (ed_buf ed), ed_i := length name,
         ed_used_match := (if Suc j = length ms then 0 else Suc j)\<rparr>)"

lemma tab_key_result:
  assumes ed: "editor_ok h ed"
  shows "ed_found_matches ed \<Longrightarrow> tab_key ed = Inr (completed ed (ed_matches ed) (ed_used_match ed))"
    and "\<not> ed_found_matches ed \<Longrightarrow> candidates ed \<noteq> [] \<Longrightarrow> tab_key ed = Inr (completed ed (candidates ed) 0)"
    and "\<not> ed_found_matches ed \<Longrightarrow> candidates ed = [] \<Longrightarrow>
      tab_key ed = Inr (ed\<lparr>ed_history_used := False, ed_matches := [], ed_used_match := 0\<rparr>)"
proof -
  have b: "length (ed_buf ed) = 1024" using ed by (simp add: editor_ok_def)
  show "tab_key ed = Inr (completed ed (ed_matches ed) (ed_used_match ed))" if "ed_found_matches ed"
  proof -
    have u: "ed_used_match ed < length (ed_matches ed)" "ed_matches ed ! ed_used_match ed < NUM_OF_COMMANDS"
      using ed that by (auto simp: editor_ok_def)
    then show ?thesis
      using that name_copied [OF u(2) b] by (simp add: tab_key_def Let_def completed_def)
  qed
  show "tab_key ed = Inr (completed ed (candidates ed) 0)" if "\<not> ed_found_matches ed" "candidates ed \<noteq> []"
  proof -
    have "candidates ed ! 0 \<in> set (candidates ed)" using that(2) by simp
    then have u: "candidates ed ! 0 < NUM_OF_COMMANDS" by (simp add: candidates_def)
    show ?thesis
      using that name_copied [OF u b] unfolding tab_key_def candidates_def [symmetric, of ed, simplified]
      by (simp add: Let_def completed_def flip: candidates_def)
  qed
  show "tab_key ed = Inr (ed\<lparr>ed_history_used := False, ed_matches := [], ed_used_match := 0\<rparr>)"
    if "\<not> ed_found_matches ed" "candidates ed = []"
    using that unfolding candidates_def by (simp add: tab_key_def Let_def)
qed

lemma completed_ok:
  assumes "editor_ok h ed" and "j < length ms" and "\<forall>k \<in> set ms. k < NUM_OF_COMMANDS"
  shows "editor_ok h (completed ed ms j)"
proof -
  have b: "length (ed_buf ed) = 1024" using assms(1) by (simp add: editor_ok_def)
  have "ms ! j < NUM_OF_COMMANDS" using assms(2,3) by simp
  note n = name_copied(3) [OF this b]
  have "ms \<noteq> []" using assms(2) by auto
  then show ?thesis using n b assms(2,3) by (simp add: editor_ok_def completed_def Let_def)
qed

lemma tab_key_ok:
  assumes ed: "editor_ok h ed" shows "\<exists>ed'. tab_key ed = Inr ed' \<and> editor_ok h ed'"
proof -
  consider "ed_found_matches ed" | "\<not> ed_found_matches ed" "candidates ed \<noteq> []" | "\<not> ed_found_matches ed" "candidates ed = []"
    by blast
  then show ?thesis
  proof cases
    case 1
    then have "ed_used_match ed < length (ed_matches ed)" "\<forall>k \<in> set (ed_matches ed). k < NUM_OF_COMMANDS"
      using ed unfolding editor_ok_def by blast+
    then show ?thesis using 1 tab_key_result(1) [OF ed] completed_ok [OF ed] by blast
  next
    case 2
    have "\<forall>k \<in> set (candidates ed). k < NUM_OF_COMMANDS" by (simp add: candidates_def)
    then show ?thesis using 2 tab_key_result(2) [OF ed] completed_ok [OF ed, of 0] by simp
  next
    case 3
    then show ?thesis using tab_key_result(3) [OF ed] ed by (simp add: editor_ok_def)
  qed
qed

definition result_ok :: "history \<Rightarrow> key_result \<Rightarrow> bool" where
  "result_ok h r \<longleftrightarrow> (case r of Continue ed \<Rightarrow> editor_ok h ed | Line buf \<Rightarrow> length buf = 1024 \<and> 0 \<in> set buf
     | Read_error buf \<Rightarrow> length buf = 1024)"

lemma readline_key_ok:
  assumes h: "history_ok h" and ed: "editor_ok h ed"
  shows "\<exists>r. readline_key h ed c = Inr r \<and> result_ok h r"
proof -
  have b: "length (ed_buf ed) = 1024" "ed_i ed < 1024" using ed by (simp_all add: editor_ok_def)
  have nul: "0 \<in> set ((ed_buf ed)[ed_i ed := 0])" using b by (simp add: set_update_memI)
  consider "c < 0" | "c = 226 \<or> c = 227" | "0 \<le> c" "c \<noteq> 226" "c \<noteq> 227" "c = 9"
    | "0 \<le> c" "c \<noteq> 226" "c \<noteq> 227" "c \<noteq> 9" by linarith
  then show ?thesis
  proof cases
    case 2
    then show ?thesis using history_key_ok [OF h ed, of c] by (auto simp: readline_key_def Let_def result_ok_def)
  next
    case 3
    then show ?thesis using tab_key_ok [OF ed] by (auto simp: readline_key_def Let_def result_ok_def)
  next
    case 4
    then show ?thesis
      using nul b ed less_imp_diff_less [OF b(2), of 1]
      by (simp add: readline_key_def Let_def put_char_def result_ok_def editor_ok_def BUFLEN_def)
  qed (simp add: readline_key_def result_ok_def b Let_def)
qed

lemma readline_keys_ok:
  assumes h: "history_ok h"
  shows "editor_ok h ed \<Longrightarrow> \<exists>r rest. readline_keys h ed keys = Inr (r, rest) \<and> result_ok h r"
proof (induction keys arbitrary: ed)
  case Nil
  then show ?case by (simp add: result_ok_def)
next
  case (Cons c cs)
  obtain r where r: "readline_key h ed c = Inr r" "result_ok h r" using readline_key_ok [OF h Cons.prems] by blast
  then show ?case using Cons.IH by (cases r) (auto simp: result_ok_def)
qed

lemma new_editor_ok: "length buf = 1024 \<Longrightarrow> editor_ok h (new_editor buf)"
  by (simp add: editor_ok_def new_editor_def)

section \<open>Typing\<close>

definition plain_key :: "int \<Rightarrow> bool" where
  "plain_key c \<longleftrightarrow> 32 \<le> c \<and> c < 256 \<and> c \<noteq> 226 \<and> c \<noteq> 227"

definition keys_text :: "int list \<Rightarrow> u8 list" where
  "keys_text cs = map word_of_int cs"

lemma plain_nonzero: "plain_key c \<Longrightarrow> (word_of_int c :: u8) \<noteq> 0"
  by (simp add: plain_key_def word_of_int_eq_0_iff) (auto simp: dvd_def)

definition fresh_flags :: "editor \<Rightarrow> bool" where
  "fresh_flags ed \<longleftrightarrow> \<not> ed_found_matches ed \<and> \<not> ed_history_used ed"

lemma typing:
  assumes "\<forall>c \<in> set cs. plain_key c" and "editor_ok h ed" and "fresh_flags ed" and "ed_i ed + length cs \<le> 1023"
  shows "readline_keys h ed (cs @ ks) = readline_keys h (ed\<lparr>
      ed_buf := take (ed_i ed) (ed_buf ed) @ keys_text cs @ drop (ed_i ed + length cs) (ed_buf ed),
      ed_i := ed_i ed + length cs\<rparr>) ks"
  using assms
proof (induction cs arbitrary: ed)
  case Nil
  then show ?case by (simp add: keys_text_def)
next
  case (Cons c cs)
  let ?i = "ed_i ed" and ?b = "ed_buf ed"
  let ?e = "ed\<lparr>ed_buf := ?b[?i := word_of_int c], ed_i := Suc ?i\<rparr>"
  have b: "length ?b = 1024" "?i < 1023" using Cons.prems by (simp_all add: editor_ok_def)
  have same: "ed\<lparr>ed_found_matches := False, ed_history_used := False\<rparr> = ed" using Cons.prems(3) by (simp add: fresh_flags_def)
  have step: "readline_key h ed c = Inr (Continue ?e)"
    using Cons.prems(1) b by (simp add: readline_key_def Let_def same put_char_def plain_key_def BUFLEN_def)
  have "readline_keys h ?e (cs @ ks) = readline_keys h (?e\<lparr>
      ed_buf := take (ed_i ?e) (ed_buf ?e) @ keys_text cs @ drop (ed_i ?e + length cs) (ed_buf ?e),
      ed_i := ed_i ?e + length cs\<rparr>) ks"
    using Cons.prems b by (intro Cons.IH) (simp_all add: editor_ok_def fresh_flags_def)
  moreover have "take (Suc ?i) (?b[?i := word_of_int c]) = take ?i ?b @ [word_of_int c]"
    using b by (simp add: take_Suc_conv_app_nth)
  ultimately show ?case by (simp add: step keys_text_def)
qed

lemma enter_key:
  assumes "editor_ok h ed" and "0 \<notin> set (take (ed_i ed) (ed_buf ed))"
  shows "\<exists>buf. readline_keys h ed (10 # ks) = Inr (Line buf, ks) \<and> text_of buf = take (ed_i ed) (ed_buf ed)"
proof -
  let ?b = "(ed_buf ed)[ed_i ed := 0]"
  have b: "length (ed_buf ed) = 1024" "ed_i ed < 1024" using assms by (simp_all add: editor_ok_def)
  then have "readline_keys h ed (10 # ks) = Inr (Line ?b, ks)"
    by (simp add: readline_key_def Let_def put_char_def)
  moreover have "text_of ?b = take (ed_i ed) (ed_buf ed)"
    using text_of_at [of "ed_i ed" ?b] b assms(2) by simp
  ultimately show ?thesis by blast
qed

section \<open>Completion\<close>

lemma strncmp_prefix:
  "0 \<notin> set xs \<Longrightarrow> 0 \<notin> set name \<Longrightarrow> array_strncmp0 (length xs) (xs @ rest) (name @ [0]) \<longleftrightarrow> take (length xs) name = xs"
proof (induction xs arbitrary: name)
  case (Cons x xs)
  then show ?case by (cases name) auto
qed simp

text \<open>The commands that start with a text, in the order of the table.\<close>

definition completions :: "u8 list \<Rightarrow> u8 list list" where
  "completions xs = filter (\<lambda>name. take (length xs) name = xs) (map ascii command_names)"

lemma candidates_completions:
  assumes "0 \<notin> set (take (ed_i ed) (ed_buf ed))" and "ed_i ed \<le> length (ed_buf ed)"
  shows "map (\<lambda>k. ascii (command_names ! k)) (candidates ed) = completions (take (ed_i ed) (ed_buf ed))"
proof -
  let ?xs = "take (ed_i ed) (ed_buf ed)"
  have len: "length ?xs = ed_i ed" using assms(2) by simp
  have "array_strncmp0 (ed_i ed) (ed_buf ed) (name_array k) \<longleftrightarrow> take (ed_i ed) (ascii (command_names ! k)) = ?xs"
    if "k < NUM_OF_COMMANDS" for k
  proof -
    have "0 \<notin> set (ascii (command_names ! k))" using names_nonzero that by (simp add: NUM_OF_COMMANDS_def)
    then show ?thesis
      using strncmp_prefix [OF assms(1), of "ascii (command_names ! k)" "drop (ed_i ed) (ed_buf ed)"]
      unfolding len by (simp add: name_array_def)
  qed
  then have "candidates ed = filter (\<lambda>k. take (length ?xs) (ascii (command_names ! k)) = ?xs) [0..<NUM_OF_COMMANDS]"
    unfolding candidates_def len by (intro filter_cong) auto
  moreover have "map (\<lambda>k. ascii (command_names ! k)) [0..<NUM_OF_COMMANDS] = map ascii command_names"
    by (rule nth_equalityI) (simp_all add: NUM_OF_COMMANDS_def)
  ultimately show ?thesis
    unfolding completions_def by (metis (mono_tags, lifting) comp_apply filter_cong filter_map)
qed

text \<open>The editor shows the completion \<open>j\<close>, counted round the list.\<close>

definition shows_match :: "history \<Rightarrow> editor \<Rightarrow> nat list \<Rightarrow> nat \<Rightarrow> bool" where
  "shows_match h ed ms j \<longleftrightarrow> editor_ok h ed \<and> ed_found_matches ed \<and> ed_matches ed = ms \<and> ed_used_match ed = Suc j mod length ms
     \<and> take (ed_i ed) (ed_buf ed) = ascii (command_names ! (ms ! (j mod length ms)))"

lemma completed_shows:
  assumes ed: "editor_ok h ed" and ms: "ms \<noteq> []" "\<forall>k \<in> set ms. k < NUM_OF_COMMANDS"
  shows "shows_match h (completed ed ms (j mod length ms)) ms j"
proof -
  have l: "j mod length ms < length ms" using ms(1) by simp
  have "(if Suc (j mod length ms) = length ms then 0 else Suc (j mod length ms)) = Suc j mod length ms"
    using mod_Suc [of j "length ms"] by simp
  then show ?thesis
    using completed_ok [OF ed l ms(2)] unfolding shows_match_def by (simp add: completed_def Let_def)
qed

lemma tab_again:
  assumes "shows_match h ed ms j" and "ms \<noteq> []" and "\<forall>k \<in> set ms. k < NUM_OF_COMMANDS"
  shows "\<exists>ed'. readline_key h ed 9 = Inr (Continue ed') \<and> shows_match h ed' ms (Suc j)"
proof -
  have ed: "editor_ok h ed" "ed_found_matches ed" "ed_matches ed = ms" "ed_used_match ed = Suc j mod length ms"
    using assms(1) by (simp_all add: shows_match_def)
  then show ?thesis
    using tab_key_result(1) [OF ed(1,2)] completed_shows [OF ed(1) assms(2,3), of "Suc j"]
    by (simp add: readline_key_def Let_def)
qed

lemma tabs_again:
  assumes ms: "ms \<noteq> []" "\<forall>k \<in> set ms. k < NUM_OF_COMMANDS"
  shows "shows_match h ed ms j \<Longrightarrow>
    \<exists>ed'. readline_keys h ed (replicate n 9 @ ks) = readline_keys h ed' ks \<and> shows_match h ed' ms (n + j)"
proof (induction n arbitrary: ed j)
  case (Suc n)
  obtain ed1 where e1: "readline_key h ed 9 = Inr (Continue ed1)" "shows_match h ed1 ms (Suc j)"
    using tab_again [OF Suc.prems ms] by blast
  then show ?case using Suc.IH [OF e1(2)] by auto
qed auto

section \<open>Recalling lines\<close>

text \<open>The lines of the history, the latest first.\<close>

definition recent :: "history \<Rightarrow> u8 list list" where
  "recent h = map (\<lambda>j. text_of (history_list h ! nat ((int (history_write h) - 1 - int j) mod 10))) [0..<history_size h]"

lemma recent_nth:
  "j < history_size h \<Longrightarrow> recent h ! j = text_of (history_list h ! nat ((int (history_write h) - 1 - int j) mod 10))"
  by (simp add: recent_def)

lemma recent_length: "length (recent h) = history_size h"
  by (simp add: recent_def)

lemma save_history_result:
  assumes h: "history_ok h" and line: "0 \<in> set line" "length (text_of line) < 1024"
  shows "\<exists>h' new. save_history h line = Inr h' \<and> history_ok h' \<and> text_of new = text_of line
    \<and> history_list h' = (history_list h)[history_write h := new]
    \<and> int (history_write h') = (int (history_write h) + 1) mod 10 \<and> history_size h' = min 10 (Suc (history_size h))"
proof -
  obtain old where old: "history_line h (int (history_write h)) = Inr old" "length old = 1024"
    using history_line_ok [OF h, of "int (history_write h)"] h by (auto simp: history_ok_def)
  let ?new = "text_of line @ 0 # drop (Suc (length (text_of line))) old"
  have new: "array_strcpy old line = Inr ?new" "length ?new = 1024" "text_of ?new = text_of line" "0 \<in> set ?new"
    using array_strcpy_text [OF line(1), of old] line(2) old(2) by (simp_all add: text_append text_nonzero)
  define L where "L = (history_list h)[history_write h := ?new]"
  define w where "w = (if Suc (history_write h) = 10 then 0 else Suc (history_write h))"
  define h' where "h' = h\<lparr>history_list := L, history_write := w, history_size := min 10 (Suc (history_size h))\<rparr>"
  have "\<forall>l \<in> set L. length l = 1024 \<and> 0 \<in> set l"
    using h new(2,4) set_update_subset_insert [of "history_list h" "history_write h" ?new]
    unfolding history_ok_def L_def by blast
  moreover have "length L = 10" using h by (simp add: L_def history_ok_def)
  moreover have w: "int w = (int (history_write h) + 1) mod 10" "w < 10" "history_size h < 9 \<longrightarrow> w = Suc (history_size h)"
    using h by (auto simp: w_def history_ok_def mod_pos_pos_trivial)
  ultimately have "history_ok h'" using h by (simp add: h'_def history_ok_def min_def)
  moreover have "save_history h line = Inr h'"
    using old(1) new(1) h
    by (cases "history_size h = 10")
      (simp_all add: h'_def L_def w_def save_history_def Let_def history_max_def history_ok_def min_def)
  ultimately show ?thesis
    using new(3) w(1) by (intro exI [of _ h'] exI [of _ ?new]) (simp add: h'_def L_def)
qed

lemma save_history_recent:
  assumes h: "history_ok h" and line: "0 \<in> set line" "length (text_of line) < 1024"
  shows "\<exists>h'. save_history h line = Inr h' \<and> history_ok h' \<and> recent h' = take 10 (text_of line # recent h)"
proof -
  obtain h' new where s: "save_history h line = Inr h'" "history_ok h'" "text_of new = text_of line"
      "history_list h' = (history_list h)[history_write h := new]"
      "int (history_write h') = (int (history_write h) + 1) mod 10" "history_size h' = min 10 (Suc (history_size h))"
    using save_history_result [OF assms] by blast
  let ?w = "int (history_write h)"
  have w: "?w < 10" "length (history_list h) = 10" "history_size h \<le> 10" using h by (simp_all add: history_ok_def)
  have idx: "(int (history_write h') - 1 - int j) mod 10 = (?w - int j) mod 10" for j
    unfolding s(5) by (simp add: mod_simps algebra_simps)
  have "recent h' ! j = take 10 (text_of line # recent h) ! j" if j: "j < min 10 (Suc (history_size h))" for j
  proof (cases j)
    case 0
    then show ?thesis using w s(3,4,6) idx [of 0] recent_nth [of 0 h'] by (simp add: mod_pos_pos_trivial)
  next
    case (Suc i)
    have ne: "nat ((?w - int j) mod 10) \<noteq> history_write h"
    proof
      assume "nat ((?w - int j) mod 10) = history_write h"
      then have "(?w - int j) mod 10 = ?w mod 10" using w by (simp add: nat_eq_iff mod_pos_pos_trivial)
      then have "(10 :: int) dvd int j" by (simp add: mod_eq_dvd_iff)
      then have "10 dvd j" using int_dvd_int_iff [of 10 j] by simp
      then show False using j Suc by (auto dest: dvd_imp_le)
    qed
    have "int j = 1 + int i" using Suc by simp
    then have "?w - int j = ?w - 1 - int i" by simp
    then show ?thesis
      using j Suc s(4,6) idx [of j] ne recent_nth [of j h'] recent_nth [of i h] by (simp add: diff_diff_eq)
  qed
  then have "recent h' = take 10 (text_of line # recent h)"
    using s(6) by (intro nth_equalityI) (simp_all add: recent_length)
  then show ?thesis using s(1,2) by blast
qed

fun save_all :: "history \<Rightarrow> u8 list list \<Rightarrow> history result" where
  "save_all h [] = Inr h"
| "save_all h (line # lines) = rbind (save_history h line) (\<lambda>h. save_all h lines)"

lemma take_prefix_take: "take n (xs @ take n ys) = take n (xs @ ys)"
  by simp

lemma save_all_recent:
  "history_ok h \<Longrightarrow> \<forall>l \<in> set lines. 0 \<in> set l \<and> length (text_of l) < 1024 \<Longrightarrow>
    \<exists>h'. save_all h lines = Inr h' \<and> history_ok h' \<and> recent h' = take 10 (rev (map text_of lines) @ recent h)"
proof (induction lines arbitrary: h)
  case Nil
  then show ?case by (simp add: recent_def history_ok_def)
next
  case (Cons l ls)
  obtain h1 where h1: "save_history h l = Inr h1" "history_ok h1" "recent h1 = take 10 (text_of l # recent h)"
    using save_history_recent [OF Cons.prems(1), of l] Cons.prems(2) by auto
  obtain h2 where "save_all h1 ls = Inr h2" "history_ok h2" "recent h2 = take 10 (rev (map text_of ls) @ recent h1)"
    using Cons.IH [OF h1(2)] Cons.prems(2) by auto
  moreover have "take 10 (rev (map text_of ls) @ recent h1) = take 10 (rev (map text_of (l # ls)) @ recent h)"
    unfolding h1(3) take_prefix_take by simp
  ultimately show ?case using h1(1) by simp
qed

text \<open>The editor shows the line \<open>k\<close> presses of the arrow key back.\<close>

definition back_index :: "history \<Rightarrow> nat \<Rightarrow> int" where
  "back_index h k = (int (history_write h) - int k) mod int (history_size h)"

definition shows_line :: "history \<Rightarrow> editor \<Rightarrow> nat \<Rightarrow> bool" where
  "shows_line h ed k \<longleftrightarrow> editor_ok h ed \<and> ed_history_used ed \<and> ed_history_index ed = back_index h k
     \<and> take (ed_i ed) (ed_buf ed) = text_of (history_list h ! nat (back_index h k))"

lemma next_back:
  assumes h: "history_ok h" and n: "0 < history_size h"
  shows "ed_history_used ed \<Longrightarrow> ed_history_index ed = back_index h k \<Longrightarrow> next_index h ed 226 = back_index h (Suc k)"
    and "\<not> ed_history_used ed \<Longrightarrow> next_index h ed 226 = back_index h 1"
proof -
  let ?n = "int (history_size h)"
  have step: "(if x mod ?n = 0 then ?n - 1 else x mod ?n - 1) = (x - 1) mod ?n" for x
  proof -
    have "(x - 1) mod ?n = (x mod ?n - 1) mod ?n" by (simp add: mod_diff_left_eq)
    also have "\<dots> = (if x mod ?n = 0 then ?n - 1 else x mod ?n - 1)"
    proof (cases "x mod ?n = 0")
      case False
      then have "0 \<le> x mod ?n - 1" "x mod ?n - 1 < ?n"
        using n pos_mod_bound [of ?n x] pos_mod_sign [of ?n x] by linarith+
      then show ?thesis using False by (simp add: mod_pos_pos_trivial)
    qed (use n in \<open>simp add: zmod_minus1\<close>)
    finally show ?thesis by simp
  qed
  show "next_index h ed 226 = back_index h (Suc k)" if "ed_history_used ed" "ed_history_index ed = back_index h k"
    using that step [of "int (history_write h) - int k"] by (simp add: next_index_def back_index_def Let_def algebra_simps)
  have "history_write h < history_size h \<or> history_write h = history_size h" using h by (auto simp: history_ok_def)
  then show "next_index h ed 226 = back_index h 1" if "\<not> ed_history_used ed"
    using that n step [of "int (history_write h)"]
    by (auto simp: next_index_def back_index_def Let_def mod_pos_pos_trivial split: if_splits)
qed

lemma arrow_shows:
  assumes h: "history_ok h" and n: "0 < history_size h" and ed: "editor_ok h ed" and i: "next_index h ed 226 = back_index h k"
  shows "\<exists>ed'. readline_key h ed 226 = Inr (Continue ed') \<and> shows_line h ed' k"
proof -
  have n': "history_size h \<noteq> 0" using n by simp
  obtain ed' where k: "history_key h ed 226 = Inr ed'" "editor_ok h ed'" using history_key_ok [OF h ed] by blast
  then show ?thesis
    using history_key_result(1) [OF h ed n', of 226] i by (auto simp: shows_line_def readline_key_def Let_def)
qed

lemma arrows_again:
  assumes h: "history_ok h" and n: "0 < history_size h"
  shows "shows_line h ed k \<Longrightarrow>
    \<exists>ed'. readline_keys h ed (replicate m 226 @ ks) = readline_keys h ed' ks \<and> shows_line h ed' (m + k)"
proof (induction m arbitrary: ed k)
  case (Suc m)
  have "editor_ok h ed" "next_index h ed 226 = back_index h (Suc k)"
    using Suc.prems next_back(1) [OF h n, of ed k] by (simp_all add: shows_line_def)
  then obtain ed1 where e1: "readline_key h ed 226 = Inr (Continue ed1)" "shows_line h ed1 (Suc k)"
    using arrow_shows [OF h n] by blast
  then show ?case using Suc.IH [OF e1(2)] by auto
qed auto

lemma back_recent:
  assumes h: "history_ok h" and n: "0 < history_size h"
  shows "text_of (history_list h ! nat (back_index h (Suc k))) = recent h ! (k mod history_size h)"
proof -
  let ?n = "int (history_size h)" and ?w = "int (history_write h)"
  have r: "int (k mod history_size h) = int k mod ?n" by (simp add: zmod_int)
  have "(?w - int (Suc k)) mod ?n = (?w - 1 - int k mod ?n) mod 10"
  proof (cases "history_size h = 10")
    case True
    then show ?thesis using mod_diff_right_eq [of "?w - 1" "int k" 10] by (simp add: diff_diff_eq add.commute)
  next
    case False
    then have w: "?w = ?n" "?n \<le> 10" using h by (auto simp: history_ok_def)
    have b: "0 \<le> int k mod ?n" "int k mod ?n < ?n" using n by simp_all
    have "(?w - int (Suc k)) mod ?n = (?n - 1 - int k mod ?n) mod ?n"
      unfolding w(1) using mod_diff_right_eq [of "?n - 1" "int k" ?n] by (simp add: diff_diff_eq add.commute)
    also have "\<dots> = ?n - 1 - int k mod ?n" using b by (intro mod_pos_pos_trivial) linarith+
    also have "\<dots> = (?n - 1 - int k mod ?n) mod 10" using b w(2) by (intro mod_pos_pos_trivial [symmetric]) linarith+
    finally show ?thesis by (simp add: w(1))
  qed
  then show ?thesis using n by (simp add: back_index_def recent_def r)
qed

section \<open>Theorems\<close>

text \<open>What the prompt relies on in the execution of a line: it returns and keeps the size of the buffer.\<close>

definition executes :: "(u8 list \<Rightarrow> 's \<Rightarrow> (int \<times> u8 list \<times> 's) result) \<Rightarrow> bool" where
  "executes execute \<longleftrightarrow> (\<forall>buf s. length buf = 1024 \<and> 0 \<in> set buf \<longrightarrow>
     (\<exists>v buf' s'. execute buf s = Inr (v, buf', s') \<and> length buf' = 1024))"

lemma executesD:
  assumes "executes execute" and "length buf = 1024" and "0 \<in> set buf"
  obtains v buf' s' where "execute buf s = Inr (v, buf', s')" "length buf' = 1024"
  using assms unfolding executes_def by blast

lemma readline_rest:
  "readline_keys h ed keys = Inr (r, rest) \<Longrightarrow> (\<forall>ed. r \<noteq> Continue ed) \<Longrightarrow> length rest < length keys"
proof (induction keys arbitrary: ed)
  case (Cons c cs)
  obtain r' where r': "readline_key h ed c = Inr r'" using Cons.prems(1) by auto
  show ?case
  proof (cases r')
    case (Continue ed')
    then show ?thesis using Cons.IH [of ed'] Cons.prems r' by auto
  qed (use Cons.prems r' in auto)
qed auto

lemma readline_no_error:
  assumes "\<forall>c \<in> set keys. 0 \<le> c" and "readline_keys h ed keys = Inr (r, rest)"
  shows "(\<forall>buf. r \<noteq> Read_error buf) \<and> set rest \<subseteq> set keys"
  using assms
proof (induction keys arbitrary: ed)
  case (Cons c cs)
  obtain r' where r': "readline_key h ed c = Inr r'" using Cons.prems(2) by auto
  then have ne: "r' \<noteq> Read_error buf" for buf
    using Cons.prems(1) by (auto simp: readline_key_def Let_def split: if_splits)
  show ?case
  proof (cases r')
    case (Continue ed')
    then show ?thesis using Cons.IH [of ed'] Cons.prems r' by auto
  qed (use Cons.prems r' ne in auto)
qed auto

lemma prompt_round:
  assumes h: "history_ok h" and b: "length buf = 1024" and k: "\<forall>c \<in> set keys. 0 \<le> c"
  shows "(\<exists>ed. command_prompt_readline h buf keys = Inr (Continue ed, []) \<and> length (ed_buf ed) = 1024)
    \<or> (\<exists>line rest h'. command_prompt_readline h buf keys = Inr (Line line, rest) \<and> length line = 1024 \<and> 0 \<in> set line
        \<and> length rest < length keys \<and> set rest \<subseteq> set keys
        \<and> save_history h line = Inr h' \<and> history_ok h' \<and> recent h' = take 10 (text_of line # recent h))"
proof -
  obtain r rest where r: "readline_keys h (new_editor buf) keys = Inr (r, rest)" "result_ok h r"
    using readline_keys_ok [OF h new_editor_ok [OF b]] by blast
  note e = readline_no_error [OF k r(1)]
  show ?thesis
  proof (cases r)
    case (Continue ed)
    have "readline_keys h ed' ks = Inr (Continue ed, rest) \<Longrightarrow> rest = []" for ed' ks
    proof (induction ks arbitrary: ed')
      case (Cons c ks)
      then obtain r' where "readline_key h ed' c = Inr r'" by auto
      then show ?case using Cons by (cases r') auto
    qed simp
    then show ?thesis using r Continue by (auto simp: command_prompt_readline_def result_ok_def editor_ok_def)
  next
    case (Line line)
    then have l: "length line = 1024" "0 \<in> set line" using r(2) by (simp_all add: result_ok_def)
    have "length (text_of line) < 1024" using text_short [OF l(2)] l(1) by simp
    then obtain h' where "save_history h line = Inr h'" "history_ok h'" "recent h' = take 10 (text_of line # recent h)"
      using save_history_recent [OF h l(2)] by blast
    then show ?thesis
      using r(1) l Line e readline_rest [OF r(1)] unfolding command_prompt_readline_def by blast
  next
    case (Read_error line)
    then show ?thesis using e by blast
  qed
qed

lemma prompt_rounds_safe:
  assumes ex: "executes execute"
  shows "history_ok h \<Longrightarrow> length buf = 1024 \<Longrightarrow> \<forall>c \<in> set keys. 0 \<le> c \<Longrightarrow> length keys < n \<Longrightarrow>
    \<exists>h' buf' s'. prompt_rounds n execute h buf keys s = Inr (h', buf', s') \<and> history_ok h' \<and> length buf' = 1024"
proof (induction n arbitrary: h buf keys s)
  case (Suc n)
  from prompt_round [OF Suc.prems(1-3)] show ?case
  proof (elim disjE exE conjE)
    fix ed assume "command_prompt_readline h buf keys = Inr (Continue ed, [])" "length (ed_buf ed) = 1024"
    then show ?thesis using Suc.prems(1) by simp
  next
    fix line rest h' assume l: "command_prompt_readline h buf keys = Inr (Line line, rest)" "length line = 1024" "0 \<in> set line"
      "length rest < length keys" "set rest \<subseteq> set keys" "save_history h line = Inr h'" "history_ok h'"
    obtain v buf' s' where e: "execute line s = Inr (v, buf', s')" "length buf' = 1024"
      using executesD [OF ex l(2,3)] by blast
    have "\<forall>c \<in> set rest. 0 \<le> c" "length rest < n" using l(4,5) Suc.prems(3,4) by auto
    then show ?thesis using Suc.IH [OF l(7) e(2), of rest s'] l(1,6,7) e by auto
  qed
qed simp

text \<open>
  C19. The command prompt stays inside its buffers: whatever keys are typed, completion and history
  included, run_command_prompt() never writes outside the line buffer or a line of the history and never
  uses a history entry that does not exist, provided only that executing a command returns.
\<close>

theorem command_prompt_safe:
  assumes "executes execute" and "\<forall>c \<in> set keys. 0 \<le> c" and "length buf = 1024"
  shows "\<exists>h buf' s'. run_command_prompt execute no_history buf keys s = Inr (h, buf', s')
    \<and> history_size h \<le> 10 \<and> history_write h < 10 \<and> length (history_list h) = 10
    \<and> (\<forall>line \<in> set (history_list h). length line = 1024 \<and> 0 \<in> set line)"
proof -
  have "history_ok no_history" by (simp add: history_ok_def no_history_def)
  then obtain h buf' s' where "run_command_prompt execute no_history buf keys s = Inr (h, buf', s')" "history_ok h"
    using prompt_rounds_safe [OF assms(1) _ assms(3,2), of no_history "Suc (length keys)" s]
    by (auto simp: run_command_prompt_def simp del: prompt_rounds.simps)
  then show ?thesis by (auto simp: history_ok_def)
qed

text \<open>
  Completion: after some characters, pressing the tabulator key shows the commands that start with
  them one after the other, in the order of the table and then from the beginning again, and the line
  returned is the one shown.
\<close>

theorem readline_completes:
  assumes h: "history_ok h" and b: "length buf = 1024"
    and cs: "\<forall>c \<in> set cs. plain_key c" "length cs \<le> 1023" and ne: "completions (keys_text cs) \<noteq> []"
  shows "\<exists>line. command_prompt_readline h buf (cs @ replicate (Suc k) 9 @ [10]) = Inr (Line line, [])
    \<and> text_of line = completions (keys_text cs) ! (k mod length (completions (keys_text cs)))"
proof -
  let ?ed = "(new_editor buf)\<lparr>ed_buf := keys_text cs @ drop (length cs) buf, ed_i := length cs\<rparr>"
  have typed: "readline_keys h (new_editor buf) (cs @ ks) = readline_keys h ?ed ks" for ks
    using typing [OF cs(1) new_editor_ok [OF b, of h], of ks] cs(2) by (simp add: new_editor_def fresh_flags_def)
  have ok: "editor_ok h ?ed" using b cs(2) by (simp add: editor_ok_def new_editor_def keys_text_def)
  have nf: "\<not> ed_found_matches ?ed" by (simp add: new_editor_def)
  have nz: "0 \<notin> set (keys_text cs)" using cs(1) plain_nonzero by (auto simp: keys_text_def)
  have tk: "take (ed_i ?ed) (ed_buf ?ed) = keys_text cs" by (simp add: keys_text_def)
  define ms where "ms = candidates ?ed"
  have cm: "map (\<lambda>k. ascii (command_names ! k)) ms = completions (keys_text cs)"
    unfolding ms_def using candidates_completions [of ?ed] nz b cs(2) unfolding tk by (simp add: keys_text_def)
  have ms: "ms \<noteq> []" "\<forall>k \<in> set ms. k < NUM_OF_COMMANDS" using cm ne by (auto simp: ms_def candidates_def)
  have "readline_key h ?ed 9 = Inr (Continue (completed ?ed ms 0))"
    using tab_key_result(2) [OF ok nf] ms(1) by (simp add: readline_key_def Let_def ms_def)
  moreover have "shows_match h (completed ?ed ms 0) ms 0" using completed_shows [OF ok ms, of 0] by simp
  from tabs_again [OF ms this, of k "[10]"] obtain ed' where
    "readline_keys h (completed ?ed ms 0) (replicate k 9 @ [10]) = readline_keys h ed' [10]" "shows_match h ed' ms k" by auto
  ultimately have run: "command_prompt_readline h buf (cs @ replicate (Suc k) 9 @ [10]) = readline_keys h ed' [10]"
    using typed by (simp add: command_prompt_readline_def)
  have e: "editor_ok h ed'" "take (ed_i ed') (ed_buf ed') = ascii (command_names ! (ms ! (k mod length ms)))"
    using \<open>shows_match h ed' ms k\<close> by (simp_all add: shows_match_def)
  have l: "k mod length ms < length ms" using ms(1) by simp
  then have c: "take (ed_i ed') (ed_buf ed') = completions (keys_text cs) ! (k mod length (completions (keys_text cs)))"
    unfolding e(2) cm [symmetric] by simp
  have "0 \<notin> set (ascii (command_names ! (ms ! (k mod length ms))))"
    using names_nonzero ms(2) l by (simp add: NUM_OF_COMMANDS_def)
  then show ?thesis using enter_key [OF e(1), of "[]"] run c e(2) by auto
qed

lemma typed_line:
  assumes "history_ok h" and "length buf = 1024" and "\<forall>c \<in> set cs. plain_key c" "length cs \<le> 1023"
  shows "\<exists>line. command_prompt_readline h buf (cs @ 10 # ks) = Inr (Line line, ks) \<and> text_of line = keys_text cs"
proof -
  let ?ed = "(new_editor buf)\<lparr>ed_buf := keys_text cs @ drop (length cs) buf, ed_i := length cs\<rparr>"
  have "readline_keys h (new_editor buf) (cs @ 10 # ks) = readline_keys h ?ed (10 # ks)"
    using typing [OF assms(3) new_editor_ok [OF assms(2), of h], of "10 # ks"] assms(4)
    by (simp add: new_editor_def fresh_flags_def)
  moreover have "editor_ok h ?ed" using assms by (simp add: editor_ok_def new_editor_def keys_text_def)
  moreover have "0 \<notin> set (keys_text cs)" using assms(3) plain_nonzero by (auto simp: keys_text_def)
  moreover have "take (ed_i ?ed) (ed_buf ?ed) = keys_text cs" by (simp add: keys_text_def)
  ultimately show ?thesis using enter_key [of h ?ed ks] by (simp only: command_prompt_readline_def) auto
qed

text \<open>Lines typed one after the other end up in the history.\<close>

definition typed_lines :: "int list list \<Rightarrow> int list" where
  "typed_lines lines = concat (map (\<lambda>cs. cs @ [10]) lines)"

lemma prompt_rounds_typed:
  assumes ex: "executes execute" and pos: "\<And>buf s v b s'. execute buf s = Inr (v, b, s') \<Longrightarrow> 0 \<le> v"
  shows "history_ok h \<Longrightarrow> length buf = 1024 \<Longrightarrow> \<forall>cs \<in> set lines. (\<forall>c \<in> set cs. plain_key c) \<and> length cs \<le> 1023 \<Longrightarrow>
    length lines < n \<Longrightarrow> \<exists>h' buf' s'. prompt_rounds n execute h buf (typed_lines lines) s = Inr (h', buf', s') \<and> history_ok h'
      \<and> length buf' = 1024 \<and> recent h' = take 10 (rev (map keys_text lines) @ recent h)"
proof (induction lines arbitrary: n h buf s)
  case Nil
  then show ?case
    by (cases n) (simp_all add: typed_lines_def command_prompt_readline_def new_editor_def recent_length history_ok_def)
next
  case (Cons cs ls)
  obtain m where n: "n = Suc m" using Cons.prems(4) by (cases n) auto
  let ?k = "typed_lines ls"
  obtain line where l: "command_prompt_readline h buf (cs @ 10 # ?k) = Inr (Line line, ?k)" "text_of line = keys_text cs"
    using typed_line [OF Cons.prems(1,2), of cs ?k] Cons.prems(3) by auto
  have "\<forall>c \<in> set (cs @ 10 # ?k). 0 \<le> c"
  proof
    fix c assume "c \<in> set (cs @ 10 # ?k)"
    then consider "c = 10" | l where "l \<in> set (cs # ls)" "c \<in> set l" by (auto simp: typed_lines_def split: if_splits)
    then show "0 \<le> c"
    proof cases
      case 2
      then have "plain_key c" using Cons.prems(3) by blast
      then show ?thesis by (simp add: plain_key_def)
    qed simp
  qed
  from prompt_round [OF Cons.prems(1,2) this] l obtain h1 where h1: "length line = 1024" "0 \<in> set line"
      "save_history h line = Inr h1" "history_ok h1" "recent h1 = take 10 (text_of line # recent h)"
    by auto
  obtain v buf1 s1 where e: "execute line s = Inr (v, buf1, s1)" "length buf1 = 1024"
    using executesD [OF ex h1(1,2)] by blast
  have "0 \<le> v" by (rule pos [OF e(1)])
  moreover obtain h2 buf2 s2 where r: "prompt_rounds m execute h1 buf1 ?k s1 = Inr (h2, buf2, s2)" "history_ok h2"
      "length buf2 = 1024" "recent h2 = take 10 (rev (map keys_text ls) @ recent h1)"
    using Cons.IH [OF h1(4) e(2), of m s1] Cons.prems(3,4) n by auto
  moreover have "recent h2 = take 10 (rev (map keys_text (cs # ls)) @ recent h)"
    unfolding r(4) h1(5) take_prefix_take l(2) by simp
  moreover have "typed_lines (cs # ls) = cs @ 10 # ?k" by (simp add: typed_lines_def)
  ultimately show ?case using n l(1) h1(3) e(1) by simp
qed

lemma readline_recalls:
  assumes h: "history_ok h" and b: "length buf = 1024" and n: "0 < history_size h"
  shows "\<exists>line. command_prompt_readline h buf (replicate (Suc k) 226 @ [10]) = Inr (Line line, [])
    \<and> text_of line = recent h ! (k mod history_size h)"
proof -
  note ok = new_editor_ok [OF b, of h]
  have "next_index h (new_editor buf) 226 = back_index h 1"
    by (rule next_back(2) [OF h n]) (simp add: new_editor_def)
  then obtain ed1 where e1: "readline_key h (new_editor buf) 226 = Inr (Continue ed1)" "shows_line h ed1 1"
    using arrow_shows [OF h n ok] by blast
  obtain ed2 where e2: "readline_keys h ed1 (replicate k 226 @ [10]) = readline_keys h ed2 [10]" "shows_line h ed2 (Suc k)"
    using arrows_again [OF h n e1(2), of k "[10]"] by auto
  then have t: "editor_ok h ed2" "take (ed_i ed2) (ed_buf ed2) = recent h ! (k mod history_size h)"
    using back_recent [OF h n, of k] by (simp_all add: shows_line_def)
  have "0 \<notin> set (take (ed_i ed2) (ed_buf ed2))" using e2(2) text_nonzero by (simp add: shows_line_def)
  then show ?thesis using enter_key [OF t(1), of "[]"] t(2) e1(1) e2(1) by (auto simp: command_prompt_readline_def)
qed

text \<open>
  C20. The history: after any lines have been typed and executed, pressing the up key k + 1 times and then
  enter gives back the line before the last k ones, for each of the last ten lines.
\<close>

theorem prompt_history_recall:
  assumes "executes execute" and "\<forall>buf s v b s'. execute buf s = Inr (v, b, s') \<longrightarrow> 0 \<le> v" and "length buf = 1024"
    and "\<forall>cs \<in> set lines. (\<forall>c \<in> set cs. plain_key c) \<and> length cs \<le> 1023" and "k < 10" and "k < length lines"
  shows "\<exists>h buf' s' line. run_command_prompt execute no_history buf (typed_lines lines) s = Inr (h, buf', s')
    \<and> command_prompt_readline h buf' (replicate (Suc k) 226 @ [10]) = Inr (Line line, [])
    \<and> text_of line = keys_text (rev lines ! k)"
proof -
  have ok: "history_ok no_history" "recent no_history = []" by (simp_all add: history_ok_def no_history_def recent_def)
  have "length lines \<le> length (typed_lines lines)" unfolding typed_lines_def by (induction lines) auto
  then obtain h buf' s' where r: "run_command_prompt execute no_history buf (typed_lines lines) s = Inr (h, buf', s')" "history_ok h"
      "length buf' = 1024" "recent h = take 10 (rev (map keys_text lines) @ recent no_history)"
    using prompt_rounds_typed [OF assms(1) _ ok(1) assms(3,4), of "Suc (length (typed_lines lines))" s] assms(2)
    by (auto simp: run_command_prompt_def simp del: prompt_rounds.simps)
  have rec: "recent h = take 10 (rev (map keys_text lines))" using r(4) ok(2) by simp
  then have size: "history_size h = min 10 (length lines)" using recent_length [of h] by simp
  then have k: "0 < history_size h" "k mod history_size h = k" using assms(5,6) by auto
  have "recent h ! k = keys_text (rev lines ! k)" using assms(5,6) unfolding rec by (simp add: rev_map)
  then show ?thesis using readline_recalls [OF r(2,3) k(1), of k] k(2) r(1) by auto
qed

text \<open>A prompt whose commands do nothing.\<close>

definition no_commands :: "u8 list \<Rightarrow> unit \<Rightarrow> (int \<times> u8 list \<times> unit) result" where
  "no_commands buf s = Inr (0, buf, s)"

lemma no_commands_execute: "executes no_commands"
  by (simp add: executes_def no_commands_def)

theorem command_prompt_safe_witness:
  "\<exists>h buf' s'. run_command_prompt no_commands no_history (replicate 1024 0) [226, 9, 8, 99, 9, 10, 227, 13] () = Inr (h, buf', s')
     \<and> history_write h < 10"
  using command_prompt_safe [OF no_commands_execute, of "[226, 9, 8, 99, 9, 10, 227, 13]" "replicate 1024 0" "()"] by auto

theorem readline_completes_witness:
  "\<exists>line. command_prompt_readline no_history (replicate 1024 0) ([107] @ replicate (Suc 1) 9 @ [10]) = Inr (Line line, [])
     \<and> text_of line = ascii ''kill''"
proof -
  have c: "completions (keys_text [107]) = [ascii ''kernel_info'', ascii ''kill'', ascii ''killall'']"
    by (simp add: completions_def keys_text_def command_names_def ascii_def)
  have h: "history_ok no_history" by (simp add: history_ok_def no_history_def)
  show ?thesis
    using readline_completes [OF h, of "replicate 1024 0" "[107]" 1] unfolding c by (simp add: plain_key_def)
qed

theorem prompt_history_recall_witness:
  "\<exists>h buf' s' line. run_command_prompt no_commands no_history (replicate 1024 0) (typed_lines [[108, 114, 117], [104]]) () = Inr (h, buf', s')
     \<and> command_prompt_readline h buf' (replicate (Suc 1) 226 @ [10]) = Inr (Line line, []) \<and> text_of line = ascii ''lru''"
proof -
  have "keys_text (rev [[108, 114, 117], [104]] ! 1) = ascii ''lru''" by (simp add: keys_text_def ascii_def)
  then show ?thesis
    using prompt_history_recall [OF no_commands_execute, of "replicate 1024 0" "[[108, 114, 117], [104]]" 1 "()"]
    by (simp add: no_commands_def plain_key_def)
qed

end
