(* ===== verification/FOS_String.thy ===== *)
theory FOS_String
  imports FOS_Mmu "HOL-Library.Signed_Division"
begin

text \<open>
  The string library of lib/string.c, on a flat memory of bytes. A pointer is a 32-bit address, an
  int or a long a 32-bit word. Loops that stop only at a NUL byte are partial functions: \<open>None\<close> is
  a loop that never ends. The predicate \<open>cstr\<close> says which string a pointer designates; the theorems
  give the behaviour of the routines in terms of it.
\<close>

section \<open>Lengths\<close>

type_synonym bytes = "u32 \<Rightarrow> u8"

partial_function (option) strlen_loop :: "bytes \<Rightarrow> u32 \<Rightarrow> u32 \<Rightarrow> u32 option" where
  "strlen_loop m s n = (if m s \<noteq> 0 then strlen_loop m (s + 1) (n + 1) else Some n)"

definition strlen :: "bytes \<Rightarrow> u32 \<Rightarrow> u32 option" where
  "strlen m s = strlen_loop m s 0"

fun strnlen_loop :: "nat \<Rightarrow> bytes \<Rightarrow> u32 \<Rightarrow> u32 \<Rightarrow> u32" where
  "strnlen_loop 0 m s n = n"
| "strnlen_loop (Suc k) m s n = (if m s \<noteq> 0 then strnlen_loop k m (s + 1) (n + 1) else n)"

definition strnlen :: "bytes \<Rightarrow> u32 \<Rightarrow> u32 \<Rightarrow> u32" where
  "strnlen m s n = strnlen_loop (unat n) m s 0"

section \<open>Copying strings\<close>

partial_function (option) strcpy_loop :: "bytes \<Rightarrow> u32 \<Rightarrow> u32 \<Rightarrow> bytes option" where
  "strcpy_loop m dst src =
     (let c = m src; m' = m(dst := c) in
      if c \<noteq> 0 then strcpy_loop m' (dst + 1) (src + 1) else Some m')"

definition strcpy :: "bytes \<Rightarrow> u32 \<Rightarrow> u32 \<Rightarrow> (u32 \<times> bytes) option" where
  "strcpy m dst src = map_option (Pair dst) (strcpy_loop m dst src)"

text \<open>strncpy() reads the source again after the store, so the two may overlap.\<close>

fun strncpy_loop :: "nat \<Rightarrow> bytes \<Rightarrow> u32 \<Rightarrow> u32 \<Rightarrow> bytes" where
  "strncpy_loop 0 m dst src = m"
| "strncpy_loop (Suc k) m dst src =
     (let m' = m(dst := m src) in
      strncpy_loop k m' (dst + 1) (if m' src \<noteq> 0 then src + 1 else src))"

definition strncpy :: "bytes \<Rightarrow> u32 \<Rightarrow> u32 \<Rightarrow> u32 \<Rightarrow> u32 \<times> bytes" where
  "strncpy m dst src n = (dst, strncpy_loop (unat n) m dst src)"

text \<open>The loop of strlcpy(); the count is the decremented size.\<close>

fun strlcpy_loop :: "nat \<Rightarrow> bytes \<Rightarrow> u32 \<Rightarrow> u32 \<Rightarrow> u32 \<times> bytes" where
  "strlcpy_loop 0 m dst src = (dst, m)"
| "strlcpy_loop (Suc k) m dst src =
     (if m src \<noteq> 0 then strlcpy_loop k (m(dst := m src)) (dst + 1) (src + 1) else (dst, m))"

definition strlcpy :: "bytes \<Rightarrow> u32 \<Rightarrow> u32 \<Rightarrow> u32 \<Rightarrow> u32 \<times> bytes" where
  "strlcpy m dst_in src n =
     (if n > 0 then
        let (dst, m) = strlcpy_loop (unat n - 1) m dst_in src in (dst - dst_in, m(dst := 0))
      else (0, m))"

section \<open>Comparing and searching\<close>

text \<open>The difference of two bytes as an int.\<close>

definition byte_diff :: "u8 \<Rightarrow> u8 \<Rightarrow> u32" where
  "byte_diff a b = ucast a - ucast b"

partial_function (option) strcmp :: "bytes \<Rightarrow> u32 \<Rightarrow> u32 \<Rightarrow> u32 option" where
  "strcmp m p q =
     (if m p \<noteq> 0 \<and> m p = m q then strcmp m (p + 1) (q + 1) else Some (byte_diff (m p) (m q)))"

fun strncmp_loop :: "nat \<Rightarrow> bytes \<Rightarrow> u32 \<Rightarrow> u32 \<Rightarrow> u32" where
  "strncmp_loop 0 m p q = 0"
| "strncmp_loop (Suc k) m p q =
     (if m p \<noteq> 0 \<and> m p = m q then strncmp_loop k m (p + 1) (q + 1) else byte_diff (m p) (m q))"

definition strncmp :: "bytes \<Rightarrow> u32 \<Rightarrow> u32 \<Rightarrow> u32 \<Rightarrow> u32" where
  "strncmp m p q n = strncmp_loop (unat n) m p q"

partial_function (option) strchr :: "bytes \<Rightarrow> u32 \<Rightarrow> u8 \<Rightarrow> u32 option" where
  "strchr m s c =
     (if m s \<noteq> 0 then (if m s = c then Some s else strchr m (s + 1) c) else Some 0)"

partial_function (option) strfind :: "bytes \<Rightarrow> u32 \<Rightarrow> u8 \<Rightarrow> u32 option" where
  "strfind m s c =
     (if m s \<noteq> 0 then (if m s = c then Some s else strfind m (s + 1) c) else Some s)"

section \<open>Blocks of memory\<close>

fun memset_loop :: "nat \<Rightarrow> bytes \<Rightarrow> u32 \<Rightarrow> u8 \<Rightarrow> bytes" where
  "memset_loop 0 m p c = m"
| "memset_loop (Suc k) m p c = memset_loop k (m(p := c)) (p + 1) c"

text \<open>
  The count is kept in an int and compared after the decrement, so a count above 2 ^ 31 is negative
  and nothing is written; the decrement of the least int is taken to wrap around.
\<close>

definition memset :: "bytes \<Rightarrow> u32 \<Rightarrow> u32 \<Rightarrow> u32 \<Rightarrow> u32 \<times> bytes" where
  "memset m v c n =
     (v, if sint (n - 1) \<ge> 0 then memset_loop (unat (n - 1) + 1) m v (ucast c) else m)"

fun copy_up :: "nat \<Rightarrow> bytes \<Rightarrow> u32 \<Rightarrow> u32 \<Rightarrow> bytes" where
  "copy_up 0 m d s = m"
| "copy_up (Suc k) m d s = copy_up k (m(d := m s)) (d + 1) (s + 1)"

fun copy_down :: "nat \<Rightarrow> bytes \<Rightarrow> u32 \<Rightarrow> u32 \<Rightarrow> bytes" where
  "copy_down 0 m d s = m"
| "copy_down (Suc k) m d s = copy_down k (m(d - 1 := m (s - 1))) (d - 1) (s - 1)"

definition memcpy :: "bytes \<Rightarrow> u32 \<Rightarrow> u32 \<Rightarrow> u32 \<Rightarrow> u32 \<times> bytes" where
  "memcpy m dst src n = (dst, copy_up (unat n) m dst src)"

definition memmove :: "bytes \<Rightarrow> u32 \<Rightarrow> u32 \<Rightarrow> u32 \<Rightarrow> u32 \<times> bytes" where
  "memmove m dst src n =
     (dst, if src < dst \<and> src + n > dst then copy_down (unat n) m (dst + n) (src + n)
           else copy_up (unat n) m dst src)"

fun memcmp_loop :: "nat \<Rightarrow> bytes \<Rightarrow> u32 \<Rightarrow> u32 \<Rightarrow> u32" where
  "memcmp_loop 0 m s1 s2 = 0"
| "memcmp_loop (Suc k) m s1 s2 =
     (if m s1 \<noteq> m s2 then byte_diff (m s1) (m s2) else memcmp_loop k m (s1 + 1) (s2 + 1))"

definition memcmp :: "bytes \<Rightarrow> u32 \<Rightarrow> u32 \<Rightarrow> u32 \<Rightarrow> u32" where
  "memcmp m v1 v2 n = memcmp_loop (unat n) m v1 v2"

function memfind_loop :: "bytes \<Rightarrow> u32 \<Rightarrow> u32 \<Rightarrow> u8 \<Rightarrow> u32" where
  "memfind_loop m ends s c =
     (if s < ends then (if m s = c then s else memfind_loop m ends (s + 1) c) else s)"
  by pat_completeness auto
termination
  by (relation "measure (\<lambda>(m, ends, s, c). unat ends - unat s)") (auto intro: word_loop_measure)

declare memfind_loop.simps [simp del]

definition memfind :: "bytes \<Rightarrow> u32 \<Rightarrow> u32 \<Rightarrow> u32 \<Rightarrow> u32" where
  "memfind m s c n = memfind_loop m (s + n) s (ucast c)"

section \<open>Numbers\<close>

partial_function (option) skip_blanks :: "bytes \<Rightarrow> u32 \<Rightarrow> u32 option" where
  "skip_blanks m s = (if m s = 0x20 \<or> m s = 0x09 then skip_blanks m (s + 1) else Some s)"

definition digit_value :: "u8 \<Rightarrow> u32 option" where
  "digit_value c =
     (if 0x30 \<le> c \<and> c \<le> 0x39 then Some (ucast c - 0x30)
      else if 0x61 \<le> c \<and> c \<le> 0x7A then Some (ucast c - 0x61 + 10)
      else if 0x41 \<le> c \<and> c \<le> 0x5A then Some (ucast c - 0x41 + 10)
      else None)"

text \<open>The digits loop: the value, which wraps, and the address of the first character left.\<close>

partial_function (option) strtol_digits :: "bytes \<Rightarrow> u32 \<Rightarrow> u32 \<Rightarrow> u32 \<Rightarrow> (u32 \<times> u32) option" where
  "strtol_digits m s base val =
     (case digit_value (m s) of
        None \<Rightarrow> Some (val, s)
      | Some dig \<Rightarrow> if sint dig \<ge> sint base then Some (val, s)
                    else strtol_digits m (s + 1) base (val * base + dig))"

text \<open>The result and the address stored through endptr.\<close>

definition strtol :: "bytes \<Rightarrow> u32 \<Rightarrow> u32 \<Rightarrow> (u32 \<times> u32) option" where
  "strtol m s base =
     Option.bind (skip_blanks m s) (\<lambda>s.
     let (s, neg) = (if m s = 0x2B then (s + 1, False) else if m s = 0x2D then (s + 1, True) else (s, False));
         (s, base) = (if (base = 0 \<or> base = 16) \<and> m s = 0x30 \<and> m (s + 1) = 0x78 then (s + 2, 16)
                      else if base = 0 \<and> m s = 0x30 then (s + 1, 8)
                      else if base = 0 then (s, 10)
                      else (s, base))
     in map_option (\<lambda>(val, s). (if neg then - val else val, s)) (strtol_digits m s base 0))"

text \<open>
  The digits of ltostr(), least first, from index \<open>i\<close> on; the loop goes on while the next digit is
  not zero. Division and remainder truncate.
\<close>

function ltostr_loop :: "int \<Rightarrow> bytes \<Rightarrow> u32 \<Rightarrow> u32 \<Rightarrow> u32 \<times> bytes" where
  "ltostr_loop val m str i =
     (let m = m(str + i := word_of_int (val smod 10 + 0x30)); val = val sdiv 10 in
      if val smod 10 \<noteq> 0 then ltostr_loop val m str (i + 1) else (i + 1, m))"
  by pat_completeness auto
termination
proof (relation "measure (\<lambda>(val, m, str, i). nat \<bar>val\<bar>)", goal_cases)
  case (2 val m str i x xa)
  then have "\<bar>val\<bar> div 10 \<noteq> 0" by (auto simp: signed_divide_int_def signed_modulo_int_def)
  then have "\<bar>val\<bar> div 10 < \<bar>val\<bar>" by linarith
  then show ?case using 2 by (auto simp: signed_divide_int_def abs_mult abs_sgn_eq split: if_splits)
qed simp

declare ltostr_loop.simps [simp del]

function reverse_loop :: "bytes \<Rightarrow> u32 \<Rightarrow> int \<Rightarrow> int \<Rightarrow> bytes" where
  "reverse_loop m str start stop =
     (if start < stop then
        let tmp = m (str + word_of_int start);
            m = m(str + word_of_int start := m (str + word_of_int stop));
            m = m(str + word_of_int stop := tmp)
        in reverse_loop m str (start + 1) (stop - 1)
      else m)"
  by pat_completeness auto
termination
  by (relation "measure (\<lambda>(m, str, start, stop). nat (stop - start))") auto

declare reverse_loop.simps [simp del]

definition ltostr :: "bytes \<Rightarrow> u32 \<Rightarrow> u32 \<Rightarrow> bytes" where
  "ltostr m val str =
     (let neg = (sint val < 0);
          m = (if neg then m(str := 0x2D) else m);
          (s, m) = ltostr_loop (sint (if neg then - val else val)) m str (if neg then 1 else 0);
          m = reverse_loop m str (if neg then 1 else 0) (sint (s - 1))
      in m(str + s := 0))"

section \<open>Joining and splitting\<close>

fun append_chars :: "nat \<Rightarrow> bytes \<Rightarrow> u32 \<Rightarrow> u32 \<Rightarrow> bytes" where
  "append_chars 0 m d s = m"
| "append_chars (Suc k) m d s = append_chars k (m(d := m s)) (d + 1) (s + 1)"

definition strcconcat :: "bytes \<Rightarrow> u32 \<Rightarrow> u32 \<Rightarrow> u32 \<Rightarrow> bytes option" where
  "strcconcat m str1 str2 final =
     Option.bind (strlen m str1) (\<lambda>len1.
     Option.bind (strlen m str2) (\<lambda>len2.
     let n1 = nat (sint len1); n2 = nat (sint len2);
         m = append_chars n1 m final str1;
         m = append_chars n2 m (final + of_nat n1) str2
     in Some (m(final + of_nat n1 + of_nat n2 := 0))))"

definition MAX_ARGUMENTS :: nat where "MAX_ARGUMENTS = 16"

text \<open>Overwriting separators by NUL, and moving past the characters of an argument.\<close>

partial_function (option) trim_loop :: "bytes \<Rightarrow> u32 \<Rightarrow> u32 \<Rightarrow> (u32 \<times> bytes) option" where
  "trim_loop m string seps =
     (if m string = 0 then Some (string, m)
      else Option.bind (strchr m seps (m string)) (\<lambda>p.
        if p = 0 then Some (string, m) else trim_loop (m(string := 0)) (string + 1) seps))"

partial_function (option) scan_loop :: "bytes \<Rightarrow> u32 \<Rightarrow> u32 \<Rightarrow> u32 option" where
  "scan_loop m string seps =
     (if m string = 0 then Some string
      else Option.bind (strchr m seps (m string)) (\<lambda>p.
        if p \<noteq> 0 then Some string else scan_loop m (string + 1) seps))"

text \<open>
  The arguments found so far are \<open>args\<close>, which stands for argv[0], ..., argv[argc - 1]; the flag is
  the value returned.
\<close>

partial_function (option) strsplit_loop ::
  "bytes \<Rightarrow> u32 \<Rightarrow> u32 \<Rightarrow> u32 list \<Rightarrow> (bool \<times> u32 list \<times> bytes) option" where
  "strsplit_loop m string seps args =
     Option.bind (trim_loop m string seps) (\<lambda>(string, m).
     if m string = 0 then Some (True, args, m)
     else if length args = MAX_ARGUMENTS - 1 then Some (False, args, m)
     else Option.bind (scan_loop m string seps) (\<lambda>string'.
          strsplit_loop m string' seps (args @ [string])))"

definition strsplit :: "bytes \<Rightarrow> u32 \<Rightarrow> u32 \<Rightarrow> (bool \<times> u32 list \<times> bytes) option" where
  "strsplit m string seps = strsplit_loop m string seps []"

section \<open>Strings in memory\<close>

text \<open>The string of non-NUL characters \<open>xs\<close> starts at \<open>p\<close> and ends with a NUL.\<close>

fun cstr :: "bytes \<Rightarrow> u32 \<Rightarrow> u8 list \<Rightarrow> bool" where
  "cstr m p [] \<longleftrightarrow> m p = 0"
| "cstr m p (x # xs) \<longleftrightarrow> m p = x \<and> x \<noteq> 0 \<and> cstr m (p + 1) xs"

lemma cstr_nth: "cstr m p xs \<Longrightarrow> i < length xs \<Longrightarrow> m (p + of_nat i) = xs ! i \<and> xs ! i \<noteq> 0"
proof (induction m p xs arbitrary: i rule: cstr.induct)
  case (2 m p x xs)
  then show ?case by (cases i) (force simp: algebra_simps)+
qed simp

lemma cstr_end: "cstr m p xs \<Longrightarrow> m (p + of_nat (length xs)) = 0"
  by (induction m p xs rule: cstr.induct) (simp_all add: algebra_simps)

lemma cstr_intro:
  "(\<And>i. i < length xs \<Longrightarrow> m (p + of_nat i) = xs ! i) \<Longrightarrow> 0 \<notin> set xs \<Longrightarrow> m (p + of_nat (length xs)) = 0
     \<Longrightarrow> cstr m p xs"
proof (induction m p xs rule: cstr.induct)
  case (2 m p x xs)
  have "cstr m (p + 1) xs"
  proof (rule "2.IH")
    show "m (p + 1 + of_nat i) = xs ! i" if "i < length xs" for i
      using "2.prems"(1) [of "Suc i"] that by (simp add: algebra_simps)
  qed (use "2.prems" in \<open>simp_all add: algebra_simps\<close>)
  then show ?case using "2.prems"(1) [of 0] "2.prems"(2) by auto
qed simp

lemma cstr_nonzero: "cstr m p xs \<Longrightarrow> 0 \<notin> set xs"
  by (induction m p xs rule: cstr.induct) auto

lemma cstr_cong: "(\<And>i. i \<le> length xs \<Longrightarrow> m' (p + of_nat i) = m (p + of_nat i)) \<Longrightarrow> cstr m' p xs = cstr m p xs"
proof (induction m p xs rule: cstr.induct)
  case (1 m p)
  then show ?case using 1 [of 0] by simp
next
  case (2 m p x xs)
  have "m' p = m p" using "2.prems" [of 0] by simp
  moreover have "cstr m' (p + 1) xs = cstr m (p + 1) xs"
  proof (rule "2.IH")
    show "m' (p + 1 + of_nat i) = m (p + 1 + of_nat i)" if "i \<le> length xs" for i
      using "2.prems" [of "Suc i"] that by (simp add: algebra_simps)
  qed
  ultimately show ?case by simp
qed

lemma strlen_loop_cstr: "cstr m p xs \<Longrightarrow> strlen_loop m p n = Some (n + of_nat (length xs))"
  by (induction xs arbitrary: p n) (subst strlen_loop.simps, simp add: algebra_simps)+

lemma strlen_cstr: "cstr m p xs \<Longrightarrow> strlen m p = Some (of_nat (length xs))"
  by (simp add: strlen_def strlen_loop_cstr)

section \<open>Comparison\<close>

lemma sint_byte_diff: "sint (byte_diff a b) = uint a - uint b"
proof -
  have r: "uint a < 256" "uint b < 256" "0 \<le> uint a" "0 \<le> uint b"
    using uint_lt2p [of a] uint_lt2p [of b] by simp_all
  have "byte_diff a b = word_of_int (uint a - uint b)"
    unfolding byte_diff_def ucast_eq by (rule wi_hom_sub)
  moreover have "- 2147483648 \<le> uint a - uint b" "uint a - uint b < 2147483648" using r by linarith+
  then have "signed_take_bit 31 (uint a - uint b) = uint a - uint b"
    by (simp add: signed_take_bit_int_eq_self_iff)
  ultimately show ?thesis by (simp only: sint_sbintrunc') simp
qed

lemma byte_diff_0 [simp]: "byte_diff a b = 0 \<longleftrightarrow> a = b"
proof
  assume "byte_diff a b = 0"
  then have "uint a = uint b" using sint_byte_diff [of a b] by simp
  then show "a = b" by (rule word_uint_eqI)
qed (simp add: byte_diff_def)

lemma byte_diff_neg: "sint (byte_diff a b) < 0 \<longleftrightarrow> a < b"
  by (simp add: sint_byte_diff word_less_def)

lemma strcmp_spec:
  assumes "cstr m p xs" and "cstr m q ys"
  shows "\<exists>r. strcmp m p q = Some r \<and> (r = 0 \<longleftrightarrow> xs = ys) \<and> (sint r < 0 \<longleftrightarrow> ord_class.lexordp xs ys)"
  using assms
proof (induction xs arbitrary: p q ys)
  case Nil
  then show ?case by (subst strcmp.simps) (cases ys; auto simp: byte_diff_neg word_gt_0)
next
  case (Cons x xs)
  show ?case
  proof (cases ys)
    case Nil
    then show ?thesis using Cons.prems by (subst strcmp.simps) (auto simp: byte_diff_neg)
  next
    case (Cons y zs)
    show ?thesis
    proof (cases "x = y")
      case True
      then have "strcmp m p q = strcmp m (p + 1) (q + 1)"
        using Cons.prems Cons by (subst strcmp.simps) simp
      then show ?thesis using Cons.IH [of "p + 1" "q + 1" zs] Cons.prems Cons True by simp
    next
      case False
      then show ?thesis using Cons.prems Cons by (subst strcmp.simps) (auto simp: byte_diff_neg)
    qed
  qed
qed

section \<open>Blocks\<close>

lemma copy_up_spec:
  assumes "k \<le> 2 ^ 32" and "\<forall>j i. j < i \<and> i < k \<longrightarrow> d + of_nat j \<noteq> s + of_nat i"
  shows "copy_up k m d s a = (if unat (a - d) < k then m (s + (a - d)) else m a)"
  using assms
proof (induction k arbitrary: m d s)
  case (Suc k)
  have "\<forall>j i. j < i \<and> i < k \<longrightarrow> d + 1 + of_nat j \<noteq> s + 1 + of_nat i"
  proof (intro allI impI)
    fix j i assume "j < i \<and> i < k"
    then show "d + 1 + of_nat j \<noteq> s + 1 + of_nat i"
      using Suc.prems(2) [rule_format, of "Suc j" "Suc i"] by (simp add: algebra_simps)
  qed
  then have IH: "copy_up (Suc k) m d s a
      = (if unat (a - (d + 1)) < k then (m(d := m s)) (s + 1 + (a - (d + 1))) else (m(d := m s)) a)"
    unfolding copy_up.simps using Suc.prems(1) by (intro Suc.IH) simp_all
  show ?case
  proof (cases "a = d")
    case True
    have "unat (d - (d + 1)) = 2 ^ 32 - 1" by (simp add: unsigned_minus_1_eq_mask mask_eq_exp_minus_1)
    then show ?thesis using IH True Suc.prems(1) by simp
  next
    case False
    then have "a - d \<noteq> 0" by simp
    then have u: "unat (a - (d + 1)) = unat (a - d) - 1" "0 < unat (a - d)"
      using unat_minus_1 [of "a - d"] by (simp_all add: algebra_simps unat_gt_0)
    have "s + (a - d) \<noteq> d" if "unat (a - d) < Suc k"
      using Suc.prems(2) [rule_format, of 0 "unat (a - d)"] u(2) that by auto
    then show ?thesis using IH False u by (auto simp: algebra_simps)
  qed
qed simp

lemma copy_down_spec:
  assumes "k \<le> 2 ^ 32" and "\<forall>j i. j < i \<and> i < k \<longrightarrow> d - 1 - of_nat j \<noteq> s - 1 - of_nat i"
  shows "copy_down k m d s a = (if unat (d - 1 - a) < k then m (s - (d - a)) else m a)"
  using assms
proof (induction k arbitrary: m d s)
  case (Suc k)
  have "\<forall>j i. j < i \<and> i < k \<longrightarrow> d - 1 - 1 - of_nat j \<noteq> s - 1 - 1 - of_nat i"
  proof (intro allI impI)
    fix j i assume "j < i \<and> i < k"
    then show "d - 1 - 1 - of_nat j \<noteq> s - 1 - 1 - of_nat i"
      using Suc.prems(2) [rule_format, of "Suc j" "Suc i"] by (simp add: algebra_simps)
  qed
  then have IH: "copy_down (Suc k) m d s a
      = (if unat (d - 1 - 1 - a) < k then (m(d - 1 := m (s - 1))) (s - 1 - (d - 1 - a)) else (m(d - 1 := m (s - 1))) a)"
    unfolding copy_down.simps using Suc.prems(1) by (intro Suc.IH) simp_all
  show ?case
  proof (cases "a = d - 1")
    case True
    have "unat (d - 1 - 1 - (d - 1)) = 2 ^ 32 - 1" by (simp add: unsigned_minus_1_eq_mask mask_eq_exp_minus_1)
    then show ?thesis using IH True Suc.prems(1) by simp
  next
    case False
    then have "d - 1 - a \<noteq> 0" by (metis right_minus_eq)
    then have u: "unat (d - 1 - 1 - a) = unat (d - 1 - a) - 1" "0 < unat (d - 1 - a)"
      using unat_minus_1 [of "d - 1 - a"] by (simp_all add: algebra_simps unat_gt_0)
    have "s - 1 - (d - 1 - a) \<noteq> d - 1" if "unat (d - 1 - a) < Suc k"
      using Suc.prems(2) [rule_format, of 0 "unat (d - 1 - a)"] u(2) that by auto
    then show ?thesis using IH False u by (auto simp: algebra_simps)
  qed
qed simp

text \<open>Distances in a block that does not wrap around.\<close>

lemma memmove_spec:
  assumes "unat dst + unat n < 2 ^ 32" and "unat src + unat n < 2 ^ 32"
  shows "snd (memmove m dst src n) a = (if a - dst < n then m (src + (a - dst)) else m a)"
proof (cases "src < dst \<and> src + n > dst")
  case True
  have "\<forall>j i. j < i \<and> i < unat n \<longrightarrow> dst + n - 1 - of_nat j \<noteq> src + n - 1 - of_nat i"
  proof (intro allI impI notI)
    fix j i assume ji: "j < i \<and> i < unat n" and eq: "dst + n - 1 - of_nat j = src + n - 1 - of_nat i"
    have "src + of_nat j = dst + of_nat i" using eq by (simp add: algebra_simps)
    then have "unat src + j = unat dst + i"
      using ji assms unat_plus_of_nat [of src j] unat_plus_of_nat [of dst i] by simp
    then show False using True ji by (simp add: word_less_nat_alt)
  qed
  then have "snd (memmove m dst src n) a
      = (if unat (dst + n - 1 - a) < unat n then m (src + n - (dst + n - a)) else m a)"
    using True unat_u32_less [of n] by (simp add: memmove_def copy_down_spec)
  moreover have "unat (dst + n - 1 - a) < unat n \<longleftrightarrow> a - dst < n"
  proof -
    have "0 < n" using True by (metis add.right_neutral dual_order.asym word_gt_0)
    have "dst + n - 1 - a = (n - 1) - (a - dst)" by simp
    moreover have "(n - 1) - x < n \<longleftrightarrow> x < n" for x using \<open>0 < n\<close> by uint_arith
    ultimately show ?thesis by (simp only: word_less_nat_alt [symmetric])
  qed
  ultimately show ?thesis by simp
next
  case False
  have "\<forall>j i. j < i \<and> i < unat n \<longrightarrow> dst + of_nat j \<noteq> src + of_nat i"
  proof (intro allI impI notI)
    fix j i assume ji: "j < i \<and> i < unat n" and eq: "dst + of_nat j = src + of_nat i"
    then have "unat dst + j = unat src + i"
      using assms unat_plus_of_nat [of src i] unat_plus_of_nat [of dst j] by simp
    then have "unat src < unat dst" "unat dst < unat src + unat n" using ji by linarith+
    moreover have "unat (src + n) = unat src + unat n" using unat_plus_of_nat [of src "unat n"] assms(2) by simp
    ultimately show False using False by (simp add: word_less_nat_alt)
  qed
  moreover have "memmove m dst src n = (dst, copy_up (unat n) m dst src)" using False by (auto simp: memmove_def)
  ultimately show ?thesis using unat_u32_less [of n] by (simp add: copy_up_spec word_less_nat_alt [symmetric])
qed

section \<open>Bounded copies\<close>

text \<open>The loop writes the first characters of the source, at most \<open>k\<close>, and nothing else.\<close>

lemma strlcpy_loop_outside:
  "strlcpy_loop k m d s = (d', m') \<Longrightarrow> k < 2 ^ 32
     \<Longrightarrow> unat (d' - d) \<le> k \<and> (\<forall>a. k \<le> unat (a - d) \<longrightarrow> m' a = m a)"
proof (induction k arbitrary: m d s)
  case (Suc k)
  show ?case
  proof (cases "m s = 0")
    case False
    then have "strlcpy_loop k (m(d := m s)) (d + 1) (s + 1) = (d', m')" using Suc.prems(1) by simp
    then have IH: "unat (d' - (d + 1)) \<le> k" "\<forall>a. k \<le> unat (a - (d + 1)) \<longrightarrow> m' a = (m(d := m s)) a"
      using Suc.IH Suc.prems(2) by auto
    have "d' - d = d' - (d + 1) + 1" by simp
    then have "unat (d' - d) = unat (d' - (d + 1)) + 1"
      using IH(1) Suc.prems(2) unat_plus_of_nat [of "d' - (d + 1)" 1] by simp
    moreover have "m' a = m a" if "Suc k \<le> unat (a - d)" for a
    proof -
      have "a - d \<noteq> 0" using that by auto
      then have "unat (a - (d + 1)) = unat (a - d) - 1" using unat_minus_1 [of "a - d"] by (simp add: algebra_simps)
      then show ?thesis using IH(2) that \<open>a - d \<noteq> 0\<close> by auto
    qed
    ultimately show ?thesis using IH(1) by simp
  qed (use Suc.prems in simp)
qed simp

lemma strlcpy_loop_copies:
  assumes "cstr m s xs" and "k < 2 ^ 32" and "\<forall>i \<le> length xs. k < unat (s + of_nat i - d)"
  shows "\<exists>m'. strlcpy_loop k m d s = (d + of_nat (min k (length xs)), m')
    \<and> (\<forall>i < min k (length xs). m' (d + of_nat i) = xs ! i)"
  using assms
proof (induction k arbitrary: m d s xs)
  case (Suc k)
  show ?case
  proof (cases xs)
    case (Cons x ys)
    then have x: "m s = x" "x \<noteq> 0" "cstr m (s + 1) ys" using Suc.prems(1) by simp_all
    let ?m = "m(d := x)"
    have far: "Suc k < unat (s + of_nat i - d)" if "i \<le> Suc (length ys)" for i using Suc.prems(3) Cons that by simp
    have "cstr ?m (s + 1) ys = cstr m (s + 1) ys"
    proof (rule cstr_cong)
      fix i assume "i \<le> length ys"
      then have "s + of_nat (Suc i) - d \<noteq> 0" using far [of "Suc i"] by (metis Suc_le_mono not_less_zero unsigned_0)
      then show "?m (s + 1 + of_nat i) = m (s + 1 + of_nat i)" by (auto simp: algebra_simps)
    qed
    then have c: "cstr ?m (s + 1) ys" using x(3) by simp
    have "\<forall>i \<le> length ys. k < unat (s + 1 + of_nat i - (d + 1))"
    proof (intro allI impI)
      fix i assume "i \<le> length ys"
      then have "Suc k < unat (s + of_nat i - d)" using far [of i] by simp
      then show "k < unat (s + 1 + of_nat i - (d + 1))" by (simp add: algebra_simps)
    qed
    then have "\<exists>m'. strlcpy_loop k ?m (d + 1) (s + 1) = (d + 1 + of_nat (min k (length ys)), m')
        \<and> (\<forall>i < min k (length ys). m' (d + 1 + of_nat i) = ys ! i)"
      using Suc.prems(2) by (intro Suc.IH [OF c]) simp_all
    then obtain m' where m': "strlcpy_loop k ?m (d + 1) (s + 1) = (d + 1 + of_nat (min k (length ys)), m')"
        "\<forall>i < min k (length ys). m' (d + 1 + of_nat i) = ys ! i"
      by blast
    have "m' d = x"
    proof -
      have "unat (d - (d + 1)) = 2 ^ 32 - 1" by (simp add: unsigned_minus_1_eq_mask mask_eq_exp_minus_1)
      then show ?thesis using strlcpy_loop_outside [OF m'(1)] Suc.prems(2) by simp
    qed
    then have "m' (d + of_nat i) = xs ! i" if "i < min (Suc k) (length xs)" for i
      using m'(2) that Cons by (cases i) (simp_all add: algebra_simps)
    then show ?thesis using m'(1) x Cons by (auto simp: algebra_simps)
  qed (use Suc.prems in simp)
qed simp

lemma strlcpy_string:
  assumes "0 < n" and "cstr m src xs" and "\<forall>i \<le> length xs. n \<le> src + of_nat i - dst"
  shows "fst (strlcpy m dst src n) = of_nat (min (unat n - 1) (length xs))
    \<and> cstr (snd (strlcpy m dst src n)) dst (take (unat n - 1) xs)"
proof -
  have n: "0 < unat n" "unat n < 2 ^ 32" using assms(1) unat_u32_less [of n] by (simp_all add: word_less_nat_alt)
  have "\<forall>i \<le> length xs. unat n - 1 < unat (src + of_nat i - dst)"
  proof (intro allI impI)
    fix i assume "i \<le> length xs"
    then have "unat n \<le> unat (src + of_nat i - dst)" using assms(3) by (simp add: word_le_nat_alt)
    then show "unat n - 1 < unat (src + of_nat i - dst)" using n by linarith
  qed
  then have "\<exists>m'. strlcpy_loop (unat n - 1) m dst src = (dst + of_nat (min (unat n - 1) (length xs)), m')
      \<and> (\<forall>i < min (unat n - 1) (length xs). m' (dst + of_nat i) = xs ! i)"
    using n by (intro strlcpy_loop_copies [OF assms(2)]) simp_all
  then obtain m' where m': "strlcpy_loop (unat n - 1) m dst src = (dst + of_nat (min (unat n - 1) (length xs)), m')"
      "\<forall>i < min (unat n - 1) (length xs). m' (dst + of_nat i) = xs ! i"
    by blast
  define k where "k = min (unat n - 1) (length xs)"
  have s: "strlcpy m dst src n = (of_nat k, m'(dst + of_nat k := 0))"
    using assms(1) m'(1) unfolding strlcpy_def k_def by simp
  have "cstr (m'(dst + of_nat k := 0)) dst (take (unat n - 1) xs)"
  proof (rule cstr_intro)
    fix i assume i: "i < length (take (unat n - 1) xs)"
    then have "i < k" "k < 2 ^ 32" using n by (simp_all add: k_def)
    then have "(of_nat i :: u32) \<noteq> of_nat k" using of_nat_u32_eq [of i k] by simp
    then show "(m'(dst + of_nat k := 0)) (dst + of_nat i) = take (unat n - 1) xs ! i"
      using m'(2) i by simp
  next
    show "0 \<notin> set (take (unat n - 1) xs)" using cstr_nonzero [OF assms(2)] by (meson in_set_takeD)
  qed (simp add: k_def min.commute)
  then show ?thesis using s k_def by simp
qed

lemma strlcpy_outside: "n \<le> a - dst \<Longrightarrow> snd (strlcpy m dst src n) a = m a"
proof (cases "0 < n")
  case True
  assume a: "n \<le> a - dst"
  obtain d' m' where l: "strlcpy_loop (unat n - 1) m dst src = (d', m')" by fastforce
  have n: "0 < unat n" "unat n - 1 < 2 ^ 32" using True unat_u32_less [of n] by (simp_all add: word_less_nat_alt)
  have o: "unat (d' - dst) \<le> unat n - 1" "unat n - 1 \<le> unat (a - dst) \<longrightarrow> m' a = m a"
    using strlcpy_loop_outside [OF l n(2)] by auto
  have "unat n \<le> unat (a - dst)" using a by (simp add: word_le_nat_alt)
  then have "a \<noteq> d'" "m' a = m a" using o n(1) by auto
  then show ?thesis using True l by (simp add: strlcpy_def)
qed (simp add: strlcpy_def)

section \<open>Numbers and their decimal strings\<close>

text \<open>The digits ltostr() writes for a number, least first, and the number they stand for.\<close>

fun written :: "nat \<Rightarrow> nat list" where
  "written v = v mod 10 # (if v div 10 mod 10 \<noteq> 0 then written (v div 10) else [])"

declare written.simps [simp del]

fun of_digits :: "nat list \<Rightarrow> nat" where
  "of_digits [] = 0"
| "of_digits (d # ds) = d + 10 * of_digits ds"

definition no_zero_digit :: "nat \<Rightarrow> bool" where
  "no_zero_digit v \<longleftrightarrow> (\<forall>k. 0 < k \<and> 10 ^ k \<le> v \<longrightarrow> v div 10 ^ k mod 10 \<noteq> 0)"

lemma no_zero_digit_step:
  "no_zero_digit v \<longleftrightarrow> (if v div 10 mod 10 \<noteq> 0 then no_zero_digit (v div 10) else v div 10 = 0)"
proof -
  have "no_zero_digit v \<longleftrightarrow> (10 \<le> v \<longrightarrow> v div 10 mod 10 \<noteq> 0)
      \<and> (\<forall>k. 0 < k \<and> 10 ^ Suc k \<le> v \<longrightarrow> v div 10 ^ Suc k mod 10 \<noteq> 0)"
    unfolding no_zero_digit_def
    by (metis One_nat_def Suc_pred power_one_right zero_less_Suc neq0_conv)
  moreover have "10 ^ Suc k \<le> v \<longleftrightarrow> 10 ^ k \<le> v div 10" for k
    by (simp add: less_eq_div_iff_mult_less_eq mult.commute)
  moreover have "v div 10 ^ Suc k = v div 10 div 10 ^ k" for k by (simp add: div_mult2_eq)
  ultimately have "no_zero_digit v \<longleftrightarrow> (10 \<le> v \<longrightarrow> v div 10 mod 10 \<noteq> 0) \<and> no_zero_digit (v div 10)"
    by (simp add: no_zero_digit_def)
  moreover have "10 \<le> v \<longleftrightarrow> v div 10 \<noteq> 0" by linarith
  moreover have "no_zero_digit 0" by (simp add: no_zero_digit_def)
  ultimately show ?thesis by (metis mod_0)
qed

lemma of_digits_written: "of_digits (written v) = v \<longleftrightarrow> no_zero_digit v"
proof (induction v rule: written.induct)
  case (1 v)
  have "of_digits (written v) = (if v div 10 mod 10 \<noteq> 0 then v mod 10 + 10 * of_digits (written (v div 10)) else v mod 10)"
    by (subst written.simps) simp
  moreover have "v = v mod 10 + 10 * (v div 10)" by simp
  ultimately have "of_digits (written v) = v \<longleftrightarrow>
      (if v div 10 mod 10 \<noteq> 0 then of_digits (written (v div 10)) = v div 10 else v div 10 = 0)"
    by (smt (verit) add_left_cancel mult_left_cancel mult_zero_right zero_neq_numeral add.right_neutral)
  then show ?case using 1 no_zero_digit_step [of v] by simp
qed

lemma of_digits_le: "of_digits (written v) \<le> v"
proof (induction v rule: written.induct)
  case (1 v)
  have v: "v = v mod 10 + 10 * (v div 10)" by simp
  show ?case
  proof (cases "v div 10 mod 10 = 0")
    case True
    then show ?thesis by (subst written.simps) simp
  next
    case False
    then have "of_digits (written v) = v mod 10 + 10 * of_digits (written (v div 10))"
      by (subst written.simps) simp
    then show ?thesis using 1 False v by linarith
  qed
qed

lemma written_digits: "d \<in> set (written v) \<Longrightarrow> d < 10"
  by (induction v rule: written.induct) (subst (asm) written.simps, auto split: if_splits)

lemma written_length: "length (written v) \<le> Suc v"
  by (induction v rule: written.induct) (subst written.simps, auto)

text \<open>Writing a list of bytes.\<close>

fun put :: "bytes \<Rightarrow> u32 \<Rightarrow> u8 list \<Rightarrow> bytes" where
  "put m p [] = m"
| "put m p (x # xs) = put (m(p := x)) (p + 1) xs"

lemma put_at: "length xs \<le> 2 ^ 32 \<Longrightarrow> put m p xs a = (if unat (a - p) < length xs then xs ! unat (a - p) else m a)"
proof (induction xs arbitrary: m p)
  case (Cons x xs)
  show ?case
  proof (cases "a = p")
    case True
    have "unat (p - (p + 1)) = 2 ^ 32 - 1" by (simp add: unsigned_minus_1_eq_mask mask_eq_exp_minus_1)
    then show ?thesis using True Cons by simp
  next
    case False
    then have "a - p \<noteq> 0" by simp
    then have "unat (a - (p + 1)) = unat (a - p) - 1" "0 < unat (a - p)"
      using unat_minus_1 [of "a - p"] by (simp_all add: algebra_simps unat_gt_0)
    then show ?thesis using False Cons by (auto simp: nth_Cons')
  qed
qed simp

definition digit_char :: "nat \<Rightarrow> u8" where "digit_char d = of_nat (d + 48)"

lemma ltostr_loop_written:
  "ltostr_loop (int v) m str i
     = (i + of_nat (length (written v)), put m (str + i) (map digit_char (written v)))"
proof (induction v arbitrary: m i rule: written.induct)
  case (1 v)
  have d: "int v sdiv 10 = int (v div 10)" "int v smod 10 = int (v mod 10)"
    by (simp_all add: signed_divide_int_def signed_modulo_int_def sgn_if zdiv_int zmod_int)
  have d': "int (v div 10) smod 10 = int (v div 10 mod 10)"
    by (simp add: signed_modulo_int_def sgn_if zmod_int)
  have c: "(of_nat (v mod 10) + 48 :: u8) = digit_char (v mod 10)" by (simp add: digit_char_def)
  show ?case
    using 1 by (subst ltostr_loop.simps, subst (1 2) written.simps)
      (simp add: d d' c Let_def add.assoc)
qed

lemma word_of_int_u32_eq:
  "0 \<le> i \<Longrightarrow> i < 4294967296 \<Longrightarrow> 0 \<le> j \<Longrightarrow> j < 4294967296 \<Longrightarrow> (word_of_int i :: u32) = word_of_int j \<longleftrightarrow> i = j"
  by (simp add: word_of_int_eq_iff take_bit_int_eq_self)

text \<open>The reversal loop, in terms of the distance of an address from the start of the string.\<close>

lemma reverse_loop_at:
  assumes "0 \<le> start" and "stop < 4294967296"
  shows "reverse_loop m str start stop a
    = (if start \<le> uint (a - str) \<and> uint (a - str) \<le> stop
       then m (str + word_of_int (start + stop - uint (a - str))) else m a)"
  using assms
proof (induction m str start stop rule: reverse_loop.induct)
  case (1 m str start stop)
  let ?x = "uint (a - str)"
  have a: "a = str + word_of_int ?x" by simp
  have x: "0 \<le> ?x" "?x < 4294967296" using uint_bounded [of "a - str"] by simp_all
  show ?case
  proof (cases "start < stop")
    case True
    define m1 where "m1 = (m(str + word_of_int start := m (str + word_of_int stop)))
                            (str + word_of_int stop := m (str + word_of_int start))"
    have at: "m1 (str + word_of_int y) = (if y = stop then m (str + word_of_int start)
        else if y = start then m (str + word_of_int stop) else m (str + word_of_int y))"
      if "0 \<le> y" "y < 4294967296" for y
      using that True 1(2,3) by (auto simp: m1_def word_of_int_u32_eq)
    have "reverse_loop m str start stop a = reverse_loop m1 str (start + 1) (stop - 1) a"
      using True by (subst reverse_loop.simps) (simp add: m1_def Let_def)
    also have "\<dots> = (if start + 1 \<le> ?x \<and> ?x \<le> stop - 1 then m1 (str + word_of_int (start + 1 + (stop - 1) - ?x)) else m1 a)"
      unfolding m1_def by (rule 1(1) [OF True refl refl refl]) (use 1(2,3) in simp_all)
    also have "\<dots> = (if start \<le> ?x \<and> ?x \<le> stop then m (str + word_of_int (start + stop - ?x)) else m a)"
    proof (cases "start + 1 \<le> ?x \<and> ?x \<le> stop - 1")
      case True
      then show ?thesis using at [of "start + stop - ?x"] 1(2,3) x by simp
    next
      case False
      have "m1 a = (if ?x = stop then m (str + word_of_int start)
          else if ?x = start then m (str + word_of_int stop) else m a)"
        using at [OF x] by simp
      then show ?thesis using False True by auto
    qed
    finally show ?thesis .
  next
    case False
    have e: "str + word_of_int (start + stop - ?x) = a" if "start \<le> ?x \<and> ?x \<le> stop"
    proof -
      have "start + stop - ?x = ?x" using False that by linarith
      then show ?thesis using a by (simp only:)
    qed
    have "reverse_loop m str start stop = m" using False by (subst reverse_loop.simps) simp
    then show ?thesis using e by (cases "start \<le> ?x \<and> ?x \<le> stop") (simp_all only: if_True if_False if_cancel)
  qed
qed

lemma written_short: "v < 10 ^ n \<Longrightarrow> 0 < n \<Longrightarrow> length (written v) \<le> n"
proof (induction n arbitrary: v)
  case (Suc n)
  show ?case
  proof (cases "v div 10 mod 10 = 0")
    case True
    then show ?thesis by (subst written.simps) simp
  next
    case False
    then have "v div 10 < 10 ^ n" "0 < n" using Suc.prems by (auto simp: less_mult_imp_div_less mult.commute intro: gr0I)
    then show ?thesis using Suc.IH [of "v div 10"] False by (subst written.simps) simp
  qed
qed simp

lemma unat_of_nat_u32: "i < 4294967296 \<Longrightarrow> unat (of_nat i :: u32) = i"
  by (simp add: unat_of_nat)

lemma word_of_int_sint: "word_of_int (sint w) = (w :: u32)"
  by simp

lemma sint_of_nat_u32: "i < 2147483648 \<Longrightarrow> sint (of_nat i :: u32) = int i"
  by (simp add: sint_uint unsigned_of_nat signed_take_bit_int_eq_self_iff take_bit_nat_eq_self)

text \<open>The string after the digits have been reversed: \<open>k\<close> characters are left in place before it.\<close>

lemma reversed_string:
  assumes "\<forall>i < k. m (p + of_nat i) = pre ! i" and "length pre = k" and "0 \<notin> set pre" and "0 \<notin> set ds"
    and "ds \<noteq> []" and "k + length ds < 2147483648"
  shows "cstr ((reverse_loop (put m (p + of_nat k) ds) p (int k) (int (k + length ds - 1)))
      (p + of_nat (k + length ds) := 0)) p (pre @ rev ds)"
proof (rule cstr_intro)
  fix i assume i: "i < length (pre @ rev ds)"
  then have lt: "i < k + length ds" using assms(2) by simp
  let ?a = "p + of_nat i :: u32" and ?m = "put m (p + of_nat k) ds"
  have x: "uint (?a - p) = int i" using lt assms(6) by (simp add: uint_nat unat_of_nat_u32)
  have ne: "?a \<noteq> p + of_nat (k + length ds)" using of_nat_u32_eq [of i "k + length ds"] lt assms(6) by simp
  have r: "reverse_loop ?m p (int k) (int (k + length ds - 1)) ?a
      = (if k \<le> i then ?m (p + word_of_int (int k + int (k + length ds - 1) - int i)) else ?m ?a)"
    using reverse_loop_at [of "int k" "int (k + length ds - 1)" ?m p ?a] x lt assms(6) by simp
  show "((reverse_loop ?m p (int k) (int (k + length ds - 1))) (p + of_nat (k + length ds) := 0)) ?a
      = (pre @ rev ds) ! i"
  proof (cases "k \<le> i")
    case True
    define j where "j = length ds - 1 - (i - k)"
    have j: "j < length ds" "int k + int (k + length ds - 1) - int i = int (k + j)"
      using True lt assms(5) by (auto simp: j_def)
    have "?m (p + word_of_int (int (k + j))) = ds ! j"
      using put_at [of ds m "p + of_nat k" "p + of_nat (k + j)"] assms(6) j(1) by (simp add: unat_of_nat_u32)
    moreover have "(pre @ rev ds) ! i = ds ! j"
      using True assms(2) lt j_def by (simp add: nth_append rev_nth)
    moreover have "reverse_loop ?m p (int k) (int (k + length ds - 1)) ?a = ?m (p + word_of_int (int (k + j)))"
      using r True unfolding j(2) by (simp only: if_True)
    ultimately show ?thesis using ne by (simp only: fun_upd_other not_False_eq_True)
  next
    case False
    have "unat (?a - (p + of_nat k)) = unat (of_nat i - of_nat k :: u32)" by simp
    also have "\<dots> = 2 ^ 32 + i - k"
      using False assms(6) by (simp add: unat_sub_if' unat_of_nat_u32)
    finally have "\<not> unat (?a - (p + of_nat k)) < length ds" using assms(6) False by simp
    then have "?m ?a = m ?a" using put_at [of ds m "p + of_nat k" ?a] assms(6) False by simp
    then show ?thesis using r False ne assms(1,2) by (simp add: nth_append)
  qed
next
  show "0 \<notin> set (pre @ rev ds)" using assms(3,4) by simp
qed (simp add: assms(2) algebra_simps)

lemma digit_char_nonzero: "d < 10 \<Longrightarrow> digit_char d \<noteq> 0"
proof -
  assume "d < 10"
  then have "unat (digit_char d) = d + 48" by (simp only: digit_char_def unat_of_nat) simp
  then show ?thesis by auto
qed

text \<open>The absolute value of every number but the least one.\<close>

lemma abs_word:
  assumes "w \<noteq> 0x80000000"
  shows "nat \<bar>sint w\<bar> < 2147483648 \<and> (if sint w < 0 then - w else w) = (of_nat (nat \<bar>sint w\<bar>) :: u32)"
proof -
  have w: "- 2147483648 \<le> sint w" "sint w < 2147483648"
    using sint_lt [of w] sint_ge [of w] by simp_all
  have "sint w \<noteq> - 2147483648"
  proof
    assume "sint w = - 2147483648"
    then have "w = word_of_int (- 2147483648)" by (metis word_of_int_sint)
    then show False using assms by simp
  qed
  moreover have "(of_nat (nat \<bar>sint w\<bar>) :: u32) = word_of_int \<bar>sint w\<bar>" by simp
  moreover have "word_of_int \<bar>sint w\<bar> = (if sint w < 0 then - w else w)"
    by (simp add: abs_if)
  ultimately show ?thesis using w by auto
qed

lemma ltostr_string:
  assumes "w \<noteq> 0x80000000"
  shows "cstr (ltostr m w p) p ((if sint w < 0 then [0x2D] else []) @ map digit_char (rev (written (nat \<bar>sint w\<bar>))))"
proof -
  let ?neg = "sint w < 0"
  define v where "v = nat \<bar>sint w\<bar>"
  define k :: nat where "k = (if ?neg then 1 else 0)"
  define ds where "ds = map digit_char (written v)"
  have v: "v < 2147483648" "(if ?neg then - w else w) = of_nat v" using abs_word [OF assms] by (simp_all add: v_def)
  have val: "sint (if ?neg then - w else w) = int v" unfolding v(2) using sint_of_nat_u32 v(1) by simp
  have k: "k \<le> 1" by (simp add: k_def)
  have ds: "length ds \<le> 10" "ds \<noteq> []" "0 \<notin> set ds"
    using written_short [of v 10] v(1) digit_char_nonzero written_digits
    by (force simp: ds_def written.simps [of v])+
  then have "cstr ((reverse_loop (put (if ?neg then m(p := 0x2D) else m) (p + of_nat k) ds) p (int k) (int (k + length ds - 1)))
      (p + of_nat (k + length ds) := 0)) p ((if ?neg then [0x2D] else []) @ rev ds)"
    by (intro reversed_string) (auto simp: k_def)
  moreover have "sint (of_nat (k + length ds) - 1 :: u32) = int (k + length ds - 1)"
  proof -
    have "(of_nat (k + length ds) - 1 :: u32) = of_nat (k + length ds - 1)" using ds(2) by (simp add: of_nat_diff Suc_leI)
    then show ?thesis using ds(1) sint_of_nat_u32 [of "k + length ds - 1"] k by simp
  qed
  moreover have "ltostr_loop (int v) m' p (of_nat k) = (of_nat (k + length ds), put m' (p + of_nat k) ds)" for m'
    by (simp add: ltostr_loop_written ds_def)
  ultimately show ?thesis
    unfolding ltostr_def Let_def val v_def [symmetric] ds_def
    by (simp add: k_def rev_map split: if_splits)
qed

lemma digit_value_char: "d < 10 \<Longrightarrow> digit_value (digit_char d) = Some (of_nat d)"
proof -
  assume d: "d < 10"
  then have u: "unat (digit_char d) = d + 48" by (simp only: digit_char_def unat_of_nat) simp
  then have r: "0x30 \<le> digit_char d \<and> digit_char d \<le> 0x39" using d by (simp add: word_le_nat_alt)
  have "ucast (digit_char d) = (of_nat (unat (digit_char d)) :: u32)" by simp
  then have "ucast (digit_char d) = (of_nat (d + 48) :: u32)" unfolding u .
  then show ?thesis using r by (simp add: digit_value_def)
qed

lemma strtol_digits_decimal:
  assumes "\<forall>d \<in> set ds. d < 10" and "cstr m s (map digit_char ds)"
  shows "strtol_digits m s 10 val
    = Some (foldl (\<lambda>val d. val * 10 + of_nat d) val ds, s + of_nat (length ds))"
  using assms
proof (induction ds arbitrary: s val)
  case Nil
  then show ?case by (subst strtol_digits.simps) (simp add: digit_value_def)
next
  case (Cons d ds)
  have "\<not> sint (of_nat d :: u32) \<ge> sint (10 :: u32)" using Cons.prems(1) sint_of_nat_u32 [of d] by simp
  then have "strtol_digits m s 10 val = strtol_digits m (s + 1) 10 (val * 10 + of_nat d)"
    using Cons.prems by (subst strtol_digits.simps) (simp add: digit_value_char)
  then show ?case using Cons.IH [of "s + 1"] Cons.prems by (simp add: algebra_simps)
qed

lemma foldl_digits:
  "foldl (\<lambda>val d. val * 10 + of_nat d) 0 (rev ds) = (of_nat (of_digits ds) :: u32)"
  by (induction ds) (simp_all add: algebra_simps)

lemma strtol_decimal:
  assumes ds: "\<forall>d \<in> set ds. d < 10" "ds \<noteq> []"
    and str: "cstr m p ((if neg then [0x2D] else []) @ map digit_char ds)"
  defines "val \<equiv> foldl (\<lambda>val d. val * 10 + of_nat d) 0 ds"
  shows "strtol m p 10 = Some (if neg then - val else val, p + of_nat (length ds + (if neg then 1 else 0)))"
proof -
  define s where "s = (if neg then p + 1 else p)"
  have c: "cstr m s (map digit_char ds)" using str by (simp add: s_def split: if_splits)
  obtain d ds' where dd: "ds = d # ds'" "d < 10" using ds by (cases ds) auto
  have "unat (digit_char d) = d + 48" using dd(2) by (simp only: digit_char_def unat_of_nat) simp
  then have ch: "digit_char d \<noteq> 0x20" "digit_char d \<noteq> 0x09" "digit_char d \<noteq> 0x2B" "digit_char d \<noteq> 0x2D"
    by auto
  have "m s = digit_char d" using c dd by simp
  then have "skip_blanks m p = Some p"
    using str ch dd by (subst skip_blanks.simps) (auto simp: s_def split: if_splits)
  moreover have "m p = (if neg then 0x2D else digit_char d)" using str dd by (simp split: if_splits)
  moreover have "strtol_digits m s 10 0 = Some (val, p + of_nat (length ds + (if neg then 1 else 0)))"
    using strtol_digits_decimal [OF ds(1) c, of 0] by (simp add: val_def s_def)
  ultimately show ?thesis using ch by (simp add: strtol_def s_def split: if_splits)
qed

section \<open>Properties\<close>

text \<open>
  strcmp() of two strings ends, gives 0 exactly when they are equal and a negative number exactly
  when the first comes before the second in lexicographic order of unsigned bytes.
\<close>

theorem strcmp_orders:
  assumes "cstr m p xs" and "cstr m q ys"
  shows "\<exists>r. strcmp m p q = Some r \<and> (r = 0 \<longleftrightarrow> xs = ys) \<and> (sint r < 0 \<longleftrightarrow> ord_class.lexordp xs ys)"
  by (rule strcmp_spec [OF assms])

theorem strcmp_orders_witness:
  "\<exists>r. strcmp ((\<lambda>_. 0)(100 := 0x61, 200 := 0xC3)) 100 200 = Some r
     \<and> (r = 0 \<longleftrightarrow> [0x61] = [0xC3 :: u8]) \<and> (sint r < 0 \<longleftrightarrow> ord_class.lexordp [0x61] [0xC3 :: u8])"
  by (rule strcmp_orders) simp_all

text \<open>
  memmove() gives the result of copying the whole source block at once, also when the two blocks
  overlap, and changes nothing outside the destination, as long as neither block reaches the end of
  the address space.
\<close>

theorem memmove_moves:
  assumes "unat dst + unat n < 2 ^ 32" and "unat src + unat n < 2 ^ 32"
  shows "memmove m dst src n = (dst, \<lambda>a. if a - dst < n then m (src + (a - dst)) else m a)"
  using memmove_spec [OF assms, of m] by (auto simp: memmove_def fun_eq_iff)

theorem memmove_moves_witness:
  "memmove (\<lambda>a. ucast a) 102 100 4 = (102, \<lambda>a. if a - 102 < 4 then ucast (100 + (a - 102)) else ucast a)"
  by (rule memmove_moves) simp_all

text \<open>
  strlcpy() with a positive size writes as many characters of the source as fit, always ends the
  copy with a NUL, returns the length of the copy, and writes nothing beyond the given size.
\<close>

theorem strlcpy_bounded:
  assumes "0 < n" and "cstr m src xs" and "\<forall>i \<le> length xs. n \<le> src + of_nat i - dst"
  shows "fst (strlcpy m dst src n) = of_nat (min (unat n - 1) (length xs))
    \<and> cstr (snd (strlcpy m dst src n)) dst (take (unat n - 1) xs)
    \<and> (\<forall>a. n \<le> a - dst \<longrightarrow> snd (strlcpy m dst src n) a = m a)"
  using strlcpy_string [OF assms] strlcpy_outside by simp

theorem strlcpy_bounded_witness:
  "fst (strlcpy ((\<lambda>_. 0)(100 := 0x61, 101 := 0x62)) 200 100 2) = 1
    \<and> cstr (snd (strlcpy ((\<lambda>_. 0)(100 := 0x61, 101 := 0x62)) 200 100 2)) 200 [0x61]"
proof -
  have "cstr ((\<lambda>_. 0)(100 := 0x61, 101 := 0x62)) 100 [0x61, 0x62]" by simp
  moreover have "\<forall>i \<le> length [0x61, 0x62 :: u8]. (2 :: u32) \<le> 100 + of_nat i - 200"
    by (simp add: le_Suc_eq all_conj_distrib)
  ultimately show ?thesis
    using strlcpy_bounded [of 2 "(\<lambda>_. 0)(100 := 0x61, 101 := 0x62)" 100 "[0x61, 0x62]" 200] by simp
qed

text \<open>
  strtol() in base 10 reads the whole string that ltostr() writes for a number, and gives the
  number back exactly when none of its decimal digits before the last one is zero: ltostr() stops at
  the first zero digit.
\<close>

theorem ltostr_strtol:
  assumes "w \<noteq> 0x80000000"
  shows "\<exists>r e. strtol (ltostr m w p) p 10 = Some (r, e) \<and> (ltostr m w p) e = 0
    \<and> (r = w \<longleftrightarrow> no_zero_digit (nat \<bar>sint w\<bar>))"
proof -
  define v where "v = nat \<bar>sint w\<bar>"
  define m' where "m' = ltostr m w p"
  define ds where "ds = rev (written v)"
  have ds: "\<forall>d \<in> set ds. d < 10" "ds \<noteq> []" using written_digits by (auto simp: ds_def written.simps [of v])
  have str: "cstr m' p ((if sint w < 0 then [0x2D] else []) @ map digit_char ds)"
    using ltostr_string [OF assms, of m p] by (simp add: m'_def ds_def v_def)
  have "strtol m' p 10 = Some (if sint w < 0 then - of_nat (of_digits (written v)) else of_nat (of_digits (written v)),
      p + of_nat (length ds + (if sint w < 0 then 1 else 0)))"
    using strtol_decimal [OF ds str] foldl_digits [of "written v"] by (simp add: ds_def)
  moreover have "m' (p + of_nat (length ds + (if sint w < 0 then 1 else 0))) = 0"
    using cstr_end [OF str] by (simp add: algebra_simps split: if_splits)
  moreover have "(if sint w < 0 then - of_nat (of_digits (written v)) else of_nat (of_digits (written v))) = w
      \<longleftrightarrow> no_zero_digit v"
  proof -
    have w: "v < 2147483648" "(if sint w < 0 then - w else w) = of_nat v" using abs_word [OF assms] by (simp_all add: v_def)
    have "(if sint w < 0 then - of_nat (of_digits (written v)) else of_nat (of_digits (written v))) = w
        \<longleftrightarrow> (of_nat (of_digits (written v)) :: u32) = of_nat v"
      unfolding w(2) [symmetric] by auto
    then show ?thesis
      using of_nat_u32_eq [of "of_digits (written v)" v] of_digits_le [of v] w(1) of_digits_written [of v] by simp
  qed
  ultimately show ?thesis unfolding m'_def v_def by blast
qed

theorem ltostr_strtol_witness:
  "\<exists>r e. strtol (ltostr (\<lambda>_. 0) 105 64) 64 10 = Some (r, e) \<and> (ltostr (\<lambda>_. 0) 105 64) e = 0
    \<and> (r = 105 \<longleftrightarrow> no_zero_digit (nat \<bar>sint (105 :: u32)\<bar>))"
  by (rule ltostr_strtol) simp

end
