(* ===== verification/FOS_Words.thy ===== *)
theory FOS_Words
  imports FOS_String
begin

text \<open>
  strsplit() of lib/string.c cuts a string into its words: the reference is a function on lists, and the
  theorem says that the pointers strsplit() stores designate these words, one after the other.
\<close>

section \<open>The words of a text\<close>

function words_of :: "('a \<Rightarrow> bool) \<Rightarrow> 'a list \<Rightarrow> 'a list list" where
  "words_of P xs =
     (case dropWhile P xs of
        [] \<Rightarrow> []
      | y # ys \<Rightarrow> takeWhile (\<lambda>x. \<not> P x) (y # ys) # words_of P (dropWhile (\<lambda>x. \<not> P x) (y # ys)))"
  by pat_completeness auto
termination
proof (relation "measure (\<lambda>(P, xs). length xs)", goal_cases)
  case (2 P xs y ys)
  then have "\<not> P y" by (auto simp: dropWhile_eq_Cons_conv)
  then have "length (dropWhile (\<lambda>x. \<not> P x) (y # ys)) < length (y # ys)"
    by (simp add: le_imp_less_Suc length_dropWhile_le)
  also have "\<dots> \<le> length xs" using 2 length_dropWhile_le [of P xs] by simp
  finally show ?case by simp
qed simp

declare words_of.simps [simp del]

lemma words_of_Nil: "dropWhile P xs = [] \<Longrightarrow> words_of P xs = []"
  by (subst words_of.simps) (simp only: list.case)

lemma words_of_Cons:
  "dropWhile P xs = y # ys \<Longrightarrow>
    words_of P xs = takeWhile (\<lambda>x. \<not> P x) (y # ys) # words_of P (dropWhile (\<lambda>x. \<not> P x) (y # ys))"
  by (subst words_of.simps) simp

section \<open>Memory\<close>

lemma cstr_drop: "cstr m p xs \<Longrightarrow> k \<le> length xs \<Longrightarrow> cstr m (p + of_nat k) (drop k xs)"
proof (induction k arbitrary: p xs)
  case (Suc k)
  then obtain x ys where "xs = x # ys" by (cases xs) auto
  then show ?case using Suc.IH [of "p + 1" ys] Suc.prems by (simp add: algebra_simps)
qed simp

lemma cstr_take:
  assumes "cstr m p xs" and "k \<le> length xs" and "\<And>i. i < k \<Longrightarrow> m' (p + of_nat i) = m (p + of_nat i)" and "m' (p + of_nat k) = 0"
  shows "cstr m' p (take k xs)"
proof (rule cstr_intro)
  fix i assume "i < length (take k xs)"
  then show "m' (p + of_nat i) = take k xs ! i" using cstr_nth [OF assms(1), of i] assms(3) by simp
next
  show "0 \<notin> set (take k xs)" using cstr_nonzero [OF assms(1)] by (auto dest: in_set_takeD)
next
  show "m' (p + of_nat (length (take k xs))) = 0" using assms(2,4) by simp
qed

text \<open>The addresses of \<open>n\<close> bytes from \<open>p\<close> on.\<close>

definition span :: "u32 \<Rightarrow> nat \<Rightarrow> u32 set" where
  "span p n = {a. \<exists>i < n. a = p + of_nat i}"

lemma span_nat: "unat p + n \<le> 4294967296 \<Longrightarrow> span p n = {a. unat p \<le> unat a \<and> unat a < unat p + n}"
proof -
  assume b: "unat p + n \<le> 4294967296"
  have "unat (p + of_nat i) = unat p + i" if "i < n" for i
    using that b by (intro unat_plus_of_nat) simp
  moreover have "a = p + of_nat (unat a - unat p)" if "unat p \<le> unat a" for a
    using that by (simp add: of_nat_diff)
  ultimately have "a \<in> span p n \<longleftrightarrow> unat p \<le> unat a \<and> unat a < unat p + n" for a
    unfolding span_def by (auto intro!: exI [of _ "unat a - unat p"])
  then show ?thesis by blast
qed

lemma span_sub: "k + n \<le> l \<Longrightarrow> span (p + of_nat k) n \<subseteq> span p l"
  unfolding span_def by (force simp: add.assoc simp flip: of_nat_add)

lemma span_mem: "i < n \<Longrightarrow> p + of_nat i \<in> span p n"
  unfolding span_def by blast

lemma span_notin:
  assumes "unat p + n \<le> 4294967296" and "i < k" and "k + l \<le> n" 
  shows "p + of_nat i \<notin> span (p + of_nat k) l"
proof
  assume "p + of_nat i \<in> span (p + of_nat k) l"
  then obtain j where j: "j < l" "(of_nat i :: u32) = of_nat (k + j)" unfolding span_def by (auto simp: add.assoc)
  have "i < 4294967296" "k + j < 4294967296" using assms j(1) by linarith+
  then have "i = k + j" using j(2) of_nat_u32_eq by blast
  then show False using assms(2) by simp
qed

text \<open>A separator string, away from the string that is split.\<close>

lemma strchr_cstr:
  assumes "cstr m s ss" and "s \<noteq> 0" and "unat s + length ss < 4294967296"
  shows "\<exists>r. strchr m s c = Some r \<and> (r \<noteq> 0 \<longleftrightarrow> c \<in> set ss)"
  using assms
proof (induction ss arbitrary: s)
  case Nil
  then show ?case by (subst strchr.simps) simp
next
  case (Cons x xs)
  have u: "unat (s + 1) = unat s + 1" using Cons.prems(3) by (simp add: unat_add_u32)
  then have "s + 1 \<noteq> 0" by auto
  then show ?case
    using Cons.IH [of "s + 1"] Cons.prems u by (subst strchr.simps) auto
qed

definition separators :: "bytes \<Rightarrow> u32 \<Rightarrow> u8 list \<Rightarrow> bool" where
  "separators m seps ss \<longleftrightarrow> cstr m seps ss \<and> seps \<noteq> 0 \<and> unat seps + length ss < 4294967296"

lemma separators_cong:
  assumes "separators m seps ss" and "\<And>a. a \<in> span seps (Suc (length ss)) \<Longrightarrow> m' a = m a"
  shows "separators m' seps ss"
proof -
  have "cstr m' seps ss = cstr m seps ss" by (rule cstr_cong) (use assms(2) span_mem in auto)
  then show ?thesis using assms(1) by (simp add: separators_def)
qed

lemma trim_loop_spec:
  assumes "cstr m q ys" and "separators m seps ss" and "unat q + length ys < 4294967296"
    and "span seps (Suc (length ss)) \<inter> span q (length ys) = {}"
  defines "k \<equiv> length (takeWhile (\<lambda>c. c \<in> set ss) ys)"
  shows "\<exists>m'. trim_loop m q seps = Some (q + of_nat k, m') \<and> (\<forall>a \<in> span q k. m' a = 0) \<and> (\<forall>a. a \<notin> span q k \<longrightarrow> m' a = m a)"
  using assms(1-4) unfolding k_def
proof (induction ys arbitrary: m q)
  case Nil
  then show ?case by (subst trim_loop.simps) (auto simp: span_def)
next
  case (Cons y ys)
  have y: "m q = y" "y \<noteq> 0" "cstr m (q + 1) ys" using Cons.prems(1) by simp_all
  obtain r where r: "strchr m seps y = Some r" "r \<noteq> 0 \<longleftrightarrow> y \<in> set ss"
    using strchr_cstr [of m seps ss y] Cons.prems(2) by (auto simp: separators_def)
  show ?case
  proof (cases "y \<in> set ss")
    case False
    then show ?thesis using y r by (subst trim_loop.simps) (auto simp: span_def)
  next
    case True
    let ?m = "m(q := 0)"
    have sub: "span (q + 1) (length ys) \<subseteq> span q (length (y # ys))" using span_sub [of 1 "length ys" "length (y # ys)" q] by simp
    have q1: "unat (q + 1) = unat q + 1" using Cons.prems(3) by (simp add: unat_add_u32)
    have nq: "q \<notin> span seps (Suc (length ss))" using Cons.prems(4) span_mem [of 0 "length (y # ys)" q] by auto
    have "cstr ?m (q + 1) ys = cstr m (q + 1) ys"
    proof (rule cstr_cong)
      fix i assume "i \<le> length ys"
      then have "unat (q + 1 + of_nat i) = unat q + 1 + i"
        using Cons.prems(3) q1 by (subst unat_plus_of_nat) simp_all
      then have "q + 1 + of_nat i \<noteq> q" by (metis add.assoc add_Suc_right less_not_refl less_Suc_eq_le le_add1 plus_1_eq_Suc)
      then show "?m (q + 1 + of_nat i) = m (q + 1 + of_nat i)" by simp
    qed
    then have c: "cstr ?m (q + 1) ys" using y(3) by simp
    have s': "separators ?m seps ss"
      by (rule separators_cong [OF Cons.prems(2)]) (use nq in auto)
    have "unat (q + 1) + length ys < 4294967296" "span seps (Suc (length ss)) \<inter> span (q + 1) (length ys) = {}"
      using Cons.prems(3,4) q1 sub by auto
    from Cons.IH [OF c s' this] obtain m' where m': "trim_loop ?m (q + 1) seps = Some (q + 1 + of_nat (length (takeWhile (\<lambda>c. c \<in> set ss) ys)), m')"
        "\<forall>a \<in> span (q + 1) (length (takeWhile (\<lambda>c. c \<in> set ss) ys)). m' a = 0"
        "\<forall>a. a \<notin> span (q + 1) (length (takeWhile (\<lambda>c. c \<in> set ss) ys)) \<longrightarrow> m' a = ?m a"
      by blast
    have sp: "span q (Suc n) = insert q (span (q + 1) n)" for n
      unfolding span_def by (auto simp: less_Suc_eq_0_disj algebra_simps)
    show ?thesis
      using m' y(1,2) r True by (subst trim_loop.simps) (auto simp: sp algebra_simps)
  qed
qed

lemma scan_loop_spec:
  assumes "cstr m q ys" and "separators m seps ss"
  shows "scan_loop m q seps = Some (q + of_nat (length (takeWhile (\<lambda>c. c \<notin> set ss) ys)))"
  using assms(1)
proof (induction ys arbitrary: q)
  case Nil
  then show ?case by (subst scan_loop.simps) simp
next
  case (Cons y ys)
  obtain r where r: "strchr m seps y = Some r" "r \<noteq> 0 \<longleftrightarrow> y \<in> set ss"
    using strchr_cstr [of m seps ss y] assms(2) by (auto simp: separators_def)
  then show ?case
    using Cons.IH [of "q + 1"] Cons.prems by (subst scan_loop.simps) (auto simp: algebra_simps)
qed

section \<open>Splitting\<close>

lemma trimmed:
  assumes "cstr m q ys" and "separators m seps ss" and "unat q + length ys < 4294967296"
    and "span seps (Suc (length ss)) \<inter> span q (length ys) = {}"
  defines "k \<equiv> length (takeWhile (\<lambda>c. c \<in> set ss) ys)"
  shows "\<exists>m1. trim_loop m q seps = Some (q + of_nat k, m1) \<and> cstr m1 (q + of_nat k) (dropWhile (\<lambda>c. c \<in> set ss) ys)
    \<and> separators m1 seps ss \<and> (\<forall>a. a \<notin> span q (length ys) \<longrightarrow> m1 a = m a) \<and> (0 < k \<longrightarrow> m1 q = 0)
    \<and> (k = 0 \<longrightarrow> m1 = m)"
proof -
  have kl: "k \<le> length ys" by (simp add: k_def length_takeWhile_le)
  obtain m1 where m1: "trim_loop m q seps = Some (q + of_nat k, m1)" "\<forall>a \<in> span q k. m1 a = 0" "\<forall>a. a \<notin> span q k \<longrightarrow> m1 a = m a"
    using trim_loop_spec [OF assms(1-4)] unfolding k_def by blast
  have sub: "span q k \<subseteq> span q (length ys)" using span_sub [of 0 k "length ys" q] kl by simp
  have d: "dropWhile (\<lambda>c. c \<in> set ss) ys = drop k ys" unfolding k_def by (rule dropWhile_eq_drop)
  have "cstr m1 (q + of_nat k) (drop k ys) = cstr m (q + of_nat k) (drop k ys)"
  proof (rule cstr_cong)
    fix i assume i: "i \<le> length (drop k ys)"
    have "q + of_nat k + of_nat i \<notin> span q k"
      using assms(3) kl i unat_plus_of_nat [of q "k + i"]
      by (subst span_nat) (simp_all add: add.assoc)
    then show "m1 (q + of_nat k + of_nat i) = m (q + of_nat k + of_nat i)" using m1(3) by blast
  qed
  then have "cstr m1 (q + of_nat k) (drop k ys)" using cstr_drop [OF assms(1) kl] by simp
  moreover have "separators m1 seps ss" by (rule separators_cong [OF assms(2)]) (use m1(3) sub assms(4) in blast)
  moreover have "\<forall>a. a \<notin> span q (length ys) \<longrightarrow> m1 a = m a" using m1(3) sub by blast
  moreover have "0 < k \<longrightarrow> m1 q = 0" using m1(2) span_mem [of 0 k q] by auto
  moreover have "k = 0 \<longrightarrow> m1 = m" using m1(3) by (auto simp: span_def)
  ultimately show ?thesis using m1(1) d by metis
qed

lemma strsplit_loop_spec:
  fixes ss :: "u8 list"
  defines "S \<equiv> \<lambda>c. c \<in> set ss"
  shows "cstr m q ys \<Longrightarrow> separators m seps ss \<Longrightarrow> unat q + length ys < 4294967296 \<Longrightarrow>
    span seps (Suc (length ss)) \<inter> span q (length ys) = {} \<Longrightarrow> length args + length (words_of S ys) \<le> 15 \<Longrightarrow>
    \<exists>args' m'. strsplit_loop m q seps args = Some (True, args @ args', m')
      \<and> list_all2 (cstr m') args' (words_of S ys) \<and> (\<forall>a. a \<notin> span q (length ys) \<longrightarrow> m' a = m a)
      \<and> (ys = [] \<or> S (hd ys) \<longrightarrow> m' q = 0)"
proof (induction "length ys" arbitrary: ys m q args rule: less_induct)
  case less
  define k where "k = length (takeWhile S ys)"
  obtain m1 where m1: "trim_loop m q seps = Some (q + of_nat k, m1)" "cstr m1 (q + of_nat k) (dropWhile S ys)"
      "separators m1 seps ss" "\<forall>a. a \<notin> span q (length ys) \<longrightarrow> m1 a = m a" "0 < k \<longrightarrow> m1 q = 0" "k = 0 \<longrightarrow> m1 = m"
    using trimmed [OF less.prems(1-4)] unfolding k_def S_def by blast
  have start: "ys = [] \<or> S (hd ys) \<Longrightarrow> m1 q = 0" using m1(5,6) less.prems(1) by (cases ys) (auto simp: k_def)
  show ?case
  proof (cases "dropWhile S ys")
    case Nil
    then have "strsplit_loop m q seps args = Some (True, args, m1)"
      using m1(1) m1(2) [unfolded Nil] by (subst strsplit_loop.simps) simp
    then show ?thesis using m1(4) start words_of_Nil [OF Nil] by (intro exI [of _ "[]"] exI [of _ m1]) simp
  next
    case (Cons y zs)
    define w where "w = takeWhile (\<lambda>x. \<not> S x) (y # zs)"
    define r where "r = dropWhile (\<lambda>x. \<not> S x) (y # zs)"
    let ?q1 = "q + of_nat k" let ?q2 = "?q1 + of_nat (length w)"
    have ws: "words_of S ys = w # words_of S r" unfolding w_def r_def by (rule words_of_Cons [OF Cons])
    have wr: "y # zs = w @ r" by (simp add: w_def r_def)
    have "k + length (y # zs) = length ys"
      using arg_cong [OF takeWhile_dropWhile_id [of S ys], of length] unfolding Cons k_def by simp
    then have len: "k + length w + length r = length ys" using arg_cong [OF wr, of length] by simp
    have "\<not> S y" using Cons by (auto simp: dropWhile_eq_Cons_conv)
    then have lw: "0 < length w" by (simp add: w_def)
    have c1: "cstr m1 ?q1 (y # zs)" using m1(2) Cons by simp
    then have c2: "cstr m1 ?q2 r" using cstr_drop [OF c1, of "length w"] wr by simp
    have sc: "scan_loop m1 ?q1 seps = Some ?q2"
      using scan_loop_spec [OF c1 m1(3)] by (simp add: w_def S_def)
    have u2: "?q2 = q + of_nat (k + length w)" by (simp add: add.assoc)
    have un: "unat ?q2 = unat q + (k + length w)" unfolding u2 using less.prems(3) len by (intro unat_plus_of_nat) simp
    have sub: "span ?q2 (length r) \<subseteq> span q (length ys)" unfolding u2 using len by (intro span_sub) simp
    have "\<exists>args' m'. strsplit_loop m1 ?q2 seps (args @ [?q1]) = Some (True, (args @ [?q1]) @ args', m')
      \<and> list_all2 (cstr m') args' (words_of S r) \<and> (\<forall>a. a \<notin> span ?q2 (length r) \<longrightarrow> m' a = m1 a)
      \<and> (r = [] \<or> S (hd r) \<longrightarrow> m' ?q2 = 0)"
    proof (rule less.hyps [OF _ c2 m1(3)])
      show "length r < length ys" "unat ?q2 + length r < 4294967296" using len lw un less.prems(3) by linarith+
      show "span seps (Suc (length ss)) \<inter> span ?q2 (length r) = {}" using less.prems(4) sub by blast
      show "length (args @ [?q1]) + length (words_of S r) \<le> 15" using less.prems(5) ws by simp
    qed
    then obtain args' m2 where m2: "strsplit_loop m1 ?q2 seps (args @ [?q1]) = Some (True, (args @ [?q1]) @ args', m2)"
      "list_all2 (cstr m2) args' (words_of S r)" "\<forall>a. a \<notin> span ?q2 (length r) \<longrightarrow> m2 a = m1 a" "r = [] \<or> S (hd r) \<longrightarrow> m2 ?q2 = 0"
      by blast
    have keep: "m2 (q + of_nat i) = m1 (q + of_nat i)" if "i < k + length w" for i
      using m2(3) span_notin [of q "length ys" i "k + length w" "length r"] that less.prems(3) len u2 by simp
    have "r = [] \<or> S (hd r)" using hd_dropWhile [of "\<lambda>x. \<not> S x" "y # zs"] unfolding r_def by blast
    then have z: "m2 ?q2 = 0" using m2(4) by blast
    have "cstr m2 ?q1 (take (length w) (y # zs))"
    proof (rule cstr_take [OF c1])
      show "m2 (?q1 + of_nat i) = m1 (?q1 + of_nat i)" if "i < length w" for i
        using keep [of "k + i"] that by (simp add: add.assoc)
    qed (use z wr in simp_all)
    then have "cstr m2 ?q1 w" using wr by simp
    moreover have "strsplit_loop m q seps args = Some (True, args @ ?q1 # args', m2)"
      using m1(1) c1 sc m2(1) less.prems(5) ws
      by (subst strsplit_loop.simps) (auto simp: MAX_ARGUMENTS_def)
    moreover have "m2 a = m a" if "a \<notin> span q (length ys)" for a using that m2(3) m1(4) sub by auto
    moreover have "ys = [] \<or> S (hd ys) \<longrightarrow> m2 q = 0" using start keep [of 0] lw by simp
    ultimately show ?thesis
      using m2(2) ws by (intro exI [of _ "?q1 # args'"] exI [of _ m2]) simp
  qed
qed

lemma strsplit_spec:
  assumes "cstr m p xs" and "separators m seps ss" and "unat p + length xs < 4294967296"
    and "span seps (Suc (length ss)) \<inter> span p (length xs) = {}" and "length (words_of (\<lambda>c. c \<in> set ss) xs) \<le> 15"
  shows "\<exists>args m'. strsplit m p seps = Some (True, args, m') \<and> list_all2 (cstr m') args (words_of (\<lambda>c. c \<in> set ss) xs)
    \<and> (\<forall>a. a \<notin> span p (length xs) \<longrightarrow> m' a = m a)"
  using strsplit_loop_spec [OF assms(1-4), of "[]"] assms(5) unfolding strsplit_def by auto

text \<open>
  strsplit() cuts a string at the given separators: when it has at most fifteen words, the pointers
  stored designate exactly these words, in order, in the memory left behind, and nothing outside the
  string has changed.
\<close>

theorem strsplit_words:
  assumes "cstr m p xs" and "separators m seps ss" and "unat p + length xs < 4294967296"
    and "span seps (Suc (length ss)) \<inter> span p (length xs) = {}" and "length (words_of (\<lambda>c. c \<in> set ss) xs) \<le> 15"
  shows "\<exists>args m'. strsplit m p seps = Some (True, args, m') \<and> list_all2 (cstr m') args (words_of (\<lambda>c. c \<in> set ss) xs)
    \<and> (\<forall>a. a \<notin> span p (length xs) \<longrightarrow> m' a = m a)"
  by (rule strsplit_spec [OF assms])

definition sample_bytes :: bytes where
  "sample_bytes = (\<lambda>_. 0)(100 := 0x61, 101 := 0x20, 102 := 0x62, 200 := 9, 201 := 13, 202 := 10, 203 := 32)"

theorem strsplit_words_witness:
  "\<exists>args m'. strsplit sample_bytes 100 200 = Some (True, args, m') \<and> list_all2 (cstr m') args [[0x61], [0x62]]"
proof -
  have w: "words_of (\<lambda>c. c \<in> set [9, 13, 10, 32]) [0x61, 0x20, 0x62 :: u8] = [[0x61], [0x62]]"
    by (simp add: words_of.simps)
  have "cstr sample_bytes 100 [0x61, 0x20, 0x62]" by (simp add: sample_bytes_def)
  moreover have "separators sample_bytes 200 [9, 13, 10, 32]" by (simp add: separators_def sample_bytes_def)
  moreover have "span 200 (Suc (length [9, 13, 10, 32 :: u8])) \<inter> span 100 (length [0x61, 0x20, 0x62 :: u8]) = {}"
    by (subst span_nat, simp)+ auto
  ultimately show ?thesis
    using strsplit_words [of sample_bytes 100 "[0x61, 0x20, 0x62]" 200 "[9, 13, 10, 32]"] unfolding w by auto
qed

end
