(* ===== verification/FOS_Command.thy ===== *)
theory FOS_Command
  imports FOS_Trap FOS_UHeap FOS_Prompt FOS_Words
begin

text \<open>
  The commands of the kernel's prompt (kern/command_prompt.c) and execute_command(), which splits a line
  into words and runs the command that the first one names. The characters of the line are in a memory
  of bytes, as in FOS_String; an argument is a pointer into it. What a command prints has no effect on
  the state.
\<close>

section \<open>Arguments\<close>

text \<open>
  Outside the commands: the images of the programs, the number typed when a command asks for one, and
  the test routines of kern/test_kheap.c, by their names.
\<close>

record prompt_context =
  pc_programs :: images
  pc_number :: u32
  pc_test :: "string \<Rightarrow> kstate \<Rightarrow> kstate result"

type_synonym command = "prompt_context \<Rightarrow> bytes \<Rightarrow> u32 list \<Rightarrow> kstate \<Rightarrow> (outcome \<times> kstate) result"

text \<open>strsplit() stores NULL behind the last argument and leaves the rest of the array as it was.\<close>

definition argument :: "u32 list \<Rightarrow> nat \<Rightarrow> u32 result" where
  "argument arguments i =
     (if i < length arguments then Inr (arguments ! i)
      else if i = length arguments then Inl (Kernel_fault 0) else Inl (Uninitialised ''arguments''))"

definition arg_number :: "bytes \<Rightarrow> u32 list \<Rightarrow> nat \<Rightarrow> u32 \<Rightarrow> u32 result" where
  "arg_number m arguments i base =
     rbind (argument arguments i) (\<lambda>p.
     case strtol m p base of None \<Rightarrow> Inl Diverges | Some (v, _) \<Rightarrow> Inr v)"

definition arg_length :: "bytes \<Rightarrow> u32 list \<Rightarrow> nat \<Rightarrow> u32 result" where
  "arg_length m arguments i =
     rbind (argument arguments i) (\<lambda>p. case strlen m p of None \<Rightarrow> Inl Diverges | Some n \<Rightarrow> Inr n)"

definition arg_string :: "bytes \<Rightarrow> u32 list \<Rightarrow> nat \<Rightarrow> string result" where
  "arg_string m arguments i =
     rbind (argument arguments i) (\<lambda>p.
     rbind (arg_length m arguments i) (\<lambda>n.
     Inr (map (\<lambda>k. char_of (unat (m (p + of_nat k)))) [0..<unat n])))"

section \<open>Memory commands\<close>

definition command_writeusermem :: command where
  "command_writeusermem ctx m arguments s =
     rbind (arg_number m arguments 1 10) (\<lambda>envId.
     rbind (envid2env s envId False) (\<lambda>(_, env).
     rbind (arg_number m arguments 3 16) (\<lambda>address.
     case env of
       None \<Rightarrow> Inr (Returns, s)
     | Some e \<Rightarrow>
         let oldDir = reg_cr3 s; s = s\<lparr>reg_cr3 := env_cr3 (envs s e)\<rparr> in
         rbind (argument arguments 2) (\<lambda>p.
         rbind (cpu_store8 s address (m p)) (\<lambda>s. Inr (Returns, s\<lparr>reg_cr3 := oldDir\<rparr>))))))"

fun write_chars :: "nat \<Rightarrow> bytes \<Rightarrow> u32 \<Rightarrow> u32 \<Rightarrow> kstate \<Rightarrow> (u32 \<times> kstate) result" where
  "write_chars 0 m p address s = Inr (address, s)"
| "write_chars (Suc n) m p address s =
     rbind (cpu_store8 s address (m p)) (\<lambda>s. write_chars n m (p + 1) (address + 1) s)"

fun write_copies :: "nat \<Rightarrow> nat \<Rightarrow> bytes \<Rightarrow> u32 \<Rightarrow> u32 \<Rightarrow> kstate \<Rightarrow> kstate result" where
  "write_copies 0 n m p address s = Inr s"
| "write_copies (Suc c) n m p address s =
     rbind (write_chars n m p address s) (\<lambda>(address, s). write_copies c n m p address s)"

definition command_writemem_k :: command where
  "command_writemem_k ctx m arguments s =
     rbind (arg_number m arguments 1 16) (\<lambda>a.
     rbind (arg_number m arguments 2 10) (\<lambda>size.
     rbind (arg_length m arguments 3) (\<lambda>stringLen.
     rbind (argument arguments 3) (\<lambda>p.
     rbind (write_copies (nat (sint size)) (nat (sint stringLen)) m p (a + KERNEL_BASE) s) (\<lambda>s.
     Inr (Returns, s))))))"

fun read_chars :: "nat \<Rightarrow> u32 \<Rightarrow> kstate \<Rightarrow> unit result" where
  "read_chars 0 address s = Inr ()"
| "read_chars (Suc n) address s = rbind (cpu_load8 s address) (\<lambda>_. read_chars n (address + 1) s)"

definition command_readusermem :: command where
  "command_readusermem ctx m arguments s =
     rbind (arg_number m arguments 1 10) (\<lambda>envId.
     rbind (envid2env s envId False) (\<lambda>(_, env).
     rbind (arg_number m arguments 2 16) (\<lambda>address.
     case env of
       None \<Rightarrow> Inr (Returns, s)
     | Some e \<Rightarrow>
         let oldDir = reg_cr3 s; s = s\<lparr>reg_cr3 := env_cr3 (envs s e)\<rparr> in
         rbind (read_chars 1 address s) (\<lambda>_. Inr (Returns, s\<lparr>reg_cr3 := oldDir\<rparr>)))))"

definition command_readmem_k :: command where
  "command_readmem_k ctx m arguments s =
     rbind (arg_number m arguments 1 16) (\<lambda>a.
     rbind (arg_number m arguments 2 10) (\<lambda>size.
     rbind (read_chars (nat (sint size)) (a + KERNEL_BASE) s) (\<lambda>_. Inr (Returns, s))))"

definition command_readuserblock :: command where
  "command_readuserblock ctx m arguments s =
     rbind (arg_number m arguments 1 10) (\<lambda>envId.
     rbind (envid2env s envId False) (\<lambda>(_, env).
     rbind (arg_number m arguments 2 16) (\<lambda>address.
     rbind (arg_number m arguments 3 10) (\<lambda>nBytes.
     case env of
       None \<Rightarrow> Inr (Returns, s)
     | Some e \<Rightarrow>
         let oldDir = reg_cr3 s; s = s\<lparr>reg_cr3 := env_cr3 (envs s e)\<rparr> in
         rbind (read_chars (nat (sint nBytes)) address s) (\<lambda>_. Inr (Returns, s\<lparr>reg_cr3 := oldDir\<rparr>))))))"

definition command_remove_table :: command where
  "command_remove_table ctx m arguments s =
     rbind (arg_number m arguments 1 10) (\<lambda>envId.
     rbind (envid2env s envId False) (\<lambda>(_, env).
     case env of
       None \<Rightarrow> Inr (Returns, s)
     | Some e \<Rightarrow>
         rbind (arg_number m arguments 2 16) (\<lambda>address.
         let dir = env_page_directory (envs s e) in
         rbind (kload s dir (PDX address)) (\<lambda>entry.
         let table_pa = entry AND 0xFFFFF000 in
         rbind (if \<not> CHECK_IF_KERNEL_ADDRESS address then kfree s (kheap_virtual_address s table_pa)
                else rbind (to_frame_info s table_pa) (\<lambda>f. Inr (free_frame (set_references s f 0) f))) (\<lambda>s.
         rbind (kload s dir (PDX address)) (\<lambda>entry.
         rbind (kstore s dir (PDX address) (entry AND NOT PERM_PRESENT)) (\<lambda>s. Inr (Returns, s))))))))"

definition command_allocuserpage :: command where
  "command_allocuserpage ctx m arguments s =
     rbind (arg_number m arguments 1 10) (\<lambda>envId.
     rbind (envid2env s envId False) (\<lambda>(_, env).
     case env of
       None \<Rightarrow> Inr (Returns, s)
     | Some e \<Rightarrow>
         rbind (arg_number m arguments 2 16) (\<lambda>address.
         rbind (allocate_frame s) (\<lambda>(ptr_frame_info, s).
         rbind (map_frame s (env_page_directory (envs s e)) ptr_frame_info address (PERM_WRITEABLE OR PERM_USER)) (\<lambda>s.
         Inr (Returns, s))))))"

section \<open>Programs\<close>

definition command_run_program :: command where
  "command_run_program ctx m arguments s =
     (if length arguments < 3 then Inr (Returns, s)
      else
        rbind (arg_string m arguments 1) (\<lambda>name.
        rbind (arg_number m arguments 2 10) (\<lambda>size.
        rbind (env_create (pc_programs ctx) s name size) (\<lambda>(env, s).
        case env of
          None \<Rightarrow> Inr (Returns, s)
        | Some e \<Rightarrow> let s = sched_new_env s (Some e) in Inr (sched_run_env s (env_id (envs s e)))))))"

definition command_kill_program :: command where
  "command_kill_program ctx m arguments s =
     rbind (arg_number m arguments 1 10) (\<lambda>envId. sched_kill_env s envId)"

definition commnad_load_env :: command where
  "commnad_load_env ctx m arguments s =
     (if length arguments < 3 then Inr (Returns, s)
      else
        rbind (arg_string m arguments 1) (\<lambda>name.
        rbind (arg_number m arguments 2 10) (\<lambda>size.
        rbind (env_create (pc_programs ctx) s name size) (\<lambda>(env, s).
        case env of
          None \<Rightarrow> Inr (Returns, s)
        | Some e \<Rightarrow> Inr (Returns, sched_new_env s (Some e))))))"

definition command_run_all :: command where
  "command_run_all ctx m arguments s = Inr (sched_run_all s)"

definition command_kill_all :: command where
  "command_kill_all ctx m arguments s = sched_kill_all s"

section \<open>Settings\<close>

definition setUHeapPlacementStrategyFIRSTFIT :: "kstate \<Rightarrow> kstate" where
  "setUHeapPlacementStrategyFIRSTFIT s = s\<lparr>UHeapPlacementStrategy := UHP_PLACE_FIRSTFIT\<rparr>"

definition setUHeapPlacementStrategyBESTFIT :: "kstate \<Rightarrow> kstate" where
  "setUHeapPlacementStrategyBESTFIT s = s\<lparr>UHeapPlacementStrategy := UHP_PLACE_BESTFIT\<rparr>"

definition setUHeapPlacementStrategyNEXTFIT :: "kstate \<Rightarrow> kstate" where
  "setUHeapPlacementStrategyNEXTFIT s = s\<lparr>UHeapPlacementStrategy := UHP_PLACE_NEXTFIT\<rparr>"

definition setUHeapPlacementStrategyWORSTFIT :: "kstate \<Rightarrow> kstate" where
  "setUHeapPlacementStrategyWORSTFIT s = s\<lparr>UHeapPlacementStrategy := UHP_PLACE_WORSTFIT\<rparr>"

text \<open>A command that only changes a setting.\<close>

definition setting :: "(kstate \<Rightarrow> kstate) \<Rightarrow> command" where
  "setting f ctx m arguments s = Inr (Returns, f s)"

definition command_set_page_rep_LRU :: command where
  "command_set_page_rep_LRU = setting setPageReplacmentAlgorithmLRU"

definition command_set_page_rep_CLOCK :: command where
  "command_set_page_rep_CLOCK = setting setPageReplacmentAlgorithmCLOCK"

definition command_set_page_rep_FIFO :: command where
  "command_set_page_rep_FIFO = setting setPageReplacmentAlgorithmFIFO"

definition command_set_page_rep_ModifiedCLOCK :: command where
  "command_set_page_rep_ModifiedCLOCK = setting setPageReplacmentAlgorithmModifiedCLOCK"

definition command_set_heap_plac_FIRSTFIT :: command where
  "command_set_heap_plac_FIRSTFIT = setting setUHeapPlacementStrategyFIRSTFIT"

definition command_set_heap_plac_BESTFIT :: command where
  "command_set_heap_plac_BESTFIT = setting setUHeapPlacementStrategyBESTFIT"

definition command_set_heap_plac_NEXTFIT :: command where
  "command_set_heap_plac_NEXTFIT = setting setUHeapPlacementStrategyNEXTFIT"

definition command_set_heap_plac_WORSTFIT :: command where
  "command_set_heap_plac_WORSTFIT = setting setUHeapPlacementStrategyWORSTFIT"

definition command_disable_modified_buffer :: command where
  "command_disable_modified_buffer =
     setting (\<lambda>s. if isBufferingEnabled s = 0 then s else enableModifiedBuffer s 0)"

definition command_enable_modified_buffer :: command where
  "command_enable_modified_buffer =
     setting (\<lambda>s. if isBufferingEnabled s = 0 then s else enableModifiedBuffer s 1)"

definition command_disable_buffering :: command where
  "command_disable_buffering = setting (\<lambda>s. enableModifiedBuffer (enableBuffering s 0) 0)"

text \<open>When the length of the modified buffer is 0, the command asks for it.\<close>

definition command_enable_buffering :: command where
  "command_enable_buffering ctx m arguments s =
     (let s = enableModifiedBuffer (enableBuffering s 1) 1 in
      Inr (Returns, if getModifiedBufferLength s = 0 then setModifiedBufferLength s (pc_number ctx) else s))"

definition command_set_modified_buffer_length :: command where
  "command_set_modified_buffer_length ctx m arguments s =
     rbind (arg_number m arguments 1 10) (\<lambda>n. Inr (Returns, setModifiedBufferLength s n))"

text \<open>help, kernel_info, meminfo, printall, rep?, heap? and modbufflength? only print.\<close>

definition command_prints :: command where
  "command_prints = setting id"

definition command_test :: "string \<Rightarrow> command" where
  "command_test name ctx m arguments s = rbind (pc_test ctx name s) (\<lambda>s. Inr (Returns, s))"

section \<open>The interpreter\<close>

definition commands :: "(string \<times> command) list" where
  "commands =
     [(''help'', command_prints), (''kernel_info'', command_prints), (''wum'', command_writeusermem),
      (''rum'', command_readusermem), (''wm'', command_writemem_k), (''rm'', command_readmem_k),
      (''rub'', command_readuserblock), (''kill'', command_kill_program), (''rut'', command_remove_table),
      (''aup'', command_allocuserpage), (''meminfo'', command_prints), (''run'', command_run_program),
      (''load'', commnad_load_env), (''runall'', command_run_all), (''printall'', command_prints),
      (''killall'', command_kill_all), (''lru'', command_set_page_rep_LRU), (''fifo'', command_set_page_rep_FIFO),
      (''clock'', command_set_page_rep_CLOCK), (''modifiedclock'', command_set_page_rep_ModifiedCLOCK),
      (''rep?'', command_prints), (''firstfit'', command_set_heap_plac_FIRSTFIT),
      (''bestfit'', command_set_heap_plac_BESTFIT), (''nextfit'', command_set_heap_plac_NEXTFIT),
      (''worstfit'', command_set_heap_plac_WORSTFIT), (''heap?'', command_prints),
      (''nobuff'', command_disable_buffering), (''buff'', command_enable_buffering),
      (''nomodbuff'', command_disable_modified_buffer), (''modbuff'', command_enable_modified_buffer),
      (''modbufflength?'', command_prints), (''modbufflength'', command_set_modified_buffer_length),
      (''tstkmalloc'', command_test ''test_kmalloc''), (''tstkfree'', command_test ''test_kfree''),
      (''tstkphysaddr'', command_test ''test_kheap_phys_addr''), (''tstkvirtaddr'', command_test ''test_kheap_virt_addr''),
      (''tst3functions'', command_test ''test_three_creation_functions'')]"

text \<open>The first command whose name strcmp() finds equal to the first argument.\<close>

fun find_command :: "bytes \<Rightarrow> u32 \<Rightarrow> (string \<times> command) list \<Rightarrow> command option" where
  "find_command m p [] = None"
| "find_command m p ((name, f) # cs) = (if cstr m p (ascii name) then Some f else find_command m p cs)"

text \<open>Every command returns 0; the memory of the line is changed by strsplit().\<close>

definition execute_command :: "prompt_context \<Rightarrow> u32 \<Rightarrow> bytes \<Rightarrow> kstate \<Rightarrow> u32 \<Rightarrow> (outcome \<times> bytes \<times> kstate) result" where
  "execute_command ctx whitespace m s command_string =
     (case strsplit m command_string whitespace of
        None \<Rightarrow> Inl Diverges
      | Some (_, arguments, m) \<Rightarrow>
          (case arguments of
             [] \<Rightarrow> Inr (Returns, m, s)
           | p # _ \<Rightarrow>
               (case find_command m p commands of
                  None \<Rightarrow> Inr (Returns, m, s)
                | Some f \<Rightarrow> rbind (f ctx m arguments s) (\<lambda>(out, s). Inr (out, m, s)))))"

section \<open>Lookup\<close>

lemma commands_names: "map fst commands = command_names"
  by (simp add: commands_def command_names_def)

text \<open>The comparison is the one strcmp() makes.\<close>

lemma cstr_unique: "cstr m p xs \<Longrightarrow> cstr m p ys \<longleftrightarrow> ys = xs"
proof (induction xs arbitrary: p ys)
  case Nil
  then show ?case by (cases ys) auto
next
  case (Cons x xs)
  then show ?case by (cases ys) auto
qed

lemma strcmp_literal:
  assumes "cstr m p xs" and "cstr m q ys"
  shows "strcmp m p q = Some 0 \<longleftrightarrow> cstr m p ys"
  using strcmp_spec [OF assms] cstr_unique [OF assms(1), of ys] by auto

lemma find_command_map_of:
  assumes "cstr m p w"
  shows "find_command m p cs = map_of (map (\<lambda>(name, f). (ascii name, f)) cs) w"
proof (induction cs)
  case (Cons c cs)
  obtain name f where "c = (name, f)" by (cases c)
  then show ?case using Cons cstr_unique [OF assms, of "ascii name"] by auto
qed simp

definition whitespace_chars :: "u8 list" where
  "whitespace_chars = [9, 13, 10, 32]"

definition line_words :: "u8 list \<Rightarrow> u8 list list" where
  "line_words = words_of (\<lambda>c. c \<in> set whitespace_chars)"

text \<open>What the command named by the first word does with the words.\<close>

definition run_words :: "prompt_context \<Rightarrow> bytes \<Rightarrow> kstate \<Rightarrow> u8 list list \<Rightarrow> u32 list \<Rightarrow> (outcome \<times> kstate) result" where
  "run_words ctx m s ws arguments =
     (case ws of
        [] \<Rightarrow> Inr (Returns, s)
      | w # _ \<Rightarrow>
          (case map_of (map (\<lambda>(name, f). (ascii name, f)) commands) w of
             None \<Rightarrow> Inr (Returns, s)
           | Some f \<Rightarrow> f ctx m arguments s))"

text \<open>
  C18. The command interpreter: a line of at most fifteen words is executed by running the command of
  the table that its first word names, on the words as its arguments; a line without words or with an
  unknown command changes nothing but the memory of the line itself.
\<close>

theorem execute_command_runs:
  assumes "cstr m p line" and "separators m ws whitespace_chars" and "unat p + length line < 4294967296"
    and "span ws (Suc (length whitespace_chars)) \<inter> span p (length line) = {}" and "length (line_words line) \<le> 15"
  shows "\<exists>arguments m'. execute_command ctx ws m s p
        = rbind (run_words ctx m' s (line_words line) arguments) (\<lambda>(out, s). Inr (out, m', s))
    \<and> list_all2 (cstr m') arguments (line_words line) \<and> (\<forall>a. a \<notin> span p (length line) \<longrightarrow> m' a = m a)"
proof -
  obtain arguments m' where sp: "strsplit m p ws = Some (True, arguments, m')" "list_all2 (cstr m') arguments (line_words line)"
      "\<forall>a. a \<notin> span p (length line) \<longrightarrow> m' a = m a"
    using strsplit_spec [OF assms(1-4)] assms(5) unfolding line_words_def by blast
  have "execute_command ctx ws m s p = rbind (run_words ctx m' s (line_words line) arguments) (\<lambda>(out, s). Inr (out, m', s))"
  proof (cases "line_words line")
    case Nil
    then show ?thesis using sp(1,2) by (simp add: execute_command_def run_words_def)
  next
    case (Cons w rest)
    then obtain a as where a: "arguments = a # as" "cstr m' a w" using sp(2) by (cases arguments) auto
    then show ?thesis
      using sp(1) Cons find_command_map_of [OF a(2), of commands]
      by (simp add: execute_command_def run_words_def split: option.split)
  qed
  then show ?thesis using sp(2,3) by blast
qed

text \<open>The command "clock" with an argument, between blanks.\<close>

definition sample_line :: "u8 list" where
  "sample_line = [32, 99, 108, 111, 99, 107, 32, 49, 10]"

definition sample_text :: bytes where
  "sample_text = put (put (\<lambda>_. 0) 100 sample_line) 200 whitespace_chars"

lemma sample_text_ok:
  "cstr sample_text 100 sample_line" "separators sample_text 200 whitespace_chars"
  "span 200 (Suc (length whitespace_chars)) \<inter> span 100 (length sample_line) = {}"
  "line_words sample_line = [ascii ''clock'', [49]]"
proof -
  show "cstr sample_text 100 sample_line" "separators sample_text 200 whitespace_chars"
    by (simp_all add: separators_def sample_text_def sample_line_def whitespace_chars_def)
  show "span 200 (Suc (length whitespace_chars)) \<inter> span 100 (length sample_line) = {}"
    by (subst span_nat, simp add: whitespace_chars_def sample_line_def)+ (auto simp: whitespace_chars_def sample_line_def)
  show "line_words sample_line = [ascii ''clock'', [49]]"
    by (simp add: line_words_def words_of.simps sample_line_def whitespace_chars_def ascii_def)
qed

theorem execute_command_runs_witness:
  "\<exists>m'. execute_command \<lparr>pc_programs = (\<lambda>_. undefined), pc_number = 0, pc_test = (\<lambda>_ s. Inr s)\<rparr> 200 sample_text sample_state 100
     = Inr (Returns, m', setPageReplacmentAlgorithmCLOCK sample_state)"
proof -
  have w: "map_of (map (\<lambda>(name, f). (ascii name, f)) commands) (ascii ''clock'') = Some command_set_page_rep_CLOCK"
    by (simp add: commands_def ascii_def)
  show ?thesis
    using execute_command_runs [OF sample_text_ok(1,2) _ sample_text_ok(3),
        of "\<lparr>pc_programs = (\<lambda>_. undefined), pc_number = 0, pc_test = (\<lambda>_ s. Inr s)\<rparr>" sample_state]
    unfolding sample_text_ok(4) run_words_def
    by (auto simp: w command_set_page_rep_CLOCK_def setting_def sample_line_def)
qed

end
