(* ===== verification/FOS_FrameInv.thy ===== *)
theory FOS_FrameInv
  imports FOS_KHeapInv
begin

text \<open>
  Correctness of the frame allocator: which frames the allocator hands out and takes back, the
  16-bit reference counts, and the free list that initialize_paging() builds at boot.
\<close>

section \<open>Allocating and freeing\<close>

lemma sample_plain: "plain_frames sample_state"
  by (simp add: plain_frames_def)

text \<open>
  Allocating n frames from a list of unbuffered free frames hands out the first n frames of the
  list, all different, and leaves the rest; asking for more frames than there are does not return.
\<close>

theorem allocate_frames_prefix:
  assumes "plain_frames s"
  shows "(if n \<le> length (free_frame_list s)
          then \<exists>s'. take_frames (\<lambda>s. returned (allocate_frame s)) n s = Some (take n (free_frame_list s), s')
             \<and> free_frame_list s' = drop n (free_frame_list s) \<and> distinct (take n (free_frame_list s))
             \<and> plain_frames s'
          else take_frames (\<lambda>s. returned (allocate_frame s)) n s = None)"
  using frames.take_prefix [OF assms, of n] frames.take_too_many [OF assms, of n]
    frames.ok_distinct [OF assms] by auto

theorem allocate_frames_prefix_witness:
  "\<exists>s'. take_frames (\<lambda>s. returned (allocate_frame s)) 2 sample_state = Some ([100, 101], s')
     \<and> free_frame_list s' = [102]"
  using allocate_frames_prefix [OF sample_plain, of 2] by (auto simp: numeral_2_eq_2)

text \<open>
  A frame given back by free_frame() is the next one allocate_frame() hands out, its Frame_Info
  is cleared, and the free list is then as before.
\<close>

theorem free_frame_reused:
  assumes "plain_frames s" and "f \<notin> set (free_frame_list s)"
  shows "\<exists>s'. allocate_frame (free_frame s f) = Inr (f, s') \<and> free_frame_list s' = free_frame_list s
    \<and> frames_info s' = (frames_info s)(f := zero_frame_info)"
  using assms
  by (simp add: allocate_frame_def free_frame_def initialize_frame_info_def plain_frames_def)

theorem free_frame_reused_witness:
  "\<exists>s'. allocate_frame (free_frame sample_state 150) = Inr (150, s') \<and> free_frame_list s' = [100, 101, 102]
    \<and> frames_info s' = (frames_info sample_state)(150 := zero_frame_info)"
  using free_frame_reused [OF sample_plain, of 150] by simp

text \<open>
  decrement_references() returns a frame to the free list exactly when it drops the last
  reference; a frame whose count is already zero wraps to 65535 references and is not freed.
\<close>

theorem decrement_references_cases:
  "(if references s f = 1
    then free_frame_list (decrement_references s f) = f # free_frame_list s
      \<and> frames_info (decrement_references s f) = (frames_info s)(f := zero_frame_info)
    else free_frame_list (decrement_references s f) = free_frame_list s
      \<and> references (decrement_references s f) f = (if references s f = 0 then 65535 else references s f - 1))"
proof (cases "references s f = 1")
  case True
  then show ?thesis
    by (simp add: decrement_references_def Let_def references_def set_references_def free_frame_def
        initialize_frame_info_def)
next
  case False
  then have "references s f - 1 \<noteq> 0" by simp
  then have "decrement_references s f = set_references s f (references s f - 1)"
    unfolding decrement_references_def Let_def by (simp add: references_def set_references_def)
  then show ?thesis using False by (simp add: references_def set_references_def)
qed

lemma clearFFL_loop_empties:
  "plain_frames s \<Longrightarrow> n = length (free_frame_list s) \<Longrightarrow>
     \<exists>s'. clearFFL_loop n s = Inr s' \<and> free_frame_list s' = []"
proof (induction n arbitrary: s)
  case (Suc n)
  then obtain f fs where s: "free_frame_list s = f # fs" by (cases "free_frame_list s") auto
  let ?s = "initialize_frame_info (s\<lparr>free_frame_list := fs\<rparr>) f"
  have "allocate_frame s = Inr (f, ?s)" using Suc.prems(1) s by (intro allocate_plain) (auto simp: plain_frames_def)
  moreover have "plain_frames ?s" "n = length (free_frame_list ?s)"
    using Suc.prems s by (auto simp: plain_frames_def initialize_frame_info_def)
  ultimately show ?case using Suc.IH [of ?s] by simp
qed simp

text \<open>
  sys_clearFFL() takes every frame of the free list, whatever its length.
\<close>

theorem clearFFL_empties:
  assumes "plain_frames s"
  shows "\<exists>s'. sys_clearFFL s = Inr s' \<and> free_frame_list s' = []"
  unfolding sys_clearFFL_def using clearFFL_loop_empties [OF assms] by simp

theorem clearFFL_empties_witness:
  "\<exists>s'. sys_clearFFL sample_state = Inr s' \<and> free_frame_list s' = []"
  by (rule clearFFL_empties [OF sample_plain])

section \<open>The free list at boot\<close>

text \<open>The pages initialize_paging() clears are mapped at their static addresses.\<close>

lemma static_va_low: "static_va 1 = ptr_zero_page" "static_va 2 = ptr_temp_page"
  by (simp_all add: static_va_def ptr_zero_page_def ptr_temp_page_def fos_consts)

definition boot_ok :: "kstate \<Rightarrow> bool" where
  "boot_ok s \<longleftrightarrow> kmap_inv s \<and> static_mapped s 1 \<and> static_mapped s 2
     \<and> \<not> kernel_frame s 1 \<and> \<not> kernel_frame s 2
     \<and> KERNEL_BASE + PHYS_EXTENDED_MEM \<le> ptr_free_mem s
     \<and> (unat (ptr_free_mem s) - unat KERNEL_BASE + 4095) div 4096 \<le> unat (number_of_frames s)"

lemma clear_low_words_static:
  assumes "kmap_inv s" and "static_mapped s f" and "\<not> kernel_frame s f"
  shows "\<exists>s'. clear_low_words s (static_va f) = Inr s' \<and> kmap_inv s'
    \<and> (\<forall>g. static_mapped s g \<longrightarrow> static_mapped s' g) \<and> kernel_frame s' = kernel_frame s
    \<and> free_frame_list s' = free_frame_list s \<and> frames_info s' = frames_info s
    \<and> number_of_frames s' = number_of_frames s \<and> ptr_free_mem s' = ptr_free_mem s"
proof -
  let ?s = "phys_fill s f (\<lambda>i. if i < 256 then 0 else phys s f i)"
  have eq: "phys ?s g = phys s g" if "kernel_frame s g" for g using that assms(3) by auto
  note k = kmap_inv_other_frame [OF assms(1) eq]
  have m: "kmap_inv ?s" "kernel_frame ?s = kernel_frame s"
    and p: "\<And>va. KERNEL_BASE \<le> va \<Longrightarrow> kpte ?s va = kpte s va" using k by simp_all
  have "static_mapped ?s g" if "static_mapped s g" for g
  proof -
    have "KERNEL_BASE \<le> static_va g" using that by (simp add: static_mapped_def kernel_PDX_iff)
    then have "kframe ?s (static_va g) = kframe s (static_va g)"
      using p kframe_kernel [OF m(1)] kframe_kernel [OF assms(1)] by simp
    then show ?thesis using that by (simp add: static_mapped_def)
  qed
  moreover have "kframe s (static_va f) = Some f" using assms(2) by (simp add: static_mapped_def)
  moreover have "ptr_free_mem ?s = ptr_free_mem s" by (simp add: phys_fill_def)
  ultimately show ?thesis using m by (simp add: clear_low_words_def)
qed

lemma fold_mark_references:
  assumes "j < 4294967296" and "\<forall>i \<in> set is. i < 4294967296"
  shows "references (fold mark_used is s) (of_nat j) = (if j \<in> set is then 1 else references s (of_nat j))"
    and "references (fold mark_free is s) (of_nat j) = (if j \<in> set is then 0 else references s (of_nat j))"
  using assms(2)
  by (induction "is" arbitrary: s) (auto simp: references_def of_nat_u32_eq [OF _ assms(1)] of_nat_u32_eq [OF assms(1)])

lemma disk_file_other [simp]:
  "free_frame_list (initialize_disk_page_file s) = free_frame_list s"
  "frames_info (initialize_disk_page_file s) = frames_info s"
proof -
  have "free_frame_list (fold (\<lambda>i s. s\<lparr>disk_free_frame_list := g i s\<rparr>) is s) = free_frame_list s
      \<and> frames_info (fold (\<lambda>i s. s\<lparr>disk_free_frame_list := g i s\<rparr>) is s) = frames_info s" for g :: "nat \<Rightarrow> kstate \<Rightarrow> u32 list" and "is" s
    by (induction "is" arbitrary: s) auto
  then show "free_frame_list (initialize_disk_page_file s) = free_frame_list s"
    "frames_info (initialize_disk_page_file s) = frames_info s"
    unfolding initialize_disk_page_file_def by simp_all
qed

text \<open>The first frame after the kernel image.\<close>

definition kernel_end :: "kstate \<Rightarrow> nat" where
  "kernel_end s = (unat (ptr_free_mem s) - unat KERNEL_BASE + 4095) div 4096"

lemma boot_ranges:
  assumes "boot_ok s"
  shows "\<exists>pa. STATIC_KERNEL_PHYSICAL_ADDRESS (ptr_free_mem s) = Inr pa
      \<and> unat (ROUNDUP pa PAGE_SIZE div PAGE_SIZE) = kernel_end s"
    and "256 \<le> kernel_end s" and "kernel_end s \<le> unat (number_of_frames s)"
proof -
  let ?p = "ptr_free_mem s"
  have ge: "unat KERNEL_BASE + 1048576 \<le> unat ?p"
    using assms by (simp add: boot_ok_def word_le_nat_alt fos_consts)
  then have kb: "KERNEL_BASE \<le> ?p" by (simp add: word_le_nat_alt)
  have pa: "unat (?p - KERNEL_BASE) = unat ?p - unat KERNEL_BASE" using kb by (simp add: unat_sub)
  have "unat (ROUNDUP (?p - KERNEL_BASE) PAGE_SIZE) = kernel_end s * 4096"
    using unat_u32_less [of ?p] pa
    by (subst unat_ROUNDUP) (simp_all add: PAGE_SIZE_def kernel_end_def KERNEL_BASE_def)
  then have "unat (ROUNDUP (?p - KERNEL_BASE) PAGE_SIZE div PAGE_SIZE) = kernel_end s"
    by (simp add: unat_div_distrib) (simp add: PAGE_SIZE_def)
  then show "\<exists>pa. STATIC_KERNEL_PHYSICAL_ADDRESS (ptr_free_mem s) = Inr pa
      \<and> unat (ROUNDUP pa PAGE_SIZE div PAGE_SIZE) = kernel_end s"
    using kb by (simp add: STATIC_KERNEL_PHYSICAL_ADDRESS_def not_less)
  show "256 \<le> kernel_end s" using ge by (simp add: kernel_end_def)
  show "kernel_end s \<le> unat (number_of_frames s)" using assms by (simp add: boot_ok_def kernel_end_def)
qed

lemma boot_clear:
  assumes "boot_ok s"
  shows "\<exists>s1 s2. clear_low_words s ptr_zero_page = Inr s1 \<and> clear_low_words s1 ptr_temp_page = Inr s2
    \<and> free_frame_list s2 = free_frame_list s \<and> frames_info s2 = frames_info s
    \<and> number_of_frames s2 = number_of_frames s \<and> ptr_free_mem s2 = ptr_free_mem s"
proof -
  have b: "kmap_inv s" "static_mapped s 1" "static_mapped s 2" "\<not> kernel_frame s 1" "\<not> kernel_frame s 2"
    using assms by (simp_all add: boot_ok_def)
  obtain s1 where s1: "clear_low_words s (static_va 1) = Inr s1" "kmap_inv s1" "static_mapped s1 2"
    "\<not> kernel_frame s1 2" "free_frame_list s1 = free_frame_list s" "frames_info s1 = frames_info s"
    "number_of_frames s1 = number_of_frames s" "ptr_free_mem s1 = ptr_free_mem s"
    using clear_low_words_static [OF b(1,2,4)] b(3,5) by auto
  then show ?thesis
    using clear_low_words_static [OF s1(2-4)] unfolding static_va_low by auto
qed

lemma boot_ok_cong:
  assumes "phys s' = phys s" "phys_page_directory s' = phys_page_directory s"
    "ptr_page_directory s' = ptr_page_directory s" "number_of_frames s' = number_of_frames s"
    "ptr_free_mem s' = ptr_free_mem s"
  shows "boot_ok s' = boot_ok s"
  using assms kmap_inv_cong [OF assms(1-4)] kframe_cong [OF assms(1,2)]
  by (simp add: boot_ok_def static_mapped_def kernel_frame_def kdir_def ktab_def)

lemma mark_used_dir [simp]:
  "ptr_page_directory (mark_used i s) = ptr_page_directory s"
  by (simp add: mark_used_def set_references_def)

text \<open>The free list and the reference counts that initialize_paging() sets up.\<close>

definition boot_frames :: "kstate \<Rightarrow> nat \<Rightarrow> bool" where
  "boot_frames s i \<longleftrightarrow> 3 \<le> i \<and> i < 160 \<or> kernel_end s \<le> i"

lemma initialize_paging_result:
  assumes "boot_ok s"
  shows "\<exists>s'. initialize_paging s = Inr s'
    \<and> free_frame_list s' = rev (map of_nat [kernel_end s..<unat (number_of_frames s)]) @ rev (map of_nat [3..<160])
    \<and> (\<forall>j < unat (number_of_frames s). references s' (of_nat j) = (if boot_frames s j then 0 else 1))"
proof -
  note upt_rec_numeral [simp del]
  let ?s0 = "mark_used 2 (mark_used 1 (mark_used 0 (s\<lparr>free_frame_list := [], modified_frame_list := []\<rparr>)))"
  let ?n = "unat (number_of_frames s)"
  have "boot_ok ?s0 = boot_ok s" by (rule boot_ok_cong) simp_all
  then obtain s1 s2 where c: "clear_low_words ?s0 ptr_zero_page = Inr s1" "clear_low_words s1 ptr_temp_page = Inr s2"
    "free_frame_list s2 = []" "frames_info s2 = frames_info ?s0" "number_of_frames s2 = number_of_frames s"
    "ptr_free_mem s2 = ptr_free_mem s"
    using boot_clear [of ?s0] assms by auto
  obtain pa where pa: "STATIC_KERNEL_PHYSICAL_ADDRESS (ptr_free_mem s) = Inr pa"
    "unat (ROUNDUP pa PAGE_SIZE div PAGE_SIZE) = kernel_end s" using boot_ranges(1) [OF assms] by blast
  have r: "unat (ROUNDUP PHYS_IO_MEM PAGE_SIZE div PAGE_SIZE) = 160" "unat (PHYS_IO_MEM div PAGE_SIZE) = 160"
    "unat (PHYS_EXTENDED_MEM div PAGE_SIZE) = 256"
    by (simp_all add: ROUNDUP_def ROUNDDOWN_def fos_consts)
  let ?s3 = "fold mark_used [256..<kernel_end s] (fold mark_used [160..<256] (fold mark_free [3..<160] s2))"
  let ?s4 = "fold mark_free [kernel_end s..<?n] ?s3"
  have run: "initialize_paging s = Inr (initialize_disk_page_file ?s4)"
    using c(1,2) by (simp add: initialize_paging_def Let_def r c(5,6) pa)
  have n: "?n < 4294967296" by (rule unat_u32_less)
  have "references ?s4 (of_nat j) = (if boot_frames s j then 0 else 1)" if j: "j < ?n" for j
  proof -
    have j': "j < 4294967296" using j n by linarith
    have low: "references s2 (of_nat j) = 1" if "j < 3"
    proof -
      from that consider "j = 0" | "j = 1" | "j = 2" by linarith
      then show ?thesis by cases (simp_all add: references_def c(4))
    qed
    have "\<forall>i \<in> set [a..<b]. i < 4294967296" if "b \<le> 4294967296" for a b using that by auto
    note refs = fold_mark_references [OF j' this]
    have "references ?s4 (of_nat j) = (if kernel_end s \<le> j then 0 else if 160 \<le> j \<and> j < kernel_end s then 1
        else if 3 \<le> j \<and> j < 160 then 0 else references s2 (of_nat j))"
      using j n boot_ranges(2,3) [OF assms] by (simp add: refs)
    then show ?thesis using low boot_ranges(2) [OF assms] by (auto simp: boot_frames_def)
  qed
  moreover have "references (initialize_disk_page_file ?s4) = references ?s4"
    by (simp add: references_def fun_eq_iff)
  ultimately show ?thesis using run c(3) by (simp add: fold_mark_free_list)
qed

lemma boot_free_distinct:
  assumes "boot_ok s"
  shows "distinct (rev (map of_nat [kernel_end s..<unat (number_of_frames s)]) @ rev (map of_nat [3..<160]) :: u32 list)"
proof -
  note upt_rec_numeral [simp del]
  let ?n = "unat (number_of_frames s)"
  have n: "?n < 4294967296" by (rule unat_u32_less)
  have "distinct (map of_nat ([3..<160] @ [kernel_end s..<?n]) :: u32 list)"
    using boot_ranges(2,3) [OF assms] n by (subst distinct_map) (auto simp: inj_on_def of_nat_u32_eq)
  then show ?thesis by (auto simp: Int_commute)
qed

text \<open>
  initialize_paging() puts on the free list exactly the frames from 3 up to the I/O hole at
  640 KB and the frames from the end of the kernel image on, each once, with no references; every
  other frame of the machine is left with one reference.
\<close>

theorem initialize_paging_free_list:
  assumes "boot_ok s"
  shows "\<exists>s'. initialize_paging s = Inr s' \<and> distinct (free_frame_list s')
    \<and> (\<forall>j < unat (number_of_frames s). (of_nat j \<in> set (free_frame_list s') \<longleftrightarrow> boot_frames s j)
         \<and> references s' (of_nat j) = (if boot_frames s j then 0 else 1))"
proof -
  note upt_rec_numeral [simp del]
  let ?n = "unat (number_of_frames s)"
  have n: "?n < 4294967296" by (rule unat_u32_less)
  have e: "256 \<le> kernel_end s" "kernel_end s \<le> ?n" using boot_ranges(2,3) [OF assms] by auto
  obtain s' where s': "initialize_paging s = Inr s'"
    "free_frame_list s' = rev (map of_nat [kernel_end s..<?n]) @ rev (map of_nat [3..<160])"
    "\<forall>j < ?n. references s' (of_nat j) = (if boot_frames s j then 0 else 1)"
    using initialize_paging_result [OF assms] by blast
  have "distinct (free_frame_list s')" unfolding s'(2) by (rule boot_free_distinct [OF assms])
  moreover have "of_nat j \<in> set (free_frame_list s') \<longleftrightarrow> boot_frames s j" if "j < ?n" for j
  proof -
    have "(of_nat j :: u32) \<in> of_nat ` A \<longleftrightarrow> j \<in> A" if "A \<subseteq> {..<?n}" for A
      using that \<open>j < ?n\<close> n of_nat_u32_eq [of j] by (auto simp: image_iff subset_iff) (metis less_trans)
    note mem = this
    have sub: "{kernel_end s..<?n} \<subseteq> {..<?n}" "{3..<160} \<subseteq> {..<?n}" using e by auto
    have "set (free_frame_list s') = of_nat ` {kernel_end s..<?n} \<union> of_nat ` {3..<160}"
      unfolding s'(2) by simp
    then show ?thesis
      unfolding boot_frames_def using that mem [OF sub(1)] mem [OF sub(2)] by (simp only: Un_iff) auto
  qed
  ultimately show ?thesis using s'(1,3) by blast
qed

lemma sample_boot_ok: "boot_ok sample_state"
proof -
  have "\<not> kernel_frame sample_state f" if "f < 3" for f
  proof
    assume "kernel_frame sample_state f"
    moreover have "f \<noteq> 3" using that by auto
    ultimately obtain d where d: "kernel_index d" "f = d - 956"
      by (auto simp: kernel_frame_def sample_ktab)
    then show False using sample_index(1) [OF d(1)] that
      by (auto simp: kernel_index_def word_less_nat_alt word_le_nat_alt)
  qed
  then show ?thesis
    by (simp add: boot_ok_def sample_kmap_inv sample_static(4) fos_consts)
qed

theorem initialize_paging_free_list_witness:
  "\<exists>s'. initialize_paging sample_state = Inr s' \<and> 100 \<in> set (free_frame_list s')
     \<and> 200 \<notin> set (free_frame_list s') \<and> 350 \<in> set (free_frame_list s')"
proof -
  have k: "kernel_end sample_state = 336" by (simp add: kernel_end_def fos_consts)
  from initialize_paging_free_list [OF sample_boot_ok] obtain s' where s': "initialize_paging sample_state = Inr s'"
    "\<forall>j < 400. of_nat j \<in> set (free_frame_list s') \<longleftrightarrow> boot_frames sample_state j" by auto
  from s'(2) [rule_format, of 100] s'(2) [rule_format, of 200] s'(2) [rule_format, of 350] s'(1)
  show ?thesis by (simp add: boot_frames_def k)
qed

end
