(* ===== verification/FOS_UserMap.thy ===== *)
theory FOS_UserMap
  imports FOS_FrameInv
begin

text \<open>
  The address space of an environment: its page directory and page tables lie on the kernel heap,
  and map_frame() and unmap_frame() on it change the translation of exactly one page, keep the
  reference counts, and leave the kernel's own mappings and the heap invariant alone.
\<close>

section \<open>Directories and tables of an environment\<close>

text \<open>The frame of the directory at kernel address \<open>dir\<close>, its entries, and the entry of a page.\<close>

definition udir :: "kstate \<Rightarrow> u32 \<Rightarrow> u32" where
  "udir s dir = PPN (kpte s dir)"

definition upde :: "kstate \<Rightarrow> u32 \<Rightarrow> u32 \<Rightarrow> u32" where
  "upde s dir i = phys s (udir s dir) i"

definition upte :: "kstate \<Rightarrow> u32 \<Rightarrow> u32 \<Rightarrow> u32" where
  "upte s dir va = phys s (PPN (upde s dir (PDX va))) (PTX va)"

definition user_index :: "u32 \<Rightarrow> bool" where
  "user_index i \<longleftrightarrow> i < PDX USER_TOP"

text \<open>
  The directory is a heap page; every non-zero entry of its user part is present and refers to a
  table on the heap, no table is the directory, and no two entries share a table.
\<close>

definition uspace :: "kstate \<Rightarrow> u32 \<Rightarrow> bool" where
  "uspace s dir \<longleftrightarrow> heap_page dir \<and> kpte s dir \<noteq> 0
     \<and> (\<forall>i. user_index i \<and> upde s dir i \<noteq> 0 \<longrightarrow> upde s dir i AND PERM_PRESENT = PERM_PRESENT
          \<and> virtualAddresses s (PPN (upde s dir i)) \<noteq> 0 \<and> PPN (upde s dir i) \<noteq> udir s dir)
     \<and> (\<forall>i j. user_index i \<and> user_index j \<and> upde s dir i \<noteq> 0 \<and> upde s dir j \<noteq> 0
          \<and> PPN (upde s dir i) = PPN (upde s dir j) \<longrightarrow> i = j)"

text \<open>How the processor translates an address of the environment.\<close>

definition utrans :: "kstate \<Rightarrow> u32 \<Rightarrow> u32 \<Rightarrow> u32 option" where
  "utrans s dir va = mmu_walk (phys s) (udir s dir) va"

lemma user_PDX: "va < USER_TOP \<Longrightarrow> user_index (PDX va)"
proof -
  assume "va < USER_TOP"
  moreover have "unat USER_TOP = 955 * 4194304" by (simp add: fos_consts)
  ultimately show ?thesis
    by (simp add: user_index_def word_less_nat_alt unat_PDX less_mult_imp_div_less)
qed

lemma user_not_kernel: "va < USER_TOP \<Longrightarrow> \<not> CHECK_IF_KERNEL_ADDRESS va"
  by (simp add: CHECK_IF_KERNEL_ADDRESS_def not_le)

lemma uspace_present:
  assumes "uspace s dir" and "va < USER_TOP" and "upde s dir (PDX va) \<noteq> 0"
  shows "upde s dir (PDX va) AND PERM_PRESENT = PERM_PRESENT"
    and "virtualAddresses s (PPN (upde s dir (PDX va))) \<noteq> 0"
    and "PPN (upde s dir (PDX va)) \<noteq> udir s dir"
  using assms user_PDX [OF assms(2)] unfolding uspace_def by blast+

lemma utrans_eq:
  assumes "uspace s dir" and "va < USER_TOP"
  shows "utrans s dir va = (if upde s dir (PDX va) = 0 \<or> upte s dir va AND PERM_PRESENT = 0 then None
    else Some (PPN (upte s dir va)))"
  using uspace_present(1) [OF assms] present_eq_0
  by (auto simp: utrans_def mmu_walk_def upte_def Let_def simp flip: upde_def)

text \<open>The kernel reads and writes directory and tables through their heap addresses.\<close>

lemma heap_frame_mapped:
  assumes "kheap_inv s" and "virtualAddresses s f \<noteq> 0"
  shows "kframe s (virtualAddresses s f) = Some f" and "\<not> kernel_frame s f"
    and "virtualAddresses s f \<noteq> 0"
proof -
  have "heap_page (virtualAddresses s f)" "heap_mapped s (virtualAddresses s f) f" "\<not> kernel_frame s f"
    using assms by (auto simp: kheap_inv_def)
  then show "kframe s (virtualAddresses s f) = Some f" "\<not> kernel_frame s f"
    using heap_translation(1) [OF assms(1)] by auto
qed (rule assms(2))

lemma uspace_dir:
  assumes "kheap_inv s" and "uspace s dir"
  shows "kframe s dir = Some (udir s dir)" and "virtualAddresses s (udir s dir) = dir"
    and "virtualAddresses s (udir s dir) \<noteq> 0"
proof -
  have d: "heap_page dir" "kpte s dir \<noteq> 0" using assms(2) by (simp_all add: uspace_def)
  then have "heap_mapped s dir (udir s dir)" and v: "virtualAddresses s (udir s dir) = dir"
    using assms(1) by (auto simp: kheap_inv_def udir_def)
  then show "kframe s dir = Some (udir s dir)" using heap_translation(1) [OF assms(1) d(1)] by simp
  show "virtualAddresses s (udir s dir) = dir" by (rule v)
  show "virtualAddresses s (udir s dir) \<noteq> 0" using v heap_page_neq_0 [OF d(1)] by simp
qed

lemma user_get_page_table:
  assumes "kheap_inv s" and "uspace s dir" and "va < USER_TOP" and "upde s dir (PDX va) \<noteq> 0"
  defines "t \<equiv> PPN (upde s dir (PDX va))"
  shows "get_page_table s dir va = Inr (TABLE_IN_MEMORY, virtualAddresses s t)"
    and "kframe s (virtualAddresses s t) = Some t" and "\<not> kernel_frame s t"
    and "virtualAddresses s t \<noteq> 0" and "t \<noteq> udir s dir"
proof -
  note p = uspace_present [OF assms(2-4)]
  have t: "virtualAddresses s t \<noteq> 0" using p(2) by (simp add: t_def)
  show "kframe s (virtualAddresses s t) = Some t" "\<not> kernel_frame s t" "virtualAddresses s t \<noteq> 0"
    by (rule heap_frame_mapped [OF assms(1) t])+
  show "t \<noteq> udir s dir" using p(3) by (simp add: t_def)
  have "kload s dir (PDX va) = Inr (upde s dir (PDX va))"
    using uspace_dir(1) [OF assms(1,2)] by (simp add: kload_Inr upde_def)
  then show "get_page_table s dir va = Inr (TABLE_IN_MEMORY, virtualAddresses s t)"
    using p(1) user_not_kernel [OF assms(3)]
    by (simp add: get_page_table_def table_pointer_def kheap_virtual_address_PPN PPN_EXTRACT t_def)
qed

section \<open>Writing one entry\<close>

text \<open>Memory that no kernel table lies in can change without touching the heap invariant.\<close>

lemma kheap_inv_transfer:
  assumes inv: "kheap_inv s" and m: "kmap_inv s'" and kf: "kernel_frame s' = kernel_frame s"
    and p: "\<And>va. heap_page va \<Longrightarrow> kpte s' va = kpte s va" and ff: "free_frames_inv s'"
    and eq: "virtualAddresses s' = virtualAddresses s" "firstFreeVAInKHeap s' = firstFreeVAInKHeap s"
      "number_of_frames s' = number_of_frames s"
  shows "kheap_inv s'"
proof -
  have hm: "heap_page va \<Longrightarrow> heap_mapped s' va g = heap_mapped s va g" for va g
    using p by (simp add: heap_mapped_def)
  have "kpte s' va = 0" if "heap_page va" "firstFreeVAInKHeap s \<le> va" for va
    using inv that p [OF that(1)] by (simp add: kheap_inv_def)
  moreover have "heap_mapped s' va (PPN (kpte s' va)) \<and> virtualAddresses s (PPN (kpte s' va)) = va
      \<and> PPN (kpte s' va) < number_of_frames s" if "heap_page va" "kpte s' va \<noteq> 0" for va
    using inv that p [OF that(1)] hm [OF that(1)] unfolding kheap_inv_def by metis
  moreover have "heap_page (virtualAddresses s f) \<and> heap_mapped s' (virtualAddresses s f) f
      \<and> \<not> kernel_frame s f" if "virtualAddresses s f \<noteq> 0" for f
    using inv that hm unfolding kheap_inv_def by metis
  moreover have "heap_page (firstFreeVAInKHeap s)" "firstFreeVAInKHeap s \<le> KERNEL_HEAP_MAX"
    using inv by (simp_all add: kheap_inv_def)
  ultimately show ?thesis using m ff unfolding kheap_inv_def eq kf by blast
qed

lemma kheap_inv_store:
  assumes inv: "kheap_inv s" and f: "\<not> kernel_frame s f"
  shows "kheap_inv (phys_store s f i v)" and "KERNEL_BASE \<le> va \<Longrightarrow> kpte (phys_store s f i v) va = kpte s va"
    and "kernel_frame (phys_store s f i v) = kernel_frame s"
proof -
  let ?s = "phys_store s f i v"
  have m: "kmap_inv s" using inv by (simp add: kheap_inv_def)
  have eq: "phys ?s g = phys s g" if "kernel_frame s g" for g using that f by auto
  note k = kmap_inv_other_frame [OF m eq]
  show p: "KERNEL_BASE \<le> va \<Longrightarrow> kpte ?s va = kpte s va" for va using k by simp
  show kf: "kernel_frame ?s = kernel_frame s" using k by simp
  have "free_frames_inv ?s" using inv by (simp add: free_frames_inv_def kf kheap_inv_def)
  moreover have "kmap_inv ?s" using k by simp
  ultimately show "kheap_inv ?s"
    using kheap_inv_transfer [OF inv _ kf p [OF heap_page_kernel]] by simp
qed

text \<open>The effect of one write to a table of the environment.\<close>

lemma user_store:
  fixes e :: u32
  assumes inv: "kheap_inv s" and us: "uspace s dir" and va: "va < USER_TOP" "upde s dir (PDX va) \<noteq> 0"
  defines "s' \<equiv> phys_store s (PPN (upde s dir (PDX va))) (PTX va) e"
  shows "kheap_inv s'" and "uspace s' dir" and "upte s' dir va = e" and "upde s' dir = upde s dir"
    and "w < USER_TOP \<Longrightarrow> PPN w \<noteq> PPN va \<Longrightarrow> utrans s' dir w = utrans s dir w"
    and "KERNEL_BASE \<le> w \<Longrightarrow> kframe s' w = kframe s w" and "kernel_frame s' = kernel_frame s"
    and "w < USER_TOP \<Longrightarrow> upde s dir (PDX w) \<noteq> 0 \<Longrightarrow>
      upte s' dir w = (if PPN w = PPN va then e else upte s dir w)"
proof -
  let ?t = "PPN (upde s dir (PDX va))"
  note t = user_get_page_table [OF inv us va]
  note st = kheap_inv_store [OF inv t(3), where i = "PTX va" and v = e, folded s'_def]
  show inv': "kheap_inv s'" by (rule st(1))
  show "kernel_frame s' = kernel_frame s" by (rule st(3))
  have kd: "KERNEL_BASE \<le> dir" using us by (simp add: uspace_def heap_page_kernel)
  have ud: "udir s' dir = udir s dir" using st(2) [OF kd] by (simp add: udir_def)
  have pd: "phys s' (udir s dir) = phys s (udir s dir)" using t(5) by (simp add: s'_def)
  show ue: "upde s' dir = upde s dir" by (simp add: upde_def [abs_def] ud pd)
  have v: "virtualAddresses s' = virtualAddresses s" by (simp add: s'_def)
  show us': "uspace s' dir"
    using us unfolding uspace_def ue ud v st(2) [OF kd] by blast
  show "upte s' dir va = e" unfolding upte_def ue by (simp add: s'_def)
  have m: "kmap_inv s" "kmap_inv s'" using inv inv' by (simp_all add: kheap_inv_def)
  show "kframe s' w = kframe s w" if "KERNEL_BASE \<le> w"
    using kframe_kernel [OF m(1) that] kframe_kernel [OF m(2) that] st(2) [OF that] by simp
  show other: "upte s' dir w = (if PPN w = PPN va then e else upte s dir w)"
    if w: "w < USER_TOP" "upde s dir (PDX w) \<noteq> 0" for w
  proof -
    have "PPN (upde s dir (PDX w)) = ?t \<longrightarrow> PDX w = PDX va"
      using us va w user_PDX [OF w(1)] user_PDX [OF va(1)] unfolding uspace_def by blast
    then show ?thesis using PPN_eq_iff [of w va] unfolding upte_def ue by (auto simp: s'_def)
  qed
  show "utrans s' dir w = utrans s dir w" if w: "w < USER_TOP" "PPN w \<noteq> PPN va"
    using utrans_eq [OF us w(1)] utrans_eq [OF us' w(1)] other [OF w(1)] w(2) by (auto simp: ue)
qed

section \<open>Reference counts and the free list\<close>

text \<open>A frame that can go back to the free list when its last reference goes.\<close>

definition user_frame :: "kstate \<Rightarrow> u32 \<Rightarrow> bool" where
  "user_frame s f \<longleftrightarrow> f < number_of_frames s \<and> \<not> kernel_frame s f \<and> virtualAddresses s f = 0
     \<and> f \<notin> set (free_frame_list s)"

lemma uspace_cong:
  assumes "phys s' = phys s" "phys_page_directory s' = phys_page_directory s"
    "virtualAddresses s' = virtualAddresses s"
  shows "uspace s' dir = uspace s dir" and "upde s' dir = upde s dir" and "upte s' dir = upte s dir"
    and "utrans s' dir = utrans s dir" and "kframe s' = kframe s"
proof -
  have k: "kpte s' = kpte s" using assms by (simp add: kpte_def [abs_def] ktab_def kdir_def)
  then show ue: "upde s' dir = upde s dir" using assms by (simp add: upde_def [abs_def] udir_def)
  then show "upte s' dir = upte s dir" using assms by (simp add: upte_def [abs_def])
  have ud: "udir s' dir = udir s dir" using k by (simp add: udir_def)
  then show "utrans s' dir = utrans s dir" using assms by (simp add: utrans_def [abs_def])
  show "uspace s' dir = uspace s dir" unfolding uspace_def ue k ud assms(3) ..
  show "kframe s' = kframe s" by (rule kframe_cong [OF assms(1,2)])
qed

lemma set_references_simps [simp]:
  "phys (set_references s f n) = phys s"
  "phys_page_directory (set_references s f n) = phys_page_directory s"
  "virtualAddresses (set_references s f n) = virtualAddresses s"
  "free_frame_list (set_references s f n) = free_frame_list s"
  "number_of_frames (set_references s f n) = number_of_frames s"
  "kernel_frame (set_references s f n) = kernel_frame s"
  "references (set_references s f n) g = (if g = f then n else references s g)"
  by (simp_all add: set_references_def references_def)

lemma kheap_inv_references [simp]: "kheap_inv (set_references s f n) = kheap_inv s"
proof -
  have "free_frames_inv (set_references s f n) = free_frames_inv s"
    by (auto simp: free_frames_inv_def set_references_def)
  then show ?thesis by (simp add: kheap_inv_def heap_mapped_def set_references_def)
qed

lemmas uspace_references [simp] =
  uspace_cong [of "set_references s f n" s for s f n, OF set_references_simps(1-3)]

lemma free_frame_simps [simp]:
  "phys (free_frame s f) = phys s" "phys_page_directory (free_frame s f) = phys_page_directory s"
  "virtualAddresses (free_frame s f) = virtualAddresses s"
  "free_frame_list (free_frame s f) = f # free_frame_list s"
  "number_of_frames (free_frame s f) = number_of_frames s"
  "kernel_frame (free_frame s f) = kernel_frame s"
  "references (free_frame s f) g = (if g = f then 0 else references s g)"
  by (simp_all add: free_frame_def initialize_frame_info_def references_def Let_def)

lemmas uspace_free [simp] =
  uspace_cong [of "free_frame s f" s for s f, OF free_frame_simps(1-3)]

lemma kheap_inv_free:
  assumes "kheap_inv s" and "user_frame s f"
  shows "kheap_inv (free_frame s f)"
proof -
  have "free_frames_inv (free_frame s f)"
    using assms unfolding free_frames_inv_def kheap_inv_def user_frame_def
    by (auto simp: free_frame_def initialize_frame_info_def Let_def)
  then show ?thesis
    using assms(1) by (simp add: kheap_inv_def heap_mapped_def free_frame_def initialize_frame_info_def Let_def)
qed

text \<open>decrement_references() on such a frame.\<close>

lemma decrement_user:
  assumes "kheap_inv s" and "user_frame s f"
  shows "kheap_inv (decrement_references s f)"
    and "references s f = 1 \<Longrightarrow> free_frame_list (decrement_references s f) = f # free_frame_list s"
    and "references s f \<noteq> 1 \<Longrightarrow> free_frame_list (decrement_references s f) = free_frame_list s"
    and "references (decrement_references s f) g = (if g = f then references s f - 1 else references s g)"
    and "phys (decrement_references s f) = phys s"
    and "phys_page_directory (decrement_references s f) = phys_page_directory s"
    and "virtualAddresses (decrement_references s f) = virtualAddresses s"
    and "number_of_frames (decrement_references s f) = number_of_frames s"
    and "kernel_frame (decrement_references s f) = kernel_frame s"
proof -
  have u: "user_frame (set_references s f n) f" for n using assms(2) by (simp add: user_frame_def)
  show "kheap_inv (decrement_references s f)"
    using kheap_inv_free [OF _ u] assms(1) by (simp add: decrement_references_def Let_def)
qed (simp_all add: decrement_references_def Let_def)

section \<open>Mapping and unmapping\<close>

text \<open>What stays the same when one page of an environment changes.\<close>

definition same_but :: "kstate \<Rightarrow> kstate \<Rightarrow> u32 \<Rightarrow> u32 \<Rightarrow> bool" where
  "same_but s s' dir va \<longleftrightarrow> kheap_inv s' \<and> uspace s' dir
     \<and> (\<forall>w. w < USER_TOP \<and> PPN w \<noteq> PPN va \<longrightarrow> utrans s' dir w = utrans s dir w)
     \<and> (\<forall>w. KERNEL_BASE \<le> w \<longrightarrow> kframe s' w = kframe s w)"

lemma same_but_trans:
  "same_but s s1 dir va \<Longrightarrow> same_but s1 s2 dir va \<Longrightarrow> same_but s s2 dir va"
  by (simp add: same_but_def)

lemma present_neq_0: "e AND PERM_PRESENT = PERM_PRESENT \<Longrightarrow> e \<noteq> 0"
  by (auto simp: PERM_PRESENT_def)

text \<open>A translated page has a table and a present entry.\<close>

lemma utrans_Some:
  assumes "uspace s dir" and "va < USER_TOP" and "utrans s dir va = Some f"
  shows "upde s dir (PDX va) \<noteq> 0" and "upte s dir va AND PERM_PRESENT = PERM_PRESENT"
    and "PPN (upte s dir va) = f"
  using assms(3) utrans_eq [OF assms(1,2)] present_cases [of "upte s dir va"]
  by (auto split: if_splits)

lemma user_kload:
  assumes "kheap_inv s" and "uspace s dir" and "va < USER_TOP" and "upde s dir (PDX va) \<noteq> 0"
  shows "kload s (virtualAddresses s (PPN (upde s dir (PDX va)))) (PTX va) = Inr (upte s dir va)"
  using user_get_page_table(2) [OF assms] by (simp add: kload_Inr upte_def)

lemma user_get_frame_info:
  assumes "kheap_inv s" and "uspace s dir" and "va < USER_TOP" and "utrans s dir va = Some f"
    and "f < number_of_frames s"
  shows "get_frame_info s dir va = Inr (Some f, virtualAddresses s (PPN (upde s dir (PDX va))))"
proof -
  note t = utrans_Some [OF assms(2-4)]
  have "to_frame_info s (EXTRACT_ADDRESS (upte s dir va)) = Inr f"
    using t(3) assms(5) by (simp add: to_frame_info_def PPN_EXTRACT not_le)
  then show ?thesis
    using user_get_page_table(1,4) [OF assms(1-3) t(1)] user_kload [OF assms(1-3) t(1)]
      present_neq_0 [OF t(2)]
    by (simp add: get_frame_info_def)
qed

lemma unmap_user_run:
  assumes inv: "kheap_inv s" and us: "uspace s dir" and va: "va < USER_TOP" "utrans s dir va = Some f"
    and f: "user_frame s f"
  shows "unmap_frame s dir va
    = Inr (phys_store (decrement_references s f) (PPN (upde s dir (PDX va))) (PTX va) 0)"
proof -
  let ?t = "PPN (upde s dir (PDX va))"
  note c = uspace_cong [OF decrement_user(5-7) [OF inv f]]
  have "kframe (decrement_references s f) (virtualAddresses s ?t) = Some ?t"
    using user_get_page_table(2) [OF inv us va(1) utrans_Some(1) [OF us va]] c(5) by simp
  then show ?thesis
    using user_get_frame_info [OF inv us va] f by (simp add: unmap_frame_def kstore_Inr user_frame_def)
qed

lemma unmap_user:
  assumes inv: "kheap_inv s" and us: "uspace s dir" and va: "va < USER_TOP" "utrans s dir va = Some f"
    and f: "user_frame s f"
  shows "\<exists>s'. unmap_frame s dir va = Inr s' \<and> utrans s' dir va = None \<and> upde s' dir = upde s dir
    \<and> virtualAddresses s' = virtualAddresses s \<and> number_of_frames s' = number_of_frames s
    \<and> same_but s s' dir va \<and> upte s' dir va = 0
    \<and> (\<forall>g. references s' g = (if g = f then references s f - 1 else references s g))
    \<and> free_frame_list s' = (if references s f = 1 then f # free_frame_list s else free_frame_list s)"
proof -
  let ?d = "decrement_references s f"
  let ?t = "PPN (upde s dir (PDX va))"
  note d = decrement_user [OF inv f]
  note c = uspace_cong [OF d(5-7)]
  note tr = utrans_Some [OF us va]
  have us1: "uspace ?d dir" and ne: "upde ?d dir (PDX va) \<noteq> 0" using us tr(1) c by simp_all
  note st = user_store [OF d(1) us1 va(1) ne, where e = 0]
  let ?s = "phys_store ?d ?t (PTX va) 0"
  have run: "unmap_frame s dir va = Inr ?s" by (rule unmap_user_run [OF inv us va f])
  have "same_but s ?s dir va"
    unfolding same_but_def using st c by simp
  moreover have "utrans ?s dir va = None"
    using utrans_eq [OF st(2) va(1)] st(3) c by simp
  moreover have "references ?s g = references ?d g" for g by (simp add: references_def)
  ultimately show ?thesis
    using run st(3,4) d(2-4,7,8) c(2) by (intro exI [of _ ?s]) simp
qed

text \<open>The write that installs a mapping, into a table that is present.\<close>

lemma install_user:
  assumes inv: "kheap_inv s" and us: "uspace s dir" and va: "va < USER_TOP" "upde s dir (PDX va) \<noteq> 0"
    and f: "f < number_of_frames s" and perm: "perm < 0x1000"
  defines "s1 \<equiv> set_references s f (references s f + 1)"
  shows "\<exists>s'. kstore s1 (virtualAddresses s (PPN (upde s dir (PDX va)))) (PTX va)
        (CONSTRUCT_ENTRY (to_physical_address f) (perm OR PERM_PRESENT)) = Inr s'
    \<and> utrans s' dir va = Some f \<and> same_but s s' dir va
    \<and> upte s' dir va = CONSTRUCT_ENTRY (push_bit 12 f) (perm OR PERM_PRESENT)
    \<and> (\<forall>g. references s' g = (if g = f then references s f + 1 else references s g))
    \<and> free_frame_list s' = free_frame_list s \<and> number_of_frames s' = number_of_frames s
    \<and> kernel_frame s' = kernel_frame s \<and> virtualAddresses s' = virtualAddresses s"
proof -
  let ?t = "PPN (upde s dir (PDX va))"
  let ?e = "CONSTRUCT_ENTRY (push_bit 12 f) (perm OR PERM_PRESENT)"
  let ?s = "phys_store s1 ?t (PTX va) ?e"
  have i1: "kheap_inv s1" "uspace s1 dir" "upde s1 dir (PDX va) \<noteq> 0"
    using inv us va by (simp_all add: s1_def)
  note st = user_store [OF i1(1,2) va(1) i1(3), where e = ?e]
  have eq: "upde s1 dir = upde s dir" "utrans s1 dir = utrans s dir" "kframe s1 = kframe s" by (simp_all add: s1_def)
  have run: "kstore s1 (virtualAddresses s ?t) (PTX va) (CONSTRUCT_ENTRY (to_physical_address f) (perm OR PERM_PRESENT)) = Inr ?s"
    using user_get_page_table(2) [OF inv us va] eq(3) by (simp add: kstore_Inr to_physical_address_def)
  have fb: "f < 0x100000" using inv f frame_bound by (auto simp: kheap_inv_def)
  have "utrans ?s dir va = Some f"
    using utrans_eq [OF st(2) va(1)] st(3,4) va(2) present_CONSTRUCT [of f perm]
      PPN_CONSTRUCT [OF fb perm_or_bound [OF perm]] by (simp add: eq PERM_PRESENT_def)
  moreover have "same_but s ?s dir va" unfolding same_but_def using st eq by simp
  moreover have "references ?s g = references s1 g" for g by (simp add: references_def)
  ultimately show ?thesis
    using run st(3,7) eq(1) by (intro exI [of _ ?s]) (simp add: s1_def)
qed

lemma map_user:
  assumes inv: "kheap_inv s" and us: "uspace s dir" and va: "va < USER_TOP" "upde s dir (PDX va) \<noteq> 0"
    and f: "f < number_of_frames s" and perm: "perm < 0x1000"
    and old: "\<And>g. utrans s dir va = Some g \<Longrightarrow> g \<noteq> f \<Longrightarrow> user_frame s g"
  shows "\<exists>s'. map_frame_body cpt s dir f va perm = Inr s' \<and> utrans s' dir va = Some f \<and> same_but s s' dir va
    \<and> references s' f = (if utrans s dir va = Some f then references s f else references s f + 1)
    \<and> free_frame_list s' = (case utrans s dir va of
         Some g \<Rightarrow> if g \<noteq> f \<and> references s g = 1 then g # free_frame_list s else free_frame_list s
       | None \<Rightarrow> free_frame_list s)"
proof -
  let ?pt = "virtualAddresses s (PPN (upde s dir (PDX va)))"
  let ?e = "CONSTRUCT_ENTRY (to_physical_address f) (perm OR PERM_PRESENT)"
  have head: "map_frame_body cpt s dir f va perm =
      (if upte s dir va AND PERM_PRESENT = PERM_PRESENT \<and> EXTRACT_ADDRESS (upte s dir va) = to_physical_address f
       then Inr s
       else rbind (if upte s dir va AND PERM_PRESENT = PERM_PRESENT then unmap_frame s dir va else Inr s) (\<lambda>s.
         kstore (set_references s f (references s f + 1)) ?pt (PTX va) ?e))"
    using user_get_page_table(1) [OF inv us va] user_kload [OF inv us va]
    by (simp add: map_frame_body_def Let_def TABLE_IN_MEMORY_def TABLE_NOT_EXIST_def)
  have fb: "f < 0x100000" using inv f frame_bound by (auto simp: kheap_inv_def)
  have addr: "EXTRACT_ADDRESS (upte s dir va) = to_physical_address f \<longleftrightarrow> PPN (upte s dir va) = f"
    using fb PPN_push_bit [of f] by (auto simp: EXTRACT_eq_push to_physical_address_def)
      (metis PPN_push_bit PPN_bound)
  show ?thesis
  proof (cases "utrans s dir va")
    case None
    then have np: "\<not> upte s dir va AND PERM_PRESENT = PERM_PRESENT"
      using utrans_eq [OF us va(1)] va(2) present_eq_0 by (auto split: if_splits)
    obtain s' where "kstore (set_references s f (references s f + 1)) ?pt (PTX va) ?e = Inr s'"
        "utrans s' dir va = Some f" "same_but s s' dir va" "references s' f = references s f + 1"
        "free_frame_list s' = free_frame_list s"
      using install_user [OF inv us va f perm] by auto
    then show ?thesis using None np by (simp add: head)
  next
    case (Some g)
    note t = utrans_Some [OF us va(1) Some]
    show ?thesis
    proof (cases "g = f")
      case True
      then show ?thesis using Some t inv us by (simp add: head addr same_but_def)
    next
      case False
      obtain s1 where s1: "unmap_frame s dir va = Inr s1" "upde s1 dir = upde s dir"
          "virtualAddresses s1 = virtualAddresses s" "number_of_frames s1 = number_of_frames s"
          "same_but s s1 dir va" "\<forall>h. references s1 h = (if h = g then references s g - 1 else references s h)"
          "free_frame_list s1 = (if references s g = 1 then g # free_frame_list s else free_frame_list s)"
        using unmap_user [OF inv us va(1) Some old [OF Some False]] by blast
      have i1: "kheap_inv s1" "uspace s1 dir" "upde s1 dir (PDX va) \<noteq> 0" "f < number_of_frames s1"
        using s1 va(2) f by (simp_all add: same_but_def)
      obtain s2 where s2: "kstore (set_references s1 f (references s1 f + 1)) ?pt (PTX va) ?e = Inr s2"
          "utrans s2 dir va = Some f" "same_but s1 s2 dir va" "references s2 f = references s1 f + 1"
          "free_frame_list s2 = free_frame_list s1"
        using install_user [OF i1(1,2) va(1) i1(3,4) perm] unfolding s1(2,3) by auto
      have "map_frame_body cpt s dir f va perm = Inr s2"
        using t False s1(1) s2(1) by (simp add: head addr)
      then show ?thesis
        using Some False s2(2,4,5) s1(6,7) same_but_trans [OF s1(5) s2(3)] by (intro exI [of _ s2]) simp
    qed
  qed
qed

section \<open>Creating a page table\<close>

lemma kheap_inv_fill:
  assumes inv: "kheap_inv s" and f: "\<not> kernel_frame s f"
  shows "kheap_inv (phys_fill s f pg)" and "KERNEL_BASE \<le> va \<Longrightarrow> kpte (phys_fill s f pg) va = kpte s va"
    and "kernel_frame (phys_fill s f pg) = kernel_frame s"
proof -
  let ?s = "phys_fill s f pg"
  have m: "kmap_inv s" using inv by (simp add: kheap_inv_def)
  have eq: "phys ?s g = phys s g" if "kernel_frame s g" for g using that f by auto
  note k = kmap_inv_other_frame [OF m eq]
  show p: "KERNEL_BASE \<le> va \<Longrightarrow> kpte ?s va = kpte s va" for va using k by simp
  show kf: "kernel_frame ?s = kernel_frame s" using k by simp
  have "free_frames_inv ?s" using inv by (simp add: free_frames_inv_def kf kheap_inv_def)
  moreover have "kmap_inv ?s" using k by simp
  ultimately show "kheap_inv ?s"
    using kheap_inv_transfer [OF inv _ kf p [OF heap_page_kernel]] by simp
qed

text \<open>Room on the kernel heap for one more page.\<close>

definition heap_room :: "kstate \<Rightarrow> bool" where
  "heap_room s \<longleftrightarrow> unat (firstFreeVAInKHeap s) + 4096 < unat KERNEL_HEAP_MAX
     \<and> free_frame_list s \<noteq> [] \<and> kheap_idx s < KHEAP_ENTRIES"

lemma pages_of_page: "pages_of PAGE_SIZE = 1"
  by (simp add: pages_of_def PAGE_SIZE_def)

text \<open>One page from kmalloc().\<close>

lemma kmalloc_page_user:
  assumes inv: "kheap_inv s" and room: "heap_room s"
  defines "p \<equiv> firstFreeVAInKHeap s" and "t \<equiv> hd (free_frame_list s)"
  shows "\<exists>s'. kmalloc s PAGE_SIZE = Inr (p, s') \<and> kheap_inv s' \<and> heap_only s s'
    \<and> free_frame_list s' = tl (free_frame_list s) \<and> heap_page p \<and> heap_mapped s' p t \<and> references s' t = 1
    \<and> virtualAddresses s' t = p \<and> \<not> kernel_frame s t \<and> virtualAddresses s t = 0 \<and> t < number_of_frames s
    \<and> (\<forall>w. KERNEL_BASE \<le> w \<and> w < p \<longrightarrow> kpte s' w = kpte s w)
    \<and> (\<forall>f. f \<noteq> t \<longrightarrow> frames_info s' f = frames_info s f \<and> virtualAddresses s' f = virtualAddresses s f)
    \<and> kheap_idx s' = kheap_idx s + 1 \<and> firstFreeVAInKHeap s' = p + PAGE_SIZE"
proof -
  obtain fs where fl: "free_frame_list s = t # fs" using room by (cases "free_frame_list s") (auto simp: heap_room_def t_def)
  obtain s1 where g: "grown 1 s s1" and km: "kmalloc s PAGE_SIZE = Inr (p,
     s1\<lparr>allocatedHAddresses := (allocatedHAddresses s1)(kheap_idx s1 :=
          \<lparr>kh_size = 1, kh_virtualAddress = p, kh_empty = 0\<rparr>), kheap_idx := kheap_idx s1 + 1\<rparr>)"
    using kmalloc_grown [OF inv, of PAGE_SIZE] room unfolding pages_of_page heap_room_def p_def
    by (auto simp: Suc_le_eq)
  let ?s = "s1\<lparr>allocatedHAddresses := (allocatedHAddresses s1)(kheap_idx s1 :=
          \<lparr>kh_size = 1, kh_virtualAddress = p, kh_empty = 0\<rparr>), kheap_idx := kheap_idx s1 + 1\<rparr>"
  have hp: "heap_page p" using inv by (simp add: kheap_inv_def p_def)
  have t: "\<not> kernel_frame s t" "virtualAddresses s t = 0" "t < number_of_frames s"
    using inv fl by (auto simp: kheap_inv_def free_frames_inv_def)
  have hm: "heap_mapped ?s p t" "references ?s t = 1"
    using g fl by (simp_all add: grown_def p_def heap_mapped_def references_def)
  have i1: "kheap_inv ?s" using g by (simp add: grown_def)
  have "virtualAddresses ?s t = p"
    using heap_translation(3) [OF i1 hp hm(1)] t(3) frame_bound [of s t] inv
    by (simp add: kheap_virtual_address_PPN to_physical_address_def PPN_push_bit kheap_inv_def)
  then show ?thesis
    using km i1 hp hm t g fl
    by (intro exI [of _ ?s]) (simp add: grown_def p_def heap_only_def)
qed

text \<open>The directory entry create_page_table() writes for a table in frame \<open>t\<close>.\<close>

definition table_entry :: "u32 \<Rightarrow> u32" where
  "table_entry t = (push_bit 12 t AND 0xFFFFF000) OR PERM_USER OR PERM_WRITEABLE OR PERM_PRESENT"

lemma table_entry_facts:
  assumes "t < 0x100000"
  shows "PPN (table_entry t) = t" and "table_entry t AND PERM_PRESENT = PERM_PRESENT"
    and "table_entry t \<noteq> 0"
proof -
  have m: "(0xFFFFF000 :: u32) = NOT (mask 12)" by (simp add: mask_eq_exp_minus_1)
  have "push_bit 12 t AND 0xFFFFF000 = push_bit 12 t"
    unfolding m by (rule bit_eqI) (auto simp: bit_simps)
  then have e: "table_entry t = CONSTRUCT_ENTRY (push_bit 12 t) (PERM_USER OR PERM_WRITEABLE OR PERM_PRESENT)"
    by (simp add: table_entry_def CONSTRUCT_ENTRY_def or.assoc)
  show "PPN (table_entry t) = t"
    unfolding e using assms by (intro PPN_CONSTRUCT) (simp_all add: fos_consts)
  show p: "table_entry t AND PERM_PRESENT = PERM_PRESENT"
    unfolding e using present_CONSTRUCT [of t "PERM_USER OR PERM_WRITEABLE"] by (simp add: or.assoc)
  show "table_entry t \<noteq> 0" using p by (auto simp: PERM_PRESENT_def)
qed

text \<open>The state after the new table has been cleared and entered in the directory.\<close>

definition table_added :: "kstate \<Rightarrow> u32 \<Rightarrow> u32 \<Rightarrow> u32 \<Rightarrow> kstate" where
  "table_added s d i t = phys_store (phys_fill s t (\<lambda>_. 0)) d i (table_entry t)"

lemma table_added_space:
  assumes inv: "kheap_inv s" and us: "uspace s dir" and i: "upde s dir i = 0"
    and t: "virtualAddresses s t \<noteq> 0" "t \<noteq> udir s dir" "t < 0x100000"
    and new': "\<forall>j. user_index j \<and> upde s dir j \<noteq> 0 \<longrightarrow> PPN (upde s dir j) \<noteq> t"
  defines "s' \<equiv> table_added s (udir s dir) i t"
  shows "kheap_inv s'" and "uspace s' dir" and "upde s' dir = (upde s dir)(i := table_entry t)"
    and "w < USER_TOP \<Longrightarrow> utrans s' dir w = utrans s dir w"
    and "KERNEL_BASE \<le> w \<Longrightarrow> kpte s' w = kpte s w" and "phys s' t = (\<lambda>_. 0)"
    and "kernel_frame s' = kernel_frame s"
proof -
  let ?d = "udir s dir" and ?s1 = "phys_fill s t (\<lambda>_. 0)"
  have new: "\<And>j. user_index j \<Longrightarrow> upde s dir j \<noteq> 0 \<Longrightarrow> PPN (upde s dir j) \<noteq> t" using new' by blast
  note d = uspace_dir [OF inv us] and nt = heap_frame_mapped(2) [OF inv t(1)]
  note nd = heap_frame_mapped(2) [OF inv d(3)]
  note fl = kheap_inv_fill [OF inv nt, where pg = "\<lambda>_. 0"]
  have nd1: "\<not> kernel_frame ?s1 ?d" using nd by (simp add: fl(3))
  note st = kheap_inv_store [OF fl(1) nd1, where i = i and v = "table_entry t", folded table_added_def, folded s'_def]
  show "kheap_inv s'" by (rule st(1))
  show "kernel_frame s' = kernel_frame s" using st(3) fl(3) by simp
  show kp: "KERNEL_BASE \<le> w \<Longrightarrow> kpte s' w = kpte s w" for w using st(2) fl(2) by simp
  have kd: "KERNEL_BASE \<le> dir" using us by (simp add: uspace_def heap_page_kernel)
  have ud: "udir s' dir = ?d" using kp [OF kd] by (simp add: udir_def)
  have ph: "phys s' = (phys s)(t := (\<lambda>_. 0), ?d := (phys s ?d)(i := table_entry t))"
    using t(2) by (simp add: s'_def table_added_def)
  show z: "phys s' t = (\<lambda>_. 0)" using t(2) by (simp add: ph)
  show ue: "upde s' dir = (upde s dir)(i := table_entry t)" by (simp add: upde_def [abs_def] ud ph)
  have v: "virtualAddresses s' = virtualAddresses s" by (simp add: s'_def table_added_def)
  note te = table_entry_facts [OF t(3)]
  have old: "upde s dir j AND PERM_PRESENT = PERM_PRESENT" "virtualAddresses s (PPN (upde s dir j)) \<noteq> 0"
      "PPN (upde s dir j) \<noteq> ?d" if "user_index j" "upde s dir j \<noteq> 0" for j
    using us that unfolding uspace_def by blast+
  have inj: "j = k" if "user_index j" "user_index k" "upde s dir j \<noteq> 0" "upde s dir k \<noteq> 0"
      "PPN (upde s dir j) = PPN (upde s dir k)" for j k
    using us that unfolding uspace_def by blast
  show us': "uspace s' dir"
    unfolding uspace_def ud v kp [OF kd] ue
  proof (intro conjI allI impI)
    show "heap_page dir" "kpte s dir \<noteq> 0" using us by (simp_all add: uspace_def)
  next
    fix j assume j: "user_index j \<and> ((upde s dir)(i := table_entry t)) j \<noteq> 0"
    show "((upde s dir)(i := table_entry t)) j AND PERM_PRESENT = PERM_PRESENT"
      "virtualAddresses s (PPN (((upde s dir)(i := table_entry t)) j)) \<noteq> 0"
      "PPN (((upde s dir)(i := table_entry t)) j) \<noteq> ?d"
      using j old [of j] te t(1,2) by (cases "j = i"; simp)+
  next
    fix j k assume jk: "user_index j \<and> user_index k \<and> ((upde s dir)(i := table_entry t)) j \<noteq> 0
      \<and> ((upde s dir)(i := table_entry t)) k \<noteq> 0
      \<and> PPN (((upde s dir)(i := table_entry t)) j) = PPN (((upde s dir)(i := table_entry t)) k)"
    show "j = k"
      using jk inj [of j k] new [of j] new [of k] te(1) by (cases "j = i"; cases "k = i") simp_all
  qed
  show "utrans s' dir w = utrans s dir w" if w: "w < USER_TOP"
  proof (cases "PDX w = i")
    case True
    then show ?thesis using utrans_eq [OF us w] utrans_eq [OF us' w] i
      by (simp add: ue te upte_def z)
  next
    case False
    have "upte s' dir w = upte s dir w" if ne: "upde s dir (PDX w) \<noteq> 0"
      using new [OF user_PDX [OF w] ne] uspace_present(3) [OF us w ne] False
      unfolding upte_def ue by (simp add: ph)
    then show ?thesis using utrans_eq [OF us w] utrans_eq [OF us' w] False by (auto simp: ue)
  qed
qed

text \<open>A page mapped below the first unused heap address.\<close>

lemma mapped_below_free:
  assumes "kheap_inv s" and "heap_page va" and "kpte s va \<noteq> 0"
  shows "va < firstFreeVAInKHeap s"
  using assms unfolding kheap_inv_def by (meson not_le)

text \<open>An address space survives the growth of the kernel heap.\<close>

lemma uspace_heap_only:
  assumes inv: "kheap_inv s" and us: "uspace s dir" and ho: "heap_only s s'"
    and kp: "kpte s' dir = kpte s dir"
    and va: "\<forall>f. virtualAddresses s f \<noteq> 0 \<longrightarrow> virtualAddresses s' f = virtualAddresses s f"
  shows "uspace s' dir" and "udir s' dir = udir s dir" and "upde s' dir = upde s dir"
    and "w < USER_TOP \<Longrightarrow> utrans s' dir w = utrans s dir w"
proof -
  show ud: "udir s' dir = udir s dir" using kp by (simp add: udir_def)
  have ph: "phys s' f = phys s f" if "virtualAddresses s f \<noteq> 0" for f
    using ho heap_frame_mapped(2) [OF inv that] by (simp add: heap_only_def)
  show ue: "upde s' dir = upde s dir"
    using ph [OF uspace_dir(3) [OF inv us]] by (simp add: upde_def [abs_def] ud)
  show us': "uspace s' dir"
    using us va unfolding uspace_def ue ud kp by metis
  show "utrans s' dir w = utrans s dir w" if w: "w < USER_TOP"
  proof -
    have "upte s' dir w = upte s dir w" if "upde s dir (PDX w) \<noteq> 0"
      using ph [OF uspace_present(2) [OF us w that]] by (simp add: upte_def ue)
    then show ?thesis using utrans_eq [OF us w] utrans_eq [OF us' w] by (auto simp: ue)
  qed
qed

lemma create_table_user:
  assumes inv: "kheap_inv s" and us: "uspace s dir" and va: "va < USER_TOP" "upde s dir (PDX va) = 0"
    and room: "heap_room s"
  shows "\<exists>p s'. create_page_table s dir va = Inr (p, s') \<and> kheap_inv s' \<and> uspace s' dir
    \<and> upde s' dir (PDX va) \<noteq> 0 \<and> p = virtualAddresses s' (PPN (upde s' dir (PDX va))) \<and> upte s' dir va = 0
    \<and> (\<forall>w. w < USER_TOP \<longrightarrow> utrans s' dir w = utrans s dir w)
    \<and> (\<forall>w. KERNEL_BASE \<le> w \<and> w < firstFreeVAInKHeap s \<longrightarrow> kframe s' w = kframe s w)
    \<and> free_frame_list s' = tl (free_frame_list s) \<and> number_of_frames s' = number_of_frames s
    \<and> kernel_frame s' = kernel_frame s
    \<and> (\<forall>f. f \<noteq> hd (free_frame_list s) \<longrightarrow> references s' f = references s f
         \<and> virtualAddresses s' f = virtualAddresses s f)"
proof -
  let ?p = "firstFreeVAInKHeap s" and ?t = "hd (free_frame_list s)"
  obtain s1 where k: "kmalloc s PAGE_SIZE = Inr (?p, s1)" "kheap_inv s1" "heap_only s s1"
      "free_frame_list s1 = tl (free_frame_list s)" "heap_page ?p" "heap_mapped s1 ?p ?t"
      "virtualAddresses s1 ?t = ?p" "virtualAddresses s ?t = 0" "?t < number_of_frames s"
      "\<forall>w. KERNEL_BASE \<le> w \<and> w < ?p \<longrightarrow> kpte s1 w = kpte s w"
      "\<forall>f. f \<noteq> ?t \<longrightarrow> frames_info s1 f = frames_info s f \<and> virtualAddresses s1 f = virtualAddresses s f"
    using kmalloc_page_user [OF inv room] by blast
  have dir: "heap_page dir" "kpte s dir \<noteq> 0" using us by (simp_all add: uspace_def)
  have kpd: "kpte s1 dir = kpte s dir"
    using k(10) mapped_below_free [OF inv dir] heap_page_kernel [OF dir(1)] by blast
  have vas: "\<forall>f. virtualAddresses s f \<noteq> 0 \<longrightarrow> virtualAddresses s1 f = virtualAddresses s f"
    using k(8,11) by metis
  note u1 = uspace_heap_only [OF inv us k(3) kpd vas]
  have tb: "?t < 0x100000" using k(9) inv frame_bound by (auto simp: kheap_inv_def)
  have v1: "virtualAddresses s1 ?t \<noteq> 0" using k(5,7) heap_page_neq_0 by simp
  have tud: "?t \<noteq> udir s1 dir" using uspace_dir(3) [OF inv us] k(8) by (metis u1(2))
  have "virtualAddresses s (PPN (upde s dir j)) \<noteq> 0" if "user_index j" "upde s dir j \<noteq> 0" for j
    using us that unfolding uspace_def by blast
  then have new: "\<forall>j. user_index j \<and> upde s1 dir j \<noteq> 0 \<longrightarrow> PPN (upde s1 dir j) \<noteq> ?t"
    using k(8) unfolding u1(3) by metis
  have i0: "upde s1 dir (PDX va) = 0" using va(2) by (simp add: u1(3))
  note ta = table_added_space [OF k(2) u1(1) i0 v1 tud tb new]
  let ?s = "table_added s1 (udir s1 dir) (PDX va) ?t"
  have kfp: "kframe s1 ?p = Some ?t" and pa: "kheap_physical_address s1 ?p = Inr (push_bit 12 ?t)"
    using heap_translation(1,2) [OF k(2,5,6)] by (simp_all add: to_physical_address_def)
  have dirk: "KERNEL_BASE \<le> dir" by (rule heap_page_kernel [OF dir(1)])
  have kfd: "kframe (phys_fill s1 ?t (\<lambda>_. 0)) dir = Some (udir s1 dir)"
  proof -
    note fl = kheap_inv_fill [OF k(2) heap_frame_mapped(2) [OF k(2) v1], where pg = "\<lambda>_. 0"]
    have "kframe (phys_fill s1 ?t (\<lambda>_. 0)) dir = kframe s1 dir"
      using kframe_kernel [of _ dir] dirk fl(1,2) k(2) by (simp add: kheap_inv_def)
    then show ?thesis using uspace_dir(1) [OF k(2) u1(1)] by simp
  qed
  have run: "create_page_table s dir va = Inr (?p, ?s)"
    using k(1) pa heap_page_neq_0 [OF k(5)] kfill_Inr [OF kfp] kstore_Inr [OF kfd]
    by (simp add: create_page_table_def table_added_def table_entry_def)
  note te = table_entry_facts [OF tb]
  have ue: "upde ?s dir (PDX va) = table_entry ?t" using ta(3) by simp
  have vs: "virtualAddresses ?s = virtualAddresses s1" by (simp add: table_added_def)
  have "kframe ?s w = kframe s w" if "KERNEL_BASE \<le> w" "w < ?p" for w
    using kframe_kernel [of _ w] that ta(1) ta(5) [OF that(1)] k(10) inv by (simp add: kheap_inv_def)
  moreover have "utrans ?s dir w = utrans s dir w" if "w < USER_TOP" for w
    using ta(4) [OF that] u1(4) [OF that] by simp
  moreover have "references ?s f = references s f \<and> virtualAddresses ?s f = virtualAddresses s f"
    if "f \<noteq> ?t" for f
    using k(11) that by (simp add: references_def table_added_def)
  moreover have "kernel_frame ?s = kernel_frame s" using ta(7) k(3) by (simp add: heap_only_def)
  moreover have "upte ?s dir va = 0" unfolding upte_def ue te(1) ta(6) ..
  moreover have "free_frame_list ?s = tl (free_frame_list s)" "number_of_frames ?s = number_of_frames s"
    using k(3,4) by (simp_all add: table_added_def heap_only_def)
  ultimately show ?thesis
    using run ta(1,2) te k(7) ue vs by (intro exI [of _ ?p] exI [of _ ?s]) simp
qed

lemma map_user_new_table:
  assumes inv: "kheap_inv s" and us: "uspace s dir" and va: "va < USER_TOP" "upde s dir (PDX va) = 0"
    and f: "f < number_of_frames s" "f \<notin> set (free_frame_list s)" and perm: "perm < 0x1000"
    and room: "heap_room s"
  shows "\<exists>s'. map_frame s dir f va perm = Inr s' \<and> utrans s' dir va = Some f \<and> kheap_inv s' \<and> uspace s' dir
    \<and> (\<forall>w. w < USER_TOP \<and> PPN w \<noteq> PPN va \<longrightarrow> utrans s' dir w = utrans s dir w)
    \<and> (\<forall>w. KERNEL_BASE \<le> w \<and> w < firstFreeVAInKHeap s \<longrightarrow> kframe s' w = kframe s w)
    \<and> references s' f = references s f + 1 \<and> free_frame_list s' = tl (free_frame_list s)
    \<and> (\<forall>g. user_frame s g \<longrightarrow> user_frame s' g)"
proof -
  obtain p s1 where c: "create_page_table s dir va = Inr (p, s1)" "kheap_inv s1" "uspace s1 dir"
      "upde s1 dir (PDX va) \<noteq> 0" "p = virtualAddresses s1 (PPN (upde s1 dir (PDX va)))" "upte s1 dir va = 0"
      "\<forall>w. w < USER_TOP \<longrightarrow> utrans s1 dir w = utrans s dir w"
      "\<forall>w. KERNEL_BASE \<le> w \<and> w < firstFreeVAInKHeap s \<longrightarrow> kframe s1 w = kframe s w"
      "free_frame_list s1 = tl (free_frame_list s)" "number_of_frames s1 = number_of_frames s"
      "\<forall>f. f \<noteq> hd (free_frame_list s) \<longrightarrow> references s1 f = references s f
         \<and> virtualAddresses s1 f = virtualAddresses s f" "kernel_frame s1 = kernel_frame s"
    using create_table_user [OF inv us va room] by blast
  have "f \<noteq> hd (free_frame_list s)" using f(2) room by (auto simp: heap_room_def)
  then have rf: "references s1 f = references s f" using c(11) by blast
  have fn: "f < number_of_frames s1" using f(1) c(10) by simp
  obtain s2 where s2: "kstore (set_references s1 f (references s1 f + 1)) p (PTX va)
        (CONSTRUCT_ENTRY (to_physical_address f) (perm OR PERM_PRESENT)) = Inr s2"
      "utrans s2 dir va = Some f" "same_but s1 s2 dir va" "references s2 f = references s1 f + 1"
      "free_frame_list s2 = free_frame_list s1" "number_of_frames s2 = number_of_frames s1"
      "kernel_frame s2 = kernel_frame s1" "virtualAddresses s2 = virtualAddresses s1"
    using install_user [OF c(2,3) va(1) c(4) fn perm] unfolding c(5) by auto
  have kl: "kload s1 p (PTX va) = Inr 0" using user_kload [OF c(2,3) va(1) c(4)] c(5,6) by simp
  have "kload s dir (PDX va) = Inr 0"
    using uspace_dir(1) [OF inv us] va(2) by (simp add: kload_Inr upde_def)
  then have "get_page_table s dir va = Inr (TABLE_NOT_EXIST, 0)"
    using user_not_kernel [OF va(1)] by (simp add: get_page_table_def table_pointer_def PERM_PRESENT_def)
  then have "map_frame s dir f va perm = Inr s2"
    using c(1) kl s2(1) by (simp add: map_frame_def map_frame_body_def Let_def PERM_PRESENT_def)
  moreover have "user_frame s2 g" if g: "user_frame s g" for g
  proof -
    have "g \<noteq> hd (free_frame_list s)" "g \<notin> set (tl (free_frame_list s))"
      using g room by (cases "free_frame_list s"; auto simp: user_frame_def heap_room_def)+
    then show ?thesis using g c(9-12) s2(5-8) by (simp add: user_frame_def)
  qed
  ultimately show ?thesis
    using s2(2-5) c(7-9) rf by (intro exI [of _ s2]) (simp add: same_but_def)
qed

text \<open>A concrete address space: an empty directory on the kernel heap of the sample state.\<close>

lemma sample_space:
  "\<exists>s. kmalloc sample_state PAGE_SIZE = Inr (0xF6000000, s) \<and> kheap_inv s \<and> uspace s 0xF6000000
     \<and> heap_room s \<and> free_frame_list s = [101, 102] \<and> number_of_frames s = 400
     \<and> user_frame s 150 \<and> references s 150 = 0
     \<and> (\<forall>va. va < USER_TOP \<longrightarrow> upde s 0xF6000000 (PDX va) = 0)
     \<and> user_frame s 2 \<and> kframe s 0xF0002000 = Some 2 \<and> firstFreeVAInKHeap s = 0xF6001000
     \<and> user_frame s 1 \<and> kframe s 0xF0001000 = Some 1"
proof -
  have room: "heap_room sample_state"
    by (simp add: heap_room_def KHEAP_ENTRIES_def fos_consts)
  from kmalloc_page_user [OF sample_kheap_inv room] obtain s where
    k: "kmalloc sample_state PAGE_SIZE = Inr (0xF6000000, s)" "kheap_inv s" "heap_only sample_state s"
      "free_frame_list s = [101, 102]" "heap_page 0xF6000000" "heap_mapped s 0xF6000000 100"
      "kheap_idx s = 1" "firstFreeVAInKHeap s = 0xF6000000 + PAGE_SIZE"
      "virtualAddresses s 150 = 0" "references s 150 = 0" "virtualAddresses s 2 = 0"
      "kpte s (static_va 2) = kpte sample_state (static_va 2)" "virtualAddresses s 1 = 0"
      "kpte s (static_va 1) = kpte sample_state (static_va 1)"
    by (auto simp: references_def static_va_def KERNEL_BASE_def)
  have "kframe sample_state (static_va 2) = Some 2" using sample_static(4) [of 2] by (simp add: static_mapped_def)
  then have two: "kframe s 0xF0002000 = Some 2"
    using k(2,12) sample_kmap_inv kframe_kernel [of s "static_va 2"] kframe_kernel [of sample_state "static_va 2"]
    by (simp add: kheap_inv_def static_va_def KERNEL_BASE_def)
  have "kframe sample_state (static_va 1) = Some 1" using sample_static(4) [of 1] by (simp add: static_mapped_def)
  then have one: "kframe s 0xF0001000 = Some 1"
    using k(2,14) sample_kmap_inv kframe_kernel [of s "static_va 1"] kframe_kernel [of sample_state "static_va 1"]
    by (simp add: kheap_inv_def static_va_def KERNEL_BASE_def)
  have kf2: "\<not> kernel_frame sample_state 2" "\<not> kernel_frame sample_state 1"
    using sample_index by (auto simp: kernel_frame_def sample_ktab kernel_index_def word_le_nat_alt)
  have f: "PPN (kpte s 0xF6000000) = 100" "kpte s 0xF6000000 \<noteq> 0"
    using k(6) by (auto simp: heap_mapped_def PERM_PRESENT_def)
  have "\<not> kernel_frame sample_state 100" by (rule sample_not_kernel_frame) simp
  then have "phys s 100 = sample_memory 100" using k(3) by (simp add: heap_only_def)
  then have ue: "upde s 0xF6000000 = (\<lambda>_. 0)"
    by (simp add: upde_def [abs_def] udir_def f fun_eq_iff sample_memory_def)
  then have "uspace s 0xF6000000" using k(5) f by (simp add: uspace_def)
  moreover have "\<not> kernel_frame sample_state 150" by (rule sample_not_kernel_frame) simp
  ultimately show ?thesis
    using k ue two one kf2 by (simp add: heap_room_def KHEAP_ENTRIES_def fos_consts heap_only_def user_frame_def)
qed

section \<open>Properties\<close>

text \<open>
  C2. map_frame() on an environment's directory makes exactly the page of the given address
  translate to the frame and adds one reference (none if the frame was mapped there already); it
  creates the page table on the kernel heap if there is none, gives up the frame that was mapped
  there before, and changes neither the translation of any other user page nor that of any kernel
  address in use.
\<close>

theorem map_frame_maps:
  assumes "kheap_inv s" and "uspace s dir" and "va < USER_TOP" and "f < number_of_frames s"
    and "f \<notin> set (free_frame_list s)" and "perm < 0x1000"
    and "upde s dir (PDX va) \<noteq> 0 \<or> heap_room s"
    and "\<forall>g. utrans s dir va = Some g \<and> g \<noteq> f \<longrightarrow> user_frame s g"
  shows "\<exists>s'. map_frame s dir f va perm = Inr s' \<and> utrans s' dir va = Some f \<and> kheap_inv s' \<and> uspace s' dir
    \<and> (\<forall>w. w < USER_TOP \<and> PPN w \<noteq> PPN va \<longrightarrow> utrans s' dir w = utrans s dir w)
    \<and> (\<forall>w. KERNEL_BASE \<le> w \<and> w < firstFreeVAInKHeap s \<longrightarrow> kframe s' w = kframe s w)
    \<and> references s' f = (if utrans s dir va = Some f then references s f else references s f + 1)"
proof (cases "upde s dir (PDX va) = 0")
  case True
  then have "utrans s dir va = None" using utrans_eq [OF assms(2,3)] by simp
  then show ?thesis
    using map_user_new_table [OF assms(1-3) True assms(4-6)] assms(7) True by auto
next
  case False
  from map_user [OF assms(1-3) False assms(4,6), of create_page_table] assms(8) obtain s' where
    "map_frame_body create_page_table s dir f va perm = Inr s'" "utrans s' dir va = Some f" "same_but s s' dir va"
    "references s' f = (if utrans s dir va = Some f then references s f else references s f + 1)" by blast
  then show ?thesis by (intro exI [of _ s']) (simp add: map_frame_def same_but_def)
qed

theorem map_frame_maps_witness:
  "\<exists>s s'. kmalloc sample_state PAGE_SIZE = Inr (0xF6000000, s)
     \<and> map_frame s 0xF6000000 150 0x80000000 6 = Inr s'
     \<and> utrans s' 0xF6000000 0x80000000 = Some 150 \<and> references s' 150 = references s 150 + 1"
proof -
  obtain s where s: "kmalloc sample_state PAGE_SIZE = Inr (0xF6000000, s)" "kheap_inv s" "uspace s 0xF6000000"
    "heap_room s" "free_frame_list s = [101, 102]" "number_of_frames s = 400"
    "\<forall>va. va < USER_TOP \<longrightarrow> upde s 0xF6000000 (PDX va) = 0" using sample_space by blast
  have lt: "(0x80000000 :: u32) < USER_TOP" by (simp add: fos_consts)
  then have "utrans s 0xF6000000 0x80000000 = None" using utrans_eq [OF s(3) lt] s(7) by simp
  then show ?thesis
    using map_frame_maps [OF s(2,3) lt, of 150 6] s(1,4-6) by (auto simp: s)
qed

text \<open>
  C36. unmap_frame() on an environment's directory makes exactly the page of the given address
  untranslated, drops one reference of its frame, and puts the frame on the free list exactly when
  that was the last one.
\<close>

theorem unmap_frame_unmaps:
  assumes "kheap_inv s" and "uspace s dir" and "va < USER_TOP" and "utrans s dir va = Some f"
    and "user_frame s f"
  shows "\<exists>s'. unmap_frame s dir va = Inr s' \<and> utrans s' dir va = None \<and> kheap_inv s' \<and> uspace s' dir
    \<and> (\<forall>w. w < USER_TOP \<and> PPN w \<noteq> PPN va \<longrightarrow> utrans s' dir w = utrans s dir w)
    \<and> (\<forall>w. KERNEL_BASE \<le> w \<longrightarrow> kframe s' w = kframe s w)
    \<and> references s' f = references s f - 1
    \<and> free_frame_list s' = (if references s f = 1 then f # free_frame_list s else free_frame_list s)"
  using unmap_user [OF assms] unfolding same_but_def by auto

text \<open>A state in which page 0x80000000 of the sample address space is mapped to frame 150.\<close>

lemma sample_mapped:
  "\<exists>s. kheap_inv s \<and> uspace s 0xF6000000 \<and> utrans s 0xF6000000 0x80000000 = Some 150
     \<and> user_frame s 150 \<and> references s 150 = 1 \<and> free_frame_list s = [102]
     \<and> user_frame s 2 \<and> kframe s 0xF0002000 = Some 2 \<and> utrans s 0xF6000000 0x80200000 = None
     \<and> user_frame s 1 \<and> kframe s 0xF0001000 = Some 1"
proof -
  let ?dir = "0xF6000000 :: u32" and ?va = "0x80000000 :: u32"
  obtain s where s: "kheap_inv s" "uspace s ?dir" "heap_room s" "free_frame_list s = [101, 102]"
    "number_of_frames s = 400" "user_frame s 150" "references s 150 = 0"
    "\<forall>va. va < USER_TOP \<longrightarrow> upde s ?dir (PDX va) = 0" "user_frame s 2" "kframe s 0xF0002000 = Some 2"
    "firstFreeVAInKHeap s = 0xF6001000" "user_frame s 1" "kframe s 0xF0001000 = Some 1" using sample_space by blast
  have lt: "?va < USER_TOP" "(0x80200000 :: u32) < USER_TOP" by (simp_all add: fos_consts)
  have z: "upde s ?dir (PDX ?va) = 0" using s(8) lt by blast
  have n: "utrans s ?dir 0x80200000 = None" using utrans_eq [OF s(2) lt(2)] s(8) lt(2) by simp
  have p: "PPN 0x80200000 \<noteq> PPN ?va" "KERNEL_BASE \<le> 0xF0002000" "KERNEL_BASE \<le> 0xF0001000" by (simp_all add: PPN_def KERNEL_BASE_def)
  show ?thesis
    using map_user_new_table [OF s(1,2) lt(1) z, of 150 6] s(3-7,9-13) n lt(2) p by auto
qed

theorem unmap_frame_unmaps_witness:
  "\<exists>s s'. utrans s 0xF6000000 0x80000000 = Some 150 \<and> unmap_frame s 0xF6000000 0x80000000 = Inr s'
     \<and> utrans s' 0xF6000000 0x80000000 = None \<and> free_frame_list s' = 150 # free_frame_list s"
proof -
  obtain s where s: "kheap_inv s" "uspace s 0xF6000000" "utrans s 0xF6000000 0x80000000 = Some 150"
    "user_frame s 150" "references s 150 = 1" using sample_mapped by blast
  have lt: "(0x80000000 :: u32) < USER_TOP" by (simp add: fos_consts)
  show ?thesis using unmap_frame_unmaps [OF s(1,2) lt s(3,4)] s(3,5) by auto
qed

end
