(* ===== verification/FOS_Replace.thy ===== *)
theory FOS_Replace
  imports FOS_Fault FOS_UserMap
begin

text \<open>
  Correctness of page replacement: the working-set operations, the victim that LRU and CLOCK choose,
  and the search for an empty entry.
\<close>

section \<open>Working sets\<close>

text \<open>The array has page_WS_max_size entries, and the last index is inside it.\<close>

definition ws_wf :: "kstate \<Rightarrow> nat \<Rightarrow> bool" where
  "ws_wf s e \<longleftrightarrow> length (pageWorkingSet (envs s e)) = unat (page_WS_max_size (envs s e))
     \<and> page_last_WS_index (envs s e) < page_WS_max_size (envs s e)"

definition ws_size :: "kstate \<Rightarrow> nat \<Rightarrow> nat" where
  "ws_size s e = unat (page_WS_max_size (envs s e))"

definition ws_entry :: "kstate \<Rightarrow> nat \<Rightarrow> nat \<Rightarrow> WorkingSetElement" where
  "ws_entry s e i = pageWorkingSet (envs s e) ! i"

lemma ws_size_bound: "ws_size s e < 4294967296"
  by (simp add: ws_size_def unat_u32_less)

lemma ws_index:
  assumes "i < ws_size s e"
  shows "unat (of_nat i :: u32) = i" and "(of_nat i :: u32) < page_WS_max_size (envs s e)"
proof -
  have "i < 4294967296" using assms ws_size_bound [of s e] by linarith
  then show "unat (of_nat i :: u32) = i" by (simp add: unat_of_nat)
  then show "(of_nat i :: u32) < page_WS_max_size (envs s e)"
    using assms by (simp add: word_less_nat_alt ws_size_def)
qed

lemma ws_reads:
  assumes "ws_wf s e" and "i < ws_size s e"
  shows "env_page_ws_get_time_stamp s e (of_nat i) = Inr (ws_time_stamp (ws_entry s e i))"
    and "env_page_ws_get_virtual_address s e (of_nat i)
           = Inr (ROUNDDOWN (ws_virtual_address (ws_entry s e i)) PAGE_SIZE)"
    and "ws_read name (pageWorkingSet (envs s e)) (of_nat i) = Inr (ws_entry s e i)"
  using assms ws_index [OF assms(2)]
  by (simp_all add: env_page_ws_get_time_stamp_def env_page_ws_get_virtual_address_def ws_read_def
      ws_wf_def ws_size_def ws_entry_def)

section \<open>LRU\<close>

text \<open>
  Among the positions from \<open>i\<close> to \<open>n\<close>, the first with the least value below \<open>minTime\<close>, or the
  default when there is none.
\<close>

definition least_below :: "(nat \<Rightarrow> u32) \<Rightarrow> nat \<Rightarrow> nat \<Rightarrow> u32 \<Rightarrow> u32 \<Rightarrow> u32 \<Rightarrow> bool" where
  "least_below ts i n dflt minTime r \<longleftrightarrow>
     (r = dflt \<and> (\<forall>j. i \<le> j \<and> j < n \<longrightarrow> minTime \<le> ts j))
   \<or> (\<exists>k. r = of_nat k \<and> i \<le> k \<and> k < n \<and> ts k < minTime
        \<and> (\<forall>j. i \<le> j \<and> j < n \<longrightarrow> ts k \<le> ts j) \<and> (\<forall>j. i \<le> j \<and> j < k \<longrightarrow> ts k < ts j))"

lemma least_below_take:
  assumes "least_below ts (Suc i) n (of_nat i) (ts i) r" and "i < n" and "ts i < minTime"
  shows "least_below ts i n dflt minTime r"
proof -
  have from_i: "i \<le> j \<longleftrightarrow> j = i \<or> Suc i \<le> j" for j by auto
  from assms(1) show ?thesis unfolding least_below_def
  proof (elim disjE exE conjE)
    assume "r = of_nat i" "\<forall>j. Suc i \<le> j \<and> j < n \<longrightarrow> ts i \<le> ts j"
    then show "(r = dflt \<and> (\<forall>j. i \<le> j \<and> j < n \<longrightarrow> minTime \<le> ts j)) \<or>
      (\<exists>k. r = of_nat k \<and> i \<le> k \<and> k < n \<and> ts k < minTime
        \<and> (\<forall>j. i \<le> j \<and> j < n \<longrightarrow> ts k \<le> ts j) \<and> (\<forall>j. i \<le> j \<and> j < k \<longrightarrow> ts k < ts j))"
      using assms(2,3) by (intro disjI2 exI [of _ i]) (auto simp: from_i)
  next
    fix k assume "r = of_nat k" "Suc i \<le> k" "k < n" "ts k < ts i"
      "\<forall>j. Suc i \<le> j \<and> j < n \<longrightarrow> ts k \<le> ts j" "\<forall>j. Suc i \<le> j \<and> j < k \<longrightarrow> ts k < ts j"
    then show "(r = dflt \<and> (\<forall>j. i \<le> j \<and> j < n \<longrightarrow> minTime \<le> ts j)) \<or>
      (\<exists>k. r = of_nat k \<and> i \<le> k \<and> k < n \<and> ts k < minTime
        \<and> (\<forall>j. i \<le> j \<and> j < n \<longrightarrow> ts k \<le> ts j) \<and> (\<forall>j. i \<le> j \<and> j < k \<longrightarrow> ts k < ts j))"
      using assms(3) by (intro disjI2 exI [of _ k]) (auto simp: from_i)
  qed
qed

lemma least_below_skip:
  assumes "least_below ts (Suc i) n dflt minTime r" and "\<not> ts i < minTime"
  shows "least_below ts i n dflt minTime r"
proof -
  have from_i: "i \<le> j \<longleftrightarrow> j = i \<or> Suc i \<le> j" for j by auto
  show ?thesis using assms unfolding least_below_def by (auto simp: from_i not_less)
qed

lemma lru_search_spec:
  assumes wf: "ws_wf s e"
  shows "m = ws_size s e - i \<Longrightarrow> i \<le> ws_size s e \<Longrightarrow>
    \<exists>r. lru_search m (of_nat i) s e dflt minTime = Inr r
      \<and> least_below (\<lambda>j. ws_time_stamp (ws_entry s e j)) i (ws_size s e) dflt minTime r"
proof (induction m arbitrary: i dflt minTime)
  case 0
  then show ?case by (auto simp: least_below_def)
next
  case (Suc m)
  let ?ts = "\<lambda>j. ws_time_stamp (ws_entry s e j)" and ?n = "ws_size s e"
  have i: "i < ?n" and m: "m = ?n - Suc i" using Suc.prems by auto
  show ?case
  proof (cases "?ts i < minTime")
    case True
    obtain r where r: "lru_search m (of_nat (Suc i)) s e (of_nat i) (?ts i) = Inr r"
        "least_below ?ts (Suc i) ?n (of_nat i) (?ts i) r"
      using Suc.IH [OF m] i by (auto simp: Suc_le_eq)
    then show ?thesis using least_below_take [OF r(2) i] True
      by (simp add: ws_reads(1) [OF wf i] add.commute)
  next
    case False
    obtain r where r: "lru_search m (of_nat (Suc i)) s e dflt minTime = Inr r"
        "least_below ?ts (Suc i) ?n dflt minTime r"
      using Suc.IH [OF m] i by (auto simp: Suc_le_eq)
    then show ?thesis using least_below_skip [of ?ts] False
      by (simp add: ws_reads(1) [OF wf i] add.commute)
  qed
qed

section \<open>Going round the array\<close>

lemma ws_next:
  assumes "i < ws_size s e"
  shows "(of_nat i + 1) mod page_WS_max_size (envs s e) = of_nat (Suc i mod ws_size s e)"
proof -
  have "unat (of_nat i + 1 :: u32) = Suc i"
    using unat_plus1_less [OF ws_index(2) [OF assms]] ws_index(1) [OF assms] by simp
  then have "unat ((of_nat i + 1) mod page_WS_max_size (envs s e)) = Suc i mod ws_size s e"
    by (simp add: unat_mod_distrib ws_size_def)
  from arg_cong [OF this, of "of_nat :: nat \<Rightarrow> u32"] show ?thesis by simp
qed

text \<open>Some entry from \<open>a\<close> on, counted round the array, satisfies what some entry satisfies.\<close>

lemma round_from:
  fixes n :: nat
  assumes "a < n" and "k < n" and "P k"
  obtains d where "d < n" and "P ((a + d) mod n)" and "\<And>d'. d' < d \<Longrightarrow> \<not> P ((a + d') mod n)"
proof -
  let ?Q = "\<lambda>d. d < n \<and> P ((a + d) mod n)"
  have "(a + (k + n - a) mod n) mod n = k" using assms(1,2) by (simp add: mod_add_right_eq)
  then have "?Q ((k + n - a) mod n)" using assms by simp
  then have "?Q (LEAST d. ?Q d)" by (rule LeastI)
  moreover have "\<not> P ((a + d') mod n)" if "d' < (LEAST d. ?Q d)" for d'
    using not_less_Least [OF that] that calculation by auto
  ultimately show ?thesis using that by blast
qed

lemma find_empty_first:
  assumes wf: "ws_wf s e"
  shows "a < ws_size s e \<Longrightarrow> d < fuel \<Longrightarrow> ws_empty (ws_entry s e ((a + d) mod ws_size s e)) \<noteq> 0 \<Longrightarrow>
    \<forall>d' < d. ws_empty (ws_entry s e ((a + d') mod ws_size s e)) = 0 \<Longrightarrow>
    find_empty fuel (of_nat a) s e = Inr (of_nat ((a + d) mod ws_size s e))"
proof (induction d arbitrary: a fuel)
  case 0
  then obtain f where "fuel = Suc f" by (cases fuel) auto
  then show ?case using 0 by (simp add: ws_reads(3) [OF wf])
next
  case (Suc d)
  then obtain f where f: "fuel = Suc f" "d < f" by (cases fuel) auto
  let ?n = "ws_size s e"
  have "0 < ?n" using Suc.prems(1) by simp
  have sh: "(Suc a mod ?n + k) mod ?n = (a + Suc k) mod ?n" for k by (simp add: mod_add_left_eq)
  have now: "ws_empty (ws_entry s e a) = 0" using Suc.prems(1,4) by force
  have rest: "\<forall>d' < d. ws_empty (ws_entry s e (Suc (a + d') mod ?n)) = 0"
    using Suc.prems(4) by (metis Suc_less_eq add_Suc_right)
  have "find_empty f (of_nat (Suc a mod ?n)) s e = Inr (of_nat ((Suc a mod ?n + d) mod ?n))"
    using Suc.prems f(2) \<open>0 < ?n\<close> rest by (intro Suc.IH) (simp_all add: sh)
  then show ?case
    using f(1) Suc.prems(1) now by (simp add: ws_reads(3) [OF wf] ws_next sh)
qed

lemma find_empty_none:
  assumes wf: "ws_wf s e" and "\<And>i. i < ws_size s e \<Longrightarrow> ws_empty (ws_entry s e i) = 0"
  shows "a < ws_size s e \<Longrightarrow> find_empty fuel (of_nat a) s e = Inl Diverges"
proof (induction fuel arbitrary: a)
  case (Suc fuel)
  then show ?case using assms(2) by (simp add: ws_reads(3) [OF wf] ws_next)
qed simp

declare find_empty.simps [simp del]

section \<open>CLOCK\<close>

text \<open>The page of an entry, and its used bit in the page table of the environment.\<close>

definition ws_page :: "kstate \<Rightarrow> nat \<Rightarrow> nat \<Rightarrow> u32" where
  "ws_page s e i = ROUNDDOWN (ws_virtual_address (ws_entry s e i)) PAGE_SIZE"

definition ws_used :: "kstate \<Rightarrow> nat \<Rightarrow> nat \<Rightarrow> bool" where
  "ws_used s e i \<longleftrightarrow> upte s (env_page_directory (envs s e)) (ws_page s e i) AND PERM_USED \<noteq> 0"

text \<open>All entries are different user pages with a page table.\<close>

definition ws_resident :: "kstate \<Rightarrow> nat \<Rightarrow> bool" where
  "ws_resident s e \<longleftrightarrow> ws_wf s e \<and> kheap_inv s \<and> uspace s (env_page_directory (envs s e))
     \<and> (\<forall>i < ws_size s e. ws_page s e i < USER_TOP
          \<and> upde s (env_page_directory (envs s e)) (PDX (ws_page s e i)) \<noteq> 0)
     \<and> (\<forall>i < ws_size s e. \<forall>j < ws_size s e.
          PPN (ws_page s e i) = PPN (ws_page s e j) \<longrightarrow> i = j)"

text \<open>Clearing one used bit.\<close>

lemma clear_used_bits:
  "(p AND NOT PERM_USED) AND PERM_PRESENT = p AND PERM_PRESENT"
  "PPN (p AND NOT PERM_USED) = PPN p" "(p AND NOT PERM_USED) AND PERM_USED = 0"
proof -
  have u: "PERM_USED = (2 ^ 5 :: u32)" by (simp add: fos_consts)
  have b: "bit PERM_USED n \<longleftrightarrow> n = 5" "bit PERM_PRESENT n \<longleftrightarrow> n = 0" for n
    by (simp only: u bit_exp_iff, auto) (simp_all add: PERM_PRESENT_def bit_1_iff)
  show "(p AND NOT PERM_USED) AND PERM_PRESENT = p AND PERM_PRESENT"
    by (rule bit_eqI) (auto simp: bit_simps b)
  show "PPN (p AND NOT PERM_USED) = PPN p"
    by (rule bit_eqI) (auto simp: bit_simps b bit_PPN dest: bit_imp_le_length)
  show "(p AND NOT PERM_USED) AND PERM_USED = 0" by (rule bit_eqI) (auto simp: bit_simps b)
qed

definition used_cleared :: "kstate \<Rightarrow> kstate \<Rightarrow> nat \<Rightarrow> bool" where
  "used_cleared s s' e \<longleftrightarrow> ws_resident s' e \<and> envs s' = envs s
     \<and> (\<forall>w. w < USER_TOP \<longrightarrow> utrans s' (env_page_directory (envs s e)) w = utrans s (env_page_directory (envs s e)) w)
     \<and> (\<forall>w. KERNEL_BASE \<le> w \<longrightarrow> kframe s' w = kframe s w)
     \<and> free_frame_list s' = free_frame_list s \<and> frames_info s' = frames_info s
     \<and> (\<forall>i < ws_size s e. ws_used s' e i \<longrightarrow> ws_used s e i) \<and> ws_size s' e = ws_size s e"

lemma clear_one:
  assumes res: "ws_resident s e" and i: "i < ws_size s e"
  defines "dir \<equiv> env_page_directory (envs s e)"
  defines "va \<equiv> ws_page s e i"
  defines "s' \<equiv> phys_store s (PPN (upde s dir (PDX va))) (PTX va) (upte s dir va AND NOT PERM_USED)"
  shows "used_cleared s s' e" and "\<not> ws_used s' e i"
    and "j < ws_size s e \<Longrightarrow> j \<noteq> i \<Longrightarrow> ws_used s' e j = ws_used s e j"
    and "ws_page s' e = ws_page s e" "ws_size s' e = ws_size s e"
proof -
  have r: "kheap_inv s" "uspace s dir" "va < USER_TOP" "upde s dir (PDX va) \<noteq> 0"
    using res i by (auto simp: ws_resident_def dir_def va_def)
  note st = user_store [OF r, where e = "upte s dir va AND NOT PERM_USED", folded s'_def]
  have ev: "envs s' = envs s" by (simp add: s'_def)
  then show pg: "ws_page s' e = ws_page s e" and sz: "ws_size s' e = ws_size s e"
    by (simp_all add: ws_page_def [abs_def] ws_entry_def ws_size_def)
  have "ws_wf s' e = ws_wf s e" by (simp add: ws_wf_def ev)
  then have "ws_resident s' e"
    using res st(1,2) unfolding ws_resident_def ev pg sz dir_def [symmetric] st(4) by blast
  moreover have "utrans s' dir w = utrans s dir w" if w: "w < USER_TOP" for w
  proof (cases "PPN w = PPN va")
    case True
    then have "PDX w = PDX va" "PTX w = PTX va" by (simp_all add: PPN_eq_iff)
    then show ?thesis
      using utrans_eq [OF r(2) w] utrans_eq [OF st(2) w] st(3,4) r(4) clear_used_bits [of "upte s dir va"]
      by (simp add: upte_def)
  qed (use st(5) w in blast)
  moreover show un: "\<not> ws_used s' e i"
    using st(3) clear_used_bits(3) unfolding ws_used_def ev pg dir_def [symmetric] va_def [symmetric] by simp
  moreover show oth: "ws_used s' e j = ws_used s e j" if j: "j < ws_size s e" "j \<noteq> i" for j
  proof -
    have "PPN (ws_page s e j) \<noteq> PPN va" "ws_page s e j < USER_TOP" "upde s dir (PDX (ws_page s e j)) \<noteq> 0"
      using res i j unfolding ws_resident_def dir_def va_def by blast+
    then show ?thesis
      using st(8) [of "ws_page s e j"] unfolding ws_used_def ev pg dir_def [symmetric] by simp
  qed
  ultimately show "used_cleared s s' e"
    using ev st(6) sz unfolding used_cleared_def dir_def [symmetric]
    by (metis phys_store_simps(3,4) s'_def)
qed

text \<open>One round of the search.\<close>

lemma clock_step:
  assumes res: "ws_resident s e" and i: "i < ws_size s e"
  shows "clock_search (Suc fuel) (of_nat i) e s =
    (if ws_used s e i then
       clock_search fuel (of_nat (Suc i mod ws_size s e)) e
         (phys_store s (PPN (upde s (env_page_directory (envs s e)) (PDX (ws_page s e i)))) (PTX (ws_page s e i))
            (upte s (env_page_directory (envs s e)) (ws_page s e i) AND NOT PERM_USED))
     else Inr (of_nat i, s))"
proof -
  let ?dir = "env_page_directory (envs s e)" and ?va = "ws_page s e i"
  have wf: "ws_wf s e" and r: "kheap_inv s" "uspace s ?dir" "?va < USER_TOP" "upde s ?dir (PDX ?va) \<noteq> 0"
    using res i by (auto simp: ws_resident_def)
  note t = user_get_page_table [OF r] and k = user_kload [OF r]
  show ?thesis
    using ws_reads(2) [OF wf i] ws_next [OF i]
    by (simp add: t(1) k kstore_Inr [OF t(2)] ws_used_def flip: ws_page_def)
qed

declare clock_search.simps [simp del]

lemma used_cleared_trans: "used_cleared s s1 e \<Longrightarrow> used_cleared s1 s2 e \<Longrightarrow> used_cleared s s2 e"
  by (simp add: used_cleared_def)

lemma clock_search_finds:
  "ws_resident s e \<Longrightarrow> a < ws_size s e \<Longrightarrow> d < fuel \<Longrightarrow> d \<le> ws_size s e \<Longrightarrow>
    \<forall>d' < d. ws_used s e ((a + d') mod ws_size s e) \<Longrightarrow>
    d = ws_size s e \<or> \<not> ws_used s e ((a + d) mod ws_size s e) \<Longrightarrow>
    \<exists>s'. clock_search fuel (of_nat a) e s = Inr (of_nat ((a + d) mod ws_size s e), s')
      \<and> used_cleared s s' e \<and> (\<forall>d' \<le> d. \<not> ws_used s' e ((a + d') mod ws_size s e))"
proof (induction d arbitrary: a s fuel)
  case 0
  then obtain f where "fuel = Suc f" by (cases fuel) auto
  moreover have "used_cleared s s e" using 0(1) by (simp add: used_cleared_def)
  ultimately show ?case using 0 clock_step [OF 0(1,2)] by simp
next
  case (Suc d)
  define n where "n = ws_size s e"
  define s1 where "s1 = phys_store s (PPN (upde s (env_page_directory (envs s e)) (PDX (ws_page s e a))))
    (PTX (ws_page s e a)) (upte s (env_page_directory (envs s e)) (ws_page s e a) AND NOT PERM_USED)"
  obtain f where f: "fuel = Suc f" "d < f" using Suc.prems(3) by (cases fuel) auto
  note c = clear_one [OF Suc.prems(1,2), folded s1_def n_def]
  have a: "a < n" and d: "Suc d \<le> n" using Suc.prems(2,4) by (simp_all add: n_def)
  have sh: "(Suc a mod n + k) mod n = (a + Suc k) mod n" for k by (simp add: mod_add_left_eq)
  have ne: "(a + Suc k) mod n \<noteq> a" if "Suc k < n" for k
    using that a le_mod_geq [of n "a + Suc k"] by (cases "a + Suc k < n") auto
  have used: "ws_used s1 e ((a + Suc k) mod n) = ws_used s e ((a + Suc k) mod n)" if "Suc k < n" for k
    using c(3) ne [OF that] a by simp
  have before: "ws_used s e ((a + d') mod n)" if "d' < Suc d" for d' using Suc.prems(5) that by (simp add: n_def)
  have now: "ws_used s e a" using before [of 0] a by simp
  have step: "clock_search fuel (of_nat a) e s = clock_search f (of_nat (Suc a mod n)) e s1"
    using clock_step [OF Suc.prems(1,2), of f] now f(1) by (simp add: s1_def n_def)
  have "d = n \<or> \<not> ws_used s1 e ((a + Suc d) mod n)"
  proof (cases "Suc d = n")
    case True
    then show ?thesis using c(2) a by simp
  next
    case False
    then show ?thesis using Suc.prems(6) used [of d] d by (simp add: n_def)
  qed
  moreover have res1: "ws_resident s1 e" using c(1) by (simp add: used_cleared_def)
  moreover have rest: "\<forall>d' < d. ws_used s1 e ((a + Suc d') mod n)"
  proof (intro allI impI)
    fix d' assume "d' < d"
    then show "ws_used s1 e ((a + Suc d') mod n)" using used [of d'] before [of "Suc d'"] d by simp
  qed
  ultimately have "\<exists>s'. clock_search f (of_nat (Suc a mod n)) e s1 = Inr (of_nat ((Suc a mod n + d) mod n), s')
      \<and> used_cleared s1 s' e \<and> (\<forall>d' \<le> d. \<not> ws_used s' e ((Suc a mod n + d') mod n))"
    using Suc.IH [of s1 "Suc a mod n" f, unfolded c(5) sh] res1 f(2) rest a d unfolding sh by auto
  then obtain s' where s': "clock_search f (of_nat (Suc a mod n)) e s1 = Inr (of_nat ((a + Suc d) mod n), s')"
      "used_cleared s1 s' e" "\<forall>d' \<le> d. \<not> ws_used s' e ((a + Suc d') mod n)"
    unfolding sh by blast
  have "\<not> ws_used s' e a" using s'(2) c(2,5) a by (auto simp: used_cleared_def)
  then have "\<not> ws_used s' e ((a + d') mod n)" if "d' \<le> Suc d" for d'
    using s'(3) a that by (cases d') auto
  then show ?case
    using s'(1) used_cleared_trans [OF c(1) s'(2)] step unfolding n_def [symmetric] by auto
qed

section \<open>Concrete working sets\<close>

lemma kheap_inv_env [simp]:
  "kheap_inv (s\<lparr>envs := x\<rparr>) = kheap_inv s" "kheap_inv (s\<lparr>PageRepAlgoType := y\<rparr>) = kheap_inv s"
  "kheap_inv (s\<lparr>curenv := z\<rparr>) = kheap_inv s"
  by (simp_all add: kheap_inv_def free_frames_inv_def heap_mapped_def kmap_inv_def static_mapped_def
      kframe_def kernel_frame_def kdir_def ktab_def kpte_def)

definition sample_ws_env :: Env where
  "sample_ws_env = zero_env\<lparr>env_page_directory := 0xF6000000, page_WS_max_size := 2,
     pageWorkingSet := [\<lparr>ws_virtual_address = 0x80000000, ws_empty = 0, ws_time_stamp = 0x20000000\<rparr>,
       \<lparr>ws_virtual_address = 0x80001000, ws_empty = 0, ws_time_stamp = 7\<rparr>]\<rparr>"

definition with_env :: "kstate \<Rightarrow> Env \<Rightarrow> u32 \<Rightarrow> kstate" where
  "with_env s env algo = s\<lparr>envs := (\<lambda>_. env), PageRepAlgoType := algo\<rparr>"

lemma with_env_simps [simp]:
  "envs (with_env s env algo) = (\<lambda>_. env)" "PageRepAlgoType (with_env s env algo) = algo"
  "kheap_inv (with_env s env algo) = kheap_inv s"
  by (simp_all add: with_env_def)

lemma sample_ws:
  "ws_wf (with_env s sample_ws_env algo) 0" "ws_size (with_env s sample_ws_env algo) 0 = 2"
  "ws_page (with_env s sample_ws_env algo) 0 0 = 0x80000000"
  "ws_page (with_env s sample_ws_env algo) 0 1 = 0x80001000"
  by (simp_all add: ws_wf_def ws_size_def ws_page_def ws_entry_def sample_ws_env_def zero_env_def
      ROUNDDOWN_def fos_consts)

lemma sample_resident: "\<exists>s. ws_resident (with_env s sample_ws_env algo) 0"
proof -
  obtain s where s: "kheap_inv s" "uspace s 0xF6000000" "utrans s 0xF6000000 0x80000000 = Some 150"
    using sample_mapped by blast
  have lt: "(0x80000000 :: u32) < USER_TOP" "(0x80001000 :: u32) < USER_TOP" by (simp_all add: fos_consts)
  have "PDX 0x80000000 = PDX 0x80001000" by (simp add: PDX_def)
  then have ne: "upde s 0xF6000000 (PDX 0x80000000) \<noteq> 0" "upde s 0xF6000000 (PDX 0x80001000) \<noteq> 0"
    using utrans_Some(1) [OF s(2) lt(1) s(3)] by simp_all
  let ?s = "with_env s sample_ws_env algo"
  have c: "uspace ?s 0xF6000000" "upde ?s 0xF6000000 = upde s 0xF6000000"
    using uspace_cong(1,2) [of ?s s] s(2) by (simp_all add: with_env_def)
  have two: "i < 2 \<longleftrightarrow> i = 0 \<or> i = 1" for i :: nat by auto
  have "PPN 0x80000000 \<noteq> PPN 0x80001000" by (simp add: PPN_def)
  then have "ws_resident ?s 0"
    unfolding ws_resident_def sample_ws(2) two
    using s(1) c lt ne sample_ws(1,3,4) by (auto simp: sample_ws_env_def)
  then show ?thesis ..
qed

section \<open>Properties\<close>

text \<open>
  C13. With LRU, the victim is the first entry with the least time stamp, as long as some time stamp
  is below 1000000000; otherwise the search finds nothing and the victim is the entry at the last
  index, whatever its time stamp.
\<close>

theorem lru_victim:
  assumes "ws_wf s e" and "PageRepAlgoType s = PG_REP_LRU"
  shows "\<exists>r. choose_victim s e = Inr (r, s)
    \<and> least_below (\<lambda>j. ws_time_stamp (ws_entry s e j)) 0 (ws_size s e)
        (page_last_WS_index (envs s e)) 1000000000 r"
  using lru_search_spec [OF assms(1), of "ws_size s e" 0] assms(2)
  by (auto simp: choose_victim_def fos_consts ws_size_def)

theorem lru_victim_witness:
  "\<exists>r. choose_victim (with_env sample_state sample_ws_env PG_REP_LRU) 0
       = Inr (r, with_env sample_state sample_ws_env PG_REP_LRU)
    \<and> least_below (\<lambda>j. ws_time_stamp (ws_entry (with_env sample_state sample_ws_env PG_REP_LRU) 0 j)) 0
        (ws_size (with_env sample_state sample_ws_env PG_REP_LRU) 0)
        (page_last_WS_index (envs (with_env sample_state sample_ws_env PG_REP_LRU) 0)) 1000000000 r"
  by (rule lru_victim [OF sample_ws(1)]) simp

text \<open>
  C12. With CLOCK, the search ends within one round and one step: it stops at the first entry from
  the last index on whose used bit is clear, or comes back to the last index when all are set, and
  has cleared the used bits it passed; no translation of any address has changed.
\<close>

theorem clock_victim:
  assumes "ws_resident s e" and "PageRepAlgoType s = PG_REP_CLOCK"
  shows "\<exists>d s'. d \<le> ws_size s e
    \<and> choose_victim s e = Inr (of_nat ((unat (page_last_WS_index (envs s e)) + d) mod ws_size s e), s')
    \<and> (\<forall>d' < d. ws_used s e ((unat (page_last_WS_index (envs s e)) + d') mod ws_size s e))
    \<and> (d = ws_size s e \<or> \<not> ws_used s e ((unat (page_last_WS_index (envs s e)) + d) mod ws_size s e))
    \<and> (\<forall>d' \<le> d. \<not> ws_used s' e ((unat (page_last_WS_index (envs s e)) + d') mod ws_size s e))
    \<and> used_cleared s s' e"
proof -
  let ?a = "unat (page_last_WS_index (envs s e))" and ?n = "ws_size s e"
  have a: "?a < ?n" using assms(1) by (simp add: ws_resident_def ws_wf_def ws_size_def word_less_nat_alt)
  obtain d where d: "d \<le> ?n" "\<forall>d' < d. ws_used s e ((?a + d') mod ?n)"
      "d = ?n \<or> \<not> ws_used s e ((?a + d) mod ?n)"
  proof (cases "\<exists>k < ?n. \<not> ws_used s e k")
    case True
    then obtain k where "k < ?n" "\<not> ws_used s e k" by blast
    then show ?thesis using that round_from [OF a, of k "\<lambda>k. \<not> ws_used s e k"] by (metis less_imp_le)
  next
    case False
    then have "\<forall>d' < ?n. ws_used s e ((?a + d') mod ?n)" using a by simp
    then show ?thesis using that [of ?n] by simp
  qed
  have "clock_rounds s e = 2 * ?n + 1" by (simp add: clock_rounds_def ws_size_def)
  then have "d < clock_rounds s e" using d(1) by simp
  then obtain s' where "clock_search (clock_rounds s e) (of_nat ?a) e s = Inr (of_nat ((?a + d) mod ?n), s')"
      "used_cleared s s' e" "\<forall>d' \<le> d. \<not> ws_used s' e ((?a + d') mod ?n)"
    using clock_search_finds [OF assms(1) a _ d] by blast
  then show ?thesis
    using d assms(2) by (intro exI [of _ d] exI [of _ s']) (simp add: choose_victim_def fos_consts)
qed

theorem clock_victim_witness:
  "\<exists>s idx s'. choose_victim (with_env s sample_ws_env PG_REP_CLOCK) 0 = Inr (idx, s')
     \<and> used_cleared (with_env s sample_ws_env PG_REP_CLOCK) s' 0"
proof -
  obtain s where "ws_resident (with_env s sample_ws_env PG_REP_CLOCK) 0" using sample_resident by blast
  from clock_victim [OF this] show ?thesis by auto
qed

text \<open>
  When the working set has an empty entry, the search for one ends and finds the first empty
  entry from the given index on, counted round the array; without one it never ends.
\<close>

theorem find_empty_total:
  assumes "ws_wf s e" and "a < ws_size s e"
  shows "if \<exists>k < ws_size s e. ws_empty (ws_entry s e k) \<noteq> 0
    then \<exists>d < ws_size s e. find_empty (ws_size s e + 1) (of_nat a) s e = Inr (of_nat ((a + d) mod ws_size s e))
      \<and> ws_empty (ws_entry s e ((a + d) mod ws_size s e)) \<noteq> 0
      \<and> (\<forall>d' < d. ws_empty (ws_entry s e ((a + d') mod ws_size s e)) = 0)
    else \<forall>fuel. find_empty fuel (of_nat a) s e = Inl Diverges"
proof (cases "\<exists>k < ws_size s e. ws_empty (ws_entry s e k) \<noteq> 0")
  case True
  then obtain k where "k < ws_size s e" "ws_empty (ws_entry s e k) \<noteq> 0" by blast
  then obtain d where d: "d < ws_size s e" "ws_empty (ws_entry s e ((a + d) mod ws_size s e)) \<noteq> 0"
      "\<forall>d' < d. ws_empty (ws_entry s e ((a + d') mod ws_size s e)) = 0"
    using round_from [OF assms(2), of k "\<lambda>k. ws_empty (ws_entry s e k) \<noteq> 0"] by metis
  then show ?thesis
    using True find_empty_first [OF assms _ d(2,3), of "ws_size s e + 1"] by auto
next
  case False
  then show ?thesis using find_empty_none [OF assms(1) _ assms(2)] by auto
qed

theorem find_empty_total_witness:
  "find_empty 10 (of_nat 1) (with_env sample_state sample_ws_env 0) 0 = Inl Diverges"
proof -
  have no: "\<not> (\<exists>k < ws_size (with_env sample_state sample_ws_env 0) 0.
      ws_empty (ws_entry (with_env sample_state sample_ws_env 0) 0 k) \<noteq> 0)"
    unfolding sample_ws(2) by (auto simp: ws_entry_def sample_ws_env_def nth_Cons split: nat.splits)
  have "1 < ws_size (with_env sample_state sample_ws_env 0) 0" by (simp add: sample_ws(2))
  from find_empty_total [OF sample_ws(1) [of sample_state 0] this] show ?thesis
    unfolding if_not_P [OF no] by blast
qed

end
