(* ===== verification/FOS_Placement.thy ===== *)
theory FOS_Placement
  imports FOS_Replace
begin

text \<open>
  What a page fault does: the steps of place_page and evict of FOS_Fault followed through memory, and
  the theorems that page_fault_handler() brings the faulting page in from the page file, into a free
  frame while the working set has room and into the frame of an unmodified victim when it is full.
\<close>

section \<open>Addresses of one page\<close>

lemma page_address: "PPN (ROUNDDOWN va PAGE_SIZE) = PPN va"
  by (simp add: ROUNDDOWN_page PPN_push_bit)

lemma page_address_parts [simp]:
  "PDX (ROUNDDOWN va PAGE_SIZE) = PDX va" "PTX (ROUNDDOWN va PAGE_SIZE) = PTX va"
  using page_address [of va] by (simp_all add: PPN_eq_iff)

lemma page_address_le: "ROUNDDOWN va PAGE_SIZE \<le> va"
  by (simp add: word_le_nat_alt unat_ROUNDDOWN)

lemma mmu_walk_page: "mmu_walk m d (ROUNDDOWN va PAGE_SIZE) = mmu_walk m d va"
  by (simp add: mmu_walk_def Let_def)

lemma utrans_page: "PPN va = PPN w \<Longrightarrow> utrans s dir va = utrans s dir w"
  by (simp add: utrans_def mmu_walk_def PPN_eq_iff Let_def)

section \<open>The steps of a placement\<close>

text \<open>
  The page file holds the page of \<open>va\<close> in disk frame \<open>dfn\<close>: the disk directory of the environment is
  in frame \<open>d\<close>, its disk table in frame \<open>t\<close>.
\<close>

definition on_disk :: "kstate \<Rightarrow> nat \<Rightarrow> u32 \<Rightarrow> u32 \<Rightarrow> u32 \<Rightarrow> u32 \<Rightarrow> bool" where
  "on_disk s e va d t dfn \<longleftrightarrow> KERNEL_BASE \<le> disk_env_pgdir (envs s e)
     \<and> kframe s (disk_env_pgdir (envs s e)) = Some d \<and> phys s d (PDX va) \<noteq> 0
     \<and> PPN (phys s d (PDX va)) = t \<and> virtualAddresses s t \<noteq> 0 \<and> phys s t (PTX va) = dfn \<and> dfn \<noteq> 0"

text \<open>Taking a frame keeps the invariants.\<close>

definition took_frame :: "kstate \<Rightarrow> u32 \<Rightarrow> u32 list \<Rightarrow> kstate" where
  "took_frame s f fs = initialize_frame_info (s\<lparr>free_frame_list := fs\<rparr>) f"

lemma took_frame_simps [simp]:
  "phys (took_frame s f fs) = phys s" "phys_page_directory (took_frame s f fs) = phys_page_directory s"
  "virtualAddresses (took_frame s f fs) = virtualAddresses s" "free_frame_list (took_frame s f fs) = fs"
  "number_of_frames (took_frame s f fs) = number_of_frames s" "envs (took_frame s f fs) = envs s"
  "page_file (took_frame s f fs) = page_file s" "curenv (took_frame s f fs) = curenv s"
  "reg_cr3 (took_frame s f fs) = reg_cr3 s" "disk_error (took_frame s f fs) = disk_error s"
  "kernel_frame (took_frame s f fs) = kernel_frame s" "references (took_frame s f fs) f = 0"
  by (simp_all add: took_frame_def initialize_frame_info_def references_def zero_frame_info_def)

lemma took_frame_inv:
  assumes "kheap_inv s" and "free_frame_list s = f # fs"
  shows "allocate_frame s = Inr (f, took_frame s f fs)" and "kheap_inv (took_frame s f fs)"
    and "f < number_of_frames s" and "\<not> kernel_frame s f" and "virtualAddresses s f = 0"
proof -
  have ff: "free_frames_inv s" using assms(1) by (simp add: kheap_inv_def)
  then show "allocate_frame s = Inr (f, took_frame s f fs)" "f < number_of_frames s" "\<not> kernel_frame s f"
      "virtualAddresses s f = 0"
    using assms(2) allocate_plain [OF assms(2)] by (simp_all add: free_frames_inv_def took_frame_def)
  have "free_frames_inv (took_frame s f fs)"
    using ff assms(2) by (auto simp: free_frames_inv_def took_frame_def initialize_frame_info_def zero_frame_info_def)
  then show "kheap_inv (took_frame s f fs)"
    using assms(1) by (simp add: kheap_inv_def heap_mapped_def took_frame_def initialize_frame_info_def)
qed

lemmas took_frame_space [simp] =
  uspace_cong [of "took_frame s f fs" s for s f fs, OF took_frame_simps(1-3)]

text \<open>Mapping a frame where nothing is mapped writes one entry.\<close>

lemma map_absent:
  assumes inv: "kheap_inv s" and us: "uspace s dir" and va: "va < USER_TOP" "upde s dir (PDX va) \<noteq> 0"
    and none: "utrans s dir va = None"
  shows "map_frame s dir f va perm
    = Inr (phys_store (set_references s f (references s f + 1)) (PPN (upde s dir (PDX va))) (PTX va)
        (CONSTRUCT_ENTRY (to_physical_address f) (perm OR PERM_PRESENT)))"
proof -
  have np: "\<not> upte s dir va AND PERM_PRESENT = PERM_PRESENT"
    using utrans_eq [OF us va(1)] va(2) none present_eq_0 by (auto split: if_splits)
  note t = user_get_page_table [OF inv us va]
  have "kframe (set_references s f (references s f + 1)) = kframe s" by simp
  then show ?thesis
    using t(1,2) user_kload [OF inv us va] np
    by (simp add: map_frame_def map_frame_body_def Let_def TABLE_IN_MEMORY_def TABLE_NOT_EXIST_def kstore_Inr)
qed

text \<open>Filling a frame that is neither the kernel's nor on the heap changes no translation.\<close>

lemma fill_space:
  fixes pg :: page
  assumes inv: "kheap_inv s" and us: "uspace s dir" and f: "\<not> kernel_frame s f" "virtualAddresses s f = 0"
  defines "s' \<equiv> phys_fill s f pg"
  shows "kheap_inv s'" and "uspace s' dir" and "upde s' dir = upde s dir" and "udir s' dir = udir s dir"
    and "w < USER_TOP \<Longrightarrow> upde s dir (PDX w) \<noteq> 0 \<Longrightarrow> upte s' dir w = upte s dir w"
    and "w < USER_TOP \<Longrightarrow> utrans s' dir w = utrans s dir w"
    and "KERNEL_BASE \<le> w \<Longrightarrow> kframe s' w = kframe s w"
proof -
  note fl = kheap_inv_fill [OF inv f(1), where pg = pg, folded s'_def]
  show inv': "kheap_inv s'" by (rule fl(1))
  have dk: "KERNEL_BASE \<le> dir" using us heap_page_kernel by (simp add: uspace_def)
  have kp: "kpte s' dir = kpte s dir" by (rule fl(2) [OF dk])
  show ud: "udir s' dir = udir s dir" using kp by (simp add: udir_def)
  have df: "udir s dir \<noteq> f" using uspace_dir(3) [OF inv us] f(2) by auto
  have ph: "phys s' g = phys s g" if "g \<noteq> f" for g using that by (simp add: s'_def)
  show ue: "upde s' dir = upde s dir" unfolding upde_def [abs_def] ud using ph [OF df] by simp
  have tf: "PPN (upde s dir (PDX w)) \<noteq> f" if "w < USER_TOP" "upde s dir (PDX w) \<noteq> 0" for w
    using uspace_present(2) [OF us that] f(2) by auto
  show te: "upte s' dir w = upte s dir w" if "w < USER_TOP" "upde s dir (PDX w) \<noteq> 0" for w
    unfolding upte_def ue using ph [OF tf [OF that]] by simp
  have vs: "virtualAddresses s' = virtualAddresses s" by (simp add: s'_def)
  show us': "uspace s' dir" unfolding uspace_def ue ud kp vs by (rule us [unfolded uspace_def])
  show "utrans s' dir w = utrans s dir w" if "w < USER_TOP" for w
    unfolding utrans_eq [OF us' that] utrans_eq [OF us that] ue using te [OF that] by auto
  have m: "kmap_inv s" "kmap_inv s'" using inv inv' by (simp_all add: kheap_inv_def)
  show "kframe s' w = kframe s w" if "KERNEL_BASE \<le> w" for w
    using kframe_kernel [OF m(1) that] kframe_kernel [OF m(2) that] fl(2) [OF that] by simp
qed

text \<open>Reading the page of a mapped address from the page file.\<close>

lemma read_mapped:
  assumes inv: "kheap_inv s" and us: "uspace s dir" and va: "va < USER_TOP" "utrans s dir va = Some f"
    and f: "\<not> kernel_frame s f" "virtualAddresses s f = 0" and disk: "on_disk s e va d t dfn" "\<not> disk_error s"
    and cpu: "PPN (reg_cr3 s) = udir s dir" "curenv s = Some e" "env_page_directory (envs s e) = dir"
  shows "pf_read_env_page s e va = Inr (0, phys_store (phys_fill s f (page_file s dfn))
    (PPN (upde s dir (PDX va))) (PTX va) (upte s dir va AND NOT PERM_MODIFIED))"
proof -
  let ?va = "ROUNDDOWN va PAGE_SIZE" and ?s = "phys_fill s f (page_file s dfn)"
  have r: "?va < USER_TOP" using page_address_le [of va] va(1) by (rule le_less_trans)
  have nk: "\<not> CHECK_IF_KERNEL_ADDRESS ?va" using user_not_kernel [OF r] .
  have pg: "disk_env_pgdir (envs s e) \<noteq> 0" using disk(1) by (auto simp: on_disk_def KERNEL_BASE_def)
  have tv: "kframe s (virtualAddresses s t) = Some t" "virtualAddresses s t \<noteq> 0"
    using heap_frame_mapped [OF inv] disk(1) by (auto simp: on_disk_def)
  have kd: "kload s (disk_env_pgdir (envs s e)) (PDX va) = Inr (phys s d (PDX va))" "phys s d (PDX va) \<noteq> 0"
      "PPN (phys s d (PDX va)) = t"
    using disk(1) by (auto simp: on_disk_def kload_Inr)
  have "table_pointer s ?va (phys s d (PDX va)) = Inr (virtualAddresses s t)"
    using nk kd(3) by (simp add: table_pointer_def kheap_virtual_address_PPN PPN_EXTRACT)
  then have gt: "get_disk_page_table s (disk_env_pgdir (envs s e)) ?va False = Inr (0, virtualAddresses s t, s)"
    using kd(1,2) by (simp add: get_disk_page_table_def)
  have dfn: "kload s (virtualAddresses s t) (PTX ?va) = Inr dfn" "dfn \<noteq> 0"
    using disk(1) tv by (auto simp: on_disk_def kload_Inr)
  have "cpu_frame s ?va = Some f" using nk cpu(1) va(2) by (simp add: cpu_frame_def mmu_walk_page utrans_def)
  then have rd: "read_disk_page s dfn ?va = Inr (0, ?s)" using disk(2) by (simp add: read_disk_page_def)
  note fs = fill_space [OF inv us f, where pg = "page_file s dfn"]
  have ne: "upde s dir (PDX va) \<noteq> 0" using utrans_Some [OF us va] by simp
  then have ne': "upde ?s dir (PDX ?va) \<noteq> 0" by (simp add: fs(3))
  have dk: "KERNEL_BASE \<le> dir" using us heap_page_kernel by (simp add: uspace_def)
  have pde: "kload ?s dir (PDX ?va) = Inr (upde s dir (PDX va))"
    using uspace_dir(1) [OF fs(1,2)] fs(3) by (simp add: kload_Inr upde_def fun_eq_iff)
  have tp: "table_pointer ?s ?va (upde s dir (PDX va)) = Inr (virtualAddresses s (PPN (upde s dir (PDX va))))"
    using nk by (simp add: table_pointer_def kheap_virtual_address_PPN PPN_EXTRACT)
  note ut = user_get_page_table(2) [OF fs(1,2) r ne'] user_kload [OF fs(1,2) r ne']
  have te: "upte ?s dir ?va = upte s dir va" using fs(5) [OF va(1) ne] by (simp add: upte_def)
  have "pt_set_page_permissions ?s e ?va 0 PERM_MODIFIED
      = Inr (phys_store ?s (PPN (upde s dir (PDX va))) (PTX va) (upte s dir va AND NOT PERM_MODIFIED))"
    using pde tp ut te uspace_present(1) [OF us va(1) ne] cpu(3)
    by (simp add: pt_set_page_permissions_def Let_def fs(3) kstore_Inr)
  then show ?thesis
    using pg gt dfn rd tv(2) cpu(2) by (simp add: pf_read_env_page_def Let_def)
qed


text \<open>Changing an environment leaves memory alone.\<close>

lemma upd_env_memory [simp]:
  "phys (upd_env s e g) = phys s" "phys_page_directory (upd_env s e g) = phys_page_directory s"
  "virtualAddresses (upd_env s e g) = virtualAddresses s" "free_frame_list (upd_env s e g) = free_frame_list s"
  "references (upd_env s e g) f = references s f" "kheap_inv (upd_env s e g) = kheap_inv s"
  "envs (upd_env s e g) = (envs s)(e := g (envs s e))" "curenv (upd_env s e g) = curenv s"
  "disk_error (upd_env s e g) = disk_error s" "reg_cr3 (upd_env s e g) = reg_cr3 s" "page_file (upd_env s e g) = page_file s"
  "kpte (upd_env s e g) = kpte s"
  by (simp_all add: upd_env_def references_def kheap_inv_def free_frames_inv_def heap_mapped_def kpte_def [abs_def] ktab_def kdir_def)

lemmas upd_env_space [simp] = uspace_cong [of "upd_env s e g" s for s e g, OF upd_env_memory(1-3)]

definition fault_perm :: u32 where
  "fault_perm = PERM_USER OR PERM_WRITEABLE OR PERM_PRESENT OR PERM_USED"

lemma fault_perm_bound: "fault_perm < 0x1000"
  by (simp add: fault_perm_def PERM_USER_def PERM_WRITEABLE_def PERM_PRESENT_def PERM_USED_def)

lemma fault_entry_clean:
  "CONSTRUCT_ENTRY (push_bit 12 f) (fault_perm OR PERM_PRESENT) AND NOT PERM_MODIFIED
     = CONSTRUCT_ENTRY (push_bit 12 f) (fault_perm OR PERM_PRESENT)"
proof -
  have p: "(fault_perm OR PERM_PRESENT) AND NOT PERM_MODIFIED = fault_perm OR PERM_PRESENT"
    by (simp add: fault_perm_def PERM_USER_def PERM_WRITEABLE_def PERM_PRESENT_def PERM_USED_def PERM_MODIFIED_def)
  have e: "PERM_MODIFIED = 2 ^ 6" by (simp add: PERM_MODIFIED_def)
  have m: "bit PERM_MODIFIED n \<Longrightarrow> n = 6" for n unfolding e by (simp only: bit_exp_iff)
  have "push_bit 12 f AND NOT PERM_MODIFIED = push_bit 12 f"
    by (rule bit_eqI) (auto simp: bit_simps dest: m)
  then show ?thesis using p by (simp add: CONSTRUCT_ENTRY_def bit.conj_disj_distrib2)
qed

lemma fault_entry_unmodified:
  "CONSTRUCT_ENTRY (push_bit 12 f) (fault_perm OR PERM_PRESENT) AND PERM_MODIFIED = 0"
proof -
  let ?e = "CONSTRUCT_ENTRY (push_bit 12 f) (fault_perm OR PERM_PRESENT)"
  have "?e AND PERM_MODIFIED = (?e AND NOT PERM_MODIFIED) AND PERM_MODIFIED" by (simp only: fault_entry_clean)
  then show ?thesis by (simp add: and.assoc)
qed

text \<open>The working-set entry and the last index after the page has been placed.\<close>

definition placed_ws :: "Env \<Rightarrow> nat \<Rightarrow> u32 \<Rightarrow> Env" where
  "placed_ws env i va = env\<lparr>pageWorkingSet := (pageWorkingSet env)[i :=
       \<lparr>ws_virtual_address = ROUNDDOWN va PAGE_SIZE, ws_empty = 0, ws_time_stamp = 0x80000000\<rparr>],
     page_last_WS_index := of_nat (Suc i mod unat (page_WS_max_size env))\<rparr>"

definition page_placed :: "kstate \<Rightarrow> kstate \<Rightarrow> u32 \<Rightarrow> u32 \<Rightarrow> u32 \<Rightarrow> page \<Rightarrow> bool" where
  "page_placed s s' dir va f pg \<longleftrightarrow> utrans s' dir va = Some f \<and> phys s' f = pg \<and> references s' f = 1
     \<and> kheap_inv s' \<and> uspace s' dir
     \<and> (\<forall>w. w < USER_TOP \<and> PPN w \<noteq> PPN va \<longrightarrow> utrans s' dir w = utrans s dir w)
     \<and> (\<forall>w. KERNEL_BASE \<le> w \<longrightarrow> kframe s' w = kframe s w)"

text \<open>Taking a frame and mapping it.\<close>

lemma place_map:
  assumes inv: "kheap_inv s" and us: "uspace s dir" and va: "va < USER_TOP" "upde s dir (PDX va) \<noteq> 0"
    and none: "utrans s dir va = None" and free: "free_frame_list s = f # fs"
  obtains s2 where "map_frame (took_frame s f fs) dir f va fault_perm = Inr s2"
    and "s2 = phys_store (set_references (took_frame s f fs) f 1) (PPN (upde s dir (PDX va))) (PTX va)
           (CONSTRUCT_ENTRY (push_bit 12 f) (fault_perm OR PERM_PRESENT))"
    and "kheap_inv s2" and "uspace s2 dir" and "utrans s2 dir va = Some f"
    and "upte s2 dir va = CONSTRUCT_ENTRY (push_bit 12 f) (fault_perm OR PERM_PRESENT)" and "upde s2 dir = upde s dir"
    and "\<forall>w. w < USER_TOP \<and> PPN w \<noteq> PPN va \<longrightarrow> utrans s2 dir w = utrans s dir w"
    and "\<forall>w. KERNEL_BASE \<le> w \<longrightarrow> kframe s2 w = kframe s w"
    and "kernel_frame s2 = kernel_frame s" and "udir s2 dir = udir s dir"
proof -
  let ?T = "PPN (upde s dir (PDX va))" and ?ent = "CONSTRUCT_ENTRY (push_bit 12 f) (fault_perm OR PERM_PRESENT)"
  define s1 where "s1 = set_references (took_frame s f fs) f 1"
  define s2 where "s2 = phys_store s1 ?T (PTX va) ?ent"
  note tk = took_frame_inv [OF inv free]
  have inv1: "kheap_inv s1" "uspace s1 dir" "upde s1 dir = upde s dir" using tk(2) us by (simp_all add: s1_def)
  have map: "map_frame (took_frame s f fs) dir f va fault_perm = Inr s2"
    using map_absent [OF tk(2), of dir va f fault_perm] us va none
    by (simp add: s2_def s1_def to_physical_address_def)
  have ne1: "upde s1 dir (PDX va) \<noteq> 0" using va(2) inv1(3) by simp
  note st = user_store [OF inv1(1,2) va(1) ne1, where e = ?ent, unfolded inv1(3), folded s2_def]
  have fb: "f < 0x100000" using frame_bound [of s] tk(3) inv by (auto simp: kheap_inv_def)
  have kf: "kframe s2 w = kframe s w" if "KERNEL_BASE \<le> w" for w using st(6) [OF that] by (simp add: s1_def)
  have dk: "KERNEL_BASE \<le> dir" using us heap_page_kernel by (simp add: uspace_def)
  have ud: "udir s2 dir = udir s dir"
    using uspace_dir(1) [OF st(1,2)] uspace_dir(1) [OF inv us] kf [OF dk] by simp
  have upd2: "upde s2 dir = upde s dir" using st(4) inv1(3) by simp
  have pb: "fault_perm OR PERM_PRESENT < 0x1000"
    by (simp add: fault_perm_def PERM_USER_def PERM_WRITEABLE_def PERM_PRESENT_def PERM_USED_def)
  have "PERM_PRESENT \<noteq> 0" by (simp add: PERM_PRESENT_def)
  then have ut: "utrans s2 dir va = Some f"
    using utrans_eq [OF st(2) va(1)] st(3) upd2 va(2) PPN_CONSTRUCT [OF fb pb] by (simp add: present_CONSTRUCT)
  show thesis
    using that [of s2] map st(1-5,7) ut upd2 kf ud by (simp add: s1_def s2_def)
qed

text \<open>
  What stays when pages of the address space at \<open>dir\<close> are placed and given up: the page directory, the
  heap's frames, the registers, and the memory outside the frames \<open>F\<close> that are written.
\<close>

definition space_rest :: "kstate \<Rightarrow> kstate \<Rightarrow> u32 \<Rightarrow> u32 set \<Rightarrow> bool" where
  "space_rest s s' dir F \<longleftrightarrow> upde s' dir = upde s dir \<and> udir s' dir = udir s dir
     \<and> virtualAddresses s' = virtualAddresses s \<and> number_of_frames s' = number_of_frames s
     \<and> kernel_frame s' = kernel_frame s \<and> disk_error s' = disk_error s \<and> curenv s' = curenv s
     \<and> reg_cr3 s' = reg_cr3 s \<and> PageRepAlgoType s' = PageRepAlgoType s
     \<and> (\<forall>h. h \<notin> F \<longrightarrow> phys s' h = phys s h)"

lemma space_rest_upd_env [simp]: "space_rest s (upd_env s' e g) dir F = space_rest s s' dir F"
proof -
  have "udir (upd_env s' e g) dir = udir s' dir" by (simp add: udir_def)
  moreover have "kernel_frame (upd_env s' e g) = kernel_frame s'"
    by (simp add: kernel_frame_def [abs_def] kdir_def ktab_def)
  moreover have "number_of_frames (upd_env s' e g) = number_of_frames s'" "PageRepAlgoType (upd_env s' e g) = PageRepAlgoType s'"
    by (simp_all add: upd_env_def)
  ultimately show ?thesis by (simp add: space_rest_def)
qed

lemma space_rest_trans:
  "space_rest s s1 dir F \<Longrightarrow> space_rest s1 s2 dir G \<Longrightarrow> space_rest s s2 dir (F \<union> G)"
  by (simp add: space_rest_def)

text \<open>A placed page: mapped to the frame, which holds its contents; nothing else is mapped differently.\<close>

lemma place_page_disk:
  assumes inv: "kheap_inv s" and us: "uspace s dir" and va: "va < USER_TOP" "upde s dir (PDX va) \<noteq> 0"
    and none: "utrans s dir va = None" and free: "free_frame_list s = f # fs"
    and disk: "on_disk s e va d t dfn" "\<not> disk_error s"
    and sep: "PPN (upde s dir (PDX va)) \<noteq> d" "PPN (upde s dir (PDX va)) \<noteq> t"
    and cpu: "PPN (reg_cr3 s) = udir s dir" "curenv s = Some e" "env_page_directory (envs s e) = dir"
    and ws: "ws_wf s e" "i < ws_size s e"
  shows "\<exists>s'. place_page s e va (of_nat i) = Inr s' \<and> page_placed s s' dir va f (page_file s dfn)
    \<and> free_frame_list s' = fs \<and> page_file s' = page_file s \<and> envs s' = (envs s)(e := placed_ws (envs s e) i va)
    \<and> space_rest s s' dir {f, PPN (upde s dir (PDX va))} \<and> upte s' dir va AND PERM_MODIFIED = 0"
proof -
  let ?T = "PPN (upde s dir (PDX va))" and ?ent = "CONSTRUCT_ENTRY (push_bit 12 f) (fault_perm OR PERM_PRESENT)"
    and ?pg = "page_file s dfn"
  note tk = took_frame_inv [OF inv free]
  obtain s2 where s2: "map_frame (took_frame s f fs) dir f va fault_perm = Inr s2"
      "s2 = phys_store (set_references (took_frame s f fs) f 1) ?T (PTX va) ?ent"
      "kheap_inv s2" "uspace s2 dir" "utrans s2 dir va = Some f" "upte s2 dir va = ?ent" "upde s2 dir = upde s dir"
      "\<forall>w. w < USER_TOP \<and> PPN w \<noteq> PPN va \<longrightarrow> utrans s2 dir w = utrans s dir w"
      "\<forall>w. KERNEL_BASE \<le> w \<longrightarrow> kframe s2 w = kframe s w" "kernel_frame s2 = kernel_frame s" "udir s2 dir = udir s dir"
    using place_map [OF inv us va none free] by metis
  have T: "virtualAddresses s ?T \<noteq> 0" "?T \<noteq> f" using uspace_present(2) [OF us va] tk(5) by auto
  have ve: "virtualAddresses s2 = virtualAddresses s" "envs s2 = envs s" "free_frame_list s2 = fs" "references s2 f = 1"
      "page_file s2 = page_file s" "disk_error s2 = disk_error s" "reg_cr3 s2 = reg_cr3 s" "curenv s2 = curenv s"
    by (simp_all add: s2(2) set_references_def phys_store_def references_def)
  have od: "on_disk s2 e va d t dfn"
    using disk(1) sep s2(9) ve by (auto simp: on_disk_def s2(2))
  have f: "\<not> kernel_frame s2 f" "virtualAddresses s2 f = 0" using tk(4,5) s2(10) ve by simp_all
  define s3 where "s3 = phys_store (phys_fill s2 f ?pg) ?T (PTX va) ?ent"
  have rd: "pf_read_env_page s2 e va = Inr (0, s3)"
    using read_mapped [OF s2(3,4) va(1) s2(5) f od] disk(2) cpu s2(6,7,11) ve
    by (simp add: s3_def fault_entry_clean)
  note fl = fill_space [OF s2(3,4) f, where pg = ?pg]
  have ne: "upde (phys_fill s2 f ?pg) dir (PDX va) \<noteq> 0" using fl(3) s2(7) va(2) by simp
  note st = user_store [OF fl(1,2) va(1) ne, where e = ?ent, unfolded fl(3) s2(7), folded s3_def]
  have ut3: "utrans s3 dir va = Some f"
    using utrans_eq [OF st(2) va(1)] utrans_eq [OF s2(4) va(1)] s2(5-7) st(3,4) fl(3) by (simp split: if_splits)
  have rf: "references s3 f = 1" "phys s3 f = ?pg" using ve(4) T(2) by (simp_all add: s3_def references_def)
  have es: "envs s3 = envs s" using ve(2) by (simp add: s3_def)
  have dk: "KERNEL_BASE \<le> dir" using us heap_page_kernel by (simp add: uspace_def)
  have ud3: "udir s3 dir = udir s dir"
    using uspace_dir(1) [OF st(1,2)] uspace_dir(1) [OF inv us] st(6) [OF dk] fl(7) [OF dk] s2(9) dk by simp
  have rest2: "PageRepAlgoType s2 = PageRepAlgoType s" "number_of_frames s2 = number_of_frames s"
    by (simp_all add: s2(2) took_frame_def initialize_frame_info_def set_references_def phys_store_def)
  have kf3: "kernel_frame s3 = kernel_frame s"
    using st(7) kheap_inv_fill(3) [OF s2(3) f(1)] s2(10) by simp
  have rest3: "space_rest s s3 dir {f, ?T}"
    using ve ud3 kf3 rest2 st(4) fl(3) s2(7) by (simp add: space_rest_def s3_def phys_store_def phys_fill_def) (simp add: s2(2))
  define s4 where "s4 = upd_env (upd_env s3 e (\<lambda>env. env\<lparr>pageWorkingSet := (pageWorkingSet env)[i :=
      \<lparr>ws_virtual_address = ROUNDDOWN va PAGE_SIZE, ws_empty = 0, ws_time_stamp = 0x80000000\<rparr>]\<rparr>)) e
      (\<lambda>env. env\<lparr>page_last_WS_index := (of_nat i + 1) mod page_WS_max_size env\<rparr>)"
  have "place_page s e va (of_nat i) = Inr s4"
    using tk(1) s2(1) rd cpu(3) ws ws_index [OF ws(2)] va(1) es
    by (simp add: place_page_def fault_perm_def [symmetric] env_page_ws_set_entry_def set_page_ws_def ws_write_def
        ws_wf_def s4_def ws_size_def upd_env_def)
  moreover have "page_placed s s4 dir va f ?pg"
    unfolding page_placed_def using ut3 rf st(1,2,5,6) s2(8,9) fl(6,7) by (simp add: s4_def)
  moreover have "free_frame_list s4 = fs" "page_file s4 = page_file s" "envs s4 = (envs s)(e := placed_ws (envs s e) i va)"
    using ve es ws_next [OF ws(2)] by (simp_all add: s4_def s3_def placed_ws_def ws_size_def)
  moreover have "space_rest s s4 dir {f, ?T}" using rest3 by (simp add: s4_def)
  moreover have "upte s4 dir va AND PERM_MODIFIED = 0" using st(3) fault_entry_unmodified by (simp add: s4_def)
  ultimately show ?thesis by blast
qed

section \<open>A fault on a page of the page file\<close>

text \<open>
  The page of \<open>va\<close> can be brought in from disk frame \<open>dfn\<close>: the environment is running, the table of
  the page exists, the page is not mapped, the page file holds it, and the disk structures are not
  tables of the environment.
\<close>

definition disk_apart :: "kstate \<Rightarrow> u32 \<Rightarrow> u32 \<Rightarrow> u32 \<Rightarrow> bool" where
  "disk_apart s dir d t \<longleftrightarrow> (\<forall>i. user_index i \<and> upde s dir i \<noteq> 0 \<longrightarrow> PPN (upde s dir i) \<noteq> d \<and> PPN (upde s dir i) \<noteq> t)"

definition can_place :: "kstate \<Rightarrow> nat \<Rightarrow> u32 \<Rightarrow> u32 \<Rightarrow> bool" where
  "can_place s e va dfn \<longleftrightarrow>
     (let dir = env_page_directory (envs s e) in
      kheap_inv s \<and> uspace s dir \<and> va < USER_TOP \<and> upde s dir (PDX va) \<noteq> 0 \<and> utrans s dir va = None
      \<and> \<not> disk_error s \<and> curenv s = Some e \<and> PPN (reg_cr3 s) = udir s dir
      \<and> (\<exists>d t. on_disk s e va d t dfn \<and> disk_apart s dir d t))"

lemma place_page_placed:
  assumes "can_place s e va dfn" and "free_frame_list s = f # fs" and "ws_wf s e" and "i < ws_size s e"
  shows "\<exists>s'. place_page s e va (of_nat i) = Inr s'
    \<and> page_placed s s' (env_page_directory (envs s e)) va f (page_file s dfn)
    \<and> free_frame_list s' = fs \<and> page_file s' = page_file s \<and> envs s' = (envs s)(e := placed_ws (envs s e) i va)
    \<and> space_rest s s' (env_page_directory (envs s e)) {f, PPN (upde s (env_page_directory (envs s e)) (PDX va))}
    \<and> upte s' (env_page_directory (envs s e)) va AND PERM_MODIFIED = 0"
proof -
  let ?dir = "env_page_directory (envs s e)"
  have c: "kheap_inv s" "uspace s ?dir" "va < USER_TOP" "upde s ?dir (PDX va) \<noteq> 0" "utrans s ?dir va = None"
      "\<not> disk_error s" "curenv s = Some e" "PPN (reg_cr3 s) = udir s ?dir"
    using assms(1) by (simp_all add: can_place_def Let_def)
  obtain d t where od: "on_disk s e va d t dfn" "disk_apart s ?dir d t"
    using assms(1) by (auto simp: can_place_def Let_def)
  have sep: "PPN (upde s ?dir (PDX va)) \<noteq> d" "PPN (upde s ?dir (PDX va)) \<noteq> t"
    using od(2) c(4) user_PDX [OF c(3)] by (auto simp: disk_apart_def)
  show ?thesis by (rule place_page_disk [OF c(1-5) assms(2) od(1) c(6) sep c(8,7) refl assms(3,4)])
qed

text \<open>The distance from index \<open>a\<close> to the first empty entry.\<close>

definition first_empty :: "kstate \<Rightarrow> nat \<Rightarrow> nat \<Rightarrow> nat \<Rightarrow> bool" where
  "first_empty s e a d \<longleftrightarrow> d < ws_size s e \<and> ws_empty (ws_entry s e ((a + d) mod ws_size s e)) \<noteq> 0
     \<and> (\<forall>d' < d. ws_empty (ws_entry s e ((a + d') mod ws_size s e)) = 0)"

text \<open>When the size of the working set is below its maximum, an entry is empty.\<close>

lemma ws_count_eq:
  "ws_count (length ws) ws = of_nat (length (filter (\<lambda>w. ws_empty w = 0) ws))"
proof -
  have "fold (\<lambda>w counter. if ws_empty w = 0 then counter + 1 else counter) ws c
      = c + of_nat (length (filter (\<lambda>w. ws_empty w = 0) ws))" for c :: u32
    by (induction ws arbitrary: c) simp_all
  then show ?thesis by (simp add: ws_count_def)
qed

lemma room_has_empty:
  assumes ws: "ws_wf s e" and room: "env_page_ws_get_size s e < page_WS_max_size (envs s e)"
  shows "\<exists>k < ws_size s e. ws_empty (ws_entry s e k) \<noteq> 0"
proof (rule ccontr)
  let ?ws = "pageWorkingSet (envs s e)"
  assume "\<not> ?thesis"
  then have "\<forall>w \<in> set ?ws. ws_empty w = 0"
    using ws by (auto simp: in_set_conv_nth ws_wf_def ws_size_def ws_entry_def)
  then have "filter (\<lambda>w. ws_empty w = 0) ?ws = ?ws" by simp
  then have "env_page_ws_get_size s e = page_WS_max_size (envs s e)"
    using ws ws_count_eq [of ?ws] by (simp add: env_page_ws_get_size_def ws_wf_def)
  then show False using room by simp
qed

section \<open>Giving up a page\<close>

text \<open>What evict() leaves: the page of entry \<open>i\<close> unmapped, its frame \<open>g\<close> free and the entry empty.\<close>

definition evicted :: "kstate \<Rightarrow> kstate \<Rightarrow> nat \<Rightarrow> nat \<Rightarrow> u32 \<Rightarrow> bool" where
  "evicted s s' e i g \<longleftrightarrow>
     (let dir = env_page_directory (envs s e); v = ws_page s e i in
      free_frame_list s' = g # free_frame_list s \<and> utrans s' dir v = None
      \<and> (\<forall>w. w < USER_TOP \<and> PPN w \<noteq> PPN v \<longrightarrow> utrans s' dir w = utrans s dir w)
      \<and> (\<forall>w. KERNEL_BASE \<le> w \<longrightarrow> kframe s' w = kframe s w)
      \<and> envs s' = (envs s)(e := (envs s e)\<lparr>pageWorkingSet := (pageWorkingSet (envs s e))[i := cleared_entry]\<rparr>)
      \<and> space_rest s s' dir {PPN (upde s dir (PDX v))})"

text \<open>The last steps of evict(): unmap\_frame() and clearing the entry.\<close>

lemma give_up:
  assumes can: "can_place s e va dfn" and wf: "ws_wf s e" and i: "i < ws_size s e"
    and w: "ws_page s e i < USER_TOP" "utrans s (env_page_directory (envs s e)) (ws_page s e i) = Some g"
    and g: "user_frame s g" "references s g = 1"
  defines "dir \<equiv> env_page_directory (envs s e)" and "v \<equiv> ws_page s e i"
  obtains s' where "rbind (unmap_frame s dir v) (\<lambda>s. env_page_ws_clear_entry s e (of_nat i)) = Inr s'"
    and "can_place s' e va dfn" and "evicted s s' e i g" and "page_file s' = page_file s"
proof -
  let ?T = "PPN (upde s dir (PDX v))"
  have c: "kheap_inv s" "uspace s dir" "va < USER_TOP" "upde s dir (PDX va) \<noteq> 0" "utrans s dir va = None"
      "\<not> disk_error s" "curenv s = Some e" "PPN (reg_cr3 s) = udir s dir"
    using can by (simp_all add: can_place_def dir_def Let_def)
  obtain d t where od: "on_disk s e va d t dfn" "disk_apart s dir d t"
    using can by (auto simp: can_place_def dir_def Let_def)
  note w = w [folded dir_def v_def]
  define s1 where "s1 = decrement_references s g"
  define s2 where "s2 = phys_store s1 ?T (PTX v) 0"
  note dc = decrement_user [OF c(1) g(1), folded s1_def]
  note cg = uspace_cong [OF dc(5-7)]
  have ne: "upde s dir (PDX v) \<noteq> 0" using utrans_Some(1) [OF c(2) w] .
  have us1: "uspace s1 dir" "upde s1 dir (PDX v) \<noteq> 0" using c(2) cg ne by simp_all
  note st = user_store [OF dc(1) us1(1) w(1) us1(2), where e = 0, unfolded cg, folded s2_def]
  have other: "envs s1 = envs s" "page_file s1 = page_file s" "disk_error s1 = disk_error s" "curenv s1 = curenv s"
      "reg_cr3 s1 = reg_cr3 s" "PageRepAlgoType s1 = PageRepAlgoType s" "number_of_frames s1 = number_of_frames s"
    by (simp_all add: s1_def decrement_references_def free_frame_def initialize_frame_info_def set_references_def Let_def)
  have same: "envs s2 = envs s" "page_file s2 = page_file s" "disk_error s2 = disk_error s" "curenv s2 = curenv s"
      "reg_cr3 s2 = reg_cr3 s" "virtualAddresses s2 = virtualAddresses s" "free_frame_list s2 = g # free_frame_list s"
    using other dc(2,7) g(2) by (simp_all add: s2_def phys_store_def)
  have "?T \<noteq> d" "?T \<noteq> t" using od(2) ne user_PDX [OF w(1)] by (auto simp: disk_apart_def)
  then have od2: "on_disk s2 e va d t dfn"
    using od(1) st(6) same dc(5) by (auto simp: on_disk_def s2_def)
  have upd2: "upde s2 dir = upde s dir" by (rule st(4))
  have dk: "KERNEL_BASE \<le> dir" using c(2) heap_page_kernel by (simp add: uspace_def)
  have ud: "udir s2 dir = udir s dir"
    using uspace_dir(1) [OF st(1,2)] uspace_dir(1) [OF c(1,2)] st(6) [OF dk] by simp
  have va: "PPN va \<noteq> PPN v" using utrans_page [of va v s dir] c(5) w(2) by auto
  define s3 where "s3 = upd_env s2 e (\<lambda>env. env\<lparr>pageWorkingSet := (pageWorkingSet env)[i := cleared_entry]\<rparr>)"
  have "rbind (unmap_frame s dir v) (\<lambda>s. env_page_ws_clear_entry s e (of_nat i)) = Inr s3"
    using unmap_user_run [OF c(1,2) w g(1)] same(1) ws_index [OF i] wf i
    by (simp add: s1_def [symmetric] s2_def [symmetric] env_page_ws_clear_entry_def set_page_ws_def ws_write_def
        ws_wf_def ws_size_def s3_def upd_env_def)
  moreover have "can_place s3 e va dfn"
    using c st(1,2,5) upd2 ud same od(2) od2 va
    by (auto simp: can_place_def Let_def s3_def dir_def [symmetric] on_disk_def disk_apart_def udir_def)
  moreover have "space_rest s s2 dir {?T}"
    using upd2 ud same other dc st(7) by (simp add: space_rest_def s2_def phys_store_def)
  then have "evicted s s3 e i g"
    using same st(5,6) utrans_eq [OF st(2) w(1)] st(3) unfolding evicted_def Let_def dir_def [symmetric] v_def [symmetric]
    by (simp add: s3_def)
  moreover have "page_file s3 = page_file s" using same(2) by (simp add: s3_def)
  ultimately show thesis by (rule that)
qed

text \<open>Up to there, evict() reads the entry, and writes the page if it was modified.\<close>

lemma evict_reads:
  assumes can: "can_place s e va dfn" and wf: "ws_wf s e" and i: "i < ws_size s e"
    and w: "ws_page s e i < USER_TOP" "utrans s (env_page_directory (envs s e)) (ws_page s e i) = Some g"
    and g: "g < number_of_frames s"
  defines "dir \<equiv> env_page_directory (envs s e)" and "v \<equiv> ws_page s e i"
  shows "evict s e (of_nat i) =
    rbind (if upte s dir v AND PERM_MODIFIED \<noteq> 0 then rbind (pf_update_env_page s e v g) (\<lambda>(_, s). Inr s) else Inr s)
      (\<lambda>s. rbind (unmap_frame s dir v) (\<lambda>s. env_page_ws_clear_entry s e (of_nat i)))"
proof -
  have c: "kheap_inv s" "uspace s dir" using can by (simp_all add: can_place_def dir_def Let_def)
  note w = w [folded dir_def v_def]
  have ne: "upde s dir (PDX v) \<noteq> 0" using utrans_Some(1) [OF c(2) w] .
  show ?thesis
    using ws_reads(2) [OF wf i] user_get_frame_info [OF c(1,2) w g] user_kload [OF c(1,2) w(1) ne]
    by (simp add: evict_def Let_def dir_def [symmetric] v_def [symmetric] ws_page_def [symmetric])
qed

lemma evict_clean:
  assumes can: "can_place s e va dfn" and wf: "ws_wf s e" and i: "i < ws_size s e"
    and w: "ws_page s e i < USER_TOP" "utrans s (env_page_directory (envs s e)) (ws_page s e i) = Some g"
    and g: "user_frame s g" "references s g = 1"
    and clean: "upte s (env_page_directory (envs s e)) (ws_page s e i) AND PERM_MODIFIED = 0"
  obtains s' where "evict s e (of_nat i) = Inr s'" and "can_place s' e va dfn" and "evicted s s' e i g"
    and "page_file s' = page_file s"
proof -
  have "g < number_of_frames s" using g(1) by (simp add: user_frame_def)
  from give_up [OF can wf i w g] evict_reads [OF can wf i w this] clean that show thesis by simp metis
qed

section \<open>A concrete fault\<close>

text \<open>
  The sample address space with page 0x80000000 in frame 150. For the page file, frame 2 plays the disk
  directory, and its entry 512 refers to the frame of the page directory, whose entry 512 is not zero.
\<close>

definition paged_env :: "WorkingSetElement list \<Rightarrow> Env" where
  "paged_env ws = zero_env\<lparr>env_page_directory := 0xF6000000, disk_env_pgdir := 0xF0002000,
     page_WS_max_size := of_nat (length ws), pageWorkingSet := ws\<rparr>"

definition paged_state :: "kstate \<Rightarrow> WorkingSetElement list \<Rightarrow> kstate" where
  "paged_state s ws =
     (let t = udir s 0xF6000000 in
      (phys_fill s 2 (\<lambda>_. push_bit 12 t OR 3))\<lparr>curenv := Some 0, envs := (\<lambda>_. paged_env ws), disk_error := False,
        reg_cr3 := push_bit 12 t, PageRepAlgoType := PG_REP_FIFO\<rparr>)"

lemma sample_clean:
  "\<exists>s. kheap_inv s \<and> uspace s 0xF6000000 \<and> utrans s 0xF6000000 0x80000000 = Some 150
     \<and> user_frame s 150 \<and> references s 150 = 1 \<and> free_frame_list s = [102] \<and> user_frame s 2
     \<and> kframe s 0xF0002000 = Some 2 \<and> utrans s 0xF6000000 0x80200000 = None
     \<and> upte s 0xF6000000 0x80000000 AND PERM_MODIFIED = 0"
proof -
  let ?dir = "0xF6000000 :: u32" and ?va = "0x80000000 :: u32"
  obtain s where s: "kheap_inv s" "uspace s ?dir" "utrans s ?dir ?va = Some 150" "user_frame s 150"
      "references s 150 = 1" "free_frame_list s = [102]" "user_frame s 2" "kframe s 0xF0002000 = Some 2"
      "utrans s ?dir 0x80200000 = None" using sample_mapped by blast
  have lt: "?va < USER_TOP" "(0x80200000 :: u32) < USER_TOP" "KERNEL_BASE \<le> 0xF0002000" by (simp_all add: fos_consts)
  have ne: "upde s ?dir (PDX ?va) \<noteq> 0" using utrans_Some(1) [OF s(2) lt(1) s(3)] .
  note st = user_store [OF s(1,2) lt(1) ne, where e = "0x96007"]
  have p: "PPN 0x80200000 \<noteq> PPN ?va" "PPN 0x96007 = 150" by (simp_all add: PPN_def)
  show ?thesis
    using st s lt p ne utrans_eq [OF st(2) lt(1)]
    by (intro exI [of _ "phys_store s (PPN (upde s ?dir (PDX ?va))) (PTX ?va) 0x96007"])
       (simp add: user_frame_def references_def PERM_PRESENT_def PERM_MODIFIED_def)
qed

lemma kheap_inv_cong:
  assumes "phys s' = phys s" "phys_page_directory s' = phys_page_directory s" "virtualAddresses s' = virtualAddresses s"
    "ptr_page_directory s' = ptr_page_directory s" "number_of_frames s' = number_of_frames s"
    "free_frame_list s' = free_frame_list s" "frames_info s' = frames_info s" "firstFreeVAInKHeap s' = firstFreeVAInKHeap s"
  shows "kheap_inv s' = kheap_inv s"
proof -
  have "kpte s' = kpte s" "kernel_frame s' = kernel_frame s"
    using assms by (simp_all add: kpte_def [abs_def] kernel_frame_def [abs_def] ktab_def kdir_def)
  then show ?thesis
    using assms kmap_inv_cong [OF assms(1,2,4,5)] by (simp add: kheap_inv_def free_frames_inv_def heap_mapped_def)
qed

lemma paged_space:
  fixes ws :: "WorkingSetElement list"
  assumes inv: "kheap_inv s" and us: "uspace s 0xF6000000" and two: "user_frame s 2" "kframe s 0xF0002000 = Some 2"
  defines "s' \<equiv> paged_state s ws" and "t \<equiv> udir s 0xF6000000"
  shows "kheap_inv s'" and "uspace s' 0xF6000000" and "upde s' 0xF6000000 = upde s 0xF6000000"
    and "udir s' 0xF6000000 = t"
    and "w < USER_TOP \<Longrightarrow> utrans s' 0xF6000000 w = utrans s 0xF6000000 w"
    and "w < USER_TOP \<Longrightarrow> upde s 0xF6000000 (PDX w) \<noteq> 0 \<Longrightarrow> upte s' 0xF6000000 w = upte s 0xF6000000 w"
    and "KERNEL_BASE \<le> w \<Longrightarrow> kframe s' w = kframe s w"
    and "user_frame s f \<Longrightarrow> user_frame s' f" and "references s' f = references s f"
    and "free_frame_list s' = free_frame_list s" and "kernel_frame s' = kernel_frame s"
    and "PDX w = 512 \<Longrightarrow> upde s 0xF6000000 (PTX w) \<noteq> 0 \<Longrightarrow> on_disk s' 0 w 2 t (upde s 0xF6000000 (PTX w))"
    and "disk_apart s' 0xF6000000 2 t"
proof -
  let ?dir = "0xF6000000 :: u32"
  define s1 where "s1 = phys_fill s 2 (\<lambda>_. push_bit 12 t OR 3)"
  have f: "\<not> kernel_frame s 2" "virtualAddresses s 2 = 0" using two by (simp_all add: user_frame_def)
  note fl = fill_space [OF inv us f, where pg = "\<lambda>_. push_bit 12 t OR 3", folded s1_def]
  have eq: "s' = s1\<lparr>curenv := Some 0, envs := (\<lambda>_. paged_env ws), disk_error := False,
        reg_cr3 := push_bit 12 t, PageRepAlgoType := PG_REP_FIFO\<rparr>" by (simp add: s'_def paged_state_def s1_def Let_def t_def)
  have p: "phys s' = phys s1" "phys_page_directory s' = phys_page_directory s1" "virtualAddresses s' = virtualAddresses s1"
    by (simp_all add: eq)
  note cg = uspace_cong [OF p]
  show "kheap_inv s'" using fl(1) kheap_inv_cong [of s' s1] by (simp add: eq)
  show "uspace s' ?dir" "upde s' ?dir = upde s ?dir" using cg fl(2,3) by simp_all
  show "w < USER_TOP \<Longrightarrow> utrans s' ?dir w = utrans s ?dir w" using cg fl(6) by simp
  show "w < USER_TOP \<Longrightarrow> upde s ?dir (PDX w) \<noteq> 0 \<Longrightarrow> upte s' ?dir w = upte s ?dir w" using cg fl(5) by simp
  show kf: "KERNEL_BASE \<le> w \<Longrightarrow> kframe s' w = kframe s w" for w using cg fl(7) by simp
  have "kernel_frame s1 = kernel_frame s" using kheap_inv_fill(3) [OF inv f(1)] by (simp add: s1_def)
  moreover have "kernel_frame s' = kernel_frame s1" by (simp add: kernel_frame_def [abs_def] kdir_def ktab_def p)
  ultimately show k: "kernel_frame s' = kernel_frame s" by simp
  then show "user_frame s f \<Longrightarrow> user_frame s' f" by (simp add: user_frame_def) (simp add: eq s1_def)
  show "references s' f = references s f" "free_frame_list s' = free_frame_list s"
    by (simp_all add: eq s1_def references_def)
  show "udir s' ?dir = t" using fl(4) by (simp add: udir_def kpte_def ktab_def kdir_def p t_def)
  have t: "virtualAddresses s t \<noteq> 0" "t \<noteq> 2" using uspace_dir(3) [OF inv us] f(2) by (auto simp: t_def)
  have "heap_page ?dir" "kpte s ?dir \<noteq> 0" using us unfolding uspace_def by blast+
  then have "kmap_inv s" "t < number_of_frames s" using inv unfolding kheap_inv_def udir_def t_def by blast+
  then have tb: "t < 0x100000" by (rule frame_bound)
  have pe: "disk_env_pgdir (envs s' 0) = 0xF0002000" by (simp add: eq paged_env_def)
  have ph: "phys s' 2 512 = push_bit 12 t OR 3" "phys s' t = phys s t" using t by (simp_all add: p s1_def)
  have lt: "KERNEL_BASE \<le> 0xF0002000" by (simp add: fos_consts)
  have k2: "kframe s' 0xF0002000 = Some 2" using kf [OF lt] two(2) by simp
  have vs: "virtualAddresses s' t \<noteq> 0" using t(1) by (simp add: p s1_def)
  have "push_bit 12 t OR 3 \<noteq> 0" using present_neq_0 [OF sample_entry(2) [OF tb]] .
  then show "PDX w = 512 \<Longrightarrow> upde s ?dir (PTX w) \<noteq> 0 \<Longrightarrow> on_disk s' 0 w 2 t (upde s ?dir (PTX w))"
    unfolding on_disk_def pe using k2 ph lt vs sample_entry(1) [OF tb] by (simp add: upde_def t_def)
  show "disk_apart s' ?dir 2 t" unfolding disk_apart_def cg(2) fl(3) t_def
    using us f(2) unfolding uspace_def by metis
qed

lemma paged_place:
  fixes ws :: "WorkingSetElement list"
  assumes inv: "kheap_inv s" and us: "uspace s 0xF6000000" and two: "user_frame s 2" "kframe s 0xF0002000 = Some 2"
    and va: "va < USER_TOP" "PDX va = 512" "upde s 0xF6000000 512 \<noteq> 0" "upde s 0xF6000000 (PTX va) \<noteq> 0"
    and n: "utrans s 0xF6000000 va = None"
  shows "can_place (paged_state s ws) 0 va (upde s 0xF6000000 (PTX va))"
proof -
  let ?dir = "0xF6000000 :: u32" and ?s = "paged_state s ws"
  note sp = paged_space [OF inv us two, where ws = ws]
  have "heap_page ?dir" "kpte s ?dir \<noteq> 0" using us unfolding uspace_def by blast+
  then have "kmap_inv s" "udir s ?dir < number_of_frames s" using inv unfolding kheap_inv_def udir_def by blast+
  then have tb: "udir s ?dir < 0x100000" by (rule frame_bound)
  have pe: "env_page_directory (envs ?s 0) = ?dir" "curenv ?s = Some 0" "\<not> disk_error ?s" "PPN (reg_cr3 ?s) = udir s ?dir"
    using PPN_push_bit [OF tb] by (simp_all add: paged_state_def Let_def paged_env_def)
  have u: "upde ?s ?dir (PDX va) \<noteq> 0" "utrans ?s ?dir va = None" using va n sp(3,5) by simp_all
  show ?thesis
    unfolding can_place_def Let_def pe(1,4) sp(4)
    using sp(1,2) va(1) u pe(2,3) sp(12) [OF va(2,4)] sp(13) by blast
qed

lemma paged_can_place:
  fixes ws :: "WorkingSetElement list"
  assumes inv: "kheap_inv s" and us: "uspace s 0xF6000000" and m: "utrans s 0xF6000000 0x80000000 = Some 150"
    and two: "user_frame s 2" "kframe s 0xF0002000 = Some 2" and n: "utrans s 0xF6000000 0x80200000 = None"
  defines "s' \<equiv> paged_state s ws"
  shows "can_place s' 0 0x80200000 (upde s 0xF6000000 512)"
    and "utrans s' 0xF6000000 0x80000000 = Some 150"
    and "upte s' 0xF6000000 0x80000000 = upte s 0xF6000000 0x80000000"
    and "user_frame s 150 \<Longrightarrow> user_frame s' 150" and "references s' 150 = references s 150"
    and "free_frame_list s' = free_frame_list s"
proof -
  have lt: "(0x80000000 :: u32) < USER_TOP" "(0x80200000 :: u32) < USER_TOP" by (simp_all add: fos_consts)
  have ix: "PDX 0x80000000 = 512" "PDX 0x80200000 = 512" "PTX 0x80200000 = 512" by (simp_all add: PDX_def PTX_def)
  have ne: "upde s 0xF6000000 512 \<noteq> 0" using utrans_Some(1) [OF us lt(1) m] ix by simp
  note sp = paged_space [OF inv us two, where ws = ws, folded s'_def]
  show "can_place s' 0 0x80200000 (upde s 0xF6000000 512)"
    using paged_place [OF inv us two lt(2) ix(2), where ws = ws] ne n ix by (simp add: s'_def)
  show "utrans s' 0xF6000000 0x80000000 = Some 150" "upte s' 0xF6000000 0x80000000 = upte s 0xF6000000 0x80000000"
    using sp(5,6) lt(1) m ne ix by simp_all
qed (rule paged_space [OF inv us two, where ws = ws, folded s'_def], assumption
  | rule paged_space [OF inv us two, where ws = ws, folded s'_def])+

lemma paged_env:
  "page_WS_max_size (envs (paged_state s ws) e) = of_nat (length ws)" "pageWorkingSet (envs (paged_state s ws) e) = ws"
  "env_page_directory (envs (paged_state s ws) e) = 0xF6000000" "page_last_WS_index (envs (paged_state s ws) e) = 0"
  "PageRepAlgoType (paged_state s ws) = PG_REP_FIFO"
  by (simp_all add: paged_state_def paged_env_def zero_env_def Let_def)

section \<open>Page faults\<close>

lemma page_fault_room:
  assumes can: "can_place s e va dfn" and free: "free_frame_list s = f # fs" and ws: "ws_wf s e"
    and room: "env_page_ws_get_size s e < page_WS_max_size (envs s e)"
  shows "\<exists>s' d. page_fault_handler s e va = Inr s'
    \<and> page_placed s s' (env_page_directory (envs s e)) va f (page_file s dfn) \<and> free_frame_list s' = fs
    \<and> first_empty s e (unat (page_last_WS_index (envs s e))) d
    \<and> envs s' = (envs s)(e := placed_ws (envs s e) ((unat (page_last_WS_index (envs s e)) + d) mod ws_size s e) va)
    \<and> curenv s' = curenv s \<and> reg_cr3 s' = reg_cr3 s"
proof -
  let ?a = "unat (page_last_WS_index (envs s e))"
  have a: "?a < ws_size s e" using ws by (simp add: ws_wf_def ws_size_def word_less_nat_alt)
  obtain k where "k < ws_size s e" "ws_empty (ws_entry s e k) \<noteq> 0" using room_has_empty [OF ws room] by blast
  then obtain d where d: "first_empty s e ?a d"
    using round_from [OF a, of k "\<lambda>k. ws_empty (ws_entry s e k) \<noteq> 0"] by (auto simp: first_empty_def)
  have "find_empty (ws_size s e + 1) (of_nat ?a) s e = Inr (of_nat ((?a + d) mod ws_size s e))"
    using find_empty_first [OF ws a, of d "ws_size s e + 1"] d by (simp add: first_empty_def)
  then have h: "page_fault_handler s e va = place_page s e va (of_nat ((?a + d) mod ws_size s e))"
    using room by (simp add: page_fault_handler_def ws_size_def not_le [symmetric])
  have "(?a + d) mod ws_size s e < ws_size s e" using a by simp
  then obtain s' where "page_fault_handler s e va = Inr s'"
      "page_placed s s' (env_page_directory (envs s e)) va f (page_file s dfn)" "free_frame_list s' = fs"
      "envs s' = (envs s)(e := placed_ws (envs s e) ((?a + d) mod ws_size s e) va)"
      "space_rest s s' (env_page_directory (envs s e)) {f, PPN (upde s (env_page_directory (envs s e)) (PDX va))}"
    unfolding h using place_page_placed [OF can free ws] by blast
  then show ?thesis using d by (auto simp: space_rest_def)
qed

text \<open>
  A page fault when the working set has room: the handler returns, the page is mapped to the first
  free frame, which holds the page's contents from the page file and has one reference; the first empty
  working-set entry from the last index on records the page; no other translation changes.
\<close>

theorem page_fault_places:
  assumes can: "can_place s e va dfn" and free: "free_frame_list s = f # fs" and ws: "ws_wf s e"
    and room: "env_page_ws_get_size s e < page_WS_max_size (envs s e)"
  shows "\<exists>s' d. page_fault_handler s e va = Inr s'
    \<and> page_placed s s' (env_page_directory (envs s e)) va f (page_file s dfn) \<and> free_frame_list s' = fs
    \<and> first_empty s e (unat (page_last_WS_index (envs s e))) d
    \<and> envs s' = (envs s)(e := placed_ws (envs s e) ((unat (page_last_WS_index (envs s e)) + d) mod ws_size s e) va)"
  using page_fault_room [OF assms] by blast

theorem page_fault_places_witness:
  "\<exists>s s'. page_fault_handler s 0 0x80200000 = Inr s' \<and> utrans s 0xF6000000 0x80200000 = None
     \<and> utrans s' 0xF6000000 0x80200000 = Some 102 \<and> references s' 102 = 1 \<and> free_frame_list s' = []"
proof -
  let ?ws = "[\<lparr>ws_virtual_address = 0x80000000, ws_empty = 0, ws_time_stamp = 7\<rparr>, cleared_entry]"
  obtain s0 where s0: "kheap_inv s0" "uspace s0 0xF6000000" "utrans s0 0xF6000000 0x80000000 = Some 150"
      "user_frame s0 2" "kframe s0 0xF0002000 = Some 2" "utrans s0 0xF6000000 0x80200000 = None"
      "free_frame_list s0 = [102]" using sample_clean by blast
  let ?s = "paged_state s0 ?ws"
  note c = paged_can_place [OF s0(1-6), of ?ws]
  have ws: "ws_wf ?s 0" "env_page_ws_get_size ?s 0 < page_WS_max_size (envs ?s 0)"
    using paged_env [of s0 ?ws] by (simp_all add: ws_wf_def env_page_ws_get_size_def ws_count_def cleared_entry_def)
  have "utrans ?s 0xF6000000 0x80200000 = None" using c(1) paged_env(3) [of s0 ?ws] by (simp add: can_place_def Let_def)
  then show ?thesis
    using page_fault_places [OF c(1) c(6) [unfolded s0(7)] ws] paged_env(3) [of s0 ?ws] by (auto simp: page_placed_def)
qed

text \<open>A page fault on a full working set, from the state in which the victim has been given up.\<close>

definition replaced :: "kstate \<Rightarrow> kstate \<Rightarrow> nat \<Rightarrow> u32 \<Rightarrow> nat \<Rightarrow> u32 \<Rightarrow> page \<Rightarrow> bool" where
  "replaced s s' e va i g pg \<longleftrightarrow>
     (let dir = env_page_directory (envs s e); v = ws_page s e i in
      kheap_inv s' \<and> uspace s' dir \<and> utrans s' dir va = Some g \<and> phys s' g = pg \<and> references s' g = 1
      \<and> utrans s' dir v = None
      \<and> (\<forall>w. w < USER_TOP \<and> PPN w \<noteq> PPN va \<and> PPN w \<noteq> PPN v \<longrightarrow> utrans s' dir w = utrans s dir w)
      \<and> (\<forall>w. KERNEL_BASE \<le> w \<longrightarrow> kframe s' w = kframe s w)
      \<and> free_frame_list s' = free_frame_list s \<and> envs s' = (envs s)(e := placed_ws (envs s e) i va)
      \<and> space_rest s s' dir {g, PPN (upde s dir (PDX va)), PPN (upde s dir (PDX v))}
      \<and> upte s' dir va AND PERM_MODIFIED = 0)"

lemma fault_replace:
  assumes can: "can_place s e va dfn" and ws: "ws_wf s e"
    and full: "page_WS_max_size (envs s e) \<le> env_page_ws_get_size s e"
    and victim: "choose_victim s e = Inr (of_nat i, s)" "i < ws_size s e"
    and w: "ws_page s e i < USER_TOP" "utrans s (env_page_directory (envs s e)) (ws_page s e i) = Some g"
    and s1: "evict s e (of_nat i) = Inr s1" "can_place s1 e va dfn" "evicted s s1 e i g"
  obtains s' where "page_fault_handler s e va = Inr s'" and "replaced s s' e va i g (page_file s1 dfn)"
    and "page_file s' = page_file s1"
proof -
  let ?dir = "env_page_directory (envs s e)" and ?v = "ws_page s e i"
  have ev: "free_frame_list s1 = g # free_frame_list s" "utrans s1 ?dir ?v = None"
      "\<forall>w. w < USER_TOP \<and> PPN w \<noteq> PPN ?v \<longrightarrow> utrans s1 ?dir w = utrans s ?dir w"
      "\<forall>w. KERNEL_BASE \<le> w \<longrightarrow> kframe s1 w = kframe s w"
      "envs s1 = (envs s)(e := (envs s e)\<lparr>pageWorkingSet := (pageWorkingSet (envs s e))[i := cleared_entry]\<rparr>)"
      "space_rest s s1 ?dir {PPN (upde s ?dir (PDX ?v))}"
    using s1(3) by (simp_all add: evicted_def Let_def)
  have sz: "ws_size s1 e = ws_size s e" "ws_wf s1 e" "ws_empty (ws_entry s1 e i) \<noteq> 0"
    using ws victim(2) ev(5) by (simp_all add: ws_size_def ws_wf_def ws_entry_def cleared_entry_def)
  have i1: "i < ws_size s1 e" using victim(2) sz(1) by simp
  have "find_empty (ws_size s1 e + 1) (of_nat i) s1 e = Inr (of_nat i)"
    using find_empty_first [OF sz(2) i1, of 0 "ws_size s1 e + 1"] sz(3) i1 by simp
  then have h: "page_fault_handler s e va = place_page s1 e va (of_nat i)"
    using full victim(1) s1(1) by (simp add: page_fault_handler_def ws_size_def)
  have dir1: "env_page_directory (envs s1 e) = ?dir" using ev(5) by simp
  obtain s' where s': "place_page s1 e va (of_nat i) = Inr s'"
      "page_placed s1 s' ?dir va g (page_file s1 dfn)" "free_frame_list s' = free_frame_list s"
      "page_file s' = page_file s1" "envs s' = (envs s1)(e := placed_ws (envs s1 e) i va)"
      "space_rest s1 s' ?dir {g, PPN (upde s1 ?dir (PDX va))}" "upte s' ?dir va AND PERM_MODIFIED = 0"
    using place_page_placed [OF s1(2) ev(1) sz(2) i1] dir1 by auto
  have v: "PPN ?v \<noteq> PPN va" using utrans_page [of ?v va s ?dir] can w(2) by (auto simp: can_place_def Let_def)
  then have "utrans s' ?dir ?v = None" using s'(2) w(1) ev(2) by (simp add: page_placed_def)
  moreover have "placed_ws (envs s1 e) i va = placed_ws (envs s e) i va" using ev(5) by (simp add: placed_ws_def)
  moreover have "space_rest s s' ?dir {g, PPN (upde s ?dir (PDX va)), PPN (upde s ?dir (PDX ?v))}"
    using space_rest_trans [OF ev(6) s'(6)] ev(6) by (auto simp: space_rest_def)
  ultimately have "replaced s s' e va i g (page_file s1 dfn)"
    unfolding replaced_def Let_def using s'(2,3,5,7) ev(3-5) by (auto simp: page_placed_def)
  then show thesis using that [of s'] s'(1,4) h by simp
qed

text \<open>
  C3. A page fault when the working set is full and the victim the algorithm chooses, entry i, has not
  been modified: the handler returns, the victim's page is no longer mapped, the faulting page is
  mapped to the victim's frame with the contents the page file has for it and takes over the victim's
  entry, the last index moves to the entry behind, and all other translations are as before.
\<close>

theorem page_fault_replaces:
  assumes can: "can_place s e va dfn" and ws: "ws_wf s e"
    and full: "page_WS_max_size (envs s e) \<le> env_page_ws_get_size s e"
    and victim: "choose_victim s e = Inr (of_nat i, s)" "i < ws_size s e"
    and w: "ws_page s e i < USER_TOP" "utrans s (env_page_directory (envs s e)) (ws_page s e i) = Some g"
    and g: "user_frame s g" "references s g = 1"
    and clean: "upte s (env_page_directory (envs s e)) (ws_page s e i) AND PERM_MODIFIED = 0"
  shows "\<exists>s'. page_fault_handler s e va = Inr s' \<and> kheap_inv s'
    \<and> utrans s' (env_page_directory (envs s e)) va = Some g \<and> phys s' g = page_file s dfn \<and> references s' g = 1
    \<and> utrans s' (env_page_directory (envs s e)) (ws_page s e i) = None
    \<and> (\<forall>w. w < USER_TOP \<and> PPN w \<noteq> PPN va \<and> PPN w \<noteq> PPN (ws_page s e i) \<longrightarrow>
         utrans s' (env_page_directory (envs s e)) w = utrans s (env_page_directory (envs s e)) w)
    \<and> free_frame_list s' = free_frame_list s \<and> page_file s' = page_file s
    \<and> envs s' = (envs s)(e := placed_ws (envs s e) i va)"
proof -
  obtain s1 where "evict s e (of_nat i) = Inr s1" "can_place s1 e va dfn" "evicted s s1 e i g" "page_file s1 = page_file s"
    using evict_clean [OF can ws victim(2) w g clean] by metis
  from fault_replace [OF can ws full victim w this(1-3)] this(4) obtain s' where
    "page_fault_handler s e va = Inr s'" "replaced s s' e va i g (page_file s dfn)" "page_file s' = page_file s" by metis
  then show ?thesis by (intro exI [of _ s']) (simp add: replaced_def Let_def)
qed

theorem page_fault_replaces_witness:
  "\<exists>s s'. page_fault_handler s 0 0x80200000 = Inr s' \<and> utrans s 0xF6000000 0x80000000 = Some 150
     \<and> utrans s' 0xF6000000 0x80200000 = Some 150 \<and> utrans s' 0xF6000000 0x80000000 = None"
proof -
  let ?ws = "[\<lparr>ws_virtual_address = 0x80000000, ws_empty = 0, ws_time_stamp = 7\<rparr>]"
  obtain s0 where s0: "kheap_inv s0" "uspace s0 0xF6000000" "utrans s0 0xF6000000 0x80000000 = Some 150"
      "user_frame s0 2" "kframe s0 0xF0002000 = Some 2" "utrans s0 0xF6000000 0x80200000 = None"
      "user_frame s0 150" "references s0 150 = 1" "upte s0 0xF6000000 0x80000000 AND PERM_MODIFIED = 0"
    using sample_clean by blast
  let ?s = "paged_state s0 ?ws"
  note c = paged_can_place [OF s0(1-6), of ?ws] and e = paged_env [of s0 ?ws]
  have ws: "ws_wf ?s 0" "page_WS_max_size (envs ?s 0) \<le> env_page_ws_get_size ?s 0"
      "choose_victim ?s 0 = Inr (of_nat 0, ?s)" "0 < ws_size ?s 0" "ws_page ?s 0 0 = 0x80000000"
    using e by (simp_all add: ws_wf_def env_page_ws_get_size_def ws_count_def choose_victim_def ws_size_def
        ws_page_def ws_entry_def ROUNDDOWN_def fos_consts)
  have lt: "(0x80000000 :: u32) < USER_TOP" by (simp add: fos_consts)
  show ?thesis
    using page_fault_replaces [OF c(1) ws(1-4)] ws(5) lt c(2-5) s0(7-9) e(3) by auto
qed

end
