(* ===== verification/FOS_Sort.thy ===== *)
theory FOS_Sort
  imports FOS_UHeap "HOL-Library.Multiset"
begin

text \<open>
  The sorting programs that run on top of the kernel: user/quicksort_noleakage.c and
  user/mergesort_noleakage.c. An array is the list of its elements; an access outside it is an error.
  The programs take their arrays and buffers from malloc() and free() of FOS_UHeap.
\<close>

section \<open>Arrays\<close>

definition elem :: "int list \<Rightarrow> int \<Rightarrow> int result" where
  "elem A i = (if 0 \<le> i \<and> i < int (length A) then Inr (A ! nat i) else Inl (Out_of_bounds ''Elements''))"

definition set_elem :: "int list \<Rightarrow> int \<Rightarrow> int \<Rightarrow> int list result" where
  "set_elem A i x = (if 0 \<le> i \<and> i < int (length A) then Inr (A[nat i := x]) else Inl (Out_of_bounds ''Elements''))"

definition Swap :: "int list \<Rightarrow> int \<Rightarrow> int \<Rightarrow> int list result" where
  "Swap Elements First Second =
     rbind (elem Elements First) (\<lambda>Tmp.
     rbind (elem Elements Second) (\<lambda>x.
     rbind (set_elem Elements First x) (\<lambda>Elements.
     set_elem Elements Second Tmp)))"

section \<open>Quicksort\<close>

text \<open>The two scans from both ends of the segment.\<close>

function scan_up :: "int list \<Rightarrow> int \<Rightarrow> int \<Rightarrow> int \<Rightarrow> int result" where
  "scan_up Elements startIndex finalIndex i =
     (if i \<le> finalIndex then
        rbind (elem Elements startIndex) (\<lambda>pivot.
        rbind (elem Elements i) (\<lambda>x.
        if pivot \<ge> x then scan_up Elements startIndex finalIndex (i + 1) else Inr i))
      else Inr i)"
  by pat_completeness auto
termination
  by (relation "measure (\<lambda>(A, s, f, i). nat (f - i + 1))") auto

function scan_down :: "int list \<Rightarrow> int \<Rightarrow> int \<Rightarrow> int result" where
  "scan_down Elements startIndex j =
     (if j > startIndex then
        rbind (elem Elements startIndex) (\<lambda>pivot.
        rbind (elem Elements j) (\<lambda>x.
        if pivot \<le> x then scan_down Elements startIndex (j - 1) else Inr j))
      else Inr j)"
  by pat_completeness auto
termination
  by (relation "measure (\<lambda>(A, s, j). nat (j - s))") auto

declare scan_up.simps [simp del] scan_down.simps [simp del]

text \<open>
  The partition. A round may leave both indices where they are and only swap, so the bound on the
  rounds is two more than the length of the segment.
\<close>

fun partition_loop :: "nat \<Rightarrow> int list \<Rightarrow> int \<Rightarrow> int \<Rightarrow> int \<Rightarrow> int \<Rightarrow> (int list \<times> int \<times> int) result" where
  "partition_loop 0 Elements startIndex finalIndex i j = (if i \<le> j then Inl Diverges else Inr (Elements, i, j))"
| "partition_loop (Suc n) Elements startIndex finalIndex i j =
     (if i \<le> j then
        rbind (scan_up Elements startIndex finalIndex i) (\<lambda>i.
        rbind (scan_down Elements startIndex j) (\<lambda>j.
        rbind (if i \<le> j then Swap Elements i j else Inr Elements) (\<lambda>Elements.
        partition_loop n Elements startIndex finalIndex i j)))
      else Inr (Elements, i, j))"

text \<open>The first argument bounds the depth of the recursion.\<close>

fun QSort :: "nat \<Rightarrow> int list \<Rightarrow> int \<Rightarrow> int \<Rightarrow> int list result" where
  "QSort 0 Elements startIndex finalIndex = (if startIndex \<ge> finalIndex then Inr Elements else Inl Diverges)"
| "QSort (Suc n) Elements startIndex finalIndex =
     (if startIndex \<ge> finalIndex then Inr Elements
      else
        rbind (partition_loop (nat (finalIndex - startIndex) + 2) Elements startIndex finalIndex
                 (startIndex + 1) finalIndex) (\<lambda>(Elements, i, j).
        rbind (Swap Elements startIndex j) (\<lambda>Elements.
        rbind (QSort n Elements startIndex (j - 1)) (\<lambda>Elements.
        QSort n Elements i finalIndex))))"

definition QuickSort :: "int list \<Rightarrow> int \<Rightarrow> int list result" where
  "QuickSort Elements NumOfElements = QSort (nat NumOfElements) Elements 0 (NumOfElements - 1)"

section \<open>Merge sort\<close>

text \<open>Positions count from 1. The buffers come from malloc(); their first element is written at once.\<close>

fun copy_elems :: "nat \<Rightarrow> int list \<Rightarrow> int \<Rightarrow> int list result" where
  "copy_elems 0 A i = Inr []"
| "copy_elems (Suc n) A i = rbind (elem A i) (\<lambda>x. rbind (copy_elems n A (i + 1)) (\<lambda>xs. Inr (x # xs)))"

fun merge_loop :: "nat \<Rightarrow> int list \<Rightarrow> int \<Rightarrow> int list \<Rightarrow> int \<Rightarrow> int list \<Rightarrow> int \<Rightarrow> int list result" where
  "merge_loop 0 A k leftArray leftIndex rightArray rightIndex = Inr A"
| "merge_loop (Suc n) A k leftArray leftIndex rightArray rightIndex =
     (let fromLeft = rbind (elem leftArray leftIndex) (\<lambda>x. rbind (set_elem A (k - 1) x) (\<lambda>A.
                       merge_loop n A (k + 1) leftArray (leftIndex + 1) rightArray rightIndex));
          fromRight = rbind (elem rightArray rightIndex) (\<lambda>x. rbind (set_elem A (k - 1) x) (\<lambda>A.
                        merge_loop n A (k + 1) leftArray leftIndex rightArray (rightIndex + 1))) in
      if leftIndex < int (length leftArray) \<and> rightIndex < int (length rightArray) then
        rbind (elem leftArray leftIndex) (\<lambda>x. rbind (elem rightArray rightIndex) (\<lambda>y.
          if x < y then fromLeft else fromRight))
      else if leftIndex < int (length leftArray) then fromLeft
      else fromRight)"

definition Merge :: "u32 \<Rightarrow> int list \<Rightarrow> uheap \<Rightarrow> int \<Rightarrow> int \<Rightarrow> int \<Rightarrow> (int list \<times> uheap) result" where
  "Merge strategy A u p q r =
     (let leftCapacity = q - p + 1; rightCapacity = r - q in
      rbind (malloc strategy u (word_of_int (4 * leftCapacity))) (\<lambda>(ptr_Left, u).
      rbind (malloc strategy u (word_of_int (4 * rightCapacity))) (\<lambda>(ptr_Right, u).
      if ptr_Left = 0 \<and> leftCapacity > 0 then Inl (Out_of_bounds ''Left'')
      else
        rbind (copy_elems (nat leftCapacity) A (p - 1)) (\<lambda>leftArray.
        if ptr_Right = 0 \<and> rightCapacity > 0 then Inl (Out_of_bounds ''Right'')
        else
          rbind (copy_elems (nat rightCapacity) A q) (\<lambda>rightArray.
          rbind (merge_loop (nat (r - p + 1)) A p leftArray 0 rightArray 0) (\<lambda>A.
          rbind (free u ptr_Left) (\<lambda>u.
          rbind (free u ptr_Right) (\<lambda>u. Inr (A, u)))))))))"

text \<open>The bounds are positive, so C's division rounds as \<open>div\<close> does.\<close>

function MSort :: "u32 \<Rightarrow> int list \<Rightarrow> uheap \<Rightarrow> int \<Rightarrow> int \<Rightarrow> (int list \<times> uheap) result" where
  "MSort strategy A u p r =
     (if p \<ge> r then Inr (A, u)
      else
        let q = (p + r) div 2 in
        rbind (MSort strategy A u p q) (\<lambda>(A, u).
        rbind (MSort strategy A u (q + 1) r) (\<lambda>(A, u).
        Merge strategy A u p q r)))"
  by pat_completeness auto
termination
  by (relation "measure (\<lambda>(st, A, u, p, r). nat (r - p))") auto

declare MSort.simps [simp del]

section \<open>The programs\<close>











section \<open>Permuting a segment\<close>

lemma elem_in: "0 \<le> i \<Longrightarrow> i < int (length A) \<Longrightarrow> elem A i = Inr (A ! nat i)"
  by (simp add: elem_def)

lemma Swap_in:
  assumes "0 \<le> a" "a < int (length A)" "0 \<le> b" "b < int (length A)"
  shows "Swap A a b = Inr (A[nat a := A ! nat b, nat b := A ! nat a])"
  using assms by (simp add: Swap_def elem_def set_elem_def)

text \<open>
  The elements from \<open>l\<close> to \<open>r\<close> are permuted and the others stay; the last conjunct carries bounds on
  the elements from one array to the other.
\<close>

definition seg_perm :: "int \<Rightarrow> int \<Rightarrow> int list \<Rightarrow> int list \<Rightarrow> bool" where
  "seg_perm l r A B \<longleftrightarrow> mset B = mset A
     \<and> (\<forall>k. 0 \<le> k \<and> k < int (length A) \<and> (k < l \<or> r < k) \<longrightarrow> B ! nat k = A ! nat k)
     \<and> (\<forall>k. l \<le> k \<and> k \<le> r \<longrightarrow> (\<exists>m. l \<le> m \<and> m \<le> r \<and> B ! nat k = A ! nat m))"

definition seg_sorted :: "int \<Rightarrow> int \<Rightarrow> int list \<Rightarrow> bool" where
  "seg_sorted l r A \<longleftrightarrow> (\<forall>a b. l \<le> a \<and> a \<le> b \<and> b \<le> r \<longrightarrow> A ! nat a \<le> A ! nat b)"

lemma seg_perm_refl: "seg_perm l r A A"
  by (auto simp: seg_perm_def)

lemma seg_perm_length: "seg_perm l r A B \<Longrightarrow> length B = length A"
  unfolding seg_perm_def by (blast intro: mset_eq_length)

lemma seg_perm_trans:
  assumes "seg_perm l r A B" and "seg_perm l r B C" shows "seg_perm l r A C"
  unfolding seg_perm_def
proof (intro conjI allI impI)
  show "mset C = mset A" using assms by (simp add: seg_perm_def)
next
  fix k assume "0 \<le> k \<and> k < int (length A) \<and> (k < l \<or> r < k)"
  then show "C ! nat k = A ! nat k"
    using assms seg_perm_length [OF assms(1)] by (simp add: seg_perm_def)
next
  fix k assume "l \<le> k \<and> k \<le> r"
  then obtain m where m: "l \<le> m \<and> m \<le> r" "C ! nat k = B ! nat m" using assms(2) unfolding seg_perm_def by blast
  then show "\<exists>m. l \<le> m \<and> m \<le> r \<and> C ! nat k = A ! nat m" using assms(1) unfolding seg_perm_def by simp
qed

lemma seg_perm_outside:
  "seg_perm l r A B \<Longrightarrow> 0 \<le> k \<Longrightarrow> k < int (length A) \<Longrightarrow> k < l \<or> r < k \<Longrightarrow> B ! nat k = A ! nat k"
  by (simp add: seg_perm_def)

lemma seg_perm_wider:
  assumes "seg_perm l r A B" and "0 \<le> l'" and "r' < int (length A)" and "l' \<le> l" and "r \<le> r'"
  shows "seg_perm l' r' A B"
proof -
  have "\<exists>m. l' \<le> m \<and> m \<le> r' \<and> B ! nat k = A ! nat m" if k: "l' \<le> k" "k \<le> r'" for k
  proof (cases "l \<le> k \<and> k \<le> r")
    case True
    then obtain m where "l \<le> m" "m \<le> r" "B ! nat k = A ! nat m" using assms(1) unfolding seg_perm_def by blast
    then show ?thesis using assms(4,5) by (intro exI [of _ m]) simp
  next
    case False
    then show ?thesis using seg_perm_outside [OF assms(1), of k] k assms(2,3) by (intro exI [of _ k]) auto
  qed
  moreover have "B ! nat k = A ! nat k" if "0 \<le> k" "k < int (length A)" "k < l' \<or> r' < k" for k
    using seg_perm_outside [OF assms(1), of k] that assms(4,5) by auto
  ultimately show ?thesis using assms(1) unfolding seg_perm_def by blast
qed

lemma seg_perm_all:
  assumes "seg_perm l r A B" and "\<And>k. l \<le> k \<Longrightarrow> k \<le> r \<Longrightarrow> P (A ! nat k)" and "l \<le> k" and "k \<le> r"
  shows "P (B ! nat k)"
proof -
  obtain m where "l \<le> m" "m \<le> r" "B ! nat k = A ! nat m" using assms(1,3,4) unfolding seg_perm_def by blast
  then show ?thesis using assms(2) by simp
qed

lemma seg_perm_swap:
  assumes "0 \<le> l" "r < int (length A)" "l \<le> a" "a \<le> r" "l \<le> b" "b \<le> r"
  shows "seg_perm l r A (A[nat a := A ! nat b, nat b := A ! nat a])" (is "seg_perm l r A ?B")
proof -
  have "mset ?B = mset A" using assms by (subst mset_swap) simp_all
  moreover have at: "?B ! nat k = A ! nat (if k = b then a else if k = a then b else k)"
    if "0 \<le> k" "k < int (length A)" for k
    using that assms by (auto simp: nth_list_update nat_eq_iff)
  then have "\<exists>m. l \<le> m \<and> m \<le> r \<and> ?B ! nat k = A ! nat m" if "l \<le> k" "k \<le> r" for k
    using that assms by (intro exI [of _ "if k = b then a else if k = a then b else k"]) auto
  moreover have "?B ! nat k = A ! nat k" if "0 \<le> k" "k < int (length A)" "k < l \<or> r < k" for k
    using at [of k] that assms by auto
  ultimately show ?thesis unfolding seg_perm_def by blast
qed

section \<open>The partition\<close>

lemma scan_up_stops:
  assumes "0 \<le> s" and "f < int (length A)" and "s < i" and "i \<le> f + 1"
  shows "\<exists>i'. scan_up A s f i = Inr i' \<and> i \<le> i' \<and> i' \<le> f + 1 \<and> (\<forall>k. i \<le> k \<and> k < i' \<longrightarrow> A ! nat k \<le> A ! nat s)
    \<and> (i' \<le> f \<longrightarrow> A ! nat s < A ! nat i')"
  using assms
proof (induction A s f i rule: scan_up.induct)
  case (1 A s f i)
  show ?case
  proof (cases "i \<le> f \<and> A ! nat i \<le> A ! nat s")
    case True
    then have e: "scan_up A s f i = scan_up A s f (i + 1)"
      using "1.prems" by (subst scan_up.simps) (simp add: elem_in)
    obtain i' where i': "scan_up A s f (i + 1) = Inr i'" "i + 1 \<le> i'" "i' \<le> f + 1"
        "\<forall>k. i + 1 \<le> k \<and> k < i' \<longrightarrow> A ! nat k \<le> A ! nat s" "i' \<le> f \<longrightarrow> A ! nat s < A ! nat i'"
      using "1.IH" [of "A ! nat s" "A ! nat i"] True "1.prems" by (auto simp: elem_in)
    have "A ! nat k \<le> A ! nat s" if "i \<le> k" "k < i'" for k
      using that True i'(4) by (cases "k = i") auto
    then show ?thesis using e i' by (intro exI [of _ i']) simp
  next
    case False
    then have "scan_up A s f i = Inr i" using "1.prems" by (subst scan_up.simps) (auto simp: elem_in)
    then show ?thesis using False "1.prems" by (intro exI [of _ i]) auto
  qed
qed

lemma scan_down_stops:
  assumes "0 \<le> s" and "j < int (length A)" and "s \<le> j"
  shows "\<exists>j'. scan_down A s j = Inr j' \<and> s \<le> j' \<and> j' \<le> j \<and> (\<forall>k. j' < k \<and> k \<le> j \<longrightarrow> A ! nat s \<le> A ! nat k)
    \<and> (s < j' \<longrightarrow> A ! nat j' < A ! nat s)"
  using assms
proof (induction A s j rule: scan_down.induct)
  case (1 A s j)
  show ?case
  proof (cases "s < j \<and> A ! nat s \<le> A ! nat j")
    case True
    then have e: "scan_down A s j = scan_down A s (j - 1)"
      using "1.prems" by (subst scan_down.simps) (simp add: elem_in)
    obtain j' where j': "scan_down A s (j - 1) = Inr j'" "s \<le> j'" "j' \<le> j - 1"
        "\<forall>k. j' < k \<and> k \<le> j - 1 \<longrightarrow> A ! nat s \<le> A ! nat k" "s < j' \<longrightarrow> A ! nat j' < A ! nat s"
      using "1.IH" [of "A ! nat s" "A ! nat j"] True "1.prems" by (auto simp: elem_in)
    have "A ! nat s \<le> A ! nat k" if "j' < k" "k \<le> j" for k
      using that True j'(4) by (cases "k = j") auto
    then show ?thesis using e j' by (intro exI [of _ j']) simp
  next
    case False
    then have "scan_down A s j = Inr j" using "1.prems" by (subst scan_down.simps) (auto simp: elem_in)
    then show ?thesis using False "1.prems" by (intro exI [of _ j]) auto
  qed
qed

definition part_inv :: "int list \<Rightarrow> int \<Rightarrow> int \<Rightarrow> int \<Rightarrow> int \<Rightarrow> bool" where
  "part_inv A s f i j \<longleftrightarrow> s < i \<and> i \<le> f + 1 \<and> s \<le> j \<and> j \<le> f
     \<and> (\<forall>k. s < k \<and> k < i \<longrightarrow> A ! nat k \<le> A ! nat s) \<and> (\<forall>k. j < k \<and> k \<le> f \<longrightarrow> A ! nat s \<le> A ! nat k)"

text \<open>After a swap both indices move in the next round.\<close>

definition moving :: "int list \<Rightarrow> int \<Rightarrow> int \<Rightarrow> int \<Rightarrow> bool" where
  "moving A s i j \<longleftrightarrow> A ! nat i \<le> A ! nat s \<and> A ! nat s \<le> A ! nat j"

lemma scans_done:
  assumes "0 \<le> s" and "f < int (length A)" and inv: "part_inv A s f i j"
  shows "\<exists>i' j'. scan_up A s f i = Inr i' \<and> scan_down A s j = Inr j' \<and> part_inv A s f i' j'
    \<and> i \<le> i' \<and> j' \<le> j \<and> (i' \<le> f \<longrightarrow> A ! nat s < A ! nat i') \<and> (s < j' \<longrightarrow> A ! nat j' < A ! nat s)"
proof -
  obtain i' where i': "scan_up A s f i = Inr i'" "i \<le> i'" "i' \<le> f + 1"
      "\<forall>k. i \<le> k \<and> k < i' \<longrightarrow> A ! nat k \<le> A ! nat s" "i' \<le> f \<longrightarrow> A ! nat s < A ! nat i'"
    using scan_up_stops [OF assms(1,2), of i] inv by (auto simp: part_inv_def)
  obtain j' where j': "scan_down A s j = Inr j'" "s \<le> j'" "j' \<le> j"
      "\<forall>k. j' < k \<and> k \<le> j \<longrightarrow> A ! nat s \<le> A ! nat k" "s < j' \<longrightarrow> A ! nat j' < A ! nat s"
    using scan_down_stops [OF assms(1), of j A] inv assms(2) by (auto simp: part_inv_def)
  have "A ! nat k \<le> A ! nat s" if "s < k" "k < i'" for k
    using that inv i'(4) by (cases "k < i") (auto simp: part_inv_def)
  moreover have "A ! nat s \<le> A ! nat k" if "j' < k" "k \<le> f" for k
    using that inv j'(4) by (cases "k \<le> j") (auto simp: part_inv_def)
  ultimately have "part_inv A s f i' j'" using inv i'(2,3) j'(2,3) by (auto simp: part_inv_def)
  then show ?thesis using i' j' by blast
qed

lemma partition_swap:
  assumes s: "0 \<le> s" and f: "f < int (length A)" and inv: "part_inv A s f i j" and ij: "i \<le> j"
    and x: "A ! nat s < A ! nat i" "A ! nat j < A ! nat s"
  defines "B \<equiv> A[nat i := A ! nat j, nat j := A ! nat i]"
  shows "Swap A i j = Inr B" "seg_perm s f A B" "B ! nat s = A ! nat s" "part_inv B s f i j" "moving B s i j"
proof -
  have b: "s < i" "i \<le> f + 1" "s \<le> j" "j \<le> f" using inv by (simp_all add: part_inv_def)
  have ne: "i \<noteq> j" using x by auto
  show "Swap A i j = Inr B" unfolding B_def using s f b ij by (intro Swap_in) simp_all
  show "seg_perm s f A B" unfolding B_def using s f b ij by (intro seg_perm_swap) simp_all
  have same: "B ! nat k = A ! nat k" if "k \<noteq> i" "k \<noteq> j" "0 \<le> k" for k
    using that s b ij unfolding B_def by (simp add: nth_list_update nat_eq_iff)
  have at: "B ! nat i = A ! nat j" "B ! nat j = A ! nat i"
    using s f b ij ne unfolding B_def by (simp_all add: nth_list_update nat_eq_iff)
  show sv: "B ! nat s = A ! nat s" using same [of s] s b ij by simp
  show "part_inv B s f i j" using inv same s ij b sv unfolding part_inv_def by auto
  show "moving B s i j" using x by (simp add: moving_def at sv)
qed

lemma partition_loop_done:
  assumes "0 \<le> s" and "f < int (length A)" and "part_inv A s f i j"
    and "nat (j - i + 1) + (if moving A s i j then 0 else 1) < n"
  shows "\<exists>B i' j'. partition_loop n A s f i j = Inr (B, i', j') \<and> part_inv B s f i' j' \<and> j' < i' \<and> seg_perm s f A B"
  using assms
proof (induction n arbitrary: A i j)
  case (Suc m)
  note s = Suc.prems(1) and f = Suc.prems(2) and inv = Suc.prems(3)
  show ?case
  proof (cases "i \<le> j")
    case True
    obtain i' j' where sc: "scan_up A s f i = Inr i'" "scan_down A s j = Inr j'" and inv': "part_inv A s f i' j'"
        and le: "i \<le> i'" "j' \<le> j" and x: "i' \<le> f \<longrightarrow> A ! nat s < A ! nat i'" "s < j' \<longrightarrow> A ! nat j' < A ! nat s"
      using scans_done [OF s f inv] by blast
    show ?thesis
    proof (cases "i' \<le> j'")
      case True
      have x': "A ! nat s < A ! nat i'" "A ! nat j' < A ! nat s"
        using x True inv' by (auto simp: part_inv_def)
      note sw = partition_swap [OF s f inv' True x']
      let ?B = "A[nat i' := A ! nat j', nat j' := A ! nat i']"
      have "nat (j' - i' + 1) < m"
      proof (cases "moving A s i j")
        case True
        then have "i \<noteq> i'" using x'(1) by (auto simp: moving_def)
        then show ?thesis using le \<open>i' \<le> j'\<close> Suc.prems(4) by (auto split: if_splits)
      next
        case False
        then show ?thesis using le Suc.prems(4) by auto
      qed
      then obtain C k l where "partition_loop m ?B s f i' j' = Inr (C, k, l)" "part_inv C s f k l" "l < k" "seg_perm s f ?B C"
        using Suc.IH [of ?B i' j'] s f sw(4,5) seg_perm_length [OF sw(2)] by auto
      then show ?thesis
        using sc sw(1) True \<open>i \<le> j\<close> seg_perm_trans [OF sw(2)] by auto
    next
      case False
      then have "partition_loop m A s f i' j' = Inr (A, i', j')" by (cases m) simp_all
      then show ?thesis using sc inv' True False seg_perm_refl by auto
    qed
  qed (use inv seg_perm_refl in auto)
qed simp

section \<open>Quicksort sorts\<close>

lemma seg_sorted_trivial: "r \<le> l \<Longrightarrow> seg_sorted l r A"
  by (auto simp: seg_sorted_def) (metis order_antisym order_trans order_refl)

lemma QSort_partitioned:
  assumes s: "0 \<le> s" and f: "f < int (length A)" and sf: "s < f"
  shows "\<exists>B C i j. partition_loop (nat (f - s) + 2) A s f (s + 1) f = Inr (B, i, j) \<and> Swap B s j = Inr C
    \<and> s \<le> j \<and> j < i \<and> j \<le> f \<and> i \<le> f + 1 \<and> seg_perm s f A C
    \<and> (\<forall>k. s \<le> k \<and> k < i \<longrightarrow> C ! nat k \<le> C ! nat j) \<and> (\<forall>k. j \<le> k \<and> k \<le> f \<longrightarrow> C ! nat j \<le> C ! nat k)"
proof -
  have "part_inv A s f (s + 1) f" using sf by (auto simp: part_inv_def)
  moreover have "(if moving A s (s + 1) f then 0 else 1) < (2 :: nat)" by simp
  ultimately obtain B i j where p: "partition_loop (nat (f - s) + 2) A s f (s + 1) f = Inr (B, i, j)"
      "part_inv B s f i j" "j < i" "seg_perm s f A B"
    using partition_loop_done [OF s f, of "s + 1" f "nat (f - s) + 2"] by (auto simp del: partition_loop.simps)
  have b: "s < i" "i \<le> f + 1" "s \<le> j" "j \<le> f" using p(2) by (simp_all add: part_inv_def)
  have len: "length B = length A" by (rule seg_perm_length [OF p(4)])
  let ?C = "B[nat s := B ! nat j, nat j := B ! nat s]"
  have sw: "Swap B s j = Inr ?C" using s f b len by (intro Swap_in) simp_all
  have pm: "seg_perm s f A ?C"
    using s f b len by (intro seg_perm_trans [OF p(4)] seg_perm_swap) simp_all
  have at: "?C ! nat k = B ! nat (if k = j then s else if k = s then j else k)" if "s \<le> k" "k \<le> f" for k
    using that s f b len by (auto simp: nth_list_update nat_eq_iff)
  have "?C ! nat k \<le> ?C ! nat j" if "s \<le> k" "k < i" for k
    using that p(2,3) b at [of k] at [of j] by (auto simp: part_inv_def)
  moreover have "?C ! nat j \<le> ?C ! nat k" if "j \<le> k" "k \<le> f" for k
    using that p(2,3) b at [of k] at [of j] by (auto simp: part_inv_def)
  ultimately show ?thesis using p(1,3) sw b pm by blast
qed

lemma seg_sorted_join:
  assumes "seg_sorted s (j - 1) A" and "seg_sorted i f A"
    and "\<And>k. s \<le> k \<Longrightarrow> k < i \<Longrightarrow> A ! nat k \<le> v" and "\<And>k. j \<le> k \<Longrightarrow> k \<le> f \<Longrightarrow> v \<le> A ! nat k"
  shows "seg_sorted s f A"
  unfolding seg_sorted_def
proof (intro allI impI)
  fix a b assume ab: "s \<le> a \<and> a \<le> b \<and> b \<le> f"
  consider "b \<le> j - 1" | "i \<le> a" | "a < i" "j \<le> b" by linarith
  then show "A ! nat a \<le> A ! nat b"
    by cases (use ab assms(1,2) in \<open>auto simp: seg_sorted_def intro: order_trans [OF assms(3,4)]\<close>)
qed

lemma QSort_sorts:
  assumes "0 \<le> s" and "f < int (length A)" and "nat (f - s) \<le> n"
  shows "\<exists>B. QSort n A s f = Inr B \<and> seg_perm s f A B \<and> seg_sorted s f B"
  using assms
proof (induction n arbitrary: A s f)
  case 0
  then show ?case using seg_perm_refl seg_sorted_trivial by auto
next
  case (Suc n)
  show ?case
  proof (cases "f \<le> s")
    case True
    then show ?thesis using seg_perm_refl seg_sorted_trivial by auto
  next
    case False
    obtain B C i j where p: "partition_loop (nat (f - s) + 2) A s f (s + 1) f = Inr (B, i, j)" "Swap B s j = Inr C"
        and b: "s \<le> j" "j < i" "j \<le> f" "i \<le> f + 1" and pm: "seg_perm s f A C"
        and lo: "\<forall>k. s \<le> k \<and> k < i \<longrightarrow> C ! nat k \<le> C ! nat j" and hi: "\<forall>k. j \<le> k \<and> k \<le> f \<longrightarrow> C ! nat j \<le> C ! nat k"
      using QSort_partitioned [OF Suc.prems(1,2)] False by auto
    define v where "v = C ! nat j"
    have len: "length C = length A" by (rule seg_perm_length [OF pm])
    obtain D where D: "QSort n C s (j - 1) = Inr D" "seg_perm s (j - 1) C D" "seg_sorted s (j - 1) D"
    proof -
      have "nat (j - 1 - s) \<le> n" using Suc.prems(3) b by linarith
      then show ?thesis using that Suc.IH [of s "j - 1" C] Suc.prems(1,2) b len by auto
    qed
    have lenD: "length D = length A" using seg_perm_length [OF D(2)] len by simp
    obtain E where E: "QSort n D i f = Inr E" "seg_perm i f D E" "seg_sorted i f E"
    proof -
      have "nat (f - i) \<le> n" using Suc.prems(3) b False by linarith
      then show ?thesis using that Suc.IH [of i f D] Suc.prems(1,2) b lenD by auto
    qed
    have DC: "D ! nat k = C ! nat k" if "j \<le> k" "k \<le> f" for k
      using seg_perm_outside [OF D(2), of k] that b Suc.prems(1,2) len by simp
    have ED: "E ! nat k = D ! nat k" if "s \<le> k" "k < i" for k
      using seg_perm_outside [OF E(2), of k] that b Suc.prems(1,2) lenD by simp
    have "E ! nat k \<le> v" if "s \<le> k" "k < i" for k
    proof (cases "k < j")
      case True
      have "D ! nat k \<le> v"
        by (rule seg_perm_all [OF D(2)]) (use lo that True b in \<open>auto simp: v_def\<close>)
      then show ?thesis using ED that by simp
    next
      case False
      then show ?thesis using ED [OF that] DC [of k] lo that b by (simp add: v_def)
    qed
    moreover have "v \<le> E ! nat k" if "j \<le> k" "k \<le> f" for k
    proof (cases "k < i")
      case True
      then show ?thesis using ED [of k] DC [OF that] hi that b by (simp add: v_def)
    next
      case False
      show ?thesis
        by (rule seg_perm_all [OF E(2)]) (use hi DC b that False in \<open>auto simp: v_def\<close>)
    qed
    moreover have "seg_sorted s (j - 1) E"
      using D(3) ED b by (auto simp: seg_sorted_def)
    ultimately have "seg_sorted s f E" using E(3) by (intro seg_sorted_join [of s j E i f v]) auto
    moreover have "seg_perm s f A E"
      using Suc.prems(1,2) b len lenD
      by (intro seg_perm_trans [OF pm] seg_perm_trans [OF seg_perm_wider [OF D(2)] seg_perm_wider [OF E(2)]]) simp_all
    ultimately show ?thesis
      using p D(1) E(1) False by (intro exI [of _ E]) (simp del: partition_loop.simps)
  qed
qed

lemma seg_sorted_all: "seg_sorted 0 (int (length A) - 1) A \<longleftrightarrow> sorted A"
proof
  assume a: "seg_sorted 0 (int (length A) - 1) A"
  have "A ! i \<le> A ! j" if "i \<le> j" "j < length A" for i j
    using a [unfolded seg_sorted_def, rule_format, of "int i" "int j"] that by simp
  then show "sorted A" by (simp add: sorted_iff_nth_mono)
next
  assume "sorted A"
  then show "seg_sorted 0 (int (length A) - 1) A"
    unfolding seg_sorted_def by (auto intro!: sorted_nth_mono nat_mono)
qed

section \<open>Merging\<close>

text \<open>The merge of two lists in which equal elements of the second come first, as in Merge().\<close>

fun merge2 :: "int list \<Rightarrow> int list \<Rightarrow> int list" where
  "merge2 (x # xs) (y # ys) = (if x < y then x # merge2 xs (y # ys) else y # merge2 (x # xs) ys)"
| "merge2 xs [] = xs"
| "merge2 [] ys = ys"

lemma merge2_Nil [simp]: "merge2 [] ys = ys"
  by (cases ys) simp_all

lemma mset_merge2 [simp]: "mset (merge2 xs ys) = mset xs + mset ys"
  by (induction xs ys rule: merge2.induct) simp_all

lemma set_merge2 [simp]: "set (merge2 xs ys) = set xs \<union> set ys"
  by (induction xs ys rule: merge2.induct) auto

lemma sorted_merge2: "sorted xs \<Longrightarrow> sorted ys \<Longrightarrow> sorted (merge2 xs ys)"
  by (induction xs ys rule: merge2.induct) (auto simp: not_less intro: less_imp_le order_trans)

lemma copy_elems_take:
  "c + n \<le> length A \<Longrightarrow> copy_elems n A (int c) = Inr (take n (drop c A))"
proof (induction n arbitrary: c)
  case (Suc n)
  then have "copy_elems n A (int c + 1) = Inr (take n (drop (Suc c) A))"
    using Suc.IH [of "Suc c"] by (simp add: add.commute)
  then show ?case
    using Suc.prems Cons_nth_drop_Suc [of c A, symmetric] by (simp add: elem_def)
qed simp

lemma store_split:
  assumes "c + Suc n \<le> length A"
  shows "take (Suc c) (A[c := x]) @ ys @ drop (Suc c + n) (A[c := x]) = take c A @ (x # ys) @ drop (c + Suc n) A"
  using assms by (simp add: take_Suc_conv_app_nth)

lemma merge_loop_merges:
  assumes "a \<le> length L" and "b \<le> length R" and "n = length L - a + (length R - b)" and "c + n \<le> length A"
  shows "merge_loop n A (int c + 1) L (int a) R (int b)
    = Inr (take c A @ merge2 (drop a L) (drop b R) @ drop (c + n) A)"
  using assms
proof (induction n arbitrary: A a b c)
  case (Suc n)
  have k: "set_elem A (int c) x = Inr (A[c := x])" for x using Suc.prems(4) by (simp add: set_elem_def)
  note st = store_split [OF Suc.prems(4)]
  have left: "rbind (elem L (int a)) (\<lambda>x. rbind (set_elem A (int c + 1 - 1) x) (\<lambda>A.
        merge_loop n A (int c + 1 + 1) L (int a + 1) R (int b)))
      = Inr (take c A @ (L ! a # merge2 (drop (Suc a) L) (drop b R)) @ drop (c + Suc n) A)" if "a < length L"
  proof -
    have "merge_loop n (A[c := L ! a]) (int (Suc c) + 1) L (int (Suc a)) R (int b)
        = Inr (take (Suc c) (A[c := L ! a]) @ merge2 (drop (Suc a) L) (drop b R) @ drop (Suc c + n) (A[c := L ! a]))"
      by (rule Suc.IH) (use Suc.prems that in auto)
    then show ?thesis unfolding st using that by (simp only: elem_in k nat_int of_nat_Suc add_diff_cancel_left' add.commute rbind_Inr of_nat_less_iff of_nat_0_le_iff)
  qed
  have right: "rbind (elem R (int b)) (\<lambda>x. rbind (set_elem A (int c + 1 - 1) x) (\<lambda>A.
        merge_loop n A (int c + 1 + 1) L (int a) R (int b + 1)))
      = Inr (take c A @ (R ! b # merge2 (drop a L) (drop (Suc b) R)) @ drop (c + Suc n) A)" if "b < length R"
  proof -
    have "merge_loop n (A[c := R ! b]) (int (Suc c) + 1) L (int a) R (int (Suc b))
        = Inr (take (Suc c) (A[c := R ! b]) @ merge2 (drop a L) (drop (Suc b) R) @ drop (Suc c + n) (A[c := R ! b]))"
      by (rule Suc.IH) (use Suc.prems that in auto)
    then show ?thesis unfolding st using that by (simp only: elem_in k nat_int of_nat_Suc add_diff_cancel_left' add.commute rbind_Inr of_nat_less_iff of_nat_0_le_iff)
  qed
  consider "a < length L" "b < length R" | "a < length L" "length R \<le> b" | "length L \<le> a" "b < length R"
    using Suc.prems(3) by linarith
  then show ?case
  proof cases
    case 1
    then have "merge2 (drop a L) (drop b R) = (if L ! a < R ! b then L ! a # merge2 (drop (Suc a) L) (drop b R)
        else R ! b # merge2 (drop a L) (drop (Suc b) R))"
      using Cons_nth_drop_Suc [of a L] Cons_nth_drop_Suc [of b R] by (metis merge2.simps(1))
    then show ?thesis using 1 left right by (simp add: elem_in Let_def)
  next
    case 2
    then have "merge2 (drop a L) (drop b R) = L ! a # merge2 (drop (Suc a) L) (drop b R)"
      using Cons_nth_drop_Suc [of a L, symmetric] by simp
    then show ?thesis using 2 left by (simp add: Let_def)
  next
    case 3
    then have "merge2 (drop a L) (drop b R) = R ! b # merge2 (drop a L) (drop (Suc b) R)"
      using Cons_nth_drop_Suc [of b R, symmetric] by simp
    then show ?thesis using 3 right by (simp add: Let_def)
  qed
qed simp

section \<open>Blocks that are taken and given back\<close>

definition heap_same :: "uheap \<Rightarrow> uheap \<Rightarrow> bool" where
  "heap_same u u' \<longleftrightarrow> UHeap_Tracker u' = UHeap_Tracker u \<and> sizeOfVAs u' = sizeOfVAs u"

lemma heap_same_trans: "heap_same u u1 \<Longrightarrow> heap_same u1 u2 \<Longrightarrow> heap_same u u2"
  by (simp add: heap_same_def)

lemma heap_same_inv: "heap_same u u' \<Longrightarrow> uheap_inv u' = uheap_inv u"
  by (simp add: heap_same_def uheap_inv_def)

definition searching :: "u32 set" where
  "searching = {UHP_PLACE_FIRSTFIT, UHP_PLACE_BESTFIT, UHP_PLACE_WORSTFIT}"

text \<open>A block of \<open>n\<close> pages at page \<open>p\<close> that was not there before.\<close>

definition new_block :: "uheap \<Rightarrow> nat \<Rightarrow> nat \<Rightarrow> uheap \<Rightarrow> bool" where
  "new_block u n p u' \<longleftrightarrow> p < 131072 \<and> 0 < n \<and> n \<le> 131072 \<and> pages_at (UHeap_Tracker u) p = 0 \<and> uheap_inv u'
     \<and> UHeap_Tracker u' = (UHeap_Tracker u)(of_nat p := of_nat n)
     \<and> sizeOfVAs u' = (sizeOfVAs u)(of_nat p := \<lparr>uh_size = hole_bytes n, uh_virtualAddress = haddr p\<rparr>)
     \<and> (\<forall>q. free_page (UHeap_Tracker u') q \<longleftrightarrow> free_page (UHeap_Tracker u) q \<and> \<not> (p \<le> q \<and> q < p + n))"

lemma malloc_new_block:
  assumes inv: "uheap_inv u" and st: "strategy \<in> searching" and sz: "0 < sz" "unat sz + 4095 < 4294967296"
    and room: "fits (UHeap_Tracker u) (pages_for sz) c"
  shows "\<exists>p u'. malloc strategy u sz = Inr (haddr p, u') \<and> new_block u (pages_for sz) p u'"
proof -
  have n: "0 < pages_for sz" by (rule pages_for_pos [OF sz(1)])
  have "malloc_took u sz (malloc strategy u sz)"
    using malloc_searching [OF inv sz st [unfolded searching_def]] room by (auto simp: malloc_spec_def)
  then obtain p u' where m: "malloc strategy u sz = Inr (haddr p, u')" "p + pages_for sz \<le> 131072"
      "fits (UHeap_Tracker u) (pages_for sz) p" "uheap_inv u'"
      "\<forall>q. free_page (UHeap_Tracker u') q \<longleftrightarrow> free_page (UHeap_Tracker u) q \<and> \<not> (p \<le> q \<and> q < p + pages_for sz)"
      "UHeap_Tracker u' = (UHeap_Tracker u)(of_nat p := of_nat (pages_for sz))"
      "sizeOfVAs u' = (sizeOfVAs u)(of_nat p := \<lparr>uh_size = hole_bytes (pages_for sz), uh_virtualAddress = haddr p\<rparr>)"
    unfolding malloc_took_def by blast
  have "pages_at (UHeap_Tracker u) p = 0" using fits_inside [OF m(3), of p] n by simp
  then show ?thesis using m n unfolding new_block_def by (intro exI [of _ p] exI [of _ u']) simp
qed

text \<open>Whatever part of a run of free pages a block takes, a long enough part of the rest stays together.\<close>

lemma fits_after_block:
  assumes "new_block u m p u'" and "m \<le> n" and "fits (UHeap_Tracker u) (2 * k + n) c"
  shows "\<exists>d. fits (UHeap_Tracker u') k d"
proof (cases "c + k \<le> p")
  case True
  then have "fits (UHeap_Tracker u') k c"
    using assms(1,3) unfolding fits_def new_block_def by auto
  then show ?thesis by blast
next
  case False
  then have "fits (UHeap_Tracker u') k (c + k + n)"
    using assms unfolding fits_def new_block_def by auto
  then show ?thesis by blast
qed

lemma block_pages:
  assumes "new_block u n p u'" and "q < 131072"
  shows "pages_at (UHeap_Tracker u') q = (if q = p then n else pages_at (UHeap_Tracker u) q)"
proof -
  have "UHeap_Tracker u' = (UHeap_Tracker u)(of_nat p := of_nat n)" "p < 131072" "n \<le> 131072"
    using assms(1) unfolding new_block_def by blast+
  then show ?thesis using pages_at_upd [of p q n] assms(2) by simp
qed

lemma block_entry:
  assumes "uheap_inv u" and "new_block u n p u'"
  shows "UHeap_Tracker u (of_nat p) = 0" "sizeOfVAs u (of_nat p) = \<lparr>uh_size = 0, uh_virtualAddress = 0\<rparr>"
proof -
  have p: "p < 131072" "pages_at (UHeap_Tracker u) p = 0" using assms(2) unfolding new_block_def by blast+
  then show "UHeap_Tracker u (of_nat p) = 0" by (simp add: pages_at_def unsigned_eq_0_iff)
  show "sizeOfVAs u (of_nat p) = \<lparr>uh_size = 0, uh_virtualAddress = 0\<rparr>"
    using assms(1) p by (simp add: uheap_inv_def)
qed

lemma free_page_block:
  assumes "uheap_inv u" and "p < 131072" and "pages_at (UHeap_Tracker u) p \<noteq> 0"
  shows "\<exists>u'. free u (haddr p) = Inr u' \<and> uheap_inv u' \<and> UHeap_Tracker u' = (UHeap_Tracker u)(of_nat p := 0)
    \<and> sizeOfVAs u' = (sizeOfVAs u)(of_nat p := \<lparr>uh_size = 0, uh_virtualAddress = 0\<rparr>)"
  using free_block_eq [OF assms] uheap_inv_remove [OF assms(1,2)] by (auto simp del: fun_upd_apply)


text \<open>Two blocks, given back in the order they were taken.\<close>

lemma free_two_blocks:
  assumes inv: "uheap_inv u" and b1: "new_block u m p u1" and b2: "new_block u1 n q u2"
  shows "\<exists>u3 u4. free u2 (haddr p) = Inr u3 \<and> free u3 (haddr q) = Inr u4 \<and> heap_same u u4"
proof -
  have f1: "p < 131072" "0 < m" "uheap_inv u1" "UHeap_Tracker u1 = (UHeap_Tracker u)(of_nat p := of_nat m)"
      "sizeOfVAs u1 = (sizeOfVAs u)(of_nat p := \<lparr>uh_size = hole_bytes m, uh_virtualAddress = haddr p\<rparr>)"
    using b1 unfolding new_block_def by blast+
  have f2: "q < 131072" "0 < n" "uheap_inv u2" "pages_at (UHeap_Tracker u1) q = 0"
      "UHeap_Tracker u2 = (UHeap_Tracker u1)(of_nat q := of_nat n)"
      "sizeOfVAs u2 = (sizeOfVAs u1)(of_nat q := \<lparr>uh_size = hole_bytes n, uh_virtualAddress = haddr q\<rparr>)"
    using b2 unfolding new_block_def by blast+
  have ne: "q \<noteq> p" using f2(4) block_pages [OF b1 f1(1)] f1(2) by auto
  then have new: "(of_nat q :: u32) \<noteq> of_nat p" using f1(1) f2(1) by (simp add: of_nat_u32_eq)
  have "pages_at (UHeap_Tracker u2) p \<noteq> 0" using block_pages [OF b2 f1(1)] block_pages [OF b1 f1(1)] ne f1(2) by simp
  then obtain u3 where u3: "free u2 (haddr p) = Inr u3" "uheap_inv u3" "UHeap_Tracker u3 = (UHeap_Tracker u2)(of_nat p := 0)"
      "sizeOfVAs u3 = (sizeOfVAs u2)(of_nat p := \<lparr>uh_size = 0, uh_virtualAddress = 0\<rparr>)"
    using free_page_block [OF f2(3) f1(1)] by blast
  have "pages_at (UHeap_Tracker u3) q \<noteq> 0"
    using block_pages [OF b2 f2(1)] f2(2) u3(3) new by (simp add: pages_at_def)
  then obtain u4 where u4: "free u3 (haddr q) = Inr u4" "UHeap_Tracker u4 = (UHeap_Tracker u3)(of_nat q := 0)"
      "sizeOfVAs u4 = (sizeOfVAs u3)(of_nat q := \<lparr>uh_size = 0, uh_virtualAddress = 0\<rparr>)"
    using free_page_block [OF u3(2) f2(1)] by blast
  have "UHeap_Tracker u4 x = UHeap_Tracker u x" "sizeOfVAs u4 x = sizeOfVAs u x" for x
    using block_entry [OF inv b1] block_entry [OF f1(3) b2] new f1(4,5) f2(5,6) u3(3,4) u4(2,3)
    by (auto simp: fun_upd_def split: if_splits)
  then have "heap_same u u4" by (simp add: heap_same_def fun_eq_iff)
  then show ?thesis using u3(1) u4(1) by blast
qed

section \<open>Merge sort sorts\<close>

text \<open>The pages of an array of \<open>k\<close> integers; a larger array than this does not fit in the heap.\<close>

definition array_pages :: "nat \<Rightarrow> nat" where
  "array_pages k = (4 * k + 4095) div 4096"

lemma array_pages_mono: "j \<le> k \<Longrightarrow> array_pages j \<le> array_pages k"
  by (simp add: array_pages_def div_le_mono)

lemma array_size:
  assumes "k \<le> 134217728" and "0 < k"
  shows "0 < (word_of_int (4 * int k) :: u32)" "unat (word_of_int (4 * int k) :: u32) + 4095 < 4294967296"
    "pages_for (word_of_int (4 * int k)) = array_pages k"
proof -
  have "(word_of_int (4 * int k) :: u32) = of_nat (4 * k)" by simp
  then have u: "unat (word_of_int (4 * int k) :: u32) = 4 * k" using assms(1) by (simp only: unat_of_nat) simp
  show "0 < (word_of_int (4 * int k) :: u32)" using u assms(2) by (simp only: word_less_nat_alt unat_0)
  show "unat (word_of_int (4 * int k) :: u32) + 4095 < 4294967296" using u assms(1) by simp
  show "pages_for (word_of_int (4 * int k)) = array_pages k" using u by (simp add: pages_for_def array_pages_def)
qed

lemma malloc_array:
  assumes "uheap_inv u" and "strategy \<in> searching" and k: "k \<le> 134217728" "0 < k"
    and "fits (UHeap_Tracker u) n c" and "array_pages k \<le> n"
  shows "\<exists>p u'. malloc strategy u (word_of_int (4 * int k)) = Inr (haddr p, u') \<and> new_block u (array_pages k) p u'"
  using malloc_new_block [OF assms(1,2) array_size(1,2) [OF k], of c] array_size(3) [OF k]
    fits_mono [OF assms(5,6)] by simp

lemma new_block_address: "new_block u n p u' \<Longrightarrow> haddr p \<noteq> 0"
  unfolding new_block_def by (blast dest: haddr_neq_0)

lemma Merge_merges:
  assumes inv: "uheap_inv u" and st: "strategy \<in> searching" and ab: "a < b" "b < e" and e: "e \<le> length A" "e \<le> 134217728"
    and room: "fits (UHeap_Tracker u) (3 * array_pages e) c"
  shows "\<exists>u'. Merge strategy A u (int a + 1) (int b) (int e)
      = Inr (take a A @ merge2 (take (b - a) (drop a A)) (take (e - b) (drop b A)) @ drop e A, u') \<and> heap_same u u'"
proof -
  let ?n = "array_pages e"
  have cap: "int b - (int a + 1) + 1 = int (b - a)" "int e - int b = int (e - b)" "int e - (int a + 1) + 1 = int (e - a)"
    using ab by auto
  have bd: "b - a \<le> 134217728" "0 < b - a" "array_pages (b - a) \<le> ?n"
      "e - b \<le> 134217728" "0 < e - b" "array_pages (e - b) \<le> ?n"
    using ab e by (auto intro: array_pages_mono)
  obtain p u1 where m1: "malloc strategy u (word_of_int (4 * int (b - a))) = Inr (haddr p, u1)" "new_block u (array_pages (b - a)) p u1"
    using malloc_array [OF inv st bd(1,2) room] bd(3) by force
  have inv1: "uheap_inv u1" using m1(2) unfolding new_block_def by blast
  obtain d where "fits (UHeap_Tracker u1) ?n d"
    using fits_after_block [OF m1(2) bd(3), of ?n c] room by auto
  then obtain q u2 where m2: "malloc strategy u1 (word_of_int (4 * int (e - b))) = Inr (haddr q, u2)" "new_block u1 (array_pages (e - b)) q u2"
    using malloc_array [OF inv1 st bd(4,5)] bd(6) by blast
  obtain u3 u4 where f: "free u2 (haddr p) = Inr u3" "free u3 (haddr q) = Inr u4" "heap_same u u4"
    using free_two_blocks [OF inv m1(2) m2(2)] by blast
  let ?L = "take (b - a) (drop a A)" and ?R = "take (e - b) (drop b A)"
  have copies: "copy_elems (b - a) A (int a) = Inr ?L" "copy_elems (e - b) A (int b) = Inr ?R"
    using ab e by (simp_all add: copy_elems_take)
  have "merge_loop (e - a) A (int a + 1) ?L (int 0) ?R (int 0)
      = Inr (take a A @ merge2 (drop 0 ?L) (drop 0 ?R) @ drop (a + (e - a)) A)"
    by (rule merge_loop_merges) (use ab e in auto)
  then have "merge_loop (e - a) A (int a + 1) ?L 0 ?R 0 = Inr (take a A @ merge2 ?L ?R @ drop e A)" using ab by simp
  then show ?thesis
    unfolding Merge_def cap Let_def
    using m1(1) m2(1) f new_block_address [OF m1(2)] new_block_address [OF m2(2)] copies by simp
qed

lemma MSort_sorts:
  assumes st: "strategy \<in> searching" and N: "N \<le> 134217728"
  shows "uheap_inv u \<Longrightarrow> a \<le> e \<Longrightarrow> e \<le> length A \<Longrightarrow> e \<le> N \<Longrightarrow> fits (UHeap_Tracker u) (3 * array_pages N) c \<Longrightarrow>
    \<exists>S u'. MSort strategy A u (int a + 1) (int e) = Inr (take a A @ S @ drop e A, u') \<and> heap_same u u'
      \<and> sorted S \<and> mset S = mset (take (e - a) (drop a A))"
proof (induction "e - a" arbitrary: A u a e rule: less_induct)
  case less
  show ?case
  proof (cases "e \<le> a + 1")
    case True
    let ?S = "take (e - a) (drop a A)"
    have "length ?S \<le> 1" using True by simp
    then have "sorted ?S" by (cases ?S) auto
    moreover have "A = take a A @ ?S @ drop e A"
      using append_take_drop_id [of a A] append_take_drop_id [of "e - a" "drop a A"] less.prems(2) by simp
    moreover have "MSort strategy A u (int a + 1) (int e) = Inr (A, u)" using True by (subst MSort.simps) simp
    ultimately show ?thesis
      by (intro exI [of _ ?S] exI [of _ u]) (simp add: heap_same_def)
  next
    case False
    define b where "b = (a + 1 + e) div 2"
    have b: "a < b" "b < e" using False by (auto simp: b_def)
    have lt: "b - a < e - a" "e - b < e - a" using b by linarith+
    have q: "(int a + 1 + int e) div 2 = int b" unfolding b_def by (simp add: zdiv_int add.commute)
    obtain S1 u1 where s1: "MSort strategy A u (int a + 1) (int b) = Inr (take a A @ S1 @ drop b A, u1)" "heap_same u u1"
        "sorted S1" "mset S1 = mset (take (b - a) (drop a A))"
      using less.hyps [OF lt(1), of u A] less.prems b by auto
    let ?B = "take a A @ S1 @ drop b A"
    have len1: "length S1 = b - a" using mset_eq_length [OF s1(4)] less.prems b by simp
    have lB: "length ?B = length A" "drop b ?B = drop b A" "take b ?B = take a A @ S1" "drop e ?B = drop e A"
      using len1 less.prems b by auto
    have inv1: "uheap_inv u1" "fits (UHeap_Tracker u1) (3 * array_pages N) c"
      using less.prems(1,5) heap_same_inv [OF s1(2)] s1(2) by (simp_all add: heap_same_def)
    obtain S2 u2 where s2: "MSort strategy ?B u1 (int b + 1) (int e) = Inr (take b ?B @ S2 @ drop e ?B, u2)" "heap_same u1 u2"
        "sorted S2" "mset S2 = mset (take (e - b) (drop b ?B))"
      using less.hyps [OF lt(2), of u1 ?B] less.prems b inv1 lB(1) by auto
    let ?C = "take a A @ S1 @ S2 @ drop e A"
    have len2: "length S2 = e - b" using mset_eq_length [OF s2(4) [unfolded lB(2)]] less.prems b by simp
    have inv2: "uheap_inv u2" "fits (UHeap_Tracker u2) (3 * array_pages e) c"
      using inv1 heap_same_inv [OF s2(2)] s2(2) fits_mono [OF inv1(2)] array_pages_mono [OF less.prems(4)]
      by (simp_all add: heap_same_def)
    obtain u3 where m: "Merge strategy ?C u2 (int a + 1) (int b) (int e)
        = Inr (take a ?C @ merge2 (take (b - a) (drop a ?C)) (take (e - b) (drop b ?C)) @ drop e ?C, u3)" "heap_same u2 u3"
      using Merge_merges [OF inv2(1) st b _ _ inv2(2), of ?C] less.prems len1 len2 b N by auto
    have parts: "take a ?C = take a A" "take (b - a) (drop a ?C) = S1" "take (e - b) (drop b ?C) = S2" "drop e ?C = drop e A"
      using len1 len2 less.prems b by auto
    have "MSort strategy A u (int a + 1) (int e) = Inr (take a A @ merge2 S1 S2 @ drop e A, u3)"
      using s1(1) s2(1) m(1) False
      by (subst MSort.simps) (simp add: q Let_def lB(3,4) parts del: take_append drop_append)
    moreover have "take (e - a) (drop a A) = take (b - a) (drop a A) @ take (e - b) (drop b A)"
    proof -
      have "e - a = (b - a) + (e - b)" using b by simp
      then show ?thesis using b by (simp only: take_add drop_drop) simp
    qed
    ultimately show ?thesis
      using heap_same_trans [OF heap_same_trans [OF s1(2) s2(2)] m(2)] sorted_merge2 [OF s1(3) s2(3)] s1(4) s2(4) [unfolded lB(2)]
      by (intro exI [of _ "merge2 S1 S2"] exI [of _ u3]) simp
  qed
qed

section \<open>The programs\<close>






lemma QuickSort_eq: "QuickSort A (int (length A)) = Inr (sort A)"
proof -
  obtain B where B: "QSort (length A) A 0 (int (length A) - 1) = Inr B" "seg_perm 0 (int (length A) - 1) A B"
      "seg_sorted 0 (int (length A) - 1) B"
  proof -
    have "nat (int (length A) - 1 - 0) \<le> length A" by linarith
    then show ?thesis using that QSort_sorts [of 0 "int (length A) - 1" A "length A"] by auto
  qed
  then have "sort A = B"
    using seg_sorted_all [of B] seg_perm_length [OF B(2)] by (intro properties_for_sort) (simp_all add: seg_perm_def)
  then show ?thesis using B(1) by (simp add: QuickSort_def)
qed

lemma MSort_eq:
  assumes "uheap_inv u" and "strategy \<in> searching" and "length A \<le> 134217728"
    and "fits (UHeap_Tracker u) (3 * array_pages (length A)) c"
  shows "\<exists>u'. MSort strategy A u 1 (int (length A)) = Inr (sort A, u') \<and> heap_same u u'"
proof -
  obtain S u' where "MSort strategy A u 1 (int (length A)) = Inr (S, u')" "heap_same u u'" "sorted S" "mset S = mset A"
    using MSort_sorts [OF assms(2,3,1), of 0 "length A" A c] assms(4) by auto
  moreover from this have "sort A = S" by (intro properties_for_sort) simp_all
  ultimately show ?thesis by blast
qed



section \<open>Theorems\<close>

text \<open>
  C16. The QuickSort() of the user programs ends on every array, stays inside it and leaves the elements
  in ascending order.
\<close>

theorem quicksort_sorts: "QuickSort Elements (int (length Elements)) = Inr (sort Elements)"
  by (rule QuickSort_eq)

text \<open>
  C17. The merge sort program, with the strategies that search the heap from its start: on a heap with a
  run of free pages three times as long as the array needs, MSort() ends, leaves the elements in
  ascending order, and gives back every buffer, so that the heap is as before.
\<close>

theorem mergesort_sorts:
  assumes "uheap_inv u" and "strategy \<in> {UHP_PLACE_FIRSTFIT, UHP_PLACE_BESTFIT, UHP_PLACE_WORSTFIT}"
    and "length A \<le> 134217728" and "fits (UHeap_Tracker u) (3 * array_pages (length A)) c"
  shows "\<exists>u'. MSort strategy A u 1 (int (length A)) = Inr (sort A, u')
    \<and> UHeap_Tracker u' = UHeap_Tracker u \<and> sizeOfVAs u' = sizeOfVAs u"
  using MSort_eq [OF assms(1) _ assms(3,4), of strategy] assms(2) by (auto simp: searching_def heap_same_def)


lemma sample_room: "n \<le> 100 \<Longrightarrow> fits (UHeap_Tracker sample_uheap) n 4"
  by (auto simp: fits_def free_page_def sample_pages split: if_splits)

theorem mergesort_sorts_witness:
  "\<exists>u'. MSort UHP_PLACE_BESTFIT [5, -2, 9, 5] sample_uheap 1 4 = Inr ([-2, 5, 5, 9], u')
     \<and> UHeap_Tracker u' = UHeap_Tracker sample_uheap"
  using mergesort_sorts [OF sample_uheap_inv, of UHP_PLACE_BESTFIT "[5, -2, 9, 5]" 4] sample_room [of 3]
  by (auto simp: array_pages_def)


end
