(* ===== verification/FOS_Boot.thy ===== *)
theory FOS_Boot
  imports FOS_Env FOS_FrameInv
begin

text \<open>
  The kernel's address space at boot: detect_memory(), check_boot_pgdir() and turn_on_paging() of
  kern/helpers.c, boot_allocate_space(), boot_get_page_table(), boot_map_range() and
  initialize_kernel_VM() of kern/memory_manager.c. The theorems show that the boot code establishes
  the invariants the other theories assume of the kernel.
\<close>

section \<open>Memory before paging\<close>

text \<open>
  Until paging is turned on, segmentation maps the address KERNEL_BASE + x to the physical address x.
  The linker gives the end of the kernel image and the bottom of the kernel stack.
\<close>

record boot_image =
  end_of_kernel :: u32
  ptr_stack_bottom :: u32

definition boot_load :: "kstate \<Rightarrow> u32 \<Rightarrow> u32 \<Rightarrow> u32" where
  "boot_load s p i = phys s (PPN (p - KERNEL_BASE)) i"

definition boot_store :: "kstate \<Rightarrow> u32 \<Rightarrow> u32 \<Rightarrow> u32 \<Rightarrow> kstate" where
  "boot_store s p i v = phys_store s (PPN (p - KERNEL_BASE)) i v"

definition NPDENTRIES :: nat where "NPDENTRIES = 1024"

text \<open>sizeof(struct Frame_Info): two links, a 16-bit count, an address, a pointer and a byte, with padding.\<close>

definition sizeof_Frame_Info :: u32 where "sizeof_Frame_Info = 24"

section \<open>The size of memory\<close>

text \<open>
  The arguments are what nvram_read() answers for NVRAM_BASELO, NVRAM_EXTLO and register 0x34: sizes in
  units of 1 KB, 1 KB and 64 KB.
\<close>

definition detect_memory :: "kstate \<Rightarrow> u32 \<Rightarrow> u32 \<Rightarrow> u32 \<Rightarrow> kstate" where
  "detect_memory s base_kb ext_kb other_64kb =
     (let size_of_extended_mem = ROUNDDOWN (ext_kb * 1024) PAGE_SIZE;
          size_of_other_mem = ROUNDDOWN (other_64kb * 1024 * 64) PAGE_SIZE;
          maxpa = (if size_of_other_mem > 0 then size_of_other_mem + 16 * 1024 * 1024
                   else if size_of_extended_mem \<noteq> 0 then PHYS_EXTENDED_MEM + size_of_extended_mem
                   else size_of_extended_mem)
      in s\<lparr>number_of_frames := maxpa div PAGE_SIZE\<rparr>)"

section \<open>Space and page tables at boot\<close>

text \<open>The space is always aligned on a page boundary, whatever the second argument.\<close>

definition boot_allocate_space :: "boot_image \<Rightarrow> kstate \<Rightarrow> u32 \<Rightarrow> u32 \<Rightarrow> u32 \<times> kstate" where
  "boot_allocate_space img s sz align =
     (let s = (if ptr_free_mem s = 0 then s\<lparr>ptr_free_mem := end_of_kernel img\<rparr> else s);
          ptr_allocated_mem = ROUNDUP (ptr_free_mem s) PAGE_SIZE
      in (ptr_allocated_mem, s\<lparr>ptr_free_mem := ptr_allocated_mem + sz\<rparr>))"

definition boot_get_page_table :: "boot_image \<Rightarrow> kstate \<Rightarrow> u32 \<Rightarrow> u32 \<Rightarrow> bool \<Rightarrow> (u32 \<times> kstate) result" where
  "boot_get_page_table img s dir va create =
     (let phys_page_table = EXTRACT_ADDRESS (boot_load s dir (PDX va)) in
      rbind (STATIC_KERNEL_VIRTUAL_ADDRESS s phys_page_table) (\<lambda>ptr_page_table.
      if phys_page_table = 0 then
        if create then
          let (ptr_page_table, s) = boot_allocate_space img s PAGE_SIZE PAGE_SIZE in
          rbind (STATIC_KERNEL_PHYSICAL_ADDRESS ptr_page_table) (\<lambda>phys_page_table.
          Inr (ptr_page_table, boot_store s dir (PDX va)
                 (CONSTRUCT_ENTRY phys_page_table (PERM_PRESENT OR PERM_WRITEABLE))))
        else Inr (0, s)
      else Inr (ptr_page_table, s)))"

fun boot_map_loop :: "nat \<Rightarrow> boot_image \<Rightarrow> u32 \<Rightarrow> u32 \<Rightarrow> u32 \<Rightarrow> u32 \<Rightarrow> kstate \<Rightarrow> kstate result" where
  "boot_map_loop 0 img dir va pa perm s = Inr s"
| "boot_map_loop (Suc n) img dir va pa perm s =
     rbind (boot_get_page_table img s dir va True) (\<lambda>(ptr_page_table, s).
     boot_map_loop n img dir (va + PAGE_SIZE) (pa + PAGE_SIZE) perm
       (boot_store s ptr_page_table (PTX va) (CONSTRUCT_ENTRY pa (perm OR PERM_PRESENT))))"

text \<open>The counter is compared as an unsigned number; above the last multiple of the page size it never reaches the bound.\<close>

definition boot_map_range :: "boot_image \<Rightarrow> kstate \<Rightarrow> u32 \<Rightarrow> u32 \<Rightarrow> u32 \<Rightarrow> u32 \<Rightarrow> u32 \<Rightarrow> kstate result" where
  "boot_map_range img s dir va sz pa perm =
     (if sz > 0xFFFFF000 then Inl Diverges
      else boot_map_loop ((unat sz + 4095) div 4096) img dir va pa perm s)"

text \<open>The tables of the addresses from KERNEL_BASE on; the counter has 64 bits and does not wrap.\<close>

fun boot_tables :: "nat \<Rightarrow> boot_image \<Rightarrow> u32 \<Rightarrow> u32 \<Rightarrow> kstate \<Rightarrow> kstate result" where
  "boot_tables 0 img dir sva s = Inr s"
| "boot_tables (Suc n) img dir sva s =
     rbind (boot_get_page_table img s dir sva True) (\<lambda>(_, s). boot_tables n img dir (sva + PTSIZE) s)"

definition setup_listing_to_all_page_tables_entries :: "kstate \<Rightarrow> kstate result" where
  "setup_listing_to_all_page_tables_entries s =
     (let dir = ptr_page_directory s in
      rbind (STATIC_KERNEL_PHYSICAL_ADDRESS dir) (\<lambda>phys_frame_address.
      let s = boot_store s dir (PDX VPT) (CONSTRUCT_ENTRY phys_frame_address (PERM_PRESENT OR PERM_WRITEABLE)) in
      rbind (STATIC_KERNEL_PHYSICAL_ADDRESS dir) (\<lambda>phys_frame_address.
      Inr (boot_store s dir (PDX UVPT) (phys_frame_address OR PERM_USER OR PERM_PRESENT)))))"

section \<open>The check of the directory\<close>

definition check_va2pa :: "kstate \<Rightarrow> u32 \<Rightarrow> u32 \<Rightarrow> u32 result" where
  "check_va2pa s dir va =
     (let dirEntry = boot_load s dir (PDX va) in
      if dirEntry AND PERM_PRESENT = 0 then Inr (NOT 0)
      else
        rbind (STATIC_KERNEL_VIRTUAL_ADDRESS s (EXTRACT_ADDRESS dirEntry)) (\<lambda>p.
        if boot_load s p (PTX va) AND PERM_PRESENT = 0 then Inr (NOT 0)
        else Inr (EXTRACT_ADDRESS (boot_load s p (PTX va)))))"

definition assert_va2pa :: "kstate \<Rightarrow> u32 \<Rightarrow> u32 \<Rightarrow> unit result" where
  "assert_va2pa s va pa =
     rbind (check_va2pa s (ptr_page_directory s) va) (\<lambda>r.
       if r = pa then Inr () else Inl (Assert_failure ''check_va2pa''))"

text \<open>There are 65536 pages from KERNEL_BASE on.\<close>

fun check_image :: "nat \<Rightarrow> u32 \<Rightarrow> kstate \<Rightarrow> unit result" where
  "check_image 0 i s = (if KERNEL_BASE + i < ptr_free_mem s then Inl Diverges else Inr ())"
| "check_image (Suc n) i s =
     (if KERNEL_BASE + i < ptr_free_mem s then
        rbind (assert_va2pa s (KERNEL_BASE + i) i) (\<lambda>_. check_image n (i + PAGE_SIZE) s)
      else Inr ())"

fun check_stack :: "nat \<Rightarrow> u32 \<Rightarrow> u32 \<Rightarrow> kstate \<Rightarrow> unit result" where
  "check_stack 0 i pa s = Inr ()"
| "check_stack (Suc n) i pa s =
     rbind (assert_va2pa s (KERNEL_STACK_TOP - KERNEL_STACK_SIZE + i) (pa + i)) (\<lambda>_.
     check_stack n (i + PAGE_SIZE) pa s)"

text \<open>Which entries of the directory must be set.\<close>

definition boot_entry :: "u32 \<Rightarrow> bool" where
  "boot_entry i \<longleftrightarrow> i = PDX VPT \<or> i = PDX UVPT \<or> i = PDX (KERNEL_STACK_TOP - 1) \<or> i = PDX UENVS \<or> i \<ge> PDX KERNEL_BASE"

fun check_entries :: "nat \<Rightarrow> u32 \<Rightarrow> kstate \<Rightarrow> unit result" where
  "check_entries 0 i s = Inr ()"
| "check_entries (Suc n) i s =
     (if (boot_load s (ptr_page_directory s) i \<noteq> 0) = boot_entry i then check_entries n (i + 1) s
      else Inl (Assert_failure ''ptr_page_directory[i]''))"

definition check_boot_pgdir :: "boot_image \<Rightarrow> kstate \<Rightarrow> unit result" where
  "check_boot_pgdir img s =
     rbind (check_image 65536 0 s) (\<lambda>_.
     rbind (STATIC_KERNEL_PHYSICAL_ADDRESS (ptr_stack_bottom img)) (\<lambda>pa.
     rbind (check_stack (unat (KERNEL_STACK_SIZE div PAGE_SIZE)) 0 pa s) (\<lambda>_.
     check_entries NPDENTRIES 0 s)))"

section \<open>Turning paging on\<close>

text \<open>
  The low entries are copies of those from KERNEL_BASE on while paging is on but the segments still
  have their old base; they are removed through the new mapping.
\<close>

fun copy_entries :: "nat \<Rightarrow> u32 \<Rightarrow> u32 \<Rightarrow> kstate \<Rightarrow> kstate" where
  "copy_entries 0 i j s = s"
| "copy_entries (Suc n) i j s =
     copy_entries n (i + 1) (j + 1) (boot_store s (ptr_page_directory s) j (boot_load s (ptr_page_directory s) i))"

fun clear_entries :: "nat \<Rightarrow> u32 \<Rightarrow> kstate \<Rightarrow> kstate result" where
  "clear_entries 0 j s = Inr s"
| "clear_entries (Suc n) j s = rbind (kstore s (ptr_page_directory s) j 0) (\<lambda>s. clear_entries n (j + 1) s)"

definition turn_on_paging :: "kstate \<Rightarrow> kstate result" where
  "turn_on_paging s =
     (let n = unat (PDX (ptr_free_mem s)) - unat (PDX KERNEL_BASE);
          s = copy_entries n (PDX KERNEL_BASE) 0 s;
          s = s\<lparr>reg_cr3 := phys_page_directory s\<rparr> in
      rbind (clear_entries n 0 s) (\<lambda>s. Inr (s\<lparr>reg_cr3 := phys_page_directory s\<rparr>)))"

section \<open>The kernel's address space\<close>

definition create_boot_directory :: "boot_image \<Rightarrow> kstate \<Rightarrow> kstate result" where
  "create_boot_directory img s =
     (let (dir, s) = boot_allocate_space img s PAGE_SIZE PAGE_SIZE;
          s = phys_fill (s\<lparr>ptr_page_directory := dir\<rparr>) (PPN (dir - KERNEL_BASE)) (\<lambda>_. 0) in
      rbind (STATIC_KERNEL_PHYSICAL_ADDRESS dir) (\<lambda>pa. Inr (s\<lparr>phys_page_directory := pa\<rparr>)))"

definition boot_arrays :: "boot_image \<Rightarrow> kstate \<Rightarrow> kstate" where
  "boot_arrays img s =
     (let (_, s) = boot_allocate_space img s (number_of_frames s * sizeof_Frame_Info) PAGE_SIZE;
          s = s\<lparr>frames_info := (\<lambda>_. zero_frame_info)\<rparr>;
          (_, s) = boot_allocate_space img s (of_nat PAGES_PER_FILE * sizeof_Frame_Info) PAGE_SIZE
      in s)"

definition boot_envs :: "boot_image \<Rightarrow> kstate \<Rightarrow> kstate result" where
  "boot_envs img s =
     (let envs_size = NENV * sizeof_Env;
          (ptr_envs, s) = boot_allocate_space img s envs_size PAGE_SIZE;
          s = s\<lparr>envs := (\<lambda>_. zero_env)\<rparr>;
          dir = ptr_page_directory s in
      rbind (STATIC_KERNEL_PHYSICAL_ADDRESS ptr_envs) (\<lambda>pa.
      rbind (boot_map_range img s dir UENVS envs_size pa PERM_USER) (\<lambda>s.
      Inr (boot_store s dir (PDX UENVS)
             (boot_load s dir (PDX UENVS) OR (PERM_USER OR (PERM_PRESENT AND NOT PERM_WRITEABLE)))))))"

definition initialize_kernel_VM :: "boot_image \<Rightarrow> kstate \<Rightarrow> kstate result" where
  "initialize_kernel_VM img s =
     rbind (create_boot_directory img s) (\<lambda>s.
     rbind (STATIC_KERNEL_PHYSICAL_ADDRESS (ptr_stack_bottom img)) (\<lambda>stack.
     rbind (boot_map_range img s (ptr_page_directory s) (KERNEL_STACK_TOP - KERNEL_STACK_SIZE)
              KERNEL_STACK_SIZE stack PERM_WRITEABLE) (\<lambda>s.
     rbind (boot_tables 64 img (ptr_page_directory s) KERNEL_BASE s) (\<lambda>s.
     let s = boot_arrays img s in
     rbind (setup_listing_to_all_page_tables_entries s) (\<lambda>s.
     rbind (boot_envs img s) (\<lambda>s.
     rbind (boot_map_range img s (ptr_page_directory s) KERNEL_BASE (ptr_free_mem s - KERNEL_BASE) 0
              PERM_WRITEABLE) (\<lambda>s.
     rbind (check_boot_pgdir img s) (\<lambda>_.
     turn_on_paging s))))))))"

section \<open>Addresses at boot\<close>

lemma unat_static_va:
  assumes "unat f < 65536" shows "unat (static_va f) = unat f * 4096 + 4026531840"
proof -
  have "unat (push_bit 12 f) = unat f * 4096"
    using assms by (simp add: push_bit_eq_mult unat_word_ariths)
  then show ?thesis
    using assms unfolding static_va_def by (subst unat_add_u32) (simp_all add: KERNEL_BASE_def)
qed

lemma static_minus: "static_va f - KERNEL_BASE = push_bit 12 f"
  by (simp add: static_va_def)

lemma static_PPN: "unat f < 65536 \<Longrightarrow> PPN (push_bit 12 f) = f"
  by (rule PPN_push_bit) (simp add: word_less_nat_alt)

lemma boot_access:
  assumes "unat f < 65536"
  shows "boot_load s (static_va f) i = phys s f i" and "boot_store s (static_va f) i v = phys_store s f i v"
  using static_PPN [OF assms] by (simp_all add: boot_load_def boot_store_def static_minus)

lemma static_physical:
  assumes "unat f < 65536" shows "STATIC_KERNEL_PHYSICAL_ADDRESS (static_va f) = Inr (push_bit 12 f)"
proof -
  have "\<not> static_va f < KERNEL_BASE"
    using unat_static_va [OF assms] by (simp add: word_less_nat_alt KERNEL_BASE_def)
  then show ?thesis by (simp add: STATIC_KERNEL_PHYSICAL_ADDRESS_def static_minus)
qed

text \<open>The space up to the first free byte, rounded up to whole frames, ends before the kernel heap.\<close>

definition boot_room :: "kstate \<Rightarrow> nat \<Rightarrow> bool" where
  "boot_room s n \<longleftrightarrow> kernel_end s + n \<le> 0x6000 \<and> kernel_end s + n \<le> unat (number_of_frames s)"

lemma boot_allocate:
  assumes base: "KERNEL_BASE \<le> ptr_free_mem s" and room: "boot_room s ((unat sz + 4095) div 4096)"
  defines "t \<equiv> of_nat (kernel_end s)"
  shows "boot_allocate_space img s sz al = (static_va t, s\<lparr>ptr_free_mem := static_va t + sz\<rparr>)"
    and "KERNEL_BASE \<le> static_va t + sz" and "unat t = kernel_end s" and "unat t < 65536"
    and "kernel_end (s\<lparr>ptr_free_mem := static_va t + sz\<rparr>) = kernel_end s + (unat sz + 4095) div 4096"
proof -
  let ?P = "unat (ptr_free_mem s)"
  have b: "4026531840 \<le> ?P" using base by (simp add: word_le_nat_alt KERNEL_BASE_def)
  have ke: "kernel_end s = (?P - 4026531840 + 4095) div 4096" by (simp add: kernel_end_def KERNEL_BASE_def)
  then have k: "kernel_end s + (unat sz + 4095) div 4096 \<le> 24576" using room by (simp add: boot_room_def)
  then show t: "unat t = kernel_end s" "unat t < 65536" by (simp_all add: t_def unat_of_nat)
  have "(?P - 4026531840 + 4095) div 4096 < 24577" using k ke by linarith
  then have "?P - 4026531840 + 4095 < 24577 * 4096" by (subst (asm) div_less_iff_less_mult) simp_all
  then have P: "?P + 4095 < 4294967296" by linarith
  have "unat (ROUNDUP (ptr_free_mem s) PAGE_SIZE) = (?P + 4095) div 4096 * 4096"
    using P by (subst unat_ROUNDUP) (simp_all add: PAGE_SIZE_def)
  also have "(?P + 4095) div 4096 = 983040 + kernel_end s"
  proof -
    have e: "?P + 4095 = (?P - 4026531840 + 4095) + 983040 * 4096" using b by linarith
    show ?thesis unfolding e ke by (subst div_mult_self1) simp_all
  qed
  finally have "unat (ROUNDUP (ptr_free_mem s) PAGE_SIZE) = unat (static_va t)"
    using unat_static_va [OF t(2)] t(1) by simp
  then have "ROUNDUP (ptr_free_mem s) PAGE_SIZE = static_va t" by (rule word_unat_eq_iff [THEN iffD2])
  moreover have "ptr_free_mem s \<noteq> 0" using b by auto
  ultimately show "boot_allocate_space img s sz al = (static_va t, s\<lparr>ptr_free_mem := static_va t + sz\<rparr>)"
    by (simp add: boot_allocate_space_def Let_def)
  have "(unat sz + 4095) div 4096 < 24577 - kernel_end s" using k by linarith
  then have "unat sz + 4095 < (24577 - kernel_end s) * 4096" by (subst (asm) div_less_iff_less_mult) simp_all
  then have u: "unat (static_va t + sz) = kernel_end s * 4096 + 4026531840 + unat sz"
    using k t by (subst unat_add_u32) (simp_all add: unat_static_va)
  then show "KERNEL_BASE \<le> static_va t + sz" by (simp add: word_le_nat_alt KERNEL_BASE_def)
  show "kernel_end (s\<lparr>ptr_free_mem := static_va t + sz\<rparr>) = kernel_end s + (unat sz + 4095) div 4096"
    unfolding kernel_end_def [of "s\<lparr>ptr_free_mem := static_va t + sz\<rparr>"] using u by (simp add: KERNEL_BASE_def)
qed

section \<open>The invariant of the boot phase\<close>

text \<open>The directory refers to itself at VPT and UVPT; these entries are no tables.\<close>

definition self_map :: "u32 \<Rightarrow> bool" where
  "self_map i \<longleftrightarrow> i = PDX VPT \<or> i = PDX UVPT"

text \<open>
  The directory is in frame \<open>F\<close>; the tables are in different frames behind it, all below the end of
  the space handed out, beyond which memory is clear.
\<close>

definition boot_inv :: "u32 \<Rightarrow> kstate \<Rightarrow> bool" where
  "boot_inv F s \<longleftrightarrow> ptr_page_directory s = static_va F \<and> phys_page_directory s = push_bit 12 F
     \<and> KERNEL_BASE \<le> ptr_free_mem s \<and> unat F < kernel_end s \<and> boot_room s 0
     \<and> (\<forall>i. \<not> self_map i \<and> phys s F i \<noteq> 0 \<longrightarrow> phys s F i AND PERM_PRESENT = PERM_PRESENT
          \<and> unat F < unat (PPN (phys s F i)) \<and> unat (PPN (phys s F i)) < kernel_end s)
     \<and> (\<forall>i j. \<not> self_map i \<and> \<not> self_map j \<and> phys s F i \<noteq> 0 \<and> phys s F j \<noteq> 0
          \<and> PPN (phys s F i) = PPN (phys s F j) \<longrightarrow> i = j)
     \<and> (\<forall>g. kernel_end s \<le> unat g \<longrightarrow> phys s g = (\<lambda>_. 0))"

lemma boot_invI:
  assumes "ptr_page_directory s = static_va F" and "phys_page_directory s = push_bit 12 F"
    and "KERNEL_BASE \<le> ptr_free_mem s" and "unat F < kernel_end s" and "boot_room s 0"
    and "\<And>i. \<not> self_map i \<Longrightarrow> phys s F i \<noteq> 0 \<Longrightarrow> phys s F i AND PERM_PRESENT = PERM_PRESENT
      \<and> unat F < unat (PPN (phys s F i)) \<and> unat (PPN (phys s F i)) < kernel_end s"
    and "\<And>i j. \<not> self_map i \<Longrightarrow> \<not> self_map j \<Longrightarrow> phys s F i \<noteq> 0 \<Longrightarrow> phys s F j \<noteq> 0
      \<Longrightarrow> PPN (phys s F i) = PPN (phys s F j) \<Longrightarrow> i = j"
    and "\<And>g. kernel_end s \<le> unat g \<Longrightarrow> phys s g = (\<lambda>_. 0)"
  shows "boot_inv F s"
  unfolding boot_inv_def using assms by blast

lemma boot_inv_frame:
  assumes "boot_inv F s"
  shows "unat F < 65536" "unat F < kernel_end s" "KERNEL_BASE \<le> ptr_free_mem s" "boot_room s 0"
  using assms by (auto simp: boot_inv_def boot_room_def)

lemma boot_inv_dir:
  assumes "boot_inv F s" shows "ptr_page_directory s = static_va F" "phys_page_directory s = push_bit 12 F"
  using assms unfolding boot_inv_def by blast+

lemma boot_inv_table:
  assumes "boot_inv F s" and "\<not> self_map i" and "phys s F i \<noteq> 0"
  shows "phys s F i AND PERM_PRESENT = PERM_PRESENT" "unat F < unat (PPN (phys s F i))"
    "unat (PPN (phys s F i)) < kernel_end s" "unat (PPN (phys s F i)) < 65536" "PPN (phys s F i) \<noteq> F"
proof -
  show *: "phys s F i AND PERM_PRESENT = PERM_PRESENT" "unat F < unat (PPN (phys s F i))"
      "unat (PPN (phys s F i)) < kernel_end s"
    using assms unfolding boot_inv_def by blast+
  then show "unat (PPN (phys s F i)) < 65536" "PPN (phys s F i) \<noteq> F"
    using boot_inv_frame(4) [OF assms(1)] by (auto simp: boot_room_def)
qed

lemma boot_inv_inj:
  "boot_inv F s \<Longrightarrow> \<not> self_map i \<Longrightarrow> \<not> self_map j \<Longrightarrow> phys s F i \<noteq> 0 \<Longrightarrow> phys s F j \<noteq> 0
    \<Longrightarrow> PPN (phys s F i) = PPN (phys s F j) \<Longrightarrow> i = j"
  unfolding boot_inv_def by blast

lemma boot_inv_clear: "boot_inv F s \<Longrightarrow> kernel_end s \<le> unat g \<Longrightarrow> phys s g = (\<lambda>_. 0)"
  unfolding boot_inv_def by blast

text \<open>The entry of a page, 0 where there is no table.\<close>

definition boot_pte :: "u32 \<Rightarrow> kstate \<Rightarrow> u32 \<Rightarrow> u32" where
  "boot_pte F s va = (if phys s F (PDX va) = 0 then 0 else phys s (PPN (phys s F (PDX va))) (PTX va))"

lemma boot_table_present:
  assumes "boot_inv F s" and "\<not> self_map (PDX va)" and "phys s F (PDX va) \<noteq> 0"
  shows "boot_get_page_table img s (static_va F) va c = Inr (static_va (PPN (phys s F (PDX va))), s)"
proof -
  let ?e = "phys s F (PDX va)"
  note t = boot_inv_table [OF assms] and f = boot_inv_frame [OF assms(1)]
  have "PPN ?e < number_of_frames s" using t(3) f(4) by (simp add: word_less_nat_alt boot_room_def)
  moreover have "push_bit 12 (PPN ?e) \<noteq> 0"
    using t(2,4) push_bit_12_eq_0 [of "PPN ?e"] by (auto simp: word_less_nat_alt)
  ultimately show ?thesis
    using static_PPN [OF t(4)] boot_access(1) [OF f(1)]
    by (simp add: boot_get_page_table_def Let_def EXTRACT_eq_push STATIC_KERNEL_VIRTUAL_ADDRESS_def static_va_def
        flip: not_less)
qed

lemma phys_store_free [simp]:
  "ptr_free_mem (phys_store s f i v) = ptr_free_mem s" "kernel_end (phys_store s f i v) = kernel_end s"
  "boot_room (phys_store s f i v) n = boot_room s n"
  by (simp_all add: phys_store_def kernel_end_def boot_room_def)

lemma boot_table_new:
  assumes inv: "boot_inv F s" and va: "\<not> self_map (PDX va)" "phys s F (PDX va) = 0" and room: "boot_room s 1"
  defines "t \<equiv> of_nat (kernel_end s)"
  defines "s' \<equiv> phys_store (s\<lparr>ptr_free_mem := static_va t + PAGE_SIZE\<rparr>) F (PDX va)
     (CONSTRUCT_ENTRY (push_bit 12 t) (PERM_PRESENT OR PERM_WRITEABLE))"
  shows "boot_get_page_table img s (static_va F) va True = Inr (static_va t, s')"
    and "boot_inv F s'" and "phys s' F (PDX va) \<noteq> 0" and "PPN (phys s' F (PDX va)) = t"
    and "i \<noteq> PDX va \<Longrightarrow> phys s' F i = phys s F i"
    and "\<not> self_map (PDX w) \<Longrightarrow> boot_pte F s' w = boot_pte F s w"
    and "kernel_end s' = Suc (kernel_end s)"
proof -
  let ?e = "CONSTRUCT_ENTRY (push_bit 12 t) (PERM_PRESENT OR PERM_WRITEABLE)"
  note f = boot_inv_frame [OF inv]
  have one: "(unat PAGE_SIZE + 4095) div 4096 = 1" by (simp add: PAGE_SIZE_def)
  note al = boot_allocate [OF f(3), of PAGE_SIZE, unfolded one, OF room, folded t_def]
  have z: "STATIC_KERNEL_VIRTUAL_ADDRESS s 0 = Inr KERNEL_BASE" "EXTRACT_ADDRESS 0 = 0"
    using f(2,4) by (auto simp: STATIC_KERNEL_VIRTUAL_ADDRESS_def boot_room_def PPN_def word_le_nat_alt EXTRACT_eq_push)
  show run: "boot_get_page_table img s (static_va F) va True = Inr (static_va t, s')"
    using va(2) z al(1) boot_access [OF f(1)] static_physical [OF al(4)]
    by (simp add: boot_get_page_table_def Let_def s'_def)
  have tb: "t < 0x100000" using al(4) by (simp add: word_less_nat_alt)
  have e: "PPN ?e = t" "?e AND PERM_PRESENT = PERM_PRESENT" "?e \<noteq> 0"
    using PPN_CONSTRUCT [OF tb, of "PERM_PRESENT OR PERM_WRITEABLE"] present_CONSTRUCT [of t PERM_WRITEABLE]
      CONSTRUCT_present_neq_0 [of "push_bit 12 t" PERM_WRITEABLE]
    by (simp_all add: or.commute) (simp_all add: PERM_PRESENT_def PERM_WRITEABLE_def)
  show "phys s' F (PDX va) \<noteq> 0" "PPN (phys s' F (PDX va)) = t" using e by (simp_all add: s'_def)
  show ke: "kernel_end s' = Suc (kernel_end s)" using al(5) by (simp add: s'_def)
  show oth: "phys s' F i = phys s F i" if "i \<noteq> PDX va" for i using that by (simp add: s'_def)
  have tF: "t \<noteq> F" using f(2) al(3) by auto
  have clear: "phys s g = (\<lambda>_. 0)" if "kernel_end s \<le> unat g" for g using inv that unfolding boot_inv_def by blast
  have ent: "phys s' F i = (if i = PDX va then ?e else phys s F i)" for i by (simp add: s'_def)
  have other: "phys s' g = phys s g" if "g \<noteq> F" for g using that by (simp add: s'_def)
  have tab: "phys s' F i AND PERM_PRESENT = PERM_PRESENT \<and> unat F < unat (PPN (phys s' F i))
      \<and> unat (PPN (phys s' F i)) < kernel_end s'" if "\<not> self_map i" "phys s' F i \<noteq> 0" for i
    using boot_inv_table [OF inv that(1)] that(2) e f(2) al(3) ke by (auto simp: ent split: if_splits)
  have new: "PPN (phys s F i) \<noteq> t" if "\<not> self_map i" "phys s F i \<noteq> 0" for i
    using boot_inv_table(3) [OF inv that] al(3) by auto
  have inj: "i = j" if "\<not> self_map i" "\<not> self_map j" "phys s' F i \<noteq> 0" "phys s' F j \<noteq> 0"
      "PPN (phys s' F i) = PPN (phys s' F j)" for i j
    using that boot_inv_inj [OF inv that(1,2)] new [OF that(1)] new [OF that(2)] e(1) by (auto simp: ent split: if_splits)
  have clr: "phys s' g = (\<lambda>_. 0)" if "kernel_end s' \<le> unat g" for g
    using that ke f(2) clear [of g] other [of g] by fastforce
  have fields: "ptr_page_directory s' = ptr_page_directory s" "phys_page_directory s' = phys_page_directory s"
      "ptr_free_mem s' = static_va t + PAGE_SIZE" "boot_room s' 0"
    using room ke by (simp_all add: s'_def boot_room_def)
  have dir: "ptr_page_directory s = static_va F" "phys_page_directory s = push_bit 12 F"
    using inv by (simp_all add: boot_inv_def)
  show "boot_inv F s'"
    by (rule boot_invI) (use dir fields al(2) f(2) ke tab inj clr in auto)
  show "boot_pte F s' w = boot_pte F s w" if w: "\<not> self_map (PDX w)"
  proof (cases "PDX w = PDX va")
    case True
    then show ?thesis using e va(2) other [OF tF] clear [of t] al(3) by (simp add: boot_pte_def ent)
  next
    case False
    then show ?thesis
      using other [OF boot_inv_table(5) [OF inv w]] by (simp add: boot_pte_def ent)
  qed
qed

text \<open>Only memory and the first free byte change.\<close>

definition boot_only :: "kstate \<Rightarrow> kstate \<Rightarrow> bool" where
  "boot_only s s' \<longleftrightarrow> (\<exists>ph p. s' = s\<lparr>phys := ph, ptr_free_mem := p\<rparr>)"

lemma boot_only_upd [simp]: "boot_only s (s\<lparr>phys := ph, ptr_free_mem := p\<rparr>)"
  "boot_only s (s\<lparr>ptr_free_mem := p\<rparr>)" "boot_only s (phys_store s f i v)" "boot_only s s"
proof -
  show *: "boot_only s (s\<lparr>phys := ph, ptr_free_mem := p\<rparr>)" for ph p by (auto simp: boot_only_def)
  show "boot_only s (s\<lparr>ptr_free_mem := p\<rparr>)" "boot_only s (phys_store s f i v)" "boot_only s s"
    using * [where ph = "phys s" and p = p] * [where ph = "phys s" and p = "ptr_free_mem s"]
      * [where ph = "(phys s)(f := (phys s f)(i := v))" and p = "ptr_free_mem s"]
    by (simp_all add: phys_store_def)
qed

lemma boot_only_trans: "boot_only s s1 \<Longrightarrow> boot_only s1 s2 \<Longrightarrow> boot_only s s2"
  unfolding boot_only_def by (elim exE, simp, intro exI, rule refl)

lemma boot_only_fields:
  assumes "boot_only s s'"
  shows "number_of_frames s' = number_of_frames s" "ptr_page_directory s' = ptr_page_directory s"
    "phys_page_directory s' = phys_page_directory s" "virtualAddresses s' = virtualAddresses s"
    "firstFreeVAInKHeap s' = firstFreeVAInKHeap s" "frames_info s' = frames_info s" "env_free_list s' = env_free_list s"
  using assms by (auto simp: boot_only_def)

text \<open>Finding or making the table of an address changes no entry of a page.\<close>

lemma boot_table:
  assumes inv: "boot_inv F s" and va: "\<not> self_map (PDX va)" and room: "phys s F (PDX va) \<noteq> 0 \<or> boot_room s 1"
  obtains s' where "boot_get_page_table img s (static_va F) va True = Inr (static_va (PPN (phys s' F (PDX va))), s')"
    and "boot_inv F s'" and "phys s' F (PDX va) \<noteq> 0" and "\<forall>i. i \<noteq> PDX va \<longrightarrow> phys s' F i = phys s F i"
    and "\<forall>w. \<not> self_map (PDX w) \<longrightarrow> boot_pte F s' w = boot_pte F s w"
    and "kernel_end s' = (if phys s F (PDX va) = 0 then Suc (kernel_end s) else kernel_end s)" and "boot_only s s'"
    and "phys s F (PDX va) \<noteq> 0 \<Longrightarrow> s' = s"
proof (cases "phys s F (PDX va) = 0")
  case True
  define s' where "s' = phys_store (s\<lparr>ptr_free_mem := static_va (of_nat (kernel_end s)) + PAGE_SIZE\<rparr>) F (PDX va)
     (CONSTRUCT_ENTRY (push_bit 12 (of_nat (kernel_end s))) (PERM_PRESENT OR PERM_WRITEABLE))"
  have "boot_room s 1" using True room by blast
  note t = boot_table_new [OF inv va True this, folded s'_def]
  have "boot_only s s'" unfolding s'_def by (rule boot_only_trans [OF boot_only_upd(2,3)])
  then show ?thesis using that [of s'] t True by simp
next
  case False
  then show ?thesis using that [of s] boot_table_present [OF inv va False] inv by simp
qed

lemma boot_put:
  fixes v :: u32
  assumes inv: "boot_inv F s" and va: "\<not> self_map (PDX va)" "phys s F (PDX va) \<noteq> 0"
  defines "s' \<equiv> boot_store s (static_va (PPN (phys s F (PDX va)))) (PTX va) v"
  shows "boot_inv F s'" and "phys s' F = phys s F" and "kernel_end s' = kernel_end s" and "boot_only s s'"
    and "\<not> self_map (PDX w) \<Longrightarrow> boot_pte F s' w = (if PPN w = PPN va then v else boot_pte F s w)"
proof -
  let ?t = "PPN (phys s F (PDX va))"
  note t = boot_inv_table [OF inv va]
  have s': "s' = phys_store s ?t (PTX va) v" using boot_access(2) [OF t(4)] by (simp add: s'_def)
  show F: "phys s' F = phys s F" using t(5) by (simp add: s')
  show ke: "kernel_end s' = kernel_end s" by (simp add: s')
  show "boot_only s s'" by (simp add: s')
  have clr: "phys s' g = (\<lambda>_. 0)" if "kernel_end s \<le> unat g" for g
    using boot_inv_clear [OF inv that] t(3) that by (auto simp: s')
  have fields: "ptr_page_directory s' = static_va F" "phys_page_directory s' = push_bit 12 F"
      "ptr_free_mem s' = ptr_free_mem s" "boot_room s' 0"
    using inv boot_inv_frame(4) [OF inv] by (simp_all add: s' boot_inv_def)
  note f = boot_inv_frame [OF inv]
  show "boot_inv F s'"
    by (rule boot_invI) (use fields f boot_inv_table [OF inv] boot_inv_inj [OF inv] clr in \<open>simp_all add: F ke\<close>)
  show "boot_pte F s' w = (if PPN w = PPN va then v else boot_pte F s w)" if w: "\<not> self_map (PDX w)"
  proof (cases "PDX w = PDX va")
    case True
    then show ?thesis using va(2) by (simp add: boot_pte_def F PPN_eq_iff) (simp add: s')
  next
    case False
    then have "phys s F (PDX w) \<noteq> 0 \<Longrightarrow> PPN (phys s F (PDX w)) \<noteq> ?t" using boot_inv_inj [OF inv w va(1) _ va(2)] by blast
    moreover have "PPN w \<noteq> PPN va" using False PPN_eq_iff by blast
    ultimately show ?thesis by (cases "phys s F (PDX w) = 0") (simp_all add: boot_pte_def F, simp add: s')
  qed
qed

section \<open>Mapping a range\<close>

text \<open>The entry of page number \<open>k\<close> after \<open>n\<close> pages from page number \<open>a\<close> on have been mapped to \<open>pa\<close>.\<close>

definition range_entry :: "nat \<Rightarrow> nat \<Rightarrow> u32 \<Rightarrow> u32 \<Rightarrow> nat \<Rightarrow> u32 \<Rightarrow> u32" where
  "range_entry a n pa perm k old =
     (if a \<le> k \<and> k < a + n then CONSTRUCT_ENTRY (pa + of_nat (k - a) * PAGE_SIZE) (perm OR PERM_PRESENT) else old)"

lemma range_entry_step:
  "range_entry (Suc a) n (pa + PAGE_SIZE) perm k (if k = a then CONSTRUCT_ENTRY pa (perm OR PERM_PRESENT) else old)
     = range_entry a (Suc n) pa perm k old"
proof (cases "Suc a \<le> k \<and> k < Suc a + n")
  case True
  then have "k - a = Suc (k - Suc a)" by arith
  then show ?thesis using True by (simp add: range_entry_def algebra_simps)
qed (auto simp: range_entry_def)

lemma range_entry_0: "range_entry a 0 pa perm k old = old"
  by (auto simp: range_entry_def)

lemma page_step:
  assumes "unat (PPN va) + 1 < 1048576"
  shows "unat (PPN (va + PAGE_SIZE)) = unat (PPN va) + 1"
proof -
  have "unat va div 4096 + 1 < 1048576" using assms by (simp add: unat_PPN)
  then have "unat va + 4096 < 4294967296" by linarith
  then have "unat (va + PAGE_SIZE) = unat va + 4096" by (subst unat_add_u32) (simp_all add: PAGE_SIZE_def)
  then show ?thesis by (simp add: unat_PPN)
qed

lemma PDX_of_PPN: "unat (PDX va) = unat (PPN va) div 1024"
  by (simp add: unat_PDX unat_PPN div_mult2_eq [symmetric])

text \<open>Mapping pages whose tables exist.\<close>

lemma boot_map_present:
  assumes "boot_inv F s" and "unat (PPN va) + n < 1048576"
    and "\<forall>k. unat (PPN va) \<le> k \<and> k < unat (PPN va) + n \<longrightarrow> \<not> self_map (of_nat (k div 1024)) \<and> phys s F (of_nat (k div 1024)) \<noteq> 0"
  shows "\<exists>s'. boot_map_loop n img (static_va F) va pa perm s = Inr s' \<and> boot_inv F s' \<and> phys s' F = phys s F
    \<and> kernel_end s' = kernel_end s \<and> boot_only s s' \<and> ptr_free_mem s' = ptr_free_mem s
    \<and> (\<forall>w. \<not> self_map (PDX w) \<longrightarrow>
         boot_pte F s' w = range_entry (unat (PPN va)) n pa perm (unat (PPN w)) (boot_pte F s w))"
  using assms
proof (induction n arbitrary: va pa s)
  case 0
  then show ?case by (simp add: range_entry_0)
next
  case (Suc n)
  let ?s = "boot_store s (static_va (PPN (phys s F (PDX va)))) (PTX va) (CONSTRUCT_ENTRY pa (perm OR PERM_PRESENT))"
  have "PDX va = of_nat (unat (PPN va) div 1024)" by (simp flip: PDX_of_PPN)
  then have va: "\<not> self_map (PDX va)" "phys s F (PDX va) \<noteq> 0" using Suc.prems(3) [rule_format, of "unat (PPN va)"] by simp_all
  note p = boot_put [OF Suc.prems(1) va, where v = "CONSTRUCT_ENTRY pa (perm OR PERM_PRESENT)"]
  have t: "unat (PPN (phys s F (PDX va))) < 65536" by (rule boot_inv_table(4) [OF Suc.prems(1) va])
  have nx: "unat (PPN (va + PAGE_SIZE)) = Suc (unat (PPN va))" using page_step [of va] Suc.prems(2) by simp
  have "\<forall>k. unat (PPN (va + PAGE_SIZE)) \<le> k \<and> k < unat (PPN (va + PAGE_SIZE)) + n \<longrightarrow>
      \<not> self_map (of_nat (k div 1024)) \<and> phys ?s F (of_nat (k div 1024)) \<noteq> 0"
    unfolding p(2) nx using Suc.prems(3) by simp
  moreover have "unat (PPN (va + PAGE_SIZE)) + n < 1048576" unfolding nx using Suc.prems(2) by simp
  ultimately obtain s' where s': "boot_map_loop n img (static_va F) (va + PAGE_SIZE) (pa + PAGE_SIZE) perm ?s = Inr s'"
      "boot_inv F s'" "phys s' F = phys ?s F" "kernel_end s' = kernel_end ?s" "boot_only ?s s'" "ptr_free_mem s' = ptr_free_mem ?s"
      "\<forall>w. \<not> self_map (PDX w) \<longrightarrow>
         boot_pte F s' w = range_entry (Suc (unat (PPN va))) n (pa + PAGE_SIZE) perm (unat (PPN w)) (boot_pte F ?s w)"
    using Suc.IH [OF p(1), of "va + PAGE_SIZE" "pa + PAGE_SIZE"] unfolding nx by blast
  have run: "boot_map_loop (Suc n) img (static_va F) va pa perm s = Inr s'"
    using boot_table_present [OF Suc.prems(1) va] s'(1) by simp
  have "boot_pte F s' w = range_entry (unat (PPN va)) (Suc n) pa perm (unat (PPN w)) (boot_pte F s w)"
    if w: "\<not> self_map (PDX w)" for w
  proof -
    have "PPN w = PPN va \<longleftrightarrow> unat (PPN w) = unat (PPN va)" by (simp add: word_unat_eq_iff)
    then show ?thesis using s'(7) w p(5) [OF w] range_entry_step [of "unat (PPN va)" n pa perm] by simp
  qed
  moreover have "ptr_free_mem ?s = ptr_free_mem s" using boot_access(2) [OF t] by simp
  ultimately show ?case
    using run s'(2-6) p(2,3) boot_only_trans [OF p(4) s'(5)] by (intro exI [of _ s']) (simp del: boot_map_loop.simps)
qed

text \<open>Mapping pages of one table, which is created if it is missing.\<close>

lemma boot_map_table:
  assumes inv: "boot_inv F s" and n: "0 < n" "unat (PPN va) + n < 1048576"
    and one: "\<forall>k. unat (PPN va) \<le> k \<and> k < unat (PPN va) + n \<longrightarrow> k div 1024 = unat (PDX va)"
    and self: "\<not> self_map (PDX va)" and room: "boot_room s 1"
  shows "\<exists>s'. boot_map_loop n img (static_va F) va pa perm s = Inr s' \<and> boot_inv F s'
    \<and> phys s' F (PDX va) \<noteq> 0 \<and> (\<forall>i. i \<noteq> PDX va \<longrightarrow> phys s' F i = phys s F i)
    \<and> kernel_end s \<le> kernel_end s' \<and> kernel_end s' \<le> kernel_end s + 1 \<and> boot_only s s'
    \<and> (\<forall>w. \<not> self_map (PDX w) \<longrightarrow>
         boot_pte F s' w = range_entry (unat (PPN va)) n pa perm (unat (PPN w)) (boot_pte F s w))"
proof -
  obtain s1 where s1: "boot_get_page_table img s (static_va F) va True = Inr (static_va (PPN (phys s1 F (PDX va))), s1)"
      "boot_inv F s1" "phys s1 F (PDX va) \<noteq> 0" "\<forall>i. i \<noteq> PDX va \<longrightarrow> phys s1 F i = phys s F i"
      "\<forall>w. \<not> self_map (PDX w) \<longrightarrow> boot_pte F s1 w = boot_pte F s w"
      "kernel_end s1 = (if phys s F (PDX va) = 0 then Suc (kernel_end s) else kernel_end s)" "boot_only s s1"
    using boot_table [OF inv self] room by metis
  have "boot_get_page_table img s1 (static_va F) va True = Inr (static_va (PPN (phys s1 F (PDX va))), s1)"
    by (rule boot_table_present [OF s1(2) self s1(3)])
  then have same: "boot_map_loop n img (static_va F) va pa perm s = boot_map_loop n img (static_va F) va pa perm s1"
    using s1(1) n(1) by (cases n) simp_all
  have "\<forall>k. unat (PPN va) \<le> k \<and> k < unat (PPN va) + n \<longrightarrow> \<not> self_map (of_nat (k div 1024)) \<and> phys s1 F (of_nat (k div 1024)) \<noteq> 0"
    using one self s1(3) by simp
  from boot_map_present [OF s1(2) n(2) this] obtain s' where
    "boot_map_loop n img (static_va F) va pa perm s1 = Inr s'" "boot_inv F s'" "phys s' F = phys s1 F"
      "kernel_end s' = kernel_end s1" "boot_only s1 s'"
      "\<forall>w. \<not> self_map (PDX w) \<longrightarrow>
         boot_pte F s' w = range_entry (unat (PPN va)) n pa perm (unat (PPN w)) (boot_pte F s1 w)" by blast
  then show ?thesis using same s1 boot_only_trans [OF s1(7)] by auto
qed

lemma boot_room_mono: "boot_room s n \<Longrightarrow> m \<le> n \<Longrightarrow> boot_room s m"
  by (simp add: boot_room_def)

lemma boot_room_later:
  "boot_room s n \<Longrightarrow> kernel_end s' \<le> kernel_end s + m \<Longrightarrow> number_of_frames s' = number_of_frames s \<Longrightarrow> m + k \<le> n
    \<Longrightarrow> boot_room s' k"
  by (simp add: boot_room_def)

lemma table_step:
  assumes "unat (PDX va) + 1 < 1024"
  shows "unat (PDX (va + PTSIZE)) = Suc (unat (PDX va))"
proof -
  have "unat va div 4194304 + 1 < 1024" using assms by (simp add: unat_PDX)
  then have "unat va + 4194304 < 4294967296" by linarith
  then have "unat (va + PTSIZE) = unat va + 4194304" by (subst unat_add_u32) (simp_all add: PTSIZE_def PAGE_SIZE_def)
  then show ?thesis by (simp add: unat_PDX)
qed

text \<open>Making the tables of \<open>n\<close> entries of the directory.\<close>

lemma boot_tables_made:
  assumes "boot_inv F s" and "boot_room s n" and "unat (PDX va) + n \<le> 1024"
    and "\<forall>k. unat (PDX va) \<le> k \<and> k < unat (PDX va) + n \<longrightarrow> \<not> self_map (of_nat k)"
  shows "\<exists>s'. boot_tables n img (static_va F) va s = Inr s' \<and> boot_inv F s' \<and> boot_only s s'
    \<and> kernel_end s \<le> kernel_end s' \<and> kernel_end s' \<le> kernel_end s + n
    \<and> (\<forall>i. if unat (PDX va) \<le> unat i \<and> unat i < unat (PDX va) + n then phys s' F i \<noteq> 0 else phys s' F i = phys s F i)
    \<and> (\<forall>w. \<not> self_map (PDX w) \<longrightarrow> boot_pte F s' w = boot_pte F s w)"
  using assms
proof (induction n arbitrary: va s)
  case 0
  then show ?case by (simp add: not_less [symmetric])
next
  case (Suc n)
  have self: "\<not> self_map (PDX va)" using Suc.prems(4) [rule_format, of "unat (PDX va)"] by simp
  have r1: "boot_room s 1" using boot_room_mono [OF Suc.prems(2), of 1] by simp
  obtain s1 where s1: "boot_get_page_table img s (static_va F) va True = Inr (static_va (PPN (phys s1 F (PDX va))), s1)"
      "boot_inv F s1" "phys s1 F (PDX va) \<noteq> 0" "\<forall>i. i \<noteq> PDX va \<longrightarrow> phys s1 F i = phys s F i"
      "\<forall>w. \<not> self_map (PDX w) \<longrightarrow> boot_pte F s1 w = boot_pte F s w"
      "kernel_end s1 = (if phys s F (PDX va) = 0 then Suc (kernel_end s) else kernel_end s)" "boot_only s s1"
    using boot_table [OF Suc.prems(1) self disjI2 [OF r1]] by metis
  have r: "boot_room s1 n"
    using boot_room_later [OF Suc.prems(2), of s1 1 n] s1(6) boot_only_fields(1) [OF s1(7)] by simp
  show ?case
  proof (cases n)
    case 0
    have "(if unat (PDX va) \<le> unat i \<and> unat i < unat (PDX va) + 1 then phys s1 F i \<noteq> 0 else phys s1 F i = phys s F i)" for i
      using s1(3,4) word_unat_eq_iff [of i "PDX va"] by (cases "i = PDX va") auto
    then show ?thesis using 0 s1 by simp
  next
    case (Suc m)
    then have nx: "unat (PDX (va + PTSIZE)) = Suc (unat (PDX va))" using table_step [of va] Suc.prems(3) by simp
    have "unat (PDX (va + PTSIZE)) + n \<le> 1024"
      "\<forall>k. unat (PDX (va + PTSIZE)) \<le> k \<and> k < unat (PDX (va + PTSIZE)) + n \<longrightarrow> \<not> self_map (of_nat k)"
      unfolding nx using Suc.prems(3,4) by simp_all
    from Suc.IH [OF s1(2) r this, unfolded nx] obtain s' where s': "boot_tables n img (static_va F) (va + PTSIZE) s1 = Inr s'"
        "boot_inv F s'" "boot_only s1 s'" "kernel_end s1 \<le> kernel_end s'" "kernel_end s' \<le> kernel_end s1 + n"
        "\<forall>i. if Suc (unat (PDX va)) \<le> unat i \<and> unat i < Suc (unat (PDX va)) + n then phys s' F i \<noteq> 0 else phys s' F i = phys s1 F i"
        "\<forall>w. \<not> self_map (PDX w) \<longrightarrow> boot_pte F s' w = boot_pte F s1 w" by blast
    have "(if unat (PDX va) \<le> unat i \<and> unat i < unat (PDX va) + Suc n then phys s' F i \<noteq> 0 else phys s' F i = phys s F i)" for i
      using s'(6) [rule_format, of i] s1(3,4) word_unat_eq_iff [of i "PDX va"]
      by (cases "i = PDX va") (auto split: if_splits)
    moreover have "boot_tables (Suc n) img (static_va F) va s = Inr s'" using s1(1) s'(1) by simp
    moreover have "kernel_end s \<le> kernel_end s' \<and> kernel_end s' \<le> kernel_end s + Suc n"
      using s1(6) s'(4,5) by (simp split: if_splits)
    ultimately show ?thesis
      using s1(5) s'(2,7) boot_only_trans [OF s1(7) s'(3)] by (intro exI [of _ s']) (simp del: boot_tables.simps)
  qed
qed

section \<open>The phases of initialize_kernel_VM()\<close>

text \<open>
  What the boot code relies on: the kernel image lies behind the first megabyte, the boot loader has
  left the memory behind it clear, and the frames needed for the directory, 66 tables and three arrays
  exist and end below the kernel heap.
\<close>

definition boot_pages :: "u32 \<Rightarrow> nat" where
  "boot_pages sz = (unat sz + 4095) div 4096"

definition boot_ready :: "boot_image \<Rightarrow> kstate \<Rightarrow> bool" where
  "boot_ready img s \<longleftrightarrow> ptr_free_mem s = 0 \<and> KERNEL_BASE + PHYS_EXTENDED_MEM \<le> end_of_kernel img
     \<and> KERNEL_BASE \<le> ptr_stack_bottom img \<and> PGOFF (ptr_stack_bottom img) = 0
     \<and> boot_room (s\<lparr>ptr_free_mem := end_of_kernel img\<rparr>) (67 + boot_pages (number_of_frames s * sizeof_Frame_Info)
         + boot_pages (of_nat PAGES_PER_FILE * sizeof_Frame_Info) + boot_pages (NENV * sizeof_Env))
     \<and> number_of_frames s \<le> 0x100000
     \<and> (\<forall>g. kernel_end (s\<lparr>ptr_free_mem := end_of_kernel img\<rparr>) \<le> unat g \<longrightarrow> phys s g = (\<lambda>_. 0))"

lemma boot_ready_stack:
  assumes "boot_ready img s"
  shows "PGOFF (ptr_stack_bottom img) = 0"
    "STATIC_KERNEL_PHYSICAL_ADDRESS (ptr_stack_bottom img) = Inr (ptr_stack_bottom img - KERNEL_BASE)"
proof -
  have "KERNEL_BASE \<le> ptr_stack_bottom img" using assms unfolding boot_ready_def by blast
  then show "STATIC_KERNEL_PHYSICAL_ADDRESS (ptr_stack_bottom img) = Inr (ptr_stack_bottom img - KERNEL_BASE)"
    by (simp add: STATIC_KERNEL_PHYSICAL_ADDRESS_def not_less [symmetric])
  show "PGOFF (ptr_stack_bottom img) = 0" using assms unfolding boot_ready_def by blast
qed

lemma boot_inv_alloc:
  assumes inv: "boot_inv F s" and room: "boot_room s (boot_pages sz)"
  shows "\<exists>p. boot_allocate_space img s sz al = (static_va (of_nat (kernel_end s)), s\<lparr>ptr_free_mem := p\<rparr>)
    \<and> boot_inv F (s\<lparr>ptr_free_mem := p\<rparr>) \<and> kernel_end (s\<lparr>ptr_free_mem := p\<rparr>) = kernel_end s + boot_pages sz"
proof -
  define p where "p = static_va (of_nat (kernel_end s)) + sz"
  note f = boot_inv_frame [OF inv]
  note al = boot_allocate [OF f(3) room [unfolded boot_pages_def], folded p_def boot_pages_def]
  note d = boot_inv_dir [OF inv]
  have "boot_room (s\<lparr>ptr_free_mem := p\<rparr>) 0" using al(5) room by (simp add: boot_room_def)
  then have "boot_inv F (s\<lparr>ptr_free_mem := p\<rparr>)"
    using d f(2) al(2,5) boot_inv_table [OF inv] boot_inv_inj [OF inv] boot_inv_clear [OF inv]
    by (intro boot_invI) (auto intro: trans_less_add1)
  then show ?thesis using al by blast
qed

lemma boot_inv_other [simp]:
  "boot_inv F (s\<lparr>frames_info := x\<rparr>) = boot_inv F s" "boot_inv F (s\<lparr>envs := y\<rparr>) = boot_inv F s"
  "kernel_end (s\<lparr>frames_info := x\<rparr>) = kernel_end s" "kernel_end (s\<lparr>envs := y\<rparr>) = kernel_end s"
  "boot_room (s\<lparr>frames_info := x\<rparr>) = boot_room s" "boot_room (s\<lparr>envs := y\<rparr>) = boot_room s"
  "boot_pte F (s\<lparr>frames_info := x\<rparr>) = boot_pte F s" "boot_pte F (s\<lparr>envs := y\<rparr>) = boot_pte F s"
  "boot_pte F (s\<lparr>ptr_free_mem := p\<rparr>) = boot_pte F s"
  by (simp_all add: boot_inv_def boot_room_def [abs_def] kernel_end_def boot_pte_def fun_eq_iff)

lemma create_directory:
  assumes "boot_ready img s"
  defines "s0 \<equiv> s\<lparr>ptr_free_mem := end_of_kernel img\<rparr>"
  shows "\<exists>F s'. create_boot_directory img s = Inr s' \<and> boot_inv F s' \<and> phys s' F = (\<lambda>_. 0)
    \<and> kernel_end s' = kernel_end s0 + 1 \<and> unat F = kernel_end s0 \<and> number_of_frames s' = number_of_frames s
    \<and> frames_info s' = frames_info s \<and> virtualAddresses s' = virtualAddresses s \<and> firstFreeVAInKHeap s' = firstFreeVAInKHeap s
    \<and> env_free_list s' = env_free_list s"
proof -
  have r: "boot_room s0 1" "KERNEL_BASE \<le> ptr_free_mem s0" "ptr_free_mem s = 0" "end_of_kernel img \<noteq> 0"
    using assms(1) by (auto simp: boot_ready_def s0_def boot_room_def fos_consts word_le_nat_alt)
  have one: "(unat PAGE_SIZE + 4095) div 4096 = 1" by (simp add: PAGE_SIZE_def)
  define F :: u32 where "F = of_nat (kernel_end s0)"
  define p where "p = static_va F + PAGE_SIZE"
  note al = boot_allocate [OF r(2), of PAGE_SIZE, unfolded one, OF r(1), folded F_def p_def]
  have al0: "boot_allocate_space img s PAGE_SIZE PAGE_SIZE = (static_va F, s\<lparr>ptr_free_mem := p\<rparr>)"
    using al(1) [of img PAGE_SIZE] r(3,4) by (simp add: boot_allocate_space_def Let_def s0_def p_def)
  define s' where "s' = (phys_fill (s\<lparr>ptr_free_mem := p, ptr_page_directory := static_va F\<rparr>) F (\<lambda>_. 0))
    \<lparr>phys_page_directory := push_bit 12 F\<rparr>"
  have run: "create_boot_directory img s = Inr s'"
    using al0 static_physical [OF al(4)] static_PPN [OF al(4)]
    by (simp add: create_boot_directory_def Let_def s'_def static_minus)
  have ke: "kernel_end s' = kernel_end s0 + 1" using al(5) by (simp add: s'_def kernel_end_def s0_def phys_fill_def p_def)
  have F0: "phys s' F = (\<lambda>_. 0)" by (simp add: s'_def)
  have KB: "KERNEL_BASE \<le> p" using al(2) by (simp add: p_def)
  have clr: "phys s' g = (\<lambda>_. 0)" if "kernel_end s' \<le> unat g" for g
    using assms(1) that ke by (simp add: s'_def boot_ready_def s0_def)
  have "boot_inv F s'"
    by (rule boot_invI) (use ke KB al(3) r(1) clr F0 in \<open>simp_all add: s'_def boot_room_def phys_fill_def s0_def\<close>)
  then show ?thesis using run ke F0 al(3) by (intro exI [of _ F] exI [of _ s']) (simp add: s'_def phys_fill_def)
qed

text \<open>The two entries for the directory itself.\<close>

lemma boot_listing:
  assumes inv: "boot_inv F s"
  shows "\<exists>s'. setup_listing_to_all_page_tables_entries s = Inr s' \<and> boot_inv F s' \<and> boot_only s s'
    \<and> kernel_end s' = kernel_end s \<and> (\<forall>i. self_map i \<longrightarrow> phys s' F i \<noteq> 0) \<and> (\<forall>i. \<not> self_map i \<longrightarrow> phys s' F i = phys s F i)
    \<and> (\<forall>w. \<not> self_map (PDX w) \<longrightarrow> boot_pte F s' w = boot_pte F s w)"
proof -
  note f = boot_inv_frame [OF inv]
  define v where "v = CONSTRUCT_ENTRY (push_bit 12 F) (PERM_PRESENT OR PERM_WRITEABLE)"
  define u where "u = push_bit 12 F OR PERM_USER OR PERM_PRESENT"
  define s' where "s' = phys_store (phys_store s F (PDX VPT) v) F (PDX UVPT) u"
  note d = boot_inv_dir [OF inv]
  have run: "setup_listing_to_all_page_tables_entries s = Inr s'"
    using static_physical [OF f(1)] boot_access(2) [OF f(1)] d(1)
    by (simp add: setup_listing_to_all_page_tables_entries_def Let_def s'_def v_def u_def)
  have nz: "v \<noteq> 0" "u \<noteq> 0"
    by (simp_all add: v_def u_def CONSTRUCT_ENTRY_def or_eq_0_iff PERM_PRESENT_def)
  have F: "phys s' F i = (if i = PDX UVPT then u else if i = PDX VPT then v else phys s F i)" for i
    by (simp add: s'_def)
  have same: "\<And>i. \<not> self_map i \<Longrightarrow> phys s' F i = phys s F i" "\<And>g. g \<noteq> F \<Longrightarrow> phys s' g = phys s g"
    by (simp_all add: F self_map_def) (simp add: s'_def)
  have clr: "phys s' g = (\<lambda>_. 0)" if "kernel_end s \<le> unat g" for g
    using that f(2) boot_inv_clear [OF inv that] same(2) [of g] by (cases "g = F") auto
  have ke: "kernel_end s' = kernel_end s" "boot_room s' = boot_room s" by (simp_all add: s'_def fun_eq_iff)
  have "boot_inv F s'"
    by (rule boot_invI) (use d f boot_inv_table [OF inv] boot_inv_inj [OF inv] same clr in \<open>simp_all add: ke\<close>, simp_all add: s'_def)
  moreover have "boot_pte F s' w = boot_pte F s w" if w: "\<not> self_map (PDX w)" for w
    using same(1) [OF w] same(2) [OF boot_inv_table(5) [OF inv w]] by (simp add: boot_pte_def)
  moreover have "boot_only s s'" unfolding s'_def by (rule boot_only_trans [OF boot_only_upd(3,3)])
  ultimately show ?thesis using run ke F nz same by (intro exI [of _ s']) (simp add: self_map_def)
qed

text \<open>Setting permission bits of an entry of the directory.\<close>

lemma PPN_or_perm: "b < 0x1000 \<Longrightarrow> PPN (e OR b) = PPN e"
proof (rule bit_eqI)
  fix n assume b: "b < 0x1000"
  show "bit (PPN (e OR b)) n = bit (PPN e) n" using bit_lt_4096 [OF b, of "12 + n"] by (auto simp: bit_PPN bit_simps)
qed

lemma boot_dir_bits:
  assumes inv: "boot_inv F s" and i: "\<not> self_map i" "phys s F i \<noteq> 0" and b: "b < 0x1000"
  defines "s' \<equiv> phys_store s F i (phys s F i OR b)"
  shows "boot_inv F s'" "kernel_end s' = kernel_end s" "boot_only s s'"
    "phys s' F j = 0 \<longleftrightarrow> phys s F j = 0"
    "\<not> self_map (PDX w) \<Longrightarrow> boot_pte F s' w = boot_pte F s w"
proof -
  note f = boot_inv_frame [OF inv]
  note d = boot_inv_dir [OF inv]
  have p: "PPN (phys s' F j) = PPN (phys s F j)" for j using PPN_or_perm [OF b] by (simp add: s'_def)
  have "phys s F i AND PERM_PRESENT = PERM_PRESENT" by (rule boot_inv_table(1) [OF inv i])
  then have pr: "(phys s F i OR b) AND PERM_PRESENT = PERM_PRESENT"
    by (metis bit.conj_disj_distrib2 inf.absorb_iff2 or.commute word_bw_comms(1) word_bw_same(1) word_ao_absorbs(6))
  show ke: "kernel_end s' = kernel_end s" by (simp add: s'_def)
  show "boot_only s s'" by (simp add: s'_def)
  show z: "phys s' F j = 0 \<longleftrightarrow> phys s F j = 0" for j using i(2) by (simp add: s'_def or_eq_0_iff)
  have other: "phys s' g = phys s g" if "g \<noteq> F" for g using that by (simp add: s'_def)
  have clr: "phys s' g = (\<lambda>_. 0)" if "kernel_end s \<le> unat g" for g
    using that f(2) boot_inv_clear [OF inv that] other [of g] by (cases "g = F") auto
  have tab: "phys s' F j AND PERM_PRESENT = PERM_PRESENT" if "\<not> self_map j" "phys s F j \<noteq> 0" for j
    using boot_inv_table(1) [OF inv that] pr by (simp add: s'_def)
  show "boot_inv F s'"
    by (rule boot_invI) (use d f boot_inv_table [OF inv] boot_inv_inj [OF inv] tab clr in \<open>simp_all add: ke p z\<close>, simp_all add: s'_def)
  show "boot_pte F s' w = boot_pte F s w" if w: "\<not> self_map (PDX w)"
    using other [OF boot_inv_table(5) [OF inv w]] by (simp add: boot_pte_def z p)
qed

text \<open>The arrays of frames, of disk frames and of environments.\<close>

lemma boot_arrays_made:
  fixes img :: boot_image
  assumes inv: "boot_inv F s" and room: "boot_room s (boot_pages (number_of_frames s * sizeof_Frame_Info)
      + boot_pages (of_nat PAGES_PER_FILE * sizeof_Frame_Info) + k)"
  defines "s' \<equiv> boot_arrays img s"
  shows "boot_inv F s'" "boot_room s' k" "phys s' = phys s" "number_of_frames s' = number_of_frames s"
    "kernel_end s \<le> kernel_end s'" "boot_pte F s' = boot_pte F s" "frames_info s' = (\<lambda>_. zero_frame_info)"
    "virtualAddresses s' = virtualAddresses s" "firstFreeVAInKHeap s' = firstFreeVAInKHeap s"
    "env_free_list s' = env_free_list s"
proof -
  let ?a = "number_of_frames s * sizeof_Frame_Info" and ?b = "of_nat PAGES_PER_FILE * sizeof_Frame_Info"
  obtain p where p: "boot_allocate_space img s ?a PAGE_SIZE = (static_va (of_nat (kernel_end s)), s\<lparr>ptr_free_mem := p\<rparr>)"
      "boot_inv F (s\<lparr>ptr_free_mem := p\<rparr>)" "kernel_end (s\<lparr>ptr_free_mem := p\<rparr>) = kernel_end s + boot_pages ?a"
    using boot_inv_alloc [OF inv, of ?a img PAGE_SIZE] boot_room_mono [OF room] by auto
  define s1 where "s1 = s\<lparr>ptr_free_mem := p, frames_info := (\<lambda>_. zero_frame_info)\<rparr>"
  have s1: "boot_inv F s1" "kernel_end s1 = kernel_end s + boot_pages ?a" using p(2,3) unfolding s1_def by simp_all
  have r1: "boot_room s1 (boot_pages ?b + k)" using room s1(2) by (simp add: boot_room_def s1_def)
  obtain q where q: "boot_allocate_space img s1 ?b PAGE_SIZE = (static_va (of_nat (kernel_end s1)), s1\<lparr>ptr_free_mem := q\<rparr>)"
      "boot_inv F (s1\<lparr>ptr_free_mem := q\<rparr>)" "kernel_end (s1\<lparr>ptr_free_mem := q\<rparr>) = kernel_end s1 + boot_pages ?b"
    using boot_inv_alloc [OF s1(1), of ?b img PAGE_SIZE] boot_room_mono [OF r1] by auto
  have s': "s' = s1\<lparr>ptr_free_mem := q\<rparr>"
    using p(1) q(1) by (simp add: s'_def boot_arrays_def Let_def s1_def)
  show "boot_inv F s'" using q(2) by (simp add: s')
  show "boot_room s' k" using q(3) r1 by (simp add: s' boot_room_def)
  show "kernel_end s \<le> kernel_end s'" using q(3) s1(2) by (simp add: s')
  show "phys s' = phys s" "number_of_frames s' = number_of_frames s" "boot_pte F s' = boot_pte F s"
    "frames_info s' = (\<lambda>_. zero_frame_info)" "virtualAddresses s' = virtualAddresses s" "firstFreeVAInKHeap s' = firstFreeVAInKHeap s"
    "env_free_list s' = env_free_list s"
    by (simp_all add: s' s1_def boot_pte_def fun_eq_iff)
qed

lemma boot_layout:
  "PDX VPT = 959" "PDX UVPT = 957" "PDX UENVS = 955" "PDX (KERNEL_STACK_TOP - KERNEL_STACK_SIZE) = 958"
  "PDX (KERNEL_STACK_TOP - 1) = 958" "PDX KERNEL_BASE = 960" "unat (PPN KERNEL_BASE) = 983040"
  "unat (PPN UENVS) = 977920" "unat (PPN (KERNEL_STACK_TOP - KERNEL_STACK_SIZE)) = 982008"
  "boot_pages (NENV * sizeof_Env) = 256" "NENV * sizeof_Env = 1048040"
  by (simp_all add: PDX_def PPN_def fos_consts boot_pages_def)

text \<open>The array of environments and its read-only mapping at UENVS.\<close>

lemma boot_envs_made:
  assumes inv: "boot_inv F s" and room: "boot_room s (256 + 1 + k)"
  shows "\<exists>s' pa. boot_envs img s = Inr s' \<and> boot_inv F s' \<and> boot_room s' k \<and> phys s' F 955 \<noteq> 0
    \<and> (\<forall>i. i \<noteq> 955 \<longrightarrow> phys s' F i = phys s F i) \<and> kernel_end s \<le> kernel_end s'
    \<and> number_of_frames s' = number_of_frames s \<and> frames_info s' = frames_info s
    \<and> virtualAddresses s' = virtualAddresses s \<and> firstFreeVAInKHeap s' = firstFreeVAInKHeap s
    \<and> env_free_list s' = env_free_list s
    \<and> (\<forall>w. \<not> self_map (PDX w) \<longrightarrow>
         boot_pte F s' w = range_entry 977920 256 pa PERM_USER (unat (PPN w)) (boot_pte F s w))"
proof -
  let ?n = "NENV * sizeof_Env"
  have "boot_room s (boot_pages ?n)" unfolding boot_layout(10) using boot_room_mono [OF room] by simp
  from boot_inv_alloc [OF inv this] obtain p where
    p: "boot_allocate_space img s ?n PAGE_SIZE = (static_va (of_nat (kernel_end s)), s\<lparr>ptr_free_mem := p\<rparr>)"
      "boot_inv F (s\<lparr>ptr_free_mem := p\<rparr>)" "kernel_end (s\<lparr>ptr_free_mem := p\<rparr>) = kernel_end s + 256"
    unfolding boot_layout(10) by blast
  define s1 where "s1 = s\<lparr>ptr_free_mem := p, envs := (\<lambda>_. zero_env)\<rparr>"
  define pa :: u32 where "pa = push_bit 12 (of_nat (kernel_end s))"
  have kb: "unat (of_nat (kernel_end s) :: u32) < 65536" using room by (simp add: boot_room_def unat_of_nat)
  have s1: "boot_inv F s1" "kernel_end s1 = kernel_end s + 256" using p(2,3) unfolding s1_def by simp_all
  have r1: "boot_room s1 (1 + k)" using room s1(2) by (simp add: boot_room_def s1_def)
  have ns: "\<not> self_map 955" by (simp add: self_map_def boot_layout)
  have one: "\<forall>k. unat (PPN UENVS) \<le> k \<and> k < unat (PPN UENVS) + 256 \<longrightarrow> k div 1024 = unat (PDX UENVS)"
    by (auto simp: boot_layout intro!: div_nat_eqI)
  obtain s2 where s2: "boot_map_loop 256 img (static_va F) UENVS pa PERM_USER s1 = Inr s2" "boot_inv F s2"
      "phys s2 F 955 \<noteq> 0" "\<forall>i. i \<noteq> 955 \<longrightarrow> phys s2 F i = phys s1 F i"
      "kernel_end s1 \<le> kernel_end s2" "kernel_end s2 \<le> kernel_end s1 + 1" "boot_only s1 s2"
      "\<forall>w. \<not> self_map (PDX w) \<longrightarrow>
         boot_pte F s2 w = range_entry 977920 256 pa PERM_USER (unat (PPN w)) (boot_pte F s1 w)"
    using boot_map_table [OF s1(1) _ _ one, of img pa PERM_USER] ns boot_room_mono [OF r1, of 1]
    unfolding boot_layout by auto
  define b where "b = PERM_USER OR (PERM_PRESENT AND NOT PERM_WRITEABLE)"
  have b: "b < 0x1000" by (simp add: b_def fos_consts)
  define s3 where "s3 = phys_store s2 F 955 (phys s2 F 955 OR b)"
  note s3 = boot_dir_bits [OF s2(2) ns s2(3) b, folded s3_def]
  have F: "unat F < 65536" by (rule boot_inv_frame(1) [OF inv])
  note d = boot_inv_dir(1) [OF s1(1)]
  have "boot_envs img s = Inr s3"
    using p(1) s2(1) static_physical [OF kb] boot_access [OF F] d
    by (simp add: boot_envs_def Let_def boot_layout boot_map_range_def s1_def pa_def [symmetric] s3_def b_def)
  moreover note t = boot_only_fields [OF boot_only_trans [OF s2(7) s3(3)]]
  moreover have "boot_room s3 k" using boot_room_later [OF r1, of s3 1 k] s2(6) s3(2) t(1) by simp
  moreover have "phys s3 F i = phys s F i" if "i \<noteq> 955" for i using s2(4) that by (simp add: s3_def s1_def)
  moreover have "boot_pte F s3 w = range_entry 977920 256 pa PERM_USER (unat (PPN w)) (boot_pte F s w)"
    if "\<not> self_map (PDX w)" for w using s3(5) s2(8) that by (simp add: s1_def)
  moreover have "kernel_end s \<le> kernel_end s3" "phys s3 F 955 \<noteq> 0" using s1(2) s2(3,5) s3(2,4) by simp_all
  ultimately show ?thesis using s3(1) by (intro exI [of _ s3] exI [of _ pa]) (simp add: s1_def)
qed

end
