(* ===== verification/FOS_BootInv.thy ===== *)
theory FOS_BootInv
  imports FOS_Boot
begin

text \<open>
  The address space that initialize_kernel_VM() leaves: its check of the finished directory succeeds,
  paging is turned on, and together with initialize_paging() the boot code establishes the invariants
  that the theories of the kernel heap, the frames and the environments assume.
\<close>

section \<open>The finished directory\<close>

text \<open>What the boot code leaves alone.\<close>

definition boot_keeps :: "kstate \<Rightarrow> kstate \<Rightarrow> bool" where
  "boot_keeps s s' \<longleftrightarrow> number_of_frames s' = number_of_frames s \<and> virtualAddresses s' = virtualAddresses s
     \<and> firstFreeVAInKHeap s' = firstFreeVAInKHeap s \<and> env_free_list s' = env_free_list s"

lemma boot_keeps_trans: "boot_keeps s s1 \<Longrightarrow> boot_keeps s1 s2 \<Longrightarrow> boot_keeps s s2"
  by (simp add: boot_keeps_def)

lemma boot_only_keeps: "boot_only s s' \<Longrightarrow> boot_keeps s s'"
  using boot_only_fields [of s s'] by (simp add: boot_keeps_def)

lemma stack_pages: "\<forall>k. 982008 \<le> k \<and> k < 982008 + 8 \<longrightarrow> k div 1024 = (958 :: nat)"
  by (auto intro!: div_nat_eqI)

text \<open>The directory, the stack and the tables of the kernel.\<close>

lemma boot_tables_built:
  assumes ready: "boot_ready img s"
  defines "stack \<equiv> ptr_stack_bottom img - KERNEL_BASE"
  shows "\<exists>F s1 s2 s3. create_boot_directory img s = Inr s1
    \<and> boot_map_range img s1 (static_va F) (KERNEL_STACK_TOP - KERNEL_STACK_SIZE) KERNEL_STACK_SIZE stack PERM_WRITEABLE = Inr s2
    \<and> boot_tables 64 img (static_va F) KERNEL_BASE s2 = Inr s3 \<and> boot_inv F s1 \<and> boot_inv F s2 \<and> boot_inv F s3
    \<and> boot_keeps s s3 \<and> frames_info s3 = frames_info s \<and> kernel_end (s\<lparr>ptr_free_mem := end_of_kernel img\<rparr>) \<le> unat F
    \<and> boot_room s3 (boot_pages (number_of_frames s * sizeof_Frame_Info)
         + boot_pages (of_nat PAGES_PER_FILE * sizeof_Frame_Info) + (256 + 1))
    \<and> (\<forall>i. phys s3 F i \<noteq> 0 \<longleftrightarrow> i = 958 \<or> 960 \<le> unat i \<and> unat i < 1024)
    \<and> (\<forall>w. \<not> self_map (PDX w) \<longrightarrow> boot_pte F s3 w = range_entry 982008 8 stack PERM_WRITEABLE (unat (PPN w)) 0)"
proof -
  let ?k = "boot_pages (number_of_frames s * sizeof_Frame_Info) + boot_pages (of_nat PAGES_PER_FILE * sizeof_Frame_Info) + 256"
    and ?s0 = "s\<lparr>ptr_free_mem := end_of_kernel img\<rparr>" and ?sva = "KERNEL_STACK_TOP - KERNEL_STACK_SIZE"
  obtain F s1 where s1: "create_boot_directory img s = Inr s1" "boot_inv F s1" "phys s1 F = (\<lambda>_. 0)"
      "kernel_end s1 = kernel_end ?s0 + 1" "unat F = kernel_end ?s0" "boot_keeps s s1" "frames_info s1 = frames_info s"
    using create_directory [OF ready] unfolding boot_keeps_def by blast
  have "boot_room ?s0 (67 + ?k)" using ready by (simp add: boot_ready_def boot_layout(10))
  then have r1: "boot_room s1 (66 + ?k)" using s1(4,6) by (simp add: boot_room_def boot_keeps_def)
  have ns: "\<not> self_map (PDX ?sva)" by (simp add: self_map_def boot_layout)
  have one: "\<forall>k. unat (PPN ?sva) \<le> k \<and> k < unat (PPN ?sva) + 8 \<longrightarrow> k div 1024 = unat (PDX ?sva)"
    using stack_pages by (simp add: boot_layout)
  from boot_map_table [OF s1(2) _ _ one ns, of img stack PERM_WRITEABLE] boot_room_mono [OF r1, of 1]
  obtain s2 where s2: "boot_map_loop 8 img (static_va F) ?sva stack PERM_WRITEABLE s1 = Inr s2" "boot_inv F s2"
      "phys s2 F 958 \<noteq> 0" "\<forall>i. i \<noteq> 958 \<longrightarrow> phys s2 F i = phys s1 F i"
      "kernel_end s2 \<le> kernel_end s1 + 1" "boot_only s1 s2"
      "\<forall>w. \<not> self_map (PDX w) \<longrightarrow> boot_pte F s2 w = range_entry 982008 8 stack PERM_WRITEABLE (unat (PPN w)) (boot_pte F s1 w)"
    by (auto simp: boot_layout)
  have r2: "boot_room s2 (64 + (?k + 1))"
    using boot_room_later [OF r1, of s2 1 "64 + (?k + 1)"] s2(5) boot_only_fields(1) [OF s2(6)] by simp
  have k64: "\<forall>k. unat (PDX KERNEL_BASE) \<le> k \<and> k < unat (PDX KERNEL_BASE) + 64 \<longrightarrow> \<not> self_map (of_nat k)"
    by (auto simp: boot_layout self_map_def word_unat_eq_iff unat_of_nat)
  from boot_tables_made [OF s2(2) boot_room_mono [OF r2, of 64] _ k64, of img]
  obtain s3 where s3: "boot_tables 64 img (static_va F) KERNEL_BASE s2 = Inr s3" "boot_inv F s3" "boot_only s2 s3"
      "kernel_end s3 \<le> kernel_end s2 + 64"
      "\<forall>i. if 960 \<le> unat i \<and> unat i < 1024 then phys s3 F i \<noteq> 0 else phys s3 F i = phys s2 F i"
      "\<forall>w. \<not> self_map (PDX w) \<longrightarrow> boot_pte F s3 w = boot_pte F s2 w"
    by (auto simp: boot_layout)
  have keeps: "boot_keeps s s3" "frames_info s3 = frames_info s"
    using boot_keeps_trans [OF s1(6) boot_only_keeps [OF boot_only_trans [OF s2(6) s3(3)]]]
      boot_only_fields(6) [OF boot_only_trans [OF s2(6) s3(3)]] s1(7) by simp_all
  have r3: "boot_room s3 (?k + 1)"
    using boot_room_later [OF r2, of s3 64 "?k + 1"] s3(4) boot_only_fields(1) [OF s3(3)] by simp
  have "phys s3 F i \<noteq> 0 \<longleftrightarrow> i = 958 \<or> 960 \<le> unat i \<and> unat i < 1024" for i
    using s3(5) [rule_format, of i] s2(3,4) s1(3) by (cases "i = 958") (auto split: if_splits)
  moreover have "boot_pte F s1 w = 0" for w using s1(3) by (simp add: boot_pte_def)
  moreover have "boot_map_range img s1 (static_va F) ?sva KERNEL_STACK_SIZE stack PERM_WRITEABLE = Inr s2"
    using s2(1) by (simp add: boot_map_range_def KERNEL_STACK_SIZE_def PAGE_SIZE_def)
  ultimately show ?thesis
    using s1 s2 s3 keeps r3
    by - (rule exI [of _ F], rule exI [of _ s1], rule exI [of _ s2], rule exI [of _ s3], simp add: ac_simps)
qed

definition boot_directory :: "u32 \<Rightarrow> boot_image \<Rightarrow> u32 \<Rightarrow> kstate \<Rightarrow> bool" where
  "boot_directory F img pa s \<longleftrightarrow> boot_inv F s
     \<and> (\<forall>i. phys s F i \<noteq> 0 \<longleftrightarrow> i = 955 \<or> i = 957 \<or> i = 958 \<or> i = 959 \<or> 960 \<le> unat i \<and> unat i < 1024)
     \<and> (\<forall>w. \<not> self_map (PDX w) \<longrightarrow> boot_pte F s w =
          range_entry 983040 (kernel_end s) 0 PERM_WRITEABLE (unat (PPN w))
          (range_entry 977920 256 pa PERM_USER (unat (PPN w))
          (range_entry 982008 8 (ptr_stack_bottom img - KERNEL_BASE) PERM_WRITEABLE (unat (PPN w)) 0)))"

lemma boot_map_image:
  assumes inv: "boot_inv F s" and t: "\<forall>i. 960 \<le> unat i \<and> unat i < 1024 \<longrightarrow> phys s F i \<noteq> 0"
  shows "\<exists>s'. boot_map_range img s (static_va F) KERNEL_BASE (ptr_free_mem s - KERNEL_BASE) 0 PERM_WRITEABLE = Inr s'
    \<and> boot_inv F s' \<and> phys s' F = phys s F \<and> kernel_end s' = kernel_end s \<and> boot_only s s'
    \<and> (\<forall>w. \<not> self_map (PDX w) \<longrightarrow>
         boot_pte F s' w = range_entry 983040 (kernel_end s) 0 PERM_WRITEABLE (unat (PPN w)) (boot_pte F s w))"
proof -
  note f = boot_inv_frame [OF inv]
  have ke: "kernel_end s \<le> 24576" using f(4) by (simp add: boot_room_def)
  have "unat (ptr_free_mem s - KERNEL_BASE) = unat (ptr_free_mem s) - unat KERNEL_BASE"
    using f(3) by (simp add: unat_sub)
  then have n: "(unat (ptr_free_mem s - KERNEL_BASE) + 4095) div 4096 = kernel_end s" by (simp add: kernel_end_def)
  then have "(unat (ptr_free_mem s - KERNEL_BASE) + 4095) div 4096 < 24577" using ke by simp
  then have "unat (ptr_free_mem s - KERNEL_BASE) + 4095 < 24577 * 4096" by (subst (asm) div_less_iff_less_mult) simp_all
  then have le: "\<not> ptr_free_mem s - KERNEL_BASE > 0xFFFFF000" by (simp add: word_less_nat_alt)
  have "\<not> self_map (of_nat (k div 1024)) \<and> phys s F (of_nat (k div 1024)) \<noteq> 0" if "983040 \<le> k" "k < 983040 + kernel_end s" for k
  proof -
    have "960 \<le> k div 1024" "k div 1024 < 1024"
      using that ke div_le_mono [OF that(1), of 1024] by (simp_all add: div_less_iff_less_mult)
    then have "unat (of_nat (k div 1024) :: u32) = k div 1024" "960 \<le> k div 1024" "k div 1024 < 1024"
      by (simp_all add: unat_of_nat)
    then show ?thesis using t [rule_format, of "of_nat (k div 1024)"]
      by (auto simp: self_map_def boot_layout word_unat_eq_iff)
  qed
  then have "\<forall>k. unat (PPN KERNEL_BASE) \<le> k \<and> k < unat (PPN KERNEL_BASE) + kernel_end s \<longrightarrow>
      \<not> self_map (of_nat (k div 1024)) \<and> phys s F (of_nat (k div 1024)) \<noteq> 0" by (simp add: boot_layout)
  moreover have "unat (PPN KERNEL_BASE) + kernel_end s < 1048576" using ke by (simp add: boot_layout)
  ultimately show ?thesis
    using boot_map_present [OF inv, of KERNEL_BASE "kernel_end s" img 0 PERM_WRITEABLE] le
    unfolding boot_map_range_def n by (simp add: boot_layout) blast
qed

lemma boot_built:
  assumes ready: "boot_ready img s"
  shows "\<exists>F pa s'. initialize_kernel_VM img s = rbind (check_boot_pgdir img s') (\<lambda>_. turn_on_paging s')
    \<and> boot_directory F img pa s' \<and> boot_keeps s s' \<and> frames_info s' = (\<lambda>_. zero_frame_info)
    \<and> kernel_end (s\<lparr>ptr_free_mem := end_of_kernel img\<rparr>) \<le> unat F"
proof -
  let ?k = "boot_pages (number_of_frames s * sizeof_Frame_Info) + boot_pages (of_nat PAGES_PER_FILE * sizeof_Frame_Info)"
    and ?st = "ptr_stack_bottom img - KERNEL_BASE"
  obtain F s1 s2 s3 where b: "create_boot_directory img s = Inr s1"
      "boot_map_range img s1 (static_va F) (KERNEL_STACK_TOP - KERNEL_STACK_SIZE) KERNEL_STACK_SIZE ?st PERM_WRITEABLE = Inr s2"
      "boot_tables 64 img (static_va F) KERNEL_BASE s2 = Inr s3" "boot_inv F s1" "boot_inv F s2" "boot_inv F s3"
      "boot_keeps s s3" "kernel_end (s\<lparr>ptr_free_mem := end_of_kernel img\<rparr>) \<le> unat F" "boot_room s3 (?k + (256 + 1))"
      "\<forall>i. phys s3 F i \<noteq> 0 \<longleftrightarrow> i = 958 \<or> 960 \<le> unat i \<and> unat i < 1024"
      "\<forall>w. \<not> self_map (PDX w) \<longrightarrow> boot_pte F s3 w = range_entry 982008 8 ?st PERM_WRITEABLE (unat (PPN w)) 0"
    using boot_tables_built [OF ready] by blast
  have nf: "number_of_frames s3 = number_of_frames s" using b(7) by (simp add: boot_keeps_def)
  define s4 where "s4 = boot_arrays img s3"
  note s4 = boot_arrays_made [OF b(6), of "256 + 1" img, unfolded nf, OF b(9), folded s4_def]
  obtain s5 where s5: "setup_listing_to_all_page_tables_entries s4 = Inr s5" "boot_inv F s5" "boot_only s4 s5"
      "kernel_end s5 = kernel_end s4" "\<forall>i. self_map i \<longrightarrow> phys s5 F i \<noteq> 0" "\<forall>i. \<not> self_map i \<longrightarrow> phys s5 F i = phys s4 F i"
      "\<forall>w. \<not> self_map (PDX w) \<longrightarrow> boot_pte F s5 w = boot_pte F s4 w"
    using boot_listing [OF s4(1)] by blast
  have "boot_room s5 (256 + 1 + 0)" using s4(2) s5(4) boot_only_fields(1) [OF s5(3)] by (simp add: boot_room_def)
  from boot_envs_made [OF s5(2) this] obtain s6 pa where s6: "boot_envs img s5 = Inr s6" "boot_inv F s6" "phys s6 F 955 \<noteq> 0"
      "\<forall>i. i \<noteq> 955 \<longrightarrow> phys s6 F i = phys s5 F i" "frames_info s6 = frames_info s5" "boot_keeps s5 s6"
      "\<forall>w. \<not> self_map (PDX w) \<longrightarrow> boot_pte F s6 w = range_entry 977920 256 pa PERM_USER (unat (PPN w)) (boot_pte F s5 w)"
    unfolding boot_keeps_def by blast
  have self: "self_map i \<longleftrightarrow> i = 959 \<or> i = 957" for i by (simp add: self_map_def boot_layout)
  have ent: "phys s6 F i \<noteq> 0 \<longleftrightarrow> i = 955 \<or> i = 957 \<or> i = 958 \<or> i = 959 \<or> 960 \<le> unat i \<and> unat i < 1024" for i
    using s6(3,4) s5(5,6) s4(3) b(10) by (cases "i = 955"; cases "self_map i") (auto simp: self)
  then obtain s7 where s7: "boot_map_range img s6 (static_va F) KERNEL_BASE (ptr_free_mem s6 - KERNEL_BASE) 0 PERM_WRITEABLE = Inr s7"
      "boot_inv F s7" "phys s7 F = phys s6 F" "kernel_end s7 = kernel_end s6" "boot_only s6 s7"
      "\<forall>w. \<not> self_map (PDX w) \<longrightarrow>
         boot_pte F s7 w = range_entry 983040 (kernel_end s6) 0 PERM_WRITEABLE (unat (PPN w)) (boot_pte F s6 w)"
    using boot_map_image [OF s6(2)] by blast
  note d = boot_inv_dir(1) [OF b(4)] boot_inv_dir(1) [OF b(5)] boot_inv_dir(1) [OF s6(2)]
  have "boot_directory F img pa s7"
    unfolding boot_directory_def using s7 ent s6(7) s5(7) s4(6) b(11) by simp
  moreover have "boot_keeps s s4" using s4(4,8,9,10) b(7) by (simp add: boot_keeps_def)
  then have "boot_keeps s s7"
    by (rule boot_keeps_trans [OF boot_keeps_trans [OF boot_keeps_trans [OF _ boot_only_keeps [OF s5(3)]] s6(6)] boot_only_keeps [OF s7(5)]])
  moreover have "frames_info s7 = (\<lambda>_. zero_frame_info)"
    using boot_only_fields(6) [OF s7(5)] boot_only_fields(6) [OF s5(3)] s6(5) s4(7) by simp
  moreover have "initialize_kernel_VM img s = rbind (check_boot_pgdir img s7) (\<lambda>_. turn_on_paging s7)"
    by (simp only: initialize_kernel_VM_def Let_def rbind_Inr b(1-3) s5(1) s6(1) s7(1) d boot_ready_stack(2) [OF ready]
        s4_def [symmetric])
  ultimately show ?thesis using b(8) by blast
qed

section \<open>The check succeeds\<close>

lemma boot_directoryD:
  assumes "boot_directory F img pa s"
  shows "boot_inv F s"
    "phys s F i \<noteq> 0 \<longleftrightarrow> i = 955 \<or> i = 957 \<or> i = 958 \<or> i = 959 \<or> 960 \<le> unat i \<and> unat i < 1024"
    "\<not> self_map (PDX w) \<Longrightarrow> boot_pte F s w =
          range_entry 983040 (kernel_end s) 0 PERM_WRITEABLE (unat (PPN w))
          (range_entry 977920 256 pa PERM_USER (unat (PPN w))
          (range_entry 982008 8 (ptr_stack_bottom img - KERNEL_BASE) PERM_WRITEABLE (unat (PPN w)) 0))"
  using assms unfolding boot_directory_def by blast+

lemma aligned_push:
  assumes "PGOFF a = 0" shows "a = push_bit 12 (PPN a)"
proof (rule bit_eqI)
  fix n assume "possible_bit TYPE(u32) n"
  moreover have "\<not> bit (PGOFF a) n" using assms by simp
  then have "n < 12 \<Longrightarrow> \<not> bit a n" by (simp add: bit_PGOFF)
  ultimately show "bit a n = bit (push_bit 12 (PPN a)) n" by (cases "n < 12") (auto simp: bit_simps bit_PPN)
qed

lemma PGOFF_sum:
  assumes "PGOFF a = 0" and "PGOFF b = 0" shows "PGOFF (a + b) = 0" and "PGOFF (a - b) = 0"
proof -
  have t: "PGOFF x = 0 \<longleftrightarrow> (4096 :: int) dvd uint x" for x
  proof -
    have "PGOFF x = 0 \<longleftrightarrow> 4096 dvd unat x" using unat_PGOFF [of x] by (auto simp: word_unat_eq_iff)
    also have "\<dots> \<longleftrightarrow> int 4096 dvd int (unat x)" by (simp only: int_dvd_int_iff)
    finally show ?thesis by simp
  qed
  have m: "(4096 :: int) dvd x mod 4294967296 \<longleftrightarrow> 4096 dvd x" for x :: int by (rule dvd_mod_iff) simp
  show "PGOFF (a + b) = 0" using assms by (simp add: t uint_word_ariths m)
  show "PGOFF (a - b) = 0" using assms by (simp add: t uint_word_ariths m)
qed

lemma check_va2pa_entry:
  assumes inv: "boot_inv F s" and va: "\<not> self_map (PDX va)" "phys s F (PDX va) \<noteq> 0"
    and e: "boot_pte F s va = CONSTRUCT_ENTRY pa (perm OR PERM_PRESENT)" "PGOFF pa = 0" "perm < 0x1000"
  shows "check_va2pa s (static_va F) va = Inr pa"
proof -
  let ?e = "phys s F (PDX va)"
  note t = boot_inv_table [OF inv va] and f = boot_inv_frame [OF inv]
  have nf: "\<not> number_of_frames s \<le> PPN ?e" using t(3) f(4) by (simp add: word_le_nat_alt boot_room_def)
  have p: "pa = push_bit 12 (PPN pa)" by (rule aligned_push [OF e(2)])
  then have c: "EXTRACT_ADDRESS (boot_pte F s va) = pa" "boot_pte F s va AND PERM_PRESENT \<noteq> 0"
    using EXTRACT_CONSTRUCT [OF perm_or_bound [OF e(3)], of "PPN pa"] present_CONSTRUCT [of "PPN pa" perm] e(1)
    by (metis, metis present_eq_0)
  have "push_bit 12 (PPN ?e) + KERNEL_BASE = static_va (PPN ?e)" by (simp add: static_va_def)
  moreover have "PERM_PRESENT \<noteq> 0" by (simp add: PERM_PRESENT_def)
  ultimately show ?thesis
    using c va(2) t(1) nf boot_access(1) [OF f(1)] boot_access(1) [OF t(4)]
    by (simp add: check_va2pa_def Let_def EXTRACT_eq_push STATIC_KERNEL_VIRTUAL_ADDRESS_def static_PPN [OF t(4)] boot_pte_def)
qed

lemma page_multiple: "of_nat k * PAGE_SIZE = push_bit 12 (of_nat k :: u32)"
  by (simp add: PAGE_SIZE_def push_bit_eq_mult)

lemma image_address:
  assumes "k < 65536"
  shows "KERNEL_BASE + of_nat k * PAGE_SIZE = static_va (of_nat k)" "unat (PPN (static_va (of_nat k))) = 983040 + k"
    "unat (static_va (of_nat k)) = k * 4096 + 4026531840" "PGOFF (of_nat k * PAGE_SIZE) = 0"
    "unat (PDX (static_va (of_nat k))) = 960 + k div 1024"
proof -
  have k: "unat (of_nat k :: u32) = k" using assms by (simp add: unat_of_nat)
  show "KERNEL_BASE + of_nat k * PAGE_SIZE = static_va (of_nat k)" by (simp add: static_va_def page_multiple)
  show u: "unat (static_va (of_nat k)) = k * 4096 + 4026531840" using unat_static_va [of "of_nat k"] k assms by simp
  show "unat (PPN (static_va (of_nat k))) = 983040 + k" by (simp add: unat_PPN u)
  show "unat (PDX (static_va (of_nat k))) = 960 + k div 1024" by (simp add: unat_PDX u div_add_self1) 
  show "PGOFF (of_nat k * PAGE_SIZE) = 0" unfolding page_multiple
    by (rule bit_eqI) (auto simp: bit_PGOFF bit_simps)
qed

lemma not_self_kernel: "960 \<le> unat i \<Longrightarrow> \<not> self_map i"
  by (auto simp: self_map_def boot_layout)

text \<open>The image of the kernel is mapped page by page.\<close>

lemma boot_image_entry:
  assumes dir: "boot_directory F img pa s" and k: "k < kernel_end s"
  shows "boot_pte F s (static_va (of_nat k)) = CONSTRUCT_ENTRY (of_nat k * PAGE_SIZE) (PERM_WRITEABLE OR PERM_PRESENT)"
    "\<not> self_map (PDX (static_va (of_nat k)))" "phys s F (PDX (static_va (of_nat k))) \<noteq> 0" "k < 24576"
proof -
  have "kernel_end s \<le> 24576" using boot_inv_frame(4) [OF boot_directoryD(1) [OF dir]] by (simp add: boot_room_def)
  then show k': "k < 24576" using k by simp
  then have "k < 65536" by simp
  note a = image_address [OF this]
  have "k div 1024 < 64" using k' by (simp add: div_less_iff_less_mult)
  then show ns: "\<not> self_map (PDX (static_va (of_nat k)))" and "phys s F (PDX (static_va (of_nat k))) \<noteq> 0"
    using not_self_kernel [of "PDX (static_va (of_nat k))"] boot_directoryD(2) [OF dir] a(5) by auto
  show "boot_pte F s (static_va (of_nat k)) = CONSTRUCT_ENTRY (of_nat k * PAGE_SIZE) (PERM_WRITEABLE OR PERM_PRESENT)"
    using boot_directoryD(3) [OF dir ns] a(2) k by (simp add: range_entry_def)
qed

lemma image_end:
  assumes "boot_inv F s" shows "\<not> KERNEL_BASE + of_nat (kernel_end s) * PAGE_SIZE < ptr_free_mem s"
proof -
  have "kernel_end s \<le> 24576" using boot_inv_frame(4) [OF assms] by (simp add: boot_room_def)
  then have "kernel_end s < 65536" by simp
  note a = image_address [OF this]
  have "unat (ptr_free_mem s) \<le> kernel_end s * 4096 + 4026531840"
    using dividend_less_div_times [of 4096 "unat (ptr_free_mem s) - unat KERNEL_BASE + 4095"]
    by (simp add: kernel_end_def KERNEL_BASE_def)
  then show ?thesis unfolding a(1) using a(3) by (simp add: word_less_nat_alt)
qed

lemma check_image_ok:
  assumes dir: "boot_directory F img pa s"
  shows "k \<le> kernel_end s \<Longrightarrow> kernel_end s \<le> k + n \<Longrightarrow> check_image n (of_nat k * PAGE_SIZE) s = Inr ()"
proof (induction n arbitrary: k)
  case 0
  then show ?case using image_end [OF boot_directoryD(1) [OF dir]] by simp
next
  case (Suc n)
  show ?case
  proof (cases "k < kernel_end s")
    case True
    note e = boot_image_entry [OF dir True]
    have "k < 65536" using e(4) by simp
    note a = image_address [OF this]
    have "check_va2pa s (static_va F) (static_va (of_nat k)) = Inr (of_nat k * PAGE_SIZE)"
      by (rule check_va2pa_entry [OF boot_directoryD(1) [OF dir] e(2,3,1) a(4)]) (simp add: PERM_WRITEABLE_def)
    then have "assert_va2pa s (KERNEL_BASE + of_nat k * PAGE_SIZE) (of_nat k * PAGE_SIZE) = Inr ()"
      using boot_inv_dir(1) [OF boot_directoryD(1) [OF dir]] by (simp add: assert_va2pa_def a(1))
    moreover have "of_nat k * PAGE_SIZE + PAGE_SIZE = of_nat (Suc k) * PAGE_SIZE" by (simp add: algebra_simps)
    ultimately show ?thesis using Suc.IH [of "Suc k"] Suc.prems True by simp
  next
    case False
    then show ?thesis using Suc.prems image_end [OF boot_directoryD(1) [OF dir]] by simp
  qed
qed

text \<open>So is the kernel stack.\<close>

lemma boot_stack_entry:
  assumes dir: "boot_directory F img pa s" and j: "j < 8" and al: "PGOFF (ptr_stack_bottom img) = 0"
  defines "va \<equiv> KERNEL_STACK_TOP - KERNEL_STACK_SIZE + of_nat j * PAGE_SIZE"
    and "to \<equiv> ptr_stack_bottom img - KERNEL_BASE + of_nat j * PAGE_SIZE"
  shows "boot_pte F s va = CONSTRUCT_ENTRY to (PERM_WRITEABLE OR PERM_PRESENT)"
    "\<not> self_map (PDX va)" "phys s F (PDX va) \<noteq> 0" "PGOFF to = 0"
proof -
  have "unat (KERNEL_STACK_TOP - KERNEL_STACK_SIZE) = 4022304768" by (simp add: fos_consts)
  moreover have "unat (of_nat j * PAGE_SIZE :: u32) = j * 4096"
    using j by (simp add: PAGE_SIZE_def unat_word_ariths unat_of_nat)
  ultimately have u: "unat va = 4022304768 + j * 4096"
    using j unfolding va_def by (subst unat_add_u32) simp_all
  have d: "PDX va = 958" using j by (simp add: word_unat_eq_iff unat_PDX u)
  then show ns: "\<not> self_map (PDX va)" and "phys s F (PDX va) \<noteq> 0"
    using boot_directoryD(2) [OF dir, of 958] by (simp_all add: self_map_def boot_layout)
  have "unat (PPN va) = 982008 + j" using j by (simp add: unat_PPN u)
  then show "boot_pte F s va = CONSTRUCT_ENTRY to (PERM_WRITEABLE OR PERM_PRESENT)"
    using boot_directoryD(3) [OF dir ns] j by (simp add: range_entry_def to_def)
  have "PGOFF KERNEL_BASE = 0" "PGOFF (of_nat j * PAGE_SIZE) = 0"
    using image_address(4) [of j] j by (simp_all add: PGOFF_def KERNEL_BASE_def)
  then show "PGOFF to = 0" unfolding to_def by (intro PGOFF_sum al)
qed

lemma check_stack_ok:
  assumes dir: "boot_directory F img pa s" and al: "PGOFF (ptr_stack_bottom img) = 0"
  shows "j + n = 8 \<Longrightarrow> check_stack n (of_nat j * PAGE_SIZE) (ptr_stack_bottom img - KERNEL_BASE) s = Inr ()"
proof (induction n arbitrary: j)
  case (Suc n)
  then have "j < 8" by simp
  note e = boot_stack_entry [OF dir this al]
  have "check_va2pa s (static_va F) (KERNEL_STACK_TOP - KERNEL_STACK_SIZE + of_nat j * PAGE_SIZE)
      = Inr (ptr_stack_bottom img - KERNEL_BASE + of_nat j * PAGE_SIZE)"
    by (rule check_va2pa_entry [OF boot_directoryD(1) [OF dir] e(2,3,1,4)]) (simp add: PERM_WRITEABLE_def)
  then have "assert_va2pa s (KERNEL_STACK_TOP - KERNEL_STACK_SIZE + of_nat j * PAGE_SIZE)
      (ptr_stack_bottom img - KERNEL_BASE + of_nat j * PAGE_SIZE) = Inr ()"
    using boot_inv_dir(1) [OF boot_directoryD(1) [OF dir]] by (simp add: assert_va2pa_def)
  moreover have "of_nat j * PAGE_SIZE + PAGE_SIZE = of_nat (Suc j) * PAGE_SIZE" by (simp add: algebra_simps)
  ultimately show ?case using Suc.IH [of "Suc j"] Suc.prems by simp
qed simp

text \<open>The entries of the directory are set exactly where the check wants them.\<close>

lemma check_entries_ok:
  assumes dir: "boot_directory F img pa s"
  shows "i + n = 1024 \<Longrightarrow> check_entries n (of_nat i) s = Inr ()"
proof (induction n arbitrary: i)
  case (Suc n)
  note inv = boot_directoryD(1) [OF dir]
  have i: "unat (of_nat i :: u32) = i" using Suc.prems by (simp add: unat_of_nat)
  have "boot_load s (ptr_page_directory s) (of_nat i) \<noteq> 0 \<longleftrightarrow> boot_entry (of_nat i)"
    using boot_access(1) [OF boot_inv_frame(1) [OF inv]] boot_inv_dir(1) [OF inv] boot_directoryD(2) [OF dir, of "of_nat i"] i Suc.prems
    by (auto simp: boot_entry_def boot_layout word_le_nat_alt)
  then show ?case using Suc.IH [of "Suc i"] Suc.prems by (simp add: add.commute)
qed simp

lemma check_boot_pgdir_ok:
  assumes dir: "boot_directory F img pa s" and ready: "boot_ready img s0"
  shows "check_boot_pgdir img s = Inr ()"
proof -
  have "kernel_end s \<le> 24576"
    using boot_inv_frame(4) [OF boot_directoryD(1) [OF dir]] by (simp add: boot_room_def)
  then have "check_image 65536 0 s = Inr ()" using check_image_ok [OF dir, of 0 65536] by simp
  moreover have "check_stack 8 0 (ptr_stack_bottom img - KERNEL_BASE) s = Inr ()"
    using check_stack_ok [OF dir boot_ready_stack(1) [OF ready], of 0 8] by simp
  moreover have "unat (KERNEL_STACK_SIZE div PAGE_SIZE) = 8" by (simp add: fos_consts)
  moreover have "check_entries 1024 0 s = Inr ()" using check_entries_ok [OF dir, of 0 1024] by simp
  ultimately show ?thesis
    by (simp only: check_boot_pgdir_def boot_ready_stack(2) [OF ready] rbind_Inr NPDENTRIES_def)
qed

section \<open>Paging is on\<close>

lemma boot_kframe:
  assumes inv: "boot_inv F s" and va: "\<not> self_map (PDX va)"
  shows "kframe s va = (if boot_pte F s va AND PERM_PRESENT = 0 then None else Some (PPN (boot_pte F s va)))"
proof -
  have "PERM_PRESENT \<noteq> 0" by (simp add: PERM_PRESENT_def)
  then show ?thesis
    using boot_inv_table(1) [OF inv va] static_PPN [OF boot_inv_frame(1) [OF inv]] boot_inv_dir(2) [OF inv]
    by (auto simp: kframe_def mmu_walk_def boot_pte_def Let_def)
qed

text \<open>Only the first \<open>n\<close> entries of the directory differ.\<close>

definition low_changed :: "u32 \<Rightarrow> nat \<Rightarrow> kstate \<Rightarrow> kstate \<Rightarrow> bool" where
  "low_changed F n s s' \<longleftrightarrow> (\<exists>pg. s' = s\<lparr>phys := (phys s)(F := pg)\<rparr> \<and> (\<forall>x. n \<le> unat x \<longrightarrow> pg x = phys s F x))"

lemma low_changed_store:
  assumes "low_changed F n s s'" and "unat j < n" shows "low_changed F n s (phys_store s' F j v)"
proof -
  obtain pg where pg: "s' = s\<lparr>phys := (phys s)(F := pg)\<rparr>" "\<forall>x. n \<le> unat x \<longrightarrow> pg x = phys s F x"
    using assms(1) unfolding low_changed_def by blast
  have "phys_store s' F j v = s\<lparr>phys := (phys s)(F := pg(j := v))\<rparr>" by (simp add: pg(1) phys_store_def)
  moreover have "\<forall>x. n \<le> unat x \<longrightarrow> (pg(j := v)) x = phys s F x" using pg(2) assms(2) by auto
  ultimately show ?thesis unfolding low_changed_def by blast
qed

lemma low_changed_fields:
  assumes "low_changed F n s s'"
  shows "ptr_page_directory s' = ptr_page_directory s" "phys_page_directory s' = phys_page_directory s"
    "n \<le> unat x \<Longrightarrow> phys s' F x = phys s F x" "g \<noteq> F \<Longrightarrow> phys s' g = phys s g"
  using assms by (auto simp: low_changed_def)

lemma copy_entries_low:
  assumes F: "unat F < 65536" "ptr_page_directory s = static_va F" and n: "n < 1024"
  shows "low_changed F n s s' \<Longrightarrow> j + m \<le> n \<Longrightarrow> low_changed F n s (copy_entries m i (of_nat j) s')"
proof (induction m arbitrary: i j s')
  case (Suc m)
  let ?s = "phys_store s' F (of_nat j) (boot_load s' (static_va F) i)"
  have "unat (of_nat j :: u32) = j" using Suc.prems(2) n by (simp add: unat_of_nat)
  then have "low_changed F n s ?s" using low_changed_store [OF Suc.prems(1)] Suc.prems(2) by simp
  then show ?case
    using Suc.IH [of ?s "Suc j" "i + 1"] Suc.prems(2) low_changed_fields(1) [OF Suc.prems(1)] F boot_access(2) [OF F(1)]
    by (simp add: add.commute)
qed simp

lemma clear_entries_low:
  assumes F: "ptr_page_directory s = static_va F" and n: "n < 960"
    and walk: "kframe s (static_va F) = Some F" "960 \<le> unat (PDX (static_va F))" "PPN (phys s F (PDX (static_va F))) \<noteq> F"
    and dir: "PPN (phys_page_directory s) = F"
  shows "low_changed F n s s' \<Longrightarrow> j + m = n \<Longrightarrow> \<forall>x. unat x < j \<longrightarrow> phys s' F x = 0 \<Longrightarrow>
    \<exists>s''. clear_entries m (of_nat j) s' = Inr s'' \<and> low_changed F n s s'' \<and> (\<forall>x. unat x < n \<longrightarrow> phys s'' F x = 0)"
proof (induction m arbitrary: j s')
  case (Suc m)
  let ?s = "phys_store s' F (of_nat j) 0"
  note lc = low_changed_fields [OF Suc.prems(1)]
  have uj: "unat (of_nat j :: u32) = j" using Suc.prems(2) n by (simp add: unat_of_nat)
  then have 1: "low_changed F n s ?s" using low_changed_store [OF Suc.prems(1)] Suc.prems(2) by simp
  have "kframe s' (static_va F) = kframe s (static_va F)"
    unfolding kframe_def lc(2) dir using lc(3) [of "PDX (static_va F)"] lc(4) [OF walk(3)] walk(2) n
    by (intro mmu_walk_cong) simp_all
  then have "kstore s' (ptr_page_directory s') (of_nat j) 0 = Inr ?s" using walk(1) lc(1) F by (simp add: kstore_Inr)
  moreover have "\<forall>x. unat x < Suc j \<longrightarrow> phys ?s F x = 0"
    using Suc.prems(3) uj by (auto simp: less_Suc_eq word_unat_eq_iff)
  ultimately show ?case using Suc.IH [OF 1, of "Suc j"] Suc.prems(2) by (simp add: add.commute)
qed simp

lemma turn_on_paging_result:
  assumes dir: "boot_directory F img pa s"
  shows "turn_on_paging s = Inr (s\<lparr>reg_cr3 := phys_page_directory s\<rparr>)"
proof -
  note inv = boot_directoryD(1) [OF dir]
  note f = boot_inv_frame [OF inv] and d = boot_inv_dir [OF inv]
  define n where "n = unat (PDX (ptr_free_mem s)) - unat (PDX KERNEL_BASE)"
  have "kernel_end s \<le> 24576" using f(4) by (simp add: boot_room_def)
  then have "kernel_end s * 4096 + 4026531840 \<le> 4127195136" by simp
  moreover have "unat (ptr_free_mem s) \<le> kernel_end s * 4096 + 4026531840"
    using dividend_less_div_times [of 4096 "unat (ptr_free_mem s) - unat KERNEL_BASE + 4095"]
    by (simp add: kernel_end_def KERNEL_BASE_def)
  ultimately have "unat (ptr_free_mem s) div 4194304 \<le> 984" by (intro div_le_mono [of _ 4127195136 4194304, simplified]) simp
  then have n: "n \<le> 24" by (simp add: n_def unat_PDX) (simp add: KERNEL_BASE_def)
  have uF: "of_nat (unat F) = F" by simp
  note e = boot_image_entry [OF dir f(2), unfolded uF]
  have F: "F < 0x100000" using f(1) by (simp add: word_less_nat_alt)
  have "PERM_PRESENT \<noteq> 0" "PERM_WRITEABLE < 0x1000" by (simp_all add: PERM_PRESENT_def PERM_WRITEABLE_def)
  then have kf: "kframe s (static_va F) = Some F"
    using boot_kframe [OF inv e(2)] e(1) PPN_CONSTRUCT [OF F perm_or_bound] present_CONSTRUCT [of F PERM_WRITEABLE]
      page_multiple [of "unat F"] by simp
  have px: "960 \<le> unat (PDX (static_va F))" using image_address(5) [of "unat F"] f(1) by simp
  have T: "PPN (phys s F (PDX (static_va F))) \<noteq> F" by (rule boot_inv_table(5) [OF inv e(2,3)])
  have pF: "PPN (phys_page_directory s) = F" using d(2) static_PPN [OF f(1)] by simp
  have "low_changed F n s s" unfolding low_changed_def by (rule exI [of _ "phys s F"]) simp
  then have lc: "low_changed F n s (copy_entries n (PDX KERNEL_BASE) (of_nat 0) s)"
    using copy_entries_low [OF f(1) d(1), of n s 0 n] n by simp
  let ?s = "s\<lparr>reg_cr3 := phys_page_directory s\<rparr>"
  define s1 where "s1 = (copy_entries n (PDX KERNEL_BASE) 0 s)\<lparr>reg_cr3 := phys_page_directory s\<rparr>"
  obtain pg where "copy_entries n (PDX KERNEL_BASE) 0 s = s\<lparr>phys := (phys s)(F := pg)\<rparr>" "\<forall>x. n \<le> unat x \<longrightarrow> pg x = phys s F x"
    using lc by (auto simp: low_changed_def)
  moreover from this have "s1 = ?s\<lparr>phys := (phys ?s)(F := pg)\<rparr>" unfolding s1_def by (cases s) simp
  ultimately have lc1: "low_changed F n ?s s1" unfolding low_changed_def by auto
  have pd: "phys_page_directory (copy_entries n (PDX KERNEL_BASE) 0 s) = phys_page_directory s"
    using low_changed_fields(2) [OF lc] by simp
  obtain s2 where s2: "clear_entries n 0 s1 = Inr s2" "low_changed F n ?s s2" "\<forall>x. unat x < n \<longrightarrow> phys s2 F x = 0"
    using clear_entries_low [of ?s F n, OF _ _ _ _ _ _ lc1, of 0 n] d(1) n kf px T pF by (auto simp: kframe_def)
  have "phys s2 F x = phys s F x" for x
    using s2(3) low_changed_fields(3) [OF s2(2), of x] boot_directoryD(2) [OF dir, of x] n
    by (cases "unat x < n") auto
  then have "phys s2 F = phys s F" by (rule ext)
  then have "s2 = ?s" using s2(2) by (auto simp: low_changed_def)
  then show ?thesis using s2(1) pd by (simp add: turn_on_paging_def Let_def n_def [symmetric] s1_def)
qed

text \<open>The kernel's part of the address space after boot.\<close>

lemma boot_static_mapped:
  assumes dir: "boot_directory F img pa s" and k: "k < kernel_end s"
  shows "static_mapped s (of_nat k)"
proof -
  note e = boot_image_entry [OF dir k] and inv = boot_directoryD(1) [OF dir]
  have k': "k < 65536" using e(4) by simp
  then have kb: "(of_nat k :: u32) < 0x100000" by (simp add: word_less_nat_alt unat_of_nat)
  have "PERM_PRESENT \<noteq> 0" "PERM_WRITEABLE < 0x1000" by (simp_all add: PERM_PRESENT_def PERM_WRITEABLE_def)
  then have "kframe s (static_va (of_nat k)) = Some (of_nat k)"
    using boot_kframe [OF inv e(2)] e(1) PPN_CONSTRUCT [OF kb perm_or_bound] present_CONSTRUCT [of "of_nat k" PERM_WRITEABLE]
      page_multiple [of k] by simp
  moreover have "k div 1024 < 24" using e(4) by (simp add: div_less_iff_less_mult)
  ultimately show ?thesis
    using image_address(5) [OF k'] by (simp add: static_mapped_def kernel_index_def heap_index_def word_le_nat_alt word_less_nat_alt)
qed

lemma boot_kdir: "boot_inv F s \<Longrightarrow> kdir s = F"
  using static_PPN [OF boot_inv_frame(1)] boot_inv_dir(2) by (simp add: kdir_def)

lemma boot_ktab:
  assumes dir: "boot_directory F img pa s" and d: "kernel_index d"
  shows "phys s F d AND PERM_PRESENT = PERM_PRESENT" "unat F < unat (ktab s d)" "unat (ktab s d) < kernel_end s"
    "\<not> self_map d" "phys s F d \<noteq> 0"
proof -
  note inv = boot_directoryD(1) [OF dir]
  have u: "960 \<le> unat d" "unat d < 1024" using d by (simp_all add: kernel_index_def word_le_nat_alt word_less_nat_alt)
  show ns: "\<not> self_map d" and nz: "phys s F d \<noteq> 0"
    using not_self_kernel [OF u(1)] boot_directoryD(2) [OF dir, of d] u by simp_all
  show "phys s F d AND PERM_PRESENT = PERM_PRESENT" "unat F < unat (ktab s d)" "unat (ktab s d) < kernel_end s"
    using boot_inv_table(1-3) [OF inv ns nz] by (simp_all add: ktab_def boot_kdir [OF inv])
qed

lemma boot_kmap_inv:
  assumes dir: "boot_directory F img pa s" and nf: "number_of_frames s \<le> 0x100000"
  shows "kmap_inv s"
proof -
  note inv = boot_directoryD(1) [OF dir]
  note f = boot_inv_frame [OF inv] and kd = boot_kdir [OF inv]
  have "static_mapped s F" using boot_static_mapped [OF dir f(2)] by simp
  moreover have "static_mapped s (ktab s d) \<and> ktab s d < number_of_frames s \<and> ktab s d \<noteq> F" if "kernel_index d" for d
    using boot_static_mapped [OF dir boot_ktab(3) [OF dir that]] boot_ktab(2,3) [OF dir that] f(4)
    by (auto simp: word_less_nat_alt boot_room_def)
  moreover have "d = d'" if "kernel_index d" "kernel_index d'" "ktab s d = ktab s d'" for d d'
    using boot_inv_inj [OF inv, of d d'] boot_ktab(4,5) [OF dir that(1)] boot_ktab(4,5) [OF dir that(2)] that(3)
    by (simp add: ktab_def kd)
  ultimately show ?thesis
    unfolding kmap_inv_def kd using boot_inv_dir(1) [OF inv] nf boot_ktab(1) [OF dir] by blast
qed

lemma boot_heap_clear:
  assumes dir: "boot_directory F img pa s" and va: "heap_page va"
  shows "kpte s va = 0"
proof -
  note inv = boot_directoryD(1) [OF dir]
  have hp: "KERNEL_HEAP_START \<le> va" "kernel_index (PDX va)"
    using va heap_page_kernel [OF va] by (simp_all add: heap_page_def kernel_PDX_iff)
  have ke: "kernel_end s \<le> 24576" using boot_inv_frame(4) [OF inv] by (simp add: boot_room_def)
  have "4127195136 \<le> unat va" using hp(1) by (simp add: word_le_nat_alt KERNEL_HEAP_START_def)
  then have "1007616 \<le> unat (PPN va)" using div_le_mono [of 4127195136 "unat va" 4096] by (simp add: unat_PPN)
  then have "boot_pte F s va = 0"
    using boot_directoryD(3) [OF dir boot_ktab(4) [OF dir hp(2)]] ke by (simp add: range_entry_def)
  then show ?thesis
    using boot_ktab(5) [OF dir hp(2)] by (simp add: boot_pte_def kpte_def ktab_def boot_kdir [OF inv])
qed

lemma boot_kernel_frames:
  assumes dir: "boot_directory F img pa s" and "kernel_frame s g"
  shows "unat F \<le> unat g" "unat g < kernel_end s"
proof -
  note inv = boot_directoryD(1) [OF dir]
  have "g = F \<or> (\<exists>d. kernel_index d \<and> g = ktab s d)" using assms(2) by (simp add: kernel_frame_def boot_kdir [OF inv])
  then show "unat F \<le> unat g" "unat g < kernel_end s"
    using boot_ktab(2,3) [OF dir] boot_inv_frame(2) [OF inv] by (auto intro: less_imp_le)
qed

lemma boot_directory_ok:
  assumes dir: "boot_directory F img pa s" and nf: "number_of_frames s \<le> 0x100000" and F: "256 \<le> unat F"
  shows "boot_ok s"
proof -
  note inv = boot_directoryD(1) [OF dir]
  note f = boot_inv_frame [OF inv]
  have "static_mapped s 1" "static_mapped s 2"
    using boot_static_mapped [OF dir, of 1] boot_static_mapped [OF dir, of 2] f(2) F by simp_all
  moreover have "\<not> kernel_frame s 1" "\<not> kernel_frame s 2"
    using boot_kernel_frames(1) [OF dir, of 1] boot_kernel_frames(1) [OF dir, of 2] F by auto
  moreover have "KERNEL_BASE + PHYS_EXTENDED_MEM \<le> ptr_free_mem s"
  proof -
    have "257 \<le> (unat (ptr_free_mem s) - 4026531840 + 4095) div 4096"
      using f(2) F by (simp add: kernel_end_def KERNEL_BASE_def)
    then have "257 * 4096 \<le> unat (ptr_free_mem s) - 4026531840 + 4095" by (simp add: less_eq_div_iff_mult_less_eq)
    then show ?thesis by (simp add: word_le_nat_alt fos_consts)
  qed
  moreover have "(unat (ptr_free_mem s) - unat KERNEL_BASE + 4095) div 4096 \<le> unat (number_of_frames s)"
    using f(4) by (simp add: boot_room_def kernel_end_def)
  ultimately show ?thesis using boot_kmap_inv [OF dir nf] by (simp add: boot_ok_def)
qed

text \<open>The state after boot; only CR3 has been set since the directory was checked.\<close>

lemma boot_result:
  assumes ready: "boot_ready img s"
  shows "\<exists>F pa s' c. initialize_kernel_VM img s = Inr (s'\<lparr>reg_cr3 := c\<rparr>) \<and> boot_directory F img pa s'
    \<and> boot_keeps s s' \<and> frames_info s' = (\<lambda>_. zero_frame_info) \<and> boot_ok s' \<and> c = push_bit 12 F \<and> 256 \<le> unat F"
proof -
  obtain F pa s' where b: "initialize_kernel_VM img s = rbind (check_boot_pgdir img s') (\<lambda>_. turn_on_paging s')"
      "boot_directory F img pa s'" "boot_keeps s s'" "frames_info s' = (\<lambda>_. zero_frame_info)"
      "kernel_end (s\<lparr>ptr_free_mem := end_of_kernel img\<rparr>) \<le> unat F"
    using boot_built [OF ready] by blast
  have run: "initialize_kernel_VM img s = Inr (s'\<lparr>reg_cr3 := push_bit 12 F\<rparr>)"
    using b(1) check_boot_pgdir_ok [OF b(2) ready] turn_on_paging_result [OF b(2)]
      boot_inv_dir(2) [OF boot_directoryD(1) [OF b(2)]] by simp
  have "KERNEL_BASE + PHYS_EXTENDED_MEM \<le> end_of_kernel img" "number_of_frames s \<le> 0x100000"
    using ready unfolding boot_ready_def by blast+
  moreover from this have "256 \<le> (unat (end_of_kernel img) - 4026531840 + 4095) div 4096"
    by (simp add: word_le_nat_alt fos_consts less_eq_div_iff_mult_less_eq)
  then have F: "256 \<le> unat F" using b(5) by (simp add: kernel_end_def KERNEL_BASE_def)
  ultimately have "boot_ok s'" using boot_directory_ok [OF b(2) _ F] b(3) by (simp add: boot_keeps_def)
  then show ?thesis using run b F by blast
qed

section \<open>The frames after boot\<close>

text \<open>
  initialize_paging() changes the contents of frames 1 and 2 only, neither the kernel's translation of
  its heap nor the size of memory, and leaves no frame marked as buffered that was not.
\<close>

definition paging_keeps :: "kstate \<Rightarrow> kstate \<Rightarrow> bool" where
  "paging_keeps s s' \<longleftrightarrow> (\<forall>g. g \<noteq> 1 \<and> g \<noteq> 2 \<longrightarrow> phys s' g = phys s g)
     \<and> phys_page_directory s' = phys_page_directory s \<and> ptr_page_directory s' = ptr_page_directory s
     \<and> boot_keeps s s' \<and> ((\<forall>f. fi_isBuffered (frames_info s f) = 0) \<longrightarrow> (\<forall>f. fi_isBuffered (frames_info s' f) = 0))"

lemma paging_keeps_trans: "paging_keeps s s1 \<Longrightarrow> paging_keeps s1 s2 \<Longrightarrow> paging_keeps s s2"
  by (simp add: paging_keeps_def boot_keeps_def)

lemma paging_keeps_mark: "paging_keeps s (mark_used i s)" "paging_keeps s (mark_free i s)"
  by (simp_all add: paging_keeps_def boot_keeps_def)
     (simp_all add: mark_used_def mark_free_def set_references_def initialize_frame_info_def)

lemma paging_keeps_fold:
  assumes "\<And>i s. paging_keeps s (g i s)" shows "paging_keeps s (fold g xs s)"
proof (induction xs arbitrary: s)
  case Nil
  show ?case by (simp add: paging_keeps_def boot_keeps_def)
next
  case (Cons x xs)
  show ?case using paging_keeps_trans [OF assms Cons] by simp
qed

lemma paging_keeps_disk: "paging_keeps s (initialize_disk_page_file s)"
proof -
  have "paging_keeps s (s\<lparr>disk_free_frame_list := x\<rparr>)" for s x by (simp add: paging_keeps_def boot_keeps_def)
  then show ?thesis
    unfolding initialize_disk_page_file_def by (intro paging_keeps_trans [OF _ paging_keeps_fold])
qed

lemma clear_low_keeps:
  assumes "kframe s p = Some f" and "f = 1 \<or> f = 2" and "clear_low_words s p = Inr s'"
  shows "paging_keeps s s'"
  using assms by (auto simp: clear_low_words_def paging_keeps_def boot_keeps_def phys_fill_def)

lemma initialize_paging_keeps:
  assumes ok: "boot_ok s" and run: "initialize_paging s = Inr s'"
  shows "paging_keeps s s'"
proof -
  let ?s0 = "mark_used 2 (mark_used 1 (mark_used 0 (s\<lparr>free_frame_list := [], modified_frame_list := []\<rparr>)))"
  have 0: "paging_keeps s ?s0"
    by (rule paging_keeps_trans [OF paging_keeps_trans [OF paging_keeps_trans [OF _ paging_keeps_mark(1)] paging_keeps_mark(1)] paging_keeps_mark(1)])
       (simp add: paging_keeps_def boot_keeps_def)
  have "boot_ok ?s0 = boot_ok s" by (rule boot_ok_cong) simp_all
  then have b: "kmap_inv ?s0" "static_mapped ?s0 1" "static_mapped ?s0 2" "\<not> kernel_frame ?s0 1" "\<not> kernel_frame ?s0 2"
    using ok by (simp_all add: boot_ok_def)
  obtain s1 where s1: "clear_low_words ?s0 (static_va 1) = Inr s1" "static_mapped s1 2"
    using clear_low_words_static [OF b(1,2,4)] b(3) by auto
  have k1: "paging_keeps ?s0 s1"
    using clear_low_keeps [OF _ _ s1(1), of 1] b(2) by (simp add: static_mapped_def)
  obtain s2 pa where s2: "clear_low_words s1 (static_va 2) = Inr s2" and s': "s' = initialize_disk_page_file
      (fold mark_free [unat (ROUNDUP pa PAGE_SIZE div PAGE_SIZE)..<unat (number_of_frames s2)]
      (fold mark_used [unat (PHYS_EXTENDED_MEM div PAGE_SIZE)..<unat (ROUNDUP pa PAGE_SIZE div PAGE_SIZE)]
      (fold mark_used [unat (PHYS_IO_MEM div PAGE_SIZE)..<unat (PHYS_EXTENDED_MEM div PAGE_SIZE)]
      (fold mark_free [3..<unat (ROUNDUP PHYS_IO_MEM PAGE_SIZE div PAGE_SIZE)] s2))))"
    using run s1(1) unfolding initialize_paging_def Let_def static_va_low by auto
  have k2: "paging_keeps s1 s2"
    using clear_low_keeps [OF _ _ s2, of 2] s1(2) by (simp add: static_mapped_def)
  note t = paging_keeps_trans and fm = paging_keeps_fold [of mark_free, OF paging_keeps_mark(2)]
    and fu = paging_keeps_fold [of mark_used, OF paging_keeps_mark(1)]
  show ?thesis
    unfolding s' by (rule t [OF t [OF t [OF t [OF t [OF t [OF t [OF 0 k1] k2] fm] fu] fu] fm] paging_keeps_disk])
qed

text \<open>detect_memory() finds no memory at all on a machine without extended memory.\<close>

lemma detect_memory_base_only: "number_of_frames (detect_memory s base_kb 0 0) = 0"
  by (simp add: detect_memory_def ROUNDDOWN_page PPN_def)

text \<open>A kernel that ends in the first 4 MB is not mapped low while paging is turned on.\<close>

lemma turn_on_paging_small:
  "PDX (ptr_free_mem s) = PDX KERNEL_BASE \<Longrightarrow> turn_on_paging s = Inr (s\<lparr>reg_cr3 := phys_page_directory s\<rparr>)"
  by (simp add: turn_on_paging_def Let_def)

lemma boot_stack_mapped:
  assumes dir: "boot_directory F img pa s" and ready: "boot_ready img s0" and j: "j < 8"
  shows "kframe s (KERNEL_STACK_TOP - KERNEL_STACK_SIZE + of_nat j * PAGE_SIZE)
    = Some (PPN (ptr_stack_bottom img - KERNEL_BASE + of_nat j * PAGE_SIZE))"
proof -
  let ?to = "ptr_stack_bottom img - KERNEL_BASE + of_nat j * PAGE_SIZE"
  note e = boot_stack_entry [OF dir j boot_ready_stack(1) [OF ready]]
  have "PERM_WRITEABLE < 0x1000" by (simp add: PERM_WRITEABLE_def)
  then have "PPN (CONSTRUCT_ENTRY ?to (PERM_WRITEABLE OR PERM_PRESENT)) = PPN ?to"
      "CONSTRUCT_ENTRY ?to (PERM_WRITEABLE OR PERM_PRESENT) AND PERM_PRESENT \<noteq> 0"
    using PPN_CONSTRUCT [OF PPN_bound perm_or_bound, of PERM_WRITEABLE ?to]
      present_eq_0 [OF present_CONSTRUCT, of "PPN ?to" PERM_WRITEABLE] aligned_push [OF e(4)] by metis+
  then show ?thesis
    unfolding boot_kframe [OF boot_directoryD(1) [OF dir] e(2)] e(1) by simp
qed

text \<open>
  C11. The kernel's address space at boot: initialize_kernel_VM() succeeds, its own check of the directory
  included. Afterwards every frame up to the first free one is mapped at KERNEL_BASE plus its physical
  address, the eight pages of the kernel stack are mapped to those the linker reserved, no page of the
  kernel heap is mapped, every kernel directory entry has a table of its own, and CR3 holds the
  directory's physical address.
\<close>

theorem initialize_kernel_VM_maps:
  assumes "boot_ready img s"
  shows "\<exists>s'. initialize_kernel_VM img s = Inr s' \<and> boot_ok s'
    \<and> (\<forall>k. k < kernel_end s' \<longrightarrow> kframe s' (static_va (of_nat k)) = Some (of_nat k))
    \<and> (\<forall>j. j < 8 \<longrightarrow> kframe s' (KERNEL_STACK_TOP - KERNEL_STACK_SIZE + of_nat j * PAGE_SIZE)
         = Some (PPN (ptr_stack_bottom img - KERNEL_BASE + of_nat j * PAGE_SIZE)))
    \<and> (\<forall>va. heap_page va \<longrightarrow> kframe s' va = None)
    \<and> reg_cr3 s' = phys_page_directory s' \<and> number_of_frames s' = number_of_frames s"
proof -
  obtain F pa s' c where b: "initialize_kernel_VM img s = Inr (s'\<lparr>reg_cr3 := c\<rparr>)" "boot_directory F img pa s'"
    "boot_keeps s s'" "boot_ok s'" "c = push_bit 12 F"
    using boot_result [OF assms] by blast
  let ?s = "s'\<lparr>reg_cr3 := c\<rparr>"
  have k: "kframe ?s = kframe s'" by (rule kframe_cong) simp_all
  have "boot_ok ?s" using boot_ok_cong [of ?s s'] b(4) by simp
  moreover have "kframe ?s (static_va (of_nat k)) = Some (of_nat k)" if "k < kernel_end ?s" for k
    using boot_static_mapped [OF b(2), of k] that by (simp add: k kernel_end_def static_mapped_def)
  moreover have "kframe ?s va = None" if "heap_page va" for va
    using kframe_kernel [of s' va] boot_heap_clear [OF b(2) that] b(4) heap_page_kernel [OF that]
    by (simp add: k boot_ok_def)
  moreover have "reg_cr3 ?s = phys_page_directory ?s" "number_of_frames ?s = number_of_frames s"
    using b(3,5) boot_inv_dir(2) [OF boot_directoryD(1) [OF b(2)]] by (simp_all add: boot_keeps_def)
  ultimately show ?thesis
    using b(1) boot_stack_mapped [OF b(2) assms, folded k] by blast
qed

lemma boot_free_frame:
  assumes ok: "boot_ok s" and run: "initialize_paging s = Inr s'" and g: "g \<in> set (free_frame_list s')"
  shows "g < number_of_frames s" "unat g < 160 \<or> kernel_end s \<le> unat g"
proof -
  note upt_rec_numeral [simp del]
  let ?n = "unat (number_of_frames s)"
  have n: "?n < 4294967296" by (rule unat_u32_less)
  have e: "256 \<le> kernel_end s" "kernel_end s \<le> ?n" using boot_ranges(2,3) [OF ok] by auto
  have "free_frame_list s' = rev (map of_nat [kernel_end s..<?n]) @ rev (map of_nat [3..<160])"
    using initialize_paging_result [OF ok] run by auto
  then have "g \<in> of_nat ` {kernel_end s..<?n} \<union> of_nat ` {3..<160}" using g by simp
  then obtain k where k: "g = of_nat k" "kernel_end s \<le> k \<and> k < ?n \<or> 3 \<le> k \<and> k < 160" by auto
  then have "unat g = k" using n e by (auto simp: unat_of_nat)
  then show "g < number_of_frames s" "unat g < 160 \<or> kernel_end s \<le> unat g"
    using k(2) e by (auto simp: word_less_nat_alt)
qed

lemma boot_heap_inv:
  assumes dir: "boot_directory F img pa s" and ok: "boot_ok s" and F: "256 \<le> unat F"
    and fi: "frames_info s = (\<lambda>_. zero_frame_info)"
    and h: "firstFreeVAInKHeap s = KERNEL_HEAP_START" "virtualAddresses s = (\<lambda>_. 0)"
    and run: "initialize_paging s = Inr s'"
  shows "kheap_inv s'"
proof -
  have k: "paging_keeps s s'" by (rule initialize_paging_keeps [OF ok run])
  have inv: "kmap_inv s" using ok by (simp add: boot_ok_def)
  have fr: "unat F \<le> unat g" "unat g < kernel_end s" if "kernel_frame s g" for g
    using boot_kernel_frames [OF dir that] by blast+
  have ph: "phys s' g = phys s g" if "kernel_frame s g" for g
  proof -
    have "g \<noteq> 1 \<and> g \<noteq> 2" using fr(1) [OF that] F by auto
    then show ?thesis using k unfolding paging_keeps_def by blast
  qed
  have st: "phys_page_directory s' = phys_page_directory s" "ptr_page_directory s' = ptr_page_directory s"
      "number_of_frames s' = number_of_frames s" "firstFreeVAInKHeap s' = KERNEL_HEAP_START" "virtualAddresses s' = (\<lambda>_. 0)"
      "\<And>f. fi_isBuffered (frames_info s' f) = 0"
    using k h by (simp_all add: paging_keeps_def boot_keeps_def fi zero_frame_info_def)
  note o = kmap_inv_other_frame [OF inv ph st(1-3)]
  have clear: "kpte s' va = 0" if "heap_page va" for va
    using o(3) [of va] boot_heap_clear [OF dir that] heap_page_kernel [OF that] by simp
  have "distinct (free_frame_list s')"
  proof -
    obtain t where "initialize_paging s = Inr t" "free_frame_list t
        = rev (map of_nat [kernel_end s..<unat (number_of_frames s)]) @ rev (map of_nat [3..<160])"
      using initialize_paging_result [OF ok] by blast
    then show ?thesis using boot_free_distinct [OF ok] run by (simp only: sum.inject)
  qed
  moreover have "f < number_of_frames s \<and> \<not> kernel_frame s f" if "f \<in> set (free_frame_list s')" for f
    using boot_free_frame [OF ok run that] fr [of f] F by fastforce
  ultimately have "free_frames_inv s'"
    unfolding free_frames_inv_def using st(3,5,6) o(2) by simp
  moreover have "heap_page KERNEL_HEAP_START" "KERNEL_HEAP_START \<le> KERNEL_HEAP_MAX"
    by (simp_all add: heap_page_def fos_consts PGOFF_def)
  ultimately show ?thesis
    unfolding kheap_inv_def using o(1) clear st(4,5) by auto
qed

text \<open>Boot up to the free list of frames.\<close>

lemma boot_heap_built:
  assumes "boot_ready img s" and "firstFreeVAInKHeap s = KERNEL_HEAP_START" and "virtualAddresses s = (\<lambda>_. 0)"
  shows "\<exists>s1 s2. initialize_kernel_VM img s = Inr s1 \<and> initialize_paging s1 = Inr s2 \<and> kheap_inv s2
    \<and> env_free_list s2 = env_free_list s"
proof -
  obtain F pa s' c where b: "initialize_kernel_VM img s = Inr (s'\<lparr>reg_cr3 := c\<rparr>)" "boot_directory F img pa s'"
    "boot_keeps s s'" "frames_info s' = (\<lambda>_. zero_frame_info)" "boot_ok s'" "256 \<le> unat F"
    using boot_result [OF assms(1)] by blast
  let ?s = "s'\<lparr>reg_cr3 := c\<rparr>"
  have "boot_inv F ?s = boot_inv F s'" "kernel_end ?s = kernel_end s'" "boot_pte F ?s = boot_pte F s'"
    by (simp_all add: boot_inv_def boot_room_def kernel_end_def boot_pte_def fun_eq_iff)
  then have dir: "boot_directory F img pa ?s" using b(2) by (simp add: boot_directory_def)
  have ok: "boot_ok ?s" using boot_ok_cong [of ?s s'] b(5) by simp
  obtain s2 where run: "initialize_paging ?s = Inr s2" using initialize_paging_result [OF ok] by blast
  have "env_free_list s2 = env_free_list s"
    using b(3) initialize_paging_keeps [OF ok run] by (simp add: paging_keeps_def boot_keeps_def)
  moreover have "kheap_inv s2"
    by (rule boot_heap_inv [OF dir ok b(6) _ _ _ run]) (use b(3,4) assms(2,3) in \<open>simp_all add: boot_keeps_def\<close>)
  ultimately show ?thesis using b(1) run by blast
qed

text \<open>
  Boot establishes the invariant of the kernel heap: initialize_kernel_VM() followed by
  initialize_paging(), as the kernel's main function calls them, ends in a state where the frames on the
  free list are distinct, in no use by the kernel's directory or tables and not buffered, where the heap
  is empty, and where both address translations of the heap agree.
\<close>

theorem boot_establishes_heap:
  assumes "boot_ready img s" and "firstFreeVAInKHeap s = KERNEL_HEAP_START" and "virtualAddresses s = (\<lambda>_. 0)"
  shows "\<exists>s1 s2. initialize_kernel_VM img s = Inr s1 \<and> initialize_paging s1 = Inr s2 \<and> kheap_inv s2"
  using boot_heap_built [OF assms] by blast

section \<open>A machine with 64 MB\<close>

definition sample_image :: boot_image where
  "sample_image = \<lparr>end_of_kernel = 0xF0150000, ptr_stack_bottom = 0xF0110000\<rparr>"

definition power_on :: kstate where
  "power_on = sample_state\<lparr>phys := (\<lambda>_ _. 0), number_of_frames := 0x4000, ptr_free_mem := 0,
     firstFreeVAInKHeap := KERNEL_HEAP_START, virtualAddresses := (\<lambda>_. 0)\<rparr>"

lemma power_on_ready: "boot_ready sample_image power_on"
proof -
  have "boot_pages (0x4000 * sizeof_Frame_Info) = 96" "boot_pages (NENV * sizeof_Env) = 256"
      "boot_pages (of_nat PAGES_PER_FILE * sizeof_Frame_Info) \<le> 800"
      "kernel_end (power_on\<lparr>ptr_free_mem := 0xF0150000\<rparr>) = 336"
    by (simp_all add: boot_pages_def kernel_end_def fos_consts sizeof_Frame_Info_def sizeof_Env_def NENV_def PAGES_PER_FILE_def)
  then show ?thesis
    by (simp add: boot_ready_def boot_room_def sample_image_def power_on_def fos_consts PGOFF_def)
qed

theorem initialize_kernel_VM_maps_witness:
  "\<exists>s'. initialize_kernel_VM sample_image power_on = Inr s' \<and> boot_ok s'
     \<and> kframe s' KERNEL_HEAP_START = None \<and> kframe s' (KERNEL_STACK_TOP - KERNEL_STACK_SIZE) = Some 0x110"
proof -
  from initialize_kernel_VM_maps [OF power_on_ready] obtain s' where s':
    "initialize_kernel_VM sample_image power_on = Inr s'" "boot_ok s'"
    "\<forall>j. j < 8 \<longrightarrow> kframe s' (KERNEL_STACK_TOP - KERNEL_STACK_SIZE + of_nat j * PAGE_SIZE)
         = Some (PPN (ptr_stack_bottom sample_image - KERNEL_BASE + of_nat j * PAGE_SIZE))"
    "\<forall>va. heap_page va \<longrightarrow> kframe s' va = None" by blast
  have "heap_page KERNEL_HEAP_START" by (simp add: heap_page_def fos_consts PGOFF_def)
  then show ?thesis
    using s'(1,2,4) s'(3) [rule_format, of 0] by (simp add: sample_image_def KERNEL_BASE_def PPN_def)
qed

theorem boot_establishes_heap_witness:
  "\<exists>s1 s2. initialize_kernel_VM sample_image power_on = Inr s1 \<and> initialize_paging s1 = Inr s2 \<and> kheap_inv s2"
  by (rule boot_establishes_heap [OF power_on_ready]) (simp_all add: power_on_def)

end
