(* ===== verification/FOS_Printf.thy ===== *)
theory FOS_Printf
  imports FOS_String FOS_Frames
begin

text \<open>
  Formatted output: printnum(), vprintfmt(), vsnprintf() and snprintf() of lib/printfmt.c, and the
  buffered vcprintf() of the user library (lib/printf.c). The function putch() and the data it works
  on are parameters: a state, a function that puts a character into it, and the memory the state
  holds. A loop that stops only at a NUL byte is a partial function, with \<open>None\<close> for a loop that never
  ends; reading an argument that was not passed is an error. int values are 32-bit words.

  The locale \<open>character_sink\<close> is what the formatter needs of putch(): that it keeps the strings the
  arguments point to. Inside it the formatter is shown to put exactly the characters of a
  specification, \<open>format_text\<close>, which is a total function on lists.
\<close>

section \<open>Argument lists\<close>

text \<open>
  The words of a va_list of inc/stdarg.h, from the next argument on. A word is a number, or the
  address of a string constant of the source.
\<close>

datatype va = Word u32 | Literal "u8 list"

definition va_int :: "va list \<Rightarrow> (u32 \<times> va list) result" where
  "va_int ap = (case ap of Word w # ap \<Rightarrow> Inr (w, ap) | _ \<Rightarrow> Inl (Uninitialised ''va_arg''))"

definition va_long_long :: "va list \<Rightarrow> (64 word \<times> va list) result" where
  "va_long_long ap =
     rbind (va_int ap) (\<lambda>(lo, ap). rbind (va_int ap) (\<lambda>(hi, ap). Inr (ucast lo OR push_bit 32 (ucast hi), ap)))"

definition va_pointer :: "va list \<Rightarrow> (va \<times> va list) result" where
  "va_pointer ap = (case ap of x # ap \<Rightarrow> Inr (x, ap) | [] \<Rightarrow> Inl (Uninitialised ''va_arg''))"

definition getuint :: "va list \<Rightarrow> nat \<Rightarrow> (64 word \<times> va list) result" where
  "getuint ap lflag =
     (if lflag \<ge> 2 then va_long_long ap else rbind (va_int ap) (\<lambda>(w, ap). Inr (ucast w, ap)))"

definition getint :: "va list \<Rightarrow> nat \<Rightarrow> (64 word \<times> va list) result" where
  "getint ap lflag =
     (if lflag \<ge> 2 then va_long_long ap else rbind (va_int ap) (\<lambda>(w, ap). Inr (scast w, ap)))"

section \<open>Numbers\<close>

text \<open>while (--width > 0) putch(padc, putdat);\<close>

function pad_number :: "(u32 \<Rightarrow> 's \<Rightarrow> 's) \<Rightarrow> u32 \<Rightarrow> u32 \<Rightarrow> 's \<Rightarrow> 's" where
  "pad_number putch padc width s =
     (if sint (width - 1) > 0 then pad_number putch padc (width - 1) (putch padc s) else s)"
  by pat_completeness auto
termination
proof (relation "measure (\<lambda>(putch, padc, width, s). unat width)", goal_cases)
  case (2 putch padc width s)
  then have "width \<noteq> 0" by auto
  then show ?case by (simp add: unat_minus_1 unat_gt_0)
qed simp

declare pad_number.simps [simp del]

definition hex_digits :: "u8 list" where "hex_digits = ascii ''0123456789abcdef''"

text \<open>The base is 10 or 16 in every call.\<close>

partial_function (option) printnum ::
  "(u32 \<Rightarrow> 's \<Rightarrow> 's) \<Rightarrow> 64 word \<Rightarrow> 64 word \<Rightarrow> u32 \<Rightarrow> u32 \<Rightarrow> 's \<Rightarrow> 's option" where
  "printnum putch num base width padc s =
     Option.bind
       (if num \<ge> base then printnum putch (num div base) base (width - 1) padc s
        else Some (pad_number putch padc width s))
       (\<lambda>s. Some (putch (ucast (hex_digits ! unat (num mod base))) s))"

section \<open>Conversion specifications\<close>

record fmtspec =
  pad_char :: u32
  field_width :: u32
  field_precision :: u32
  long_flag :: nat
  alt_flag :: bool

definition fresh_spec :: fmtspec where
  "fresh_spec = \<lparr>pad_char = 0x20, field_width = - 1, field_precision = - 1, long_flag = 0, alt_flag = False\<rparr>"

definition is_digit :: "u8 \<Rightarrow> bool" where "is_digit c \<longleftrightarrow> 0x30 \<le> c \<and> c \<le> 0x39"

text \<open>The digits of a width or a precision, the first of them \<open>ch\<close>, and the rest of the format.\<close>

fun scan_number :: "u32 \<Rightarrow> u8 \<Rightarrow> u8 list \<Rightarrow> u32 \<times> u8 list" where
  "scan_number n ch [] = (n * 10 + ucast ch - 0x30, [])"
| "scan_number n ch (c # fmt) =
     (if is_digit c then scan_number (n * 10 + ucast ch - 0x30) c fmt
      else (n * 10 + ucast ch - 0x30, c # fmt))"

lemma scan_number_shorter: "length (snd (scan_number n ch fmt)) \<le> length fmt"
  by (induction n ch fmt rule: scan_number.induct) auto

definition process_precision :: "fmtspec \<Rightarrow> fmtspec" where
  "process_precision f =
     (if sint (field_width f) < 0 then f\<lparr>field_width := field_precision f, field_precision := - 1\<rparr> else f)"

text \<open>
  The label reswitch of vprintfmt(): the flags, width and precision up to the first other character,
  which is 0 at the end of the format.
\<close>

function reswitch :: "fmtspec \<Rightarrow> u8 list \<Rightarrow> va list \<Rightarrow> (u8 \<times> fmtspec \<times> u8 list \<times> va list) result" where
  "reswitch f [] ap = Inr (0, f, [], ap)"
| "reswitch f (ch # fmt) ap =
     (if ch = 0x2D then reswitch (f\<lparr>pad_char := 0x2D\<rparr>) fmt ap
      else if ch = 0x30 then reswitch (f\<lparr>pad_char := 0x30\<rparr>) fmt ap
      else if 0x31 \<le> ch \<and> ch \<le> 0x39 then
        reswitch (process_precision (f\<lparr>field_precision := fst (scan_number 0 ch fmt)\<rparr>)) (snd (scan_number 0 ch fmt)) ap
      else if ch = 0x2A then
        rbind (va_int ap) (\<lambda>(w, ap). reswitch (process_precision (f\<lparr>field_precision := w\<rparr>)) fmt ap)
      else if ch = 0x2E then reswitch (if sint (field_width f) < 0 then f\<lparr>field_width := 0\<rparr> else f) fmt ap
      else if ch = 0x23 then reswitch (f\<lparr>alt_flag := True\<rparr>) fmt ap
      else if ch = 0x6C then reswitch (f\<lparr>long_flag := long_flag f + 1\<rparr>) fmt ap
      else Inr (ch, f, fmt, ap))"
  by pat_completeness auto
termination
  by (relation "measure (\<lambda>(f, fmt, ap). length fmt)")
     (auto simp: le_imp_less_Suc scan_number_shorter)

section \<open>Conversions\<close>

definition MAXERROR :: u32 where "MAXERROR = 100"

text \<open>The array error_string: the messages given, and NULL in the rest of it.\<close>

definition error_messages :: "string option list" where
  "error_messages =
     [None, Some ''unspecified error'', Some ''bad environment'', Some ''invalid parameter'',
      Some ''out of memory'', Some ''out of environments'', Some ''segmentation fault'']"

definition error_string :: "u32 \<Rightarrow> u8 list option" where
  "error_string err =
     (if unat err < length error_messages then map_option ascii (error_messages ! unat err) else None)"

text \<open>The character a string pointer designates, and the pointer to the next one.\<close>

definition char_at :: "bytes \<Rightarrow> va \<Rightarrow> u8" where
  "char_at m p = (case p of Word a \<Rightarrow> m a | Literal [] \<Rightarrow> 0 | Literal (x # xs) \<Rightarrow> x)"

definition next_char :: "va \<Rightarrow> va" where
  "next_char p = (case p of Word a \<Rightarrow> Word (a + 1) | Literal xs \<Rightarrow> Literal (tl xs))"

definition pointer_strnlen :: "bytes \<Rightarrow> va \<Rightarrow> u32 \<Rightarrow> u32" where
  "pointer_strnlen m p n =
     (case p of Word a \<Rightarrow> strnlen m a n | Literal xs \<Rightarrow> of_nat (min (length xs) (unat n)))"

text \<open>for (; width > 0; width--) putch(c, putdat); the width that is left is not positive.\<close>

function pad_string :: "(u32 \<Rightarrow> 's \<Rightarrow> 's) \<Rightarrow> u32 \<Rightarrow> u32 \<Rightarrow> 's \<Rightarrow> u32 \<times> 's" where
  "pad_string putch c width s =
     (if sint width > 0 then pad_string putch c (width - 1) (putch c s) else (width, s))"
  by pat_completeness auto
termination
proof (relation "measure (\<lambda>(putch, c, width, s). unat width)", goal_cases)
  case (2 putch c width s)
  then have "width \<noteq> 0" by auto
  then show ?case by (simp add: unat_minus_1 unat_gt_0)
qed simp

declare pad_string.simps [simp del]

text \<open>
  The middle loop of the s conversion. The characters are signed, and a precision that is not
  negative is counted down before each of them.
\<close>

partial_function (option) put_string ::
  "('s \<Rightarrow> bytes) \<Rightarrow> (u32 \<Rightarrow> 's \<Rightarrow> 's) \<Rightarrow> bool \<Rightarrow> va \<Rightarrow> u32 \<Rightarrow> u32 \<Rightarrow> 's \<Rightarrow> (u32 \<times> 's) option" where
  "put_string mem putch alt p precision width s =
     (let ch = scast (char_at (mem s) p) :: u32; neg = (sint precision < 0) in
      if ch \<noteq> 0 \<and> (neg \<or> sint (precision - 1) \<ge> 0)
      then put_string mem putch alt (next_char p) (if neg then precision else precision - 1) (width - 1)
             (putch (if alt \<and> (sint ch < 0x20 \<or> sint ch > 0x7E) then 0x3F else ch) s)
      else Some (width, s))"

definition convert_string ::
  "('s \<Rightarrow> bytes) \<Rightarrow> (u32 \<Rightarrow> 's \<Rightarrow> 's) \<Rightarrow> fmtspec \<Rightarrow> va \<Rightarrow> 's \<Rightarrow> 's option" where
  "convert_string mem putch f p s =
     (let p = (if p = Word 0 then Literal (ascii ''(null)'') else p);
          (width, s) = (if sint (field_width f) > 0 \<and> pad_char f \<noteq> 0x2D
                        then pad_string putch (pad_char f) (field_width f - pointer_strnlen (mem s) p (field_precision f)) s
                        else (field_width f, s))
      in map_option (\<lambda>(width, s). snd (pad_string putch 0x20 width s))
           (put_string mem putch (alt_flag f) p (field_precision f) width s))"

text \<open>The conversions other than e: what is put, and the arguments that are left.\<close>

definition convert ::
  "('s \<Rightarrow> bytes) \<Rightarrow> (u32 \<Rightarrow> 's \<Rightarrow> 's) \<Rightarrow> u8 \<Rightarrow> fmtspec \<Rightarrow> va list \<Rightarrow> 's \<Rightarrow> ('s \<times> va list) result option" where
  "convert mem putch ch f ap s =
     (let number = (\<lambda>num base ap s. map_option (\<lambda>s. Inr (s, ap)) (printnum putch num base (field_width f) (pad_char f) s)) in
      if ch = 0x63 then Some (rbind (va_int ap) (\<lambda>(c, ap). Inr (putch c s, ap)))
      else if ch = 0x73 then
        (case va_pointer ap of Inl e \<Rightarrow> Some (Inl e)
         | Inr (p, ap) \<Rightarrow> map_option (\<lambda>s. Inr (s, ap)) (convert_string mem putch f p s))
      else if ch = 0x64 then
        (case getint ap (long_flag f) of Inl e \<Rightarrow> Some (Inl e)
         | Inr (num, ap) \<Rightarrow> if sint num < 0 then number (- num) 10 ap (putch 0x2D s) else number num 10 ap s)
      else if ch = 0x75 then
        (case getuint ap (long_flag f) of Inl e \<Rightarrow> Some (Inl e) | Inr (num, ap) \<Rightarrow> number num 10 ap s)
      else if ch = 0x6F then Some (Inr (putch 0x58 (putch 0x58 (putch 0x58 s)), ap))
      else if ch = 0x70 then
        (case va_int ap of Inl e \<Rightarrow> Some (Inl e)
         | Inr (w, ap) \<Rightarrow> number (ucast w) 16 ap (putch 0x78 (putch 0x30 s)))
      else if ch = 0x78 then
        (case getuint ap (long_flag f) of Inl e \<Rightarrow> Some (Inl e) | Inr (num, ap) \<Rightarrow> number num 16 ap s)
      else Some (Inr (putch (ucast ch) s, ap)))"

definition conversions :: "u8 list" where "conversions = ascii ''csduopx%''"

section \<open>The formatter\<close>

text \<open>
  One round of the loop of vprintfmt(), on the characters of the format that are left: it returns, it
  goes on, or it first calls printfmt() with a constant format. An unrecognised escape prints the per
  cent sign and goes back to the character after it.
\<close>

datatype 's fmtstep =
    Return "'s result"
  | Continue "u8 list" "va list" 's
  | Nested "u8 list" "va list" "u8 list" "va list" 's

definition convert_error :: "u8 list \<Rightarrow> va list \<Rightarrow> 's \<Rightarrow> 's fmtstep" where
  "convert_error rest ap s =
     (case va_int ap of Inl e \<Rightarrow> Return (Inl e)
      | Inr (err, ap) \<Rightarrow>
          let err = (if sint err < 0 then - err else err) in
          if sint err < 0 then Return (Inl (Out_of_bounds ''error_string''))
          else if sint err > sint MAXERROR \<or> error_string err = None
          then Nested (ascii ''error %d'') [Word err] rest ap s
          else Nested (ascii ''%s'') [Literal (the (error_string err))] rest ap s)"

definition fmt_round ::
  "('s \<Rightarrow> bytes) \<Rightarrow> (u32 \<Rightarrow> 's \<Rightarrow> 's) \<Rightarrow> u8 list \<Rightarrow> va list \<Rightarrow> 's \<Rightarrow> 's fmtstep option" where
  "fmt_round mem putch format ap s =
     (case format of [] \<Rightarrow> Some (Return (Inr s))
      | ch # fmt \<Rightarrow>
          if ch = 0 then Some (Return (Inr s))
          else if ch \<noteq> 0x25 then Some (Continue fmt ap (putch (ucast ch) s))
          else (case reswitch fresh_spec fmt ap of Inl e \<Rightarrow> Some (Return (Inl e))
            | Inr (ch, f, rest, ap) \<Rightarrow>
                if ch = 0x65 then Some (convert_error rest ap s)
                else if ch \<in> set conversions then
                  map_option (\<lambda>r. case r of Inl e \<Rightarrow> Return (Inl e) | Inr (s, ap) \<Rightarrow> Continue rest ap s)
                    (convert mem putch ch f ap s)
                else Some (Continue fmt ap (putch 0x25 s))))"

partial_function (option) vprintfmt ::
  "('s \<Rightarrow> bytes) \<Rightarrow> (u32 \<Rightarrow> 's \<Rightarrow> 's) \<Rightarrow> u8 list \<Rightarrow> va list \<Rightarrow> 's \<Rightarrow> 's result option" where
  "vprintfmt mem putch fmt ap s =
     Option.bind (fmt_round mem putch fmt ap s) (\<lambda>step. case step of
       Return r \<Rightarrow> Some r
     | Continue fmt ap s \<Rightarrow> vprintfmt mem putch fmt ap s
     | Nested fmt' args fmt ap s \<Rightarrow>
         Option.bind (vprintfmt mem putch fmt' args s) (\<lambda>r. case r of
           Inl e \<Rightarrow> Some (Inl e)
         | Inr s \<Rightarrow> vprintfmt mem putch fmt ap s))"

definition printfmt ::
  "('s \<Rightarrow> bytes) \<Rightarrow> (u32 \<Rightarrow> 's \<Rightarrow> 's) \<Rightarrow> u8 list \<Rightarrow> va list \<Rightarrow> 's \<Rightarrow> 's result option" where
  "printfmt mem putch fmt args s = vprintfmt mem putch fmt args s"

section \<open>The text of a number\<close>

function digits :: "nat \<Rightarrow> nat \<Rightarrow> nat list" where
  "digits base n = (if n < base \<or> base < 2 then [n] else digits base (n div base) @ [n mod base])"
  by pat_completeness auto
termination
  by (relation "measure snd") (auto intro!: div_less_dividend)

declare digits.simps [simp del]

definition digit_byte :: "nat \<Rightarrow> u32" where "digit_byte d = ucast (hex_digits ! d)"

definition number_text :: "u32 \<Rightarrow> int \<Rightarrow> nat \<Rightarrow> nat \<Rightarrow> u32 list" where
  "number_text pad w base n =
     replicate (nat w - length (digits base n)) pad @ map digit_byte (digits base n)"

lemma digits_small: "n < base \<Longrightarrow> digits base n = [n]"
  by (subst digits.simps) simp

lemma digits_step: "base \<le> n \<Longrightarrow> 2 \<le> base \<Longrightarrow> digits base n = digits base (n div base) @ [n mod base]"
  by (subst digits.simps) simp

lemma digits_nonempty: "digits base n \<noteq> []"
  by (subst digits.simps) simp

lemma digits_length: "2 \<le> base \<Longrightarrow> n < base ^ k \<Longrightarrow> 0 < k \<Longrightarrow> length (digits base n) \<le> k"
proof (induction k arbitrary: n)
  case (Suc k)
  show ?case
  proof (cases "n < base \<or> k = 0")
    case True
    then have "n < base" using Suc.prems by auto
    then show ?thesis by (simp add: digits_small)
  next
    case False
    have "n div base < base ^ k" using Suc.prems(2) by (simp add: less_mult_imp_div_less mult.commute)
    then show ?thesis using Suc.IH [of "n div base"] False Suc.prems(1) by (simp add: digits_step)
  qed
qed simp

lemma digits_less: "2 \<le> base \<Longrightarrow> d \<in> set (digits base n) \<Longrightarrow> d < base"
proof (induction n rule: less_induct)
  case (less n)
  show ?case
  proof (cases "n < base")
    case True
    then show ?thesis using less.prems by (simp add: digits_small)
  next
    case False
    then have "n div base < n" using less.prems(1) by (intro div_less_dividend) auto
    from less.IH [OF this less.prems(1)] have "d < base" if "d \<in> set (digits base (n div base))"
      using that .
    moreover have "n mod base < base" using less.prems(1) by simp
    ultimately show ?thesis using less.prems(2) False less.prems(1) by (auto simp: digits_step)
  qed
qed

text \<open>The digits stand for the number.\<close>

lemma digits_value: "2 \<le> base \<Longrightarrow> foldl (\<lambda>v d. v * base + d) 0 (digits base n) = n"
proof (induction n rule: less_induct)
  case (less n)
  show ?case
  proof (cases "n < base")
    case True
    then show ?thesis by (simp add: digits_small)
  next
    case False
    then have "n div base < n" using less.prems(1) by (intro div_less_dividend) auto
    then show ?thesis using less False by (simp add: digits_step)
  qed
qed

section \<open>Counting down in signed words\<close>

lemma sint_pred: "- 2147483648 < sint (w :: u32) \<Longrightarrow> sint (w - 1) = sint w - 1"
proof -
  assume "- 2147483648 < sint w"
  then have "signed_take_bit 31 (sint w - 1) = sint w - 1"
    using sint_lt [of w] by (simp add: signed_take_bit_int_eq_self_iff)
  then show ?thesis by (simp add: sint_word_ariths)
qed

lemma pad_number_fold:
  "- 2147483648 < sint w \<Longrightarrow> pad_number putch pad w s = fold putch (replicate (nat (sint w - 1)) pad) s"
proof (induction putch pad w s rule: pad_number.induct)
  case (1 putch pad w s)
  show ?case
  proof (cases "sint (w - 1) > 0")
    case True
    moreover have "nat (sint w - 1) = Suc (nat (sint (w - 1) - 1))"
      using True 1(2) by (simp add: sint_pred)
    ultimately show ?thesis using 1 by (subst pad_number.simps) (simp add: sint_pred)
  next
    case False
    then show ?thesis using 1(2) by (subst pad_number.simps) (simp add: sint_pred)
  qed
qed

lemma pad_string_fold:
  "pad_string putch c w s =
     (if sint w > 0 then 0 else w, fold putch (replicate (nat (sint w)) c) s)"
proof (induction putch c w s rule: pad_string.induct)
  case (1 putch c w s)
  show ?case
  proof (cases "sint w > 0")
    case True
    then have p: "sint (w - 1) = sint w - 1" by (intro sint_pred) simp
    moreover have "nat (sint w) = Suc (nat (sint w - 1))" using True by simp
    moreover have "w - 1 = 0" if "sint w = 1" using that p by (intro signed_word_eqI) simp
    ultimately show ?thesis using 1 True by (subst pad_string.simps) auto
  next
    case False
    then show ?thesis by (subst pad_string.simps) simp
  qed
qed

lemma printnum_fold:
  assumes "2 \<le> unat base"
  shows "int (length (digits (unat base) (unat num))) - 2147483648 \<le> sint w \<Longrightarrow>
         printnum putch num base w pad s
           = Some (fold putch (number_text pad (sint w) (unat base) (unat num)) s)"
proof (induction "unat num" arbitrary: num w rule: less_induct)
  case less
  show ?case
  proof (cases "num \<ge> base")
    case True
    have smaller: "unat (num div base) < unat num"
      using True assms by (simp add: unat_div word_le_nat_alt div_less_dividend)
    have ds: "digits (unat base) (unat num)
        = digits (unat base) (unat (num div base)) @ [unat (num mod base)]"
      using True assms by (simp add: digits_step unat_div unat_mod word_le_nat_alt)
    have ln: "0 < length (digits (unat base) (unat (num div base)))"
      by (simp add: digits_nonempty)
    then have w: "sint (w - 1) = sint w - 1" using less.prems by (intro sint_pred) (simp add: ds)
    have "nat (sint w - 1) - k = nat (sint w) - Suc k" for k by linarith
    then show ?thesis
      using less.hyps [OF smaller, of "w - 1"] less.prems True
      by (subst printnum.simps) (simp add: w ds number_text_def digit_byte_def)
  next
    case False
    then have "unat num < unat base" by (simp add: not_le word_less_nat_alt)
    then have ds: "digits (unat base) (unat num) = [unat num]" "num mod base = num"
      by (simp_all add: digits_small word_unat_eq_iff unat_mod)
    moreover have "nat (sint w - 1) = nat (sint w) - Suc 0" by linarith
    ultimately show ?thesis
      using less.prems False
      by (subst printnum.simps) (simp add: pad_number_fold number_text_def digit_byte_def)
  qed
qed

section \<open>The text of a format\<close>

text \<open>The characters a string conversion shows, and where the padding goes.\<close>

definition shown_char :: "bool \<Rightarrow> u8 \<Rightarrow> u32" where
  "shown_char alt x =
     (let ch = scast x :: u32 in if alt \<and> (sint ch < 0x20 \<or> sint ch > 0x7E) then 0x3F else ch)"

definition string_text :: "fmtspec \<Rightarrow> u8 list \<Rightarrow> u32 list" where
  "string_text f xs =
     (let shown = (if sint (field_precision f) < 0 then xs else take (nat (sint (field_precision f))) xs);
          body = map (shown_char (alt_flag f)) shown;
          gap = nat (sint (field_width f)) - length shown
      in if pad_char f \<noteq> 0x2D then replicate gap (pad_char f) @ body else body @ replicate gap 0x20)"

text \<open>
  The string a pointer designates, \<open>str\<close> giving the strings that are in memory. A string of 2 ^ 30
  characters or more, and a width below -1, which only a negative argument for \<open>*\<close> can give, are left
  unspecified.
\<close>

definition string_of :: "(u32 \<Rightarrow> u8 list option) \<Rightarrow> va \<Rightarrow> u8 list option" where
  "string_of str p =
     (case p of
        Word a \<Rightarrow> if a = 0 then Some (ascii ''(null)'') else str a
      | Literal xs \<Rightarrow> if 0 \<notin> set xs \<and> length xs < 2 ^ 30 then Some xs else None)"

definition convert_text ::
  "(u32 \<Rightarrow> u8 list option) \<Rightarrow> u8 \<Rightarrow> fmtspec \<Rightarrow> va list \<Rightarrow> (u32 list \<times> va list) result option" where
  "convert_text str ch f ap =
     (let number = (\<lambda>sign num base ap.
            (sign @ number_text (pad_char f) (sint (field_width f)) base (unat num), ap)) in
      if sint (field_width f) < - 1 then None
      else if ch = 0x63 then Some (rbind (va_int ap) (\<lambda>(c, ap). Inr ([c], ap)))
      else if ch = 0x73 then
        (case va_pointer ap of Inl e \<Rightarrow> Some (Inl e)
         | Inr (p, ap) \<Rightarrow> map_option (\<lambda>xs. Inr (string_text f xs, ap)) (string_of str p))
      else if ch = 0x64 then
        Some (rbind (getint ap (long_flag f)) (\<lambda>(num, ap).
          Inr (if sint num < 0 then number [0x2D] (- num) 10 ap else number [] num 10 ap)))
      else if ch = 0x75 then Some (rbind (getuint ap (long_flag f)) (\<lambda>(num, ap). Inr (number [] num 10 ap)))
      else if ch = 0x6F then Some (Inr ([0x58, 0x58, 0x58], ap))
      else if ch = 0x70 then
        Some (rbind (va_int ap) (\<lambda>(w, ap). Inr (number [0x30, 0x78] (ucast w) 16 ap)))
      else if ch = 0x78 then Some (rbind (getuint ap (long_flag f)) (\<lambda>(num, ap). Inr (number [] num 16 ap)))
      else Some (Inr ([ucast ch], ap)))"

text \<open>The message of the e conversion, for a code that is not negative.\<close>

definition error_text :: "u32 \<Rightarrow> u32 list" where
  "error_text err =
     (if sint err > sint MAXERROR \<or> error_string err = None
      then map ucast (ascii ''error '') @ number_text 0x20 (- 1) 10 (unat err)
      else map scast (the (error_string err)))"

definition after_text :: "u32 list \<Rightarrow> u32 list result option \<Rightarrow> u32 list result option" where
  "after_text out r = map_option (map_sum id ((@) out)) r"

lemma reswitch_shorter:
  "reswitch f fmt ap = Inr (ch, f', rest, ap') \<Longrightarrow> length rest \<le> length fmt"
proof (induction f fmt ap arbitrary: ch f' rest ap' rule: reswitch.induct)
  case (2 f c fmt ap)
  have n: "length (snd (scan_number 0 c fmt)) \<le> length fmt" by (rule scan_number_shorter)
  have "length rest \<le> Suc (length fmt)"
    using 2 by (auto split: if_splits intro: le_SucI le_trans [OF _ n])
  then show ?case by simp
qed simp

function format_text :: "(u32 \<Rightarrow> u8 list option) \<Rightarrow> u8 list \<Rightarrow> va list \<Rightarrow> u32 list result option" where
  "format_text str [] ap = Some (Inr [])"
| "format_text str (ch # fmt) ap =
     (if ch = 0 then Some (Inr [])
      else if ch \<noteq> 0x25 then after_text [ucast ch] (format_text str fmt ap)
      else (case reswitch fresh_spec fmt ap of Inl e \<Rightarrow> Some (Inl e)
        | Inr (ch, f, rest, ap) \<Rightarrow>
            if ch = 0x65 then
              (case va_int ap of Inl e \<Rightarrow> Some (Inl e)
               | Inr (err, ap) \<Rightarrow>
                   let err = (if sint err < 0 then - err else err) in
                   if sint err < 0 then Some (Inl (Out_of_bounds ''error_string''))
                   else after_text (error_text err) (format_text str rest ap))
            else if ch \<in> set conversions then
              (case convert_text str ch f ap of None \<Rightarrow> None
               | Some (Inl e) \<Rightarrow> Some (Inl e)
               | Some (Inr (out, ap)) \<Rightarrow> after_text out (format_text str rest ap))
            else after_text [0x25] (format_text str fmt ap)))"
  by pat_completeness auto
termination
  by (relation "measure (\<lambda>(str, fmt, ap). length fmt)") (auto simp: less_Suc_eq_le dest: reswitch_shorter)

declare format_text.simps [simp del]

section \<open>The formatter puts the text\<close>

lemma strnlen_loop_cstr:
  "cstr m p xs \<Longrightarrow> strnlen_loop k m p n = n + of_nat (min (length xs) k)"
proof (induction k m p n arbitrary: xs rule: strnlen_loop.induct)
  case (2 k m p n)
  then show ?case by (cases xs) (simp_all add: algebra_simps)
qed simp

lemma sint_minus_nat:
  assumes "- 2147483648 \<le> sint (w :: u32) - int n"
  shows "sint (w - of_nat n) = sint w - int n"
  using assms
proof (induction n)
  case (Suc n)
  then have "sint (w - of_nat n) = sint w - int n" by simp
  then have "sint (w - of_nat n - 1) = sint w - int n - 1" using Suc.prems by (simp add: sint_pred)
  then show ?case by (simp add: algebra_simps)
qed simp

lemma scast_u8_zero: "(scast (x :: u8) :: u32) = 0 \<longleftrightarrow> x = 0"
proof
  assume "(scast x :: u32) = 0"
  then have "sint (scast x :: u32) = 0" by simp
  moreover have "signed_take_bit 31 (sint x) = sint x"
    using sint_lt [of x] sint_ge [of x] by (simp add: signed_take_bit_int_eq_self_iff)
  ultimately have "sint x = 0" by (simp add: signed_scast_eq)
  then show "x = 0" by (intro signed_word_eqI) simp
qed simp

definition pointer_chars :: "bytes \<Rightarrow> va \<Rightarrow> u8 list \<Rightarrow> bool" where
  "pointer_chars m p xs \<longleftrightarrow>
     (case p of Word a \<Rightarrow> cstr m a xs | Literal ys \<Rightarrow> ys = xs \<and> 0 \<notin> set xs)"

lemma pointer_chars_Nil: "pointer_chars m p [] \<Longrightarrow> char_at m p = 0"
  by (cases p) (simp_all add: pointer_chars_def char_at_def)

lemma pointer_chars_Cons:
  "pointer_chars m p (x # xs) \<Longrightarrow> char_at m p = x \<and> x \<noteq> 0 \<and> pointer_chars m (next_char p) xs"
  by (cases p) (auto simp: pointer_chars_def char_at_def next_char_def)

lemma pointer_strnlen_chars:
  "pointer_chars m p xs \<Longrightarrow> pointer_strnlen m p n = of_nat (min (length xs) (unat n))"
  by (cases p) (auto simp: pointer_chars_def pointer_strnlen_def strnlen_def strnlen_loop_cstr)

definition shown_part :: "u32 \<Rightarrow> u8 list \<Rightarrow> u8 list" where
  "shown_part prec xs = (if sint prec < 0 then xs else take (nat (sint prec)) xs)"

lemma unat_signed: "unat (w :: u32) = (if sint w < 0 then nat (sint w + 4294967296) else nat (sint w))"
proof -
  have u: "int (unat w) = sint w mod 4294967296"
    using uint_sint [of w] by (simp add: take_bit_eq_mod)
  have r: "sint w < 2147483648" "- 2147483648 \<le> sint w"
    using sint_lt [of w] sint_ge [of w] by simp_all
  show ?thesis
  proof (cases "sint w < 0")
    case True
    have "sint w mod 4294967296 = (sint w + 4294967296) mod 4294967296" by simp
    also have "\<dots> = sint w + 4294967296" using r True by (intro mod_pos_pos_trivial) auto
    finally have "unat w = nat (sint w + 4294967296)" using u by linarith
    then show ?thesis using True by simp
  next
    case False
    then have "int (unat w) = sint w" using u r by simp
    then have "unat w = nat (sint w)" by linarith
    then show ?thesis using False by simp
  qed
qed

lemma shown_part_length:
  "length xs < 2 ^ 30 \<Longrightarrow> min (length xs) (unat prec) = length (shown_part prec xs)"
  using sint_ge [of prec] by (auto simp: shown_part_def unat_signed min_def)

lemma shown_part_Cons:
  "shown_part prec (x # xs)
     = (if sint prec < 0 then x # shown_part prec xs
        else if sint prec = 0 then [] else x # shown_part (prec - 1) xs)"
proof -
  have "sint (prec - 1) = sint prec - 1" "nat (sint prec) = Suc (nat (sint prec - 1))" if "sint prec > 0"
    using that by (auto intro: sint_pred)
  then show ?thesis by (auto simp: shown_part_def)
qed

lemma error_string_chars:
  assumes "error_string err = Some xs"
  shows "0 \<notin> set xs \<and> length xs < 2 ^ 30"
proof -
  obtain n where n: "error_messages ! unat err = Some n" "xs = ascii n" "unat err < length error_messages"
    using assms by (auto simp: error_string_def split: if_splits)
  then have "Some n \<in> set error_messages" by (metis nth_mem)
  then show ?thesis unfolding n(2) by (auto simp: error_messages_def ascii_def)
qed

lemma vprintfmt_plain:
  "0x25 \<notin> set xs \<Longrightarrow> 0 \<notin> set xs \<Longrightarrow>
   vprintfmt mem putch (xs @ fmt) ap s = vprintfmt mem putch fmt ap (fold putch (map ucast xs) s)"
proof (induction xs arbitrary: s)
  case (Cons x xs)
  then show ?case by (subst vprintfmt.simps) (auto simp: fmt_round_def)
qed simp

locale character_sink =
  fixes mem :: "'s \<Rightarrow> bytes"
    and putch :: "u32 \<Rightarrow> 's \<Rightarrow> 's"
    and good :: "'s \<Rightarrow> bool"
    and str :: "u32 \<Rightarrow> u8 list option"
  assumes good_putch: "good s \<Longrightarrow> good (putch c s)"
    and good_str: "good s \<Longrightarrow> str p = Some xs \<Longrightarrow> cstr (mem s) p xs \<and> length xs < 2 ^ 30"
begin

lemma good_fold: "good s \<Longrightarrow> good (fold putch out s)"
  by (induction out arbitrary: s) (auto intro: good_putch)

lemma put_string_text:
  "(\<And>t. good t \<Longrightarrow> pointer_chars (mem t) p xs) \<Longrightarrow> good s \<Longrightarrow>
   put_string mem putch alt p prec w s
     = Some (w - of_nat (length (shown_part prec xs)), fold putch (map (shown_char alt) (shown_part prec xs)) s)"
proof (induction xs arbitrary: p prec w s)
  case Nil
  then have "char_at (mem s) p = 0" by (simp add: pointer_chars_Nil)
  then show ?case by (subst put_string.simps) (simp add: shown_part_def)
next
  case (Cons x xs)
  then have c: "char_at (mem s) p = x" "x \<noteq> 0" using pointer_chars_Cons by blast+
  have n: "pointer_chars (mem t) (next_char p) xs" if "good t" for t
    using Cons.prems(1) [OF that] pointer_chars_Cons by blast
  have g: "good (putch (shown_char alt x) s)" using Cons.prems(2) by (rule good_putch)
  note IH = Cons.IH [OF n g]
  have sc: "shown_char alt x = (if alt \<and> (sint (scast x :: u32) < 32 \<or> 126 < sint (scast x :: u32)) then 63 else scast x)"
    by (simp add: shown_char_def Let_def)
  consider "sint prec < 0" | "sint prec = 0" | "0 < sint prec" by linarith
  then show ?case
  proof cases
    case 1
    then show ?thesis using c
      by (subst put_string.simps)
         (simp add: Let_def scast_u8_zero IH shown_part_Cons algebra_simps flip: sc)
  next
    case 2
    then have "sint (prec - 1) = - 1" by (simp add: sint_pred)
    then show ?thesis using 2 by (subst put_string.simps) (simp add: shown_part_def)
  next
    case 3
    then have "sint (prec - 1) = sint prec - 1" by (intro sint_pred) simp
    then show ?thesis using c 3
      by (subst put_string.simps)
         (simp add: Let_def scast_u8_zero IH shown_part_Cons algebra_simps flip: sc)
  qed
qed

lemma string_of_chars:
  assumes "string_of str p = Some xs"
  defines "q \<equiv> (if p = Word 0 then Literal (ascii ''(null)'') else p)"
  shows "good t \<Longrightarrow> pointer_chars (mem t) q xs" "good s \<Longrightarrow> length xs < 2 ^ 30"
  using assms good_str
  by (auto simp: string_of_def pointer_chars_def q_def ascii_def split: va.splits if_splits)

lemma convert_string_text:
  assumes p: "string_of str p = Some xs" and s: "good s" and w: "- 1 \<le> sint (field_width f)"
  shows "convert_string mem putch f p s = Some (fold putch (string_text f xs) s)"
proof -
  define q where "q = (if p = Word 0 then Literal (ascii ''(null)'') else p)"
  define n where "n = length (shown_part (field_precision f) xs)"
  note chars = string_of_chars(1) [OF p, folded q_def] and short = string_of_chars(2) [OF p s]
  have len: "pointer_strnlen (mem s) q (field_precision f) = of_nat n"
    using pointer_strnlen_chars [OF chars [OF s], of "field_precision f"] short
    by (simp add: shown_part_length n_def)
  have nb: "n < 2 ^ 30" using short by (auto simp: n_def shown_part_def)
  then have less: "sint (field_width f - of_nat n) = sint (field_width f) - int n"
    using w by (intro sint_minus_nat) simp
  have put: "put_string mem putch (alt_flag f) q (field_precision f) v t
      = Some (v - of_nat n, fold putch (map (shown_char (alt_flag f)) (shown_part (field_precision f) xs)) t)"
    if "good t" for v t
    using put_string_text [OF chars that] by (simp add: n_def)
  have gap: "nat v - k = nat (v - int k)" for v k by linarith
  have tx: "string_text f xs = (let body = map (shown_char (alt_flag f)) (shown_part (field_precision f) xs);
      gap = nat (sint (field_width f) - int n)
      in if pad_char f \<noteq> 0x2D then replicate gap (pad_char f) @ body else body @ replicate gap 0x20)"
    unfolding string_text_def shown_part_def [symmetric] Let_def n_def
    by (simp only: gap)
  show ?thesis
  proof (cases "sint (field_width f) > 0 \<and> pad_char f \<noteq> 0x2D")
    case True
    define v where "v = (if sint (field_width f - of_nat n) > 0 then 0 else field_width f - of_nat n)"
    have "sint (v - of_nat n) = sint v - int n" using nb less True by (intro sint_minus_nat) (simp add: v_def)
    then have z: "nat (sint (v - of_nat n)) = 0" by (simp add: v_def)
    define t where "t = fold putch (replicate (nat (sint (field_width f) - int n)) (pad_char f)) s"
    have t: "good t" using s by (simp add: t_def good_fold del: fold_replicate)
    have "pad_string putch (pad_char f) (field_width f - of_nat n) s = (v, t)"
      by (simp add: pad_string_fold less v_def t_def)
    moreover have "snd (pad_string putch 0x20 (v - of_nat n) r) = r" for r by (simp add: pad_string_fold z)
    ultimately have "convert_string mem putch f p s
        = Some (fold putch (map (shown_char (alt_flag f)) (shown_part (field_precision f) xs)) t)"
      using True by (simp add: convert_string_def len put [OF t] Let_def flip: q_def)
    then show ?thesis using True by (simp add: tx t_def Let_def)
  next
    case False
    then have "nat (sint (field_width f) - int n) = 0 \<or> pad_char f = 0x2D" by auto
    then show ?thesis
      using False s by (auto simp: convert_string_def put pad_string_fold tx less Let_def simp flip: q_def)
  qed
qed

lemma convert_text_correct:
  assumes "convert_text str ch f ap = Some r" and "good s" and "ch \<in> set conversions"
  shows "convert mem putch ch f ap s = Some (map_sum id (\<lambda>(out, ap). (fold putch out s, ap)) r)"
proof -
  have w: "- 1 \<le> sint (field_width f)" using assms(1) by (auto simp: convert_text_def Let_def split: if_splits)
  have num: "printnum putch num b (field_width f) pad t
      = Some (fold putch (number_text pad (sint (field_width f)) (unat b) (unat num)) t)"
    if "b = 10 \<or> b = 16" for num :: "64 word" and b pad t
  proof -
    have b: "2 \<le> unat b" using that by auto
    have "unat num < 2 ^ 64" using unsigned_less [of num, where 'a = nat] by simp
    also have "\<dots> \<le> unat b ^ 64" using b by (rule power_mono) simp
    finally have "length (digits (unat b) (unat num)) \<le> 64" by (intro digits_length [OF b]) simp_all
    then show ?thesis using w by (intro printnum_fold [OF b]) simp
  qed
  consider (number) "ch = 0x64 \<or> ch = 0x75 \<or> ch = 0x70 \<or> ch = 0x78"
    | (string) "ch = 0x73" | (other) "ch = 0x63 \<or> ch = 0x6F \<or> ch = 0x25"
    using assms(3) by (auto simp: conversions_def ascii_def)
  then show ?thesis
  proof cases
    case number
    then show ?thesis using assms(1) w
      by (elim disjE) (auto simp: convert_def convert_text_def rbind_def Let_def num split: sum.splits)
  next
    case string
    then show ?thesis using assms(1,2) w
      by (auto simp: convert_def convert_text_def Let_def convert_string_text split: sum.splits)
  next
    case other
    then show ?thesis using assms(1) w
      by (elim disjE) (auto simp: convert_def convert_text_def rbind_def Let_def split: sum.splits)
  qed
qed

lemma vprintfmt_convert:
  assumes "reswitch fresh_spec fmt ap = Inr (ch, f, rest, ap')" and "ch \<in> set conversions"
    and "convert_text str ch f ap' = Some r" and "good s"
  shows "vprintfmt mem putch (0x25 # fmt) ap s
     = (case r of Inl e \<Rightarrow> Some (Inl e) | Inr (out, ap) \<Rightarrow> vprintfmt mem putch rest ap (fold putch out s))"
proof -
  have "ch \<noteq> 0x65" using assms(2) by (auto simp: conversions_def ascii_def)
  then show ?thesis
    using convert_text_correct [OF assms(3,4,2)] assms(1,2)
    by (subst vprintfmt.simps) (auto simp: fmt_round_def split: sum.splits)
qed

lemma nested_number:
  assumes "0 \<le> sint err" and "good s"
  shows "vprintfmt mem putch (ascii ''%d'') [Word err] s
     = Some (Inr (fold putch (number_text 0x20 (- 1) 10 (unat err)) s))"
proof -
  have se: "sint (scast err :: 64 word) = sint err"
    using sint_lt [of err] sint_ge [of err] by (simp add: signed_scast_eq signed_take_bit_int_eq_self_iff)
  then have "uint (scast err :: 64 word) = uint err"
    using assms(1) uint_sint [of err] uint_sint [of "scast err :: 64 word"] sint_lt [of err]
    by (simp add: take_bit_int_eq_self_iff take_bit_int_eq_self)
  then have "unat (scast err :: 64 word) = unat err" by (simp flip: nat_uint_eq)
  then have "convert_text str 0x64 fresh_spec [Word err]
      = Some (Inr (number_text 0x20 (- 1) 10 (unat err), []))"
    using assms(1) se by (simp add: convert_text_def fresh_spec_def getint_def va_int_def Let_def)
  from vprintfmt_convert [OF _ _ this assms(2), of "[0x64]" "[Word err]" "[]"] show ?thesis
    by (simp add: ascii_def conversions_def vprintfmt.simps [of _ _ "[]"] fmt_round_def)
qed

lemma nested_string:
  assumes "0 \<notin> set xs" and "length xs < 2 ^ 30" and "good s"
  shows "vprintfmt mem putch (ascii ''%s'') [Literal xs] s = Some (Inr (fold putch (map scast xs) s))"
proof -
  have "shown_char False = scast" by (auto simp: shown_char_def Let_def)
  then have "convert_text str 0x73 fresh_spec [Literal xs] = Some (Inr (map scast xs, []))"
    using assms(1,2)
    by (simp add: convert_text_def fresh_spec_def va_pointer_def string_of_def string_text_def Let_def)
  from vprintfmt_convert [OF _ _ this assms(3), of "[0x73]" "[Literal xs]" "[]"] show ?thesis
    by (simp add: ascii_def conversions_def vprintfmt.simps [of _ _ "[]"] fmt_round_def)
qed

lemma error_message:
  assumes "0 \<le> sint err" and "good s"
  shows "vprintfmt mem putch
           (if sint err > sint MAXERROR \<or> error_string err = None then ascii ''error %d'' else ascii ''%s'')
           [if sint err > sint MAXERROR \<or> error_string err = None then Word err
            else Literal (the (error_string err))] s
         = Some (Inr (fold putch (error_text err) s))"
proof (cases "sint err > sint MAXERROR \<or> error_string err = None")
  case True
  have split: "ascii ''error %d'' = ascii ''error '' @ ascii ''%d''" by (simp add: ascii_def)
  have "vprintfmt mem putch (ascii ''error %d'') [Word err] s
      = vprintfmt mem putch (ascii ''%d'') [Word err] (fold putch (map ucast (ascii ''error '')) s)"
    unfolding split by (rule vprintfmt_plain) (simp_all add: ascii_def)
  also have "\<dots> = Some (Inr (fold putch (error_text err) s))"
    using assms True by (simp add: nested_number good_fold error_text_def)
  finally show ?thesis using True by simp
next
  case False
  then obtain xs where xs: "error_string err = Some xs" by auto
  then have "0 \<notin> set xs" "length xs < 2 ^ 30" using error_string_chars by blast+
  then show ?thesis using False xs assms(2) by (simp add: nested_string error_text_def)
qed

lemma vprintfmt_error:
  assumes "reswitch fresh_spec fmt ap = Inr (0x65, f, rest, ap')" and "va_int ap' = Inr (code, ap'')"
    and "err = (if sint code < 0 then - code else code)" and "0 \<le> sint err" and "good s"
  shows "vprintfmt mem putch (0x25 # fmt) ap s = vprintfmt mem putch rest ap'' (fold putch (error_text err) s)"
  using error_message [OF assms(4,5)] assms(1-4)
  by (subst vprintfmt.simps) (auto simp: fmt_round_def convert_error_def Let_def)

lemma escape_text:
  assumes F: "format_text str (0x25 # fmt) ap = Some r" and s: "good s"
    and step: "\<And>fmt' ap' out. length fmt' \<le> length fmt \<Longrightarrow> after_text out (format_text str fmt' ap') = Some r \<Longrightarrow>
      vprintfmt mem putch fmt' ap' (fold putch out s) = Some (map_sum id (\<lambda>out. fold putch out s) r)"
  shows "vprintfmt mem putch (0x25 # fmt) ap s = Some (map_sum id (\<lambda>out. fold putch out s) r)"
proof (cases "reswitch fresh_spec fmt ap")
  case (Inl e)
  then show ?thesis using F by (subst vprintfmt.simps) (auto simp: fmt_round_def format_text.simps)
next
  case (Inr x)
  then obtain ch f rs ap' where R: "reswitch fresh_spec fmt ap = Inr (ch, f, rs, ap')" by (cases x) auto
  note L = reswitch_shorter [OF R]
  consider "ch = 0x65" | "ch \<in> set conversions" "ch \<noteq> 0x65" | "ch \<notin> set conversions" "ch \<noteq> 0x65" by blast
  then show ?thesis
  proof cases
    case 1
    show ?thesis
    proof (cases "va_int ap'")
      case (Inl e)
      then show ?thesis using F R 1
        by (subst vprintfmt.simps) (auto simp: fmt_round_def convert_error_def format_text.simps)
    next
      case (Inr y)
      then obtain code ap'' where y: "va_int ap' = Inr (code, ap'')" by (cases y) auto
      define err where "err = (if sint code < 0 then - code else code)"
      show ?thesis
      proof (cases "sint err < 0")
        case True
        then show ?thesis using F R 1 y
          by (subst vprintfmt.simps) (auto simp: fmt_round_def convert_error_def format_text.simps Let_def err_def)
      next
        case False
        then have "after_text (error_text err) (format_text str rs ap'') = Some r"
          using F R 1 y by (simp add: format_text.simps Let_def flip: err_def)
        moreover have "vprintfmt mem putch (0x25 # fmt) ap s
            = vprintfmt mem putch rs ap'' (fold putch (error_text err) s)"
          using R 1 False by (intro vprintfmt_error [OF _ y err_def _ s]) auto
        ultimately show ?thesis using step [OF L] by simp
      qed
    qed
  next
    case 2
    with F R obtain q where q: "convert_text str ch f ap' = Some q"
      by (auto simp: format_text.simps split: option.splits)
    show ?thesis
      using vprintfmt_convert [OF R 2(1) q s] step [OF L] F R 2 q
      by (auto simp: format_text.simps split: sum.splits)
  next
    case 3
    have "vprintfmt mem putch (0x25 # fmt) ap s = vprintfmt mem putch fmt ap' (fold putch [0x25] s)"
      using 3 R by (subst vprintfmt.simps) (simp add: fmt_round_def)
    then show ?thesis using step [of fmt "[0x25]" ap'] F 3 R by (simp add: format_text.simps)
  qed
qed

lemma vprintfmt_text:
  "format_text str fmt ap = Some r \<Longrightarrow> good s \<Longrightarrow>
   vprintfmt mem putch fmt ap s = Some (map_sum id (\<lambda>out. fold putch out s) r)"
proof (induction "length fmt" arbitrary: fmt ap s r rule: less_induct)
  case less
  have step: "vprintfmt mem putch fmt' ap' (fold putch out s) = Some (map_sum id (\<lambda>out. fold putch out s) r)"
    if "length fmt' < length fmt" "after_text out (format_text str fmt' ap') = Some r" for fmt' ap' out
    using less.hyps [OF that(1) _ good_fold [OF less.prems(2), of out]] that(2)
    by (auto simp: after_text_def sum.map_comp o_def id_def)
  show ?case
  proof (cases fmt)
    case Nil
    then show ?thesis using less.prems(1)
      by (subst vprintfmt.simps) (auto simp: fmt_round_def format_text.simps)
  next
    case (Cons c rest)
    consider "c = 0" | "c \<noteq> 0" "c \<noteq> 0x25" | "c = 0x25" by blast
    then show ?thesis
    proof cases
      case 1
      then show ?thesis using less.prems(1) Cons
        by (subst vprintfmt.simps) (auto simp: fmt_round_def format_text.simps)
    next
      case 2
      have "vprintfmt mem putch fmt ap s = vprintfmt mem putch rest ap (fold putch [ucast c] s)"
        using 2 Cons by (subst vprintfmt.simps) (simp add: fmt_round_def)
      then show ?thesis using step [of rest "[ucast c]" ap] less.prems(1) 2 Cons by (simp add: format_text.simps)
    next
      case 3
      then show ?thesis using escape_text [of rest ap r s] step less.prems Cons by simp
    qed
  qed
qed

end

end
