(* ===== verification/FOS_Sprintf.thy ===== *)
theory FOS_Sprintf
  imports FOS_Printf
begin

text \<open>
  Printing into a buffer: vsnprintf() and snprintf() of lib/printfmt.c. Their putch() function is a
  \<open>character_sink\<close>, so what they write follows from the text of the format.
\<close>

section \<open>Printing into a buffer\<close>

record sprintbuf =
  sb_mem :: bytes
  sb_buf :: u32
  sb_ebuf :: u32
  sb_cnt :: u32

definition sprintputch :: "u32 \<Rightarrow> sprintbuf \<Rightarrow> sprintbuf" where
  "sprintputch ch b =
     (let b = b\<lparr>sb_cnt := sb_cnt b + 1\<rparr> in
      if sb_buf b < sb_ebuf b
      then b\<lparr>sb_mem := (sb_mem b)(sb_buf b := ucast ch), sb_buf := sb_buf b + 1\<rparr> else b)"

text \<open>The value returned and the memory afterwards.\<close>

definition vsnprintf :: "bytes \<Rightarrow> u32 \<Rightarrow> u32 \<Rightarrow> u8 list \<Rightarrow> va list \<Rightarrow> (u32 \<times> bytes) result option" where
  "vsnprintf m buf n fmt ap =
     (if buf = 0 \<or> sint n < 1 then Some (Inr (- E_INVAL, m))
      else map_option (map_sum id (\<lambda>b. (sb_cnt b, (sb_mem b)(sb_buf b := 0))))
             (vprintfmt sb_mem sprintputch fmt ap
                \<lparr>sb_mem = m, sb_buf = buf, sb_ebuf = buf + n - 1, sb_cnt = 0\<rparr>))"

definition snprintf :: "bytes \<Rightarrow> u32 \<Rightarrow> u32 \<Rightarrow> u8 list \<Rightarrow> va list \<Rightarrow> (u32 \<times> bytes) result option" where
  "snprintf m buf n fmt args = vsnprintf m buf n fmt args"

text \<open>The strings \<open>str\<close> are in memory, outside the part of the buffer that is still to be filled.\<close>

definition sprint_good :: "(u32 \<Rightarrow> u8 list option) \<Rightarrow> sprintbuf \<Rightarrow> bool" where
  "sprint_good str b \<longleftrightarrow>
     (\<forall>p xs. str p = Some xs \<longrightarrow> cstr (sb_mem b) p xs \<and> length xs < 2 ^ 30
        \<and> (\<forall>i \<le> length xs. \<not> (sb_buf b \<le> p + of_nat i \<and> p + of_nat i < sb_ebuf b)))"

lemma sprint_good_putch:
  assumes "sprint_good str b"
  shows "sprint_good str (sprintputch c b)"
proof (cases "sb_buf b < sb_ebuf b")
  case True
  show ?thesis
    unfolding sprint_good_def
  proof (intro allI impI)
    fix p xs
    assume "str p = Some xs"
    with assms have s: "cstr (sb_mem b) p xs" "length xs < 2 ^ 30"
      and out: "\<And>i. i \<le> length xs \<Longrightarrow> \<not> (sb_buf b \<le> p + of_nat i \<and> p + of_nat i < sb_ebuf b)"
      unfolding sprint_good_def by blast+
    have "p + of_nat i \<noteq> sb_buf b" if "i \<le> length xs" for i using out [OF that] True by auto
    then have "cstr (sb_mem (sprintputch c b)) p xs = cstr (sb_mem b) p xs"
      using True by (intro cstr_cong) (simp add: sprintputch_def)
    moreover have "sb_buf b \<le> sb_buf b + 1" using True by (simp add: word_le_nat_alt unat_plus1_less)
    then have "\<not> (sb_buf (sprintputch c b) \<le> p + of_nat i \<and> p + of_nat i < sb_ebuf (sprintputch c b))"
      if "i \<le> length xs" for i
      using out [OF that] True by (auto simp: sprintputch_def Let_def)
    ultimately show "cstr (sb_mem (sprintputch c b)) p xs \<and> length xs < 2 ^ 30
        \<and> (\<forall>i \<le> length xs. \<not> (sb_buf (sprintputch c b) \<le> p + of_nat i \<and> p + of_nat i < sb_ebuf (sprintputch c b)))"
      using s by blast
  qed
next
  case False
  then show ?thesis using assms by (simp add: sprint_good_def sprintputch_def)
qed

interpretation sprint: character_sink sb_mem sprintputch "sprint_good str" str
  for str
proof
  show "sprint_good str (sprintputch c s)" if "sprint_good str s" for s c
    using that by (rule sprint_good_putch)
  show "cstr (sb_mem s) p xs \<and> length xs < 2 ^ 30" if "sprint_good str s" "str p = Some xs" for s p xs
    using that unfolding sprint_good_def by blast
qed

text \<open>What any sequence of characters leaves in the buffer.\<close>

lemma fold_sprintputch:
  "sb_buf b \<le> sb_ebuf b \<Longrightarrow>
   fold sprintputch out b =
     (let k = unat (sb_ebuf b - sb_buf b) in
      b\<lparr>sb_mem := put (sb_mem b) (sb_buf b) (take k (map ucast out)),
        sb_buf := sb_buf b + of_nat (min k (length out)), sb_cnt := sb_cnt b + of_nat (length out)\<rparr>)"
proof (induction out arbitrary: b)
  case (Cons c out)
  show ?case
  proof (cases "sb_buf b < sb_ebuf b")
    case True
    have le: "sb_buf b + 1 \<le> sb_ebuf b" using True by (rule plus1_le_less)
    have "sb_ebuf b - sb_buf b \<noteq> 0" using True by auto
    then have "unat (sb_ebuf b - sb_buf b) = Suc (unat (sb_ebuf b - sb_buf b - 1))"
      using unat_minus_1 [of "sb_ebuf b - sb_buf b"] by (simp add: unat_gt_0)
    then have k: "unat (sb_ebuf b - sb_buf b) = Suc (unat (sb_ebuf b - (sb_buf b + 1)))"
      by (simp add: algebra_simps)
    have c: "sprintputch c b
        = b\<lparr>sb_cnt := sb_cnt b + 1, sb_mem := (sb_mem b)(sb_buf b := ucast c), sb_buf := sb_buf b + 1\<rparr>"
      using True by (simp add: sprintputch_def)
    show ?thesis using Cons.IH [of "sprintputch c b"] le by (simp add: c Let_def k add.assoc fun_upd_def)
  next
    case False
    then have "sb_ebuf b = sb_buf b" using Cons.prems by simp
    moreover from this have "sprintputch c b = b\<lparr>sb_cnt := sb_cnt b + 1\<rparr>" by (simp add: sprintputch_def)
    ultimately show ?thesis using Cons.IH [of "sprintputch c b"] by (simp add: add.assoc)
  qed
qed simp

lemma put_snoc: "put m p (xs @ [x]) = (put m p xs)(p + of_nat (length xs) := x)"
  by (induction m p xs rule: put.induct) (simp_all add: algebra_simps fun_upd_def)

lemma cstr_put: "length xs < 2 ^ 32 \<Longrightarrow> 0 \<notin> set xs \<Longrightarrow> cstr (put m p (xs @ [0])) p xs"
  by (rule cstr_intro) (simp_all add: put_at unat_of_nat_u32 nth_append)

lemma vsnprintf_text:
  assumes "buf \<noteq> 0" and "1 \<le> sint n" and "unat buf + unat n \<le> 2 ^ 32"
    and "sprint_good str \<lparr>sb_mem = m, sb_buf = buf, sb_ebuf = buf + n - 1, sb_cnt = 0\<rparr>"
    and "format_text str fmt ap = Some (Inr out)"
  shows "vsnprintf m buf n fmt ap
    = Some (Inr (of_nat (length out), put m buf (take (unat n - 1) (map ucast out) @ [0])))"
proof -
  have n: "n \<noteq> 0" using assms(2) by auto
  then have n1: "unat (n - 1) = unat n - 1" "0 < unat n" by (simp_all add: unat_minus_1 unat_gt_0)
  have "unat (buf + (n - 1)) = unat buf + unat (n - 1)" using assms(3) n1 by (intro unat_add_u32) simp
  then have le: "buf \<le> buf + n - 1" by (simp add: word_le_nat_alt add_diff_eq)
  let ?b = "\<lparr>sb_mem = m, sb_buf = buf, sb_ebuf = buf + n - 1, sb_cnt = 0\<rparr>"
  have "vprintfmt sb_mem sprintputch fmt ap ?b = Some (Inr (fold sprintputch out ?b))"
    using sprint.vprintfmt_text [OF assms(5,4)] by simp
  moreover have "unat (sb_ebuf ?b - sb_buf ?b) = unat n - 1" using n1 by simp
  ultimately show ?thesis
    using assms(1,2) le by (simp add: vsnprintf_def fold_sprintputch Let_def put_snoc min.commute)
qed

section \<open>Decimal numbers\<close>

lemma sint_scast64: "sint (scast (w :: u32) :: 64 word) = sint w"
  using sint_lt [of w] sint_ge [of w] by (simp add: signed_scast_eq signed_take_bit_int_eq_self_iff)

lemma unat_abs64: "unat (if sint w < 0 then - scast (w :: u32) else scast w :: 64 word) = nat \<bar>sint w\<bar>"
proof -
  have w: "sint w < 2147483648" "- 2147483648 \<le> sint w"
    using sint_lt [of w] sint_ge [of w] by simp_all
  have e: "(scast w :: 64 word) = word_of_int (sint w)" by (rule scast_eq)
  have "(if sint w < 0 then - scast w else scast w :: 64 word) = word_of_int \<bar>sint w\<bar>"
    unfolding e by (cases "sint w < 0") (simp_all only: abs_if wi_hom_neg if_True if_False)
  moreover have "unat (word_of_int \<bar>sint w\<bar> :: 64 word) = nat \<bar>sint w\<bar>"
    using w by (simp add: uint_word_of_int_eq take_bit_int_eq_self flip: nat_uint_eq)
  ultimately show ?thesis by simp
qed

lemma hex_digits_bytes:
  "hex_digits = [0x30, 0x31, 0x32, 0x33, 0x34, 0x35, 0x36, 0x37, 0x38, 0x39, 0x61, 0x62, 0x63, 0x64, 0x65, 0x66]"
  by (simp add: hex_digits_def ascii_def)

lemma less_10_cases:
  "(d :: nat) < 10 \<Longrightarrow> d = 0 \<or> d = 1 \<or> d = 2 \<or> d = 3 \<or> d = 4 \<or> d = 5 \<or> d = 6 \<or> d = 7 \<or> d = 8 \<or> d = 9"
  by presburger

lemma digit_byte_decimal: "d < 10 \<Longrightarrow> ucast (digit_byte d) = digit_char d"
proof -
  assume "d < 10"
  then show ?thesis
    by (elim less_10_cases [THEN disjE] disjE) (simp_all add: digit_byte_def hex_digits_bytes digit_char_def)
qed

lemma decimal_text:
  "format_text str (ascii ''%d'') [Word w]
     = Some (Inr ((if sint w < 0 then [0x2D] else []) @ map digit_byte (digits 10 (nat \<bar>sint w\<bar>))))"
  using unat_abs64 [of w]
  by (simp add: ascii_def format_text.simps convert_text_def fresh_spec_def getint_def va_int_def Let_def
      sint_scast64 number_text_def after_text_def conversions_def split: if_splits)

lemma foldl_of_nat:
  "foldl (\<lambda>val d. val * 10 + of_nat d) (of_nat v) ds = (of_nat (foldl (\<lambda>v d. v * 10 + d) v ds) :: u32)"
proof (induction ds arbitrary: v)
  case (Cons d ds)
  show ?case using Cons.IH [of "v * 10 + d"] by (simp add: algebra_simps)
qed simp

lemma signed_abs: "(if sint w < 0 then - of_nat (nat \<bar>sint w\<bar>) else of_nat (nat \<bar>sint w\<bar>)) = (w :: u32)"
  using word_of_int_sint [of w] by (simp add: abs_if)

lemma snprintf_decimal:
  fixes w :: u32
  assumes "buf \<noteq> 0" and "12 \<le> sint n" and "unat buf + unat n \<le> 2 ^ 32"
  defines "ds \<equiv> digits 10 (nat \<bar>sint w\<bar>)"
  defines "xs \<equiv> (if sint w < 0 then [0x2D] else []) @ map digit_char ds"
  shows "snprintf m buf n (ascii ''%d'') [Word w] = Some (Inr (of_nat (length xs), put m buf (xs @ [0])))"
    and "length xs \<le> 11"
proof -
  have "nat \<bar>sint w\<bar> < 10 ^ 10" using sint_lt [of w] sint_ge [of w] by auto
  then have "length ds \<le> 10" unfolding ds_def by (intro digits_length) simp_all
  then show l: "length xs \<le> 11" by (simp add: xs_def)
  define out where "out = (if sint w < 0 then [0x2D] else []) @ map digit_byte ds"
  have ft: "format_text (\<lambda>_. None) (ascii ''%d'') [Word w] = Some (Inr out)"
    using decimal_text by (simp add: out_def ds_def)
  have "map ucast (map digit_byte ds) = map digit_char ds"
    using digits_less [of 10] digit_byte_decimal by (simp add: ds_def)
  then have xs: "map ucast out = xs" "length out = length xs" by (auto simp: out_def xs_def)
  have "12 \<le> unat n" using assms(2) by (simp add: unat_signed)
  then have "take (unat n - 1) xs = xs" using l by simp
  then show "snprintf m buf n (ascii ''%d'') [Word w] = Some (Inr (of_nat (length xs), put m buf (xs @ [0])))"
    using vsnprintf_text [OF assms(1) _ assms(3) _ ft, of m] assms(2) xs
    by (simp add: snprintf_def sprint_good_def)
qed

section \<open>Properties\<close>

text \<open>
  C32. vsnprintf() into a buffer of n bytes that does not wrap around the address space returns the
  number of characters of the text of the format, whatever n is, and writes the first n - 1 of them
  followed by a NUL at the start of the buffer and nothing else.
\<close>

theorem vsnprintf_bounded:
  assumes "buf \<noteq> 0" and "1 \<le> sint n" and "unat buf + unat n \<le> 2 ^ 32"
    and "sprint_good str \<lparr>sb_mem = m, sb_buf = buf, sb_ebuf = buf + n - 1, sb_cnt = 0\<rparr>"
    and "format_text str fmt ap = Some (Inr out)"
  shows "\<exists>m'. vsnprintf m buf n fmt ap = Some (Inr (of_nat (length out), m'))
    \<and> (let k = min (unat n - 1) (length out) in
         (\<forall>i < k. m' (buf + of_nat i) = ucast (out ! i)) \<and> m' (buf + of_nat k) = 0
         \<and> (\<forall>a. unat (a - buf) \<ge> k + 1 \<longrightarrow> m' a = m a))"
proof -
  define k where "k = min (unat n - 1) (length out)"
  define m' where "m' = put m buf (take (unat n - 1) (map ucast out) @ [0])"
  have k: "k < 2 ^ 32 - 1" using unat_u32_less [of n] assms(2) by (auto simp: k_def unat_signed)
  have at: "m' a = (if unat (a - buf) < k then ucast (out ! unat (a - buf))
      else if unat (a - buf) = k then 0 else m a)" for a
    using k by (auto simp: m'_def put_at nth_append k_def)
  have "vsnprintf m buf n fmt ap = Some (Inr (of_nat (length out), m'))"
    unfolding m'_def using assms by (rule vsnprintf_text)
  moreover have "\<forall>i < k. m' (buf + of_nat i) = ucast (out ! i)" "m' (buf + of_nat k) = 0"
    "\<forall>a. unat (a - buf) \<ge> k + 1 \<longrightarrow> m' a = m a"
    using k by (auto simp: at unat_of_nat_u32)
  ultimately show ?thesis unfolding Let_def k_def by blast
qed

text \<open>A sample: a string at address 200, printed with a number into a buffer of six bytes.\<close>

definition sample_memory :: bytes where "sample_memory = put (\<lambda>_. 0) 200 (ascii ''ab'')"

definition sample_strings :: "u32 \<Rightarrow> u8 list option" where
  "sample_strings p = (if p = 200 then Some (ascii ''ab'') else None)"

lemma sample_format:
  "format_text sample_strings (ascii ''%4s=%x'') [Word 200, Word 255] = Some (Inr [0x20, 0x20, 0x61, 0x62, 0x3D, 0x66, 0x66])"
  by code_simp

theorem vsnprintf_bounded_witness:
  "\<exists>m'. vsnprintf sample_memory 64 6 (ascii ''%4s=%x'') [Word 200, Word 255] = Some (Inr (7, m'))
    \<and> m' 66 = 0x61 \<and> m' 68 = 0x3D \<and> m' 69 = 0 \<and> m' 200 = 0x61"
proof -
  have g: "sprint_good sample_strings \<lparr>sb_mem = sample_memory, sb_buf = 64, sb_ebuf = 64 + 6 - 1, sb_cnt = 0\<rparr>"
    by (auto simp: sprint_good_def sample_strings_def sample_memory_def ascii_def le_Suc_eq split: if_splits)
  have b: "(64 :: u32) \<noteq> 0" "1 \<le> sint (6 :: u32)" "unat (64 :: u32) + unat (6 :: u32) \<le> 2 ^ 32" by simp_all
  obtain m' where r: "vsnprintf sample_memory 64 6 (ascii ''%4s=%x'') [Word 200, Word 255] = Some (Inr (7, m'))"
    and c: "\<forall>i < 5. m' (64 + of_nat i) = ucast ([0x20, 0x20, 0x61, 0x62, 0x3D, 0x66, 0x66 :: u32] ! i)"
    and z: "m' 69 = 0" and o: "\<forall>a. unat (a - 64) \<ge> 6 \<longrightarrow> m' a = sample_memory a"
    using vsnprintf_bounded [OF b g sample_format] by (auto simp: Let_def)
  have "m' 66 = 0x61" "m' 68 = 0x3D" using c [rule_format, of 2] c [rule_format, of 4] by simp_all
  moreover have "m' 200 = 0x61" using o [rule_format, of 200] by (simp add: sample_memory_def ascii_def)
  ultimately show ?thesis using r z by blast
qed

text \<open>
  C33. Printing an int with the format %d into a buffer of at least 12 bytes and reading it back with
  strtol() in base 10 gives the number again, the least one included, and reads all that was written.
\<close>

theorem snprintf_strtol:
  assumes "buf \<noteq> 0" and "12 \<le> sint n" and "unat buf + unat n \<le> 2 ^ 32"
  shows "\<exists>len m'. snprintf m buf n (ascii ''%d'') [Word w] = Some (Inr (len, m'))
    \<and> strtol m' buf 10 = Some (w, buf + len)"
proof -
  let ?ds = "digits 10 (nat \<bar>sint w\<bar>)"
  let ?xs = "(if sint w < 0 then [0x2D] else []) @ map digit_char ?ds"
  note S = snprintf_decimal(1) [OF assms, of m w] snprintf_decimal(2) [OF assms, of w]
  have ds: "\<forall>d \<in> set ?ds. d < 10" "?ds \<noteq> []" using digits_less [of 10] by (auto simp: digits_nonempty)
  then have "0 \<notin> set ?xs" using digit_char_nonzero by auto
  then have "cstr (put m buf (?xs @ [0])) buf ?xs" using S(2) by (intro cstr_put) simp_all
  from strtol_decimal [OF ds this]
  have "strtol (put m buf (?xs @ [0])) buf 10 = Some (w, buf + of_nat (length ?xs))"
    using foldl_of_nat [of 0 ?ds] digits_value [of 10 "nat \<bar>sint w\<bar>"] signed_abs [of w]
    by (simp split: if_splits)
  then show ?thesis using S(1) by blast
qed

theorem snprintf_strtol_witness:
  "\<exists>len m'. snprintf (\<lambda>_. 0) 64 16 (ascii ''%d'') [Word (- 2147483648)] = Some (Inr (len, m'))
    \<and> strtol m' 64 10 = Some (- 2147483648, 64 + len)"
  by (rule snprintf_strtol) simp_all

end
