(* ===== verification/FOS_UserIO.thy ===== *)
theory FOS_UserIO
  imports FOS_Printf
begin

text \<open>
  Console input and output of user programs: vcprintf(), cprintf() and atomic_cprintf() of
  lib/printf.c, cputchar() and getchar() of lib/console.c and readline() of lib/readline.c, with their
  atomic variants. The system calls they make are recorded in order; what sys_cgetc() returns, call
  by call, is a list given from outside, and reading past its end is a loop that never leaves. A local
  array is a list of bytes, and an access outside it an error.
\<close>

section \<open>System calls\<close>

datatype ucall =
    Sys_cputs "u8 list"
  | Sys_cputc u8
  | Sys_cgetc
  | Sys_disable_interrupt
  | Sys_enable_interrupt

section \<open>Formatted output\<close>

record printbuf =
  pb_mem :: bytes
  pb_idx :: u32
  pb_cnt :: u32
  pb_buf :: "u8 list"
  pb_calls :: "ucall list"

text \<open>sys_cputs(b.buf, b.idx)\<close>

definition flush_buffer :: "printbuf \<Rightarrow> printbuf" where
  "flush_buffer b = b\<lparr>pb_calls := pb_calls b @ [Sys_cputs (take (unat (pb_idx b)) (pb_buf b))]\<rparr>"

definition user_putch :: "u32 \<Rightarrow> printbuf result \<Rightarrow> printbuf result" where
  "user_putch ch s =
     rbind s (\<lambda>b.
     if unat (pb_idx b) < length (pb_buf b) then
       let b = b\<lparr>pb_buf := (pb_buf b)[unat (pb_idx b) := ucast ch], pb_idx := pb_idx b + 1\<rparr>;
           b = (if pb_idx b = 256 - 1 then (flush_buffer b)\<lparr>pb_idx := 0\<rparr> else b)
       in Inr (b\<lparr>pb_cnt := pb_cnt b + 1\<rparr>)
     else Inl (Out_of_bounds ''printbuf''))"

definition buffer_mem :: "printbuf result \<Rightarrow> bytes" where
  "buffer_mem s = (case s of Inl e \<Rightarrow> (\<lambda>_. 0) | Inr b \<Rightarrow> pb_mem b)"

text \<open>\<open>buf\<close> is what the stack holds where the array of 256 bytes is.\<close>

definition user_vcprintf ::
  "bytes \<Rightarrow> u8 list \<Rightarrow> u8 list \<Rightarrow> va list \<Rightarrow> ucall list \<Rightarrow> (u32 \<times> ucall list) result option" where
  "user_vcprintf m buf fmt ap calls =
     map_option (\<lambda>r. rbind r (\<lambda>s. rbind s (\<lambda>b. Inr (pb_cnt b, pb_calls (flush_buffer b)))))
       (vprintfmt buffer_mem user_putch fmt ap
          (Inr \<lparr>pb_mem = m, pb_idx = 0, pb_cnt = 0, pb_buf = buf, pb_calls = calls\<rparr>))"

definition user_cprintf ::
  "bytes \<Rightarrow> u8 list \<Rightarrow> u8 list \<Rightarrow> va list \<Rightarrow> ucall list \<Rightarrow> (u32 \<times> ucall list) result option" where
  "user_cprintf m buf fmt args calls = user_vcprintf m buf fmt args calls"

definition atomic_cprintf ::
  "bytes \<Rightarrow> u8 list \<Rightarrow> u8 list \<Rightarrow> va list \<Rightarrow> ucall list \<Rightarrow> (u32 \<times> ucall list) result option" where
  "atomic_cprintf m buf fmt args calls =
     map_option (\<lambda>r. rbind r (\<lambda>(cnt, calls). Inr (cnt, calls @ [Sys_enable_interrupt])))
       (user_vcprintf m buf fmt args (calls @ [Sys_disable_interrupt]))"

section \<open>Characters\<close>

record uconsole =
  uc_calls :: "ucall list"
  uc_keys :: "u32 list"

definition call_sys :: "ucall \<Rightarrow> uconsole \<Rightarrow> uconsole" where
  "call_sys c u = u\<lparr>uc_calls := uc_calls u @ [c]\<rparr>"

definition user_cputchar :: "u32 \<Rightarrow> uconsole \<Rightarrow> uconsole" where
  "user_cputchar ch u = call_sys (Sys_cputc (ucast ch)) u"

definition atomic_cputchar :: "u32 \<Rightarrow> uconsole \<Rightarrow> uconsole" where
  "atomic_cputchar ch u =
     call_sys Sys_enable_interrupt (call_sys (Sys_cputc (ucast ch)) (call_sys Sys_disable_interrupt u))"

text \<open>The loop of getchar(), on the values that sys_cgetc() is going to return.\<close>

fun getchar_loop :: "u32 list \<Rightarrow> ucall list \<Rightarrow> (u32 \<times> uconsole) result" where
  "getchar_loop [] calls = Inl Diverges"
| "getchar_loop (c # keys) calls =
     (if c = 0 then getchar_loop keys (calls @ [Sys_cgetc])
      else Inr (c, \<lparr>uc_calls = calls @ [Sys_cgetc], uc_keys = keys\<rparr>))"

definition user_getchar :: "uconsole \<Rightarrow> (u32 \<times> uconsole) result" where
  "user_getchar u = getchar_loop (uc_keys u) (uc_calls u)"

definition atomic_getchar :: "uconsole \<Rightarrow> (u32 \<times> uconsole) result" where
  "atomic_getchar u =
     rbind (user_getchar (call_sys Sys_disable_interrupt u)) (\<lambda>(c, u).
     Inr (c, call_sys Sys_enable_interrupt u))"

definition user_iscons :: "u32 \<Rightarrow> bool" where "user_iscons fdnum = True"

section \<open>Reading a line\<close>

definition UBUFLEN :: nat where "UBUFLEN = 1024"

definition E_EOF :: u32 where "E_EOF = - 7"

text \<open>cprintf() on the console: the memory its strings are in and the stack its buffer is on are given.\<close>

definition print_user :: "bytes \<Rightarrow> u8 list \<Rightarrow> u8 list \<Rightarrow> va list \<Rightarrow> uconsole \<Rightarrow> uconsole result" where
  "print_user m stack fmt args u =
     (case user_cprintf m stack fmt args (uc_calls u) of
        None \<Rightarrow> Inl Diverges
      | Some r \<Rightarrow> rbind r (\<lambda>(cnt, calls). Inr (u\<lparr>uc_calls := calls\<rparr>)))"

text \<open>
  One character of the loop of readline(), with the array and the index: \<open>Inl\<close> when the function
  returns.
\<close>

definition readline_char ::
  "bytes \<Rightarrow> u8 list \<Rightarrow> bool \<Rightarrow> u32 \<Rightarrow> u8 list \<Rightarrow> nat \<Rightarrow> uconsole
     \<Rightarrow> (u8 list \<times> uconsole + u8 list \<times> nat \<times> uconsole) result" where
  "readline_char m stack echoing c buf i u =
     (let echo = (if echoing then user_cputchar c u else u) in
      if sint c < 0 then
        if c \<noteq> - E_EOF
        then rbind (print_user m stack (ascii ''read error: %e'' @ [0x0A]) [Word c] u) (\<lambda>u. Inr (Inl (buf, u)))
        else Inr (Inl (buf, u))
      else if sint c \<ge> 0x20 \<and> i < UBUFLEN - 1 then
        if i < length buf then Inr (Inr (buf[i := ucast c], i + 1, echo)) else Inl (Out_of_bounds ''readline'')
      else if c = 0x08 \<and> i > 0 then Inr (Inr (buf, i - 1, echo))
      else if c = 0x0A \<or> c = 0x0D then
        if i < length buf then Inr (Inl (buf[i := 0], echo)) else Inl (Out_of_bounds ''readline'')
      else Inr (Inr (buf, i, u)))"

lemma getchar_loop_shorter: "getchar_loop ks calls = Inr (c, u) \<Longrightarrow> length (uc_keys u) < length ks"
  by (induction ks calls rule: getchar_loop.induct) (auto split: if_splits)

lemma readline_char_keys:
  "readline_char m stack echoing c buf i u = Inr (Inr (buf', i', u')) \<Longrightarrow> uc_keys u' = uc_keys u"
  by (auto simp: readline_char_def user_cputchar_def call_sys_def Let_def split: if_splits)

function readline_loop ::
  "bytes \<Rightarrow> u8 list \<Rightarrow> bool \<Rightarrow> u8 list \<Rightarrow> nat \<Rightarrow> uconsole \<Rightarrow> (u8 list \<times> uconsole) result" where
  "readline_loop m stack echoing buf i u =
     rbind (user_getchar u) (\<lambda>(c, u).
     rbind (readline_char m stack echoing c buf i u) (\<lambda>r.
     case r of Inl line \<Rightarrow> Inr line | Inr (buf, i, u) \<Rightarrow> readline_loop m stack echoing buf i u))"
  by pat_completeness auto
termination
  by (relation "measure (\<lambda>(m, stack, echoing, buf, i, u). length (uc_keys u))")
     (auto simp: user_getchar_def dest!: getchar_loop_shorter readline_char_keys)

declare readline_loop.simps [simp del]

definition user_readline ::
  "bytes \<Rightarrow> u8 list \<Rightarrow> va option \<Rightarrow> u8 list \<Rightarrow> uconsole \<Rightarrow> (u8 list \<times> uconsole) result" where
  "user_readline m stack prompt buf u =
     rbind (case prompt of None \<Rightarrow> Inr u | Some p \<Rightarrow> print_user m stack (ascii ''%s'') [p] u) (\<lambda>u.
     readline_loop m stack (user_iscons 0) buf 0 u)"

definition atomic_readline ::
  "bytes \<Rightarrow> u8 list \<Rightarrow> va option \<Rightarrow> u8 list \<Rightarrow> uconsole \<Rightarrow> (u8 list \<times> uconsole) result" where
  "atomic_readline m stack prompt buf u =
     rbind (user_readline m stack prompt buf (call_sys Sys_disable_interrupt u)) (\<lambda>(buf, u).
     Inr (buf, call_sys Sys_enable_interrupt u))"

section \<open>The buffered output\<close>

definition print_good :: "(u32 \<Rightarrow> u8 list option) \<Rightarrow> printbuf result \<Rightarrow> bool" where
  "print_good str s \<longleftrightarrow>
     (case s of Inl e \<Rightarrow> False
      | Inr b \<Rightarrow> unat (pb_idx b) < 255 \<and> length (pb_buf b) = 256
          \<and> (\<forall>p xs. str p = Some xs \<longrightarrow> cstr (pb_mem b) p xs \<and> length xs < 2 ^ 30))"

text \<open>The characters that were put since the calls \<open>calls\<close>: those handed over and those in the buffer.\<close>

definition put_since :: "ucall list \<Rightarrow> u8 list \<Rightarrow> printbuf \<Rightarrow> bool" where
  "put_since calls xs b \<longleftrightarrow>
     (\<exists>cs. pb_calls b = calls @ map Sys_cputs cs \<and> (\<forall>c \<in> set cs. length c = 255)
        \<and> xs = concat cs @ take (unat (pb_idx b)) (pb_buf b) \<and> pb_cnt b = of_nat (length xs))"

lemma user_putch_good:
  assumes "print_good str (Inr b)"
  shows "print_good str (user_putch c (Inr b))"
proof -
  have i: "unat (pb_idx b) < 255" "length (pb_buf b) = 256" using assms by (simp_all add: print_good_def)
  then have "unat (pb_idx b + 1) = unat (pb_idx b) + 1" by (intro unat_plus1_less [of _ 255]) (simp add: word_less_nat_alt)
  moreover have "pb_idx b + 1 = 255 \<longleftrightarrow> unat (pb_idx b + 1) = 255" by (auto simp: word_unat_eq_iff)
  ultimately show ?thesis using assms i by (auto simp: print_good_def user_putch_def flush_buffer_def Let_def)
qed

lemma user_putch_since:
  assumes "unat (pb_idx b) < 255" "length (pb_buf b) = 256" and "put_since calls xs b"
  shows "\<exists>b'. user_putch c (Inr b) = Inr b' \<and> put_since calls (xs @ [ucast c]) b'"
proof -
  obtain cs where cs: "pb_calls b = calls @ map Sys_cputs cs" "\<forall>c \<in> set cs. length c = 255"
    "xs = concat cs @ take (unat (pb_idx b)) (pb_buf b)" "pb_cnt b = of_nat (length xs)"
    using assms(3) unfolding put_since_def by blast
  define buf where "buf = (pb_buf b)[unat (pb_idx b) := ucast c]"
  have i: "unat (pb_idx b + 1) = unat (pb_idx b) + 1"
    using assms(1) by (intro unat_plus1_less [of _ 255]) (simp add: word_less_nat_alt)
  have t: "take (unat (pb_idx b) + 1) buf = take (unat (pb_idx b)) (pb_buf b) @ [ucast c]"
    using assms(1,2) by (simp add: buf_def take_Suc_conv_app_nth)
  show ?thesis
  proof (cases "pb_idx b + 1 = 255")
    case True
    then have u: "unat (pb_idx b) + 1 = 255" "pb_idx b = 254" using i by (simp_all add: word_unat_eq_iff)
    have "put_since calls (xs @ [ucast c])
        (b\<lparr>pb_buf := buf, pb_calls := pb_calls b @ [Sys_cputs (take 255 buf)], pb_idx := 0, pb_cnt := pb_cnt b + 1\<rparr>)"
      unfolding put_since_def using cs t u assms(2)
      by (intro exI [of _ "cs @ [take 255 buf]"]) (auto simp: buf_def)
    then show ?thesis using True assms(1,2) by (auto simp: user_putch_def flush_buffer_def Let_def buf_def)
  next
    case False
    have "put_since calls (xs @ [ucast c]) (b\<lparr>pb_buf := buf, pb_idx := pb_idx b + 1, pb_cnt := pb_cnt b + 1\<rparr>)"
      unfolding put_since_def using cs t i by (intro exI [of _ cs]) simp
    then show ?thesis using False assms(1,2) by (auto simp: user_putch_def Let_def buf_def)
  qed
qed

interpretation uprint: character_sink buffer_mem user_putch "print_good str" str
  for str
proof
  show "print_good str (user_putch c s)" if "print_good str s" for s c
    using that by (cases s) (simp add: print_good_def, simp add: user_putch_good)
  show "cstr (buffer_mem s) p xs \<and> length xs < 2 ^ 30" if "print_good str s" "str p = Some xs" for s p xs
    using that by (auto simp: print_good_def buffer_mem_def split: sum.splits)
qed

lemma fold_user_putch:
  "print_good str (Inr b) \<Longrightarrow> put_since calls xs b \<Longrightarrow>
   \<exists>b'. fold user_putch out (Inr b) = Inr b' \<and> put_since calls (xs @ map ucast out) b'
     \<and> print_good str (Inr b')"
proof (induction out arbitrary: b xs)
  case (Cons c out)
  have "unat (pb_idx b) < 255" "length (pb_buf b) = 256" using Cons.prems(1) by (simp_all add: print_good_def)
  then obtain b' where b': "user_putch c (Inr b) = Inr b'" "put_since calls (xs @ [ucast c]) b'"
    using user_putch_since Cons.prems(2) by blast
  then have "print_good str (Inr b')" using user_putch_good [OF Cons.prems(1), of c] by simp
  from Cons.IH [OF this b'(2)] show ?case using b'(1) by simp
qed auto

lemma user_vcprintf_text:
  assumes "length stack = 256" and "\<And>p xs. str p = Some xs \<Longrightarrow> cstr m p xs \<and> length xs < 2 ^ 30"
    and "format_text str fmt ap = Some (Inr out)"
  shows "\<exists>cs. user_vcprintf m stack fmt ap calls = Some (Inr (of_nat (length out), calls @ map Sys_cputs cs))
    \<and> concat cs = map ucast out \<and> (\<forall>c \<in> set cs. length c \<le> 255) \<and> (\<forall>c \<in> set (butlast cs). length c = 255)"
proof -
  let ?b = "\<lparr>pb_mem = m, pb_idx = 0, pb_cnt = 0, pb_buf = stack, pb_calls = calls\<rparr>"
  have g: "print_good str (Inr ?b)" using assms(1,2) by (simp add: print_good_def)
  have "put_since calls [] ?b" by (simp add: put_since_def)
  from fold_user_putch [OF g this, of out] obtain b' where
    b': "fold user_putch out (Inr ?b) = Inr b'" "put_since calls (map ucast out) b'" "print_good str (Inr b')"
    by auto
  obtain cs where cs: "pb_calls b' = calls @ map Sys_cputs cs" "\<forall>c \<in> set cs. length c = 255"
    "map ucast out = concat cs @ take (unat (pb_idx b')) (pb_buf b')" "pb_cnt b' = of_nat (length out)"
    using b'(2) unfolding put_since_def by auto
  have "vprintfmt buffer_mem user_putch fmt ap (Inr ?b) = Some (Inr (Inr b'))"
    using uprint.vprintfmt_text [OF assms(3) g] b'(1) by simp
  then have "user_vcprintf m stack fmt ap calls
      = Some (Inr (of_nat (length out), calls @ map Sys_cputs (cs @ [take (unat (pb_idx b')) (pb_buf b')])))"
    using cs(1,4) by (simp add: user_vcprintf_def flush_buffer_def)
  moreover have "unat (pb_idx b') < 255" using b'(3) by (simp add: print_good_def)
  ultimately show ?thesis using cs(2,3) by (intro exI [of _ "cs @ [take (unat (pb_idx b')) (pb_buf b')]"]) auto
qed

section \<open>The line that is read\<close>

text \<open>The line a sequence of keys makes, zeros standing for polls without a key.\<close>

definition edit_key :: "u8 list \<Rightarrow> u32 \<Rightarrow> u8 list" where
  "edit_key line c =
     (if 0x20 \<le> sint c \<and> length line < UBUFLEN - 1 then line @ [ucast c]
      else if c = 0x08 then butlast line else line)"

definition editing_key :: "u32 \<Rightarrow> bool" where
  "editing_key c \<longleftrightarrow> 0 \<le> sint c \<and> c \<noteq> 0x0A \<and> c \<noteq> 0x0D"

lemma readline_char_edit:
  assumes "editing_key c" and "take i buf = line" and "i = length line" and "i < UBUFLEN" and "UBUFLEN \<le> length buf"
  shows "\<exists>buf' u'. readline_char m stack e c buf i u = Inr (Inr (buf', length (edit_key line c), u'))
    \<and> take (length (edit_key line c)) buf' = edit_key line c \<and> length buf' = length buf
    \<and> length (edit_key line c) < UBUFLEN \<and> uc_keys u' = uc_keys u"
proof -
  consider (plain) "0x20 \<le> sint c" "i < UBUFLEN - 1" | (erase) "\<not> (0x20 \<le> sint c \<and> i < UBUFLEN - 1)" "c = 0x08" "0 < i"
    | (none) "\<not> (0x20 \<le> sint c \<and> i < UBUFLEN - 1)" "\<not> (c = 0x08 \<and> 0 < i)" by blast
  then show ?thesis
  proof cases
    case plain
    then have "take (i + 1) (buf[i := ucast c]) = line @ [ucast c]"
      using assms by (simp add: take_Suc_conv_app_nth)
    then show ?thesis using plain assms
      by (auto simp: readline_char_def edit_key_def user_cputchar_def call_sys_def Let_def)
  next
    case erase
    have "take (i - 1) buf = butlast line" using assms(2,3) by (metis butlast_take assms(5,4) le_trans less_imp_le)
    then show ?thesis using erase assms
      by (auto simp: readline_char_def edit_key_def user_cputchar_def call_sys_def Let_def)
  next
    case none
    then show ?thesis using assms by (auto simp: readline_char_def edit_key_def editing_key_def)
  qed
qed

lemma user_getchar_Cons:
  "uc_keys u = c # ks \<Longrightarrow>
   user_getchar u = (let u' = u\<lparr>uc_calls := uc_calls u @ [Sys_cgetc], uc_keys := ks\<rparr> in
                     if c = 0 then user_getchar u' else Inr (c, u'))"
  by (cases u) (simp add: user_getchar_def)

lemma readline_loop_line:
  assumes "list_all editing_key ks" and "nl = 0x0A \<or> nl = 0x0D" and "uc_keys u = ks @ nl # rest"
    and "take (length line) buf = line" and "length line < UBUFLEN" and "UBUFLEN \<le> length buf"
  shows "\<exists>buf' u'. readline_loop m stack e buf (length line) u = Inr (buf', u')
    \<and> (let L = foldl edit_key line ks in
        take (length L) buf' = L \<and> buf' ! length L = 0 \<and> length L < UBUFLEN)
    \<and> length buf' = length buf \<and> uc_keys u' = rest"
  using assms
proof (induction ks arbitrary: buf line u)
  case Nil
  have "user_getchar u = Inr (nl, u\<lparr>uc_calls := uc_calls u @ [Sys_cgetc], uc_keys := rest\<rparr>)"
    using Nil.prems(2,3) by (auto simp: user_getchar_Cons)
  moreover have "sint nl < 0x20" "0 \<le> sint nl" "nl \<noteq> 8" using Nil.prems(2) by auto
  ultimately show ?case using Nil.prems
    by (subst readline_loop.simps)
       (auto simp: readline_char_def user_cputchar_def call_sys_def Let_def)
next
  case (Cons c ks)
  let ?u = "u\<lparr>uc_calls := uc_calls u @ [Sys_cgetc], uc_keys := ks @ nl # rest\<rparr>"
  have get: "user_getchar u = (if c = 0 then user_getchar ?u else Inr (c, ?u))"
    using Cons.prems(3) by (simp add: user_getchar_Cons)
  show ?case
  proof (cases "c = 0")
    case True
    have "readline_loop m stack e buf (length line) u = readline_loop m stack e buf (length line) ?u"
      using get True by (subst (1 2) readline_loop.simps) simp
    moreover have "edit_key line c = line" using True by (simp add: edit_key_def)
    ultimately show ?thesis using Cons.IH [of ?u line buf] Cons.prems by simp
  next
    case False
    from Cons.prems(1) have "editing_key c" by simp
    from readline_char_edit [OF this Cons.prems(4) refl Cons.prems(5,6), of m stack e ?u]
    obtain buf' u' where r: "readline_char m stack e c buf (length line) ?u = Inr (Inr (buf', length (edit_key line c), u'))"
      and b: "take (length (edit_key line c)) buf' = edit_key line c" "length buf' = length buf"
        "length (edit_key line c) < UBUFLEN" "uc_keys u' = ks @ nl # rest" by auto
    have "readline_loop m stack e buf (length line) u = readline_loop m stack e buf' (length (edit_key line c)) u'"
      using get False r by (subst readline_loop.simps) simp
    then show ?thesis using Cons.IH [of u' "edit_key line c" buf'] Cons.prems b by simp
  qed
qed

section \<open>Properties\<close>

text \<open>
  cprintf() of a user program hands the text of its format to sys_cputs() in order, in pieces of
  255 characters of which only the last is shorter, never writes outside its buffer of 256 bytes, and
  returns the number of characters of the text.
\<close>

theorem user_cprintf_prints:
  assumes "length stack = 256" and "\<And>p xs. str p = Some xs \<Longrightarrow> cstr m p xs \<and> length xs < 2 ^ 30"
    and "format_text str fmt ap = Some (Inr out)"
  shows "\<exists>cs. user_cprintf m stack fmt ap calls = Some (Inr (of_nat (length out), calls @ map Sys_cputs cs))
    \<and> concat cs = map ucast out \<and> (\<forall>c \<in> set cs. length c \<le> 255) \<and> (\<forall>c \<in> set (butlast cs). length c = 255)"
  using user_vcprintf_text [OF assms] by (simp add: user_cprintf_def)

theorem user_cprintf_prints_witness:
  "\<exists>cs. user_cprintf (\<lambda>_. 0) (replicate 256 0) (ascii ''%5d|%e'') [Word (- 7), Word (- 4)] []
      = Some (Inr (20, [] @ map Sys_cputs cs))
    \<and> concat cs = ascii ''-    7|out of memory''"
proof -
  have "format_text (\<lambda>_. None) (ascii ''%5d|%e'') [Word (- 7), Word (- 4)]
      = Some (Inr (map ucast (ascii ''-    7|out of memory'')))" by code_simp
  from user_cprintf_prints [OF _ _ this, of "replicate 256 0" "\<lambda>_. 0" "[]"]
  show ?thesis by (auto simp: ascii_def)
qed

text \<open>
  readline() of a user program, given keys that end with a newline or a carriage return, returns with
  the line they make in its array: at most 1023 characters, each the low byte of its key, less those
  erased by backspaces, followed by a NUL. The keys after the end of the line are left.
\<close>

theorem user_readline_line:
  assumes "list_all editing_key ks" and "nl = 0x0A \<or> nl = 0x0D" and "uc_keys u = ks @ nl # rest"
    and "UBUFLEN \<le> length buf"
  shows "\<exists>buf' u'. user_readline m stack None buf u = Inr (buf', u')
    \<and> (let L = foldl edit_key [] ks in
        take (length L) buf' = L \<and> buf' ! length L = 0 \<and> length L < UBUFLEN)
    \<and> length buf' = length buf \<and> uc_keys u' = rest"
  using readline_loop_line [OF assms(1-3), of "[]" buf m stack True] assms(4)
  by (simp add: user_readline_def user_iscons_def UBUFLEN_def)

theorem user_readline_line_witness:
  "\<exists>buf' u'. user_readline (\<lambda>_. 0) [] None (replicate 1024 0) \<lparr>uc_calls = [], uc_keys = [0x61, 0, 0x62, 0x08, 0x63, 0x0A, 0x7A]\<rparr>
      = Inr (buf', u')
    \<and> take 2 buf' = [0x61, 0x63] \<and> buf' ! 2 = 0 \<and> length buf' = 1024 \<and> uc_keys u' = [0x7A]"
proof -
  have l: "foldl edit_key [] [0x61, 0, 0x62, 0x08, 0x63] = [0x61, 0x63]" by (simp add: edit_key_def UBUFLEN_def)
  have "length [0x61, 0x63 :: u8] = 2" by simp
  then show ?thesis
    using user_readline_line [of "[0x61, 0, 0x62, 0x08, 0x63]" "0x0A" "\<lparr>uc_calls = [], uc_keys = [0x61, 0, 0x62, 0x08, 0x63, 0x0A, 0x7A]\<rparr>"
        "[0x7A]" "replicate 1024 0" "\<lambda>_. 0" "[]", unfolded l Let_def]
    by (simp add: editing_key_def UBUFLEN_def del: list.size One_nat_def)
qed

end
