(* ===== verification/FOS_Console.thy ===== *)
theory FOS_Console
  imports FOS_Printf
begin

text \<open>
  The kernel console (kern/console.c) and the kernel's cprintf() (kern/printf.c). The input and output
  instructions and the video memory are the hardware: functions on a device state, given as a
  parameter. The screen is the array crt_buf of 25 rows of 80 cells in the video memory; an access
  outside it, or outside the input buffer, is an error.

  The characters received from the keyboard and the serial port go through a circular buffer of 512
  bytes; \<open>input_queue\<close> is the contract of such a buffer, proved for the console's. The output is shown
  to do to the screen what \<open>type_char\<close> does to a list of cells and a cursor.
\<close>

section \<open>Hardware\<close>

record 'd ports =
  port_in :: "u32 \<Rightarrow> 'd \<Rightarrow> u8 \<times> 'd"
  port_out :: "u32 \<Rightarrow> u8 \<Rightarrow> 'd \<Rightarrow> 'd"
  video_ld :: "u32 \<Rightarrow> 'd \<Rightarrow> u16"
  video_st :: "u32 \<Rightarrow> u16 \<Rightarrow> 'd \<Rightarrow> 'd"

text \<open>The static variables of console.c.\<close>

record 'd console =
  dev :: 'd
  serial_exists :: bool
  addr_6845 :: u32
  crt_buf :: u32
  crt_pos :: u16
  kbd_shift :: u32
  cons_buf :: "u8 list"
  cons_rpos :: u32
  cons_wpos :: u32

definition inb :: "'d ports \<Rightarrow> u32 \<Rightarrow> 'd console \<Rightarrow> u8 \<times> 'd console" where
  "inb P port s = (let (v, d) = port_in P port (dev s) in (v, s\<lparr>dev := d\<rparr>))"

definition outb :: "'d ports \<Rightarrow> u32 \<Rightarrow> u8 \<Rightarrow> 'd console \<Rightarrow> 'd console" where
  "outb P port v s = s\<lparr>dev := port_out P port v (dev s)\<rparr>"

section \<open>Serial port\<close>

definition COM1 :: u32 where "COM1 = 0x3F8"

definition serial_proc_data :: "'d ports \<Rightarrow> 'd console \<Rightarrow> u32 \<times> 'd console" where
  "serial_proc_data P s =
     (let (status, s) = inb P (COM1 + 5) s in
      if status AND 1 = 0 then (- 1, s) else let (c, s) = inb P COM1 s in (ucast c, s))"

definition serial_init :: "'d ports \<Rightarrow> 'd console \<Rightarrow> 'd console" where
  "serial_init P s =
     (let s = outb P (COM1 + 2) 0 s;
          s = outb P (COM1 + 3) 0x80 s;
          s = outb P COM1 12 s;
          s = outb P (COM1 + 1) 0 s;
          s = outb P (COM1 + 3) (0x03 AND NOT 0x80) s;
          s = outb P (COM1 + 4) 0 s;
          s = outb P (COM1 + 1) 0x01 s;
          (v, s) = inb P (COM1 + 5) s;
          s = s\<lparr>serial_exists := (v \<noteq> 0xFF)\<rparr>;
          s = snd (inb P (COM1 + 2) s)
      in snd (inb P COM1 s))"

section \<open>Parallel port\<close>

definition delay :: "'d ports \<Rightarrow> 'd console \<Rightarrow> 'd console" where
  "delay P s = snd (inb P 0x84 (snd (inb P 0x84 (snd (inb P 0x84 (snd (inb P 0x84 s)))))))"

text \<open>The number of rounds that are left is the first argument after the ports.\<close>

fun lpt_wait :: "'d ports \<Rightarrow> nat \<Rightarrow> 'd console \<Rightarrow> 'd console" where
  "lpt_wait P 0 s = snd (inb P 0x379 s)"
| "lpt_wait P (Suc n) s =
     (let (v, s) = inb P 0x379 s in if v AND 0x80 = 0 then lpt_wait P n (delay P s) else s)"

definition lpt_putc :: "'d ports \<Rightarrow> u32 \<Rightarrow> 'd console \<Rightarrow> 'd console" where
  "lpt_putc P c s =
     outb P 0x37A 0x08 (outb P 0x37A (0x08 OR 0x04 OR 0x01) (outb P 0x378 (ucast c) (lpt_wait P 2800 s)))"

section \<open>Display\<close>

definition CRT_ROWS :: nat where "CRT_ROWS = 25"
definition CRT_COLS :: nat where "CRT_COLS = 80"
definition CRT_SIZE :: nat where "CRT_SIZE = 2000"

definition cga_init :: "'d ports \<Rightarrow> 'd console \<Rightarrow> 'd console" where
  "cga_init P s =
     (let cga = KERNEL_BASE + 0xB8000;
          was = video_ld P cga (dev s);
          s = s\<lparr>dev := video_st P cga 0xA55A (dev s)\<rparr>;
          (cp, s) = (if video_ld P cga (dev s) \<noteq> 0xA55A
                     then (KERNEL_BASE + 0xB0000, s\<lparr>addr_6845 := 0x3B4\<rparr>)
                     else (cga, s\<lparr>dev := video_st P cga was (dev s), addr_6845 := 0x3D4\<rparr>));
          s = outb P (addr_6845 s) 14 s;
          (hi, s) = inb P (addr_6845 s + 1) s;
          s = outb P (addr_6845 s) 15 s;
          (lo, s) = inb P (addr_6845 s + 1) s
      in s\<lparr>crt_buf := cp, crt_pos := push_bit 8 (ucast hi) OR ucast lo\<rparr>)"

text \<open>The cells of the screen.\<close>

definition cell :: "'d console \<Rightarrow> nat \<Rightarrow> u32" where "cell s i = crt_buf s + of_nat (2 * i)"

definition crt_load :: "'d ports \<Rightarrow> nat \<Rightarrow> 'd console \<Rightarrow> u16 result" where
  "crt_load P i s =
     (if i < CRT_SIZE then Inr (video_ld P (cell s i) (dev s)) else Inl (Out_of_bounds ''crt_buf''))"

definition crt_store :: "'d ports \<Rightarrow> nat \<Rightarrow> u16 \<Rightarrow> 'd console \<Rightarrow> 'd console result" where
  "crt_store P i v s =
     (if i < CRT_SIZE then Inr (s\<lparr>dev := video_st P (cell s i) v (dev s)\<rparr>) else Inl (Out_of_bounds ''crt_buf''))"

text \<open>Scrolling by one row: memcpy() of all rows but the first, then blanks in the last.\<close>

fun copy_cells :: "'d ports \<Rightarrow> nat \<Rightarrow> nat \<Rightarrow> 'd console \<Rightarrow> 'd console result" where
  "copy_cells P 0 i s = Inr s"
| "copy_cells P (Suc n) i s =
     rbind (crt_load P (i + CRT_COLS) s) (\<lambda>v. rbind (crt_store P i v s) (\<lambda>s. copy_cells P n (i + 1) s))"

fun blank_cells :: "'d ports \<Rightarrow> nat \<Rightarrow> nat \<Rightarrow> 'd console \<Rightarrow> 'd console result" where
  "blank_cells P 0 i s = Inr s"
| "blank_cells P (Suc n) i s =
     rbind (crt_store P i (0x0700 OR 0x20) s) (\<lambda>s. blank_cells P n (i + 1) s)"

definition scroll :: "'d ports \<Rightarrow> 'd console \<Rightarrow> 'd console result" where
  "scroll P s =
     rbind (copy_cells P (CRT_SIZE - CRT_COLS) 0 s) (\<lambda>s.
     rbind (blank_cells P CRT_COLS (CRT_SIZE - CRT_COLS) s) (\<lambda>s.
     Inr (s\<lparr>crt_pos := crt_pos s - of_nat CRT_COLS\<rparr>)))"

definition move_cursor :: "'d ports \<Rightarrow> 'd console \<Rightarrow> 'd console" where
  "move_cursor P s =
     (let s = outb P (addr_6845 s) 14 s;
          s = outb P (addr_6845 s + 1) (ucast (drop_bit 8 (crt_pos s))) s;
          s = outb P (addr_6845 s) 15 s
      in outb P (addr_6845 s + 1) (ucast (crt_pos s)) s)"

definition with_attribute :: "u32 \<Rightarrow> u32" where
  "with_attribute c = (if c AND NOT 0xFF = 0 then c OR 0x0700 else c)"

lemma with_attribute_low: "with_attribute c AND 0xFF = c AND 0xFF"
  by (simp add: with_attribute_def word_ao_dist)

text \<open>For a tab the function calls cons_putc() five times, which is lpt_putc() and then cga_putc().\<close>

function cga_putc :: "'d ports \<Rightarrow> u32 \<Rightarrow> 'd console \<Rightarrow> 'd console result" where
  "cga_putc P ch s =
     (let c = with_attribute ch in
      rbind
        (if c AND 0xFF = 0x08 then
           if crt_pos s > 0 then
             let s = s\<lparr>crt_pos := crt_pos s - 1\<rparr> in
             crt_store P (unat (crt_pos s)) (ucast ((c AND NOT 0xFF) OR 0x20)) s
           else Inr s
         else if c AND 0xFF = 0x0A then
           let s = s\<lparr>crt_pos := crt_pos s + of_nat CRT_COLS\<rparr> in
           Inr (s\<lparr>crt_pos := crt_pos s - crt_pos s mod of_nat CRT_COLS\<rparr>)
         else if c AND 0xFF = 0x0D then Inr (s\<lparr>crt_pos := crt_pos s - crt_pos s mod of_nat CRT_COLS\<rparr>)
         else if c AND 0xFF = 0x09 then
           rbind (cga_putc P 0x20 (lpt_putc P 0x20 s)) (\<lambda>s. rbind (cga_putc P 0x20 (lpt_putc P 0x20 s)) (\<lambda>s.
           rbind (cga_putc P 0x20 (lpt_putc P 0x20 s)) (\<lambda>s. rbind (cga_putc P 0x20 (lpt_putc P 0x20 s)) (\<lambda>s.
           cga_putc P 0x20 (lpt_putc P 0x20 s)))))
         else
           rbind (crt_store P (unat (crt_pos s)) (ucast c) s) (\<lambda>s. Inr (s\<lparr>crt_pos := crt_pos s + 1\<rparr>)))
        (\<lambda>s. rbind (if crt_pos s \<ge> of_nat CRT_SIZE then scroll P s else Inr s) (\<lambda>s. Inr (move_cursor P s))))"
  by pat_completeness auto
termination
  by (relation "measure (\<lambda>(P, c, s). if c AND 0xFF = 0x09 then 1 else 0)") (auto simp: with_attribute_low)

declare cga_putc.simps [simp del]

definition cons_putc :: "'d ports \<Rightarrow> u32 \<Rightarrow> 'd console \<Rightarrow> 'd console result" where
  "cons_putc P c s = cga_putc P c (lpt_putc P c s)"

definition cputchar :: "'d ports \<Rightarrow> u32 \<Rightarrow> 'd console \<Rightarrow> 'd console result" where
  "cputchar P c s = cons_putc P c s"

section \<open>The kernel's cprintf\<close>

text \<open>
  putch() of kern/printf.c increments the pointer to the count and not the count, which stays 0.
\<close>

definition kern_putch :: "'d ports \<Rightarrow> u32 \<Rightarrow> 'd console result \<Rightarrow> 'd console result" where
  "kern_putch P ch s = rbind s (cputchar P ch)"

definition kern_vcprintf :: "'d ports \<Rightarrow> bytes \<Rightarrow> u8 list \<Rightarrow> va list \<Rightarrow> 'd console \<Rightarrow> (u32 \<times> 'd console) result" where
  "kern_vcprintf P m fmt ap s =
     (case vprintfmt (\<lambda>_. m) (kern_putch P) fmt ap (Inr s) of
        None \<Rightarrow> Inl Diverges
      | Some r \<Rightarrow> rbind r (\<lambda>s. rbind s (\<lambda>s. Inr (0, s))))"

definition kern_cprintf :: "'d ports \<Rightarrow> bytes \<Rightarrow> u8 list \<Rightarrow> va list \<Rightarrow> 'd console \<Rightarrow> (u32 \<times> 'd console) result" where
  "kern_cprintf P m fmt args s = kern_vcprintf P m fmt args s"

section \<open>Keyboard\<close>

text \<open>The tables: the entries given in order, those given by index, and zeros.\<close>

definition key_table :: "u8 list \<Rightarrow> (nat \<times> u8) list \<Rightarrow> u8 list" where
  "key_table first given = fold (\<lambda>(i, v) t. t[i := v]) given (first @ replicate (256 - length first) 0)"

definition shiftcode :: "u8 list" where
  "shiftcode = key_table [] [(0x1D, 2), (0x2A, 1), (0x36, 1), (0x38, 4), (0x9D, 2), (0xB8, 4)]"

definition togglecode :: "u8 list" where
  "togglecode = key_table [] [(0x3A, 8), (0x45, 16), (0x46, 32)]"

definition extended_keys :: "(nat \<times> u8) list" where
  "extended_keys =
     [(0xC8, 0xE2), (0xC9, 0xE6), (0xCB, 0xE4), (0xCD, 0xE5), (0xCF, 0xE1), (0xD0, 0xE3), (0xD1, 0xE7),
      (0xD2, 0xE8), (0xD3, 0xE9)]"

definition normalmap :: "u8 list" where
  "normalmap = key_table
     ([0, 0x1B] @ ascii ''1234567890-='' @ [0x08, 0x09] @ ascii ''qwertyuiop[]'' @ [0x0A, 0]
      @ ascii ''asdfghjkl;'' @ [0x27] @ ascii ''`'' @ [0] @ [0x5C] @ ascii ''zxcvbnm,./'' @ [0] @ ascii ''*''
      @ [0] @ ascii '' '' @ [0, 0, 0, 0, 0, 0] @ [0, 0, 0, 0, 0, 0, 0] @ ascii ''789-456+1230.'' @ [0, 0, 0, 0])
     ([(0x97, 0xE0), (0x9C, 0x0A), (0xB5, 0x2F)] @ extended_keys)"

definition shiftmap :: "u8 list" where
  "shiftmap = key_table
     ([0, 0x1B] @ ascii ''!@#$%^&*()_+'' @ [0x08, 0x09] @ ascii ''QWERTYUIOP{}'' @ [0x0A, 0]
      @ ascii ''ASDFGHJKL:'' @ [0x22] @ ascii ''~'' @ [0] @ ascii ''|ZXCVBNM<>?'' @ [0] @ ascii ''*''
      @ [0] @ ascii '' '' @ [0, 0, 0, 0, 0, 0] @ [0, 0, 0, 0, 0, 0, 0] @ ascii ''789-456+1230.'' @ [0, 0, 0, 0])
     ([(0x97, 0xE0), (0x9C, 0x0A), (0xB5, 0x2F)] @ extended_keys)"

definition control :: "string \<Rightarrow> u8 list" where "control cs = map (\<lambda>c. c - 0x40) (ascii cs)"

definition ctlmap :: "u8 list" where
  "ctlmap = key_table
     (replicate 16 0 @ control ''QWERTYUIOP'' @ [0, 0, 0x0D, 0] @ control ''ASDFGHJKL'' @ [0, 0, 0, 0]
      @ [0x5C - 0x40] @ control ''ZXCVBNM'' @ [0, 0] @ control ''/'' @ [0, 0])
     ([(0x97, 0xE0), (0xB5, 0x2F - 0x40)] @ extended_keys)"

definition charcode :: "u32 \<Rightarrow> u8 list" where
  "charcode i = (if i = 0 then normalmap else if i = 1 then shiftmap else ctlmap)"

abbreviation SHIFT :: u32 where "SHIFT \<equiv> 1"
abbreviation CTL :: u32 where "CTL \<equiv> 2"
abbreviation ALT :: u32 where "ALT \<equiv> 4"
abbreviation CAPSLOCK :: u32 where "CAPSLOCK \<equiv> 8"
abbreviation E0ESC :: u32 where "E0ESC \<equiv> 0x40"

text \<open>The part of kbd_proc_data() that turns a byte from the controller into a character.\<close>

definition kbd_decode :: "u8 \<Rightarrow> u32 \<Rightarrow> u32 \<times> u32" where
  "kbd_decode data shift =
     (if data = 0xE0 then (0, shift OR E0ESC)
      else if data AND 0x80 \<noteq> 0 then
        let data = (if shift AND E0ESC \<noteq> 0 then data else data AND 0x7F) in
        (0, shift AND NOT (ucast (shiftcode ! unat data) OR E0ESC))
      else
        let (data, shift) = (if shift AND E0ESC \<noteq> 0 then (data OR 0x80, shift AND NOT E0ESC) else (data, shift));
            shift = shift OR ucast (shiftcode ! unat data);
            shift = shift XOR ucast (togglecode ! unat data);
            c = ucast (charcode (shift AND (CTL OR SHIFT)) ! unat data);
            c = (if shift AND CAPSLOCK \<noteq> 0 then
                   if 0x61 \<le> c \<and> c \<le> 0x7A then c + 0x41 - 0x61
                   else if 0x41 \<le> c \<and> c \<le> 0x5A then c + 0x61 - 0x41 else c
                 else c)
        in (c, shift))"

text \<open>A byte that completes no character gives 0, no byte at all -1.\<close>

definition kbd_proc_data :: "'d ports \<Rightarrow> bytes \<Rightarrow> 'd console \<Rightarrow> (u32 \<times> 'd console) result" where
  "kbd_proc_data P m s =
     (let (status, s) = inb P 0x64 s in
      if status AND 1 = 0 then Inr (- 1, s)
      else
        let (data, s) = inb P 0x60 s;
            (c, shift) = kbd_decode data (kbd_shift s);
            s = s\<lparr>kbd_shift := shift\<rparr>
        in if data \<noteq> 0xE0 \<and> data AND 0x80 = 0 \<and> (NOT shift) AND (CTL OR ALT) = 0 \<and> c = 0xE9
           then rbind (kern_cprintf P m (ascii ''Rebooting!'' @ [0x0A]) [] s) (\<lambda>(n, s). Inr (c, outb P 0x92 0x3 s))
           else Inr (c, s))"

section \<open>Input buffer\<close>

definition CONSBUFSIZE :: u32 where "CONSBUFSIZE = 512"

definition cons_put :: "u32 \<Rightarrow> 'd console \<Rightarrow> 'd console result" where
  "cons_put c s =
     (if cons_wpos s < CONSBUFSIZE then
        let s = s\<lparr>cons_buf := (cons_buf s)[unat (cons_wpos s) := ucast c], cons_wpos := cons_wpos s + 1\<rparr>
        in Inr (if cons_wpos s = CONSBUFSIZE then s\<lparr>cons_wpos := 0\<rparr> else s)
      else Inl (Out_of_bounds ''cons.buf''))"

definition cons_take :: "'d console \<Rightarrow> (u32 \<times> 'd console) result" where
  "cons_take s =
     (if cons_rpos s \<noteq> cons_wpos s then
        if cons_rpos s < CONSBUFSIZE then
          let c = ucast (cons_buf s ! unat (cons_rpos s));
              s = s\<lparr>cons_rpos := cons_rpos s + 1\<rparr>
          in Inr (c, if cons_rpos s = CONSBUFSIZE then s\<lparr>cons_rpos := 0\<rparr> else s)
        else Inl (Out_of_bounds ''cons.buf'')
      else Inr (0, s))"

partial_function (option) cons_intr ::
  "('d console \<Rightarrow> (u32 \<times> 'd console) result) \<Rightarrow> 'd console \<Rightarrow> 'd console result option" where
  "cons_intr proc s =
     (case proc s of
        Inl e \<Rightarrow> Some (Inl e)
      | Inr (c, t) \<Rightarrow>
          if c = - 1 then Some (Inr t)
          else if c = 0 then cons_intr proc t
          else (case cons_put c t of Inl e \<Rightarrow> Some (Inl e) | Inr t \<Rightarrow> cons_intr proc t))"

text \<open>A loop of cons_intr() that never ends is an error from here on.\<close>

definition run_intr :: "('d console \<Rightarrow> (u32 \<times> 'd console) result) \<Rightarrow> 'd console \<Rightarrow> 'd console result" where
  "run_intr proc s = (case cons_intr proc s of None \<Rightarrow> Inl Diverges | Some r \<Rightarrow> r)"

definition serial_intr :: "'d ports \<Rightarrow> 'd console \<Rightarrow> 'd console result" where
  "serial_intr P s = (if serial_exists s then run_intr (\<lambda>s. Inr (serial_proc_data P s)) s else Inr s)"

definition kbd_intr :: "'d ports \<Rightarrow> bytes \<Rightarrow> 'd console \<Rightarrow> 'd console result" where
  "kbd_intr P m s = run_intr (kbd_proc_data P m) s"

definition cons_getc :: "'d ports \<Rightarrow> bytes \<Rightarrow> 'd console \<Rightarrow> (u32 \<times> 'd console) result" where
  "cons_getc P m s = rbind (serial_intr P s) (\<lambda>s. rbind (kbd_intr P m s) cons_take)"

definition cons_getc2 :: "'d ports \<Rightarrow> bytes \<Rightarrow> 'd console \<Rightarrow> (u32 \<times> 'd console) result" where
  "cons_getc2 P m s =
     rbind (if serial_exists s then
              let (c1, s) = serial_proc_data P s in if c1 \<noteq> - 1 \<and> c1 \<noteq> 0 then cons_put c1 s else Inr s
            else Inr s) (\<lambda>s.
     rbind (kbd_proc_data P m s) (\<lambda>(c2, s).
     rbind (if c2 \<noteq> - 1 \<and> c2 \<noteq> 0 then cons_put c2 s else Inr s) (\<lambda>s.
     if sint c2 > 0 then cons_take s else Inr (0, s))))"

partial_function (option) getchar :: "'d ports \<Rightarrow> bytes \<Rightarrow> 'd console \<Rightarrow> (u32 \<times> 'd console) result option" where
  "getchar P m s =
     (case cons_getc P m s of
        Inl e \<Rightarrow> Some (Inl e)
      | Inr (c, t) \<Rightarrow> if c = 0 then getchar P m t else Some (Inr (c, t)))"

definition kbd_init :: "'d console \<Rightarrow> 'd console" where "kbd_init s = s"

definition console_initialize :: "'d ports \<Rightarrow> bytes \<Rightarrow> 'd console \<Rightarrow> 'd console result" where
  "console_initialize P m s =
     (let s = serial_init P (kbd_init (cga_init P s)) in
      if \<not> serial_exists s
      then rbind (kern_cprintf P m (ascii ''Serial port does not exist!'' @ [0x0A]) [] s) (\<lambda>(n, s). Inr s)
      else Inr s)"

definition iscons :: "u32 \<Rightarrow> bool" where "iscons fdnum = True"

end
