(* ===== verification/FOS_Screen.thy ===== *)
theory FOS_Screen
  imports FOS_Console
begin

text \<open>
  What the console shows. Under the laws of the video memory, cons_putc() never writes outside the
  screen, keeps the cursor on it, and changes the cells and the cursor as the function \<open>type_char\<close>
  says; the kernel's cprintf() types the text of its format.
\<close>

section \<open>Video memory\<close>

text \<open>
  A store into video memory is read back at its address and changes nothing at other addresses; port
  instructions do not change the video memory.
\<close>

definition video_memory :: "'d ports \<Rightarrow> bool" where
  "video_memory P \<longleftrightarrow>
     (\<forall>a b v d. video_ld P b (video_st P a v d) = (if a = b then v else video_ld P b d))
     \<and> (\<forall>a p d. video_ld P a (snd (port_in P p d)) = video_ld P a d)
     \<and> (\<forall>a p v d. video_ld P a (port_out P p v d) = video_ld P a d)"

definition screen :: "'d ports \<Rightarrow> 'd console \<Rightarrow> u16 list" where
  "screen P s = map (\<lambda>i. video_ld P (cell s i) (dev s)) [0..<CRT_SIZE]"

lemma screen_length [simp]: "length (screen P s) = CRT_SIZE"
  by (simp add: screen_def)

lemma screen_nth: "i < CRT_SIZE \<Longrightarrow> screen P s ! i = video_ld P (cell s i) (dev s)"
  by (simp add: screen_def)

section \<open>Steps that leave the screen alone\<close>

definition quiet :: "'d ports \<Rightarrow> 'd console \<Rightarrow> 'd console \<Rightarrow> bool" where
  "quiet P s t \<longleftrightarrow> (\<exists>d. t = s\<lparr>dev := d\<rparr> \<and> (\<forall>a. video_ld P a d = video_ld P a (dev s)))"

lemma quiet_refl [simp]: "quiet P s s"
  unfolding quiet_def by (rule exI [of _ "dev s"]) simp

lemma quiet_trans: "quiet P s t \<Longrightarrow> quiet P t u \<Longrightarrow> quiet P s u"
  by (auto simp: quiet_def)

lemma quiet_screen: "quiet P s t \<Longrightarrow> screen P t = screen P s"
  by (auto simp: quiet_def screen_def cell_def)

lemma quiet_inb: "video_memory P \<Longrightarrow> quiet P s (snd (inb P port s))"
  by (auto simp: quiet_def inb_def video_memory_def split: prod.splits) (metis snd_conv)

lemma quiet_outb: "video_memory P \<Longrightarrow> quiet P s (outb P port v s)"
  by (auto simp: quiet_def outb_def video_memory_def)

lemma quiet_delay: "video_memory P \<Longrightarrow> quiet P s (delay P s)"
  unfolding delay_def by (meson quiet_inb quiet_trans)

lemma quiet_lpt_wait: "video_memory P \<Longrightarrow> quiet P s (lpt_wait P n s)"
proof (induction P n s rule: lpt_wait.induct)
  case (1 P s)
  then show ?case by (simp add: quiet_inb)
next
  case (2 P n s)
  obtain v s' where i: "inb P 0x379 s = (v, s')" by (cases "inb P 0x379 s")
  then have "quiet P s s'" using quiet_inb [OF 2(2), of s "0x379"] by simp
  then show ?case using i 2 quiet_delay [OF 2(2), of s'] by (auto intro: quiet_trans)
qed

lemma quiet_lpt_putc: "video_memory P \<Longrightarrow> quiet P s (lpt_putc P c s)"
  unfolding lpt_putc_def by (meson quiet_lpt_wait quiet_outb quiet_trans)

lemma quiet_move_cursor: "video_memory P \<Longrightarrow> quiet P s (move_cursor P s)"
  unfolding move_cursor_def Let_def by (meson quiet_outb quiet_trans)

section \<open>Writing cells\<close>

lemma cell_eq: "i < CRT_SIZE \<Longrightarrow> j < CRT_SIZE \<Longrightarrow> cell s i = cell s j \<longleftrightarrow> i = j"
  using of_nat_u32_eq [of "2 * i" "2 * j"] by (simp add: cell_def CRT_SIZE_def)

lemma crt_store_screen:
  assumes "video_memory P" and "i < CRT_SIZE"
  shows "\<exists>d. crt_store P i v s = Inr (s\<lparr>dev := d\<rparr>) \<and> screen P (s\<lparr>dev := d\<rparr>) = (screen P s)[i := v]"
proof -
  let ?d = "video_st P (cell s i) v (dev s)"
  have "screen P (s\<lparr>dev := ?d\<rparr>) ! j = (screen P s)[i := v] ! j" if "j < CRT_SIZE" for j
    using that assms cell_eq [OF assms(2) that, of s]
    by (auto simp: screen_nth video_memory_def cell_def nth_list_update)
  then have "screen P (s\<lparr>dev := ?d\<rparr>) = (screen P s)[i := v]" by (intro nth_equalityI) simp_all
  then show ?thesis using assms(2) by (auto simp: crt_store_def)
qed

lemma copy_cells_screen:
  assumes "video_memory P"
  shows "i + n + CRT_COLS \<le> CRT_SIZE \<Longrightarrow>
    \<exists>d. copy_cells P n i s = Inr (s\<lparr>dev := d\<rparr>)
      \<and> (\<forall>j < CRT_SIZE. screen P (s\<lparr>dev := d\<rparr>) ! j
           = (if i \<le> j \<and> j < i + n then screen P s ! (j + CRT_COLS) else screen P s ! j))"
proof (induction n arbitrary: i s)
  case 0
  show ?case by (rule exI [of _ "dev s"]) auto
next
  case (Suc n)
  have c: "0 < CRT_COLS" by (simp add: CRT_COLS_def)
  define v where "v = screen P s ! (i + CRT_COLS)"
  have v: "crt_load P (i + CRT_COLS) s = Inr v" using Suc.prems by (simp add: crt_load_def v_def screen_nth)
  obtain d1 where d1: "crt_store P i v s = Inr (s\<lparr>dev := d1\<rparr>)" "screen P (s\<lparr>dev := d1\<rparr>) = (screen P s)[i := v]"
    using crt_store_screen [OF assms, of i v s] Suc.prems by auto
  obtain d where d: "copy_cells P n (i + 1) (s\<lparr>dev := d1\<rparr>) = Inr (s\<lparr>dev := d\<rparr>)"
    "\<forall>j < CRT_SIZE. screen P (s\<lparr>dev := d\<rparr>) ! j
       = (if i + 1 \<le> j \<and> j < i + 1 + n then (screen P s)[i := v] ! (j + CRT_COLS) else (screen P s)[i := v] ! j)"
    using Suc.IH [of "i + 1" "s\<lparr>dev := d1\<rparr>"] Suc.prems d1(2) by auto
  have "screen P (s\<lparr>dev := d\<rparr>) ! j
      = (if i \<le> j \<and> j < i + Suc n then screen P s ! (j + CRT_COLS) else screen P s ! j)" if "j < CRT_SIZE" for j
    using that d(2) c by (cases "j = i") (auto simp: nth_list_update v_def)
  then show ?case using v d1(1) d(1) by auto
qed

lemma blank_cells_screen:
  assumes "video_memory P"
  shows "i + n \<le> CRT_SIZE \<Longrightarrow>
    \<exists>d. blank_cells P n i s = Inr (s\<lparr>dev := d\<rparr>)
      \<and> (\<forall>j < CRT_SIZE. screen P (s\<lparr>dev := d\<rparr>) ! j = (if i \<le> j \<and> j < i + n then 0x0720 else screen P s ! j))"
proof (induction n arbitrary: i s)
  case 0
  show ?case by (rule exI [of _ "dev s"]) auto
next
  case (Suc n)
  obtain d1 where d1: "crt_store P i 0x0720 s = Inr (s\<lparr>dev := d1\<rparr>)" "screen P (s\<lparr>dev := d1\<rparr>) = (screen P s)[i := 0x0720]"
    using crt_store_screen [OF assms, of i "0x0720" s] Suc.prems by auto
  obtain d where d: "blank_cells P n (i + 1) (s\<lparr>dev := d1\<rparr>) = Inr (s\<lparr>dev := d\<rparr>)"
    "\<forall>j < CRT_SIZE. screen P (s\<lparr>dev := d\<rparr>) ! j
       = (if i + 1 \<le> j \<and> j < i + 1 + n then 0x0720 else (screen P s)[i := 0x0720] ! j)"
    using Suc.IH [of "i + 1" "s\<lparr>dev := d1\<rparr>"] Suc.prems d1(2) by auto
  have "screen P (s\<lparr>dev := d\<rparr>) ! j = (if i \<le> j \<and> j < i + Suc n then 0x0720 else screen P s ! j)" if "j < CRT_SIZE" for j
    using that d(2) by (auto simp: nth_list_update)
  then show ?case using d1(1) d(1) by auto
qed

lemma scroll_screen:
  assumes "video_memory P"
  shows "\<exists>d. scroll P s = Inr (s\<lparr>dev := d, crt_pos := crt_pos s - 80\<rparr>)
    \<and> screen P (s\<lparr>dev := d\<rparr>) = drop 80 (screen P s) @ replicate 80 0x0720"
proof -
  obtain d1 where d1: "copy_cells P 1920 0 s = Inr (s\<lparr>dev := d1\<rparr>)"
    "\<forall>j < 2000. screen P (s\<lparr>dev := d1\<rparr>) ! j = (if j < 1920 then screen P s ! (j + 80) else screen P s ! j)"
    using copy_cells_screen [OF assms, of 0 1920 s] by (auto simp: CRT_SIZE_def CRT_COLS_def)
  obtain d where d: "blank_cells P 80 1920 (s\<lparr>dev := d1\<rparr>) = Inr (s\<lparr>dev := d\<rparr>)"
    "\<forall>j < 2000. screen P (s\<lparr>dev := d\<rparr>) ! j = (if 1920 \<le> j then 0x0720 else screen P (s\<lparr>dev := d1\<rparr>) ! j)"
    using blank_cells_screen [OF assms, of 1920 80 "s\<lparr>dev := d1\<rparr>"] by (auto simp: CRT_SIZE_def CRT_COLS_def)
  have "screen P (s\<lparr>dev := d\<rparr>) = drop 80 (screen P s) @ replicate 80 0x0720"
    using d1(2) d(2) by (intro nth_equalityI) (auto simp: CRT_SIZE_def nth_append add.commute)
  then show ?thesis using d1(1) d(1) by (auto simp: scroll_def CRT_SIZE_def CRT_COLS_def)
qed

section \<open>The specification of the display\<close>

text \<open>The cells and the cursor after the switch of cga_putc(), then after the check for scrolling.\<close>

definition key_effect :: "u32 \<Rightarrow> u16 list \<times> nat \<Rightarrow> u16 list \<times> nat" where
  "key_effect ch = (\<lambda>(cells, pos).
     let c = with_attribute ch in
     if ch AND 0xFF = 0x08 then
       if pos > 0 then (cells[pos - 1 := ucast ((c AND NOT 0xFF) OR 0x20)], pos - 1) else (cells, pos)
     else if ch AND 0xFF = 0x0A then (cells, (pos div 80 + 1) * 80)
     else if ch AND 0xFF = 0x0D then (cells, pos div 80 * 80)
     else (cells[pos := ucast c], pos + 1))"

definition scroll_up :: "u16 list \<times> nat \<Rightarrow> u16 list \<times> nat" where
  "scroll_up = (\<lambda>(cells, pos).
     if pos \<ge> 2000 then (drop 80 cells @ replicate 80 0x0720, pos - 80) else (cells, pos))"

text \<open>A tab is five blanks.\<close>

definition type_char :: "u32 \<Rightarrow> u16 list \<times> nat \<Rightarrow> u16 list \<times> nat" where
  "type_char c v =
     (if c AND 0xFF = 0x09
      then (let blank = (\<lambda>v. scroll_up (key_effect 0x20 v)) in blank (blank (blank (blank (blank v)))))
      else scroll_up (key_effect c v))"

definition view :: "'d ports \<Rightarrow> 'd console \<Rightarrow> u16 list \<times> nat" where
  "view P s = (screen P s, unat (crt_pos s))"

definition on_screen :: "'d console \<Rightarrow> bool" where
  "on_screen s \<longleftrightarrow> unat (crt_pos s) < 2000"

text \<open>Only the devices and the cursor differ.\<close>

definition redrawn :: "'d console \<Rightarrow> 'd console \<Rightarrow> bool" where
  "redrawn s t \<longleftrightarrow> (\<exists>d p. t = s\<lparr>dev := d, crt_pos := p\<rparr>)"

lemma redrawn_trans:
  assumes "redrawn s t" and "redrawn t u"
  shows "redrawn s u"
proof -
  obtain d p d' p' where "t = s\<lparr>dev := d, crt_pos := p\<rparr>" "u = t\<lparr>dev := d', crt_pos := p'\<rparr>"
    using assms unfolding redrawn_def by blast
  then have "u = s\<lparr>dev := d', crt_pos := p'\<rparr>" by simp
  then show ?thesis unfolding redrawn_def by blast
qed

lemma redrawn_refl [simp]: "redrawn s s"
  unfolding redrawn_def by (intro exI [of _ "dev s"] exI [of _ "crt_pos s"]) simp

lemma redrawn_pos: "redrawn s t \<Longrightarrow> redrawn s (t\<lparr>crt_pos := q\<rparr>)"
proof -
  assume "redrawn s t"
  then obtain d p where "t = s\<lparr>dev := d, crt_pos := p\<rparr>" unfolding redrawn_def by blast
  then have "t\<lparr>crt_pos := q\<rparr> = s\<lparr>dev := d, crt_pos := q\<rparr>" by simp
  then show ?thesis unfolding redrawn_def by blast
qed

lemma quiet_view: "quiet P s t \<Longrightarrow> view P t = view P s \<and> redrawn s t \<and> crt_pos t = crt_pos s"
proof -
  assume q: "quiet P s t"
  then obtain d where t: "t = s\<lparr>dev := d\<rparr>" unfolding quiet_def by blast
  then have "redrawn s t" unfolding redrawn_def by (intro exI [of _ d] exI [of _ "crt_pos s"]) simp
  then show ?thesis using t quiet_screen [OF q] by (simp add: view_def)
qed

lemma screen_pos [simp]: "screen P (s\<lparr>crt_pos := p\<rparr>) = screen P s"
  by (simp add: screen_def cell_def)

lemma unat_u16_add: "unat (a :: u16) + n < 65536 \<Longrightarrow> unat (a + of_nat n) = unat a + n"
  by (simp add: unat_word_ariths unat_of_nat)

lemma row_start: "unat ((p :: u16) - p mod 80) = unat p div 80 * 80"
proof -
  have "p mod 80 \<le> p" by (simp add: word_le_nat_alt unat_mod)
  then have "unat (p - p mod 80) = unat p - unat p mod 80" by (simp add: unat_sub unat_mod)
  then show ?thesis by (simp add: minus_mod_eq_div_mult)
qed

text \<open>The end of cga_putc(): scrolling if needed, and moving the cursor.\<close>

lemma finish_view:
  assumes "video_memory P" and "unat (crt_pos s) < 2080"
  shows "\<exists>t. rbind (if crt_pos s \<ge> of_nat CRT_SIZE then scroll P s else Inr s) (\<lambda>s. Inr (move_cursor P s)) = Inr t
    \<and> view P t = scroll_up (view P s) \<and> redrawn s t \<and> on_screen t"
proof (cases "unat (crt_pos s) \<ge> 2000")
  case True
  then have ge: "crt_pos s \<ge> of_nat CRT_SIZE" by (simp add: word_le_nat_alt CRT_SIZE_def)
  obtain d where d: "scroll P s = Inr (s\<lparr>dev := d, crt_pos := crt_pos s - 80\<rparr>)"
    "screen P (s\<lparr>dev := d\<rparr>) = drop 80 (screen P s) @ replicate 80 0x0720"
    using scroll_screen [OF assms(1)] by blast
  have "(80 :: u16) \<le> crt_pos s" using True by (simp add: word_le_nat_alt)
  then have p: "unat (crt_pos s - 80) = unat (crt_pos s) - 80" by (simp add: unat_sub)
  let ?t = "s\<lparr>dev := d, crt_pos := crt_pos s - 80\<rparr>"
  have "view P ?t = scroll_up (view P s)"
    using d(2) True p by (simp add: view_def scroll_up_def)
  moreover have "redrawn s ?t" unfolding redrawn_def by blast
  ultimately show ?thesis
    using quiet_view [OF quiet_move_cursor [OF assms(1), of ?t]] d(1) ge p assms(2) True
    by (auto simp: on_screen_def intro: redrawn_trans)
next
  case False
  then have "\<not> crt_pos s \<ge> of_nat CRT_SIZE" by (simp add: word_le_nat_alt CRT_SIZE_def)
  then show ?thesis
    using quiet_view [OF quiet_move_cursor [OF assms(1), of s]] False
    by (auto simp: on_screen_def view_def scroll_up_def)
qed

lemma store_view:
  assumes "video_memory P" and "unat p < 2000"
  shows "\<exists>t. crt_store P (unat p) v (s\<lparr>crt_pos := q\<rparr>) = Inr t \<and> view P t = ((screen P s)[unat p := v], unat q)
    \<and> redrawn s t \<and> crt_pos t = q"
proof -
  obtain d where d: "crt_store P (unat p) v (s\<lparr>crt_pos := q\<rparr>) = Inr (s\<lparr>crt_pos := q, dev := d\<rparr>)"
    "screen P (s\<lparr>crt_pos := q, dev := d\<rparr>) = (screen P s)[unat p := v]"
    using crt_store_screen [OF assms(1), of "unat p" v "s\<lparr>crt_pos := q\<rparr>"] assms(2)
    by (auto simp: CRT_SIZE_def)
  moreover have "redrawn s (s\<lparr>crt_pos := q, dev := d\<rparr>)"
    unfolding redrawn_def by (intro exI [of _ d] exI [of _ q]) simp
  ultimately show ?thesis by (auto simp: view_def)
qed

section \<open>The display does what is specified\<close>

text \<open>A character other than a tab.\<close>

lemma cga_putc_plain:
  assumes P: "video_memory P" and pos: "on_screen s" and c: "ch AND 0xFF \<noteq> 0x09"
  shows "\<exists>t. cga_putc P ch s = Inr t \<and> view P t = scroll_up (key_effect ch (view P s)) \<and> redrawn s t \<and> on_screen t"
proof -
  have u: "unat (crt_pos s) < 2000" using pos by (simp add: on_screen_def)
  define rest where "rest = (\<lambda>s. rbind (if crt_pos s \<ge> of_nat CRT_SIZE then scroll P s else Inr s) (\<lambda>s. Inr (move_cursor P s)))"
  have fin: "\<exists>t. rest r = Inr t \<and> view P t = scroll_up (view P r) \<and> redrawn s t \<and> on_screen t"
    if "redrawn s r" "unat (crt_pos r) < 2080" for r
    using finish_view [OF P that(2)] redrawn_trans [OF that(1)] unfolding rest_def by blast
  note step = cga_putc.simps [of P ch s, folded rest_def, unfolded Let_def with_attribute_low]
  consider (bs) "ch AND 0xFF = 0x08" "0 < unat (crt_pos s)" | (bs0) "ch AND 0xFF = 0x08" "unat (crt_pos s) = 0"
    | (nl) "ch AND 0xFF = 0x0A" | (cr) "ch AND 0xFF = 0x0D"
    | (other) "ch AND 0xFF \<noteq> 0x08" "ch AND 0xFF \<noteq> 0x0A" "ch AND 0xFF \<noteq> 0x0D" by blast
  then show ?thesis
  proof cases
    case bs
    then have g: "crt_pos s > 0" by (simp add: word_less_nat_alt)
    then have q: "unat (crt_pos s - 1) = unat (crt_pos s) - 1" by (intro unat_minus_one) auto
    obtain r where "crt_store P (unat (crt_pos s - 1)) (ucast ((with_attribute ch AND NOT 0xFF) OR 0x20)) (s\<lparr>crt_pos := crt_pos s - 1\<rparr>) = Inr r"
      "view P r = ((screen P s)[unat (crt_pos s - 1) := ucast ((with_attribute ch AND NOT 0xFF) OR 0x20)], unat (crt_pos s - 1))"
      "redrawn s r" "crt_pos r = crt_pos s - 1"
      using store_view [OF P, of "crt_pos s - 1"] q u by fastforce
    then show ?thesis using fin [of r] bs g q u by (simp add: step key_effect_def view_def Let_def)
  next
    case bs0
    then have "\<not> crt_pos s > 0" by (simp add: word_less_nat_alt)
    then show ?thesis using fin [of s] bs0 u by (simp add: step key_effect_def view_def)
  next
    case nl
    let ?p = "crt_pos s + of_nat CRT_COLS"
    have a: "unat ?p = unat (crt_pos s) + 80" using u by (subst unat_u16_add) (simp_all add: CRT_COLS_def)
    let ?q = "?p - ?p mod of_nat CRT_COLS"
    have q: "unat ?q = (unat (crt_pos s) div 80 + 1) * 80" using row_start [of ?p] a div_add_self2 [of 80 "unat (crt_pos s)"] by (simp add: CRT_COLS_def)
    have "unat (crt_pos s) div 80 < 25" using u by (intro less_mult_imp_div_less) simp
    then have "unat ?q < 2080" using q by simp
    moreover have "redrawn s (s\<lparr>crt_pos := ?q\<rparr>)" by (intro redrawn_pos redrawn_refl)
    ultimately show ?thesis using fin [of "s\<lparr>crt_pos := ?q\<rparr>"] nl q by (simp add: step key_effect_def view_def)
  next
    case cr
    let ?q = "crt_pos s - crt_pos s mod of_nat CRT_COLS"
    have q: "unat ?q = unat (crt_pos s) div 80 * 80" using row_start [of "crt_pos s"] by (simp add: CRT_COLS_def)
    then have "unat ?q < 2080" using u div_times_less_eq_dividend [of "unat (crt_pos s)" 80] by linarith
    moreover have "redrawn s (s\<lparr>crt_pos := ?q\<rparr>)" by (intro redrawn_pos redrawn_refl)
    ultimately show ?thesis using fin [of "s\<lparr>crt_pos := ?q\<rparr>"] cr q by (simp add: step key_effect_def view_def)
  next
    case other
    obtain r where r: "crt_store P (unat (crt_pos s)) (ucast (with_attribute ch)) s = Inr r"
      "view P r = ((screen P s)[unat (crt_pos s) := ucast (with_attribute ch)], unat (crt_pos s))"
      "redrawn s r" "crt_pos r = crt_pos s"
      using store_view [OF P u, of "ucast (with_attribute ch)" "crt_pos s" s] by auto
    let ?r = "r\<lparr>crt_pos := crt_pos s + 1\<rparr>"
    have a: "unat (crt_pos s + 1) = unat (crt_pos s) + 1" using u unat_u16_add [of "crt_pos s" 1] by simp
    have "redrawn s ?r" using r(3) by (rule redrawn_pos)
    then show ?thesis using fin [of ?r] other r a u c
      by (simp add: step key_effect_def view_def Let_def)
  qed
qed

lemma cons_putc_plain:
  assumes "video_memory P" and "on_screen s" and "ch AND 0xFF \<noteq> 0x09"
  shows "\<exists>t. cons_putc P ch s = Inr t \<and> view P t = scroll_up (key_effect ch (view P s)) \<and> redrawn s t \<and> on_screen t"
proof -
  let ?s = "lpt_putc P ch s"
  have q: "view P ?s = view P s" "redrawn s ?s" "crt_pos ?s = crt_pos s"
    using quiet_view [OF quiet_lpt_putc [OF assms(1), of s ch]] by simp_all
  then show ?thesis
    using cga_putc_plain [OF assms(1) _ assms(3), of ?s] assms(2) redrawn_trans [OF q(2)]
    by (auto simp: cons_putc_def on_screen_def)
qed

lemma scroll_up_id: "snd v < 2000 \<Longrightarrow> scroll_up v = v"
  by (cases v) (simp add: scroll_up_def)

lemma cons_putc_view:
  assumes P: "video_memory P" and "on_screen s"
  shows "\<exists>t. cons_putc P ch s = Inr t \<and> view P t = type_char ch (view P s) \<and> redrawn s t \<and> on_screen t"
proof (cases "ch AND 0xFF = 0x09")
  case False
  then show ?thesis using cons_putc_plain [OF assms False] by (simp add: type_char_def)
next
  case True
  have blank: "\<exists>t. cons_putc P 0x20 r = Inr t \<and> view P t = scroll_up (key_effect 0x20 (view P r))
      \<and> redrawn s t \<and> on_screen t" if "on_screen r" "redrawn s r" for r
    using cons_putc_plain [OF P that(1), of "0x20"] redrawn_trans [OF that(2)] by auto
  let ?s = "lpt_putc P ch s"
  have q: "view P ?s = view P s" "redrawn s ?s" "on_screen ?s"
    using quiet_view [OF quiet_lpt_putc [OF P, of s ch]] assms(2) by (simp_all add: on_screen_def)
  define f where "f v = scroll_up (key_effect 0x20 v)" for v
  obtain t1 where t1: "cons_putc P 0x20 ?s = Inr t1" "view P t1 = f (view P s)" "redrawn s t1" "on_screen t1"
    using blank [OF q(3,2)] q(1) by (auto simp: f_def)
  obtain t2 where t2: "cons_putc P 0x20 t1 = Inr t2" "view P t2 = f (view P t1)" "redrawn s t2" "on_screen t2"
    using blank [OF t1(4,3)] by (auto simp: f_def)
  obtain t3 where t3: "cons_putc P 0x20 t2 = Inr t3" "view P t3 = f (view P t2)" "redrawn s t3" "on_screen t3"
    using blank [OF t2(4,3)] by (auto simp: f_def)
  obtain t4 where t4: "cons_putc P 0x20 t3 = Inr t4" "view P t4 = f (view P t3)" "redrawn s t4" "on_screen t4"
    using blank [OF t3(4,3)] by (auto simp: f_def)
  obtain t5 where t5: "cons_putc P 0x20 t4 = Inr t5" "view P t5 = f (view P t4)" "redrawn s t5" "on_screen t5"
    using blank [OF t4(4,3)] by (auto simp: f_def)
  have "unat (crt_pos t5) < 2080" using t5(4) by (simp add: on_screen_def)
  from finish_view [OF P this] obtain t where
    t: "rbind (if crt_pos t5 \<ge> of_nat CRT_SIZE then scroll P t5 else Inr t5) (\<lambda>s. Inr (move_cursor P s)) = Inr t"
      "view P t = scroll_up (view P t5)" "redrawn t5 t" "on_screen t" by blast
  have "cons_putc P ch s = Inr t"
    using t(1) t1(1) t2(1) t3(1) t4(1) t5(1) True
    unfolding cons_putc_def by (simp only: cga_putc.simps [of P ch ?s] Let_def with_attribute_low) simp
  moreover have "view P t = view P t5" using t(2) t5(4) scroll_up_id [of "view P t5"] by (simp add: on_screen_def view_def)
  moreover have "redrawn s t" using t5(3) t(3) by (rule redrawn_trans)
  ultimately show ?thesis using True t(4) t1(2) t2(2) t3(2) t4(2) t5(2) by (auto simp: type_char_def f_def Let_def)
qed

section \<open>The kernel's cprintf\<close>

definition strings_in :: "bytes \<Rightarrow> (u32 \<Rightarrow> u8 list option) \<Rightarrow> bool" where
  "strings_in m str \<longleftrightarrow> (\<forall>p xs. str p = Some xs \<longrightarrow> cstr m p xs \<and> length xs < 2 ^ 30)"

interpretation kprint: character_sink "\<lambda>_. m" "kern_putch P" "\<lambda>_. strings_in m str" str
  for m P str
  by standard (auto simp: strings_in_def)

lemma fold_kern_putch:
  assumes P: "video_memory P"
  shows "on_screen s \<Longrightarrow> \<exists>t. fold (kern_putch P) out (Inr s) = Inr t \<and> view P t = fold type_char out (view P s)
    \<and> redrawn s t \<and> on_screen t"
proof (induction out arbitrary: s)
  case Nil
  then show ?case by auto
next
  case (Cons c out)
  obtain r where r: "cons_putc P c s = Inr r" "view P r = type_char c (view P s)" "redrawn s r" "on_screen r"
    using cons_putc_view [OF P Cons.prems] by blast
  from Cons.IH [OF r(4)] show ?case
    using r redrawn_trans [OF r(3)] by (auto simp: kern_putch_def cputchar_def)
qed

lemma kern_cprintf_text:
  assumes "video_memory P" and "on_screen s" and "strings_in m str" and "format_text str fmt ap = Some (Inr out)"
  shows "\<exists>t. kern_cprintf P m fmt ap s = Inr (0, t) \<and> view P t = fold type_char out (view P s)
    \<and> redrawn s t \<and> on_screen t"
proof -
  have "vprintfmt (\<lambda>_. m) (kern_putch P) fmt ap (Inr s) = Some (Inr (fold (kern_putch P) out (Inr s)))"
    using kprint.vprintfmt_text [OF assms(4,3), of P "Inr s"] by simp
  then show ?thesis
    using fold_kern_putch [OF assms(1,2), of out] by (auto simp: kern_cprintf_def kern_vcprintf_def)
qed

section \<open>Properties\<close>

text \<open>
  C31. Whatever the character, cons_putc() returns, writes only cells of the screen, leaves the cursor
  on the screen, and changes the cells and the cursor as specified: a character goes to the cursor
  with its attribute, a backspace blanks the cell before it, a newline goes to the start of the next
  row, a tab types five blanks, and past the last cell the rows move up by one.
\<close>

theorem cons_putc_types:
  assumes "video_memory P" and "on_screen s"
  shows "\<exists>t. cons_putc P ch s = Inr t \<and> view P t = type_char ch (view P s) \<and> redrawn s t \<and> on_screen t"
  using assms by (rule cons_putc_view)

text \<open>A machine whose video memory is a map and whose ports always answer 0x80.\<close>

definition ram_ports :: "(u32 \<Rightarrow> u16) ports" where
  "ram_ports = \<lparr>port_in = \<lambda>p d. (0x80, d), port_out = \<lambda>p v d. d, video_ld = \<lambda>a d. d a, video_st = \<lambda>a v d. d(a := v)\<rparr>"

definition blank_console :: "u16 \<Rightarrow> (u32 \<Rightarrow> u16) console" where
  "blank_console pos =
     \<lparr>dev = \<lambda>_. 0x0720, serial_exists = False, addr_6845 = 0x3D4, crt_buf = 0xF00B8000, crt_pos = pos,
      kbd_shift = 0, cons_buf = replicate 512 0, cons_rpos = 0, cons_wpos = 0\<rparr>"

lemma ram_video: "video_memory ram_ports"
  by (simp add: video_memory_def ram_ports_def)

lemma blank_view: "view ram_ports (blank_console pos) = (replicate 2000 0x0720, unat pos)"
  by (rule prod_eqI) (auto simp: view_def screen_def blank_console_def ram_ports_def CRT_SIZE_def intro!: nth_equalityI)

theorem cons_putc_types_witness:
  "\<exists>t. cons_putc ram_ports 0x41 (blank_console 1999) = Inr t
    \<and> view ram_ports t = (drop 80 ((replicate 2000 0x0720)[1999 := 0x0741]) @ replicate 80 0x0720, 1920)"
proof -
  have "on_screen (blank_console 1999)" by (simp add: on_screen_def blank_console_def)
  from cons_putc_types [OF ram_video this, of "0x41"] show ?thesis
    by (auto simp: blank_view type_char_def scroll_up_def key_effect_def with_attribute_def)
qed

text \<open>
  The kernel's cprintf() types the text of its format on the screen and returns 0: the count of
  the characters is never incremented.
\<close>

theorem kern_cprintf_types:
  assumes "video_memory P" and "on_screen s" and "strings_in m str" and "format_text str fmt ap = Some (Inr out)"
  shows "\<exists>t. kern_cprintf P m fmt ap s = Inr (0, t) \<and> view P t = fold type_char out (view P s)
    \<and> redrawn s t \<and> on_screen t"
  using assms by (rule kern_cprintf_text)

theorem kern_cprintf_types_witness:
  "\<exists>t. kern_cprintf ram_ports (\<lambda>_. 0) (ascii ''%x'' @ [0x0A]) [Word 11] (blank_console 0) = Inr (0, t)
    \<and> view ram_ports t = ((replicate 2000 0x0720)[0 := 0x0762], 80)"
proof -
  have s: "on_screen (blank_console 0)" "strings_in (\<lambda>_. 0) (\<lambda>_. None)"
    by (simp_all add: on_screen_def blank_console_def strings_in_def)
  have f: "format_text (\<lambda>_. None) (ascii ''%x'' @ [0x0A]) [Word 11] = Some (Inr [0x62, 0x0A])" by code_simp
  from kern_cprintf_types [OF ram_video s f] show ?thesis
    by (auto simp: blank_view type_char_def scroll_up_def key_effect_def with_attribute_def)
qed

end
