(* ===== verification/FOS_ConsoleQueue.thy ===== *)
theory FOS_ConsoleQueue
  imports FOS_Console
begin

text \<open>
  The circular input buffer of the console as a queue. \<open>input_queue\<close> is the contract between the
  device interrupts, which put characters, and the readers, which take them; the console's buffer
  keeps it for up to 511 characters, and loses all of them when one more arrives.
\<close>

section \<open>The contract\<close>

fun put_all :: "(u32 \<Rightarrow> 's \<Rightarrow> 's result) \<Rightarrow> u32 list \<Rightarrow> 's \<Rightarrow> 's result" where
  "put_all put1 [] s = Inr s"
| "put_all put1 (c # cs) s = rbind (put1 c s) (put_all put1 cs)"

fun take_many :: "('s \<Rightarrow> (u32 \<times> 's) result) \<Rightarrow> nat \<Rightarrow> 's \<Rightarrow> (u32 list \<times> 's) result" where
  "take_many take1 0 s = Inr ([], s)"
| "take_many take1 (Suc n) s =
     rbind (take1 s) (\<lambda>(c, s). rbind (take_many take1 n s) (\<lambda>(cs, s). Inr (c # cs, s)))"

locale input_queue =
  fixes put1 :: "u32 \<Rightarrow> 's \<Rightarrow> 's result"
    and take1 :: "'s \<Rightarrow> (u32 \<times> 's) result"
    and contents :: "'s \<Rightarrow> u8 list"
    and ok :: "'s \<Rightarrow> bool"
    and capacity :: nat
  assumes put_back: "ok s \<Longrightarrow> length (contents s) < capacity \<Longrightarrow>
      \<exists>t. put1 c s = Inr t \<and> ok t \<and> contents t = contents s @ [ucast c]"
    and take_front: "ok s \<Longrightarrow> contents s = x # xs \<Longrightarrow> \<exists>t. take1 s = Inr (ucast x, t) \<and> ok t \<and> contents t = xs"
    and take_none: "ok s \<Longrightarrow> contents s = [] \<Longrightarrow> take1 s = Inr (0, s)"
begin

lemma put_all_back:
  "ok s \<Longrightarrow> length (contents s) + length cs \<le> capacity \<Longrightarrow>
   \<exists>t. put_all put1 cs s = Inr t \<and> ok t \<and> contents t = contents s @ map ucast cs"
proof (induction cs arbitrary: s)
  case (Cons c cs)
  then obtain t where t: "put1 c s = Inr t" "ok t" "contents t = contents s @ [ucast c]"
    using put_back [of s c] by auto
  then show ?case using Cons.IH [of t] Cons.prems(2) by auto
qed simp

lemma take_many_front:
  "ok s \<Longrightarrow> n \<le> length (contents s) \<Longrightarrow>
   \<exists>t. take_many take1 n s = Inr (map ucast (take n (contents s)), t) \<and> ok t \<and> contents t = drop n (contents s)"
proof (induction n arbitrary: s)
  case (Suc n)
  then obtain x xs where x: "contents s = x # xs" by (cases "contents s") auto
  then obtain t where t: "take1 s = Inr (ucast x, t)" "ok t" "contents t = xs"
    using take_front [OF Suc.prems(1)] by blast
  then show ?case using Suc.IH [of t] Suc.prems(2) x by auto
qed simp

lemma put_then_take:
  assumes "ok s" and "contents s = []" and "length cs \<le> capacity"
  shows "\<exists>t. rbind (put_all put1 cs s) (take_many take1 (length cs)) = Inr (map (\<lambda>c. ucast (ucast c :: u8)) cs, t)
    \<and> ok t \<and> contents t = [] \<and> take1 t = Inr (0, t)"
proof -
  obtain u where u: "put_all put1 cs s = Inr u" "ok u" "contents u = map ucast cs"
    using put_all_back [OF assms(1), of cs] assms(2,3) by auto
  then obtain t where "take_many take1 (length cs) u = Inr (map (\<lambda>c. ucast (ucast c :: u8)) cs, t)" "ok t" "contents t = []"
    using take_many_front [of u "length cs"] by auto
  then show ?thesis using u take_none by auto
qed

end

section \<open>The circular buffer\<close>

definition waiting :: "'d console \<Rightarrow> nat" where
  "waiting s = (unat (cons_wpos s) + 512 - unat (cons_rpos s)) mod 512"

definition cons_contents :: "'d console \<Rightarrow> u8 list" where
  "cons_contents s = map (\<lambda>i. cons_buf s ! ((unat (cons_rpos s) + i) mod 512)) [0..<waiting s]"

definition cons_ok :: "'d console \<Rightarrow> bool" where
  "cons_ok s \<longleftrightarrow> length (cons_buf s) = 512 \<and> cons_rpos s < CONSBUFSIZE \<and> cons_wpos s < CONSBUFSIZE"

lemma cons_contents_length [simp]: "length (cons_contents s) = waiting s"
  by (simp add: cons_contents_def)

text \<open>Moving a position on by one, around the end of the buffer.\<close>

lemma next_position:
  assumes "w < CONSBUFSIZE"
  shows "unat (if w + 1 = CONSBUFSIZE then 0 else w + 1) = (unat w + 1) mod 512"
    and "(if w + 1 = CONSBUFSIZE then 0 else w + 1) < CONSBUFSIZE"
proof -
  have u: "unat (w + 1) = unat w + 1" "unat w < 512"
    using assms unat_plus1_less [OF assms] by (simp_all add: CONSBUFSIZE_def word_less_nat_alt)
  have "w + 1 = CONSBUFSIZE \<longleftrightarrow> unat w + 1 = 512" using u(1) by (simp add: CONSBUFSIZE_def word_unat_eq_iff)
  then show "unat (if w + 1 = CONSBUFSIZE then 0 else w + 1) = (unat w + 1) mod 512"
    "(if w + 1 = CONSBUFSIZE then 0 else w + 1) < CONSBUFSIZE"
    using u by (auto simp: CONSBUFSIZE_def word_less_nat_alt)
qed

lemma waiting_if:
  assumes "r < 512" and "w < 512"
  shows "(w + 512 - r) mod 512 = (if r \<le> w then w - r else w + 512 - r :: nat)"
  using assms by (auto simp: mod_if)

lemma waiting_put:
  assumes "r < 512" and "w < 512"
  shows "((w + 1) mod 512 + 512 - r) mod 512
    = (if (w + 512 - r) mod 512 = 511 then 0 else (w + 512 - r) mod 512 + 1 :: nat)"
proof (cases "w = 511")
  case True
  then show ?thesis using assms by (simp add: waiting_if) (auto simp: mod_if)
next
  case False
  then have "(w + 1) mod 512 = w + 1" using assms by simp
  then show ?thesis using assms waiting_if [OF assms] waiting_if [OF assms(1), of "w + 1"] False by auto
qed

lemma waiting_take:
  assumes "r < 512" and "w < 512" and "r \<noteq> w"
  shows "(w + 512 - r) mod 512 = Suc ((w + 512 - (r + 1) mod 512) mod 512)"
proof (cases "r = 511")
  case True
  then show ?thesis using assms by (simp add: waiting_if)
next
  case False
  then have "(r + 1) mod 512 = r + 1" using assms by simp
  then show ?thesis using assms waiting_if [OF assms(1,2)] waiting_if [of "r + 1" w] False by auto
qed

lemma positions: "cons_ok s \<Longrightarrow> unat (cons_rpos s) < 512 \<and> unat (cons_wpos s) < 512 \<and> length (cons_buf s) = 512"
  by (auto simp: cons_ok_def CONSBUFSIZE_def word_less_nat_alt)

text \<open>What putting does, whether or not there is room.\<close>

lemma cons_put_result:
  assumes "cons_ok s"
  defines "w \<equiv> unat (cons_wpos s)"
  shows "\<exists>t. cons_put c s = Inr t \<and> cons_ok t \<and> cons_buf t = (cons_buf s)[w := ucast c]
    \<and> cons_rpos t = cons_rpos s \<and> unat (cons_wpos t) = (w + 1) mod 512
    \<and> (\<exists>b v. t = s\<lparr>cons_buf := b, cons_wpos := v\<rparr>)"
proof -
  have ok: "cons_wpos s < CONSBUFSIZE" using assms(1) by (simp add: cons_ok_def)
  define v where "v = (if cons_wpos s + 1 = CONSBUFSIZE then 0 else cons_wpos s + 1)"
  define t where "t = s\<lparr>cons_buf := (cons_buf s)[w := ucast c], cons_wpos := v\<rparr>"
  have "cons_put c s = Inr t" using ok by (simp add: cons_put_def t_def v_def w_def Let_def)
  moreover have "cons_ok t" using assms(1) next_position(2) [OF ok] by (simp add: cons_ok_def t_def v_def)
  moreover have "unat (cons_wpos t) = (w + 1) mod 512" using next_position(1) [OF ok] by (simp add: t_def v_def w_def)
  ultimately show ?thesis unfolding t_def by auto
qed

lemma cons_put_back:
  assumes "cons_ok s" and "waiting s < 511"
  shows "\<exists>t. cons_put c s = Inr t \<and> cons_ok t \<and> cons_contents t = cons_contents s @ [ucast c]"
proof -
  obtain t where t: "cons_put c s = Inr t" "cons_ok t" "cons_buf t = (cons_buf s)[unat (cons_wpos s) := ucast c]"
    "cons_rpos t = cons_rpos s" "unat (cons_wpos t) = (unat (cons_wpos s) + 1) mod 512"
    using cons_put_result [OF assms(1), of c] by blast
  define r w n where "r = unat (cons_rpos s)" and "w = unat (cons_wpos s)" and "n = waiting s"
  have b: "r < 512" "w < 512" "length (cons_buf s) = 512" using positions [OF assms(1)] by (simp_all add: r_def w_def)
  have n: "n = (if r \<le> w then w - r else w + 512 - r)"
    using waiting_if [OF b(1,2)] by (simp add: n_def waiting_def w_def r_def)
  have nt: "waiting t = n + 1"
    using waiting_put [OF b(1,2)] t(4,5) assms(2) by (simp add: waiting_def n_def r_def w_def)
  have at: "(r + i) mod 512 = (if r + i < 512 then r + i else r + i - 512)" if "i \<le> n" for i
  proof -
    have "n < 512" using n b by (auto split: if_splits)
    then show ?thesis using that b(1) by (simp add: le_mod_geq)
  qed
  have e: "(r + n) mod 512 = w" using n b by (simp add: at split: if_splits)
  have ne: "(r + i) mod 512 \<noteq> w" if "i < n" for i using that n b by (auto simp: at split: if_splits)
  have "cons_contents t = map (\<lambda>i. (cons_buf s)[w := ucast c] ! ((r + i) mod 512)) [0..<n + 1]"
    unfolding cons_contents_def nt t(3,4) by (simp add: r_def w_def)
  also have "\<dots> = map (\<lambda>i. cons_buf s ! ((r + i) mod 512)) [0..<n] @ [ucast c]"
    using e b not_sym [OF ne] by simp
  also have "\<dots> = cons_contents s @ [ucast c]" by (simp add: cons_contents_def n_def r_def)
  finally have "cons_contents t = cons_contents s @ [ucast c]" .
  then show ?thesis using t by blast
qed

lemma cons_put_overrun:
  assumes "cons_ok s" and "waiting s = 511"
  shows "\<exists>t. cons_put c s = Inr t \<and> cons_ok t \<and> cons_contents t = []"
proof -
  obtain t where t: "cons_put c s = Inr t" "cons_ok t" "cons_rpos t = cons_rpos s"
    "unat (cons_wpos t) = (unat (cons_wpos s) + 1) mod 512"
    using cons_put_result [OF assms(1), of c] by blast
  have b: "unat (cons_rpos s) < 512" "unat (cons_wpos s) < 512" using positions [OF assms(1)] by simp_all
  then have "waiting t = 0"
    using assms(2) t(3,4) waiting_put [OF b] by (simp add: waiting_def)
  then show ?thesis using t by (auto simp: cons_contents_def)
qed

lemma cons_take_front:
  assumes "cons_ok s" and "cons_contents s = x # xs"
  shows "\<exists>t. cons_take s = Inr (ucast x, t) \<and> cons_ok t \<and> cons_contents t = xs"
proof -
  define r w n where "r = unat (cons_rpos s)" and "w = unat (cons_wpos s)" and "n = waiting s"
  have b: "r < 512" "w < 512" "length (cons_buf s) = 512" using positions [OF assms(1)] by (simp_all add: r_def w_def)
  have n: "n = (if r \<le> w then w - r else w + 512 - r)"
    using waiting_if [OF b(1,2)] by (simp add: n_def waiting_def w_def r_def)
  have n1: "n = Suc (length xs)" using arg_cong [OF assms(2), of length] by (simp add: n_def)
  have ok: "cons_rpos s < CONSBUFSIZE" using assms(1) by (simp add: cons_ok_def)
  define v where "v = (if cons_rpos s + 1 = CONSBUFSIZE then 0 else cons_rpos s + 1)"
  have v: "unat v = (r + 1) mod 512" "v < CONSBUFSIZE" using next_position [OF ok] by (simp_all add: v_def r_def)
  define t where "t = s\<lparr>cons_rpos := v\<rparr>"
  have ne: "cons_rpos s \<noteq> cons_wpos s" using n n1 by (auto simp: r_def w_def)
  have c: "cons_contents s = map (\<lambda>i. cons_buf s ! ((r + i) mod 512)) [0..<Suc (length xs)]"
    using n1 by (simp add: cons_contents_def n_def r_def)
  have "x = cons_buf s ! r" using c assms(2) b by (simp add: upt_conv_Cons del: upt_Suc)
  then have tk: "cons_take s = Inr (ucast x, t)" using ok ne by (simp add: cons_take_def t_def v_def r_def Let_def)
  have ok': "cons_ok t" using assms(1) v by (simp add: cons_ok_def t_def)
  have "waiting t = length xs"
    using waiting_take [OF b(1,2)] ne n1 v(1) by (simp add: waiting_def t_def n_def r_def w_def word_unat_eq_iff)
  then have "cons_contents t = map (\<lambda>i. cons_buf s ! ((r + Suc i) mod 512)) [0..<length xs]"
    by (simp add: cons_contents_def t_def v mod_simps)
  moreover have "xs = map (\<lambda>i. cons_buf s ! ((r + i) mod 512)) (map Suc [0..<length xs])"
    using c assms(2) by (simp add: upt_conv_Cons map_Suc_upt del: upt_Suc map_map)
  ultimately have "cons_contents t = xs" by (simp add: o_def)
  then show ?thesis using tk ok' by blast
qed

interpretation console_input: input_queue cons_put cons_take cons_contents cons_ok 511
proof
  show "\<exists>t. cons_put c s = Inr t \<and> cons_ok t \<and> cons_contents t = cons_contents s @ [ucast c]"
    if "cons_ok s" "length (cons_contents s) < 511" for s c
    using that by (intro cons_put_back) simp_all
  show "\<exists>t. cons_take s = Inr (ucast x, t) \<and> cons_ok t \<and> cons_contents t = xs"
    if "cons_ok s" "cons_contents s = x # xs" for s x xs
    using that by (rule cons_take_front)
  show "cons_take s = Inr (0, s)" if "cons_ok s" "cons_contents s = []" for s
  proof -
    have "waiting s = 0" using that(2) cons_contents_length [of s] by simp
    then have "unat (cons_rpos s) = unat (cons_wpos s)"
      using positions [OF that(1)] waiting_if [of "unat (cons_rpos s)" "unat (cons_wpos s)"]
      by (auto simp: waiting_def split: if_splits)
    then show ?thesis by (simp add: cons_take_def word_unat_eq_iff)
  qed
qed

section \<open>Properties\<close>

definition fresh_console :: "'d \<Rightarrow> 'd console" where
  "fresh_console d =
     \<lparr>dev = d, serial_exists = False, addr_6845 = 0x3D4, crt_buf = 0xF00B8000, crt_pos = 0, kbd_shift = 0,
      cons_buf = replicate 512 0, cons_rpos = 0, cons_wpos = 0\<rparr>"

text \<open>
  The input buffer is a queue: up to 511 characters put into an empty buffer, wherever its two
  positions are, are taken out as bytes in the order in which they came, and then the buffer is empty
  again and the next read gives 0.
\<close>

theorem input_buffer_fifo:
  assumes "cons_ok s" and "cons_contents s = []" and "length cs \<le> 511"
  shows "\<exists>t. rbind (put_all cons_put cs s) (take_many cons_take (length cs)) = Inr (map (\<lambda>c. ucast (ucast c :: u8)) cs, t)
    \<and> cons_ok t \<and> cons_contents t = [] \<and> cons_take t = Inr (0, t)"
  using assms by (rule console_input.put_then_take)

theorem input_buffer_fifo_witness:
  "\<exists>t. rbind (put_all cons_put [0x61, 0x62] ((fresh_console 0 :: nat console)\<lparr>cons_rpos := 511, cons_wpos := 511\<rparr>))
        (take_many cons_take (length [0x61, 0x62 :: u32])) = Inr ([0x61, 0x62], t) \<and> cons_contents t = []"
proof -
  let ?s = "(fresh_console 0 :: nat console)\<lparr>cons_rpos := 511, cons_wpos := 511\<rparr>"
  have "cons_ok ?s" "cons_contents ?s = []"
    by (simp_all add: cons_ok_def cons_contents_def waiting_def fresh_console_def CONSBUFSIZE_def)
  from input_buffer_fifo [OF this, of "[0x61, 0x62]"] show ?thesis by auto
qed

text \<open>
  When 511 characters are waiting, the next one makes the buffer empty: all 512 of them are lost.
\<close>

theorem input_buffer_overrun:
  assumes "cons_ok s" and "length (cons_contents s) = 511"
  shows "\<exists>t. cons_put c s = Inr t \<and> cons_ok t \<and> cons_contents t = [] \<and> cons_take t = Inr (0, t)"
proof -
  obtain t where "cons_put c s = Inr t" "cons_ok t" "cons_contents t = []"
    using cons_put_overrun [OF assms(1), of c] assms(2) by auto
  then show ?thesis using console_input.take_none by blast
qed

theorem input_buffer_overrun_witness:
  "\<exists>t. cons_put 0x61 ((fresh_console 0 :: nat console)\<lparr>cons_rpos := 0, cons_wpos := 511\<rparr>) = Inr t
    \<and> cons_contents t = []"
  using input_buffer_overrun [of "(fresh_console 0 :: nat console)\<lparr>cons_rpos := 0, cons_wpos := 511\<rparr>" "0x61"]
  by (auto simp: cons_ok_def waiting_def fresh_console_def CONSBUFSIZE_def)

end
