(* ===== verification/FOS_Keyboard.thy ===== *)
theory FOS_Keyboard
  imports FOS_ConsoleQueue
begin

text \<open>
  The keyboard: which character a letter key gives, and how the keys that wait in the keyboard
  controller reach the input buffer and the reader.
\<close>

section \<open>Tables\<close>

lemma key_table_length: "length first \<le> 256 \<Longrightarrow> length (key_table first given) = 256"
proof -
  assume f: "length first \<le> 256"
  have "length (fold (\<lambda>(i, v) t. t[i := v]) given t) = length t" for t :: "u8 list"
    by (induction given arbitrary: t) auto
  then show ?thesis using f by (simp add: key_table_def)
qed

definition letter_key :: "nat \<Rightarrow> bool" where
  "letter_key d \<longleftrightarrow> d < 0x80 \<and> 0x61 \<le> normalmap ! d \<and> normalmap ! d \<le> 0x7A"

text \<open>What the tables hold for the letter keys.\<close>

lemma letter_tables:
  "list_all (\<lambda>d. 0x61 \<le> normalmap ! d \<and> normalmap ! d \<le> 0x7A \<longrightarrow>
     shiftmap ! d = normalmap ! d - 0x20 \<and> shiftcode ! d = 0 \<and> togglecode ! d = 0) [0..<0x80]"
  by code_simp

section \<open>Decoding\<close>

fun decode_all :: "u32 \<Rightarrow> u8 list \<Rightarrow> u32 \<times> u32 list" where
  "decode_all shift [] = (shift, [])"
| "decode_all shift (x # xs) =
     (let (c, shift) = kbd_decode x shift; (shift, cs) = decode_all shift xs
      in (shift, if c = 0 then cs else c # cs))"

lemma caps_byte:
  fixes c :: u32
  assumes "c < 0x100"
  shows "(if caps then if 0x61 \<le> c \<and> c \<le> 0x7A then c + 0x41 - 0x61
      else if 0x41 \<le> c \<and> c \<le> 0x5A then c + 0x61 - 0x41 else c else c) < 0x100"
proof -
  have m: "c + 0x41 - 0x61 = c - 0x20" "c + 0x61 - 0x41 = c + 0x20" by (simp_all add: algebra_simps)
  have "c - 0x20 < 0x100" if "0x61 \<le> c" "c \<le> 0x7A"
  proof -
    have "0x20 \<le> c" using that(1) by (simp add: word_le_nat_alt)
    then have "unat (c - 0x20) = unat c - 0x20" by (simp add: unat_sub)
    then show ?thesis using that by (simp add: word_le_nat_alt word_less_nat_alt)
  qed
  moreover have "c + 0x20 < 0x100" if "c \<le> 0x5A"
  proof -
    have "unat c \<le> 0x5A" using that by (simp add: word_le_nat_alt)
    then have "unat (c + 0x20) = unat c + 0x20" by (subst unat_add_u32) simp_all
    then show ?thesis using \<open>unat c \<le> 0x5A\<close> by (simp add: word_less_nat_alt)
  qed
  ultimately show ?thesis unfolding m using assms by simp
qed

lemma kbd_decode_byte: "fst (kbd_decode x shift) < 0x100"
proof -
  have u: "(ucast (b :: u8) :: u32) < 0x100" for b
    using unsigned_less [of b, where 'a = nat]
    by (simp add: word_less_nat_alt unsigned_ucast_eq take_bit_nat_eq_self)
  show ?thesis unfolding kbd_decode_def Let_def
    by (cases "shift AND E0ESC = 0") (simp_all only: if_True if_False prod.case if_distrib [of fst] fst_conv
        caps_byte [OF u] simp_thms split: if_split, simp_all)
qed

lemma decode_all_Cons:
  "decode_all shift (x # xs) =
     (fst (decode_all (snd (kbd_decode x shift)) xs),
      (if fst (kbd_decode x shift) = 0 then [] else [fst (kbd_decode x shift)])
        @ snd (decode_all (snd (kbd_decode x shift)) xs))"
  by (simp split: prod.splits)

section \<open>The keyboard controller\<close>

text \<open>
  The controller holds the bytes \<open>pending\<close>: its status port says whether there are any, and reading the
  data port takes the first one.
\<close>

definition keyboard_controller :: "'d ports \<Rightarrow> ('d \<Rightarrow> u8 list) \<Rightarrow> bool" where
  "keyboard_controller P pending \<longleftrightarrow>
     (\<forall>d. (fst (port_in P 0x64 d) AND 1 \<noteq> 0 \<longleftrightarrow> pending d \<noteq> []) \<and> pending (snd (port_in P 0x64 d)) = pending d)
     \<and> (\<forall>d x xs. pending d = x # xs \<longrightarrow> fst (port_in P 0x60 d) = x \<and> pending (snd (port_in P 0x60 d)) = xs)"

lemma kbd_proc_data_none:
  assumes "keyboard_controller P pending" and "pending (dev s) = []"
  shows "\<exists>d. kbd_proc_data P m s = Inr (- 1, s\<lparr>dev := d\<rparr>) \<and> pending d = []"
proof -
  obtain v d1 where d1: "port_in P 0x64 (dev s) = (v, d1)" by (cases "port_in P 0x64 (dev s)")
  then have "v AND 1 = 0" "pending d1 = []" using assms unfolding keyboard_controller_def by (metis fst_conv snd_conv)+
  then show ?thesis using d1 by (auto simp: kbd_proc_data_def inb_def)
qed

lemma kbd_proc_data_byte:
  assumes "keyboard_controller P pending" and "pending (dev s) = x # xs"
    and "fst (kbd_decode x (kbd_shift s)) \<noteq> 0xE9"
  shows "\<exists>d. kbd_proc_data P m s
      = Inr (fst (kbd_decode x (kbd_shift s)), s\<lparr>dev := d, kbd_shift := snd (kbd_decode x (kbd_shift s))\<rparr>)
    \<and> pending d = xs"
proof -
  obtain v d1 where d1: "port_in P 0x64 (dev s) = (v, d1)" by (cases "port_in P 0x64 (dev s)")
  then have v: "v AND 1 \<noteq> 0" "pending d1 = x # xs" using assms(1,2) unfolding keyboard_controller_def by (metis fst_conv snd_conv list.distinct(1))+
  obtain y d2 where d2: "port_in P 0x60 d1 = (y, d2)" by (cases "port_in P 0x60 d1")
  then have y: "y = x" "pending d2 = xs" using assms(1) v(2) unfolding keyboard_controller_def by (metis fst_conv snd_conv)+
  show ?thesis using d1 d2 v y assms(3) by (auto simp: kbd_proc_data_def inb_def Let_def split: prod.splits)
qed

text \<open>All pending bytes go through the decoder, and the characters into the buffer.\<close>

lemma cons_intr_keyboard:
  assumes K: "keyboard_controller P pending"
  shows "pending (dev s) = xs \<Longrightarrow> cons_ok s \<Longrightarrow>
    length (cons_contents s) + length (snd (decode_all (kbd_shift s) xs)) \<le> 511 \<Longrightarrow>
    0xE9 \<notin> set (snd (decode_all (kbd_shift s) xs)) \<Longrightarrow>
    \<exists>t. cons_intr (kbd_proc_data P m) s = Some (Inr t) \<and> cons_ok t
      \<and> cons_contents t = cons_contents s @ map ucast (snd (decode_all (kbd_shift s) xs))
      \<and> kbd_shift t = fst (decode_all (kbd_shift s) xs) \<and> pending (dev t) = []"
proof (induction xs arbitrary: s)
  case Nil
  obtain d where "kbd_proc_data P m s = Inr (- 1, s\<lparr>dev := d\<rparr>)" "pending d = []"
    using kbd_proc_data_none [OF K Nil.prems(1)] by blast
  then show ?case using Nil.prems(2)
    by (subst cons_intr.simps) (simp add: cons_ok_def cons_contents_def waiting_def)
next
  case (Cons x xs)
  define c where "c = fst (kbd_decode x (kbd_shift s))"
  define sh where "sh = snd (kbd_decode x (kbd_shift s))"
  note D = decode_all_Cons [of "kbd_shift s" x xs, folded c_def sh_def]
  have "c \<noteq> 0xE9" using Cons.prems(4) D by (cases "c = 0") auto
  then obtain d where d: "kbd_proc_data P m s = Inr (c, s\<lparr>dev := d, kbd_shift := sh\<rparr>)" "pending d = xs"
    using kbd_proc_data_byte [OF K Cons.prems(1)] by (auto simp: c_def sh_def)
  let ?s = "s\<lparr>dev := d, kbd_shift := sh\<rparr>"
  have s: "cons_ok ?s" "cons_contents ?s = cons_contents s"
    using Cons.prems(2) by (simp_all add: cons_ok_def cons_contents_def waiting_def)
  have "c \<noteq> - 1" using kbd_decode_byte [of x "kbd_shift s"] by (auto simp: c_def)
  show ?case
  proof (cases "c = 0")
    case True
    then have "cons_intr (kbd_proc_data P m) s = cons_intr (kbd_proc_data P m) ?s"
      using d(1) by (subst cons_intr.simps) simp
    then show ?thesis using Cons.IH [of ?s] Cons.prems s d(2) True D by simp
  next
    case False
    obtain t where t: "cons_put c ?s = Inr t" "cons_ok t" "cons_contents t = cons_contents s @ [ucast c]"
      using console_input.put_back [OF s(1), of c] s(2) Cons.prems(3) D False by auto
    obtain b v where "t = ?s\<lparr>cons_buf := b, cons_wpos := v\<rparr>" using cons_put_result [OF s(1), of c] t(1) by auto
    then have k: "kbd_shift t = sh" "dev t = d" by simp_all
    have "cons_intr (kbd_proc_data P m) s = cons_intr (kbd_proc_data P m) t"
      using d(1) t(1) False \<open>c \<noteq> - 1\<close> by (subst cons_intr.simps) simp
    then show ?thesis using Cons.IH [of t] Cons.prems(3,4) t(2,3) k d(2) D False by simp
  qed
qed

section \<open>Letters\<close>

lemma letter_case:
  fixes n :: u8
  assumes "0x61 \<le> n" and "n \<le> 0x7A"
  shows "unat (ucast n :: u32) = unat n" and "unat (ucast (n - 0x20) :: u32) = unat n - 0x20"
    and "0x61 \<le> unat n \<and> unat n \<le> 0x7A"
proof -
  have u: "unat (ucast (b :: u8) :: u32) = unat b" for b
    using unsigned_less [of b, where 'a = nat] by (simp add: unsigned_ucast_eq take_bit_nat_eq_self)
  show "unat (ucast n :: u32) = unat n" by (rule u)
  show r: "0x61 \<le> unat n \<and> unat n \<le> 0x7A" using assms by (simp add: word_le_nat_alt)
  have "0x20 \<le> n" using r by (simp add: word_le_nat_alt)
  then show "unat (ucast (n - 0x20) :: u32) = unat n - 0x20" by (simp add: u unat_sub)
qed

lemma caps_letter:
  fixes n :: u8
  assumes "0x61 \<le> n" and "n \<le> 0x7A"
  defines "low \<equiv> ucast n :: u32" and "up \<equiv> ucast (n - 0x20) :: u32"
  shows "0x61 \<le> low" "low \<le> 0x7A" "\<not> 0x61 \<le> up" "0x41 \<le> up" "up \<le> 0x5A"
    and "low + 0x41 - 0x61 = up" and "up + 0x61 - 0x41 = low"
proof -
  note L = letter_case [OF assms(1,2), folded low_def up_def]
  show "0x61 \<le> low" "low \<le> 0x7A" "\<not> 0x61 \<le> up" "0x41 \<le> up" "up \<le> 0x5A"
    using L by (auto simp: word_le_nat_alt)
  have "unat (up + 0x20) = unat low" using L by (subst unat_add_u32) simp_all
  then have e: "up + 0x20 = low" by (simp add: word_unat_eq_iff)
  show "up + 0x61 - 0x41 = low" using e by (simp add: add.commute)
  show "low + 0x41 - 0x61 = up" by (simp flip: e)
qed

lemma letter_key_tables:
  assumes "letter_key d"
  shows "0x61 \<le> normalmap ! d" "normalmap ! d \<le> 0x7A" "shiftmap ! d = normalmap ! d - 0x20"
    "shiftcode ! d = 0" "togglecode ! d = 0" "d < 0x80"
  using assms letter_tables by (auto simp: letter_key_def list_all_iff)

lemma modifier_index:
  assumes "shift AND CTL = 0"
  shows "shift AND (CTL OR SHIFT) = (if shift AND SHIFT \<noteq> 0 then 1 else 0)"
proof -
  have "shift AND SHIFT = 0 \<or> shift AND SHIFT = 1" by (simp add: and_one_eq mod2_eq_if)
  moreover have "shift AND (CTL OR SHIFT) = shift AND SHIFT" using assms by (simp only: word_ao_dist2) simp
  ultimately show ?thesis by auto
qed

lemma letter_byte:
  assumes "d < 0x80"
  shows "(of_nat d :: u8) \<noteq> 0xE0" "(of_nat d :: u8) AND 0x80 = 0" "unat (of_nat d :: u8) = d"
proof -
  show u: "unat (of_nat d :: u8) = d" using assms by (simp add: unat_of_nat)
  then show "(of_nat d :: u8) \<noteq> 0xE0" using assms by auto
  have "unat ((of_nat d :: u8) AND 0x80) = d AND 0x80" using u by (simp add: unsigned_and_eq)
  also have "d AND 0x80 = 0"
    using and_exp_eq_0_iff_not_bit [of d 7] assms by (simp add: bit_iff_odd)
  finally show "(of_nat d :: u8) AND 0x80 = 0" by (simp add: word_unat_eq_iff)
qed

lemma letter_decoded:
  assumes "letter_key d" and "shift AND E0ESC = 0" and "shift AND CTL = 0"
  shows "kbd_decode (of_nat d) shift
    = (ucast (if (shift AND SHIFT \<noteq> 0) \<noteq> (shift AND CAPSLOCK \<noteq> 0) then normalmap ! d - 0x20 else normalmap ! d), shift)"
proof -
  note T = letter_key_tables [OF assms(1)] and B = letter_byte [OF letter_key_tables(6) [OF assms(1)]]
  note C = caps_letter [OF T(1,2)]
  have "charcode (shift AND (CTL OR SHIFT)) ! d = (if shift AND SHIFT \<noteq> 0 then normalmap ! d - 0x20 else normalmap ! d)"
    unfolding modifier_index [OF assms(3)] using T(3) by (simp add: charcode_def)
  then show ?thesis
    using assms(2) B T(4,5) C unfolding kbd_decode_def Let_def
    by (auto simp del: One_nat_def)
qed

section \<open>Properties\<close>

text \<open>
  A letter key pressed without control and outside an escape sequence leaves the shift state alone
  and gives the letter, in upper case exactly when one of shift and caps lock is on.
\<close>

theorem letter_keys:
  assumes "letter_key d" and "shift AND E0ESC = 0" and "shift AND CTL = 0"
  shows "kbd_decode (of_nat d) shift
    = (ucast (if (shift AND SHIFT \<noteq> 0) \<noteq> (shift AND CAPSLOCK \<noteq> 0) then normalmap ! d - 0x20 else normalmap ! d), shift)"
  using assms by (rule letter_decoded)

theorem letter_keys_witness: "kbd_decode (of_nat 0x1E) (CAPSLOCK OR SHIFT) = (0x61, CAPSLOCK OR SHIFT)"
proof -
  have l: "letter_key 0x1E" "normalmap ! 0x1E = 0x61" by code_simp+
  show ?thesis using letter_keys [OF l(1), of "CAPSLOCK OR SHIFT"] l(2) by simp
qed

text \<open>
  The keyboard interrupt empties the keyboard controller: it returns, and the characters that the
  pending bytes make, as the decoder goes through them in order, are appended to the input buffer,
  provided that they fit and that none of them is Delete, which may restart the machine.
\<close>

theorem kbd_intr_buffers:
  assumes "keyboard_controller P pending" and "cons_ok s"
    and "decode_all (kbd_shift s) (pending (dev s)) = (shift', cs)"
    and "length (cons_contents s) + length cs \<le> 511" and "0xE9 \<notin> set cs"
  shows "\<exists>t. kbd_intr P m s = Inr t \<and> cons_ok t \<and> cons_contents t = cons_contents s @ map ucast cs
    \<and> kbd_shift t = shift' \<and> pending (dev t) = []"
  using cons_intr_keyboard [OF assms(1) refl assms(2), of m] assms(3-5)
  by (auto simp: kbd_intr_def run_intr_def)

text \<open>A machine that is only a keyboard controller.\<close>

definition key_ports :: "u8 list ports" where
  "key_ports =
     \<lparr>port_in = \<lambda>p d. if p = 0x60 then (case d of [] \<Rightarrow> (0, []) | x # xs \<Rightarrow> (x, xs))
                       else (if p = 0x64 \<and> d \<noteq> [] then 1 else 0, d),
      port_out = \<lambda>p v d. d, video_ld = \<lambda>a d. 0, video_st = \<lambda>a v d. d\<rparr>"

theorem kbd_intr_buffers_witness:
  "\<exists>t. kbd_intr key_ports (\<lambda>_. 0) (fresh_console [0x2A, 0x1E, 0x9E, 0xAA, 0x30]) = Inr t
    \<and> cons_contents t = [0x41, 0x62] \<and> dev t = []"
proof -
  have k: "keyboard_controller key_ports id" by (auto simp: keyboard_controller_def key_ports_def)
  have s: "cons_ok (fresh_console d)" "cons_contents (fresh_console d) = []" for d :: "u8 list"
    by (simp_all add: cons_ok_def cons_contents_def waiting_def fresh_console_def CONSBUFSIZE_def)
  have c: "decode_all 0 [0x2A, 0x1E, 0x9E, 0xAA, 0x30] = (0, [0x41, 0x62])" by code_simp
  have d: "decode_all (kbd_shift (fresh_console [0x2A, 0x1E, 0x9E, 0xAA, 0x30] :: u8 list console))
      (id (dev (fresh_console [0x2A, 0x1E, 0x9E, 0xAA, 0x30]))) = (0, [0x41, 0x62])"
    using c by (simp add: fresh_console_def)
  show ?thesis using kbd_intr_buffers [OF k s(1) d, of "\<lambda>_. 0"] by (auto simp: s(2))
qed

text \<open>
  cons_getc() on a machine without a serial port gives the characters in the order in which the keys were
  pressed: those in the buffer, then those the controller holds, and 0 when there are none.
\<close>

theorem cons_getc_in_order:
  assumes "keyboard_controller P pending" and "cons_ok s" and "\<not> serial_exists s"
    and "decode_all (kbd_shift s) (pending (dev s)) = (shift', cs)"
    and "length (cons_contents s) + length cs \<le> 511" and "0xE9 \<notin> set cs"
  shows "case cons_contents s @ map ucast cs of
      [] \<Rightarrow> \<exists>t. cons_getc P m s = Inr (0, t) \<and> cons_ok t \<and> cons_contents t = []
    | x # xs \<Rightarrow> \<exists>t. cons_getc P m s = Inr (ucast x, t) \<and> cons_ok t \<and> cons_contents t = xs \<and> pending (dev t) = []"
proof -
  obtain t where t: "cons_intr (kbd_proc_data P m) s = Some (Inr t)" "cons_ok t"
    "cons_contents t = cons_contents s @ map ucast cs" "pending (dev t) = []"
    using cons_intr_keyboard [OF assms(1) refl assms(2), of m] assms(4-6) by auto
  then have g: "cons_getc P m s = cons_take t"
    using assms(3) by (simp add: cons_getc_def serial_intr_def kbd_intr_def run_intr_def)
  show ?thesis
  proof (cases "cons_contents t")
    case Nil
    then show ?thesis using g t console_input.take_none [OF t(2)] by simp
  next
    case (Cons x xs)
    then obtain u where u: "cons_take t = Inr (ucast x, u)" "cons_ok u" "cons_contents u = xs"
      using cons_take_front [OF t(2)] by blast
    moreover have "dev u = dev t" using u(1) by (auto simp: cons_take_def Let_def split: if_splits)
    ultimately show ?thesis using g t Cons by (auto split: list.split)
  qed
qed

theorem cons_getc_in_order_witness:
  "\<exists>t. cons_getc key_ports (\<lambda>_. 0) (fresh_console [0x30, 0x1E]) = Inr (0x62, t) \<and> cons_contents t = [0x61]"
proof -
  let ?s = "fresh_console [0x30, 0x1E] :: u8 list console"
  have k: "keyboard_controller key_ports id" by (auto simp: keyboard_controller_def key_ports_def)
  have s: "cons_ok ?s" "cons_contents ?s = []" "\<not> serial_exists ?s"
    by (simp_all add: cons_ok_def cons_contents_def waiting_def fresh_console_def CONSBUFSIZE_def)
  have c: "decode_all 0 [0x30, 0x1E] = (0, [0x62, 0x61])" by code_simp
  have d: "decode_all (kbd_shift ?s) (id (dev ?s)) = (0, [0x62, 0x61])"
    using c by (simp add: fresh_console_def)
  show ?thesis using cons_getc_in_order [OF k s(1,3) d, of "\<lambda>_. 0"] s(2) by auto
qed


end
