(* ===== verification/FOS_Debug.thy ===== *)
theory FOS_Debug
  imports FOS_Printf
begin

text \<open>
  The debug information of kern/kdebug.c: stab_binsearch(), which looks for the symbol-table entry of a
  given type that contains an address, and debuginfo_eip(). The tables, which the linker makes, are
  arguments: the list of entries and, in memory, the strings. An index outside the table is an error.
  Indices are the int variables of the source; they never exceed the length of the table, so that
  l + r does not overflow.
\<close>

section \<open>Entries\<close>

record Stab =
  n_strx :: u32
  n_type :: u8
  n_other :: u8
  n_desc :: u16
  n_value :: u32

definition N_FUN :: u8 where "N_FUN = 0x24"
definition N_SO :: u8 where "N_SO = 0x64"
definition N_SOL :: u8 where "N_SOL = 0x84"

definition stab_at :: "Stab list \<Rightarrow> int \<Rightarrow> Stab result" where
  "stab_at stabs i =
     (if 0 \<le> i \<and> i < int (length stabs) then Inr (stabs ! nat i) else Inl (Out_of_bounds ''stabs''))"

section \<open>Binary search\<close>

text \<open>(l + r) / 2: the division of C truncates.\<close>

definition half :: "int \<Rightarrow> int" where
  "half s = (if s < 0 then - (- s div 2) else s div 2)"

lemma half_between: "l \<le> r \<Longrightarrow> l \<le> half (l + r) \<and> half (l + r) \<le> r"
  by (auto simp: half_def)

text \<open>while (m >= l && stabs[m].n_type != type) m--;\<close>

function find_type :: "Stab list \<Rightarrow> u8 \<Rightarrow> int \<Rightarrow> int \<Rightarrow> int result" where
  "find_type stabs type l m =
     (if m \<ge> l then
        rbind (stab_at stabs m) (\<lambda>st. if n_type st \<noteq> type then find_type stabs type l (m - 1) else Inr m)
      else Inr m)"
  by pat_completeness auto
termination
  by (relation "measure (\<lambda>(stabs, type, l, m). nat (m - l + 1))") auto

declare find_type.simps [simp del]

text \<open>
  The loop of stab_binsearch(), on the local variables, the region and the flag any_matches. The
  parameter addr is a pointer to uint32, so that addr++ adds 4 to it.
\<close>

definition exact_match :: "Stab list \<Rightarrow> u8 \<Rightarrow> u32 \<Rightarrow> int \<Rightarrow> int \<Rightarrow> bool" where
  "exact_match stabs type addr l r =
     (case find_type stabs type l (half (l + r)) of
        Inl e \<Rightarrow> False
      | Inr m \<Rightarrow> (case stab_at stabs m of Inl e \<Rightarrow> False | Inr st \<Rightarrow> n_value st = addr))"

lemma find_type_le: "find_type stabs type l m = Inr k \<Longrightarrow> k \<le> m"
proof (induction stabs type l m rule: find_type.induct)
  case (1 stabs type l m)
  show ?case using 1(2) 1(1) by (subst (asm) find_type.simps) (fastforce split: if_splits)
qed

function stab_search ::
  "Stab list \<Rightarrow> u8 \<Rightarrow> u32 \<Rightarrow> int \<Rightarrow> int \<Rightarrow> int \<Rightarrow> int \<Rightarrow> bool \<Rightarrow> (int \<times> int \<times> bool) result" where
  "stab_search stabs type addr l r left right any_matches =
     (if l \<le> r then
        let true_m = half (l + r) in
        rbind (find_type stabs type l true_m) (\<lambda>m.
        if m < l then stab_search stabs type addr (true_m + 1) r left right any_matches
        else
          rbind (stab_at stabs m) (\<lambda>st.
          if n_value st < addr then stab_search stabs type addr (true_m + 1) r m right True
          else if n_value st > addr then stab_search stabs type addr l (m - 1) left (m - 1) True
          else stab_search stabs type (addr + 4) m r m right True))
      else Inr (left, right, any_matches))"
  by pat_completeness auto
termination
proof (relation "measures [\<lambda>(stabs, type, addr, l, r, left, right, any). nat (r - l + 1),
    \<lambda>(stabs, type, addr, l, r, left, right, any). if exact_match stabs type addr l r then 1 else 0]", goal_cases)
  case (5 stabs type addr l r left right any true_m m st)
  have le: "l \<le> half (l + r) \<and> half (l + r) \<le> r" "m \<le> half (l + r)"
    using 5 find_type_le half_between by blast+
  show ?case
  proof (cases "m = l")
    case True
    then have "exact_match stabs type addr l r" "\<not> exact_match stabs type (addr + 4) l r"
      using 5 by (auto simp: exact_match_def)
    then show ?thesis using True by simp
  next
    case False
    then show ?thesis using 5 le by auto
  qed
qed (use half_between in \<open>fastforce dest!: find_type_le\<close>)+

declare stab_search.simps [simp del]

text \<open>for (l = *region_right; l > *region_left && stabs[l].n_type != type; l--);\<close>

function scan_region :: "Stab list \<Rightarrow> u8 \<Rightarrow> int \<Rightarrow> int \<Rightarrow> int result" where
  "scan_region stabs type left l =
     (if l > left then
        rbind (stab_at stabs l) (\<lambda>st. if n_type st \<noteq> type then scan_region stabs type left (l - 1) else Inr l)
      else Inr l)"
  by pat_completeness auto
termination
  by (relation "measure (\<lambda>(stabs, type, left, l). nat (l - left))") auto

declare scan_region.simps [simp del]

text \<open>The values of *region_left and *region_right afterwards.\<close>

definition stab_binsearch :: "Stab list \<Rightarrow> int \<Rightarrow> int \<Rightarrow> u8 \<Rightarrow> u32 \<Rightarrow> (int \<times> int) result" where
  "stab_binsearch stabs left right type addr =
     rbind (stab_search stabs type addr left right left right False) (\<lambda>(left, right, any_matches).
     if \<not> any_matches then Inr (left, left - 1)
     else rbind (scan_region stabs type left right) (\<lambda>l. Inr (l, right)))"

section \<open>Looking an address up\<close>

text \<open>struct Eipdebuginfo; a string is a constant of the source or the address of one in memory.\<close>

record Eipdebuginfo =
  eip_file :: va
  eip_line :: u32
  eip_fn_name :: va
  eip_fn_namelen :: u32
  eip_fn_addr :: u32
  eip_fn_narg :: u32

text \<open>struct UserStabData; the entries between stabs and stab\_end are a list.\<close>

record UserStabData =
  usd_stabs :: "Stab list"
  stabstr :: u32
  stabstr_end :: u32

definition unknown_info :: "u32 \<Rightarrow> Eipdebuginfo" where
  "unknown_info addr = \<lparr>eip_file = Literal (ascii ''<unknown>''), eip_line = 0,
     eip_fn_name = Literal (ascii ''<unknown>''), eip_fn_namelen = 9, eip_fn_addr = addr, eip_fn_narg = 0\<rparr>"

text \<open>strfind(info->eip\_fn\_name, ':') - info->eip\_fn\_name\<close>

definition name_length :: "bytes \<Rightarrow> va \<Rightarrow> u32 option" where
  "name_length mem name =
     (case name of
        Word p \<Rightarrow> map_option (\<lambda>q. q - p) (strfind mem p 0x3A)
      | Literal s \<Rightarrow> Some (of_nat (length (takeWhile (\<lambda>c. c \<noteq> 0x3A) s))))"

function find_file :: "Stab list \<Rightarrow> int \<Rightarrow> int \<Rightarrow> int result" where
  "find_file tab lfile lline =
     (if lline \<ge> lfile then
        rbind (stab_at tab lline) (\<lambda>st.
          if n_type st \<noteq> N_SOL \<and> (n_type st \<noteq> N_SO \<or> n_value st = 0) then find_file tab lfile (lline - 1)
          else Inr lline)
      else Inr lline)"
  by pat_completeness auto
termination
  by (relation "measure (\<lambda>(tab, lfile, lline). nat (lline - lfile + 1))") auto

declare find_file.simps [simp del]

text \<open>The name of an entry, unless it lies outside the string table; then the old one stays.\<close>

definition stab_name :: "UserStabData \<Rightarrow> Stab \<Rightarrow> va \<Rightarrow> va" where
  "stab_name t st old = (if n_strx st < stabstr_end t - stabstr t then Word (stabstr t + n_strx st) else old)"

text \<open>
  The function: the information about the function, and where the search for the line starts. What is
  left of addr afterwards is not read.
\<close>

definition set_function ::
  "UserStabData \<Rightarrow> u32 \<Rightarrow> int \<Rightarrow> int \<Rightarrow> int \<Rightarrow> Eipdebuginfo \<Rightarrow> (int \<times> Eipdebuginfo) result" where
  "set_function t addr lfile lfun rfun info =
     (if lfun \<le> rfun then
        rbind (stab_at (usd_stabs t) lfun) (\<lambda>st.
        Inr (lfun, info\<lparr>eip_fn_name := stab_name t st (eip_fn_name info), eip_fn_addr := n_value st\<rparr>))
      else Inr (lfile, info\<lparr>eip_fn_addr := addr\<rparr>))"

text \<open>The file name of the entry at which the search backwards stopped.\<close>

definition set_file :: "UserStabData \<Rightarrow> int \<Rightarrow> int \<Rightarrow> Eipdebuginfo \<Rightarrow> Eipdebuginfo result" where
  "set_file t lfile lline info =
     (if lline \<ge> lfile then
        rbind (stab_at (usd_stabs t) lline) (\<lambda>st. Inr (info\<lparr>eip_file := stab_name t st (eip_file info)\<rparr>))
      else Inr info)"

definition eip_lookup :: "bytes \<Rightarrow> UserStabData \<Rightarrow> u32 \<Rightarrow> (u32 \<times> Eipdebuginfo) result option" where
  "eip_lookup mem t addr =
     (let info = unknown_info addr in
      if stabstr_end t \<le> stabstr t \<or> mem (stabstr_end t - 1) \<noteq> 0 then Some (Inr (- 1, info))
      else
        case stab_binsearch (usd_stabs t) 0 (int (length (usd_stabs t)) - 1) N_SO addr of
          Inl e \<Rightarrow> Some (Inl e)
        | Inr (lfile, rfile) \<Rightarrow>
            if lfile = 0 then Some (Inr (- 1, info))
            else
              case rbind (stab_binsearch (usd_stabs t) lfile rfile N_FUN addr)
                  (\<lambda>(lfun, rfun). set_function t addr lfile lfun rfun info) of
                Inl e \<Rightarrow> Some (Inl e)
              | Inr (lline, info) \<Rightarrow>
                  map_option (\<lambda>n.
                    rbind (find_file (usd_stabs t) lfile lline) (\<lambda>lline.
                    rbind (set_file t lfile lline (info\<lparr>eip_fn_namelen := n\<rparr>)) (\<lambda>info. Inr (0, info))))
                    (name_length mem (eip_fn_name info)))"

text \<open>The tables of the kernel, or those of the program found at USTABDATA.\<close>

definition debuginfo_eip ::
  "bytes \<Rightarrow> UserStabData \<Rightarrow> UserStabData \<Rightarrow> u32 \<Rightarrow> (u32 \<times> Eipdebuginfo) result option" where
  "debuginfo_eip mem kernel_tables usd addr =
     eip_lookup mem (if addr \<ge> USER_LIMIT then kernel_tables else usd) addr"

section \<open>What the search finds\<close>

definition stab_matches :: "Stab list \<Rightarrow> u8 \<Rightarrow> int \<Rightarrow> int \<Rightarrow> int set" where
  "stab_matches stabs type L R = {i. L \<le> i \<and> i \<le> R \<and> n_type (stabs ! nat i) = type}"

abbreviation stab_value :: "Stab list \<Rightarrow> int \<Rightarrow> u32" where
  "stab_value stabs i \<equiv> n_value (stabs ! nat i)"

lemma find_type_spec:
  assumes "0 \<le> l"
  shows "m < int (length stabs) \<Longrightarrow> l \<le> m + 1 \<Longrightarrow>
    \<exists>k. find_type stabs type l m = Inr k \<and> l \<le> k + 1 \<and> k \<le> m \<and> (l \<le> k \<longrightarrow> n_type (stabs ! nat k) = type)
      \<and> (\<forall>i. k < i \<and> i \<le> m \<longrightarrow> n_type (stabs ! nat i) \<noteq> type)"
proof (induction "nat (m + 1 - l)" arbitrary: m)
  case 0
  then have "find_type stabs type l m = Inr m" by (subst find_type.simps) simp
  then show ?case using 0 by (intro exI [of _ m]) auto
next
  case (Suc n)
  then have lm: "l \<le> m" by simp
  have at: "stab_at stabs m = Inr (stabs ! nat m)" using Suc.prems(1) lm assms by (simp add: stab_at_def)
  show ?case
  proof (cases "n_type (stabs ! nat m) = type")
    case True
    then have "find_type stabs type l m = Inr m" unfolding find_type.simps [of stabs type l m] using at lm by simp
    moreover have "\<forall>i. m < i \<and> i \<le> m \<longrightarrow> n_type (stabs ! nat i) \<noteq> type" by (intro allI impI) linarith
    ultimately show ?thesis using True lm by (intro exI [of _ m] conjI) (assumption | simp)+
  next
    case False
    have n: "n = nat (m - 1 + 1 - l)" using Suc.hyps(2) lm by linarith
    obtain k where k: "find_type stabs type l (m - 1) = Inr k" "l \<le> k + 1" "k \<le> m - 1"
      "l \<le> k \<longrightarrow> n_type (stabs ! nat k) = type" "\<forall>i. k < i \<and> i \<le> m - 1 \<longrightarrow> n_type (stabs ! nat i) \<noteq> type"
      using Suc.hyps(1) [OF n] Suc.prems lm by auto
    have "find_type stabs type l m = Inr k" using at lm False k(1) by (subst find_type.simps) simp
    moreover have "n_type (stabs ! nat i) \<noteq> type" if "k < i" "i \<le> m" for i
      using k(5) that False by (cases "i = m") auto
    ultimately show ?thesis using k by auto
  qed
qed

lemma scan_region_spec:
  assumes "0 \<le> left"
  shows "l < int (length stabs) \<Longrightarrow> (\<And>i. left < i \<Longrightarrow> i \<le> l \<Longrightarrow> n_type (stabs ! nat i) \<noteq> type) \<Longrightarrow>
    scan_region stabs type left l = Inr (min left l)"
proof (induction "nat (l - left)" arbitrary: l)
  case 0
  then show ?case by (subst scan_region.simps) auto
next
  case (Suc n)
  then have "left < l" by simp
  moreover from this have "stab_at stabs l = Inr (stabs ! nat l)" using Suc.prems(1) assms by (simp add: stab_at_def)
  moreover have "scan_region stabs type left (l - 1) = Inr (min left (l - 1))"
    using Suc.hyps Suc.prems by (intro Suc.hyps(1)) auto
  ultimately show ?case using Suc.prems(2) [of l] by (subst scan_region.simps) auto
qed

text \<open>
  The invariant of the loop, for a set \<open>M\<close> of matching entries in the region from \<open>L\<close> to \<open>R\<close> of which
  the entries \<open>B\<close> do not lie above the address: all matches left of l are in \<open>B\<close>, none right of r is.
\<close>

definition search_inv :: "int set \<Rightarrow> int set \<Rightarrow> int \<Rightarrow> int \<Rightarrow> int \<Rightarrow> int \<Rightarrow> int \<Rightarrow> bool \<Rightarrow> bool" where
  "search_inv M B L R l r left any_matches \<longleftrightarrow>
     L \<le> l \<and> l \<le> r + 1 \<and> r \<le> R
     \<and> (\<forall>i \<in> M. i < l \<longrightarrow> i \<in> B \<and> i \<le> left) \<and> (\<forall>i \<in> M. i > r \<longrightarrow> i \<notin> B)
     \<and> (left \<in> B \<or> left = L \<and> (\<forall>i \<in> M. \<not> i < l)) \<and> (r < R \<longrightarrow> r + 1 \<in> M)
     \<and> (any_matches \<longrightarrow> M \<noteq> {}) \<and> (\<not> any_matches \<longrightarrow> left = L \<and> r = R \<and> (\<forall>i \<in> M. \<not> i < l))"

text \<open>An address that separates \<open>B\<close> from the rest of \<open>M\<close> and is the value of no entry.\<close>

definition separates :: "Stab list \<Rightarrow> int set \<Rightarrow> int set \<Rightarrow> u32 \<Rightarrow> bool" where
  "separates stabs M B a \<longleftrightarrow> (\<forall>i \<in> M. (stab_value stabs i < a \<longleftrightarrow> i \<in> B) \<and> stab_value stabs i \<noteq> a)"

lemma stab_search_result:
  assumes M: "M = stab_matches stabs type L R" and L: "0 \<le> L" and R: "R < int (length stabs)"
    and B: "\<And>i j. i \<in> B \<Longrightarrow> j \<in> M \<Longrightarrow> j \<le> i \<Longrightarrow> j \<in> B"
  shows "search_inv M B L R l r left any_matches \<Longrightarrow> right = r \<Longrightarrow>
    (\<And>i. i \<in> M \<Longrightarrow> stab_value stabs i < a \<Longrightarrow> i \<in> B) \<Longrightarrow>
    (\<And>i. i \<in> M \<Longrightarrow> stab_value stabs i > a \<Longrightarrow> i \<notin> B) \<Longrightarrow>
    (\<And>i. i \<in> M \<Longrightarrow> stab_value stabs i = a \<Longrightarrow> i \<in> B \<and> separates stabs M B (a + 4)) \<Longrightarrow>
    \<exists>r' left' any'. stab_search stabs type a l r left right any_matches = Inr (left', r', any')
      \<and> search_inv M B L R (r' + 1) r' left' any'"
  using M R
proof (induction stabs type a l r left right any_matches rule: stab_search.induct)
  case (1 stabs type a l r left right any_matches)
  note inv = 1(5) [unfolded search_inv_def] and less = 1(7) and greater = 1(8) and exact = 1(9)
  note M = 1(10) and R = 1(11)
  define t where "t = half (l + r)"
  show ?case
  proof (cases "l \<le> r")
    case False
    then have "l = r + 1" using inv by auto
    then show ?thesis using 1(5,6) False by (subst stab_search.simps) auto
  next
    case True
    have t: "l \<le> t" "t \<le> r" using half_between [OF True] by (simp_all add: t_def)
    obtain m where m: "find_type stabs type l t = Inr m" "l \<le> m + 1" "m \<le> t"
      "l \<le> m \<longrightarrow> n_type (stabs ! nat m) = type" "\<forall>i. m < i \<and> i \<le> t \<longrightarrow> n_type (stabs ! nat i) \<noteq> type"
      using find_type_spec [of l t stabs type] t inv L R by auto
    have none: "i \<notin> M" if "m < i" "i \<le> t" for i using m(5) that by (auto simp: M stab_matches_def)
    have body: "stab_search stabs type a l r left right any_matches
        = (if m < l then stab_search stabs type a (t + 1) r left right any_matches
           else rbind (stab_at stabs m) (\<lambda>st.
             if n_value st < a then stab_search stabs type a (t + 1) r m right True
             else if n_value st > a then stab_search stabs type a l (m - 1) left (m - 1) True
             else stab_search stabs type (a + 4) m r m right True))"
      using True m(1) unfolding t_def by (subst stab_search.simps) simp
    show ?thesis
    proof (cases "m < l")
      case ml: True
      then have "search_inv M B L R (t + 1) r left any_matches"
        using inv none t m(2) unfolding search_inv_def by (smt (verit))
      then show ?thesis
        using 1(1) [OF True t_def m(1) ml] ml body 1(6) less greater exact M R by simp
    next
      case ml: False
      then have mM: "m \<in> M" using m(2,3,4) t inv by (auto simp: M stab_matches_def)
      have at: "stab_at stabs m = Inr (stabs ! nat m)" using ml m(3) t inv L R by (simp add: stab_at_def)
      consider (lt) "stab_value stabs m < a" | (gt) "stab_value stabs m > a" | (eq) "stab_value stabs m = a"
        by (metis linorder_less_linear)
      then show ?thesis
      proof cases
        case lt
        have mB: "m \<in> B" using less [OF mM lt] .
        have "i \<in> B \<and> i \<le> m" if "i \<in> M" "i < t + 1" for i
          using none [of i] B [OF mB, of i] that by linarith
        then have "search_inv M B L R (t + 1) r m True"
          using inv t mM mB unfolding search_inv_def by auto
        then show ?thesis
          using 1(2) [OF True t_def m(1) ml at lt] lt ml at body 1(6) less greater exact M R by simp
      next
        case gt
        have mB: "m \<notin> B" using greater [OF mM gt] .
        have ge: "\<not> stab_value stabs m < a" using gt by simp
        have "i \<notin> B" if "i \<in> M" "m - 1 < i" for i
          using B [of i m] mB mM that by force
        then have "search_inv M B L R l (m - 1) left True"
          using inv t m(3) mM ml unfolding search_inv_def by auto
        then show ?thesis
          using 1(3) [OF True t_def m(1) ml at ge gt] gt ge ml at body less greater exact M R by simp
      next
        case eq
        have mB: "m \<in> B" "separates stabs M B (a + 4)" using exact [OF mM eq] by simp_all
        have "i \<in> B \<and> i \<le> m" if "i \<in> M" "i < m" for i
          using B [OF mB(1), of i] that by simp
        then have "search_inv M B L R m r m True"
          using inv t m(3) mM mB(1) ml unfolding search_inv_def by auto
        moreover have "i \<in> B" if "i \<in> M" "stab_value stabs i < a + 4" for i
          using mB(2) that by (simp add: separates_def)
        moreover have "i \<notin> B" if "i \<in> M" "stab_value stabs i > a + 4" for i
          using mB(2) that by (auto simp: separates_def)
        moreover have "stab_value stabs i \<noteq> a + 4" if "i \<in> M" for i
          using mB(2) that by (simp add: separates_def)
        ultimately show ?thesis
          using 1(4) [OF True t_def m(1) ml at] eq ml at body 1(6) M R by simp
      qed
    qed
  qed
qed

text \<open>
  What the search returns: the last entry of \<open>B\<close> and the entry before the next match. Where no match
  lies below the address, the loop that follows the search still leaves a region.
\<close>

definition stab_region :: "int set \<Rightarrow> int set \<Rightarrow> int \<Rightarrow> int \<Rightarrow> int \<times> int" where
  "stab_region M B L R =
     (if M = {} then (L, L - 1)
      else if B = {} then (min L (Min M - 1), Min M - 1)
      else (Max B, if M - B = {} then R else Min (M - B) - 1))"

lemma finite_stab_matches [simp]: "finite (stab_matches stabs type L R)"
  by (rule finite_subset [of _ "{L..R}"]) (auto simp: stab_matches_def)

lemma search_inv_end:
  assumes "search_inv M B L R (r + 1) r left any_matches" and "M \<subseteq> {L..R}" and "B \<subseteq> M"
  shows "\<not> any_matches \<Longrightarrow> M = {} \<and> left = L"
    and "any_matches \<Longrightarrow> M \<noteq> {}
      \<and> left = (if B = {} then L else Max B) \<and> r = (if M - B = {} then R else Min (M - B) - 1)"
proof -
  have fin: "finite M" "finite B" using assms(2,3) finite_subset [of M] finite_subset [of B M] by auto
  note inv = assms(1) [unfolded search_inv_def]
  show "M = {} \<and> left = L" if "\<not> any_matches" using inv that assms(2) by force
  assume any: "any_matches"
  have in_B: "i \<in> B \<longleftrightarrow> i \<le> r" if "i \<in> M" for i using inv that by (metis linorder_not_less zle_add1_eq_le)
  have l: "left = (if B = {} then L else Max B)"
  proof (cases "B = {}")
    case True
    then show ?thesis using inv by auto
  next
    case False
    then obtain b where b: "b \<in> B" by auto
    have "b < r + 1" using in_B [of b] b assms(3) by auto
    then have "left \<in> B" using inv b assms(3) by blast
    moreover have "i \<le> left" if "i \<in> B" for i using inv in_B [of i] that assms(3) by auto
    ultimately have "Max B = left" using fin(2) by (intro Max_eqI)
    then show ?thesis using False by simp
  qed
  have "r = (if M - B = {} then R else Min (M - B) - 1)"
  proof (cases "M - B = {}")
    case True
    then have "\<not> r < R" using inv by force
    then show ?thesis using True inv by simp
  next
    case False
    then obtain i where i: "i \<in> M" "i \<notin> B" by auto
    then have "r < R" using in_B [of i] assms(2) by force
    then have "r + 1 \<in> M - B" using inv in_B [of "r + 1"] by auto
    moreover have "r + 1 \<le> j" if "j \<in> M - B" for j using in_B [of j] that by auto
    ultimately have "Min (M - B) = r + 1" using fin(1) by (intro Min_eqI) auto
    then show ?thesis using False by simp
  qed
  then show "M \<noteq> {} \<and> left = (if B = {} then L else Max B) \<and> r = (if M - B = {} then R else Min (M - B) - 1)"
    using l any inv by blast
qed

text \<open>
  The address is the value of no match, or of one and then no match lies in the four bytes behind it.
\<close>

definition isolated :: "Stab list \<Rightarrow> int set \<Rightarrow> u32 \<Rightarrow> bool" where
  "isolated stabs M a \<longleftrightarrow>
     (\<forall>i \<in> M. stab_value stabs i = a \<longrightarrow>
        a < a + 4 \<and> (\<forall>j \<in> M. \<not> (a < stab_value stabs j \<and> stab_value stabs j \<le> a + 4)))"

definition values_increase :: "Stab list \<Rightarrow> int set \<Rightarrow> bool" where
  "values_increase stabs M \<longleftrightarrow> (\<forall>i \<in> M. \<forall>j \<in> M. i < j \<longrightarrow> stab_value stabs i < stab_value stabs j)"

lemma stab_binsearch_region:
  assumes M: "M = stab_matches stabs type L R" and B: "B = {i \<in> M. stab_value stabs i \<le> a}"
    and L: "0 \<le> L" and LR: "L \<le> R + 1" and R: "R < int (length stabs)"
    and inc: "values_increase stabs M" and iso: "isolated stabs M a"
  shows "stab_binsearch stabs L R type a = Inr (stab_region M B L R)"
proof -
  have sub: "M \<subseteq> {L..R}" "B \<subseteq> M" by (auto simp: M B stab_matches_def)
  have down: "j \<in> B" if "i \<in> B" "j \<in> M" "j \<le> i" for i j
  proof (cases "i = j")
    case False
    then have "stab_value stabs j < stab_value stabs i" using inc that by (auto simp: values_increase_def B)
    then show ?thesis using that by (auto simp: B)
  qed (use that in simp)
  have sep: "separates stabs M B (a + 4)" if "i \<in> M" "stab_value stabs i = a" for i
  proof -
    have no: "a < a + 4" "\<forall>j \<in> M. \<not> (a < stab_value stabs j \<and> stab_value stabs j \<le> a + 4)"
      using iso that by (auto simp: isolated_def)
    have "(stab_value stabs j < a + 4 \<longleftrightarrow> stab_value stabs j \<le> a) \<and> stab_value stabs j \<noteq> a + 4" if "j \<in> M" for j
      using no(1) bspec [OF no(2) that] by (cases "a < stab_value stabs j") (auto simp: not_less)
    then show ?thesis by (simp add: separates_def B)
  qed
  have "\<exists>r left any. stab_search stabs type a L R L R False = Inr (left, r, any)
      \<and> search_inv M B L R (r + 1) r left any"
  proof (rule stab_search_result [OF M L R])
    show "j \<in> B" if "i \<in> B" "j \<in> M" "j \<le> i" for i j by (rule down [OF that])
    show "search_inv M B L R L R L False" using sub(1) LR by (auto simp: search_inv_def)
    show "i \<in> B \<and> separates stabs M B (a + 4)" if "i \<in> M" "stab_value stabs i = a" for i
      using sep [OF that] that by (simp add: B)
  qed (auto simp: B)
  then obtain r left any where s: "stab_search stabs type a L R L R False = Inr (left, r, any)"
    and inv: "search_inv M B L R (r + 1) r left any" by blast
  have fin: "finite M" "finite B" using M finite_subset [OF sub(2)] by auto
  show ?thesis
  proof (cases any)
    case False
    then show ?thesis using search_inv_end(1) [OF inv sub] s by (simp add: stab_binsearch_def stab_region_def)
  next
    case True
    note e = search_inv_end(2) [OF inv sub True]
    have Ll: "L \<le> left"
    proof (cases "B = {}")
      case False
      then have "Max B \<in> {L..R}" using fin sub Max_in [of B] by blast
      then show ?thesis using e False by simp
    qed (use e in simp)
    have scan: "scan_region stabs type left r = Inr (min left r)"
    proof (rule scan_region_spec)
      show "0 \<le> left" using L Ll by simp
      show "r < int (length stabs)" using inv R by (auto simp: search_inv_def)
      show "n_type (stabs ! nat i) \<noteq> type" if "left < i" "i \<le> r" for i
      proof
        assume ty: "n_type (stabs ! nat i) = type"
        have "i \<in> M" using Ll ty that inv by (simp add: M stab_matches_def search_inv_def)
        then show False using that inv by (auto simp: search_inv_def)
      qed
    qed
    have "min left r = Max B" if "B \<noteq> {}"
    proof -
      have "Max B \<in> B" using that fin by simp
      then have "\<not> Max B > r" using inv sub unfolding search_inv_def by blast
      then show ?thesis using e that by simp
    qed
    then have "min left r = fst (stab_region M B L R)" "r = snd (stab_region M B L R)"
      using e by (auto simp: stab_region_def)
    then show ?thesis using s scan True by (simp add: stab_binsearch_def)
  qed
qed

text \<open>
  The match that contains the address: the last one not above it. Its region ends before the next match.
\<close>

definition contains_addr :: "Stab list \<Rightarrow> u8 \<Rightarrow> int \<Rightarrow> int \<Rightarrow> u32 \<Rightarrow> int \<Rightarrow> bool" where
  "contains_addr stabs type L R a k \<longleftrightarrow>
     0 \<le> L \<and> R < int (length stabs) \<and> values_increase stabs (stab_matches stabs type L R)
     \<and> isolated stabs (stab_matches stabs type L R) a
     \<and> k \<in> stab_matches stabs type L R \<and> stab_value stabs k \<le> a
     \<and> (\<forall>j \<in> stab_matches stabs type L R. k < j \<longrightarrow> a < stab_value stabs j)"

definition region_end :: "Stab list \<Rightarrow> u8 \<Rightarrow> int \<Rightarrow> int \<Rightarrow> int" where
  "region_end stabs type k R =
     (if stab_matches stabs type (k + 1) R = {} then R else Min (stab_matches stabs type (k + 1) R) - 1)"

lemma stab_binsearch_contains:
  assumes c: "contains_addr stabs type L R a k"
  shows "stab_binsearch stabs L R type a = Inr (k, region_end stabs type k R)"
proof -
  define M where "M = stab_matches stabs type L R"
  define B where "B = {i \<in> M. stab_value stabs i \<le> a}"
  note c' = c [unfolded contains_addr_def, folded M_def]
  have kM: "k \<in> M" "stab_value stabs k \<le> a" using c' by auto
  have up: "a < stab_value stabs j" if "j \<in> M" "k < j" for j using c' that by auto
  have inc: "stab_value stabs i < stab_value stabs j" if "i \<in> M" "j \<in> M" "i < j" for i j
    using c' that by (auto simp: values_increase_def)
  have B_iff: "i \<in> B \<longleftrightarrow> i \<le> k" if "i \<in> M" for i
  proof (cases "i < k")
    case True
    then show ?thesis using inc [OF that kM(1) True] kM that by (auto simp: B_def)
  next
    case False
    then show ?thesis using up [OF that] kM that by (cases "i = k") (auto simp: B_def)
  qed
  have "L \<le> R + 1" "finite B" using kM(1) by (auto simp: M_def B_def stab_matches_def intro: finite_subset [of _ "{L..R}"])
  then have r: "stab_binsearch stabs L R type a = Inr (stab_region M B L R)"
    using c' stab_binsearch_region [OF M_def B_def] by blast
  have "k \<in> B" using kM by (simp add: B_def)
  moreover have "Max B = k" using B_iff kM \<open>finite B\<close> by (intro Max_eqI) (auto simp: B_def)
  moreover have "M - B = stab_matches stabs type (k + 1) R"
    using B_iff kM(1) by (auto simp: M_def stab_matches_def)
  ultimately have "stab_region M B L R = (k, region_end stabs type k R)"
    using kM by (auto simp: stab_region_def region_end_def)
  then show ?thesis using r by simp
qed

lemma region_end_bounds:
  assumes "contains_addr stabs type L R a k"
  shows "k \<le> region_end stabs type k R" "region_end stabs type k R \<le> R"
proof -
  define N where "N = stab_matches stabs type (k + 1) R"
  have "k \<le> R" using assms by (auto simp: contains_addr_def stab_matches_def)
  moreover have "k + 1 \<le> Min N \<and> Min N \<le> R" if "N \<noteq> {}"
  proof -
    have "Min N \<in> N" using that by (intro Min_in) (auto simp: N_def)
    then show ?thesis unfolding N_def by (simp add: stab_matches_def)
  qed
  ultimately show "k \<le> region_end stabs type k R" "region_end stabs type k R \<le> R"
    by (cases "N = {}"; simp add: region_end_def flip: N_def)+
qed

section \<open>What an address is found to be\<close>

text \<open>An entry that names a file, at which the search backwards stops.\<close>

definition names_file :: "Stab \<Rightarrow> bool" where
  "names_file st \<longleftrightarrow> n_type st = N_SOL \<or> n_type st = N_SO \<and> n_value st \<noteq> 0"

lemma find_file_spec:
  assumes "0 \<le> lfile" and "lline < int (length tab)" and "f \<in> F"
    and F: "F = {i. lfile \<le> i \<and> i \<le> lline \<and> names_file (tab ! nat i)}"
  shows "find_file tab lfile lline = Inr (Max F)"
  using assms(2-)
proof (induction "nat (lline - lfile)" arbitrary: lline F)
  case 0
  then have f: "f = lline" "lfile \<le> lline" "names_file (tab ! nat f)" by auto
  then have "F = {lline}" using 0 by auto
  moreover have "stab_at tab lline = Inr (tab ! nat lline)" using 0 f assms(1) by (simp add: stab_at_def)
  ultimately show ?case using f by (subst find_file.simps) (auto simp: names_file_def)
next
  case (Suc n)
  then have ge: "lfile \<le> lline" by auto
  then have at: "stab_at tab lline = Inr (tab ! nat lline)" using Suc.prems(1) assms(1) by (simp add: stab_at_def)
  show ?case
  proof (cases "names_file (tab ! nat lline)")
    case True
    have "finite F" unfolding Suc.prems(3) by (rule finite_subset [of _ "{lfile..lline}"]) auto
    then have "Max F = lline" using True ge Suc.prems(3) by (intro Max_eqI) auto
    then show ?thesis using True at ge by (subst find_file.simps) (auto simp: names_file_def)
  next
    case False
    then have F: "F = {i. lfile \<le> i \<and> i \<le> lline - 1 \<and> names_file (tab ! nat i)}"
      unfolding Suc.prems(3) by (smt (verit) Collect_cong)
    have "find_file tab lfile (lline - 1) = Inr (Max F)"
      using Suc.hyps(2) Suc.prems(1,2) F by (intro Suc.hyps(1)) auto
    then show ?thesis using False at ge by (subst find_file.simps) (auto simp: names_file_def)
  qed
qed

lemma strfind_cstr: "cstr m p xs \<Longrightarrow> strfind m p c = Some (p + of_nat (length (takeWhile (\<lambda>x. x \<noteq> c) xs)))"
proof (induction m p xs rule: cstr.induct)
  case (1 m p)
  then show ?case by (subst strfind.simps) simp
next
  case (2 m p x xs)
  then show ?case by (subst strfind.simps) (auto simp: algebra_simps)
qed

text \<open>
  C26. The binary search over the entries of one type finds the entry that contains an address: the
  region it returns starts at the last matching entry not above the address and ends before the next
  matching entry or with the region searched. The values of the matching entries increase; where one
  of them equals the address, none lies in the four bytes above it.
\<close>

theorem stab_binsearch_finds:
  assumes "contains_addr stabs type L R a k"
  shows "\<exists>right. stab_binsearch stabs L R type a = Inr (k, right) \<and> k \<le> right \<and> right \<le> R
    \<and> (\<forall>i. k < i \<and> i \<le> right \<longrightarrow> n_type (stabs ! nat i) \<noteq> type)
    \<and> (right = R \<or> n_type (stabs ! nat (right + 1)) = type \<and> a < stab_value stabs (right + 1))"
proof -
  define N where "N = stab_matches stabs type (k + 1) R"
  have fin: "finite N" by (simp add: N_def)
  have L: "L \<le> k" using assms by (simp add: contains_addr_def stab_matches_def)
  have none: "n_type (stabs ! nat i) \<noteq> type" if "k < i" "i \<le> region_end stabs type k R" for i
  proof
    assume "n_type (stabs ! nat i) = type"
    then have i: "i \<in> N" using that region_end_bounds [OF assms] by (simp add: N_def stab_matches_def)
    then have "Min N \<le> i" "N \<noteq> {}" using fin by auto
    moreover from this have "region_end stabs type k R = Min N - 1" by (simp add: region_end_def N_def)
    ultimately show False using that(2) by linarith
  qed
  have "n_type (stabs ! nat (r + 1)) = type \<and> a < stab_value stabs (r + 1)"
    if r: "r = region_end stabs type k R" and "r \<noteq> R" for r
  proof -
    have "N \<noteq> {}" "r + 1 = Min N" using that by (auto simp: region_end_def N_def split: if_splits)
    then have m: "r + 1 \<in> N" using fin by simp
    then have "r + 1 \<in> stab_matches stabs type L R" "k < r + 1" using L by (auto simp: N_def stab_matches_def)
    then show ?thesis using assms by (auto simp: contains_addr_def stab_matches_def)
  qed
  then show ?thesis using stab_binsearch_contains [OF assms] region_end_bounds [OF assms] none by blast
qed

text \<open>A table of two source files with one function each, and its strings.\<close>

definition sample_stabs :: "Stab list" where
  "sample_stabs = map (\<lambda>(x, t, v). \<lparr>n_strx = x, n_type = t, n_other = 0, n_desc = 0, n_value = v\<rparr>)
     [(0, 0, 0), (1, N_SO, 0xF0100000), (5, N_FUN, 0xF0100010), (1, N_SOL, 0xF0100018),
      (5, N_FUN, 0xF0100020), (1, N_SO, 0xF0100040)]"

lemma stab_matches_code [code]:
  "stab_matches stabs type L R = Set.filter (\<lambda>i. n_type (stabs ! nat i) = type) (set [L..R])"
  by (auto simp: stab_matches_def)

theorem stab_binsearch_finds_witness:
  "\<exists>right. stab_binsearch sample_stabs 0 5 N_SO 0xF0100014 = Inr (1, right) \<and> 1 \<le> right \<and> right \<le> 5"
proof -
  have "contains_addr sample_stabs N_SO 0 5 0xF0100014 1" by code_simp
  from stab_binsearch_finds [OF this] show ?thesis by blast
qed

text \<open>
  C27. debuginfo\_eip() composes the searches: for an address in a function of a source file it returns
  0 with the name and the start of the function whose entry contains the address among the functions
  of the file whose entry contains it, the length of the name up to a colon, and the file named by
  the last entry before the function's that names one.
\<close>

theorem debuginfo_eip_finds:
  assumes "t = (if addr \<ge> USER_LIMIT then kernel_tables else usd)"
    and "stabstr t < stabstr_end t" and "mem (stabstr_end t - 1) = 0"
    and so: "contains_addr (usd_stabs t) N_SO 0 (int (length (usd_stabs t)) - 1) addr lfile"
    and "lfile \<noteq> 0" and "stab_value (usd_stabs t) lfile \<noteq> 0"
    and rf: "rfile = region_end (usd_stabs t) N_SO lfile (int (length (usd_stabs t)) - 1)"
    and func: "contains_addr (usd_stabs t) N_FUN lfile rfile addr lfun"
    and st: "st = usd_stabs t ! nat lfun" and "n_strx st < stabstr_end t - stabstr t"
    and "cstr mem (stabstr t + n_strx st) name"
    and F: "F = {i. lfile \<le> i \<and> i \<le> lfun \<and> names_file (usd_stabs t ! nat i)}"
  shows "debuginfo_eip mem kernel_tables usd addr = Some (Inr (0,
    \<lparr>eip_file = stab_name t (usd_stabs t ! nat (Max F)) (Literal (ascii ''<unknown>'')), eip_line = 0,
     eip_fn_name = Word (stabstr t + n_strx st),
     eip_fn_namelen = of_nat (length (takeWhile (\<lambda>c. c \<noteq> 0x3A) name)),
     eip_fn_addr = n_value st, eip_fn_narg = 0\<rparr>))"
proof -
  let ?tab = "usd_stabs t"
  have lf: "0 \<le> lfile" "lfile < int (length ?tab)" "n_type (?tab ! nat lfile) = N_SO"
    using so by (auto simp: contains_addr_def stab_matches_def)
  have lfun: "lfile \<le> lfun" "lfun < int (length ?tab)"
    using func by (auto simp: contains_addr_def stab_matches_def)
  have at: "stab_at ?tab lfun = Inr st" using lf lfun by (simp add: stab_at_def st)
  have inF: "lfile \<in> F" using assms(6) lf lfun by (simp add: F names_file_def)
  have ff: "find_file ?tab lfile lfun = Inr (Max F)" using find_file_spec [OF lf(1) lfun(2) inF F] .
  have "finite F" unfolding F by (rule finite_subset [of _ "{lfile..lfun}"]) auto
  then have "Max F \<in> F" using inF Max_in by blast
  then have mF: "lfile \<le> Max F" "Max F \<le> lfun" by (auto simp: F)
  then have at': "stab_at ?tab (Max F) = Inr (?tab ! nat (Max F))" using lf lfun by (simp add: stab_at_def)
  have fn: "set_function t addr lfile lfun (region_end ?tab N_FUN lfun rfile) (unknown_info addr)
    = Inr (lfun, (unknown_info addr)\<lparr>eip_fn_name := Word (stabstr t + n_strx st), eip_fn_addr := n_value st\<rparr>)"
    using region_end_bounds(1) [OF func] at assms(10) by (simp add: set_function_def stab_name_def)
  have nl: "name_length mem (Word (stabstr t + n_strx st)) = Some (of_nat (length (takeWhile (\<lambda>c. c \<noteq> 0x3A) name)))"
    using strfind_cstr [OF assms(11)] by (simp add: name_length_def)
  have sb: "stab_binsearch ?tab 0 (int (length ?tab) - 1) N_SO addr = Inr (lfile, rfile)"
    "stab_binsearch ?tab lfile rfile N_FUN addr = Inr (lfun, region_end ?tab N_FUN lfun rfile)"
    using stab_binsearch_contains [OF so] stab_binsearch_contains [OF func] by (simp_all add: rf)
  have "eip_lookup mem t addr = Some (Inr (0,
      \<lparr>eip_file = stab_name t (?tab ! nat (Max F)) (Literal (ascii ''<unknown>'')), eip_line = 0,
       eip_fn_name = Word (stabstr t + n_strx st), eip_fn_namelen = of_nat (length (takeWhile (\<lambda>c. c \<noteq> 0x3A) name)),
       eip_fn_addr = n_value st, eip_fn_narg = 0\<rparr>))"
    using fn ff at' mF assms(2,3,5) nl unfolding eip_lookup_def
    by (simp add: sb Let_def set_file_def unknown_info_def)
  then show ?thesis by (simp only: debuginfo_eip_def assms(1) [symmetric])
qed

definition debug_strings :: "u8 list" where
  "debug_strings = [0] @ ascii ''a.c'' @ [0] @ ascii ''f:F1'' @ [0]"

definition debug_tables :: UserStabData where
  "debug_tables = \<lparr>usd_stabs = sample_stabs, stabstr = 0xF0200000, stabstr_end = 0xF020000A\<rparr>"

definition debug_memory :: bytes where
  "debug_memory p = (if 0xF0200000 \<le> p \<and> p < 0xF020000A then debug_strings ! unat (p - 0xF0200000) else 0)"

lemma sample_files: "{i. 1 \<le> i \<and> i \<le> 2 \<and> names_file (sample_stabs ! nat i)} = {1}"
proof -
  have "names_file (sample_stabs ! nat i) \<longleftrightarrow> i = 1" if "i \<in> {1, 2}" for i
    using that by (auto simp: sample_stabs_def names_file_def N_SO_def N_SOL_def N_FUN_def)
  moreover have "1 \<le> i \<and> i \<le> 2 \<longleftrightarrow> i \<in> {1, 2}" for i :: int by auto
  ultimately show ?thesis by auto
qed

theorem debuginfo_eip_finds_witness:
  "debuginfo_eip debug_memory debug_tables debug_tables 0xF0100014 = Some (Inr (0,
    \<lparr>eip_file = Word 0xF0200001, eip_line = 0, eip_fn_name = Word 0xF0200005, eip_fn_namelen = 1,
     eip_fn_addr = 0xF0100010, eip_fn_narg = 0\<rparr>))"
proof -
  have "stabstr debug_tables < stabstr_end debug_tables" "debug_memory (stabstr_end debug_tables - 1) = 0"
    and so: "contains_addr (usd_stabs debug_tables) N_SO 0 (int (length (usd_stabs debug_tables)) - 1) 0xF0100014 1"
    and "(1 :: int) \<noteq> 0" and "stab_value (usd_stabs debug_tables) 1 \<noteq> 0"
    and "4 = region_end (usd_stabs debug_tables) N_SO 1 (int (length (usd_stabs debug_tables)) - 1)"
    and "contains_addr (usd_stabs debug_tables) N_FUN 1 4 0xF0100014 2"
    and "\<lparr>n_strx = 5, n_type = N_FUN, n_other = 0, n_desc = 0, n_value = 0xF0100010\<rparr> = usd_stabs debug_tables ! nat 2"
    and "n_strx \<lparr>n_strx = 5, n_type = N_FUN, n_other = 0, n_desc = 0, n_value = 0xF0100010\<rparr>
      < stabstr_end debug_tables - stabstr debug_tables"
    and "cstr debug_memory (stabstr debug_tables
      + n_strx \<lparr>n_strx = 5, n_type = N_FUN, n_other = 0, n_desc = 0, n_value = 0xF0100010\<rparr>) (ascii ''f:F1'')"
    by code_simp+
  note h = this
  have F: "{1} = {i. 1 \<le> i \<and> i \<le> 2 \<and> names_file (usd_stabs debug_tables ! nat i)}"
    using sample_files by (simp add: debug_tables_def)
  have "debug_tables = (if 0xF0100014 \<ge> USER_LIMIT then debug_tables else debug_tables)" by simp
  from debuginfo_eip_finds [OF this h F] show ?thesis
    by (simp add: stab_name_def debug_tables_def sample_stabs_def ascii_def)
qed

section \<open>Where the search does not find the entry\<close>

text \<open>
  An exact match two bytes below the next one, as in the example of the comment: addr++ adds four,
  so that the search goes on for an address above the next entry, which it returns.
\<close>

lemma stab_binsearch_skips_exact_match:
  "stab_binsearch (map (\<lambda>v. \<lparr>n_strx = 1, n_type = N_SO, n_other = 0, n_desc = 0, n_value = v\<rparr>)
     [0xF0100000, 0xF0100040, 0xF0100176, 0xF0100178, 0xF0100652]) 0 4 N_SO 0xF0100176 = Inr (3, 3)"
  by code_simp

text \<open>
  An address below all matching entries: the region returned is what lies before the first of them,
  so that left > right, which the comment gives as the sign of an address in no entry, holds only
  where the first entry of the region matches.
\<close>

lemma stab_binsearch_below_all:
  assumes "M = stab_matches stabs type L R" and "M \<noteq> {}" and "\<forall>i \<in> M. a < stab_value stabs i"
    and "0 \<le> L" and "R < int (length stabs)" and "values_increase stabs M"
  shows "stab_binsearch stabs L R type a = Inr (min L (Min M - 1), Min M - 1)"
proof -
  have B: "{} = {i \<in> M. stab_value stabs i \<le> a}" using assms(3) by force
  have "isolated stabs M a" "L \<le> R + 1" using assms(1-3) by (auto simp: isolated_def stab_matches_def)
  then show ?thesis using stab_binsearch_region [OF assms(1) B] assms(2,4-6) by (simp add: stab_region_def)
qed

text \<open>
  Where the table starts with a source file above the address, the search leaves lfile = -1, which
  is not 0, and the search for the function reads the entry before the table.
\<close>

lemma debuginfo_eip_reads_before_table:
  "debuginfo_eip debug_memory (debug_tables\<lparr>usd_stabs := tl sample_stabs\<rparr>) usd 0xF00FFFFF
     = Some (Inl (Out_of_bounds ''stabs''))"
proof -
  have "eip_lookup debug_memory (debug_tables\<lparr>usd_stabs := tl sample_stabs\<rparr>) 0xF00FFFFF
     = Some (Inl (Out_of_bounds ''stabs''))" by code_simp
  then show ?thesis by (simp add: debuginfo_eip_def layout_defs)
qed

end
