(* ===== verification/FOS_Disk.thy ===== *)
theory FOS_Disk
  imports FOS_String FOS_Frames FOS_Sample
begin

text \<open>
  The disk driver lib/disk.c: ide_wait_ready(), ide_read() and ide_write(). The input and output
  instructions are the hardware: functions on a device state, given as a parameter. Polling the status
  register is a partial function: \<open>None\<close> is a drive that never becomes ready. insl() and outsl()
  move 32-bit words between the data port and memory.

  The predicate \<open>ata_controller\<close> states what the ATA standard documents of the registers the driver
  uses; the driver is shown to move whole sectors between memory and such a drive, and the page file
  to be an array of pages on it, which is how read_disk_page() and write_disk_page() use it.
\<close>

section \<open>Words in memory\<close>

definition store_word :: "bytes \<Rightarrow> u32 \<Rightarrow> u32 \<Rightarrow> bytes" where
  "store_word m p w =
     m(p := ucast w, p + 1 := ucast (drop_bit 8 w), p + 2 := ucast (drop_bit 16 w), p + 3 := ucast (drop_bit 24 w))"

definition load_word :: "bytes \<Rightarrow> u32 \<Rightarrow> u32" where
  "load_word m p =
     ucast (m p) OR push_bit 8 (ucast (m (p + 1))) OR push_bit 16 (ucast (m (p + 2))) OR push_bit 24 (ucast (m (p + 3)))"

section \<open>Driver\<close>

record 'd ide_ports =
  ide_inb :: "u32 \<Rightarrow> 'd \<Rightarrow> u8 \<times> 'd"
  ide_outb :: "u32 \<Rightarrow> u8 \<Rightarrow> 'd \<Rightarrow> 'd"
  ide_inl :: "u32 \<Rightarrow> 'd \<Rightarrow> u32 \<times> 'd"
  ide_outl :: "u32 \<Rightarrow> u32 \<Rightarrow> 'd \<Rightarrow> 'd"

definition IDE_BSY :: u8 where "IDE_BSY = 0x80"
definition IDE_DRDY :: u8 where "IDE_DRDY = 0x40"
definition IDE_DF :: u8 where "IDE_DF = 0x20"
definition IDE_ERR :: u8 where "IDE_ERR = 0x01"
definition diskno :: u32 where "diskno = 0"
definition SECTSIZE :: nat where "SECTSIZE = 512"

lemmas ide_defs = IDE_BSY_def IDE_DRDY_def IDE_DF_def IDE_ERR_def

text \<open>The loop that reads the status register, and the last status read.\<close>

partial_function (option) ide_poll :: "'d ide_ports \<Rightarrow> 'd \<Rightarrow> (u8 \<times> 'd) option" where
  "ide_poll P d =
     (let (r, d) = ide_inb P 0x1F7 d in
      if r AND (IDE_BSY OR IDE_DRDY) \<noteq> IDE_DRDY then ide_poll P d else Some (r, d))"

definition ide_wait_ready :: "'d ide_ports \<Rightarrow> bool \<Rightarrow> 'd \<Rightarrow> (u32 \<times> 'd) option" where
  "ide_wait_ready P check_error d =
     map_option (\<lambda>(r, d). (if check_error \<and> r AND (IDE_DF OR IDE_ERR) \<noteq> 0 then - 1 else 0, d)) (ide_poll P d)"

fun insl :: "'d ide_ports \<Rightarrow> u32 \<Rightarrow> u32 \<Rightarrow> nat \<Rightarrow> bytes \<Rightarrow> 'd \<Rightarrow> bytes \<times> 'd" where
  "insl P port addr 0 m d = (m, d)"
| "insl P port addr (Suc cnt) m d =
     (let (w, d) = ide_inl P port d in insl P port (addr + 4) cnt (store_word m addr w) d)"

fun outsl :: "'d ide_ports \<Rightarrow> u32 \<Rightarrow> u32 \<Rightarrow> nat \<Rightarrow> bytes \<Rightarrow> 'd \<Rightarrow> 'd" where
  "outsl P port addr 0 m d = d"
| "outsl P port addr (Suc cnt) m d = outsl P port (addr + 4) cnt m (ide_outl P port (load_word m addr) d)"

text \<open>The six registers of a command, in the order in which both functions write them.\<close>

definition ide_command :: "'d ide_ports \<Rightarrow> u32 \<Rightarrow> u32 \<Rightarrow> u8 \<Rightarrow> 'd \<Rightarrow> 'd" where
  "ide_command P secno nsecs cmd d =
     (let d = ide_outb P 0x1F2 (ucast nsecs) d;
          d = ide_outb P 0x1F3 (ucast (secno AND 0xFF)) d;
          d = ide_outb P 0x1F4 (ucast (drop_bit 8 secno AND 0xFF)) d;
          d = ide_outb P 0x1F5 (ucast (drop_bit 16 secno AND 0xFF)) d;
          d = ide_outb P 0x1F6 (ucast (0xE0 OR push_bit 4 (diskno AND 1) OR (drop_bit 24 secno AND 0x0F))) d
      in ide_outb P 0x1F7 cmd d)"

text \<open>The loops over the sectors; the count is the rounds that are left.\<close>

fun read_sectors :: "'d ide_ports \<Rightarrow> nat \<Rightarrow> u32 \<Rightarrow> bytes \<Rightarrow> 'd \<Rightarrow> (u32 \<times> bytes \<times> 'd) option" where
  "read_sectors P 0 dst m d = Some (0, m, d)"
| "read_sectors P (Suc n) dst m d =
     Option.bind (ide_wait_ready P True d) (\<lambda>(r, d).
       if sint r < 0 then Some (r, m, d)
       else let (m, d) = insl P 0x1F0 dst (SECTSIZE div 4) m d in read_sectors P n (dst + of_nat SECTSIZE) m d)"

definition ide_read :: "'d ide_ports \<Rightarrow> u32 \<Rightarrow> u32 \<Rightarrow> u32 \<Rightarrow> bytes \<Rightarrow> 'd \<Rightarrow> (u32 \<times> bytes \<times> 'd) result option" where
  "ide_read P secno dst nsecs m d =
     (if \<not> nsecs \<le> 256 then Some (Inl (Assert_failure ''nsecs <= 256''))
      else
        Option.bind (ide_wait_ready P False d) (\<lambda>(r, d).
          map_option Inr (read_sectors P (unat nsecs) dst m (ide_command P secno nsecs 0x20 d))))"

fun write_sectors :: "'d ide_ports \<Rightarrow> nat \<Rightarrow> u32 \<Rightarrow> bytes \<Rightarrow> 'd \<Rightarrow> (u32 \<times> 'd) option" where
  "write_sectors P 0 src m d = Some (0, d)"
| "write_sectors P (Suc n) src m d =
     Option.bind (ide_wait_ready P True d) (\<lambda>(r, d).
       if sint r < 0 then Some (r, d)
       else write_sectors P n (src + of_nat SECTSIZE) m (outsl P 0x1F0 src (SECTSIZE div 4) m d))"

definition ide_write :: "'d ide_ports \<Rightarrow> u32 \<Rightarrow> u32 \<Rightarrow> u32 \<Rightarrow> bytes \<Rightarrow> 'd \<Rightarrow> (u32 \<times> 'd) result option" where
  "ide_write P secno src nsecs m d =
     (if \<not> nsecs \<le> 256 then Some (Inl (Assert_failure ''nsecs <= 256''))
      else
        Option.bind (ide_wait_ready P False d) (\<lambda>(r, d).
          map_option Inr (write_sectors P (unat nsecs) src m (ide_command P secno nsecs 0x30 d))))"

section \<open>Pages on the drive\<close>

text \<open>read_disk_page() and write_disk_page() of kern/file_manager.c on the driver.\<close>

definition PAGE_FILE_START_SECTOR :: u32 where "PAGE_FILE_START_SECTOR = push_bit 20 20 div of_nat SECTSIZE"
definition SECTOR_PER_PAGE :: u32 where "SECTOR_PER_PAGE = PAGE_SIZE div of_nat SECTSIZE"

definition df_start_sector :: "u32 \<Rightarrow> u32" where
  "df_start_sector dfn = PAGE_FILE_START_SECTOR + dfn * SECTOR_PER_PAGE"

definition ide_read_page :: "'d ide_ports \<Rightarrow> u32 \<Rightarrow> u32 \<Rightarrow> bytes \<Rightarrow> 'd \<Rightarrow> (u32 \<times> bytes \<times> 'd) result option" where
  "ide_read_page P dfn va m d = ide_read P (df_start_sector dfn) va SECTOR_PER_PAGE m d"

definition ide_write_page :: "'d ide_ports \<Rightarrow> u32 \<Rightarrow> u32 \<Rightarrow> bytes \<Rightarrow> 'd \<Rightarrow> (u32 \<times> 'd) result option" where
  "ide_write_page P dfn va m d =
     map_option (\<lambda>r. rbind r (\<lambda>(success, d).
         if success \<noteq> 0 then Inl (Panic ''Error writing on disk'') else Inr (success, d)))
       (ide_write P (df_start_sector dfn) va SECTOR_PER_PAGE m d)"

section \<open>Drive\<close>

text \<open>
  What a drive shows its host: the registers, the command it carries out, and its sectors of 128
  words. A read is at a word of a sector, with the sectors it still has to deliver; a write has the
  words of the sector received so far.
\<close>

datatype ata_op =
    Ata_idle
  | Ata_read nat nat nat
  | Ata_write nat "u32 list" nat

record ata =
  ata_count :: u8
  ata_lba :: "nat \<Rightarrow> u8"
  ata_op :: ata_op
  ata_media :: "nat \<Rightarrow> u32 list"

text \<open>The sector a command addresses, and the number of sectors, of which 0 stands for 256.\<close>

definition lba_of :: "(nat \<Rightarrow> u8) \<Rightarrow> nat" where
  "lba_of l = unat (l 0) + 256 * (unat (l 1) + 256 * (unat (l 2) + 256 * unat (l 3 AND 0x0F)))"

definition count_of :: "u8 \<Rightarrow> nat" where
  "count_of c = (if c = 0 then 256 else unat c)"

definition ata_outb :: "u32 \<Rightarrow> u8 \<Rightarrow> ata \<Rightarrow> ata" where
  "ata_outb port v a =
     (if port = 0x1F2 then a\<lparr>ata_count := v\<rparr>
      else if port = 0x1F3 then a\<lparr>ata_lba := (ata_lba a)(0 := v)\<rparr>
      else if port = 0x1F4 then a\<lparr>ata_lba := (ata_lba a)(1 := v)\<rparr>
      else if port = 0x1F5 then a\<lparr>ata_lba := (ata_lba a)(2 := v)\<rparr>
      else if port = 0x1F6 then a\<lparr>ata_lba := (ata_lba a)(3 := v)\<rparr>
      else if v = 0x20 then a\<lparr>ata_op := Ata_read (lba_of (ata_lba a)) 0 (count_of (ata_count a))\<rparr>
      else a\<lparr>ata_op := Ata_write (lba_of (ata_lba a)) [] (count_of (ata_count a))\<rparr>)"

definition after_word :: "nat \<Rightarrow> nat \<Rightarrow> nat \<Rightarrow> ata_op" where
  "after_word lba i n =
     (if i + 1 < 128 then Ata_read lba (i + 1) n else if n > 1 then Ata_read (lba + 1) 0 (n - 1) else Ata_idle)"

definition receive_word :: "nat \<Rightarrow> u32 list \<Rightarrow> nat \<Rightarrow> u32 \<Rightarrow> ata \<Rightarrow> ata" where
  "receive_word lba ws n w a =
     (if length ws + 1 < 128 then a\<lparr>ata_op := Ata_write lba (ws @ [w]) n\<rparr>
      else a\<lparr>ata_media := (ata_media a)(lba := ws @ [w]),
             ata_op := (if n > 1 then Ata_write (lba + 1) [] (n - 1) else Ata_idle)\<rparr>)"

text \<open>
  The documented behaviour of a drive that reports no error, for the view of its state: a register
  written is taken; a status read shows a busy drive, for a bounded number of reads, or a ready one
  without the error bits; the data port delivers or takes the next word, without waiting inside a
  sector.
\<close>

definition ata_controller :: "'d ide_ports \<Rightarrow> ('d \<Rightarrow> ata) \<Rightarrow> ('d \<Rightarrow> nat) \<Rightarrow> bool" where
  "ata_controller P view busy \<longleftrightarrow>
     (\<forall>d port v. busy d = 0 \<and> ata_op (view d) = Ata_idle \<and> 0x1F2 \<le> port \<and> port \<le> 0x1F6 \<longrightarrow>
          view (ide_outb P port v d) = ata_outb port v (view d) \<and> busy (ide_outb P port v d) = 0)
     \<and> (\<forall>d v. busy d = 0 \<and> ata_op (view d) = Ata_idle \<and> v \<in> {0x20, 0x30} \<longrightarrow>
          view (ide_outb P 0x1F7 v d) = ata_outb 0x1F7 v (view d))
     \<and> (\<forall>d r d'. busy d > 0 \<and> ide_inb P 0x1F7 d = (r, d') \<longrightarrow>
          r AND IDE_BSY \<noteq> 0 \<and> view d' = view d \<and> busy d' < busy d)
     \<and> (\<forall>d r d'. busy d = 0 \<and> ide_inb P 0x1F7 d = (r, d') \<longrightarrow>
          r AND (IDE_BSY OR IDE_DRDY OR IDE_DF OR IDE_ERR) = IDE_DRDY \<and> view d' = view d \<and> busy d' = 0)
     \<and> (\<forall>d w d' lba i n. busy d = 0 \<and> ata_op (view d) = Ata_read lba i n \<and> ide_inl P 0x1F0 d = (w, d') \<longrightarrow>
          w = ata_media (view d) lba ! i \<and> view d' = (view d)\<lparr>ata_op := after_word lba i n\<rparr>
          \<and> (i + 1 < 128 \<longrightarrow> busy d' = 0))
     \<and> (\<forall>d w lba ws n. busy d = 0 \<and> ata_op (view d) = Ata_write lba ws n \<longrightarrow>
          view (ide_outl P 0x1F0 w d) = receive_word lba ws n w (view d)
          \<and> (length ws + 1 < 128 \<longrightarrow> busy (ide_outl P 0x1F0 w d) = 0))"

section \<open>Waiting\<close>

lemma ready_bits:
  assumes "r AND (IDE_BSY OR IDE_DRDY OR IDE_DF OR IDE_ERR) = IDE_DRDY"
  shows "r AND (IDE_BSY OR IDE_DRDY) = IDE_DRDY" "r AND (IDE_DF OR IDE_ERR) = 0"
proof -
  have "r AND (IDE_BSY OR IDE_DRDY) = (r AND (IDE_BSY OR IDE_DRDY OR IDE_DF OR IDE_ERR)) AND (IDE_BSY OR IDE_DRDY)"
    by (simp add: ide_defs and.assoc)
  then show "r AND (IDE_BSY OR IDE_DRDY) = IDE_DRDY" using assms by (simp add: ide_defs)
  have "r AND (IDE_DF OR IDE_ERR) = (r AND (IDE_BSY OR IDE_DRDY OR IDE_DF OR IDE_ERR)) AND (IDE_DF OR IDE_ERR)"
    by (simp add: ide_defs and.assoc)
  then show "r AND (IDE_DF OR IDE_ERR) = 0" using assms by (simp add: ide_defs)
qed

lemma busy_bits:
  assumes "r AND IDE_BSY \<noteq> 0"
  shows "r AND (IDE_BSY OR IDE_DRDY) \<noteq> IDE_DRDY"
proof
  assume "r AND (IDE_BSY OR IDE_DRDY) = IDE_DRDY"
  then have "(r AND (IDE_BSY OR IDE_DRDY)) AND IDE_BSY = 0" by (simp add: ide_defs)
  then show False using assms by (simp add: ide_defs and.assoc)
qed

lemma ide_poll_ready:
  assumes c: "ata_controller P view busy"
  shows "\<exists>r d'. ide_poll P d = Some (r, d') \<and> r AND (IDE_DF OR IDE_ERR) = 0 \<and> view d' = view d \<and> busy d' = 0"
proof (induction "busy d" arbitrary: d rule: less_induct)
  case less
  obtain r d1 where in1: "ide_inb P 0x1F7 d = (r, d1)" by fastforce
  show ?case
  proof (cases "busy d = 0")
    case True
    then have r: "r AND (IDE_BSY OR IDE_DRDY OR IDE_DF OR IDE_ERR) = IDE_DRDY" "view d1 = view d" "busy d1 = 0"
      using c in1 unfolding ata_controller_def by blast+
    then show ?thesis using in1 ready_bits [OF r(1)] by (subst ide_poll.simps) simp
  next
    case False
    then have r: "r AND IDE_BSY \<noteq> 0" "view d1 = view d" "busy d1 < busy d"
      using c in1 unfolding ata_controller_def by (metis neq0_conv)+
    then show ?thesis using less [OF r(3)] in1 busy_bits [OF r(1)] by (subst ide_poll.simps) simp
  qed
qed

lemma ide_wait_ready_ok:
  assumes "ata_controller P view busy"
  shows "\<exists>d'. ide_wait_ready P check_error d = Some (0, d') \<and> view d' = view d \<and> busy d' = 0"
  using ide_poll_ready [OF assms, of d] by (auto simp: ide_wait_ready_def)

section \<open>Transfers\<close>

fun write_words :: "bytes \<Rightarrow> u32 \<Rightarrow> u32 list \<Rightarrow> bytes" where
  "write_words m p [] = m"
| "write_words m p (w # ws) = write_words (store_word m p w) (p + 4) ws"

fun read_words :: "bytes \<Rightarrow> u32 \<Rightarrow> nat \<Rightarrow> u32 list" where
  "read_words m p 0 = []"
| "read_words m p (Suc n) = load_word m p # read_words m (p + 4) n"

lemma length_read_words [simp]: "length (read_words m p n) = n"
  by (induction n arbitrary: p) auto

lemma write_words_append:
  "write_words m p (xs @ ys) = write_words (write_words m p xs) (p + of_nat (4 * length xs)) ys"
  by (induction xs arbitrary: m p) (auto simp: algebra_simps)

lemma read_words_append:
  "read_words m p (a + b) = read_words m p a @ read_words m (p + of_nat (4 * a)) b"
  by (induction a arbitrary: p) (auto simp: algebra_simps)

lemma outsl_add: "outsl P port p (a + b) m d = outsl P port (p + of_nat (4 * a)) b m (outsl P port p a m d)"
  by (induction a arbitrary: p d) (auto simp: algebra_simps)

lemma ata_in:
  assumes "ata_controller P view busy" and "busy d = 0" and "ata_op (view d) = Ata_read lba i n"
  obtains d' where "ide_inl P 0x1F0 d = (ata_media (view d) lba ! i, d')"
    and "view d' = (view d)\<lparr>ata_op := after_word lba i n\<rparr>" and "i + 1 < 128 \<Longrightarrow> busy d' = 0"
proof -
  obtain w d' where "ide_inl P 0x1F0 d = (w, d')" by fastforce
  then show thesis using that assms unfolding ata_controller_def by metis
qed

lemma insl_words:
  assumes c: "ata_controller P view busy"
  shows "busy d = 0 \<Longrightarrow> ata_op (view d) = Ata_read lba i n \<Longrightarrow> i + Suc cnt \<le> 128 \<Longrightarrow> length (ata_media (view d) lba) = 128 \<Longrightarrow>
    \<exists>d'. insl P 0x1F0 p (Suc cnt) m d = (write_words m p (take (Suc cnt) (drop i (ata_media (view d) lba))), d')
      \<and> view d' = (view d)\<lparr>ata_op := after_word lba (i + cnt) n\<rparr>"
proof (induction cnt arbitrary: i p m d)
  case 0
  from ata_in [OF c 0(1,2)] obtain d' where d': "ide_inl P 0x1F0 d = (ata_media (view d) lba ! i, d')"
    "view d' = (view d)\<lparr>ata_op := after_word lba i n\<rparr>" by blast
  have "take (Suc 0) (drop i (ata_media (view d) lba)) = [ata_media (view d) lba ! i]"
    using 0 by (simp add: take_Suc hd_drop_conv_nth)
  then show ?case using d' by simp
next
  case (Suc cnt)
  from ata_in [OF c Suc.prems(1,2)] obtain d1 where d1: "ide_inl P 0x1F0 d = (ata_media (view d) lba ! i, d1)"
    "view d1 = (view d)\<lparr>ata_op := after_word lba i n\<rparr>" "i + 1 < 128 \<Longrightarrow> busy d1 = 0" by blast
  have op: "ata_op (view d1) = Ata_read lba (i + 1) n" using d1(2) Suc.prems(3) by (simp add: after_word_def)
  obtain d2 where d2: "insl P 0x1F0 (p + 4) (Suc cnt) (store_word m p (ata_media (view d) lba ! i)) d1
      = (write_words (store_word m p (ata_media (view d) lba ! i)) (p + 4)
          (take (Suc cnt) (drop (i + 1) (ata_media (view d1) lba))), d2)"
    "view d2 = (view d1)\<lparr>ata_op := after_word lba (i + 1 + cnt) n\<rparr>"
    using Suc.IH [OF _ op, of "p + 4" "store_word m p (ata_media (view d) lba ! i)"] Suc.prems d1 by auto
  have "take (Suc (Suc cnt)) (drop i (ata_media (view d) lba))
      = ata_media (view d) lba ! i # take (Suc cnt) (drop (i + 1) (ata_media (view d) lba))"
    using Suc.prems by (simp add: Cons_nth_drop_Suc [symmetric])
  then show ?case using d1 d2 by (simp add: insl.simps(2) [of P "0x1F0" p "Suc cnt"] del: insl.simps)
qed

definition sectors :: "ata \<Rightarrow> nat \<Rightarrow> nat \<Rightarrow> u32 list" where
  "sectors a lba n = concat (map (ata_media a) [lba..<lba + n])"

lemma sectors_Suc: "sectors a lba (Suc n) = ata_media a lba @ sectors a (Suc lba) n"
  by (simp add: sectors_def upt_conv_Cons del: upt_Suc)

lemma read_sectors_ok:
  assumes c: "ata_controller P view busy"
  shows "ata_op (view d) = Ata_read lba 0 (Suc n) \<Longrightarrow> (\<forall>s. length (ata_media (view d) s) = 128) \<Longrightarrow>
    \<exists>d'. read_sectors P (Suc n) dst m d = Some (0, write_words m dst (sectors (view d) lba (Suc n)), d')
      \<and> view d' = (view d)\<lparr>ata_op := Ata_idle\<rparr>"
proof (induction n arbitrary: lba dst m d)
  case (0 lba dst m d)
  obtain d1 where d1: "ide_wait_ready P True d = Some (0, d1)" "view d1 = view d" "busy d1 = 0"
    using ide_wait_ready_ok [OF c] by blast
  obtain d2 where d2: "insl P 0x1F0 dst 128 m d1 = (write_words m dst (ata_media (view d) lba), d2)"
    "view d2 = (view d)\<lparr>ata_op := Ata_idle\<rparr>"
    using insl_words [OF c, of d1 lba 0 1 127 dst m] d1 0 by (auto simp: after_word_def)
  show ?case using d1 d2 0 by (simp add: sectors_def SECTSIZE_def del: insl.simps)
next
  case (Suc n lba dst m d)
  obtain d1 where d1: "ide_wait_ready P True d = Some (0, d1)" "view d1 = view d" "busy d1 = 0"
    using ide_wait_ready_ok [OF c] by blast
  obtain d2 where d2: "insl P 0x1F0 dst 128 m d1 = (write_words m dst (ata_media (view d) lba), d2)"
    "view d2 = (view d)\<lparr>ata_op := Ata_read (lba + 1) 0 (Suc n)\<rparr>"
    using insl_words [OF c, of d1 lba 0 "Suc (Suc n)" 127 dst m] d1 Suc.prems by (auto simp: after_word_def)
  obtain d3 where d3: "read_sectors P (Suc n) (dst + 512) (write_words m dst (ata_media (view d) lba)) d2
      = Some (0, write_words (write_words m dst (ata_media (view d) lba)) (dst + 512) (sectors (view d2) (lba + 1) (Suc n)), d3)"
    "view d3 = (view d2)\<lparr>ata_op := Ata_idle\<rparr>"
    using Suc.IH [of d2 "lba + 1" "dst + 512" "write_words m dst (ata_media (view d) lba)"] d2(2) Suc.prems by auto
  have "read_sectors P (Suc (Suc n)) dst m d
      = read_sectors P (Suc n) (dst + 512) (write_words m dst (ata_media (view d) lba)) d2"
    using d1 d2(1) by (simp add: read_sectors.simps(2) [of P "Suc n"] SECTSIZE_def del: insl.simps read_sectors.simps)
  moreover have "sectors (view d2) (lba + 1) (Suc n) = sectors (view d) (lba + 1) (Suc n)"
    using d2(2) by (simp add: sectors_def)
  ultimately show ?case
    using d3 d2(2) Suc.prems(2) by (simp add: sectors_Suc [of _ lba "Suc n"] write_words_append del: read_sectors.simps)
qed

lemma ata_out:
  assumes "ata_controller P view busy" and "busy d = 0" and "ata_op (view d) = Ata_write lba ws n"
  shows "view (ide_outl P 0x1F0 w d) = receive_word lba ws n w (view d)"
    and "length ws + 1 < 128 \<Longrightarrow> busy (ide_outl P 0x1F0 w d) = 0"
  using assms unfolding ata_controller_def by blast+

lemma outsl_words:
  assumes c: "ata_controller P view busy"
  shows "busy d = 0 \<Longrightarrow> ata_op (view d) = Ata_write lba ws n \<Longrightarrow> length ws + cnt < 128 \<Longrightarrow>
    view (outsl P 0x1F0 p cnt m d) = (view d)\<lparr>ata_op := Ata_write lba (ws @ read_words m p cnt) n\<rparr>
    \<and> busy (outsl P 0x1F0 p cnt m d) = 0"
proof (induction cnt arbitrary: ws p d)
  case (Suc cnt)
  let ?d = "ide_outl P 0x1F0 (load_word m p) d"
  have v: "view ?d = (view d)\<lparr>ata_op := Ata_write lba (ws @ [load_word m p]) n\<rparr>" "busy ?d = 0"
    using ata_out [OF c Suc.prems(1,2)] Suc.prems(3) by (auto simp: receive_word_def)
  then show ?case using Suc.IH [of ?d "ws @ [load_word m p]" "p + 4"] Suc.prems(3) by simp
qed (simp add: ata.surjective)

lemma outsl_sector:
  assumes c: "ata_controller P view busy" and d: "busy d = 0" "ata_op (view d) = Ata_write lba [] n"
  shows "view (outsl P 0x1F0 p 128 m d) = (view d)\<lparr>ata_media := (ata_media (view d))(lba := read_words m p 128),
    ata_op := (if n > 1 then Ata_write (lba + 1) [] (n - 1) else Ata_idle)\<rparr>"
proof -
  let ?d = "outsl P 0x1F0 p 127 m d"
  have v: "view ?d = (view d)\<lparr>ata_op := Ata_write lba (read_words m p 127) n\<rparr>" "busy ?d = 0"
    using outsl_words [OF c d, of 127 p m] by auto
  then have "view (ide_outl P 0x1F0 (load_word m (p + 508)) ?d)
      = receive_word lba (read_words m p 127) n (load_word m (p + 508)) (view ?d)"
    using ata_out(1) [OF c v(2)] by simp
  moreover have "outsl P 0x1F0 p 128 m d = ide_outl P 0x1F0 (load_word m (p + 508)) ?d"
    using outsl_add [of P "0x1F0" p 127 1 m d] by simp
  moreover have "read_words m p 128 = read_words m p 127 @ [load_word m (p + 508)]"
    using read_words_append [of m p 127 1] by simp
  ultimately show ?thesis using v(1) by (simp add: receive_word_def del: outsl.simps read_words.simps)
qed

text \<open>The sectors after a transfer from memory to the sectors from \<open>lba\<close> on.\<close>

definition put_sectors :: "bytes \<Rightarrow> u32 \<Rightarrow> nat \<Rightarrow> nat \<Rightarrow> (nat \<Rightarrow> u32 list) \<Rightarrow> nat \<Rightarrow> u32 list" where
  "put_sectors m src lba n media s =
     (if lba \<le> s \<and> s < lba + n then read_words m (src + of_nat (512 * (s - lba))) 128 else media s)"

lemma put_sectors_Suc:
  "put_sectors m src lba (Suc n) media
     = put_sectors m (src + 512) (lba + 1) n (media(lba := read_words m src 128))"
proof
  fix s
  have "src + of_nat (512 * (s - lba)) = src + 512 + of_nat (512 * (s - (lba + 1)))" if "lba < s"
  proof -
    have "512 * (s - lba) = 512 + 512 * (s - (lba + 1))" using that by simp
    then show ?thesis by (metis (no_types) add.assoc of_nat_add of_nat_numeral)
  qed
  then show "put_sectors m src lba (Suc n) media s
      = put_sectors m (src + 512) (lba + 1) n (media(lba := read_words m src 128)) s"
    by (cases "s = lba") (auto simp: put_sectors_def simp del: read_words.simps)
qed

lemma write_sectors_ok:
  assumes c: "ata_controller P view busy"
  shows "ata_op (view d) = Ata_write lba [] (Suc n) \<Longrightarrow>
    \<exists>d'. write_sectors P (Suc n) src m d = Some (0, d')
      \<and> view d' = (view d)\<lparr>ata_media := put_sectors m src lba (Suc n) (ata_media (view d)), ata_op := Ata_idle\<rparr>"
proof (induction n arbitrary: lba src d)
  case (0 lba src d)
  obtain d1 where d1: "ide_wait_ready P True d = Some (0, d1)" "view d1 = view d" "busy d1 = 0"
    using ide_wait_ready_ok [OF c] by blast
  have "put_sectors m (src + 512) (lba + 1) 0 f = f" for f by (auto simp: put_sectors_def fun_eq_iff)
  then show ?case
    using outsl_sector [OF c d1(3), of lba 1 src m] d1 0
    by (simp add: SECTSIZE_def put_sectors_Suc fun_upd_def del: outsl.simps read_words.simps)
next
  case (Suc n lba src d)
  obtain d1 where d1: "ide_wait_ready P True d = Some (0, d1)" "view d1 = view d" "busy d1 = 0"
    using ide_wait_ready_ok [OF c] by blast
  let ?d = "outsl P 0x1F0 src 128 m d1"
  have v: "view ?d = (view d)\<lparr>ata_media := (ata_media (view d))(lba := read_words m src 128),
      ata_op := Ata_write (lba + 1) [] (Suc n)\<rparr>"
    using outsl_sector [OF c d1(3), of lba "Suc (Suc n)" src m] d1 Suc.prems by simp
  then have "ata_op (view ?d) = Ata_write (lba + 1) [] (Suc n)" by simp
  from Suc.IH [OF this, of "src + 512"]
  obtain d2 where d2: "write_sectors P (Suc n) (src + 512) m ?d = Some (0, d2)"
    "view d2 = (view ?d)\<lparr>ata_media := put_sectors m (src + 512) (lba + 1) (Suc n) (ata_media (view ?d)), ata_op := Ata_idle\<rparr>"
    by blast
  have "write_sectors P (Suc (Suc n)) src m d = write_sectors P (Suc n) (src + 512) m ?d"
    using d1 by (simp add: write_sectors.simps(2) [of P "Suc n"] SECTSIZE_def del: outsl.simps write_sectors.simps)
  then show ?case
    using d2 v by (simp add: put_sectors_Suc [of m src lba "Suc n"] fun_upd_def del: write_sectors.simps read_words.simps)
qed

section \<open>Commands\<close>

lemma unat_low_byte: "unat (ucast (x AND 0xFF) :: u8) = unat (x :: u32) mod 256"
proof -
  have "x AND 0xFF = x mod 256" by (simp add: take_bit_eq_mask mask_eq_exp_minus_1 flip: take_bit_eq_mod [of 8, simplified])
  then show ?thesis by (simp add: unsigned_ucast_eq take_bit_eq_mod unat_mod)
qed

lemma lba_of_command:
  assumes "secno < 0x10000000"
    and "l 0 = ucast (secno AND 0xFF)" and "l 1 = ucast (drop_bit 8 secno AND 0xFF)"
    and "l 2 = ucast (drop_bit 16 secno AND 0xFF)"
    and "l 3 = ucast (0xE0 OR push_bit 4 (diskno AND 1) OR (drop_bit 24 secno AND 0x0F))"
  shows "lba_of l = unat secno"
proof -
  have hi: "unat (ucast (0xE0 OR push_bit 4 (diskno AND 1) OR (drop_bit 24 secno AND 0x0F)) AND 0x0F :: u8)
      = unat (drop_bit 24 secno)"
  proof -
    define k where "k = unat (drop_bit 24 secno)"
    have "k = unat secno div 2 ^ 24" by (simp add: k_def unat_drop_bit_eq drop_bit_eq_div unat_div)
    moreover have "unat secno < 2 ^ 28" using assms(1) by (simp add: word_less_nat_alt)
    ultimately have k1: "k < 16" by simp
    have k: "k < 16" "drop_bit 24 secno = of_nat k" using k1 unfolding k_def by simp_all
    have "\<forall>k \<in> set [0..<16]. unat (ucast (0xE0 OR push_bit 4 (diskno AND 1) OR (of_nat k AND 0x0F :: u32)) AND 0x0F :: u8) = k"
      by code_simp
    then have "unat (ucast (0xE0 OR push_bit 4 (diskno AND 1) OR (drop_bit 24 secno AND 0x0F)) AND 0x0F :: u8) = k"
      unfolding k(2) using k(1) by (metis atLeastLessThan_iff le0 set_upt)
    then show ?thesis by (simp add: k_def)
  qed
  define a where "a = unat secno"
  have "a < 2 ^ 28" using assms(1) by (simp add: a_def word_less_nat_alt)
  then have "a mod 256 + 256 * (a div 256 mod 256 + 256 * (a div 256 div 256 mod 256 + 256 * (a div 256 div 256 div 256))) = a"
    by (simp add: mod_mult_div_eq)
  moreover have "unat (drop_bit 8 secno) = a div 256" "unat (drop_bit 16 secno) = a div 256 div 256"
    "unat (drop_bit 24 secno) = a div 256 div 256 div 256"
    by (simp_all add: a_def drop_bit_eq_div unat_div flip: div_mult2_eq)
  ultimately show ?thesis unfolding lba_of_def assms(2-5) by (simp only: hi unat_low_byte a_def)
qed

lemma count_of_command: 
  assumes "0 < n" and "n \<le> 256"
  shows "count_of (ucast (n :: u32)) = unat n"
proof -
  have n: "0 < unat n" "unat n \<le> 256" using assms by (simp_all add: word_less_nat_alt word_le_nat_alt)
  have u: "unat (ucast n :: u8) = unat n mod 256" by (simp add: unsigned_ucast_eq take_bit_eq_mod)
  show ?thesis
  proof (cases "unat n = 256")
    case True
    then have "(ucast n :: u8) = 0" using u by (simp add: unat_eq_zero)
    then show ?thesis using True by (simp add: count_of_def)
  next
    case False
    then have "unat (ucast n :: u8) = unat n" using n u by simp
    then show ?thesis using n by (auto simp: count_of_def)
  qed
qed

lemma ata_reg:
  assumes "ata_controller P view busy" and "busy d = 0" and "ata_op (view d) = Ata_idle"
    and "port \<in> {0x1F2, 0x1F3, 0x1F4, 0x1F5, 0x1F6}"
  shows "view (ide_outb P port v d) = ata_outb port v (view d)" "busy (ide_outb P port v d) = 0"
    "ata_op (view (ide_outb P port v d)) = Ata_idle"
proof -
  have law: "\<forall>d port v. busy d = 0 \<and> ata_op (view d) = Ata_idle \<and> 0x1F2 \<le> port \<and> port \<le> 0x1F6 \<longrightarrow>
      view (ide_outb P port v d) = ata_outb port v (view d) \<and> busy (ide_outb P port v d) = 0"
    using assms(1) unfolding ata_controller_def by (elim conjE)
  have "0x1F2 \<le> port \<and> port \<le> 0x1F6" using assms(4) by auto
  then have "view (ide_outb P port v d) = ata_outb port v (view d) \<and> busy (ide_outb P port v d) = 0"
    using law [rule_format, of d port v] assms(2,3) by simp
  then show a: "view (ide_outb P port v d) = ata_outb port v (view d)" and "busy (ide_outb P port v d) = 0" by auto
  show "ata_op (view (ide_outb P port v d)) = Ata_idle" using a assms(3,4) by (auto simp: ata_outb_def)
qed

lemma ata_regs:
  assumes c: "ata_controller P view busy" and d: "busy d = 0" "ata_op (view d) = Ata_idle"
    and d': "d' = ide_outb P 0x1F6 v3 (ide_outb P 0x1F5 v2 (ide_outb P 0x1F4 v1 (ide_outb P 0x1F3 v0 (ide_outb P 0x1F2 n d))))"
  shows "view d' = (view d)\<lparr>ata_count := n, ata_lba := (ata_lba (view d))(0 := v0, 1 := v1, 2 := v2, 3 := v3)\<rparr>" "busy d' = 0" "ata_op (view d') = Ata_idle"
proof -
  note reg = ata_reg [OF c]
  define d1 where "d1 = ide_outb P 0x1F2 n d"
  define d2 where "d2 = ide_outb P 0x1F3 v0 d1"
  define d3 where "d3 = ide_outb P 0x1F4 v1 d2"
  define d4 where "d4 = ide_outb P 0x1F5 v2 d3"
  have s1: "view d1 = ata_outb 0x1F2 n (view d)" "busy d1 = 0" "ata_op (view d1) = Ata_idle"
    unfolding d1_def by (rule reg [OF d]; simp)+
  have s2: "view d2 = ata_outb 0x1F3 v0 (view d1)" "busy d2 = 0" "ata_op (view d2) = Ata_idle"
    unfolding d2_def by (rule reg [OF s1(2,3)]; simp)+
  have s3: "view d3 = ata_outb 0x1F4 v1 (view d2)" "busy d3 = 0" "ata_op (view d3) = Ata_idle"
    unfolding d3_def by (rule reg [OF s2(2,3)]; simp)+
  have s4: "view d4 = ata_outb 0x1F5 v2 (view d3)" "busy d4 = 0" "ata_op (view d4) = Ata_idle"
    unfolding d4_def by (rule reg [OF s3(2,3)]; simp)+
  have e: "d' = ide_outb P 0x1F6 v3 d4" by (simp add: d' d1_def d2_def d3_def d4_def)
  have s5: "view d' = ata_outb 0x1F6 v3 (view d4)" "busy d' = 0" "ata_op (view d') = Ata_idle"
    unfolding e by (rule reg [OF s4(2,3)]; simp)+
  show "view d' = (view d)\<lparr>ata_count := n, ata_lba := (ata_lba (view d))(0 := v0, 1 := v1, 2 := v2, 3 := v3)\<rparr>"
    by (simp add: s5(1) s4(1) s3(1) s2(1) s1(1) ata_outb_def)
  show "busy d' = 0" "ata_op (view d') = Ata_idle" by (rule s5)+
qed

lemma ide_command_view:
  assumes c: "ata_controller P view busy" and d: "busy d = 0" "ata_op (view d) = Ata_idle"
    and "secno < 0x10000000" and "0 < nsecs" and "nsecs \<le> 256" and "cmd \<in> {0x20, 0x30}"
  shows "\<exists>l. view (ide_command P secno nsecs cmd d) = (view d)\<lparr>ata_count := ucast nsecs, ata_lba := l,
    ata_op := (if cmd = 0x20 then Ata_read (unat secno) 0 (unat nsecs) else Ata_write (unat secno) [] (unat nsecs))\<rparr>"
proof -
  define v0 v1 v2 v3 where v: "v0 = (ucast (secno AND 0xFF) :: u8)" "v1 = (ucast (drop_bit 8 secno AND 0xFF) :: u8)"
    "v2 = (ucast (drop_bit 16 secno AND 0xFF) :: u8)"
    "v3 = (ucast (0xE0 OR push_bit 4 (diskno AND 1) OR (drop_bit 24 secno AND 0x0F)) :: u8)"
  define n where "n = (ucast nsecs :: u8)"
  define l where l: "l = (ata_lba (view d))(0 := v0, 1 := v1, 2 := v2, 3 := v3)"
  have "lba_of l = unat secno" by (rule lba_of_command [OF assms(4)]) (simp_all only: l v fun_upd_apply, simp_all)
  then have lba: "lba_of l = unat secno" and n: "count_of n = unat nsecs"
    using count_of_command [OF assms(5,6)] unfolding n_def by simp_all
  define d' where d': "d' = ide_outb P 0x1F6 v3 (ide_outb P 0x1F5 v2 (ide_outb P 0x1F4 v1 (ide_outb P 0x1F3 v0 (ide_outb P 0x1F2 n d))))"
  have law: "\<forall>d v. busy d = 0 \<and> ata_op (view d) = Ata_idle \<and> v \<in> {0x20, 0x30} \<longrightarrow>
      view (ide_outb P 0x1F7 v d) = ata_outb 0x1F7 v (view d)"
    using c unfolding ata_controller_def by (elim conjE)
  note r = ata_regs [OF c d d', folded l]
  have "ide_command P secno nsecs cmd d = ide_outb P 0x1F7 cmd d'"
    unfolding ide_command_def Let_def d' v n_def ..
  then have "view (ide_command P secno nsecs cmd d) = ata_outb 0x1F7 cmd ((view d)\<lparr>ata_count := n, ata_lba := l\<rparr>)"
    using law [rule_format, of d' cmd] r assms(7) by simp
  moreover have "ata_outb 0x1F7 cmd ((view d)\<lparr>ata_count := n, ata_lba := l\<rparr>)
    = (view d)\<lparr>ata_count := n, ata_lba := l,
       ata_op := (if cmd = 0x20 then Ata_read (unat secno) 0 (unat nsecs) else Ata_write (unat secno) [] (unat nsecs))\<rparr>"
    by (simp add: ata_outb_def lba n)
  ultimately show ?thesis unfolding n_def by (intro exI [of _ l]) simp
qed

section \<open>Reading back what was written\<close>

lemma load_store_word: "load_word (store_word m p w) p = w"
proof -
  have "load_word (store_word m p w) p = ucast (ucast w :: u8) OR push_bit 8 (ucast (ucast (drop_bit 8 w) :: u8))
      OR push_bit 16 (ucast (ucast (drop_bit 16 w) :: u8)) OR push_bit 24 (ucast (ucast (drop_bit 24 w) :: u8))"
    by (simp add: load_word_def store_word_def)
  also have "\<dots> = w"
  proof (rule bit_word_eqI)
    fix n assume "n < LENGTH(32)"
    then show "bit (ucast (ucast w :: u8) OR push_bit 8 (ucast (ucast (drop_bit 8 w) :: u8))
      OR push_bit 16 (ucast (ucast (drop_bit 16 w) :: u8)) OR push_bit 24 (ucast (ucast (drop_bit 24 w) :: u8)) :: u32) n = bit w n"
      by (cases "n < 16"; cases "n < 24") (auto simp: bit_simps)
  qed
  finally show ?thesis .
qed

lemma of_nat_inject_u32: "i < 2 ^ 32 \<Longrightarrow> j < 2 ^ 32 \<Longrightarrow> (of_nat i :: u32) = of_nat j \<longleftrightarrow> i = j"
proof -
  have "unat (of_nat k :: u32) = k" if "k < 2 ^ 32" for k using that by (simp add: unsigned_of_nat take_bit_nat_eq_self)
  then show "i < 2 ^ 32 \<Longrightarrow> j < 2 ^ 32 \<Longrightarrow> (of_nat i :: u32) = of_nat j \<longleftrightarrow> i = j" by metis
qed

lemma load_word_cong: "(\<And>j. j < 4 \<Longrightarrow> m (p + of_nat j) = m' (p + of_nat j)) \<Longrightarrow> load_word m p = load_word m' p"
proof -
  assume h: "\<And>j. j < 4 \<Longrightarrow> m (p + of_nat j) = m' (p + of_nat j)"
  show ?thesis using h [of 0] h [of 1] h [of 2] h [of 3] by (simp add: load_word_def)
qed

lemma store_word_outside: "(\<And>j. j < 4 \<Longrightarrow> q \<noteq> p + of_nat j) \<Longrightarrow> store_word m p w q = m q"
proof -
  assume h: "\<And>j. j < 4 \<Longrightarrow> q \<noteq> p + of_nat j"
  show ?thesis using h [of 0] h [of 1] h [of 2] h [of 3] by (simp add: store_word_def)
qed

lemma write_words_outside:
  "(\<And>i. i < 4 * length ws \<Longrightarrow> q \<noteq> p + of_nat i) \<Longrightarrow> write_words m p ws q = m q"
proof (induction ws arbitrary: m p)
  case (Cons w ws)
  have "q \<noteq> p + 4 + of_nat i" if "i < 4 * length ws" for i
    using Cons.prems [of "4 + i"] that by (simp add: add.assoc)
  moreover have "store_word m p w q = m q" using Cons.prems by (intro store_word_outside) auto
  ultimately show ?case using Cons.IH by simp
qed simp

lemma read_write_words:
  "4 * length ws \<le> 2 ^ 32 \<Longrightarrow> read_words (write_words m p ws) p (length ws) = ws"
proof (induction ws arbitrary: m p)
  case (Cons w ws)
  have "write_words (store_word m p w) (p + 4) ws (p + of_nat j) = store_word m p w (p + of_nat j)" if "j < 4" for j
  proof (rule write_words_outside)
    fix i assume "i < 4 * length ws"
    then have lt: "4 + i < 2 ^ 32" "j < 2 ^ 32" "j \<noteq> 4 + i" using Cons.prems that by auto
    then have "(of_nat j :: u32) \<noteq> of_nat (4 + i)" by (simp only: of_nat_inject_u32 not_False_eq_True)
    then show "p + of_nat j \<noteq> p + 4 + of_nat i" by (simp add: add.assoc)
  qed
  then have "load_word (write_words (store_word m p w) (p + 4) ws) p = load_word (store_word m p w) p"
    by (rule load_word_cong)
  then show ?case using Cons by (simp add: load_store_word)
qed simp

section \<open>Properties\<close>

text \<open>A drive that is idle, with sectors of 128 words.\<close>

definition ata_ready :: "ata \<Rightarrow> bool" where
  "ata_ready a \<longleftrightarrow> ata_op a = Ata_idle \<and> (\<forall>s. length (ata_media a s) = 128)"

lemma ide_read_ok:
  assumes c: "ata_controller P view busy" and a: "ata_ready (view d)"
    and "secno < 0x10000000" and "0 < nsecs" and "nsecs \<le> 256"
  shows "\<exists>d'. ide_read P secno dst nsecs m d
      = Some (Inr (0, write_words m dst (sectors (view d) (unat secno) (unat nsecs)), d'))
    \<and> ata_media (view d') = ata_media (view d) \<and> ata_op (view d') = Ata_idle"
proof -
  obtain d1 where d1: "ide_wait_ready P False d = Some (0, d1)" "view d1 = view d" "busy d1 = 0"
    using ide_wait_ready_ok [OF c] by blast
  obtain l where v: "view (ide_command P secno nsecs 0x20 d1)
      = (view d)\<lparr>ata_count := ucast nsecs, ata_lba := l, ata_op := Ata_read (unat secno) 0 (unat nsecs)\<rparr>"
    using ide_command_view [OF c d1(3) _ assms(3-5), of "0x20"] a d1(2) by (auto simp: ata_ready_def)
  obtain n where n: "unat nsecs = Suc n" using assms(4) by (metis gr0_implies_Suc unat_gt_0 word_neq_0_conv)
  obtain d2 where "read_sectors P (unat nsecs) dst m (ide_command P secno nsecs 0x20 d1)
      = Some (0, write_words m dst (sectors (view (ide_command P secno nsecs 0x20 d1)) (unat secno) (unat nsecs)), d2)"
    "view d2 = (view (ide_command P secno nsecs 0x20 d1))\<lparr>ata_op := Ata_idle\<rparr>"
    using read_sectors_ok [OF c, of "ide_command P secno nsecs 0x20 d1" "unat secno" n dst m] v a n
    by (auto simp: ata_ready_def)
  moreover have "sectors (view (ide_command P secno nsecs 0x20 d1)) (unat secno) (unat nsecs)
      = sectors (view d) (unat secno) (unat nsecs)" using v by (simp add: sectors_def)
  ultimately show ?thesis using d1 assms(5) v by (simp add: ide_read_def)
qed

lemma ide_write_ok:
  assumes c: "ata_controller P view busy" and a: "ata_op (view d) = Ata_idle"
    and "secno < 0x10000000" and "0 < nsecs" and "nsecs \<le> 256"
  shows "\<exists>d'. ide_write P secno src nsecs m d = Some (Inr (0, d'))
    \<and> ata_media (view d') = put_sectors m src (unat secno) (unat nsecs) (ata_media (view d)) \<and> ata_op (view d') = Ata_idle"
proof -
  obtain d1 where d1: "ide_wait_ready P False d = Some (0, d1)" "view d1 = view d" "busy d1 = 0"
    using ide_wait_ready_ok [OF c] by blast
  obtain l where v: "view (ide_command P secno nsecs 0x30 d1)
      = (view d)\<lparr>ata_count := ucast nsecs, ata_lba := l, ata_op := Ata_write (unat secno) [] (unat nsecs)\<rparr>"
    using ide_command_view [OF c d1(3) _ assms(3-5), of "0x30"] a d1(2) by auto
  obtain n where n: "unat nsecs = Suc n" using assms(4) by (metis gr0_implies_Suc unat_gt_0 word_neq_0_conv)
  obtain d2 where "write_sectors P (unat nsecs) src m (ide_command P secno nsecs 0x30 d1) = Some (0, d2)"
    "view d2 = (view (ide_command P secno nsecs 0x30 d1))\<lparr>ata_media := put_sectors m src (unat secno) (unat nsecs)
      (ata_media (view (ide_command P secno nsecs 0x30 d1))), ata_op := Ata_idle\<rparr>"
    using write_sectors_ok [OF c, of "ide_command P secno nsecs 0x30 d1" "unat secno" n src m] v n by auto
  then show ?thesis using d1 assms(5) v by (simp add: ide_write_def)
qed

lemma sectors_put_sectors:
  "ata_media a = put_sectors m src lba n media \<Longrightarrow> sectors a lba n = read_words m src (128 * n)"
proof (induction n arbitrary: src lba media)
  case (Suc n)
  have "ata_media a lba = read_words m src 128" by (simp add: Suc.prems put_sectors_def del: read_words.simps)
  moreover have "sectors a (Suc lba) n = read_words m (src + 512) (128 * n)"
    using Suc.IH Suc.prems by (simp add: put_sectors_Suc)
  moreover have "128 * Suc n = 128 + 128 * n" by simp
  ultimately show ?case by (simp only: sectors_Suc read_words_append) simp
qed (simp add: sectors_def)

lemma ata_ready_put:
  "ata_ready a \<Longrightarrow> ata_op a' = Ata_idle \<Longrightarrow> ata_media a' = put_sectors m src lba n (ata_media a) \<Longrightarrow> ata_ready a'"
  by (auto simp: ata_ready_def put_sectors_def simp del: read_words.simps)

lemma length_sectors: "ata_ready a \<Longrightarrow> length (sectors a lba n) = 128 * n"
  by (induction n arbitrary: lba) (auto simp: sectors_Suc ata_ready_def sectors_def [of _ _ 0])

text \<open>
  C22. Sectors written with ide\_write() are read back by ide\_read(): on a drive that behaves as the
  ATA standard says, with a sector number of 28 bits and 1 to 256 sectors, both return 0, the memory
  at the destination then holds the words that were at the source, and no other byte has changed.
\<close>

theorem ide_write_read:
  assumes "ata_controller P view busy" and "ata_ready (view d)"
    and "secno < 0x10000000" and "0 < nsecs" and "nsecs \<le> 256"
  shows "\<exists>d' m' d''. ide_write P secno src nsecs m d = Some (Inr (0, d'))
    \<and> ide_read P secno dst nsecs m2 d' = Some (Inr (0, m', d''))
    \<and> read_words m' dst (128 * unat nsecs) = read_words m src (128 * unat nsecs)
    \<and> (\<forall>q. (\<forall>i < 512 * unat nsecs. q \<noteq> dst + of_nat i) \<longrightarrow> m' q = m2 q)"
proof -
  have op: "ata_op (view d) = Ata_idle" using assms(2) by (simp add: ata_ready_def)
  obtain d' where w: "ide_write P secno src nsecs m d = Some (Inr (0, d'))"
    "ata_media (view d') = put_sectors m src (unat secno) (unat nsecs) (ata_media (view d))" "ata_op (view d') = Ata_idle"
    using ide_write_ok [OF assms(1) op assms(3-5)] by blast
  let ?ws = "read_words m src (128 * unat nsecs)"
  obtain d'' where r: "ide_read P secno dst nsecs m2 d' = Some (Inr (0, write_words m2 dst ?ws, d''))"
    using ide_read_ok [OF assms(1) ata_ready_put [OF assms(2) w(3,2)] assms(3-5)] sectors_put_sectors [OF w(2)] by auto
  have "unat nsecs \<le> 256" using assms(5) by (simp add: word_le_nat_alt)
  then have "read_words (write_words m2 dst ?ws) dst (128 * unat nsecs) = ?ws" using read_write_words [of ?ws] by simp
  moreover have "write_words m2 dst ?ws q = m2 q" if "\<forall>i < 512 * unat nsecs. q \<noteq> dst + of_nat i" for q
    using that by (intro write_words_outside) simp
  ultimately show ?thesis using w(1) r by blast
qed

text \<open>A drive that is busy for one status read after a command and after each sector.\<close>

definition sample_ide :: "(ata \<times> nat) ide_ports" where
  "sample_ide =
     \<lparr>ide_inb = (\<lambda>port (a, b). if b > 0 then (IDE_BSY, (a, b - 1)) else (IDE_DRDY, (a, b))),
      ide_outb = (\<lambda>port v (a, b). (ata_outb port v a, if port = 0x1F7 then 1 else b)),
      ide_inl = (\<lambda>port (a, b). case ata_op a of
          Ata_read lba i n \<Rightarrow> (ata_media a lba ! i, (a\<lparr>ata_op := after_word lba i n\<rparr>, if i + 1 < 128 then b else 1))
        | _ \<Rightarrow> (0, (a, b))),
      ide_outl = (\<lambda>port w (a, b). case ata_op a of
          Ata_write lba ws n \<Rightarrow> (receive_word lba ws n w a, if length ws + 1 < 128 then b else 1)
        | _ \<Rightarrow> (a, b))\<rparr>"

definition empty_drive :: ata where
  "empty_drive = \<lparr>ata_count = 0, ata_lba = (\<lambda>_. 0), ata_op = Ata_idle, ata_media = (\<lambda>_. replicate 128 0)\<rparr>"

lemma sample_ide_controller: "ata_controller sample_ide fst snd"
  unfolding ata_controller_def
proof (intro conjI)
  show "\<forall>d port v. snd d = 0 \<and> ata_op (fst d) = Ata_idle \<and> 0x1F2 \<le> port \<and> port \<le> 0x1F6 \<longrightarrow>
      fst (ide_outb sample_ide port v d) = ata_outb port v (fst d) \<and> snd (ide_outb sample_ide port v d) = 0"
    by (auto simp: sample_ide_def)
qed (auto simp: sample_ide_def ide_defs split: if_splits)

lemma empty_drive_ready: "ata_ready empty_drive"
  by (simp add: ata_ready_def empty_drive_def)

theorem ide_write_read_witness:
  "\<exists>d' m' d''. ide_write sample_ide 5 0x1000 2 (\<lambda>p. ucast p) (empty_drive, 3) = Some (Inr (0, d'))
    \<and> ide_read sample_ide 5 0x2000 2 (\<lambda>p. 0) d' = Some (Inr (0, m', d''))
    \<and> read_words m' 0x2000 256 = read_words (\<lambda>p. ucast p) 0x1000 256"
proof -
  have "ata_ready (fst (empty_drive, 3 :: nat))" "(5 :: u32) < 0x10000000" "(0 :: u32) < 2" "(2 :: u32) \<le> 256"
    by (simp_all add: empty_drive_ready)
  from ide_write_read [OF sample_ide_controller this, of "0x1000" "\<lambda>p. ucast p" "0x2000" "\<lambda>p. 0"]
  show ?thesis by auto
qed

section \<open>The page file\<close>

text \<open>The page frames of the page file on the drive.\<close>

definition page_file_on :: "ata \<Rightarrow> (u32 \<Rightarrow> page) \<Rightarrow> bool" where
  "page_file_on a pf \<longleftrightarrow>
     (\<forall>f. unat f < PAGES_PER_FILE \<longrightarrow>
        (\<forall>i < 1024. pf f (of_nat i) = sectors a (unat (df_start_sector f)) 8 ! i))"

lemma unat_df_start_sector:
  assumes "unat f < PAGES_PER_FILE"
  shows "unat (df_start_sector f) = 40960 + 8 * unat f" and "df_start_sector f < 0x10000000"
proof -
  have "df_start_sector f = 40960 + f * 8"
    by (simp add: df_start_sector_def PAGE_FILE_START_SECTOR_def SECTOR_PER_PAGE_def SECTSIZE_def layout_defs)
  moreover have "unat (40960 + f * 8) = 40960 + 8 * unat f"
    using assms by (simp add: unat_word_ariths PAGES_PER_FILE_def)
  ultimately show "unat (df_start_sector f) = 40960 + 8 * unat f" by simp
  then show "df_start_sector f < 0x10000000" using assms by (simp add: word_less_nat_alt PAGES_PER_FILE_def)
qed

lemma SECTOR_PER_PAGE_8: "SECTOR_PER_PAGE = 8"
  by (simp add: SECTOR_PER_PAGE_def SECTSIZE_def layout_defs)

lemma read_words_nth: "i < n \<Longrightarrow> read_words m p n ! i = load_word m (p + of_nat (4 * i))"
  by (induction n arbitrary: p i) (auto simp: nth_Cons algebra_simps split: nat.splits)

lemma page_file_on_write:
  assumes pf: "page_file_on a pf" and f: "unat dfn < PAGES_PER_FILE"
    and media: "ata_media a' = put_sectors m va (unat (df_start_sector dfn)) 8 (ata_media a)"
    and pg: "\<forall>i < 1024. load_word m (va + of_nat (4 * i)) = pg (of_nat i)"
  shows "page_file_on a' (pf(dfn := pg))"
  unfolding page_file_on_def
proof (intro allI impI)
  fix g :: u32 and i :: nat assume g: "unat g < PAGES_PER_FILE" and i: "i < 1024"
  show "(pf(dfn := pg)) g (of_nat i) = sectors a' (unat (df_start_sector g)) 8 ! i"
  proof (cases "g = dfn")
    case True
    have "sectors a' (unat (df_start_sector dfn)) 8 = read_words m va 1024" using sectors_put_sectors [OF media] by simp
    then show ?thesis using True pg i by (simp add: read_words_nth)
  next
    case False
    then have "unat g \<noteq> unat dfn" by (simp add: word_unat_eq_iff)
    then have "ata_media a' k = ata_media a k" if "k \<in> set [unat (df_start_sector g)..<unat (df_start_sector g) + 8]" for k
      using that by (simp add: media put_sectors_def unat_df_start_sector [OF f] unat_df_start_sector [OF g]) linarith
    then have "sectors a' (unat (df_start_sector g)) 8 = sectors a (unat (df_start_sector g)) 8"
      unfolding sectors_def by (metis map_cong)
    then show ?thesis using False pf g i by (simp add: page_file_on_def)
  qed
qed

text \<open>
  C21. The page file of the kernel's state is the page file on the drive: where the drive holds the
  pages of the state, writing a page of memory through the driver leads to a drive that holds the
  pages of the state after write\_disk\_page(), and reading one puts into memory what read\_disk\_page()
  puts into the frame, and leaves the page file as it is.
\<close>

theorem page_file_refined:
  assumes "ata_controller P view busy" and "ata_ready (view d)" and "page_file_on (view d) (page_file s)"
    and "unat dfn < PAGES_PER_FILE" and "\<not> disk_error s"
    and "cpu_read_page s src = Inr pg" and "\<forall>i < 1024. load_word m (src + of_nat (4 * i)) = pg (of_nat i)"
    and "cpu_frame s dst = Some f"
  shows "(\<exists>s' d'. write_disk_page s dfn src = Inr (0, s') \<and> ide_write_page P dfn src m d = Some (Inr (0, d'))
      \<and> page_file_on (view d') (page_file s') \<and> ata_ready (view d'))
    \<and> (\<exists>s' m' d'. read_disk_page s dfn dst = Inr (0, s') \<and> ide_read_page P dfn dst m d = Some (Inr (0, m', d'))
      \<and> (\<forall>i < 1024. load_word m' (dst + of_nat (4 * i)) = phys s' f (of_nat i))
      \<and> page_file_on (view d') (page_file s') \<and> ata_ready (view d'))"
proof (rule conjI)
  note sec = unat_df_start_sector(2) [OF assms(4)]
  obtain d' where w: "ide_write P (df_start_sector dfn) src 8 m d = Some (Inr (0, d'))"
    "ata_media (view d') = put_sectors m src (unat (df_start_sector dfn)) 8 (ata_media (view d))" "ata_op (view d') = Ata_idle"
    using ide_write_ok [OF assms(1) _ sec, of d 8 src m] assms(2) by (auto simp: ata_ready_def)
  show "\<exists>s' d'. write_disk_page s dfn src = Inr (0, s') \<and> ide_write_page P dfn src m d = Some (Inr (0, d'))
      \<and> page_file_on (view d') (page_file s') \<and> ata_ready (view d')"
    using w(1) assms(5,6) page_file_on_write [OF assms(3,4) w(2) assms(7)] ata_ready_put [OF assms(2) w(3,2)]
    by (simp add: write_disk_page_def ide_write_page_def SECTOR_PER_PAGE_8)
  let ?ws = "sectors (view d) (unat (df_start_sector dfn)) 8"
  obtain d2 where r: "ide_read P (df_start_sector dfn) dst 8 m d = Some (Inr (0, write_words m dst ?ws, d2))"
    "ata_media (view d2) = ata_media (view d)" "ata_op (view d2) = Ata_idle"
    using ide_read_ok [OF assms(1,2) sec, of 8 dst m] by auto
  have len: "length ?ws = 1024" using length_sectors [OF assms(2)] by simp
  then have "read_words (write_words m dst ?ws) dst 1024 = ?ws" using read_write_words [of ?ws m dst] by simp
  then have "load_word (write_words m dst ?ws) (dst + of_nat (4 * i)) = page_file s dfn (of_nat i)" if "i < 1024" for i
    using that assms(3,4) read_words_nth [of i 1024 "write_words m dst ?ws" dst] by (simp add: page_file_on_def)
  moreover have "page_file_on (view d2) (page_file s)"
    using assms(3) r(2) by (simp add: page_file_on_def sectors_def)
  moreover have "ata_ready (view d2)" using assms(2) r(2,3) by (simp add: ata_ready_def)
  ultimately show "\<exists>s' m' d'. read_disk_page s dfn dst = Inr (0, s') \<and> ide_read_page P dfn dst m d = Some (Inr (0, m', d'))
      \<and> (\<forall>i < 1024. load_word m' (dst + of_nat (4 * i)) = phys s' f (of_nat i))
      \<and> page_file_on (view d') (page_file s') \<and> ata_ready (view d')"
    using r(1) assms(5,8) by (simp add: read_disk_page_def ide_read_page_def SECTOR_PER_PAGE_8 phys_fill_def)
qed

lemma sectors_empty_drive: "sectors empty_drive lba n = replicate (128 * n) 0"
  by (induction n arbitrary: lba) (simp_all add: sectors_Suc sectors_def [of _ _ 0] empty_drive_def flip: replicate_add)

theorem page_file_refined_witness:
  "(\<exists>s' d'. write_disk_page sample_state 1 0xF0100000 = Inr (0, s')
      \<and> ide_write_page sample_ide 1 0xF0100000 (\<lambda>_. 0) (empty_drive, 0) = Some (Inr (0, d'))
      \<and> page_file_on (fst d') (page_file s'))
    \<and> (\<exists>s' m' d'. read_disk_page sample_state 1 0xF0100000 = Inr (0, s')
      \<and> ide_read_page sample_ide 1 0xF0100000 (\<lambda>_. 0) (empty_drive, 0) = Some (Inr (0, m', d')))"
proof -
  have "ata_ready (fst (empty_drive, 0 :: nat))" by (simp add: empty_drive_ready)
  moreover have "page_file_on (fst (empty_drive, 0 :: nat)) (page_file sample_state)"
    by (simp add: page_file_on_def sectors_empty_drive)
  moreover have "unat (1 :: u32) < PAGES_PER_FILE" "\<not> disk_error sample_state" by (simp_all add: PAGES_PER_FILE_def)
  moreover have f: "cpu_frame sample_state 0xF0100000 = Some 256" by code_simp
  moreover have "cpu_read_page sample_state 0xF0100000 = Inr (\<lambda>_. 0)"
    using f by (simp add: cpu_read_page_def PGOFF_def sample_memory_def fun_eq_iff)
  moreover have "\<forall>i < 1024. load_word (\<lambda>_. 0) (0xF0100000 + of_nat (4 * i)) = (\<lambda>_. 0) (of_nat i :: u32)"
    by (simp add: load_word_def)
  ultimately show ?thesis
    using page_file_refined [OF sample_ide_controller, of "(empty_drive, 0)" sample_state 1 "0xF0100000" "\<lambda>_. 0" "\<lambda>_. 0"
        "0xF0100000" 256] by blast
qed

end
