(* ===== verification/FOS_Clock.thy ===== *)
theory FOS_Clock
  imports FOS_Mmu
begin

text \<open>
  The interrupt controllers and the clock: kern/picirq.c, kern/kclock.c and nvram_read() of
  kern/helpers.c. The input and output instructions are functions on a device state, given as a
  parameter. \<open>interval_timer\<close> and \<open>interrupt_controllers\<close> state what the code relies on of the 8253
  timer and the two 8259A controllers; the theorems say how they are programmed when the kernel has
  started, and that stopping and resuming the clock keeps the rest of a quantum.
\<close>

section \<open>Ports\<close>

text \<open>The static variables of picirq.c and the devices.\<close>

record 'd irq_state =
  irq_dev :: 'd
  irq_mask_8259A :: u16
  didinit :: bool

record 'd io_ports =
  io_in :: "u32 \<Rightarrow> 'd \<Rightarrow> u8 \<times> 'd"
  io_out :: "u32 \<Rightarrow> u8 \<Rightarrow> 'd \<Rightarrow> 'd"

definition io_inb :: "'d io_ports \<Rightarrow> u32 \<Rightarrow> 'd irq_state \<Rightarrow> u8 \<times> 'd irq_state" where
  "io_inb P port s = (let (v, d) = io_in P port (irq_dev s) in (v, s\<lparr>irq_dev := d\<rparr>))"

definition io_outb :: "'d io_ports \<Rightarrow> u32 \<Rightarrow> u8 \<Rightarrow> 'd irq_state \<Rightarrow> 'd irq_state" where
  "io_outb P port v s = s\<lparr>irq_dev := io_out P port v (irq_dev s)\<rparr>"

section \<open>Interrupt controllers\<close>

definition IRQ_SLAVE :: nat where "IRQ_SLAVE = 2"
definition IRQ_OFFSET :: u8 where "IRQ_OFFSET = 32"
definition IO_PIC1 :: u32 where "IO_PIC1 = 0x20"
definition IO_PIC2 :: u32 where "IO_PIC2 = 0xA0"

definition initial_irq_mask :: u16 where "initial_irq_mask = 0xFFFF AND NOT (push_bit IRQ_SLAVE 1)"

definition irq_setmask_8259A :: "'d io_ports \<Rightarrow> u16 \<Rightarrow> 'd irq_state \<Rightarrow> 'd irq_state" where
  "irq_setmask_8259A P new_mask s =
     (let s = s\<lparr>irq_mask_8259A := new_mask\<rparr> in
      if \<not> didinit s then s
      else
        let s = io_outb P (IO_PIC1 + 1) (ucast new_mask) s
        in io_outb P (IO_PIC2 + 1) (ucast (drop_bit 8 new_mask)) s)"

definition pic_init :: "'d io_ports \<Rightarrow> 'd irq_state \<Rightarrow> 'd irq_state" where
  "pic_init P s =
     (let s = s\<lparr>didinit := True\<rparr>;
          s = io_outb P (IO_PIC1 + 1) 0xFF s;
          s = io_outb P (IO_PIC2 + 1) 0xFF s;
          s = io_outb P IO_PIC1 0x11 s;
          s = io_outb P (IO_PIC1 + 1) IRQ_OFFSET s;
          s = io_outb P (IO_PIC1 + 1) (push_bit IRQ_SLAVE 1) s;
          s = io_outb P (IO_PIC1 + 1) 0x3 s;
          s = io_outb P IO_PIC2 0x11 s;
          s = io_outb P (IO_PIC2 + 1) (IRQ_OFFSET + 8) s;
          s = io_outb P (IO_PIC2 + 1) (of_nat IRQ_SLAVE) s;
          s = io_outb P (IO_PIC2 + 1) 0x01 s;
          s = io_outb P IO_PIC1 0x68 s;
          s = io_outb P IO_PIC1 0x0A s;
          s = io_outb P IO_PIC2 0x68 s;
          s = io_outb P IO_PIC2 0x0A s
      in if irq_mask_8259A s \<noteq> 0xFFFF then irq_setmask_8259A P (irq_mask_8259A s) s else s)"

section \<open>Clock\<close>

definition TIMER_CNTR0 :: u32 where "TIMER_CNTR0 = 0x40"
definition TIMER_MODE :: u32 where "TIMER_MODE = 0x43"
definition TIMER_SEL0 :: u8 where "TIMER_SEL0 = 0x00"
definition TIMER_RATEGEN :: u8 where "TIMER_RATEGEN = 0x04"
definition TIMER_16BIT :: u8 where "TIMER_16BIT = 0x30"
definition TIMER_LATCH :: u8 where "TIMER_LATCH = 0x00"
definition TIMER_FREQ :: nat where "TIMER_FREQ = 1193182"
definition CLOCK_INTERVAL :: nat where "CLOCK_INTERVAL = 20"

definition TIMER_DIV :: "nat \<Rightarrow> nat" where
  "TIMER_DIV x = (TIMER_FREQ + x div 2) div x"

definition kclock_read_cnt0 :: "'d io_ports \<Rightarrow> 'd irq_state \<Rightarrow> u16 \<times> 'd irq_state" where
  "kclock_read_cnt0 P s =
     (let (cnt0_lo, s) = io_inb P TIMER_CNTR0 s;
          (cnt0_hi, s) = io_inb P TIMER_CNTR0 s
      in (push_bit 8 (ucast cnt0_hi) OR ucast cnt0_lo, s))"

definition kclock_read_cnt0_latch :: "'d io_ports \<Rightarrow> 'd irq_state \<Rightarrow> u16 \<times> 'd irq_state" where
  "kclock_read_cnt0_latch P s =
     (let (old_mode, s) = io_inb P TIMER_MODE s;
          s = io_outb P TIMER_MODE (TIMER_SEL0 OR TIMER_LATCH) s;
          (cnt0_lo, s) = io_inb P TIMER_CNTR0 s;
          (cnt0_hi, s) = io_inb P TIMER_CNTR0 s
      in (push_bit 8 (ucast cnt0_hi) OR ucast cnt0_lo, io_outb P TIMER_MODE old_mode s))"

definition kclock_start :: "'d io_ports \<Rightarrow> 'd irq_state \<Rightarrow> 'd irq_state" where
  "kclock_start P s =
     (let (cnt0, s) = kclock_read_cnt0 P s;
          s = io_outb P TIMER_MODE (TIMER_SEL0 OR TIMER_RATEGEN OR TIMER_16BIT) s;
          s = io_outb P TIMER_CNTR0 (of_nat (TIMER_DIV (1000 div CLOCK_INTERVAL) mod 256)) s;
          s = io_outb P TIMER_CNTR0 (of_nat (TIMER_DIV (1000 div CLOCK_INTERVAL) div 256)) s
      in irq_setmask_8259A P (irq_mask_8259A s AND NOT 1) s)"

definition kclock_resume :: "'d io_ports \<Rightarrow> 'd irq_state \<Rightarrow> 'd irq_state" where
  "kclock_resume P s =
     (let (cnt0, s) = kclock_read_cnt0 P s;
          s = io_outb P TIMER_MODE (TIMER_SEL0 OR TIMER_RATEGEN OR TIMER_16BIT) s;
          s = io_outb P TIMER_CNTR0 (ucast (cnt0 AND 0x00FF)) s;
          s = io_outb P TIMER_CNTR0 (ucast (drop_bit 8 cnt0 AND 0x00FF)) s;
          (cnt0, s) = kclock_read_cnt0 P s
      in irq_setmask_8259A P (irq_mask_8259A s AND NOT 1) s)"

definition kclock_stop :: "'d io_ports \<Rightarrow> 'd irq_state \<Rightarrow> 'd irq_state" where
  "kclock_stop P s =
     irq_setmask_8259A P 0xFFFF (io_outb P TIMER_MODE (TIMER_SEL0 OR TIMER_RATEGEN OR TIMER_16BIT) s)"

section \<open>CMOS memory\<close>

definition IO_RTC :: u32 where "IO_RTC = 0x70"

definition mc146818_read :: "'d io_ports \<Rightarrow> u32 \<Rightarrow> 'd irq_state \<Rightarrow> u32 \<times> 'd irq_state" where
  "mc146818_read P reg s =
     (let s = io_outb P IO_RTC (ucast reg) s; (v, s) = io_inb P (IO_RTC + 1) s in (ucast v, s))"

definition mc146818_write :: "'d io_ports \<Rightarrow> u32 \<Rightarrow> u32 \<Rightarrow> 'd irq_state \<Rightarrow> 'd irq_state" where
  "mc146818_write P reg datum s = io_outb P (IO_RTC + 1) (ucast datum) (io_outb P IO_RTC (ucast reg) s)"

definition nvram_read :: "'d io_ports \<Rightarrow> u32 \<Rightarrow> 'd irq_state \<Rightarrow> u32 \<times> 'd irq_state" where
  "nvram_read P r s =
     (let (lo, s) = mc146818_read P r s; (hi, s) = mc146818_read P (r + 1) s in (lo OR push_bit 8 hi, s))"

section \<open>Devices\<close>

text \<open>
  An 8259A: 0 while it runs, else the initialisation word it expects next; the vector of its first
  line, its mask, and the third and fourth word it was given.
\<close>

record pic =
  pic_expects :: nat
  pic_vector :: u8
  pic_mask :: u8
  pic_cascade :: u8
  pic_icw4 :: u8

text \<open>A write to the command port starts the initialisation if bit 4 is set.\<close>

definition pic_command :: "u8 \<Rightarrow> pic \<Rightarrow> pic" where
  "pic_command v p = (if v AND 0x10 \<noteq> 0 then p\<lparr>pic_expects := 2, pic_mask := 0\<rparr> else p)"

definition pic_data :: "u8 \<Rightarrow> pic \<Rightarrow> pic" where
  "pic_data v p =
     (if pic_expects p = 2 then p\<lparr>pic_vector := v, pic_expects := 3\<rparr>
      else if pic_expects p = 3 then p\<lparr>pic_cascade := v, pic_expects := 4\<rparr>
      else if pic_expects p = 4 then p\<lparr>pic_icw4 := v, pic_expects := 0\<rparr>
      else p\<lparr>pic_mask := v\<rparr>)"

text \<open>
  Counter 0 of the 8253 in 16-bit mode: the count it reloads, none until both bytes are written, the low
  byte written, whether a read delivers the high byte next, and the count at the moment.
\<close>

record irq_hardware =
  t_reload :: "u16 option"
  t_low :: "u8 option"
  t_high_next :: bool
  t_count :: u16
  pic_master :: pic
  pic_slave :: pic

definition timer_data :: "u8 \<Rightarrow> irq_hardware \<Rightarrow> irq_hardware" where
  "timer_data v h =
     (case t_low h of None \<Rightarrow> h\<lparr>t_low := Some v\<rparr>
      | Some lo \<Rightarrow> h\<lparr>t_low := None, t_reload := Some (push_bit 8 (ucast v) OR ucast lo)\<rparr>)"

definition hardware_out :: "u32 \<Rightarrow> u8 \<Rightarrow> irq_hardware \<Rightarrow> irq_hardware" where
  "hardware_out port v h =
     (if port = 0x20 then h\<lparr>pic_master := pic_command v (pic_master h)\<rparr>
      else if port = 0x21 then h\<lparr>pic_master := pic_data v (pic_master h)\<rparr>
      else if port = 0xA0 then h\<lparr>pic_slave := pic_command v (pic_slave h)\<rparr>
      else if port = 0xA1 then h\<lparr>pic_slave := pic_data v (pic_slave h)\<rparr>
      else if port = 0x40 then timer_data v h
      else h\<lparr>t_reload := None, t_low := None, t_high_next := False\<rparr>)"

definition count_byte :: "irq_hardware \<Rightarrow> u8" where
  "count_byte h = (if t_high_next h then ucast (drop_bit 8 (t_count h)) else ucast (t_count h))"

text \<open>
  What the code relies on: writes are taken, the mode being the one it sets, which stops the counter; a
  stopped counter delivers the bytes of its count in turn, and reading a running one changes neither
  the count it reloads nor the controllers.
\<close>

definition clock_devices :: "'d io_ports \<Rightarrow> ('d \<Rightarrow> irq_hardware) \<Rightarrow> bool" where
  "clock_devices P view \<longleftrightarrow>
     (\<forall>d port v. port \<in> {0x20, 0x21, 0x40, 0xA0, 0xA1} \<or> port = 0x43 \<and> v = 0x34 \<longrightarrow>
        view (io_out P port v d) = hardware_out port v (view d))
     \<and> (\<forall>d. t_reload (view d) = None \<longrightarrow> fst (io_in P 0x40 d) = count_byte (view d)
          \<and> view (snd (io_in P 0x40 d)) = (view d)\<lparr>t_high_next := \<not> t_high_next (view d)\<rparr>)
     \<and> (\<forall>d. t_reload (view d) \<noteq> None \<longrightarrow> t_reload (view (snd (io_in P 0x40 d))) = t_reload (view d)
          \<and> t_low (view (snd (io_in P 0x40 d))) = t_low (view d)
          \<and> pic_master (view (snd (io_in P 0x40 d))) = pic_master (view d)
          \<and> pic_slave (view (snd (io_in P 0x40 d))) = pic_slave (view d))"

section \<open>Facts\<close>

lemma irq_dev_outb [simp]:
  "irq_mask_8259A (io_outb P port v s) = irq_mask_8259A s" "didinit (io_outb P port v s) = didinit s"
  by (simp_all add: io_outb_def)

lemma view_outb:
  assumes "clock_devices P view"
    and "port \<in> {0x20, 0x21, 0x40, 0xA0, 0xA1} \<or> port = 0x43 \<and> v = 0x34"
  shows "view (irq_dev (io_outb P port v s)) = hardware_out port v (view (irq_dev s))"
proof -
  have "\<forall>d port v. port \<in> {0x20, 0x21, 0x40, 0xA0, 0xA1} \<or> port = 0x43 \<and> v = 0x34 \<longrightarrow>
      view (io_out P port v d) = hardware_out port v (view d)"
    using assms(1) unfolding clock_devices_def by (elim conjE)
  then have "view (io_out P port v (irq_dev s)) = hardware_out port v (view (irq_dev s))" using assms(2) by blast
  then show ?thesis by (simp add: io_outb_def)
qed

lemma view_outb_simps:
  assumes "clock_devices P view"
  shows "view (irq_dev (io_outb P 0x20 v s)) = hardware_out 0x20 v (view (irq_dev s))"
    "view (irq_dev (io_outb P 0x21 v s)) = hardware_out 0x21 v (view (irq_dev s))"
    "view (irq_dev (io_outb P 0xA0 v s)) = hardware_out 0xA0 v (view (irq_dev s))"
    "view (irq_dev (io_outb P 0xA1 v s)) = hardware_out 0xA1 v (view (irq_dev s))"
    "view (irq_dev (io_outb P 0x40 v s)) = hardware_out 0x40 v (view (irq_dev s))"
    "view (irq_dev (io_outb P 0x43 0x34 s)) = hardware_out 0x43 0x34 (view (irq_dev s))"
  by (rule view_outb [OF assms], simp)+

lemmas irq_ports = IRQ_SLAVE_def IRQ_OFFSET_def IO_PIC1_def IO_PIC2_def TIMER_CNTR0_def TIMER_MODE_def
  TIMER_SEL0_def TIMER_RATEGEN_def TIMER_16BIT_def

lemma view_setmask:
  assumes "clock_devices P view" and "didinit s"
    and "pic_expects (pic_master (view (irq_dev s))) = 0" and "pic_expects (pic_slave (view (irq_dev s))) = 0"
  shows "view (irq_dev (irq_setmask_8259A P m s)) = (view (irq_dev s))
    \<lparr>pic_master := (pic_master (view (irq_dev s)))\<lparr>pic_mask := ucast m\<rparr>,
     pic_slave := (pic_slave (view (irq_dev s)))\<lparr>pic_mask := ucast (drop_bit 8 m)\<rparr>\<rparr>"
proof -
  have "view (irq_dev (s\<lparr>irq_mask_8259A := m\<rparr>)) = view (irq_dev s)" by simp
  then show ?thesis using assms(2-)
    by (simp add: irq_setmask_8259A_def Let_def irq_ports view_outb_simps [OF assms(1)] hardware_out_def pic_data_def)
qed

lemma setmask_simps [simp]:
  "irq_mask_8259A (irq_setmask_8259A P m s) = m" "didinit (irq_setmask_8259A P m s) = didinit s"
  by (simp_all add: irq_setmask_8259A_def Let_def)

text \<open>Reading the counter: the state it leaves, and the count, if the counter is stopped.\<close>

lemma read_cnt0_state:
  assumes "clock_devices P view"
  shows "irq_mask_8259A (snd (kclock_read_cnt0 P s)) = irq_mask_8259A s \<and> didinit (snd (kclock_read_cnt0 P s)) = didinit s
    \<and> t_reload (view (irq_dev (snd (kclock_read_cnt0 P s)))) = t_reload (view (irq_dev s))
    \<and> pic_master (view (irq_dev (snd (kclock_read_cnt0 P s)))) = pic_master (view (irq_dev s))
    \<and> pic_slave (view (irq_dev (snd (kclock_read_cnt0 P s)))) = pic_slave (view (irq_dev s))"
proof -
  have one: "t_reload (view (snd (io_in P 0x40 d))) = t_reload (view d)
      \<and> pic_master (view (snd (io_in P 0x40 d))) = pic_master (view d)
      \<and> pic_slave (view (snd (io_in P 0x40 d))) = pic_slave (view d)" for d
    using assms by (cases "t_reload (view d) = None") (simp_all add: clock_devices_def)
  show ?thesis by (simp add: kclock_read_cnt0_def io_inb_def split_beta irq_ports one)
qed

lemma word_bytes: "push_bit 8 (ucast (ucast (drop_bit 8 c) :: u8)) OR ucast (ucast c :: u8) = (c :: u16)"
  by (rule bit_word_eqI) (auto simp: bit_simps)

lemma read_cnt0_stopped:
  assumes "clock_devices P view" and "t_reload (view (irq_dev s)) = None" and "\<not> t_high_next (view (irq_dev s))"
  shows "fst (kclock_read_cnt0 P s) = t_count (view (irq_dev s))"
proof -
  have law: "fst (io_in P 0x40 d) = count_byte (view d)
      \<and> view (snd (io_in P 0x40 d)) = (view d)\<lparr>t_high_next := \<not> t_high_next (view d)\<rparr>"
    if "t_reload (view d) = None" for d using assms(1) that by (simp add: clock_devices_def)
  show ?thesis using law assms(2,3) by (simp add: kclock_read_cnt0_def io_inb_def split_beta irq_ports count_byte_def word_bytes)
qed

lemma pic_init_hardware:
  assumes c: "clock_devices P view" and m: "irq_mask_8259A s \<noteq> 0xFFFF"
  shows "view (irq_dev (pic_init P s)) = (view (irq_dev s))
    \<lparr>pic_master := \<lparr>pic_expects = 0, pic_vector = 32, pic_mask = ucast (irq_mask_8259A s), pic_cascade = 4, pic_icw4 = 3\<rparr>,
     pic_slave := \<lparr>pic_expects = 0, pic_vector = 40, pic_mask = ucast (drop_bit 8 (irq_mask_8259A s)),
       pic_cascade = 2, pic_icw4 = 1\<rparr>\<rparr>"
    and "irq_mask_8259A (pic_init P s) = irq_mask_8259A s" and "didinit (pic_init P s)"
proof -
  note v = view_outb_simps [OF c]
  define s' where "s' = io_outb P 0xA0 0x0A (io_outb P 0xA0 0x68 (io_outb P 0x20 0x0A (io_outb P 0x20 0x68
    (io_outb P 0xA1 0x01 (io_outb P 0xA1 2 (io_outb P 0xA1 40 (io_outb P 0xA0 0x11 (io_outb P 0x21 0x3
    (io_outb P 0x21 4 (io_outb P 0x21 32 (io_outb P 0x20 0x11 (io_outb P 0xA1 0xFF (io_outb P 0x21 0xFF
    (s\<lparr>didinit := True\<rparr>))))))))))))))"
  have v': "view (irq_dev s') = (view (irq_dev s))
    \<lparr>pic_master := \<lparr>pic_expects = 0, pic_vector = 32, pic_mask = 0, pic_cascade = 4, pic_icw4 = 3\<rparr>,
     pic_slave := \<lparr>pic_expects = 0, pic_vector = 40, pic_mask = 0, pic_cascade = 2, pic_icw4 = 1\<rparr>\<rparr>"
    unfolding s'_def v by (simp add: hardware_out_def pic_command_def pic_data_def)
  have d': "didinit s'" "irq_mask_8259A s' = irq_mask_8259A s" unfolding s'_def by simp_all
  have "pic_init P s = irq_setmask_8259A P (irq_mask_8259A s) s'"
    using m d' unfolding pic_init_def Let_def by (simp add: irq_ports s'_def)
  moreover from this show "irq_mask_8259A (pic_init P s) = irq_mask_8259A s" "didinit (pic_init P s)" using d' by simp_all
  ultimately show "view (irq_dev (pic_init P s)) = (view (irq_dev s))
    \<lparr>pic_master := \<lparr>pic_expects = 0, pic_vector = 32, pic_mask = ucast (irq_mask_8259A s), pic_cascade = 4, pic_icw4 = 3\<rparr>,
     pic_slave := \<lparr>pic_expects = 0, pic_vector = 40, pic_mask = ucast (drop_bit 8 (irq_mask_8259A s)),
       pic_cascade = 2, pic_icw4 = 1\<rparr>\<rparr>"
    using view_setmask [OF c d'(1)] v' by simp
qed

text \<open>Both functions that set the counter going end in the same way.\<close>

lemma set_reload:
  assumes c: "clock_devices P view"
  shows "t_reload (view (irq_dev (io_outb P 0x40 hi (io_outb P 0x40 lo (io_outb P 0x43 0x34 s)))))
      = Some (push_bit 8 (ucast hi) OR ucast lo)"
    and "pic_master (view (irq_dev (io_outb P 0x40 hi (io_outb P 0x40 lo (io_outb P 0x43 0x34 s))))) = pic_master (view (irq_dev s))"
    and "pic_slave (view (irq_dev (io_outb P 0x40 hi (io_outb P 0x40 lo (io_outb P 0x43 0x34 s))))) = pic_slave (view (irq_dev s))"
  by (simp_all add: view_outb_simps [OF c] hardware_out_def timer_data_def)

section \<open>Properties\<close>

text \<open>
  After pic\_init() and kclock\_start(), as FOS\_initialize() calls them, the controllers are out of
  their initialisation with the interrupt lines at vectors 32 to 47, only the timer's line and the
  slave's are enabled, and the counter reloads 23864 = 1193182 / 50, which is a tick of 20 ms.
\<close>

theorem kclock_start_hardware:
  assumes c: "clock_devices P view" and m: "irq_mask_8259A s = initial_irq_mask"
  shows "let h = view (irq_dev (kclock_start P (pic_init P s))) in
    pic_expects (pic_master h) = 0 \<and> pic_expects (pic_slave h) = 0
    \<and> pic_vector (pic_master h) = 32 \<and> pic_vector (pic_slave h) = 40
    \<and> pic_mask (pic_master h) = 0xFA \<and> pic_mask (pic_slave h) = 0xFF
    \<and> pic_cascade (pic_master h) = 4 \<and> pic_cascade (pic_slave h) = 2
    \<and> t_reload h = Some 23864"
proof -
  have m': "irq_mask_8259A s \<noteq> 0xFFFF" by (simp add: m initial_irq_mask_def IRQ_SLAVE_def)
  note i = pic_init_hardware [OF c m']
  define s1 where "s1 = snd (kclock_read_cnt0 P (pic_init P s))"
  note r = read_cnt0_state [OF c, of "pic_init P s", folded s1_def]
  define s2 where "s2 = io_outb P 0x40 93 (io_outb P 0x40 56 (io_outb P 0x43 0x34 s1))"
  note r2 = set_reload [OF c, of 93 56 s1, folded s2_def]
  have "kclock_start P (pic_init P s) = irq_setmask_8259A P (irq_mask_8259A s2 AND NOT 1) s2"
    by (simp add: kclock_start_def s2_def s1_def split_beta irq_ports TIMER_DIV_def TIMER_FREQ_def CLOCK_INTERVAL_def Let_def)
  moreover have "irq_mask_8259A s2 = 0xFFFB" "didinit s2"
    using r i(2,3) m by (simp_all add: s2_def initial_irq_mask_def IRQ_SLAVE_def)
  moreover have "pic_expects (pic_master (view (irq_dev s2))) = 0" "pic_expects (pic_slave (view (irq_dev s2))) = 0"
    using r r2 i(1) by simp_all
  ultimately show ?thesis using view_setmask [OF c, of s2] r r2 i(1) by (simp add: Let_def)
qed

text \<open>A machine whose counter runs at the moment.\<close>

definition sample_clock :: "irq_hardware io_ports" where
  "sample_clock =
     \<lparr>io_in = (\<lambda>port h. (count_byte h, h\<lparr>t_high_next := \<not> t_high_next h\<rparr>)), io_out = hardware_out\<rparr>"

definition sample_irq_state :: "irq_hardware irq_state" where
  "sample_irq_state =
     \<lparr>irq_dev = \<lparr>t_reload = Some 100, t_low = None, t_high_next = False, t_count = 0x1234,
        pic_master = \<lparr>pic_expects = 0, pic_vector = 8, pic_mask = 0, pic_cascade = 0, pic_icw4 = 0\<rparr>,
        pic_slave = \<lparr>pic_expects = 0, pic_vector = 8, pic_mask = 0, pic_cascade = 0, pic_icw4 = 0\<rparr>\<rparr>,
      irq_mask_8259A = initial_irq_mask, didinit = False\<rparr>"

lemma sample_clock_devices: "clock_devices sample_clock (\<lambda>h. h)"
  by (simp add: clock_devices_def sample_clock_def)

theorem kclock_start_hardware_witness:
  "pic_mask (pic_master (irq_dev (kclock_start sample_clock (pic_init sample_clock sample_irq_state)))) = 0xFA
    \<and> t_reload (irq_dev (kclock_start sample_clock (pic_init sample_clock sample_irq_state))) = Some 23864"
  using kclock_start_hardware [OF sample_clock_devices, of sample_irq_state] by (simp add: sample_irq_state_def Let_def)

text \<open>
  C29. A trap stops the clock and returning to the environment resumes it: the counter then reloads the
  count at which it stopped, so the environment keeps the rest of its quantum. All lines are masked
  in between; afterwards only the timer's is not, that of the slave, which pic\_init() enables,
  stays masked.
\<close>

theorem kclock_stop_resume:
  assumes c: "clock_devices P view" and d: "didinit s"
    and p: "pic_expects (pic_master (view (irq_dev s))) = 0" "pic_expects (pic_slave (view (irq_dev s))) = 0"
  shows "let h = view (irq_dev (kclock_stop P s)); h' = view (irq_dev (kclock_resume P (kclock_stop P s))) in
    pic_mask (pic_master h) = 0xFF \<and> pic_mask (pic_slave h) = 0xFF \<and> t_reload h = None
    \<and> t_reload h' = Some (t_count (view (irq_dev s)))
    \<and> pic_mask (pic_master h') = 0xFE \<and> pic_mask (pic_slave h') = 0xFF
    \<and> irq_mask_8259A (kclock_resume P (kclock_stop P s)) = 0xFFFE"
proof -
  define s0 where "s0 = io_outb P 0x43 0x34 s"
  define s1 where "s1 = kclock_stop P s"
  have v0: "view (irq_dev s0) = (view (irq_dev s))\<lparr>t_reload := None, t_low := None, t_high_next := False\<rparr>" "didinit s0"
    using d by (simp_all add: s0_def view_outb_simps [OF c] hardware_out_def)
  have s1: "s1 = irq_setmask_8259A P 0xFFFF s0" by (simp add: s1_def s0_def kclock_stop_def irq_ports)
  have v1: "view (irq_dev s1) = (view (irq_dev s0))
    \<lparr>pic_master := (pic_master (view (irq_dev s)))\<lparr>pic_mask := 0xFF\<rparr>, pic_slave := (pic_slave (view (irq_dev s)))\<lparr>pic_mask := 0xFF\<rparr>\<rparr>"
    "irq_mask_8259A s1 = 0xFFFF" "didinit s1"
    using view_setmask [OF c v0(2)] p v0 unfolding s1 by simp_all
  define s2 where "s2 = snd (kclock_read_cnt0 P s1)"
  note r = read_cnt0_state [OF c, of s1, folded s2_def]
  have cnt: "fst (kclock_read_cnt0 P s1) = t_count (view (irq_dev s))"
    using read_cnt0_stopped [OF c, of s1] v1 v0 by simp
  let ?c = "t_count (view (irq_dev s))"
  define s3 where "s3 = io_outb P 0x40 (ucast (drop_bit 8 ?c AND 0xFF)) (io_outb P 0x40 (ucast (?c AND 0xFF)) (io_outb P 0x43 0x34 s2))"
  note r3 = set_reload [OF c, of "ucast (drop_bit 8 ?c AND 0xFF)" "ucast (?c AND 0xFF)" s2, folded s3_def]
  define s4 where "s4 = snd (kclock_read_cnt0 P s3)"
  note r4 = read_cnt0_state [OF c, of s3, folded s4_def]
  have m8: "(0xFF :: u16) = mask 8" by (simp add: mask_eq_exp_minus_1)
  have low: "(ucast (x AND 0xFF) :: u8) = ucast (x :: u16)" for x
    unfolding m8 by (rule bit_word_eqI) (auto simp: bit_simps)
  have "kclock_resume P s1 = irq_setmask_8259A P (irq_mask_8259A s4 AND NOT 1) s4"
    by (simp add: kclock_resume_def s2_def s3_def s4_def cnt split_beta irq_ports Let_def)
  moreover have m4: "irq_mask_8259A s4 = 0xFFFF" "didinit s4" using r4 r v1 by (simp_all add: s3_def)
  moreover have p4: "pic_expects (pic_master (view (irq_dev s4))) = 0" "pic_expects (pic_slave (view (irq_dev s4))) = 0"
    using r4 r3 r v1(1) p by simp_all
  moreover have "t_reload (view (irq_dev s4)) = Some ?c" using r4 r3(1) by (simp add: low word_bytes)
  ultimately show ?thesis
    using view_setmask [OF c m4(2) p4] v1 v0 r4 r3 r by (simp add: Let_def flip: s1_def)
qed

theorem kclock_stop_resume_witness:
  "t_reload (irq_dev (kclock_resume sample_clock (kclock_stop sample_clock (sample_irq_state\<lparr>didinit := True\<rparr>)))) = Some 0x1234"
  using kclock_stop_resume [OF sample_clock_devices, of "sample_irq_state\<lparr>didinit := True\<rparr>"]
  by (simp add: sample_irq_state_def Let_def)

end
