(* ===== verification/FOS_Loader.thy ===== *)
theory FOS_Loader
  imports FOS_Disk FOS_Env
begin

text \<open>
  The boot loader boot/main.c, which reads the kernel image from the disk and jumps to its entry point.
  It runs before paging: memory is an array of bytes at physical addresses. The drive is the device of
  FOS\_Disk; polling and the loops are partial functions, where \<open>None\<close> is a loop that does not end.
\<close>

section \<open>Headers in memory\<close>

text \<open>The fields the loader reads of struct Elf at \<open>h\<close> and of struct Proghdr at \<open>ph\<close>.\<close>

definition ELFHDR :: u32 where "ELFHDR = 0x10000"

definition elf_magic :: "bytes \<Rightarrow> u32 \<Rightarrow> u32" where "elf_magic m h = load_word m h"
definition elf_entry :: "bytes \<Rightarrow> u32 \<Rightarrow> u32" where "elf_entry m h = load_word m (h + 24)"
definition elf_phoff :: "bytes \<Rightarrow> u32 \<Rightarrow> u32" where "elf_phoff m h = load_word m (h + 28)"
definition elf_phnum :: "bytes \<Rightarrow> u32 \<Rightarrow> u32" where
  "elf_phnum m h = ucast (m (h + 44)) OR push_bit 8 (ucast (m (h + 45)))"

definition hdr_offset :: "bytes \<Rightarrow> u32 \<Rightarrow> u32" where "hdr_offset m ph = load_word m (ph + 4)"
definition hdr_va :: "bytes \<Rightarrow> u32 \<Rightarrow> u32" where "hdr_va m ph = load_word m (ph + 8)"
definition hdr_memsz :: "bytes \<Rightarrow> u32 \<Rightarrow> u32" where "hdr_memsz m ph = load_word m (ph + 20)"

section \<open>Reading from the disk\<close>

partial_function (option) waitdisk :: "'d ide_ports \<Rightarrow> 'd \<Rightarrow> 'd option" where
  "waitdisk P d =
     (let (r, d) = ide_inb P 0x1F7 d in if r AND 0xC0 \<noteq> 0x40 then waitdisk P d else Some d)"

definition readsect :: "'d ide_ports \<Rightarrow> u32 \<Rightarrow> u32 \<Rightarrow> bytes \<Rightarrow> 'd \<Rightarrow> (bytes \<times> 'd) option" where
  "readsect P dst offset m d =
     Option.bind (waitdisk P d) (\<lambda>d.
       let d = ide_outb P 0x1F2 1 d;
           d = ide_outb P 0x1F3 (ucast offset) d;
           d = ide_outb P 0x1F4 (ucast (drop_bit 8 offset)) d;
           d = ide_outb P 0x1F5 (ucast (drop_bit 16 offset)) d;
           d = ide_outb P 0x1F6 (ucast (drop_bit 24 offset OR 0xE0)) d;
           d = ide_outb P 0x1F7 0x20 d
       in Option.bind (waitdisk P d) (\<lambda>d. Some (insl P 0x1F0 dst (SECTSIZE div 4) m d)))"

partial_function (option) readseg_loop ::
    "'d ide_ports \<Rightarrow> u32 \<Rightarrow> u32 \<Rightarrow> u32 \<Rightarrow> bytes \<Rightarrow> 'd \<Rightarrow> (bytes \<times> 'd) option" where
  "readseg_loop P va end_va offset m d =
     (if va < end_va then
        Option.bind (readsect P va offset m d) (\<lambda>(m, d).
          readseg_loop P (va + of_nat SECTSIZE) end_va (offset + 1) m d)
      else Some (m, d))"

definition readseg :: "'d ide_ports \<Rightarrow> u32 \<Rightarrow> u32 \<Rightarrow> u32 \<Rightarrow> bytes \<Rightarrow> 'd \<Rightarrow> (bytes \<times> 'd) option" where
  "readseg P va count offset m d =
     (let va = va AND 0xFFFFFF;
          end_va = va + count;
          va = va AND NOT (of_nat SECTSIZE - 1);
          offset = offset div of_nat SECTSIZE + 1
      in readseg_loop P va end_va offset m d)"

section \<open>Loading the kernel\<close>

text \<open>
  How cmain() ends: it jumps to the entry point, or writes two words to a port and loops.
\<close>

datatype boot_end = Boot_jump u32 | Boot_bad "(u32 \<times> u32) list"

partial_function (option) boot_segments :: "'d ide_ports \<Rightarrow> u32 \<Rightarrow> u32 \<Rightarrow> bytes \<Rightarrow> 'd \<Rightarrow> (bytes \<times> 'd) option" where
  "boot_segments P ph eph m d =
     (if ph < eph then
        Option.bind (readseg P (hdr_va m ph) (hdr_memsz m ph) (hdr_offset m ph) m d) (\<lambda>(m, d).
          boot_segments P (ph + 32) eph m d)
      else Some (m, d))"

definition cmain :: "'d ide_ports \<Rightarrow> bytes \<Rightarrow> 'd \<Rightarrow> (boot_end \<times> bytes \<times> 'd) option" where
  "cmain P m d =
     Option.bind (readseg P ELFHDR (of_nat SECTSIZE * 8) 0 m d) (\<lambda>(m, d).
       if elf_magic m ELFHDR \<noteq> ELF_MAGIC then Some (Boot_bad [(0x8A00, 0x8A00), (0x8A00, 0x8E00)], m, d)
       else
         let ph = ELFHDR + elf_phoff m ELFHDR;
             eph = ph + elf_phnum m ELFHDR * 32
         in Option.bind (boot_segments P ph eph m d) (\<lambda>(m, d).
              Some (Boot_jump (elf_entry m ELFHDR AND 0xFFFFFF), m, d)))"

section \<open>One sector\<close>

lemma waitdisk_ready:
  assumes c: "ata_controller P view busy"
  shows "\<exists>d'. waitdisk P d = Some d' \<and> view d' = view d \<and> busy d' = 0"
proof (induction "busy d" arbitrary: d rule: less_induct)
  case less
  have bits: "(0xC0 :: u8) = IDE_BSY OR IDE_DRDY" "(0x40 :: u8) = IDE_DRDY" by (simp_all add: ide_defs)
  obtain r d1 where in1: "ide_inb P 0x1F7 d = (r, d1)" by fastforce
  show ?case
  proof (cases "busy d = 0")
    case True
    then have r: "r AND (IDE_BSY OR IDE_DRDY OR IDE_DF OR IDE_ERR) = IDE_DRDY" "view d1 = view d" "busy d1 = 0"
      using c in1 unfolding ata_controller_def by blast+
    then show ?thesis using in1 ready_bits [OF r(1)] by (subst waitdisk.simps) (simp add: bits)
  next
    case False
    then have r: "r AND IDE_BSY \<noteq> 0" "view d1 = view d" "busy d1 < busy d"
      using c in1 unfolding ata_controller_def by (metis neq0_conv)+
    then show ?thesis using less [OF r(3)] in1 busy_bits [OF r(1)] by (subst waitdisk.simps) (simp add: bits)
  qed
qed

lemma low_byte: "(ucast (x AND 0xFF) :: u8) = ucast (x :: u32)"
proof (rule bit_word_eqI)
  fix n assume n: "n < LENGTH(8)"
  have f: "(0xFF :: u32) = mask 8" by (simp add: mask_eq_exp_minus_1)
  show "bit (ucast (x AND 0xFF) :: u8) n = bit (ucast x :: u8) n" unfolding f using n by (auto simp: bit_simps)
qed

text \<open>For sector numbers of 28 bits the loader writes the registers that the driver writes.\<close>

lemma readsect_command:
  assumes "offset < 0x10000000"
  shows "readsect P dst offset m d =
    Option.bind (waitdisk P d) (\<lambda>d. Option.bind (waitdisk P (ide_command P offset 1 0x20 d))
      (\<lambda>d. Some (insl P 0x1F0 dst 128 m d)))"
proof -
  have "drop_bit 24 offset AND 0x0F = drop_bit 24 offset"
  proof (rule bit_word_eqI)
    fix n assume "n < LENGTH(32)"
    have f: "(0x0F :: u32) = mask 4" by (simp add: mask_eq_exp_minus_1)
    have "take_bit 28 offset = offset" using assms by (simp add: take_bit_eq_mod mod_word_less)
    then have "\<not> bit offset k" if "28 \<le> k" for k using that by (metis bit_take_bit_iff not_le)
    then show "bit (drop_bit 24 offset AND 0x0F) n = bit (drop_bit 24 offset) n"
      unfolding f using not_less [of n 4] by (auto simp: bit_simps)
  qed
  then have hi: "0xE0 OR push_bit 4 (diskno AND 1) OR (drop_bit 24 offset AND 0x0F) = drop_bit 24 offset OR 0xE0"
    by (simp add: diskno_def or.commute)
  show ?thesis
    unfolding readsect_def ide_command_def hi low_byte Let_def by (simp add: SECTSIZE_def del: insl.simps)
qed

lemma readsect_ok:
  assumes c: "ata_controller P view busy" and a: "ata_ready (view d)" and o: "offset < 0x10000000"
  shows "\<exists>d'. readsect P dst offset m d = Some (write_words m dst (ata_media (view d) (unat offset)), d')
    \<and> ata_media (view d') = ata_media (view d) \<and> ata_ready (view d')"
proof -
  obtain d1 where d1: "waitdisk P d = Some d1" "view d1 = view d" "busy d1 = 0" using waitdisk_ready [OF c] by blast
  obtain l where v: "view (ide_command P offset 1 0x20 d1)
      = (view d)\<lparr>ata_count := 1, ata_lba := l, ata_op := Ata_read (unat offset) 0 1\<rparr>"
    using ide_command_view [OF c d1(3) _ o, of 1 "0x20"] a d1(2) by (auto simp: ata_ready_def)
  obtain d2 where d2: "waitdisk P (ide_command P offset 1 0x20 d1) = Some d2"
      "view d2 = view (ide_command P offset 1 0x20 d1)" "busy d2 = 0" using waitdisk_ready [OF c] by blast
  obtain d3 where "insl P 0x1F0 dst 128 m d2 = (write_words m dst (ata_media (view d) (unat offset)), d3)"
      "view d3 = (view d2)\<lparr>ata_op := Ata_idle\<rparr>"
    using insl_words [OF c d2(3), of "unat offset" 0 1 127 dst m] d2(2) v a by (auto simp: after_word_def ata_ready_def)
  then show ?thesis
    using d1(1) d2 v a by (simp add: readsect_command [OF o] ata_ready_def del: insl.simps)
qed

section \<open>The image on the disk\<close>

text \<open>
  The kernel image starts at the second sector. \<open>image_byte\<close> is its byte at an offset; \<open>disk_image\<close> is the
  image as a memory that starts at address 0, so that the header fields above apply to it.
\<close>

definition image_byte :: "ata \<Rightarrow> nat \<Rightarrow> u8" where
  "image_byte a j = ucast (drop_bit (8 * (j mod 4)) (ata_media a (1 + j div 512) ! (j mod 512 div 4)))"

definition disk_image :: "ata \<Rightarrow> bytes" where
  "disk_image a = (\<lambda>q. image_byte a (unat q))"

text \<open>Memory with \<open>n\<close> bytes of the image, from offset \<open>off\<close> on, at address \<open>p\<close>.\<close>

definition with_image :: "bytes \<Rightarrow> ata \<Rightarrow> nat \<Rightarrow> nat \<Rightarrow> nat \<Rightarrow> bytes" where
  "with_image m a p n off = (\<lambda>q. if p \<le> unat q \<and> unat q < p + n then image_byte a (off + (unat q - p)) else m q)"

lemma with_image_0 [simp]: "with_image m a p 0 off = m"
  by (auto simp: with_image_def fun_eq_iff)

lemma with_image_cong: "ata_media a' = ata_media a \<Longrightarrow> with_image m a' = with_image m a" "ata_media a' = ata_media a \<Longrightarrow> disk_image a' = disk_image a"
proof -
  assume "ata_media a' = ata_media a"
  then have "image_byte a' = image_byte a" by (simp add: image_byte_def fun_eq_iff)
  then show "with_image m a' = with_image m a" "disk_image a' = disk_image a" by (simp_all add: with_image_def disk_image_def fun_eq_iff)
qed

lemma with_image_append:
  "with_image (with_image m a p k off) a (p + k) n (off + k) = with_image m a p (k + n) off"
proof
  fix q :: u32
  have "off + k + (unat q - (p + k)) = off + (unat q - p)" if "p + k \<le> unat q" using that by simp
  then show "with_image (with_image m a p k off) a (p + k) n (off + k) q = with_image m a p (k + n) off q"
    by (auto simp: with_image_def)
qed

lemma store_word_at: "j < 4 \<Longrightarrow> store_word m p w (p + of_nat j) = ucast (drop_bit (8 * j) w)"
proof -
  assume "j < 4"
  then have "j = 0 \<or> j = 1 \<or> j = 2 \<or> j = 3" by auto
  then show ?thesis by (auto simp: store_word_def)
qed

lemma write_words_at:
  "4 * length ws \<le> 2 ^ 32 \<Longrightarrow> j < 4 * length ws \<Longrightarrow>
    write_words m p ws (p + of_nat j) = ucast (drop_bit (8 * (j mod 4)) (ws ! (j div 4)))"
proof (induction ws arbitrary: m p j)
  case (Cons w ws)
  show ?case
  proof (cases "j < 4")
    case True
    have "write_words (store_word m p w) (p + 4) ws (p + of_nat j) = store_word m p w (p + of_nat j)"
    proof (rule write_words_outside)
      fix i assume "i < 4 * length ws"
      then have "(of_nat j :: u32) \<noteq> of_nat (4 + i)"
        using Cons.prems(1) True by (subst of_nat_inject_u32) auto
      then show "p + of_nat j \<noteq> p + 4 + of_nat i" by (simp add: add.assoc)
    qed
    then show ?thesis using True by (simp add: store_word_at)
  next
    case False
    then obtain i where j: "j = 4 + i" by (metis le_iff_add not_less)
    have e: "p + of_nat j = p + 4 + of_nat i" "j div 4 = Suc (i div 4)" "j mod 4 = i mod 4" by (simp_all add: j add.assoc)
    show ?thesis unfolding e using Cons.IH [of i "store_word m p w" "p + 4"] Cons.prems j by simp
  qed
qed simp

lemma unat_add_nat: "unat (p :: u32) + i < 2 ^ 32 \<Longrightarrow> unat (p + of_nat i) = unat p + i"
  by (simp add: unat_word_ariths unat_of_nat)

text \<open>A sector in memory.\<close>

lemma sector_in_memory:
  assumes "length (ata_media a (Suc k)) = 128" and "unat p + 512 \<le> 2 ^ 32"
  shows "write_words m p (ata_media a (Suc k)) = with_image m a (unat p) 512 (512 * k)"
proof
  fix q
  show "write_words m p (ata_media a (Suc k)) q = with_image m a (unat p) 512 (512 * k) q"
  proof (cases "unat p \<le> unat q \<and> unat q < unat p + 512")
    case True
    define j where "j = unat q - unat p"
    have j: "j < 512" "unat q = unat p + j" using True by (auto simp: j_def)
    have "q = of_nat (unat p + j)" by (simp flip: j(2))
    then have "q = p + of_nat j" by simp
    then have "write_words m p (ata_media a (Suc k)) q = ucast (drop_bit (8 * (j mod 4)) (ata_media a (Suc k) ! (j div 4)))"
      using write_words_at [of "ata_media a (Suc k)" j m p] assms(1) j(1) by simp
    moreover have "(512 * k + j) mod 4 = j mod 4" "(512 * k + j) div 512 = k" "(512 * k + j) mod 512 = j"
      using j(1) mod_mult_self4 [of 4 "128 * k" j] by simp_all
    ultimately show ?thesis using True by (simp add: with_image_def image_byte_def j(2))
  next
    case False
    have "q \<noteq> p + of_nat i" if "i < 512" for i
      using False unat_add_nat [of p i] assms(2) that by auto
    then have "write_words m p (ata_media a (Suc k)) q = m q" using assms(1) by (intro write_words_outside) simp
    then show ?thesis using False by (auto simp: with_image_def)
  qed
qed

section \<open>A segment\<close>

text \<open>
  readseg() reads whole sectors: \<open>seg_start\<close> is the address of the first and \<open>seg_bytes\<close> the length of
  all of them.
\<close>

definition seg_start :: "u32 \<Rightarrow> nat" where
  "seg_start va = 512 * (unat (va AND 0xFFFFFF) div 512)"

definition seg_bytes :: "u32 \<Rightarrow> u32 \<Rightarrow> nat" where
  "seg_bytes va count = 512 * ((unat (va AND 0xFFFFFF) mod 512 + unat count + 511) div 512)"

lemma unat_u32: "unat (v :: u32) < 2 ^ 32"
  by (rule order_less_le_trans [OF unsigned_less]) simp

lemma unat_nat_u32: "n < 2 ^ 32 \<Longrightarrow> unat (of_nat n :: u32) = n"
  by (simp add: unat_of_nat)

lemma readseg_loop_ok:
  assumes c: "ata_controller P view busy"
  shows "ata_ready (view d) \<Longrightarrow> unat va + 512 * n < 2 ^ 32 \<Longrightarrow> k + n < 0x0FFFFFFF
    \<Longrightarrow> unat end_va \<le> unat va + 512 * n \<Longrightarrow> 0 < n \<longrightarrow> unat va + 512 * n < unat end_va + 512
    \<Longrightarrow> \<exists>d'. readseg_loop P va end_va (of_nat (Suc k)) m d = Some (with_image m (view d) (unat va) (512 * n) (512 * k), d')
         \<and> ata_media (view d') = ata_media (view d) \<and> ata_ready (view d')"
proof (induction n arbitrary: va k m d)
  case 0
  then have "\<not> va < end_va" by (simp add: word_less_nat_alt)
  then show ?case using 0(1) by (subst readseg_loop.simps) simp
next
  case (Suc n)
  have "k < 0x0FFFFFFF" using Suc.prems(3) by linarith
  then have o: "unat (of_nat (Suc k) :: u32) = Suc k" "(of_nat (Suc k) :: u32) < 0x10000000"
    using unat_nat_u32 [of "Suc k"] by (simp_all add: word_less_nat_alt del: of_nat_Suc)
  obtain d1 where d1: "readsect P va (of_nat (Suc k)) m d = Some (write_words m va (ata_media (view d) (Suc k)), d1)"
      "ata_media (view d1) = ata_media (view d)" "ata_ready (view d1)"
    using readsect_ok [OF c Suc.prems(1) o(2), of va m] unfolding o(1) by blast
  have media: "length (ata_media (view d) (Suc k)) = 128" using Suc.prems(1) by (simp add: ata_ready_def)
  have b: "unat va + (512 + 512 * n) < 2 ^ 32" "unat end_va \<le> unat va + (512 + 512 * n)"
      "unat va + (512 + 512 * n) < unat end_va + 512" using Suc.prems(2,4,5) by simp_all
  then have p: "unat va + 512 \<le> 2 ^ 32" by linarith
  have va: "unat (va + 512) = unat va + 512" using unat_add_nat [of va 512] b(1) by simp
  have lt: "va < end_va" using b(3) by (simp add: word_less_nat_alt)
  let ?m = "with_image m (view d) (unat va) 512 (512 * k)"
  have same: "with_image m' (view d1) = with_image m' (view d)" for m' by (rule with_image_cong(1) [OF d1(2)])
  have "\<exists>d'. readseg_loop P (va + 512) end_va (of_nat (Suc (Suc k))) ?m d1
      = Some (with_image ?m (view d1) (unat (va + 512)) (512 * n) (512 * Suc k), d')
      \<and> ata_media (view d') = ata_media (view d1) \<and> ata_ready (view d')"
  proof (rule Suc.IH [OF d1(3)])
    show "unat (va + 512) + 512 * n < 2 ^ 32" using b(1) va by linarith
    show "Suc k + n < 0x0FFFFFFF" using Suc.prems(3) by linarith
    show "unat end_va \<le> unat (va + 512) + 512 * n" using b(2) va by linarith
    show "0 < n \<longrightarrow> unat (va + 512) + 512 * n < unat end_va + 512" using b(3) va by linarith
  qed
  moreover have "with_image ?m (view d) (unat va + 512) (512 * n) (512 * Suc k) = with_image m (view d) (unat va) (512 * Suc n) (512 * k)"
    using with_image_append [of m "view d" "unat va" 512 "512 * k" "512 * n"] by (simp add: add.commute)
  ultimately obtain d2 where d2: "readseg_loop P (va + 512) end_va (of_nat (Suc (Suc k))) ?m d1
      = Some (with_image m (view d) (unat va) (512 * Suc n) (512 * k), d2)"
      "ata_media (view d2) = ata_media (view d)" "ata_ready (view d2)"
    unfolding same va d1(2) by metis
  have "(of_nat (Suc k) :: u32) + 1 = of_nat (Suc (Suc k))" by simp
  moreover have "readsect P va (of_nat (Suc k)) m d = Some (?m, d1)"
    using d1(1) sector_in_memory [OF media p, of m] by simp
  ultimately have "readseg_loop P va end_va (of_nat (Suc k)) m d
      = Some (with_image m (view d) (unat va) (512 * Suc n) (512 * k), d2)"
    using d2(1) lt by (subst readseg_loop.simps) (simp only: SECTSIZE_def of_nat_numeral if_True bind.bind_lunit prod.case)
  then show ?case using d2(2,3) by blast
qed

lemma unat_sector_down: "unat (v AND NOT (of_nat SECTSIZE - 1) :: u32) = 512 * (unat v div 512)"
proof -
  have m: "(of_nat SECTSIZE - 1 :: u32) = mask 9" by (simp add: SECTSIZE_def mask_eq_exp_minus_1)
  have "v AND NOT (mask 9) = push_bit 9 (drop_bit 9 v)" by (rule bit_word_eqI) (auto simp: bit_simps)
  then have "unat (v AND NOT (mask 9)) = 512 * (unat v div 512) mod 2 ^ 32"
    by (simp add: push_bit_eq_mult drop_bit_eq_div unat_word_ariths unat_div mult.commute mod_mult_right_eq)
  moreover have "512 * (unat v div 512) < 2 ^ 32" using unat_u32 [of v] by simp
  ultimately show ?thesis by (simp add: m)
qed

lemma readseg_ok:
  assumes c: "ata_controller P view busy" and a: "ata_ready (view d)" and count: "count < 0x80000000"
  shows "\<exists>d'. readseg P va count offset m d
      = Some (with_image m (view d) (seg_start va) (seg_bytes va count) (512 * (unat offset div 512)), d')
    \<and> ata_media (view d') = ata_media (view d) \<and> ata_ready (view d')"
proof -
  define v where "v = va AND 0xFFFFFF"
  let ?lo = "v AND NOT (of_nat SECTSIZE - 1)"
  define n where "n = (unat v mod 512 + unat count + 511) div 512"
  have "v \<le> 0xFFFFFF" unfolding v_def by (rule word_and_le1)
  then have b: "unat v \<le> 0xFFFFFF" "unat count < 0x80000000" using count by (simp_all add: word_le_nat_alt word_less_nat_alt)
  have e: "unat (v + count) = unat v + unat count" using b by (simp add: unat_word_ariths)
  have lo: "unat ?lo = 512 * (unat v div 512)" by (rule unat_sector_down)
  have k: "offset div of_nat SECTSIZE + 1 = of_nat (Suc (unat offset div 512))" "unat offset div 512 < 0x800000"
  proof -
    have "offset div of_nat SECTSIZE = of_nat (unat offset div 512)"
      by (simp add: SECTSIZE_def word_arith_nat_div unat_of_nat)
    then show "offset div of_nat SECTSIZE + 1 = of_nat (Suc (unat offset div 512))" by simp
    show "unat offset div 512 < 0x800000" using unat_u32 [of offset] by (simp add: less_mult_imp_div_less)
  qed
  define x where "x = unat v mod 512 + unat count + 511"
  have x: "512 * n + x mod 512 = x" "x mod 512 < 512" "512 * (unat v div 512) + unat v mod 512 = unat v" "unat v mod 512 < 512"
    by (simp_all add: n_def flip: x_def)
  then have n: "unat v + unat count \<le> unat ?lo + 512 * n" "unat ?lo + 512 * n < unat v + unat count + 512" "n < 0x600000"
    using b unfolding lo x_def by linarith+
  have "\<exists>d'. readseg_loop P ?lo (v + count) (of_nat (Suc (unat offset div 512))) m d
      = Some (with_image m (view d) (unat ?lo) (512 * n) (512 * (unat offset div 512)), d')
      \<and> ata_media (view d') = ata_media (view d) \<and> ata_ready (view d')"
  proof (rule readseg_loop_ok [OF c a])
    show "unat ?lo + 512 * n < 2 ^ 32" using n(2) b by simp
    show "unat offset div 512 + n < 0x0FFFFFFF" using n(3) k(2) by linarith
    show "unat (v + count) \<le> unat ?lo + 512 * n" using n(1) e by simp
    show "0 < n \<longrightarrow> unat ?lo + 512 * n < unat (v + count) + 512" using n(2) e by simp
  qed
  moreover have "readseg P va count offset m d = readseg_loop P ?lo (v + count) (of_nat (Suc (unat offset div 512))) m d"
    unfolding readseg_def Let_def k(1) v_def ..
  moreover have "seg_start va = unat ?lo" "seg_bytes va count = 512 * n"
    by (simp_all add: seg_start_def seg_bytes_def lo n_def flip: v_def)
  ultimately show ?thesis by simp
qed

section \<open>The headers\<close>

text \<open>
  The program headers of the image on the disk; the sectors of a segment in memory, and what each of
  their bytes is once the segment has been read.
\<close>

definition seg_hdr :: "ata \<Rightarrow> nat \<Rightarrow> u32" where
  "seg_hdr a k = elf_phoff (disk_image a) 0 + of_nat (32 * k)"

definition seg_va :: "ata \<Rightarrow> nat \<Rightarrow> u32" where "seg_va a k = hdr_va (disk_image a) (seg_hdr a k)"
definition seg_memsz :: "ata \<Rightarrow> nat \<Rightarrow> u32" where "seg_memsz a k = hdr_memsz (disk_image a) (seg_hdr a k)"
definition seg_offset :: "ata \<Rightarrow> nat \<Rightarrow> u32" where "seg_offset a k = hdr_offset (disk_image a) (seg_hdr a k)"
definition seg_count :: "ata \<Rightarrow> nat" where "seg_count a = unat (elf_phnum (disk_image a) 0)"

definition in_segment :: "ata \<Rightarrow> nat \<Rightarrow> u32 \<Rightarrow> bool" where
  "in_segment a k q \<longleftrightarrow> seg_start (seg_va a k) \<le> unat q
     \<and> unat q < seg_start (seg_va a k) + seg_bytes (seg_va a k) (seg_memsz a k)"

definition seg_byte :: "ata \<Rightarrow> nat \<Rightarrow> u32 \<Rightarrow> u8" where
  "seg_byte a k q = image_byte a (512 * (unat (seg_offset a k) div 512) + (unat q - seg_start (seg_va a k)))"

definition in_header :: "u32 \<Rightarrow> bool" where
  "in_header q \<longleftrightarrow> 0x10000 \<le> unat q \<and> unat q < 0x11000"

text \<open>
  The images the loader is made for: the headers are in the first page of the file, a segment lies in
  its sectors as it lies in its page, and the sectors of the segments share no memory with each
  other or with the headers.
\<close>

definition loadable_image :: "ata \<Rightarrow> bool" where
  "loadable_image a \<longleftrightarrow> elf_magic (disk_image a) 0 = ELF_MAGIC
     \<and> unat (elf_phoff (disk_image a) 0) + 32 * seg_count a \<le> 4096
     \<and> (\<forall>k < seg_count a. seg_memsz a k < 0x80000000 \<and> unat (seg_va a k AND 0xFFFFFF) mod 512 = unat (seg_offset a k) mod 512)
     \<and> (\<forall>k < seg_count a. \<forall>q. in_segment a k q \<longrightarrow> \<not> in_header q)
     \<and> (\<forall>k < seg_count a. \<forall>l < seg_count a. k \<noteq> l \<longrightarrow> (\<forall>q. \<not> (in_segment a k q \<and> in_segment a l q)))"

text \<open>Reading the headers in memory.\<close>

definition header_read :: "bytes \<Rightarrow> ata \<Rightarrow> bool" where
  "header_read m a \<longleftrightarrow> (\<forall>q. in_header q \<longrightarrow> m q = image_byte a (unat q - 0x10000))"

lemma header_byte:
  assumes "header_read m a" and "unat x < 4096"
  shows "m (ELFHDR + x) = disk_image a x"
proof -
  have "unat (ELFHDR + x) = 0x10000 + unat x" using assms(2) by (simp add: ELFHDR_def unat_word_ariths)
  then show ?thesis using assms by (simp add: header_read_def in_header_def disk_image_def)
qed

lemma header_word:
  assumes h: "header_read m a" and x: "unat x + 4 \<le> 4096"
  shows "load_word m (ELFHDR + x) = load_word (disk_image a) x"
proof -
  have "load_word m (ELFHDR + x) = load_word (\<lambda>q. m (ELFHDR + q)) x" by (simp add: load_word_def add.assoc)
  also have "\<dots> = load_word (disk_image a) x"
  proof (rule load_word_cong)
    fix j :: nat assume "j < 4"
    then have "unat (x + of_nat j) < 4096" using unat_add_nat [of x j] x by simp
    then show "m (ELFHDR + (x + of_nat j)) = disk_image a (x + of_nat j)" by (rule header_byte [OF h])
  qed
  finally show ?thesis .
qed

lemma header_fields:
  assumes h: "header_read m a"
  shows "elf_magic m ELFHDR = elf_magic (disk_image a) 0" "elf_phoff m ELFHDR = elf_phoff (disk_image a) 0"
    "elf_entry m ELFHDR = elf_entry (disk_image a) 0" "elf_phnum m ELFHDR = elf_phnum (disk_image a) 0"
  using header_word [OF h, of 0] header_word [OF h, of 28] header_word [OF h, of 24]
    header_byte [OF h, of 44] header_byte [OF h, of 45]
  by (simp_all add: elf_magic_def elf_phoff_def elf_entry_def elf_phnum_def)

lemma segment_fields:
  assumes h: "header_read m a" and "loadable_image a" and "k < seg_count a"
  shows "hdr_va m (ELFHDR + seg_hdr a k) = seg_va a k" "hdr_memsz m (ELFHDR + seg_hdr a k) = seg_memsz a k"
    "hdr_offset m (ELFHDR + seg_hdr a k) = seg_offset a k"
proof -
  have b: "unat (elf_phoff (disk_image a) 0) + 32 * seg_count a \<le> 4096" using assms(2) by (simp add: loadable_image_def)
  have u: "unat (seg_hdr a k) = unat (elf_phoff (disk_image a) 0) + 32 * k"
    unfolding seg_hdr_def using b assms(3) by (intro unat_add_nat) simp
  have f: "load_word m (ELFHDR + seg_hdr a k + of_nat j) = load_word (disk_image a) (seg_hdr a k + of_nat j)" if "j + 4 \<le> 32" for j
  proof -
    have e: "unat (seg_hdr a k + of_nat j) = unat (seg_hdr a k) + j" using u b assms(3) that by (intro unat_add_nat) simp
    have "unat (seg_hdr a k + of_nat j) + 4 \<le> 4096" unfolding e u using b assms(3) that by linarith
    then show ?thesis using header_word [OF h] by (simp add: add.assoc)
  qed
  show "hdr_va m (ELFHDR + seg_hdr a k) = seg_va a k" "hdr_memsz m (ELFHDR + seg_hdr a k) = seg_memsz a k"
    "hdr_offset m (ELFHDR + seg_hdr a k) = seg_offset a k"
    using f [of 8] f [of 20] f [of 4] by (simp_all add: hdr_va_def hdr_memsz_def hdr_offset_def seg_va_def seg_memsz_def seg_offset_def)
qed

section \<open>All segments\<close>

text \<open>
  Memory after \<open>k\<close> segments: the headers and the segments are there, and no other byte has changed.
\<close>

definition loaded :: "ata \<Rightarrow> bytes \<Rightarrow> nat \<Rightarrow> bytes \<Rightarrow> bool" where
  "loaded a m0 k m \<longleftrightarrow> header_read m a \<and> (\<forall>l < k. \<forall>q. in_segment a l q \<longrightarrow> m q = seg_byte a l q)
     \<and> (\<forall>q. \<not> in_header q \<and> (\<forall>l < k. \<not> in_segment a l q) \<longrightarrow> m q = m0 q)"

lemma with_segment:
  "with_image m a (seg_start (seg_va a k)) (seg_bytes (seg_va a k) (seg_memsz a k)) (512 * (unat (seg_offset a k) div 512))
     = (\<lambda>q. if in_segment a k q then seg_byte a k q else m q)"
  by (rule ext) (simp add: with_image_def in_segment_def seg_byte_def)

lemma loaded_Suc:
  assumes b: "loadable_image a" and k: "k < seg_count a" and l: "loaded a m0 k m"
  shows "loaded a m0 (Suc k) (\<lambda>q. if in_segment a k q then seg_byte a k q else m q)"
proof -
  have h: "\<not> in_header q" if "in_segment a k q" for q using b k that unfolding loadable_image_def by blast
  have apart: "\<not> in_segment a k q" if "j < k" "in_segment a j q" for j q
  proof -
    have "j < seg_count a" "j \<noteq> k" using that(1) k by simp_all
    then show ?thesis using b k that(2) unfolding loadable_image_def by blast
  qed
  show ?thesis
    using l h apart unfolding loaded_def header_read_def less_Suc_eq by auto
qed

lemma boot_segments_ok:
  assumes c: "ata_controller P view busy" and b: "loadable_image a"
  shows "ata_ready (view d) \<Longrightarrow> ata_media (view d) = ata_media a \<Longrightarrow> k + r = seg_count a \<Longrightarrow> loaded a m0 k m \<Longrightarrow>
    \<exists>m' d'. boot_segments P (ELFHDR + seg_hdr a k) (ELFHDR + seg_hdr a (seg_count a)) m d = Some (m', d')
      \<and> loaded a m0 (seg_count a) m'"
proof (induction r arbitrary: k m d)
  case 0
  then show ?case by (subst boot_segments.simps) simp
next
  case (Suc r)
  have k: "k < seg_count a" using Suc.prems(3) by simp
  have o: "unat (elf_phoff (disk_image a) 0) + 32 * seg_count a \<le> 4096" "seg_memsz a k < 0x80000000"
    using b k by (simp_all add: loadable_image_def)
  have u: "unat (ELFHDR + seg_hdr a j) = 0x10000 + (unat (elf_phoff (disk_image a) 0) + 32 * j)" if "j \<le> seg_count a" for j
  proof -
    have "unat (seg_hdr a j) = unat (elf_phoff (disk_image a) 0) + 32 * j"
      unfolding seg_hdr_def using o(1) that by (intro unat_add_nat) simp
    moreover have "ELFHDR + seg_hdr a j = seg_hdr a j + of_nat 0x10000" by (simp add: ELFHDR_def)
    ultimately show ?thesis using unat_add_nat [of "seg_hdr a j" "0x10000"] o(1) that by (simp add: add.commute)
  qed
  have lt: "ELFHDR + seg_hdr a k < ELFHDR + seg_hdr a (seg_count a)" using u [of k] u [of "seg_count a"] k by (simp add: word_less_nat_alt)
  have next_hdr: "ELFHDR + seg_hdr a k + 32 = ELFHDR + seg_hdr a (Suc k)" by (simp add: seg_hdr_def)
  let ?m = "\<lambda>q. if in_segment a k q then seg_byte a k q else m q"
  have h: "header_read m a" using Suc.prems(4) by (simp add: loaded_def)
  obtain d1 where d1: "readseg P (seg_va a k) (seg_memsz a k) (seg_offset a k) m d = Some (?m, d1)"
      "ata_media (view d1) = ata_media a" "ata_ready (view d1)"
    using readseg_ok [OF c Suc.prems(1) o(2), of "seg_va a k" "seg_offset a k" m] Suc.prems(2)
    unfolding with_image_cong(1) [OF Suc.prems(2)] with_segment by auto
  obtain m' d' where m': "boot_segments P (ELFHDR + seg_hdr a (Suc k)) (ELFHDR + seg_hdr a (seg_count a)) ?m d1 = Some (m', d')"
      "loaded a m0 (seg_count a) m'"
    using Suc.IH [OF d1(3,2) _ loaded_Suc [OF b k Suc.prems(4)]] Suc.prems(3) by auto
  have "boot_segments P (ELFHDR + seg_hdr a k) (ELFHDR + seg_hdr a (seg_count a)) m d = Some (m', d')"
    by (subst boot_segments.simps) (simp add: lt segment_fields [OF h b k] d1(1) next_hdr m'(1))
  then show ?case using m'(2) by blast
qed

text \<open>A byte of a segment is in its sectors, at the same place as in the image.\<close>

lemma segment_byte:
  assumes b: "loadable_image a" and k: "k < seg_count a" and i: "i < unat (seg_memsz a k)"
  shows "in_segment a k ((seg_va a k AND 0xFFFFFF) + of_nat i)"
    and "seg_byte a k ((seg_va a k AND 0xFFFFFF) + of_nat i) = image_byte a (unat (seg_offset a k) + i)"
proof -
  define v where "v = seg_va a k AND 0xFFFFFF"
  have "v \<le> 0xFFFFFF" unfolding v_def by (rule word_and_le1)
  then have v: "unat v \<le> 0xFFFFFF" by (simp add: word_le_nat_alt)
  have m: "unat (seg_memsz a k) < 0x80000000" "unat v mod 512 = unat (seg_offset a k) mod 512"
    using b k by (simp_all add: loadable_image_def word_less_nat_alt v_def)
  have q: "unat (v + of_nat i) = unat v + i" using v m(1) i by (intro unat_add_nat) simp
  define x where "x = unat v mod 512 + unat (seg_memsz a k) + 511"
  have s: "seg_start (seg_va a k) = 512 * (unat v div 512)" "seg_bytes (seg_va a k) (seg_memsz a k) = 512 * (x div 512)"
    by (simp_all add: seg_start_def seg_bytes_def x_def v_def)
  have x: "512 * (x div 512) + x mod 512 = x" "x mod 512 < 512" "512 * (unat v div 512) + unat v mod 512 = unat v"
      "512 * (unat (seg_offset a k) div 512) + unat (seg_offset a k) mod 512 = unat (seg_offset a k)" by simp_all
  show "in_segment a k ((seg_va a k AND 0xFFFFFF) + of_nat i)"
    unfolding in_segment_def s v_def [symmetric] q using x(1-3) i x_def by linarith
  have "512 * (unat (seg_offset a k) div 512) + (unat v + i - 512 * (unat v div 512)) = unat (seg_offset a k) + i"
    using x(3,4) m(2) by linarith
  then show "seg_byte a k ((seg_va a k AND 0xFFFFFF) + of_nat i) = image_byte a (unat (seg_offset a k) + i)"
    unfolding seg_byte_def s v_def [symmetric] q by simp
qed

section \<open>Properties\<close>

text \<open>Reading the headers, which is the first thing the loader does.\<close>

lemma read_headers:
  assumes c: "ata_controller P view busy" and a: "ata_ready (view d)"
  shows "\<exists>m' d'. readseg P ELFHDR (of_nat SECTSIZE * 8) 0 m d = Some (m', d') \<and> loaded (view d) m 0 m'
    \<and> ata_media (view d') = ata_media (view d) \<and> ata_ready (view d')"
proof -
  have e: "seg_start ELFHDR = 0x10000" "seg_bytes ELFHDR (of_nat SECTSIZE * 8) = 4096" "(of_nat SECTSIZE * 8 :: u32) < 0x80000000"
    by (simp_all add: seg_start_def seg_bytes_def ELFHDR_def SECTSIZE_def)
  have "loaded (view d) m 0 (with_image m (view d) 0x10000 4096 0)"
    by (auto simp: loaded_def header_read_def in_header_def with_image_def)
  then show ?thesis
    using readseg_ok [OF c a e(3), of ELFHDR 0 m] unfolding e by auto
qed

text \<open>
  C25. The boot loader: from a drive that behaves as the ATA standard says and holds a kernel image whose
  segments do not overlap, the loader ends with a jump to the entry point; every byte of every segment
  is then in memory at the low 24 bits of its address, as it is in the image, and outside the sectors
  of the segments and the page of the headers memory is as it was.
\<close>

theorem cmain_loads:
  assumes c: "ata_controller P view busy" and a: "ata_ready (view d)" and b: "loadable_image (view d)"
  shows "\<exists>m' d'. cmain P m d = Some (Boot_jump (elf_entry (disk_image (view d)) 0 AND 0xFFFFFF), m', d')
    \<and> (\<forall>k < seg_count (view d). \<forall>i < unat (seg_memsz (view d) k).
         m' ((seg_va (view d) k AND 0xFFFFFF) + of_nat i) = image_byte (view d) (unat (seg_offset (view d) k) + i))
    \<and> (\<forall>q. \<not> in_header q \<and> (\<forall>k < seg_count (view d). \<not> in_segment (view d) k q) \<longrightarrow> m' q = m q)"
proof -
  let ?a = "view d"
  obtain m1 d1 where h: "readseg P ELFHDR (of_nat SECTSIZE * 8) 0 m d = Some (m1, d1)" "loaded ?a m 0 m1"
      "ata_media (view d1) = ata_media ?a" "ata_ready (view d1)" using read_headers [OF c a] by blast
  have f: "elf_magic m1 ELFHDR = ELF_MAGIC" "elf_phoff m1 ELFHDR = elf_phoff (disk_image ?a) 0"
      "elf_phnum m1 ELFHDR = elf_phnum (disk_image ?a) 0"
    using header_fields [of m1 ?a] h(2) b by (simp_all add: loaded_def loadable_image_def)
  have p: "ELFHDR + elf_phoff m1 ELFHDR = ELFHDR + seg_hdr ?a 0"
      "ELFHDR + seg_hdr ?a 0 + elf_phnum m1 ELFHDR * 32 = ELFHDR + seg_hdr ?a (seg_count ?a)"
    by (simp_all add: f seg_hdr_def seg_count_def)
  obtain m2 d2 where l: "boot_segments P (ELFHDR + seg_hdr ?a 0) (ELFHDR + seg_hdr ?a (seg_count ?a)) m1 d1 = Some (m2, d2)"
      "loaded ?a m (seg_count ?a) m2" using boot_segments_ok [OF c b h(4,3) _ h(2)] by auto
  have "elf_entry m2 ELFHDR = elf_entry (disk_image ?a) 0" using header_fields l(2) by (simp add: loaded_def)
  then have "cmain P m d = Some (Boot_jump (elf_entry (disk_image ?a) 0 AND 0xFFFFFF), m2, d2)"
    by (simp add: cmain_def h(1) f(1) Let_def p l(1))
  moreover have "m2 ((seg_va ?a k AND 0xFFFFFF) + of_nat i) = image_byte ?a (unat (seg_offset ?a k) + i)"
    if k: "k < seg_count ?a" and i: "i < unat (seg_memsz ?a k)" for k i
    using segment_byte [OF b k i] l(2) k by (simp add: loaded_def)
  ultimately show ?thesis using l(2) by (auto simp: loaded_def)
qed

text \<open>
  A disk with an image of one segment: 600 bytes at offset 0x1000 for the address 0xF0100000; the words
  of the other sectors are the number of the sector.
\<close>

definition boot_drive :: ata where
  "boot_drive = empty_drive\<lparr>ata_media := (\<lambda>s. if s = 1
     then (replicate 128 0)[0 := ELF_MAGIC, 6 := 0xF010000C, 7 := 52, 11 := 1, 13 := 1, 14 := 0x1000, 15 := 0xF0100000, 18 := 600]
     else replicate 128 (of_nat s))\<rparr>"

lemma boot_drive_headers:
  "elf_magic (disk_image boot_drive) 0 = ELF_MAGIC" "elf_entry (disk_image boot_drive) 0 = 0xF010000C"
  "elf_phoff (disk_image boot_drive) 0 = 52" "elf_phnum (disk_image boot_drive) 0 = 1"
  "hdr_va (disk_image boot_drive) 52 = 0xF0100000" "hdr_offset (disk_image boot_drive) 52 = 0x1000"
  "hdr_memsz (disk_image boot_drive) 52 = 600"
  by (simp_all add: elf_magic_def elf_entry_def elf_phoff_def elf_phnum_def hdr_va_def hdr_offset_def hdr_memsz_def
      load_word_def disk_image_def image_byte_def boot_drive_def ELF_MAGIC_def)

theorem cmain_loads_witness:
  "\<exists>m' d'. cmain sample_ide (\<lambda>_. 0) (boot_drive, 2) = Some (Boot_jump 0x10000C, m', d')
     \<and> m' 0x100004 = 9 \<and> m' 0x100204 = 10 \<and> m' 0x200000 = 0"
proof -
  have n: "seg_count boot_drive = 1" by (simp add: seg_count_def boot_drive_headers)
  have h: "seg_va boot_drive 0 = 0xF0100000" "seg_memsz boot_drive 0 = 600" "seg_offset boot_drive 0 = 0x1000"
    by (simp_all add: seg_va_def seg_memsz_def seg_offset_def seg_hdr_def boot_drive_headers)
  have s: "in_segment boot_drive 0 q \<longleftrightarrow> 0x100000 \<le> unat q \<and> unat q < 0x100400" for q
    by (simp add: in_segment_def h seg_start_def seg_bytes_def)
  have "loadable_image boot_drive" by (auto simp: loadable_image_def boot_drive_headers n h s in_header_def)
  moreover have "ata_ready boot_drive" by (simp add: ata_ready_def boot_drive_def empty_drive_def)
  ultimately obtain m' d' where m': "cmain sample_ide (\<lambda>_. 0) (boot_drive, 2 :: nat) = Some (Boot_jump 0x10000C, m', d')"
      "\<forall>i < 600. m' (0x100000 + of_nat i) = image_byte boot_drive (0x1000 + i)"
      "\<forall>q. \<not> in_header q \<and> \<not> in_segment boot_drive 0 q \<longrightarrow> m' q = 0"
    using cmain_loads [OF sample_ide_controller, of "(boot_drive, 2)" "\<lambda>_. 0"] by (auto simp: boot_drive_headers n h)
  have "m' 0x100004 = 9" "m' 0x100204 = 10"
    using m'(2) [rule_format, of 4] m'(2) [rule_format, of 516] by (simp_all add: image_byte_def boot_drive_def)
  moreover have "m' 0x200000 = 0" using m'(3) [rule_format, of "0x200000"] by (simp add: in_header_def s)
  ultimately show ?thesis using m'(1) by blast
qed

end
