(* ===== verification/FOS_Idt.thy ===== *)
theory FOS_Idt
  imports FOS_Trap
begin

text \<open>
  Segments and gates: the descriptor macros of inc/mmu.h, the table gdt of kern/helpers.c, idt\_init() and
  trapname() of kern/trap.c, env\_pop\_tf() of kern/user\_environment.c, and the entry points of
  kern/trapentry.S. A bit field is a word of its width or, with one bit, a truth value. The kernel's
  stack is the list of its 32-bit words, the top first.

  \<open>enter\_trap\<close> is what the processor documents of an interrupt from user mode through a gate. The
  theorems say that a trap frame describes the program that was interrupted and restores it, and which
  gates a program may call itself.
\<close>

section \<open>Descriptors\<close>

record Segdesc =
  sd_lim_15_0 :: "16 word"
  sd_base_15_0 :: "16 word"
  sd_base_23_16 :: "8 word"
  sd_type :: "4 word"
  sd_s :: bool
  sd_dpl :: "2 word"
  sd_p :: bool
  sd_lim_19_16 :: "4 word"
  sd_avl :: bool
  sd_rsv1 :: bool
  sd_db :: bool
  sd_g :: bool
  sd_base_31_24 :: "8 word"

definition SEG_NULL :: Segdesc where
  "SEG_NULL = \<lparr>sd_lim_15_0 = 0, sd_base_15_0 = 0, sd_base_23_16 = 0, sd_type = 0, sd_s = False, sd_dpl = 0,
     sd_p = False, sd_lim_19_16 = 0, sd_avl = False, sd_rsv1 = False, sd_db = False, sd_g = False, sd_base_31_24 = 0\<rparr>"

definition SEG :: "4 word \<Rightarrow> u32 \<Rightarrow> u32 \<Rightarrow> 2 word \<Rightarrow> Segdesc" where
  "SEG ty base lim dpl =
     \<lparr>sd_lim_15_0 = ucast (drop_bit 12 lim), sd_base_15_0 = ucast base, sd_base_23_16 = ucast (drop_bit 16 base),
      sd_type = ty, sd_s = True, sd_dpl = dpl, sd_p = True, sd_lim_19_16 = ucast (drop_bit 28 lim), sd_avl = False,
      sd_rsv1 = False, sd_db = True, sd_g = True, sd_base_31_24 = ucast (drop_bit 24 base)\<rparr>"

definition SEG16 :: "4 word \<Rightarrow> u32 \<Rightarrow> u32 \<Rightarrow> 2 word \<Rightarrow> Segdesc" where
  "SEG16 ty base lim dpl =
     \<lparr>sd_lim_15_0 = ucast lim, sd_base_15_0 = ucast base, sd_base_23_16 = ucast (drop_bit 16 base),
      sd_type = ty, sd_s = True, sd_dpl = dpl, sd_p = True, sd_lim_19_16 = ucast (drop_bit 16 lim), sd_avl = False,
      sd_rsv1 = False, sd_db = True, sd_g = False, sd_base_31_24 = ucast (drop_bit 24 base)\<rparr>"

definition STA_X :: "4 word" where "STA_X = 0x8"
definition STA_W :: "4 word" where "STA_W = 0x2"
definition STA_R :: "4 word" where "STA_R = 0x2"
definition STS_T32A :: "4 word" where "STS_T32A = 0x9"
definition STS_IG32 :: "4 word" where "STS_IG32 = 0xE"
definition STS_TG32 :: "4 word" where "STS_TG32 = 0xF"
definition GD_KD :: u16 where "GD_KD = 0x10"
definition GD_TSS :: u16 where "GD_TSS = 0x28"

text \<open>The table at the start: entry 5, for the task state segment, is set by idt\_init().\<close>

definition gdt :: "Segdesc list" where
  "gdt = [SEG_NULL, SEG (STA_X OR STA_R) 0 0xFFFFFFFF 0, SEG STA_W 0 0xFFFFFFFF 0,
     SEG (STA_X OR STA_R) 0 0xFFFFFFFF 3, SEG STA_W 0 0xFFFFFFFF 3, SEG_NULL]"

record Gatedesc =
  gd_off_15_0 :: "16 word"
  gd_ss :: "16 word"
  gd_args :: "5 word"
  gd_rsv1 :: "3 word"
  gd_type :: "4 word"
  gd_s :: bool
  gd_dpl :: "2 word"
  gd_p :: bool
  gd_off_31_16 :: "16 word"

definition SETGATE :: "bool \<Rightarrow> u16 \<Rightarrow> u32 \<Rightarrow> 2 word \<Rightarrow> Gatedesc" where
  "SETGATE istrap sel off dpl =
     \<lparr>gd_off_15_0 = ucast (off AND 0xFFFF), gd_ss = sel, gd_args = 0, gd_rsv1 = 0,
      gd_type = (if istrap then STS_TG32 else STS_IG32), gd_s = False, gd_dpl = dpl, gd_p = True,
      gd_off_31_16 = ucast (drop_bit 16 off)\<rparr>"

definition null_gate :: Gatedesc where
  "null_gate = \<lparr>gd_off_15_0 = 0, gd_ss = 0, gd_args = 0, gd_rsv1 = 0, gd_type = 0, gd_s = False, gd_dpl = 0,
     gd_p = False, gd_off_31_16 = 0\<rparr>"

definition gate_offset :: "Gatedesc \<Rightarrow> u32" where
  "gate_offset g = push_bit 16 (ucast (gd_off_31_16 g)) OR ucast (gd_off_15_0 g)"

section \<open>The table of interrupts\<close>

text \<open>The entry points of trapentry.S; their addresses are given by the linker.\<close>

datatype entry_point = PAGE_FAULT | SYSCALL_HANDLER | DBL_FAULT | ALL_FAULTS nat

text \<open>The calls of SETGATE in idt\_init(): number, trap gate or not, entry point, privilege.\<close>

definition idt_gates :: "(nat \<times> bool \<times> entry_point \<times> 2 word) list" where
  "idt_gates =
     [(14, False, PAGE_FAULT, 0), (48, False, SYSCALL_HANDLER, 3), (8, False, DBL_FAULT, 0),
      (0, False, ALL_FAULTS 0, 3), (1, True, ALL_FAULTS 1, 3), (2, False, ALL_FAULTS 2, 3),
      (3, True, ALL_FAULTS 3, 3), (4, True, ALL_FAULTS 4, 3), (5, False, ALL_FAULTS 5, 3),
      (6, False, ALL_FAULTS 6, 3), (7, False, ALL_FAULTS 7, 3), (10, False, ALL_FAULTS 10, 3),
      (11, False, ALL_FAULTS 11, 3), (12, False, ALL_FAULTS 12, 3), (13, False, ALL_FAULTS 13, 3),
      (16, False, ALL_FAULTS 16, 3), (17, False, ALL_FAULTS 17, 3), (18, False, ALL_FAULTS 18, 3),
      (19, False, ALL_FAULTS 19, 3), (32, False, ALL_FAULTS 32, 3), (33, False, ALL_FAULTS 33, 3),
      (34, False, ALL_FAULTS 34, 3), (35, False, ALL_FAULTS 35, 3), (36, False, ALL_FAULTS 36, 3),
      (37, False, ALL_FAULTS 37, 3), (38, False, ALL_FAULTS 38, 3), (39, False, ALL_FAULTS 39, 3),
      (40, False, ALL_FAULTS 40, 3), (41, False, ALL_FAULTS 41, 3), (42, False, ALL_FAULTS 42, 3),
      (43, False, ALL_FAULTS 43, 3), (44, False, ALL_FAULTS 44, 3), (45, False, ALL_FAULTS 45, 3),
      (46, False, ALL_FAULTS 46, 3), (47, False, ALL_FAULTS 47, 3)]"

record descriptor_tables =
  idt :: "nat \<Rightarrow> Gatedesc"
  segments :: "Segdesc list"
  ts_esp0 :: u32
  ts_ss0 :: u16

text \<open>The state before: no gate is present.\<close>

definition initial_tables :: descriptor_tables where
  "initial_tables = \<lparr>idt = (\<lambda>_. null_gate), segments = gdt, ts_esp0 = 0, ts_ss0 = 0\<rparr>"

definition sizeof_Taskstate :: u32 where "sizeof_Taskstate = 104"

text \<open>The addresses of the entry points and of the task state segment are arguments.\<close>

definition idt_init :: "(entry_point \<Rightarrow> u32) \<Rightarrow> u32 \<Rightarrow> descriptor_tables \<Rightarrow> descriptor_tables" where
  "idt_init addr ts t =
     t\<lparr>idt := fold (\<lambda>(n, istrap, h, dpl) i. i(n := SETGATE istrap GD_KT (addr h) dpl)) idt_gates (idt t),
       ts_esp0 := KERNEL_STACK_TOP, ts_ss0 := GD_KD,
       segments := (segments t)[unat (GD_TSS div 8) := (SEG16 STS_T32A ts sizeof_Taskstate 0)\<lparr>sd_s := False\<rparr>]\<rparr>"

definition excnames :: "string list" where
  "excnames =
     [''Divide error'', ''Debug'', ''Non-Maskable Interrupt'', ''Breakpoint'', ''Overflow'', ''BOUND Range Exceeded'',
      ''Invalid Opcode'', ''Device Not Available'', ''Double Fault'', ''Coprocessor Segment Overrun'', ''Invalid TSS'',
      ''Segment Not Present'', ''Stack Fault'', ''General Protection'', ''Page Fault'', ''(unknown trap)'',
      ''x87 FPU Floating-Point Error'', ''Alignment Check'', ''Machine-Check'', ''SIMD Floating-Point Exception'']"

text \<open>The comparison with sizeof is an unsigned one.\<close>

definition trapname :: "u32 \<Rightarrow> string" where
  "trapname trapno =
     (if unat trapno < length excnames then excnames ! unat trapno
      else if trapno = T_SYSCALL then ''System call'' else ''(unknown trap)'')"

section \<open>Entry and return\<close>

text \<open>The registers of a program.\<close>

record cpu =
  c_regs :: PushRegs
  c_es :: u16
  c_ds :: u16
  c_eip :: u32
  c_cs :: u16
  c_eflags :: u32
  c_esp :: u32
  c_ss :: u16

text \<open>An entry point: whether it pushes a zero in place of the error code, and the number it pushes.\<close>

fun trap_handler :: "entry_point \<Rightarrow> bool \<times> nat" where
  "trap_handler PAGE_FAULT = (False, 14)"
| "trap_handler SYSCALL_HANDLER = (True, 48)"
| "trap_handler DBL_FAULT = (False, 8)"
| "trap_handler (ALL_FAULTS n) = (n \<notin> {10, 11, 12, 13, 17}, n)"

definition trap_stub :: "entry_point \<Rightarrow> u32 list \<Rightarrow> u32 list" where
  "trap_stub h stk =
     (let (zero, num) = trap_handler h in of_nat num # (if zero then 0 # stk else stk))"

text \<open>\_alltraps up to the call of trap(): the segment registers, pushal, and esp as it was before it.\<close>

definition alltraps :: "cpu \<Rightarrow> u32 \<Rightarrow> u32 list \<Rightarrow> u32 list" where
  "alltraps c oesp stk =
     (let r = c_regs c in
      [reg_edi r, reg_esi r, reg_ebp r, oesp, reg_ebx r, reg_edx r, reg_ecx r, reg_eax r, ucast (c_es c), ucast (c_ds c)] @ stk)"

text \<open>struct Trapframe as laid out in memory: the words from the top of the stack.\<close>

definition frame_at :: "u32 list \<Rightarrow> Trapframe" where
  "frame_at w =
     \<lparr>tf_regs = \<lparr>reg_edi = w ! 0, reg_esi = w ! 1, reg_ebp = w ! 2, reg_oesp = w ! 3, reg_ebx = w ! 4,
        reg_edx = w ! 5, reg_ecx = w ! 6, reg_eax = w ! 7\<rparr>,
      tf_es = ucast (w ! 8), tf_ds = ucast (w ! 9), tf_trapno = w ! 10, tf_err = w ! 11, tf_eip = w ! 12,
      tf_cs = ucast (w ! 13), tf_eflags = w ! 14, tf_esp = w ! 15, tf_ss = ucast (w ! 16)\<rparr>"

text \<open>env\_pop\_tf() and the end of \_alltraps: popal, which skips esp, the segment registers, and iret.\<close>

definition env_pop_tf :: "Trapframe \<Rightarrow> cpu" where
  "env_pop_tf tf =
     \<lparr>c_regs = (tf_regs tf)\<lparr>reg_oesp := 0\<rparr>, c_es = tf_es tf, c_ds = tf_ds tf, c_eip = tf_eip tf, c_cs = tf_cs tf,
      c_eflags = tf_eflags tf, c_esp = tf_esp tf, c_ss = tf_ss tf\<rparr>"

text \<open>
  The processor: the exceptions that push an error code, which the instruction int does not; the words
  pushed by an interrupt from user mode; and whether int n from user mode passes the gate.
\<close>

definition has_error_code :: "nat \<Rightarrow> bool" where
  "has_error_code n \<longleftrightarrow> n \<in> {8, 10, 11, 12, 13, 14, 17}"

definition pushed :: "cpu \<Rightarrow> u32 option \<Rightarrow> u32 list" where
  "pushed c err =
     (case err of Some e \<Rightarrow> [e] | None \<Rightarrow> []) @ [c_eip c, ucast (c_cs c), c_eflags c, c_esp c, ucast (c_ss c)]"

definition int_allowed :: "descriptor_tables \<Rightarrow> nat \<Rightarrow> bool" where
  "int_allowed t n \<longleftrightarrow> gd_p (idt t n) \<and> gd_dpl (idt t n) = 3"

text \<open>The code at the address of every entry point in use is that entry point.\<close>

definition linked :: "(u32 \<Rightarrow> entry_point option) \<Rightarrow> (entry_point \<Rightarrow> u32) \<Rightarrow> bool" where
  "linked code addr \<longleftrightarrow> (\<forall>(n, istrap, h, dpl) \<in> set idt_gates. code (addr h) = Some h)"

text \<open>The trap frame of an interrupt \<open>n\<close>, where \<open>code\<close> gives the entry point at an address.\<close>

definition enter_trap ::
  "(u32 \<Rightarrow> entry_point option) \<Rightarrow> descriptor_tables \<Rightarrow> u32 \<Rightarrow> cpu \<Rightarrow> nat \<Rightarrow> u32 option \<Rightarrow> Trapframe option" where
  "enter_trap code t oesp c n err =
     (if gd_p (idt t n) then
        map_option (\<lambda>h. frame_at (alltraps c oesp (trap_stub h (pushed c err)))) (code (gate_offset (idt t n)))
      else None)"

section \<open>Facts\<close>

lemma gate_offset_SETGATE [simp]: "gate_offset (SETGATE istrap sel off dpl) = off"
proof -
  have m: "(0xFFFF :: u32) = mask 16" by (simp add: mask_eq_exp_minus_1)
  show ?thesis unfolding gate_offset_def SETGATE_def m
    by (rule bit_word_eqI) (auto simp: bit_simps)
qed

lemma SETGATE_simps [simp]: "gd_p (SETGATE istrap sel off dpl)" "gd_dpl (SETGATE istrap sel off dpl) = dpl"
  by (simp_all add: SETGATE_def)

text \<open>The gate of a number.\<close>

definition gate_for :: "nat \<Rightarrow> (bool \<times> entry_point \<times> 2 word) option" where
  "gate_for n = map_of idt_gates n"

lemma fold_gates:
  "distinct (map fst gs) \<Longrightarrow>
    fold (\<lambda>(n, istrap, h, dpl) i. i(n := SETGATE istrap GD_KT (addr h) dpl)) gs i n
      = (case map_of gs n of None \<Rightarrow> i n | Some (istrap, h, dpl) \<Rightarrow> SETGATE istrap GD_KT (addr h) dpl)"
proof (induction gs arbitrary: i)
  case (Cons g gs)
  obtain k istrap h dpl where g: "g = (k, istrap, h, dpl)" by (cases g)
  show ?case
  proof (cases "n = k")
    case True
    then have "map_of gs n = None" using Cons.prems g by (simp add: map_of_eq_None_iff)
    then show ?thesis using Cons g True by simp
  next
    case False
    then show ?thesis using Cons g by (auto split: option.splits)
  qed
qed simp

lemma idt_init_gate:
  "idt (idt_init addr ts initial_tables) n
     = (case gate_for n of None \<Rightarrow> null_gate | Some (istrap, h, dpl) \<Rightarrow> SETGATE istrap GD_KT (addr h) dpl)"
proof -
  have "distinct (map fst idt_gates)" by code_simp
  then show ?thesis by (simp add: idt_init_def initial_tables_def fold_gates gate_for_def)
qed

text \<open>Every gate leads to the entry point that pushes its number, with a zero where no error code is pushed.\<close>

lemma gates_match: "gate_for n = Some (istrap, h, dpl) \<Longrightarrow> trap_handler h = (\<not> has_error_code n, n)"
proof -
  have "\<forall>(n, istrap, h, dpl) \<in> set idt_gates. trap_handler h = (\<not> has_error_code n, n)" by code_simp
  then show "gate_for n = Some (istrap, h, dpl) \<Longrightarrow> trap_handler h = (\<not> has_error_code n, n)"
    unfolding gate_for_def by (fastforce dest: map_of_SomeD)
qed

lemma linked_gate: "linked code addr \<Longrightarrow> gate_for n = Some (istrap, h, dpl) \<Longrightarrow> code (addr h) = Some h"
  unfolding linked_def gate_for_def by (fastforce dest: map_of_SomeD)

lemma enter_trap_frame:
  assumes "linked code addr" and "gate_for n = Some (istrap, h, dpl)"
  shows "enter_trap code (idt_init addr ts initial_tables) oesp c n err
    = Some (frame_at (alltraps c oesp (trap_stub h (pushed c err))))"
  using linked_gate [OF assms] by (simp add: enter_trap_def idt_init_gate assms(2))

lemma ucast_u16 [simp]: "ucast (ucast (x :: u16) :: u32) = x"
  by (rule bit_word_eqI) (auto simp: bit_simps)

section \<open>Properties\<close>

text \<open>
  C23. An interrupt or exception from user mode through a gate of idt\_init() gives trap() a frame that
  describes the interrupted program: its number, the error code or zero, and every register, and
  env\_pop\_tf() on that frame puts all of them back. The processor pushes an error code for just the
  exceptions that have one.
\<close>

theorem trap_frame_roundtrip:
  assumes "linked code addr" and "gate_for n \<noteq> None"
    and "has_error_code n \<longleftrightarrow> err \<noteq> None" and "reg_oesp (c_regs c) = 0"
  shows "\<exists>tf. enter_trap code (idt_init addr ts initial_tables) oesp c n err = Some tf
    \<and> tf_trapno tf = of_nat n \<and> tf_err tf = (case err of None \<Rightarrow> 0 | Some e \<Rightarrow> e) \<and> tf_cs tf = c_cs c
    \<and> env_pop_tf tf = c"
proof -
  obtain istrap h dpl where g: "gate_for n = Some (istrap, h, dpl)" using assms(2) by (cases "gate_for n") auto
  note m = gates_match [OF g]
  show ?thesis
    unfolding enter_trap_frame [OF assms(1) g] using assms(3,4) m
    by (cases err) (auto simp: frame_at_def alltraps_def trap_stub_def pushed_def env_pop_tf_def Let_def numeral_eq_Suc)
qed

text \<open>Entry points 16 bytes apart, and an interrupted program.\<close>

definition sample_addr :: "entry_point \<Rightarrow> u32" where
  "sample_addr h = (case h of PAGE_FAULT \<Rightarrow> 0xF0103000 | SYSCALL_HANDLER \<Rightarrow> 0xF0103010 | DBL_FAULT \<Rightarrow> 0xF0103020
     | ALL_FAULTS n \<Rightarrow> 0xF0104000 + 16 * of_nat n)"

definition sample_cpu :: cpu where
  "sample_cpu = \<lparr>c_regs = \<lparr>reg_edi = 1, reg_esi = 2, reg_ebp = 3, reg_oesp = 0, reg_ebx = 5, reg_edx = 6, reg_ecx = 7,
     reg_eax = 8\<rparr>, c_es = 0x23, c_ds = 0x23, c_eip = 0x800020, c_cs = 0x1B, c_eflags = 0x202, c_esp = 0xEEBFE000, c_ss = 0x23\<rparr>"

definition sample_code :: "u32 \<Rightarrow> entry_point option" where
  "sample_code = map_of (map (\<lambda>(n, istrap, h, dpl). (sample_addr h, h)) idt_gates)"

lemma sample_linked: "linked sample_code sample_addr"
  by code_simp

theorem trap_frame_roundtrip_witness:
  "\<exists>tf. enter_trap sample_code (idt_init sample_addr 0xF0160000 initial_tables) 0xEFBFFFD8 sample_cpu 14 (Some 6) = Some tf
    \<and> tf_trapno tf = T_PGFLT \<and> tf_err tf = 6 \<and> env_pop_tf tf = sample_cpu"
proof -
  have "gate_for 14 \<noteq> None" by code_simp
  moreover have "has_error_code 14 \<longleftrightarrow> Some (6 :: u32) \<noteq> None" by (simp add: has_error_code_def)
  moreover have "reg_oesp (c_regs sample_cpu) = 0" by (simp add: sample_cpu_def)
  ultimately show ?thesis
    using trap_frame_roundtrip [OF sample_linked, of 14 "Some 6" sample_cpu "0xF0160000" "0xEFBFFFD8"] by (auto simp: T_PGFLT_def)
qed

lemma user_numbers:
  "(case gate_for n of None \<Rightarrow> False | Some (istrap, h, dpl) \<Rightarrow> dpl = 3) \<longleftrightarrow> n \<in> {0..7} \<union> {10..13} \<union> {16..19} \<union> {32..48}"
proof (cases "n < 49")
  case True
  have "\<forall>n \<in> set [0..<49]. (case gate_for n of None \<Rightarrow> False | Some (istrap, h, dpl) \<Rightarrow> dpl = 3)
      \<longleftrightarrow> n \<le> 7 \<or> 10 \<le> n \<and> n \<le> 13 \<or> 16 \<le> n \<and> n \<le> 19 \<or> 32 \<le> n \<and> n \<le> 48" by code_simp
  then show ?thesis using True by auto
next
  case False
  have "\<forall>(k, g) \<in> set idt_gates. k < 49" by code_simp
  then have "gate_for n = None" using False map_of_SomeD [of idt_gates n] by (cases "gate_for n") (auto simp: gate_for_def)
  then show ?thesis using False by auto
qed

text \<open>
  C28. A program may call with the instruction int exactly the gates 0 to 7, 10 to 13, 16 to 19 and 32
  to 48, so also the clock's. The instruction pushes no error code: at the gates of the five
  exceptions that have one, the frame is shifted by a word, and the code segment by which trap()
  decides whether a program was interrupted is the low half of the program's flags.
\<close>

theorem user_gates:
  assumes "linked code addr"
  shows "(int_allowed (idt_init addr ts initial_tables) n \<longleftrightarrow> n \<in> {0..7} \<union> {10..13} \<union> {16..19} \<union> {32..48})
    \<and> (n \<in> {10, 11, 12, 13, 17} \<longrightarrow> (\<exists>tf. enter_trap code (idt_init addr ts initial_tables) oesp c n None = Some tf
         \<and> tf_err tf = c_eip c \<and> tf_eip tf = ucast (c_cs c) \<and> tf_cs tf = ucast (c_eflags c)))"
proof (rule conjI)
  have "int_allowed (idt_init addr ts initial_tables) n
      \<longleftrightarrow> (case gate_for n of None \<Rightarrow> False | Some (istrap, h, dpl) \<Rightarrow> dpl = 3)"
    by (auto simp: int_allowed_def idt_init_gate null_gate_def split: option.splits prod.splits)
  then show "int_allowed (idt_init addr ts initial_tables) n \<longleftrightarrow> n \<in> {0..7} \<union> {10..13} \<union> {16..19} \<union> {32..48}"
    using user_numbers by simp
  show "n \<in> {10, 11, 12, 13, 17} \<longrightarrow> (\<exists>tf. enter_trap code (idt_init addr ts initial_tables) oesp c n None = Some tf
      \<and> tf_err tf = c_eip c \<and> tf_eip tf = ucast (c_cs c) \<and> tf_cs tf = ucast (c_eflags c))"
  proof
    assume n: "n \<in> {10, 11, 12, 13, 17}"
    then have "n \<in> {0..7} \<union> {10..13} \<union> {16..19} \<union> {32..48}" by auto
    then have "gate_for n \<noteq> None" using user_numbers [of n] by (cases "gate_for n") auto
    then obtain istrap h dpl where g: "gate_for n = Some (istrap, h, dpl)" by (cases "gate_for n") auto
    have "has_error_code n" using n by (auto simp: has_error_code_def)
    then have "trap_handler h = (False, n)" using gates_match [OF g] by simp
    then show "\<exists>tf. enter_trap code (idt_init addr ts initial_tables) oesp c n None = Some tf
        \<and> tf_err tf = c_eip c \<and> tf_eip tf = ucast (c_cs c) \<and> tf_cs tf = ucast (c_eflags c)"
      unfolding enter_trap_frame [OF assms g]
      by (auto simp: frame_at_def alltraps_def trap_stub_def pushed_def Let_def numeral_eq_Suc)
  qed
qed

theorem user_gates_witness:
  "int_allowed (idt_init sample_addr 0xF0160000 initial_tables) 32 \<and> \<not> int_allowed (idt_init sample_addr 0xF0160000 initial_tables) 14
    \<and> (\<exists>tf. enter_trap sample_code (idt_init sample_addr 0xF0160000 initial_tables) 0 sample_cpu 13 None = Some tf \<and> tf_cs tf = 0x202)"
  using user_gates [OF sample_linked, of "0xF0160000" 32 0 sample_cpu] user_gates [OF sample_linked, of "0xF0160000" 14 0 sample_cpu]
    user_gates [OF sample_linked, of "0xF0160000" 13 0 sample_cpu]
  by (auto simp: sample_cpu_def)

end
