(* ===== verification/FOS_UserSys.thy ===== *)
theory FOS_UserSys
  imports FOS_Trap FOS_UHeap
begin

text \<open>
  The system calls as a program sees them: the stubs of lib/syscall.c, exit() and destroy() of
  lib/exit.c and env_sleep() of lib/concurrency.c. A call is the instruction int 0x30 with the number and
  the arguments in registers; the processor saves the registers in a trap frame, trap() runs, and if
  the caller runs next, the result is in eax of its trap frame.

  The theorems are about the whole path from the stub through the kernel and back.
\<close>

section \<open>The trap instruction\<close>

text \<open>
  A call, from the state of the kernel and the registers of the program: it comes back with a value, or
  something else runs next.
\<close>

datatype call_end = Call_returns u32 | Call_left trap_end

type_synonym call = "sys_context \<Rightarrow> kstate \<Rightarrow> Trapframe \<Rightarrow> (call_end \<times> kstate) result"

definition call_frame :: "Trapframe \<Rightarrow> u32 \<Rightarrow> u32 \<Rightarrow> u32 \<Rightarrow> u32 \<Rightarrow> u32 \<Rightarrow> u32 \<Rightarrow> Trapframe" where
  "call_frame tf num a1 a2 a3 a4 a5 =
     tf\<lparr>tf_trapno := T_SYSCALL,
        tf_regs := (tf_regs tf)\<lparr>reg_eax := num, reg_edx := a1, reg_ecx := a2, reg_ebx := a3,
          reg_edi := a4, reg_esi := a5\<rparr>\<rparr>"

definition syscall_stub :: "u32 \<Rightarrow> u32 \<Rightarrow> u32 \<Rightarrow> u32 \<Rightarrow> u32 \<Rightarrow> u32 \<Rightarrow> call" where
  "syscall_stub num a1 a2 a3 a4 a5 ctx s tf =
     rbind (trap ctx s (call_frame tf num a1 a2 a3 a4 a5)) (\<lambda>(x, s').
       case x of
         Control (Runs e) \<Rightarrow>
           if curenv s = Some e then Inr (Call_returns (reg_eax (tf_regs (env_tf (envs s' e)))), s')
           else Inr (Call_left x, s')
       | _ \<Rightarrow> Inr (Call_left x, s'))"

section \<open>Stubs\<close>

definition lib_sys_cputs :: "u32 \<Rightarrow> u32 \<Rightarrow> call" where
  "lib_sys_cputs str n = syscall_stub SYS_cputs str n 0 0 0"

definition lib_sys_cgetc :: "call" where
  "lib_sys_cgetc = syscall_stub SYS_cgetc 0 0 0 0 0"

definition lib_sys_env_destroy :: "u32 \<Rightarrow> call" where
  "lib_sys_env_destroy envid = syscall_stub SYS_env_destroy envid 0 0 0 0"

definition lib_sys_getenvid :: "call" where
  "lib_sys_getenvid = syscall_stub SYS_getenvid 0 0 0 0 0"

definition lib_sys_env_exit :: "call" where
  "lib_sys_env_exit = syscall_stub SYS_env_exit 0 0 0 0 0"

definition lib_sys_allocate_page :: "u32 \<Rightarrow> u32 \<Rightarrow> call" where
  "lib_sys_allocate_page va perm = syscall_stub SYS_allocate_page va perm 0 0 0"

definition lib_sys_map_frame :: "u32 \<Rightarrow> u32 \<Rightarrow> u32 \<Rightarrow> u32 \<Rightarrow> u32 \<Rightarrow> call" where
  "lib_sys_map_frame srcenv srcva dstenv dstva perm = syscall_stub SYS_map_frame srcenv srcva dstenv dstva perm"

definition lib_sys_unmap_frame :: "u32 \<Rightarrow> u32 \<Rightarrow> call" where
  "lib_sys_unmap_frame envid va = syscall_stub SYS_unmap_frame envid va 0 0 0"

definition lib_sys_calculate_required_frames :: "u32 \<Rightarrow> u32 \<Rightarrow> call" where
  "lib_sys_calculate_required_frames start_virtual_address sz = syscall_stub SYS_calc_req_frames start_virtual_address sz 0 0 0"

definition lib_sys_calculate_free_frames :: "call" where
  "lib_sys_calculate_free_frames = syscall_stub SYS_calc_free_frames 0 0 0 0 0"

definition lib_sys_calculate_modified_frames :: "call" where
  "lib_sys_calculate_modified_frames = syscall_stub SYS_calc_modified_frames 0 0 0 0 0"

definition lib_sys_calculate_notmod_frames :: "call" where
  "lib_sys_calculate_notmod_frames = syscall_stub SYS_calc_notmod_frames 0 0 0 0 0"

definition lib_sys_freeMem :: "u32 \<Rightarrow> u32 \<Rightarrow> call" where
  "lib_sys_freeMem virtual_address sz = syscall_stub SYS_freeMem virtual_address sz 0 0 0"

definition lib_sys_allocateMem :: "u32 \<Rightarrow> u32 \<Rightarrow> call" where
  "lib_sys_allocateMem virtual_address sz = syscall_stub SYS_allocateMem virtual_address sz 0 0 0"

definition lib_sys_pf_calculate_allocated_pages :: "call" where
  "lib_sys_pf_calculate_allocated_pages = syscall_stub SYS_pf_calc_allocated_pages 0 0 0 0 0"

definition lib_sys_disable_interrupt :: "call" where
  "lib_sys_disable_interrupt = syscall_stub SYS_disableINTR 0 0 0 0 0"

definition lib_sys_enable_interrupt :: "call" where
  "lib_sys_enable_interrupt = syscall_stub SYS_enableINTR 0 0 0 0 0"

definition lib_sys_cputc :: "u8 \<Rightarrow> call" where
  "lib_sys_cputc c = syscall_stub SYS_cputc (scast c) 0 0 0 0"

definition lib_sys_clear_ffl :: "call" where
  "lib_sys_clear_ffl = syscall_stub SYS_clearFFL 0 0 0 0 0"

definition lib_sys_createSemaphore :: "u32 \<Rightarrow> u32 \<Rightarrow> call" where
  "lib_sys_createSemaphore semaphoreName initialValue = syscall_stub SYS_create_semaphore semaphoreName initialValue 0 0 0"

definition lib_sys_getSemaphoreValue :: "u32 \<Rightarrow> call" where
  "lib_sys_getSemaphoreValue semaphoreName = syscall_stub SYS_get_semaphore_value semaphoreName 0 0 0 0"

definition lib_sys_waitSemaphore :: "u32 \<Rightarrow> call" where
  "lib_sys_waitSemaphore semaphoreName = syscall_stub SYS_wait_semaphore semaphoreName 0 0 0 0"

definition lib_sys_signalSemaphore :: "u32 \<Rightarrow> call" where
  "lib_sys_signalSemaphore semaphoreName = syscall_stub SYS_signal_semaphore semaphoreName 0 0 0 0"

definition lib_sys_createSharedObject :: "u32 \<Rightarrow> u32 \<Rightarrow> u8 \<Rightarrow> u32 \<Rightarrow> call" where
  "lib_sys_createSharedObject shareName sz isWritable returned_shared_address = syscall_stub SYS_create_shared_object shareName sz (ucast isWritable) returned_shared_address 0"

definition lib_sys_getSharedObject :: "u32 \<Rightarrow> u32 \<Rightarrow> call" where
  "lib_sys_getSharedObject shareName returned_shared_address = syscall_stub SYS_get_shared_object shareName returned_shared_address 0 0 0"

definition lib_sys_freeSharedObject :: "u32 \<Rightarrow> call" where
  "lib_sys_freeSharedObject shareName = syscall_stub SYS_free_shared_object shareName 0 0 0 0"

definition lib_sys_getCurrentSharedAddress :: "call" where
  "lib_sys_getCurrentSharedAddress = syscall_stub SYS_get_current_shared_address 0 0 0 0 0"

definition lib_sys_getMaxShares :: "call" where
  "lib_sys_getMaxShares = syscall_stub SYS_get_max_shares 0 0 0 0 0"

definition lib_sys_create_env :: "u32 \<Rightarrow> u32 \<Rightarrow> call" where
  "lib_sys_create_env programName page_WS_size = syscall_stub SYS_create_env programName page_WS_size 0 0 0"

definition lib_sys_run_env :: "u32 \<Rightarrow> call" where
  "lib_sys_run_env envId = syscall_stub SYS_run_env envId 0 0 0 0"

definition lib_sys_free_env :: "u32 \<Rightarrow> call" where
  "lib_sys_free_env envId = syscall_stub SYS_free_env envId 0 0 0 0"

definition lib_sys_get_virtual_time :: "u32 \<Rightarrow> u32 \<Rightarrow> call" where
  "lib_sys_get_virtual_time result_low result_hi = syscall_stub SYS_get_virtual_time result_low result_hi 0 0 0"

definition lib_sys_moveMem :: "u32 \<Rightarrow> u32 \<Rightarrow> u32 \<Rightarrow> call" where
  "lib_sys_moveMem src_virtual_address dst_virtual_address sz = syscall_stub SYS_moveMem src_virtual_address dst_virtual_address sz 0 0"

definition lib_sys_rcr2 :: "call" where
  "lib_sys_rcr2 = syscall_stub SYS_rcr2 0 0 0 0 0"

definition lib_sys_bypassPageFault :: "u8 \<Rightarrow> call" where
  "lib_sys_bypassPageFault instrLength = syscall_stub SYS_bypassPageFault (ucast instrLength) 0 0 0 0"

definition lib_rsttst :: "call" where
  "lib_rsttst = syscall_stub SYS_rsttst 0 0 0 0 0"

definition lib_tst :: "u32 \<Rightarrow> u32 \<Rightarrow> u32 \<Rightarrow> u8 \<Rightarrow> u32 \<Rightarrow> call" where
  "lib_tst n v1 v2 c inverted = syscall_stub SYS_testNum n v1 v2 (scast c) inverted"

definition lib_chktst :: "u32 \<Rightarrow> call" where
  "lib_chktst n = syscall_stub SYS_chktst n 0 0 0 0"

definition lib_sys_set_uheap_strategy :: "u32 \<Rightarrow> call" where
  "lib_sys_set_uheap_strategy heapStrategy = syscall_stub SYS_set_heap_strategy heapStrategy 0 0 0 0"

text \<open>The functions that compare the strategy with a constant.\<close>

definition strategy_is :: "u32 \<Rightarrow> call" where
  "strategy_is strategy ctx s tf =
     rbind (syscall_stub SYS_get_heap_strategy 0 0 0 0 0 ctx s tf) (\<lambda>(r, s).
       case r of Call_returns ret \<Rightarrow> Inr (Call_returns (if ret = strategy then 1 else 0), s) | Call_left x \<Rightarrow> Inr (r, s))"

definition lib_sys_isUHeapPlacementStrategyFIRSTFIT :: call where
  "lib_sys_isUHeapPlacementStrategyFIRSTFIT = strategy_is UHP_PLACE_FIRSTFIT"

definition lib_sys_isUHeapPlacementStrategyBESTFIT :: call where
  "lib_sys_isUHeapPlacementStrategyBESTFIT = strategy_is UHP_PLACE_BESTFIT"

definition lib_sys_isUHeapPlacementStrategyNEXTFIT :: call where
  "lib_sys_isUHeapPlacementStrategyNEXTFIT = strategy_is UHP_PLACE_NEXTFIT"

definition lib_sys_isUHeapPlacementStrategyWORSTFIT :: call where
  "lib_sys_isUHeapPlacementStrategyWORSTFIT = strategy_is UHP_PLACE_WORSTFIT"

definition lib_destroy :: call where
  "lib_destroy = lib_sys_env_destroy 0"

definition lib_exit :: call where
  "lib_exit = lib_sys_env_exit"

section \<open>Sleeping\<close>

definition CYCLES_PER_MILLISEC :: u32 where "CYCLES_PER_MILLISEC = 10000"

text \<open>
  The loop of env\_sleep() on the readings of the time-stamp counter, given as a function of how many have
  been taken; it may go on forever. The result is the number of readings.
\<close>

partial_function (option) sleep_loop :: "(nat \<Rightarrow> u32 \<times> u32) \<Rightarrow> u32 \<times> u32 \<Rightarrow> u32 \<Rightarrow> u32 \<Rightarrow> nat \<Rightarrow> nat option" where
  "sleep_loop time baseTime time_in_cycles cycles_counter n =
     (if cycles_counter < time_in_cycles then
        let currentTime = time n;
            res_low = (fst currentTime - fst baseTime) AND 0xFFFFFFFF
        in sleep_loop time baseTime time_in_cycles res_low (n + 1)
      else Some n)"

definition env_sleep :: "(nat \<Rightarrow> u32 \<times> u32) \<Rightarrow> u32 \<Rightarrow> nat option" where
  "env_sleep time approxMilliSeconds =
     sleep_loop time (time 0) (approxMilliSeconds * CYCLES_PER_MILLISEC) 0 1"

section \<open>From the stub and back\<close>

lemmas stub_defs = lib_sys_set_uheap_strategy_def lib_sys_isUHeapPlacementStrategyFIRSTFIT_def
  lib_sys_isUHeapPlacementStrategyBESTFIT_def lib_sys_isUHeapPlacementStrategyNEXTFIT_def
  lib_sys_isUHeapPlacementStrategyWORSTFIT_def strategy_is_def lib_sys_allocate_page_def lib_exit_def lib_sys_env_exit_def

lemma call_frame_simps [simp]:
  "tf_cs (call_frame tf num a1 a2 a3 a4 a5) = tf_cs tf"
  "tf_trapno (call_frame tf num a1 a2 a3 a4 a5) = T_SYSCALL"
  "reg_eax (tf_regs (call_frame tf num a1 a2 a3 a4 a5)) = num"
  "reg_edx (tf_regs (call_frame tf num a1 a2 a3 a4 a5)) = a1"
  "reg_ecx (tf_regs (call_frame tf num a1 a2 a3 a4 a5)) = a2"
  "reg_ebx (tf_regs (call_frame tf num a1 a2 a3 a4 a5)) = a3"
  "reg_edi (tf_regs (call_frame tf num a1 a2 a3 a4 a5)) = a4"
  "reg_esi (tf_regs (call_frame tf num a1 a2 a3 a4 a5)) = a5"
  by (simp_all add: call_frame_def)

text \<open>The state in which the kernel carries out a call of environment \<open>e\<close>.\<close>

definition in_call :: "kstate \<Rightarrow> nat \<Rightarrow> Trapframe \<Rightarrow> kstate" where
  "in_call s e tf = upd_env s e (\<lambda>env. env\<lparr>env_tf := tf\<rparr>)"

lemma syscall_stub_eq:
  assumes "curenv s = Some e" and "tf_cs tf AND 3 = 3" and "tf' = call_frame tf num a1 a2 a3 a4 a5"
  shows "trap ctx s tf' = rbind (syscall ctx (in_call s e tf') num a1 a2 a3 a4 a5) (\<lambda>(out, v, s').
    if out \<noteq> Returns then Inr (Control out, s')
    else case curenv s' of
           None \<Rightarrow> Inl (Assert_failure ''curenv && curenv->env_status == ENV_READY'')
         | Some e' \<Rightarrow>
             if env_status (envs (set_eax s' (In_env e) v) e') \<noteq> ENV_READY
             then Inl (Assert_failure ''curenv && curenv->env_status == ENV_READY'')
             else Inr (Control (Runs e'), env_run (set_eax s' (In_env e) v) e'))"
proof -
  have "curenv (set_eax s' (In_env e) v) = curenv s'" for s' v by (simp add: upd_env_def)
  then show ?thesis using assms
    by (cases "syscall ctx (in_call s e tf') num a1 a2 a3 a4 a5")
      (auto simp: trap_def trap_dispatch_def Let_def trap_numbers in_call_def simp del: set_eax.simps split: prod.splits)
qed

lemma syscall_stub_returns:
  assumes "curenv s = Some e" and "tf_cs tf AND 3 = 3"
    and "syscall ctx (in_call s e (call_frame tf num a1 a2 a3 a4 a5)) num a1 a2 a3 a4 a5 = Inr (Returns, v, s')"
    and "curenv s' = Some e" and "env_status (envs s' e) = ENV_READY"
  shows "syscall_stub num a1 a2 a3 a4 a5 ctx s tf = Inr (Call_returns v, set_eax s' (In_env e) v)"
  using assms(1,3-5) by (simp add: syscall_stub_def syscall_stub_eq [OF assms(1,2) refl] env_run_def upd_env_def)

text \<open>An environment that runs and whose code is in user mode.\<close>

definition running :: "kstate \<Rightarrow> nat \<Rightarrow> Trapframe \<Rightarrow> bool" where
  "running s e tf \<longleftrightarrow> curenv s = Some e \<and> env_status (envs s e) = ENV_READY \<and> tf_cs tf AND 3 = 3"

lemma set_strategy_call:
  assumes "running s e tf"
  shows "\<exists>s'. lib_sys_set_uheap_strategy st ctx s tf = Inr (Call_returns 0, s')
    \<and> UHeapPlacementStrategy s' = st \<and> curenv s' = Some e \<and> env_status (envs s' e) = ENV_READY"
proof -
  let ?s = "in_call s e (call_frame tf SYS_set_heap_strategy st 0 0 0 0)"
  have r: "curenv s = Some e" "tf_cs tf AND 3 = 3" "env_status (envs s e) = ENV_READY" using assms by (auto simp: running_def)
  have "syscall ctx ?s SYS_set_heap_strategy st 0 0 0 0 = Inr (Returns, 0, ?s\<lparr>UHeapPlacementStrategy := st\<rparr>)"
    by (simp add: syscall_def syscall_numbers returning_def sys_set_uheap_strategy_def)
  from syscall_stub_returns [OF r(1,2) this] show ?thesis
    using r by (simp add: stub_defs in_call_def upd_env_def)
qed

lemma get_strategy_call:
  assumes "running s e tf"
  shows "\<exists>s'. strategy_is st ctx s tf = Inr (Call_returns (if UHeapPlacementStrategy s = st then 1 else 0), s')"
proof -
  let ?s = "in_call s e (call_frame tf SYS_get_heap_strategy 0 0 0 0 0)"
  have r: "curenv s = Some e" "tf_cs tf AND 3 = 3" "env_status (envs s e) = ENV_READY" using assms by (auto simp: running_def)
  have "syscall ctx ?s SYS_get_heap_strategy 0 0 0 0 0 = Inr (Returns, UHeapPlacementStrategy s, ?s)"
    by (simp add: syscall_def syscall_numbers sys_get_heap_strategy_def in_call_def upd_env_def)
  from syscall_stub_returns [OF r(1,2) this] show ?thesis
    using r by (simp add: strategy_is_def in_call_def upd_env_def)
qed

text \<open>
  The placement strategy a program sets with a system call is the one it is told by the calls that
  ask for it: from the stub through the trap frame, trap() and syscall() to the kernel and back,
  twice, exactly the test for the strategy set answers 1.
\<close>

theorem heap_strategy_set_and_asked:
  assumes "curenv s = Some e" and "env_status (envs s e) = ENV_READY" and "tf_cs tf AND 3 = 3" and "tf_cs tf' AND 3 = 3"
  shows "\<exists>s'. lib_sys_set_uheap_strategy st ctx s tf = Inr (Call_returns 0, s')
    \<and> (\<exists>t. lib_sys_isUHeapPlacementStrategyFIRSTFIT ctx' s' tf' = Inr (Call_returns (if st = 1 then 1 else 0), t))
    \<and> (\<exists>t. lib_sys_isUHeapPlacementStrategyBESTFIT ctx' s' tf' = Inr (Call_returns (if st = 2 then 1 else 0), t))
    \<and> (\<exists>t. lib_sys_isUHeapPlacementStrategyNEXTFIT ctx' s' tf' = Inr (Call_returns (if st = 3 then 1 else 0), t))
    \<and> (\<exists>t. lib_sys_isUHeapPlacementStrategyWORSTFIT ctx' s' tf' = Inr (Call_returns (if st = 4 then 1 else 0), t))"
proof -
  have "running s e tf" using assms by (simp add: running_def)
  then obtain s' where s': "lib_sys_set_uheap_strategy st ctx s tf = Inr (Call_returns 0, s')"
    "UHeapPlacementStrategy s' = st" "curenv s' = Some e" "env_status (envs s' e) = ENV_READY"
    using set_strategy_call by blast
  then have "running s' e tf'" using assms(4) by (simp add: running_def)
  then have "\<exists>t. strategy_is x ctx' s' tf' = Inr (Call_returns (if st = x then 1 else 0), t)" for x
    using get_strategy_call [of s' e tf' x ctx'] s'(2) by simp
  then show ?thesis
    using s'(1) by (simp add: stub_defs(2-5) UHP_PLACE_FIRSTFIT_def UHP_PLACE_BESTFIT_def UHP_PLACE_NEXTFIT_def UHP_PLACE_WORSTFIT_def)
qed

theorem heap_strategy_set_and_asked_witness:
  "\<exists>s'. lib_sys_set_uheap_strategy 3 sample_context calling_state calling_frame = Inr (Call_returns 0, s')
    \<and> (\<exists>t. lib_sys_isUHeapPlacementStrategyNEXTFIT sample_context s' calling_frame = Inr (Call_returns 1, t))
    \<and> (\<exists>t. lib_sys_isUHeapPlacementStrategyBESTFIT sample_context s' calling_frame = Inr (Call_returns 0, t))"
proof -
  have "curenv calling_state = Some 0" "env_status (envs calling_state 0) = ENV_READY" "tf_cs calling_frame AND 3 = 3"
    by (simp_all add: calling_state_def calling_frame_def)
  from heap_strategy_set_and_asked [OF this this(3), of 3 sample_context sample_context] show ?thesis by auto
qed

text \<open>
  The kernel drops the result of its function that allocates a page: whatever the address and the
  permissions, a call that comes back returns 0, also where the kernel has refused them.
\<close>

theorem allocate_page_reports_success:
  assumes "curenv s = Some e" and "tf_cs tf AND 3 = 3"
    and "lib_sys_allocate_page va perm ctx s tf = Inr (Call_returns v, s')"
  shows "v = 0"
proof -
  let ?n = "SYS_allocate_page"
  have sys: "syscall ctx t ?n va perm 0 0 0 = rbind (sys_allocate_page t va perm) (\<lambda>(_, s). returning s)" for t
    by (simp add: syscall_def syscall_numbers)
  have eax: "reg_eax (tf_regs (env_tf (envs (env_run (set_eax t (In_env e) 0) e') e))) = 0" for t e'
    by (simp add: env_run_def upd_env_def Let_def)
  show ?thesis
    using assms(1,3) unfolding lib_sys_allocate_page_def syscall_stub_def syscall_stub_eq [OF assms(1,2) refl] sys
    by (auto simp: rbind_def returning_def eax simp del: set_eax.simps split: sum.splits prod.splits option.splits if_splits)
qed

lemma env_exit_leaves:
  assumes inv: "sched_inv s" and c: "curenv s = Some e" and r: "e \<in> set (env_ready_queue s)" and b: "EnableBuffering s = 0"
    and u: "\<forall>x \<in> set (env_ready_queue s) \<union> set (env_new_queue s). env_id (envs s x) = env_id (envs s e) \<longrightarrow> x = e"
  shows "\<exists>out s'. env_exit s = Inr (out, s') \<and> (out = Command_prompt \<or> (\<exists>x. out = Runs x \<and> x \<noteq> e))
    \<and> e \<in> set (env_exit_queue s') \<and> e \<notin> set (env_ready_queue s') \<and> sched_inv s'"
proof -
  let ?id = "env_id (envs s e)"
  define t where "t = sched_insert_exit (sched_remove_ready s e) e"
  have "e \<notin> set (env_new_queue s)" using inv r by (auto simp: sched_inv_def)
  then have new: "find_id s ?id (env_new_queue s) = None" unfolding find_id_def find_None_iff using u by blast
  have "find_id s ?id (env_ready_queue s) \<noteq> None" unfolding find_id_def find_None_iff using r by blast
  then obtain x where x: "find_id s ?id (env_ready_queue s) = Some x" by blast
  then have "x \<in> set (env_ready_queue s) \<and> env_id (envs s x) = ?id" by (rule find_id_Some)
  then have "x = e" using u by blast
  then have ready: "find_id s ?id (env_ready_queue s) = Some e" using x by simp
  have t: "env_id (envs t e) = ?id" "curenv t = Some e" "EnableBuffering t = 0" "e \<in> set (env_exit_queue t)"
    using b c by (simp_all add: t_def sched_insert_exit_def sched_remove_ready_def set_status_def Let_def)
  have q: "e \<notin> set (env_ready_queue t)"
    using remove_ready_inv(2) [OF inv r] by (simp add: t_def sched_insert_exit_def Let_def)
  have ti: "sched_inv t" unfolding t_def using remove_ready_inv [OF inv r] by (intro insert_exit_inv)
  have "cleanup_if_buffering t e = Inr t" using t(3) by (simp add: cleanup_if_buffering_def)
  then have x: "sched_exit_env s ?id = Inr (fos_scheduler t)" using new ready t by (simp add: sched_exit_env_def t_def)
  obtain out s' where f: "fos_scheduler t = (out, s')" by fastforce
  have queues: "env_exit_queue (env_run v k) = env_exit_queue v" "env_ready_queue (env_run v k) = env_ready_queue v" for v k
    by (simp_all add: env_run_def Let_def)
  have o: "(out = Command_prompt \<or> (\<exists>x. out = Runs x \<and> x \<noteq> e)) \<and> env_exit_queue s' = env_exit_queue t
      \<and> env_ready_queue s' = env_ready_queue t"
  proof (cases "sched_next t")
    case None
    then show ?thesis using f by (auto simp: fos_scheduler_def Let_def)
  next
    case (Some n)
    then have "n \<in> set (env_ready_queue t)" using ti by (simp add: sched_inv_def)
    then have "n \<noteq> e" using q by blast
    then show ?thesis using f Some by (auto simp: fos_scheduler_def Let_def queues)
  qed
  then have "out \<noteq> Returns" by auto
  then have "env_exit s = Inr (out, s')" using x c f by (simp add: env_exit_def)
  moreover have "sched_inv s'" using fos_scheduler_inv [OF ti] f by simp
  ultimately show ?thesis using o t(4) q by simp
qed

text \<open>
  C24. exit() does not come back: when the scheduler's queues are consistent and the identifier is that of
  the caller alone, the caller is in the queue of exited environments and no longer ready, and
  another environment or the command prompt runs.
\<close>

theorem exit_does_not_return:
  assumes "sched_inv s" and "curenv s = Some e" and "e \<in> set (env_ready_queue s)" and "tf_cs tf AND 3 = 3"
    and "EnableBuffering s = 0"
    and "\<forall>x \<in> set (env_ready_queue s) \<union> set (env_new_queue s). env_id (envs s x) = env_id (envs s e) \<longrightarrow> x = e"
  shows "\<exists>out s'. lib_exit ctx s tf = Inr (Call_left (Control out), s') \<and> (out = Command_prompt \<or> (\<exists>x. out = Runs x \<and> x \<noteq> e))
    \<and> e \<in> set (env_exit_queue s') \<and> e \<notin> set (env_ready_queue s') \<and> sched_inv s'"
proof -
  let ?f = "call_frame tf SYS_env_exit 0 0 0 0 0"
  have i: "sched_inv (in_call s e ?f)" using assms(1) unfolding sched_inv_def in_call_def by (auto simp: upd_env_def split: option.splits)
  have same: "curenv (in_call s e ?f) = Some e" "e \<in> set (env_ready_queue (in_call s e ?f))"
    "EnableBuffering (in_call s e ?f) = 0"
    "\<forall>x \<in> set (env_ready_queue (in_call s e ?f)) \<union> set (env_new_queue (in_call s e ?f)).
      env_id (envs (in_call s e ?f) x) = env_id (envs (in_call s e ?f) e) \<longrightarrow> x = e"
    using assms(2,3,5,6) by (simp_all add: in_call_def) blast
  obtain out s' where x: "env_exit (in_call s e ?f) = Inr (out, s')"
    "out = Command_prompt \<or> (\<exists>x. out = Runs x \<and> x \<noteq> e)" "e \<in> set (env_exit_queue s')" "e \<notin> set (env_ready_queue s')" "sched_inv s'"
    using env_exit_leaves [OF i, of e] same by blast
  have "syscall ctx t SYS_env_exit 0 0 0 0 0 = leaving (env_exit t)" for t
    by (simp add: syscall_def syscall_numbers)
  then have "syscall ctx (in_call s e ?f) SYS_env_exit 0 0 0 0 0 = Inr (out, 0, s')"
    by (simp add: leaving_def x(1))
  then have "trap ctx s ?f = Inr (Control out, s')"
    using x(2) by (auto simp: syscall_stub_eq [OF assms(2,4) refl])
  then show ?thesis using x(2-5) assms(2) by (auto simp: stub_defs syscall_stub_def)
qed

definition exiting_state :: kstate where
  "exiting_state = sample_sched\<lparr>EnableBuffering := 0\<rparr>"

theorem exit_does_not_return_witness:
  "\<exists>out s'. lib_exit sample_context exiting_state calling_frame = Inr (Call_left (Control out), s')
    \<and> 3 \<in> set (env_exit_queue s') \<and> 3 \<notin> set (env_ready_queue s')"
proof -
  have "sched_inv exiting_state" by (simp add: exiting_state_def sample_sched_def sched_inv_def)
  moreover have "curenv exiting_state = Some 3" "3 \<in> set (env_ready_queue exiting_state)" "tf_cs calling_frame AND 3 = 3"
    "EnableBuffering exiting_state = 0"
    "\<forall>x \<in> set (env_ready_queue exiting_state) \<union> set (env_new_queue exiting_state).
      env_id (envs exiting_state x) = env_id (envs exiting_state 3) \<longrightarrow> x = 3"
    by (simp_all add: exiting_state_def sample_sched_def calling_frame_def)
  ultimately show ?thesis using exit_does_not_return [of exiting_state 3 calling_frame sample_context] by blast
qed

section \<open>Sleeping\<close>

lemma and_M32: "(x :: u32) AND 0xFFFFFFFF = x"
proof -
  have "(0xFFFFFFFF :: u32) = - 1" by simp
  then show ?thesis by (simp only: word_and_max)
qed

lemma sleep_loop_until:
  assumes "\<forall>j. n \<le> j \<and> j < k \<longrightarrow> fst (time j) - fst b < limit" and "\<not> fst (time k) - fst b < limit" and "n \<le> k"
    and "c < limit"
  shows "sleep_loop time b limit c n = Some (Suc k)"
  using assms
proof (induction "k - n" arbitrary: n c)
  case 0
  then have "n = k" by simp
  then show ?case using 0 by (subst sleep_loop.simps, subst sleep_loop.simps) (simp add: and_M32 Let_def)
next
  case (Suc d)
  then have "n < k" "fst (time n) - fst b < limit" by auto
  then show ?case using Suc by (subst sleep_loop.simps) (simp add: and_M32 Let_def)
qed

lemma sleep_loop_forever:
  assumes "\<forall>j. fst (time j) - fst b < limit" and "c < limit"
  shows "sleep_loop time b limit c n = None"
proof -
  have False if "sleep_loop time b limit c n = Some k" for k
  proof -
    have "c < limit \<longrightarrow> False"
      using that assms(1)
    proof (induction arbitrary: rule: sleep_loop.raw_induct [rotated, consumes 1])
      case (1 f time b limit c n k)
      then show ?case by (cases b) (fastforce simp: and_M32 Let_def split: if_splits)
    qed
    then show False using assms(2) by simp
  qed
  then show ?thesis by (cases "sleep_loop time b limit c n") auto
qed

text \<open>
  env\_sleep() returns exactly when some reading of the counter is at least the number of cycles,
  modulo 2^32, ahead of the first one, and then at the first such reading; for no time it takes one
  reading.
\<close>

theorem env_sleep_returns:
  "env_sleep time ms =
     (if ms * 10000 = 0 then Some 1
      else if \<exists>k\<ge>1. fst (time k) - fst (time 0) \<ge> ms * 10000
      then Some (Suc (LEAST k. 1 \<le> k \<and> fst (time k) - fst (time 0) \<ge> ms * 10000))
      else None)"
proof (cases "ms * 10000 = 0")
  case True
  then show ?thesis by (simp add: env_sleep_def CYCLES_PER_MILLISEC_def sleep_loop.simps)
next
  case False
  let ?l = "ms * 10000"
  let ?P = "\<lambda>k. 1 \<le> k \<and> fst (time k) - fst (time 0) \<ge> ?l"
  have pos: "0 < ?l" using False by (simp add: word_gt_0)
  have e: "env_sleep time ms = sleep_loop time (time 0) ?l 0 1" by (simp add: env_sleep_def CYCLES_PER_MILLISEC_def)
  show ?thesis
  proof (cases "\<exists>k. ?P k")
    case True
    then have P: "?P (LEAST k. ?P k)" by (rule LeastI_ex)
    have "\<forall>j. 1 \<le> j \<and> j < (LEAST k. ?P k) \<longrightarrow> fst (time j) - fst (time 0) < ?l"
      using not_less_Least by (metis (lifting) not_le)
    then have "sleep_loop time (time 0) ?l 0 1 = Some (Suc (LEAST k. ?P k))"
      using P pos by (intro sleep_loop_until) auto
    then show ?thesis using True False e by simp
  next
    case no: False
    have "fst (time j) - fst (time 0) < ?l" for j using no pos by (cases j) (auto simp: not_le)
    then have "sleep_loop time (time 0) ?l 0 1 = None" using pos by (intro sleep_loop_forever) auto
    then show ?thesis using no False e by auto
  qed
qed

end
