(* ===== verification/FOS_Start.thy ===== *)
theory FOS_Start
  imports FOS_BootInv FOS_Screen FOS_Clock FOS_Idt FOS_UserSys FOS_Command FOS_Placement
begin

text \<open>
  Starting the kernel and its panic: FOS\_initialize(), \_panic() and \_warn() of kern/init.c, which put the
  console, the memory manager, the environments, the gates, the interrupt controllers, the clock and
  the scheduler together. What the theorem on the start establishes is what the theorems of the other
  theories assume.
\<close>

section \<open>The machine\<close>

text \<open>
  The states of the parts, and what is fixed: the ports, the memory in which strings are found, the
  addresses the linker gives.
\<close>

record ('c, 'd) machine =
  m_console :: "'c console"
  m_kernel :: kstate
  m_tables :: descriptor_tables
  m_irq :: "'d irq_state"

record ('c, 'd) board =
  b_ports :: "'c ports"
  b_io :: "'d io_ports"
  b_memory :: bytes
  b_image :: boot_image
  b_entries :: "entry_point \<Rightarrow> u32"
  b_task_state :: u32

section \<open>Start\<close>

text \<open>
  Clearing the section of the uninitialised data: the variables without an initial value, and those whose
  initial value is zero. The first address of the kernel heap and the mask of the interrupt lines have
  other initial values.
\<close>

definition clear_variables :: "kstate \<Rightarrow> kstate" where
  "clear_variables s = s\<lparr>number_of_frames := 0, free_frame_list := [], modified_frame_list := [],
     ptr_page_directory := 0, phys_page_directory := 0, ptr_free_mem := 0, virtualAddresses := (\<lambda>_. 0),
     allocatedHAddresses := (\<lambda>_. \<lparr>kh_size = 0, kh_virtualAddress = 0, kh_empty = 0\<rparr>), kheap_idx := 0,
     disk_free_frame_list := [], env_free_list := [], curenv := None, env_ready_queue := [], env_new_queue := [],
     env_exit_queue := [], sched_next := None, scheduler_status := 0, PageRepAlgoType := 0, EnableBuffering := 0,
     EnableModifiedBuffer := 0, ModifiedBufferLength := 0, UHeapPlacementStrategy := 0, bypassInstrLength := 0,
     tstcnt := 0\<rparr>"

definition clear_bss :: "('c, 'd) machine \<Rightarrow> ('c, 'd) machine" where
  "clear_bss M = M\<lparr>
     m_console := (m_console M)\<lparr>serial_exists := False, addr_6845 := 0, crt_buf := 0, crt_pos := 0, kbd_shift := 0,
       cons_buf := replicate 512 0, cons_rpos := 0, cons_wpos := 0\<rparr>,
     m_kernel := clear_variables (m_kernel M),
     m_tables := (m_tables M)\<lparr>idt := (\<lambda>_. null_gate), ts_esp0 := 0, ts_ss0 := 0\<rparr>,
     m_irq := (m_irq M)\<lparr>didinit := False\<rparr>\<rparr>"

definition welcome_message :: "u8 list list" where
  "welcome_message =
     [[0x0A, 0x0A, 0x0A],
      [9, 9] @ replicate 65 0x21 @ [0x0A],
      [9, 9, 0x21, 0x21] @ replicate 61 0x20 @ [0x21, 0x21, 0x0A],
      [9, 9] @ ascii ''!!                   !! FCIS says HELLO !!                     !!'' @ [0x0A],
      [9, 9, 0x21, 0x21] @ replicate 61 0x20 @ [0x21, 0x21, 0x0A],
      [9, 9] @ replicate 65 0x21 @ [0x0A],
      [0x0A, 0x0A, 0x0A, 0x0A]]"

fun print_lines :: "'c ports \<Rightarrow> bytes \<Rightarrow> u8 list list \<Rightarrow> 'c console \<Rightarrow> 'c console result" where
  "print_lines P m [] c = Inr c"
| "print_lines P m (l # ls) c = rbind (kern_cprintf P m l [] c) (\<lambda>(n, c). print_lines P m ls c)"

definition print_welcome_message :: "'c ports \<Rightarrow> bytes \<Rightarrow> 'c console \<Rightarrow> 'c console result" where
  "print_welcome_message P m c = print_lines P m welcome_message c"

text \<open>What detect\_memory() reads of the CMOS memory.\<close>

definition read_memory_sizes :: "'d io_ports \<Rightarrow> 'd irq_state \<Rightarrow> (u32 \<times> u32 \<times> u32) \<times> 'd irq_state" where
  "read_memory_sizes P q =
     (let (base, q) = nvram_read P 0x15 q; (ext, q) = nvram_read P 0x17 q; (other, q) = nvram_read P 0x34 q
      in ((base, ext, other), q))"

text \<open>FOS\_initialize() up to the loop that runs the command prompt.\<close>

definition FOS_initialize :: "('c, 'd) board \<Rightarrow> ('c, 'd) machine \<Rightarrow> ('c, 'd) machine result" where
  "FOS_initialize B M =
     (let M = clear_bss M in
      rbind (console_initialize (b_ports B) (b_memory B) (m_console M)) (\<lambda>c.
      rbind (print_welcome_message (b_ports B) (b_memory B) c) (\<lambda>c.
      let ((base, ext, other), q) = read_memory_sizes (b_io B) (m_irq M);
          s = detect_memory (m_kernel M) base ext other in
      rbind (initialize_kernel_VM (b_image B) s) (\<lambda>s.
      rbind (initialize_paging s) (\<lambda>s.
      let s = env_init s;
          t = idt_init (b_entries B) (b_task_state B) (m_tables M);
          s = setPageReplacmentAlgorithmLRU s;
          s = setUHeapPlacementStrategyFIRSTFIT s;
          s = enableBuffering s 0;
          s = enableModifiedBuffer s 0;
          q = kclock_start (b_io B) (pic_init (b_io B) q);
          s = sched_init s
      in Inr \<lparr>m_console = c, m_kernel = s, m_tables = t, m_irq = q\<rparr>)))))"

section \<open>Panic\<close>

text \<open>
  The message: where, what, and the end of the line. The file name is an argument of the format, the
  string literal \_\_FILE\_\_. The variable panicstr is written and never read.
\<close>

definition print_message :: "u8 list \<Rightarrow> 'c ports \<Rightarrow> bytes \<Rightarrow> va \<Rightarrow> u32 \<Rightarrow> u8 list \<Rightarrow> va list \<Rightarrow> 'c console \<Rightarrow> 'c console result" where
  "print_message heading P m file line fmt args c =
     rbind (kern_cprintf P m heading [file, Word line] c) (\<lambda>(_, c).
     rbind (kern_vcprintf P m fmt args c) (\<lambda>(_, c).
     rbind (kern_cprintf P m [0x0A] [] c) (\<lambda>(_, c). Inr c)))"

definition panic_heading :: "u8 list" where
  "panic_heading = [0x0A] @ ascii ''kernel panic at %s:%d: ''"

definition warn_heading :: "u8 list" where
  "warn_heading = [0x0A] @ ascii ''kernel warning at %s:%d: ''"

definition kernel_panic ::
  "'c ports \<Rightarrow> bytes \<Rightarrow> va \<Rightarrow> u32 \<Rightarrow> u8 list \<Rightarrow> va list \<Rightarrow> 'c console \<Rightarrow> kstate \<Rightarrow> ('c console \<times> outcome \<times> kstate) result"
where
  "kernel_panic P m file line fmt args c s =
     rbind (print_message panic_heading P m file line fmt args c) (\<lambda>c.
     rbind (case curenv s of
              None \<Rightarrow> Inr (Returns, s)
            | Some e \<Rightarrow> if env_status (envs s e) = ENV_READY then env_exit s else Inr (Returns, s)) (\<lambda>(out, s).
     Inr (c, if out = Returns then fos_scheduler s else (out, s))))"

definition kernel_warn :: "'c ports \<Rightarrow> bytes \<Rightarrow> va \<Rightarrow> u32 \<Rightarrow> u8 list \<Rightarrow> va list \<Rightarrow> 'c console \<Rightarrow> 'c console result" where
  "kernel_warn P m file line fmt args c = print_message warn_heading P m file line fmt args c"

section \<open>Printing\<close>

lemma after_text_app: "after_text a (after_text b r) = after_text (a @ b) r"
  by (cases r) (auto simp: after_text_def map_sum_def split: sum.splits)

lemma plain_prefix:
  "0 \<notin> set l \<Longrightarrow> 0x25 \<notin> set l \<Longrightarrow> format_text str (l @ fmt) ap = after_text (map ucast l) (format_text str fmt ap)"
proof (induction l)
  case Nil
  show ?case by (cases "format_text str fmt ap") (auto simp: after_text_def map_sum_def split: sum.splits)
qed (auto simp: format_text.simps after_text_app)

lemma plain_text: "0 \<notin> set l \<Longrightarrow> 0x25 \<notin> set l \<Longrightarrow> format_text str l ap = Some (Inr (map ucast l))"
  using plain_prefix [of l str "[]" ap] by (simp add: format_text.simps after_text_def)

lemma literal_argument:
  assumes "0 \<notin> set xs" and "length xs < 2 ^ 30"
  shows "format_text str (0x25 # 0x73 # fmt) (Literal xs # ap) = after_text (map scast xs) (format_text str fmt ap)"
proof -
  have "shown_char False = scast" by (auto simp: shown_char_def Let_def)
  then have "convert_text str 0x73 fresh_spec (Literal xs # ap) = Some (Inr (map scast xs, ap))"
    using assms by (simp add: convert_text_def fresh_spec_def va_pointer_def string_of_def string_text_def Let_def)
  then show ?thesis by (simp add: format_text.simps(2) conversions_def ascii_def)
qed

lemma no_strings: "strings_in m (\<lambda>_. None)"
  by (simp add: strings_in_def)

lemma cprintf_plain:
  assumes "video_memory P" and "on_screen c" and "0 \<notin> set l" and "0x25 \<notin> set l"
  shows "\<exists>c'. kern_cprintf P m l [] c = Inr (0, c') \<and> view P c' = fold type_char (map ucast l) (view P c) \<and> redrawn c c' \<and> on_screen c'"
  by (rule kern_cprintf_text [OF assms(1,2) no_strings plain_text [OF assms(3,4)]])

lemma print_lines_ok:
  assumes P: "video_memory P"
  shows "on_screen c \<Longrightarrow> \<forall>l \<in> set ls. 0 \<notin> set l \<and> 0x25 \<notin> set l \<Longrightarrow> \<exists>c'. print_lines P m ls c = Inr c' \<and> on_screen c'"
proof (induction ls arbitrary: c)
  case (Cons l ls)
  obtain c1 where c1: "kern_cprintf P m l [] c = Inr (0, c1)" "on_screen c1"
    using cprintf_plain [OF P Cons.prems(1), of l m] Cons.prems(2) by auto
  then show ?case using Cons.IH [OF c1(2)] Cons.prems(2) by simp
qed simp

lemma welcome_plain: "\<forall>l \<in> set welcome_message. 0 \<notin> set l \<and> 0x25 \<notin> set l"
  by code_simp

lemma console_ok:
  assumes P: "video_memory P" and c: "on_screen (serial_init P (kbd_init (cga_init P c)))"
  shows "\<exists>c'. console_initialize P m c = Inr c' \<and> on_screen c'"
proof -
  have "\<forall>l \<in> {ascii ''Serial port does not exist!'' @ [0x0A]}. 0 \<notin> set l \<and> 0x25 \<notin> set l" by code_simp
  then show ?thesis
    using cprintf_plain [OF P c, of "ascii ''Serial port does not exist!'' @ [0x0A]" m] c
    by (auto simp: console_initialize_def Let_def)
qed

lemma message_text:
  assumes P: "video_memory P" and c: "on_screen c" and m: "strings_in m str"
    and h: "format_text str heading [file, Word line] = Some (Inr place)" and f: "format_text str fmt args = Some (Inr reason)"
  shows "\<exists>c'. print_message heading P m file line fmt args c = Inr c'
    \<and> view P c' = fold type_char (place @ reason @ [0x0A]) (view P c) \<and> on_screen c'"
proof -
  obtain c1 where c1: "kern_cprintf P m heading [file, Word line] c = Inr (0, c1)" "on_screen c1"
      "view P c1 = fold type_char place (view P c)" using kern_cprintf_text [OF P c m h] by blast
  obtain c2 where c2: "kern_vcprintf P m fmt args c1 = Inr (0, c2)" "on_screen c2" "view P c2 = fold type_char reason (view P c1)"
    using kern_cprintf_text [OF P c1(2) m f] by (auto simp: kern_cprintf_def)
  obtain c3 where "kern_cprintf P m [0x0A] [] c2 = Inr (0, c3)" "on_screen c3" "view P c3 = fold type_char [0x0A] (view P c2)"
    using cprintf_plain [OF P c2(2), of "[0x0A]" m] by auto
  then show ?thesis using c1 c2 by (simp add: print_message_def)
qed

section \<open>Environments\<close>

text \<open>Nothing that the heap is about differs.\<close>

definition same_heap :: "kstate \<Rightarrow> kstate \<Rightarrow> bool" where
  "same_heap s s' \<longleftrightarrow> phys s' = phys s \<and> phys_page_directory s' = phys_page_directory s \<and> virtualAddresses s' = virtualAddresses s
     \<and> ptr_page_directory s' = ptr_page_directory s \<and> number_of_frames s' = number_of_frames s
     \<and> free_frame_list s' = free_frame_list s \<and> frames_info s' = frames_info s \<and> firstFreeVAInKHeap s' = firstFreeVAInKHeap s"

lemma same_heap_inv: "same_heap s s' \<Longrightarrow> kheap_inv s' = kheap_inv s"
  by (rule kheap_inv_cong) (simp_all add: same_heap_def)

text \<open>The loop of env\_init() over the environments \<open>xs\<close>.\<close>

lemma env_init_loop:
  fixes xs :: "nat list"
  defines "step \<equiv> \<lambda>iEnv s. let s = upd_env s iEnv (\<lambda>env. env\<lparr>env_status := ENV_FREE, env_id := 0\<rparr>)
    in s\<lparr>env_free_list := seq_insert_head (env_free_list s) iEnv\<rparr>"
  shows "same_heap s (fold step xs s) \<and> env_free_list (fold step xs s) = rev xs @ env_free_list s
    \<and> (\<forall>e. e \<in> set xs \<or> env_status (envs s e) = ENV_FREE \<and> env_id (envs s e) = 0 \<longrightarrow>
          env_status (envs (fold step xs s) e) = ENV_FREE \<and> env_id (envs (fold step xs s) e) = 0)"
proof (induction xs arbitrary: s)
  case (Cons x xs)
  let ?s = "step x s"
  have a: "same_heap s ?s" "env_free_list ?s = x # env_free_list s"
      "env_status (envs ?s e) = (if e = x then ENV_FREE else env_status (envs s e))"
      "env_id (envs ?s e) = (if e = x then 0 else env_id (envs s e))" for e
    by (simp_all add: step_def Let_def upd_env_def same_heap_def)
  have b: "fold step (x # xs) s = fold step xs ?s" by simp
  note h = Cons.IH [of ?s]
  have "same_heap s (fold step xs ?s)" using h a(1) by (simp add: same_heap_def)
  moreover have "env_free_list (fold step xs ?s) = rev (x # xs) @ env_free_list s" using h a(2) by simp
  moreover have "env_status (envs (fold step xs ?s) e) = ENV_FREE \<and> env_id (envs (fold step xs ?s) e) = 0"
    if "e \<in> set (x # xs) \<or> env_status (envs s e) = ENV_FREE \<and> env_id (envs s e) = 0" for e
    using h a(3,4) [of e] that by auto
  ultimately show ?case unfolding b by blast
qed (simp add: same_heap_def)

lemma env_init_free:
  assumes "env_free_list s = []"
  shows "same_heap s (env_init s)" "env_free_list (env_init s) = [0..<unat NENV]"
    "e < unat NENV \<Longrightarrow> env_status (envs (env_init s) e) = ENV_FREE \<and> env_id (envs (env_init s) e) = 0"
  using env_init_loop [of s "rev [0..<unat NENV]"] assms unfolding env_init_def by auto

lemma memory_sizes_mask: "irq_mask_8259A (snd (read_memory_sizes P q)) = irq_mask_8259A q"
proof -
  have r: "irq_mask_8259A (snd (nvram_read P r q)) = irq_mask_8259A q" for r q
    by (simp add: nvram_read_def mc146818_read_def io_inb_def io_outb_def split_beta Let_def)
  show ?thesis by (simp add: read_memory_sizes_def split_beta Let_def r)
qed

section \<open>Properties\<close>

text \<open>
  The kernel state after detect\_memory(), with the sizes the CMOS memory of the machine has.
\<close>

definition memory_detected :: "('c, 'd) board \<Rightarrow> ('c, 'd) machine \<Rightarrow> kstate" where
  "memory_detected B M =
     (let (base, ext, other) = fst (read_memory_sizes (b_io B) (m_irq (clear_bss M)))
      in detect_memory (m_kernel (clear_bss M)) base ext other)"

text \<open>
  C10. The start of the kernel: on a machine with enough memory behind the kernel image and the cursor on
  the screen, FOS\_initialize() reaches the command prompt. Then the invariants of the kernel
  heap and of the scheduler hold, which the theorems on the heap, on faults and on the scheduler
  assume; all environments are free; pages are replaced by LRU without buffering and user memory is
  placed by first fit; the gates are those of idt\_init(); only the lines of the timer and of the
  second controller are enabled, with a tick of 20 ms; the scheduler has nothing to run.
\<close>

theorem FOS_initialize_ready:
  assumes "video_memory (b_ports B)"
    and "on_screen (serial_init (b_ports B) (kbd_init (cga_init (b_ports B) (m_console (clear_bss M)))))"
    and "clock_devices (b_io B) devices" and "irq_mask_8259A (m_irq M) = initial_irq_mask"
    and "firstFreeVAInKHeap (m_kernel M) = KERNEL_HEAP_START" and "boot_ready (b_image B) (memory_detected B M)"
  shows "\<exists>M'. FOS_initialize B M = Inr M' \<and> on_screen (m_console M')
    \<and> kheap_inv (m_kernel M') \<and> sched_inv (m_kernel M') \<and> fst (fos_scheduler (m_kernel M')) = Command_prompt
    \<and> env_free_list (m_kernel M') = [0..<unat NENV] \<and> (\<forall>e < unat NENV. env_status (envs (m_kernel M') e) = ENV_FREE)
    \<and> isPageReplacmentAlgorithmLRU (m_kernel M') \<and> EnableBuffering (m_kernel M') = 0
    \<and> UHeapPlacementStrategy (m_kernel M') = UHP_PLACE_FIRSTFIT
    \<and> m_tables M' = idt_init (b_entries B) (b_task_state B) (m_tables (clear_bss M))
    \<and> pic_mask (pic_master (devices (irq_dev (m_irq M')))) = 0xFA \<and> pic_mask (pic_slave (devices (irq_dev (m_irq M')))) = 0xFF
    \<and> t_reload (devices (irq_dev (m_irq M'))) = Some 23864"
proof -
  let ?M = "clear_bss M"
  obtain base ext other q where sizes: "read_memory_sizes (b_io B) (m_irq ?M) = ((base, ext, other), q)" by (metis surj_pair)
  define s where "s = detect_memory (m_kernel ?M) base ext other"
  have ready: "boot_ready (b_image B) s" using assms(6) by (simp add: memory_detected_def sizes s_def)
  have fields: "firstFreeVAInKHeap s = KERNEL_HEAP_START" "virtualAddresses s = (\<lambda>_. 0)" "env_free_list s = []"
    using assms(5) by (simp_all add: s_def detect_memory_def clear_bss_def clear_variables_def Let_def)
  obtain c1 where c1: "console_initialize (b_ports B) (b_memory B) (m_console ?M) = Inr c1" "on_screen c1"
    using console_ok [OF assms(1,2)] by blast
  obtain c2 where c2: "print_welcome_message (b_ports B) (b_memory B) c1 = Inr c2" "on_screen c2"
    using print_lines_ok [OF assms(1) c1(2) welcome_plain] by (auto simp: print_welcome_message_def)
  obtain s1 s2 where k: "initialize_kernel_VM (b_image B) s = Inr s1" "initialize_paging s1 = Inr s2" "kheap_inv s2"
      "env_free_list s2 = []" using boot_heap_built [OF ready fields(1,2)] fields(3) by auto
  note e = env_init_free [OF k(4)]
  define s3 where "s3 = sched_init (enableModifiedBuffer (enableBuffering (setUHeapPlacementStrategyFIRSTFIT
    (setPageReplacmentAlgorithmLRU (env_init s2))) 0) 0)"
  have s3: "same_heap (env_init s2) s3" "env_free_list s3 = env_free_list (env_init s2)" "envs s3 = envs (env_init s2)"
      "sched_inv s3" "sched_next s3 = None" "isPageReplacmentAlgorithmLRU s3" "EnableBuffering s3 = 0"
      "UHeapPlacementStrategy s3 = UHP_PLACE_FIRSTFIT"
    by (simp_all add: s3_def sched_init_def enableModifiedBuffer_def enableBuffering_def setUHeapPlacementStrategyFIRSTFIT_def
        setPageReplacmentAlgorithmLRU_def isPageReplacmentAlgorithmLRU_def same_heap_def sched_inv_def)
  have heap: "kheap_inv s3" using same_heap_inv [OF s3(1)] same_heap_inv [OF e(1)] k(3) by simp
  have prompt: "fst (fos_scheduler s3) = Command_prompt" by (simp add: fos_scheduler_def Let_def s3(5))
  have "irq_mask_8259A q = initial_irq_mask"
    using memory_sizes_mask [of "b_io B" "m_irq ?M", unfolded sizes] assms(4) by (simp add: clear_bss_def)
  note dv = kclock_start_hardware [OF assms(3) this, unfolded Let_def]
  have run: "FOS_initialize B M = Inr \<lparr>m_console = c2, m_kernel = s3,
      m_tables = idt_init (b_entries B) (b_task_state B) (m_tables ?M), m_irq = kclock_start (b_io B) (pic_init (b_io B) q)\<rparr>"
    by (simp add: FOS_initialize_def Let_def c1(1) c2(1) sizes k(1,2) flip: s_def s3_def)
  show ?thesis unfolding run using c2(2) heap s3 e(2,3) prompt dv by simp
qed

text \<open>A display whose memory is a map; the other ports answer 0.\<close>

definition start_ports :: "(u32 \<Rightarrow> u16) ports" where
  "start_ports = \<lparr>port_in = \<lambda>p d. (0, d), port_out = \<lambda>p v d. d, video_ld = \<lambda>a d. d a, video_st = \<lambda>a v d. d(a := v)\<rparr>"

text \<open>
  A machine with 64 MB: the CMOS register pair 0x34 holds 768, the 48 MB behind the first 16 in units
  of 64 KB. The devices are the clock, the controllers and the selected CMOS register.
\<close>

definition cmos_clock :: "(irq_hardware \<times> u8) io_ports" where
  "cmos_clock =
     \<lparr>io_in = (\<lambda>port (h, r). if port = 0x71 then (if r = 0x35 then 3 else 0, (h, r))
         else (count_byte h, (h\<lparr>t_high_next := \<not> t_high_next h\<rparr>, r))),
      io_out = (\<lambda>port v (h, r). if port = 0x70 then (h, v) else (hardware_out port v h, r))\<rparr>"

definition sample_board :: "(u32 \<Rightarrow> u16, irq_hardware \<times> u8) board" where
  "sample_board = \<lparr>b_ports = start_ports, b_io = cmos_clock, b_memory = (\<lambda>_. 0), b_image = sample_image,
     b_entries = sample_addr, b_task_state = 0xF0160000\<rparr>"

definition sample_machine :: "(u32 \<Rightarrow> u16, irq_hardware \<times> u8) machine" where
  "sample_machine = \<lparr>m_console = blank_console 0, m_kernel = power_on, m_tables = initial_tables,
     m_irq = \<lparr>irq_dev = (irq_dev sample_irq_state, 0), irq_mask_8259A = initial_irq_mask, didinit = False\<rparr>\<rparr>"

lemma boot_ready_cong:
  "ptr_free_mem s' = ptr_free_mem s \<Longrightarrow> number_of_frames s' = number_of_frames s \<Longrightarrow> phys s' = phys s \<Longrightarrow>
    boot_ready img s' = boot_ready img s"
  by (simp add: boot_ready_def boot_room_def kernel_end_def)

theorem FOS_initialize_ready_witness:
  "\<exists>M'. FOS_initialize sample_board sample_machine = Inr M' \<and> kheap_inv (m_kernel M')
     \<and> env_free_list (m_kernel M') = [0..<unat NENV] \<and> pic_mask (pic_master (fst (irq_dev (m_irq M')))) = 0xFA"
proof -
  have b: "video_memory (b_ports sample_board)" "clock_devices (b_io sample_board) fst"
      "irq_mask_8259A (m_irq sample_machine) = initial_irq_mask" "firstFreeVAInKHeap (m_kernel sample_machine) = KERNEL_HEAP_START"
    by (simp_all add: sample_board_def sample_machine_def start_ports_def video_memory_def clock_devices_def cmos_clock_def power_on_def)
  have c: "on_screen (serial_init (b_ports sample_board) (kbd_init (cga_init (b_ports sample_board) (m_console (clear_bss sample_machine)))))"
    by (simp add: sample_board_def sample_machine_def start_ports_def on_screen_def serial_init_def kbd_init_def cga_init_def
        inb_def outb_def Let_def clear_bss_def)
  have "fst (read_memory_sizes (b_io sample_board) (m_irq (clear_bss sample_machine))) = (0, 0, 768)"
    by (simp add: read_memory_sizes_def nvram_read_def mc146818_read_def IO_RTC_def io_inb_def io_outb_def sample_board_def
        sample_machine_def cmos_clock_def clear_bss_def Let_def)
  then have m: "memory_detected sample_board sample_machine = detect_memory (clear_variables power_on) 0 0 768"
    by (simp add: memory_detected_def clear_bss_def sample_machine_def)
  have "number_of_frames (detect_memory (clear_variables power_on) 0 0 768) = number_of_frames power_on"
    by (simp add: detect_memory_def ROUNDDOWN_def PAGE_SIZE_def power_on_def)
  then have "boot_ready sample_image (detect_memory (clear_variables power_on) 0 0 768) = boot_ready sample_image power_on"
    by (intro boot_ready_cong) (simp_all add: detect_memory_def Let_def clear_variables_def power_on_def)
  then have r: "boot_ready (b_image sample_board) (memory_detected sample_board sample_machine)"
    using power_on_ready by (simp add: m) (simp add: sample_board_def)
  show ?thesis using FOS_initialize_ready [OF b(1) c b(2-4) r] by blast
qed

text \<open>
  C34. A panic while a program runs: the kernel writes where and why on the screen, and the program is then in
  the queue of exited environments and no longer ready; another environment or the command prompt
  runs, and the scheduler's queues are consistent.
\<close>

theorem panic_ends_environment:
  assumes "video_memory P" and "on_screen c" and "strings_in m str"
    and "format_text str panic_heading [file, Word line] = Some (Inr place)" and "format_text str fmt args = Some (Inr reason)"
    and "sched_inv s" and "curenv s = Some e" and "e \<in> set (env_ready_queue s)" and "EnableBuffering s = 0"
    and "\<forall>x \<in> set (env_ready_queue s) \<union> set (env_new_queue s). env_id (envs s x) = env_id (envs s e) \<longrightarrow> x = e"
  shows "\<exists>c' out s'. kernel_panic P m file line fmt args c s = Inr (c', out, s')
    \<and> view P c' = fold type_char (place @ reason @ [0x0A]) (view P c)
    \<and> (out = Command_prompt \<or> (\<exists>x. out = Runs x \<and> x \<noteq> e))
    \<and> e \<in> set (env_exit_queue s') \<and> e \<notin> set (env_ready_queue s') \<and> sched_inv s'"
proof -
  obtain c' where c': "print_message panic_heading P m file line fmt args c = Inr c'"
      "view P c' = fold type_char (place @ reason @ [0x0A]) (view P c)"
    using message_text [OF assms(1-5)] by blast
  obtain out s' where x: "env_exit s = Inr (out, s')" "out = Command_prompt \<or> (\<exists>x. out = Runs x \<and> x \<noteq> e)"
      "e \<in> set (env_exit_queue s')" "e \<notin> set (env_ready_queue s')" "sched_inv s'"
    using env_exit_leaves [OF assms(6-10)] by blast
  have "env_status (envs s e) = ENV_READY" using assms(6,8) by (simp add: sched_inv_def)
  moreover have "out \<noteq> Returns" using x(2) by auto
  ultimately have "kernel_panic P m file line fmt args c s = Inr (c', out, s')"
    by (simp add: kernel_panic_def c'(1) assms(7) x(1))
  then show ?thesis using c'(2) x(2-5) by blast
qed

theorem panic_ends_environment_witness:
  "\<exists>c' out s'. kernel_panic ram_ports (\<lambda>_. 0) (Literal (ascii ''kern/kheap.c'')) 60 (ascii ''no %d'') [Word 7] (blank_console 0) exiting_state
       = Inr (c', out, s') \<and> 3 \<in> set (env_exit_queue s') \<and> 3 \<notin> set (env_ready_queue s')"
proof -
  have c: "on_screen (blank_console 0)" by (simp add: on_screen_def blank_console_def)
  let ?a = "0x0A # ascii ''kernel panic at ''" and ?f = "ascii ''kern/kheap.c''"
  have h: "panic_heading = ?a @ 0x25 # 0x73 # ascii '':%d: ''" by code_simp
  have p: "0 \<notin> set ?a" "0x25 \<notin> set ?a" "0 \<notin> set ?f" by code_simp+
  have n: "format_text (\<lambda>_. None) (ascii '':%d: '') [Word 60] = Some (Inr (map ucast (ascii '':60: '')))" by code_simp
  have f: "format_text (\<lambda>_. None) panic_heading [Literal ?f, Word 60]
        = Some (Inr (map ucast ?a @ map scast ?f @ map ucast (ascii '':60: '')))"
    unfolding h plain_prefix [OF p(1,2)] using literal_argument [OF p(3), of "\<lambda>_. None" "ascii '':%d: ''" "[Word 60]"] n
    by (simp add: after_text_def ascii_def)
  have r: "format_text (\<lambda>_. None) (ascii ''no %d'') [Word 7] = Some (Inr (map ucast (ascii ''no 7'')))" by code_simp
  have s: "sched_inv exiting_state" "curenv exiting_state = Some 3" "3 \<in> set (env_ready_queue exiting_state)"
      "EnableBuffering exiting_state = 0"
      "\<forall>x \<in> set (env_ready_queue exiting_state) \<union> set (env_new_queue exiting_state).
         env_id (envs exiting_state x) = env_id (envs exiting_state 3) \<longrightarrow> x = 3"
    by (simp_all add: exiting_state_def sample_sched_def sched_inv_def)
  show ?thesis using panic_ends_environment [OF ram_video c no_strings f r s] by blast
qed

end
