(* ===== verification/FOS_TrapFault.thy ===== *)
theory FOS_TrapFault
  imports FOS_Trap FOS_Placement
begin

text \<open>
  A page fault of a program, from the trap to the instruction that caused it: trap(), trap\_dispatch(),
  fault\_handler() and page\_fault\_handler() composed. No new code is modelled here.
\<close>

section \<open>States that agree on what the fault handler reads\<close>








section \<open>The handler of a page fault\<close>





section \<open>Properties\<close>





end
