(* ===== verification/FOS_WriteBack.thy ===== *)
theory FOS_WriteBack
  imports FOS_Placement
begin

text \<open>
  Writing a modified page back: pf\_update\_env\_page() of kern/file\_manager.c followed through memory, the
  eviction of a modified victim, and the theorem that a page which was modified, evicted and faulted
  in again has the contents it had.
\<close>

section \<open>The window at USER\_LIMIT\<close>

text \<open>
  pf\_update\_env\_page() maps the frame at USER\_LIMIT, an address in the unused part of the 4 MB of the
  kernel stack. The table of the kernel stack is in frame \<open>K\<close>, which the directories of the kernel and
  of the environment share; its first entry is free.
\<close>

definition window :: "kstate \<Rightarrow> u32 \<Rightarrow> u32 \<Rightarrow> bool" where
  "window s dir K \<longleftrightarrow> upde s dir 958 AND PERM_PRESENT = PERM_PRESENT \<and> PPN (upde s dir 958) = K
     \<and> phys s (kdir s) 958 = upde s dir 958 \<and> K < number_of_frames s \<and> kframe s (static_va K) = Some K
     \<and> KERNEL_BASE \<le> static_va K \<and> \<not> kernel_frame s K \<and> virtualAddresses s K = 0 \<and> phys s K 0 = 0"

lemma window_addr: "PDX USER_LIMIT = 958" "PTX USER_LIMIT = 0" "CHECK_IF_KERNEL_ADDRESS USER_LIMIT"
  "ROUNDDOWN USER_LIMIT PAGE_SIZE = USER_LIMIT" "PGOFF USER_LIMIT = 0" "KERNEL_BASE \<le> p \<Longrightarrow> p \<noteq> 0"
  by (auto simp: CHECK_IF_KERNEL_ADDRESS_def PDX_def PTX_def PGOFF_def ROUNDDOWN_def fos_consts)

text \<open>The state \<open>x\<close> differs from \<open>s\<close> in memory only in that the window's entry is \<open>v\<close>.\<close>

lemma window_access:
  assumes inv: "kheap_inv s" and us: "uspace s dir" and w: "window s dir K"
    and x: "phys x = (phys s)(K := (phys s K)(0 := v))" "phys_page_directory x = phys_page_directory s"
      "virtualAddresses x = virtualAddresses s" "number_of_frames x = number_of_frames s"
  shows "get_page_table x dir USER_LIMIT = Inr (TABLE_IN_MEMORY, static_va K)"
    and "kload x (static_va K) 0 = Inr v" and "kframe x (static_va K) = Some K"
    and "kframe x USER_LIMIT = (if v AND PERM_PRESENT = 0 then None else Some (PPN v))"
proof -
  have w': "\<not> kernel_frame s K" "virtualAddresses s K = 0" "KERNEL_BASE \<le> static_va K" "kframe s (static_va K) = Some K"
    using w by (simp_all add: window_def)
  let ?t = "phys_fill s K ((phys s K)(0 := v))"
  note fl = fill_space [OF inv us w'(1,2), where pg = "(phys s K)(0 := v)"]
  have kf: "kframe x = kframe ?t" by (rule kframe_cong) (simp_all add: x phys_fill_def)
  have dk: "KERNEL_BASE \<le> dir" using us heap_page_kernel by (simp add: uspace_def)
  have d: "kframe x dir = Some (udir s dir)" using kf fl(7) [OF dk] uspace_dir(1) [OF inv us] by simp
  have ne: "udir s dir \<noteq> K" "kdir s \<noteq> K" using uspace_dir(3) [OF inv us] w'(1,2) by (auto simp: kernel_frame_def)
  have pde: "kload x dir 958 = Inr (upde s dir 958)" using ne(1) by (simp add: kload_Inr [OF d] x(1) upde_def)
  show k: "kframe x (static_va K) = Some K" using kf fl(7) [OF w'(3)] w'(4) by simp
  show "kload x (static_va K) 0 = Inr v" by (simp add: kload_Inr [OF k] x(1))
  have "EXTRACT_ADDRESS (upde s dir 958) + KERNEL_BASE = static_va K" using w by (simp add: EXTRACT_eq_push static_va_def window_def)
  moreover have "\<not> number_of_frames x \<le> PPN (EXTRACT_ADDRESS (upde s dir 958))" using w x(4) by (simp add: PPN_EXTRACT window_def not_le)
  ultimately show "get_page_table x dir USER_LIMIT = Inr (TABLE_IN_MEMORY, static_va K)"
    using pde w by (simp add: get_page_table_def window_addr table_pointer_def STATIC_KERNEL_VIRTUAL_ADDRESS_def window_def)
  have "phys x (PPN (phys_page_directory x)) 958 = upde s dir 958"
    using ne(2) w by (simp add: x(1,2) window_def flip: kdir_def)
  moreover have "PERM_PRESENT \<noteq> 0" by (simp add: PERM_PRESENT_def)
  ultimately show "kframe x USER_LIMIT = (if v AND PERM_PRESENT = 0 then None else Some (PPN v))"
    using w by (simp add: kframe_def mmu_walk_def window_addr Let_def window_def x(1))
qed

section \<open>Writing the page\<close>

text \<open>Mapping the frame at the window, writing it from there and taking it away leaves only the write.\<close>

definition written :: "kstate \<Rightarrow> u32 \<Rightarrow> u32 \<Rightarrow> kstate" where
  "written s dfn f = s\<lparr>page_file := (page_file s)(dfn := phys s f)\<rparr>"

text \<open>Finding the disk frame of a page.\<close>

lemma disk_steps:
  assumes inv: "kheap_inv s" and va: "va < USER_TOP" and disk: "on_disk s e va d t dfn"
  shows "get_disk_page_directory s e = Inr (0, s)"
    and "get_disk_page_table s (disk_env_pgdir (envs s e)) va False = Inr (0, virtualAddresses s t, s)"
    and "kload s (virtualAddresses s t) (PTX va) = Inr dfn" and "virtualAddresses s t \<noteq> 0" and "dfn \<noteq> 0"
proof -
  have nk: "\<not> CHECK_IF_KERNEL_ADDRESS va" using user_not_kernel [OF va] .
  show "get_disk_page_directory s e = Inr (0, s)"
    using disk by (auto simp: get_disk_page_directory_def on_disk_def KERNEL_BASE_def)
  show v: "virtualAddresses s t \<noteq> 0" "dfn \<noteq> 0" using disk by (simp_all add: on_disk_def)
  have kd: "kload s (disk_env_pgdir (envs s e)) (PDX va) = Inr (phys s d (PDX va))" "phys s d (PDX va) \<noteq> 0"
      "PPN (phys s d (PDX va)) = t"
    using disk by (auto simp: on_disk_def kload_Inr)
  have "table_pointer s va (phys s d (PDX va)) = Inr (virtualAddresses s t)"
    using nk kd(3) by (simp add: table_pointer_def kheap_virtual_address_PPN PPN_EXTRACT)
  then show "get_disk_page_table s (disk_env_pgdir (envs s e)) va False = Inr (0, virtualAddresses s t, s)"
    using kd(1,2) by (simp add: get_disk_page_table_def)
  show "kload s (virtualAddresses s t) (PTX va) = Inr dfn"
    using heap_frame_mapped(1) [OF inv v(1)] disk by (simp add: on_disk_def kload_Inr)
qed

lemma pf_update_writes:
  assumes inv: "kheap_inv s" and us: "uspace s dir" and w: "window s dir K" and e: "env_page_directory (envs s e) = dir"
    and va: "va < USER_TOP" and disk: "on_disk s e va d t dfn" "\<not> disk_error s"
    and g: "g < number_of_frames s" "references s g = 1" "g \<noteq> K"
  shows "pf_update_env_page s e va g = Inr (0, written s dfn g)"
proof -
  let ?ent = "CONSTRUCT_ENTRY (push_bit 12 g) (0 OR PERM_PRESENT)"
  have z: "(phys s K)(0 := 0) = phys s K" using w by (intro fun_upd_idem) (simp add: window_def)
  have same: "(phys s)(K := (phys s K)(0 := 0)) = phys s" unfolding z by simp
  note a0 = window_access [OF inv us w, of s 0, unfolded same, OF refl refl refl refl]
  define s1 where "s1 = set_references s g 2"
  define s2 where "s2 = phys_store s1 K 0 ?ent"
  have gb: "g < 0x100000" using frame_bound [of s] g(1) inv by (auto simp: kheap_inv_def)
  have ent: "PPN ?ent = g" "?ent AND PERM_PRESENT = PERM_PRESENT" "?ent \<noteq> 0" "PERM_PRESENT \<noteq> 0"
    using PPN_CONSTRUCT [OF gb, of "0 OR PERM_PRESENT"] present_CONSTRUCT [of g 0] CONSTRUCT_present_neq_0 [of _ 0]
    by (simp_all add: PERM_PRESENT_def)
  have k1: "kframe s1 (static_va K) = Some K" using a0(3) by (simp add: s1_def)
  have map: "map_frame s dir g USER_LIMIT 0 = Inr s2"
    using a0(1,2) k1 ent(4) g(2)
    by (simp add: map_frame_def map_frame_body_def TABLE_IN_MEMORY_def TABLE_NOT_EXIST_def window_addr Let_def
        to_physical_address_def s2_def kstore_Inr flip: s1_def)
  have x: "phys s2 = (phys s)(K := (phys s K)(0 := ?ent))" "phys_page_directory s2 = phys_page_directory s"
      "virtualAddresses s2 = virtualAddresses s" "number_of_frames s2 = number_of_frames s" "disk_error s2 = disk_error s"
      "page_file s2 = page_file s"
    by (simp_all add: s2_def s1_def phys_store_def set_references_def)
  note a2 = window_access [OF inv us w x(1-4)]
  have "cpu_frame s2 USER_LIMIT = Some g" using a2(4) ent by (simp add: cpu_frame_def window_addr)
  then have wr: "write_disk_page s2 dfn USER_LIMIT = Inr (0, s2\<lparr>page_file := (page_file s)(dfn := phys s g)\<rparr>)"
    using disk(2) g(3) x by (simp add: write_disk_page_def cpu_read_page_def window_addr)
  define s3 where "s3 = set_references (s2\<lparr>page_file := (page_file s)(dfn := phys s g)\<rparr>) g 3"
  have y: "phys s3 = (phys s)(K := (phys s K)(0 := ?ent))" "phys_page_directory s3 = phys_page_directory s"
      "virtualAddresses s3 = virtualAddresses s" "number_of_frames s3 = number_of_frames s"
    by (simp_all add: s3_def x set_references_def)
  note a3 = window_access [OF inv us w y]
  have r3: "references s3 g = 3" by (simp add: s3_def references_def set_references_def)
  have sk: "static_va K \<noteq> 0" using w window_addr(6) by (auto simp: window_def)
  have "to_frame_info s3 (EXTRACT_ADDRESS ?ent) = Inr g" using g(1) y(4) ent(1) by (simp add: to_frame_info_def PPN_EXTRACT not_le)
  then have fi: "get_frame_info s3 dir USER_LIMIT = Inr (Some g, static_va K)"
    using a3(1,2) ent(3) sk by (simp add: get_frame_info_def window_addr)
  define s4 where "s4 = phys_store (set_references s3 g 2) K 0 0"
  have dr: "decrement_references s3 g = set_references s3 g 2"
    using r3 by (simp add: decrement_references_def Let_def references_def set_references_def)
  have k3: "kframe (set_references s3 g 2) (static_va K) = Some K" using a3(3) by simp
  have unmap: "unmap_frame s3 dir USER_LIMIT = Inr s4"
    using fi k3 by (simp add: unmap_frame_def dr kstore_Inr window_addr s4_def)
  have "set_references s4 g 1 = written s dfn g"
  proof (rule kstate.equality)
    have "fi_references (frames_info s g) = 1" using g(2) by (simp add: references_def)
    then have "(frames_info s)(g := (frames_info s g)\<lparr>fi_references := 1\<rparr>) = frames_info s" by (auto simp: fun_eq_iff)
    then show "frames_info (set_references s4 g 1) = frames_info (written s dfn g)"
      by (simp add: s4_def s3_def s2_def s1_def set_references_def phys_store_def written_def)
    show "phys (set_references s4 g 1) = phys (written s dfn g)"
      using z by (simp add: s4_def y(1) set_references_def phys_store_def written_def)
  qed (simp_all add: s4_def s3_def s2_def s1_def set_references_def phys_store_def written_def)
  moreover have "references s4 g = 2" by (simp add: s4_def references_def set_references_def phys_store_def)
  ultimately have fin: "set_references s4 g (references s4 g - 1) = written s dfn g" by simp
  let ?w = "s2\<lparr>page_file := (page_file s)(dfn := phys s g)\<rparr>"
  have en: "envs s3 = envs s" by (simp add: s3_def s2_def s1_def phys_store_def set_references_def)
  have "references ?w g + 1 = 3" by (simp add: s2_def s1_def references_def set_references_def phys_store_def)
  then have up: "set_references ?w g (references ?w g + 1) = s3" by (simp add: s3_def)
  have rest: "rbind (map_frame s dir g USER_LIMIT 0) (\<lambda>s.
      rbind (write_disk_page s dfn (ROUNDDOWN USER_LIMIT PAGE_SIZE)) (\<lambda>(ret, s).
      let s = set_references s g (references s g + 1) in
      rbind (unmap_frame s (env_page_directory (envs s e)) USER_LIMIT) (\<lambda>s.
      let s = set_references s g (references s g - 1) in Inr (ret, s)))) = Inr (0, written s dfn g)"
    unfolding map window_addr(4) Let_def by (simp only: rbind_Inr prod.case wr up en e unmap fin)
  note dk = disk_steps [OF inv va disk(1)]
  have "va < KERNEL_BASE" using va by (simp add: fos_consts word_less_nat_alt)
  then show ?thesis using dk rest by (simp add: pf_update_env_page_def e)
qed

text \<open>The page file is in no table, so writing to it keeps the address space.\<close>

lemma written_simps [simp]:
  "phys (written s dfn f) = phys s" "phys_page_directory (written s dfn f) = phys_page_directory s"
  "virtualAddresses (written s dfn f) = virtualAddresses s" "free_frame_list (written s dfn f) = free_frame_list s"
  "number_of_frames (written s dfn f) = number_of_frames s" "envs (written s dfn f) = envs s"
  "page_file (written s dfn f) = (page_file s)(dfn := phys s f)" "references (written s dfn f) h = references s h"
  "disk_error (written s dfn f) = disk_error s" "curenv (written s dfn f) = curenv s" "reg_cr3 (written s dfn f) = reg_cr3 s"
  "PageRepAlgoType (written s dfn f) = PageRepAlgoType s" "kernel_frame (written s dfn f) = kernel_frame s"
  "kheap_inv (written s dfn f) = kheap_inv s" "udir (written s dfn f) dir = udir s dir"
proof -
  let ?s = "written s dfn f"
  have m: "phys ?s = phys s" "phys_page_directory ?s = phys_page_directory s" by (simp_all add: written_def)
  show "kheap_inv ?s = kheap_inv s" by (rule kheap_inv_cong) (simp_all add: written_def)
  show "kernel_frame ?s = kernel_frame s" by (simp add: kernel_frame_def [abs_def] kdir_def ktab_def m)
  show "udir ?s dir = udir s dir" by (simp add: udir_def kpte_def ktab_def kdir_def m)
qed (simp_all add: written_def references_def)

lemmas written_space [simp] = uspace_cong [of "written s dfn f" s for s dfn f, OF written_simps(1-3)]

lemma written_ws [simp]:
  "ws_wf (written s dfn f) e = ws_wf s e" "ws_size (written s dfn f) e = ws_size s e"
  "ws_page (written s dfn f) e i = ws_page s e i" "user_frame (written s dfn f) g = user_frame s g"
  "can_place (written s dfn f) e va x = can_place s e va x"
  "evicted (written s dfn f) s' e i g = evicted s s' e i g"
  by (simp_all add: ws_wf_def ws_size_def ws_page_def ws_entry_def user_frame_def can_place_def on_disk_def
      disk_apart_def Let_def evicted_def space_rest_def)

section \<open>Eviction of a modified page\<close>

lemma evict_modified:
  assumes can: "can_place s e va dfn" and wf: "ws_wf s e" and i: "i < ws_size s e"
    and w: "ws_page s e i < USER_TOP" "utrans s (env_page_directory (envs s e)) (ws_page s e i) = Some g"
    and g: "user_frame s g" "references s g = 1"
    and dirty: "upte s (env_page_directory (envs s e)) (ws_page s e i) AND PERM_MODIFIED \<noteq> 0"
    and disk: "on_disk s e (ws_page s e i) d t dfv" and win: "window s (env_page_directory (envs s e)) K" "g \<noteq> K"
  obtains s' where "evict s e (of_nat i) = Inr s'" and "can_place s' e va dfn" and "evicted s s' e i g"
    and "page_file s' = (page_file s)(dfv := phys s g)"
proof -
  let ?dir = "env_page_directory (envs s e)" and ?v = "ws_page s e i" and ?w = "written s dfv g"
  have c: "kheap_inv s" "uspace s ?dir" "\<not> disk_error s" using can by (simp_all add: can_place_def Let_def)
  have gn: "g < number_of_frames s" using g(1) by (simp add: user_frame_def)
  have up: "pf_update_env_page s e ?v g = Inr (0, ?w)"
    using pf_update_writes [OF c(1,2) win(1) refl w(1) disk c(3) gn g(2) win(2)] .
  have can': "can_place ?w e va dfn" "ws_wf ?w e" "i < ws_size ?w e" "user_frame ?w g" "references ?w g = 1"
    using can wf i g by simp_all
  have w': "ws_page ?w e i < USER_TOP" "utrans ?w (env_page_directory (envs ?w e)) (ws_page ?w e i) = Some g" using w by simp_all
  obtain s' where s': "rbind (unmap_frame ?w ?dir ?v) (\<lambda>s. env_page_ws_clear_entry s e (of_nat i)) = Inr s'"
      "can_place s' e va dfn" "evicted s s' e i g" "page_file s' = (page_file s)(dfv := phys s g)"
    using give_up [OF can'(1-3) w' can'(4,5)] by (simp add: written_simps(7)) metis
  have "evict s e (of_nat i) = Inr s'"
    using evict_reads [OF can wf i w gn] up dirty s'(1) by simp
  then show thesis using s'(2-4) by (rule that)
qed

section \<open>What stays on the disk\<close>

lemma on_disk_rest:
  assumes disk: "on_disk s e va d t dfn" and rest: "space_rest s s' dir F" and F: "d \<notin> F" "t \<notin> F"
    and kf: "\<forall>w. KERNEL_BASE \<le> w \<longrightarrow> kframe s' w = kframe s w"
    and e: "disk_env_pgdir (envs s' e) = disk_env_pgdir (envs s e)"
  shows "on_disk s' e va d t dfn"
  using assms by (simp add: on_disk_def space_rest_def)

text \<open>After a replacement the page of the victim can be brought in again.\<close>

lemma victim_can_return:
  assumes can: "can_place s e va dfn" and rep: "replaced s s' e va i g pg"
    and w: "ws_page s e i < USER_TOP" "utrans s (env_page_directory (envs s e)) (ws_page s e i) = Some g"
    and disk: "on_disk s e (ws_page s e i) d t dfv" "disk_apart s (env_page_directory (envs s e)) d t" "g \<noteq> d" "g \<noteq> t"
  shows "can_place s' e (ws_page s e i) dfv"
proof -
  let ?dir = "env_page_directory (envs s e)" and ?v = "ws_page s e i"
  let ?F = "{g, PPN (upde s ?dir (PDX va)), PPN (upde s ?dir (PDX ?v))}"
  have c: "uspace s ?dir" "va < USER_TOP" "upde s ?dir (PDX va) \<noteq> 0" "\<not> disk_error s" "curenv s = Some e"
      "PPN (reg_cr3 s) = udir s ?dir"
    using can by (simp_all add: can_place_def Let_def)
  have r: "kheap_inv s'" "uspace s' ?dir" "utrans s' ?dir ?v = None" "space_rest s s' ?dir ?F"
      "\<forall>w. KERNEL_BASE \<le> w \<longrightarrow> kframe s' w = kframe s w" "envs s' = (envs s)(e := placed_ws (envs s e) i va)"
    using rep by (simp_all add: replaced_def Let_def)
  have ne: "upde s ?dir (PDX ?v) \<noteq> 0" using utrans_Some(1) [OF c(1) w] .
  have F: "d \<notin> ?F" "t \<notin> ?F"
    using disk(2-4) c(3) ne user_PDX [OF c(2)] user_PDX [OF w(1)] by (auto simp: disk_apart_def)
  have en: "env_page_directory (envs s' e) = ?dir" "disk_env_pgdir (envs s' e) = disk_env_pgdir (envs s e)"
    using r(6) by (simp_all add: placed_ws_def)
  have "on_disk s' e ?v d t dfv" by (rule on_disk_rest [OF disk(1) r(4) F r(5) en(2)])
  moreover have "disk_apart s' ?dir d t" using disk(2) r(4) by (simp add: disk_apart_def space_rest_def)
  ultimately show ?thesis
    using r(1-4) c(4-6) ne w(1) by (auto simp: can_place_def Let_def en space_rest_def)
qed



text \<open>The fault and the eviction of a modified victim together.\<close>

lemma fault_writes:
  assumes can: "can_place s e va dfn" and ws: "ws_wf s e"
    and full: "page_WS_max_size (envs s e) \<le> env_page_ws_get_size s e"
    and victim: "choose_victim s e = Inr (of_nat i, s)" "i < ws_size s e"
    and w: "ws_page s e i < USER_TOP" "utrans s (env_page_directory (envs s e)) (ws_page s e i) = Some g"
    and g: "user_frame s g" "references s g = 1"
    and dirty: "upte s (env_page_directory (envs s e)) (ws_page s e i) AND PERM_MODIFIED \<noteq> 0"
    and disk: "on_disk s e (ws_page s e i) d t dfv" "disk_apart s (env_page_directory (envs s e)) d t" "g \<noteq> d" "dfv \<noteq> dfn"
    and win: "window s (env_page_directory (envs s e)) K" "g \<noteq> K"
  obtains s' where "page_fault_handler s e va = Inr s'" and "replaced s s' e va i g (page_file s dfn)"
    and "page_file s' = (page_file s)(dfv := phys s g)" and "can_place s' e (ws_page s e i) dfv"
proof -
  obtain s1 where s1: "evict s e (of_nat i) = Inr s1" "can_place s1 e va dfn" "evicted s s1 e i g"
      "page_file s1 = (page_file s)(dfv := phys s g)"
    using evict_modified [OF can ws victim(2) w g dirty disk(1) win] by metis
  obtain s' where s': "page_fault_handler s e va = Inr s'" "replaced s s' e va i g (page_file s1 dfn)"
      "page_file s' = page_file s1"
    using fault_replace [OF can ws full victim w s1(1-3)] by metis
  have "g \<noteq> t" using g(1) disk(1) by (auto simp: user_frame_def on_disk_def)
  then have "can_place s' e (ws_page s e i) dfv" using victim_can_return [OF can s'(2) w disk(1-3)] by simp
  then show thesis using that [of s'] s' s1(4) disk(4) by simp
qed

section \<open>A concrete state with a window\<close>

text \<open>Memory outside the heap and the kernel's tables can change without touching an address space.\<close>

lemma space_keep:
  assumes us: "uspace s dir" and inv: "kheap_inv s" "kheap_inv s'" and v: "virtualAddresses s' = virtualAddresses s"
    and kp: "\<And>va. KERNEL_BASE \<le> va \<Longrightarrow> kpte s' va = kpte s va" and ph: "\<And>h. virtualAddresses s h \<noteq> 0 \<Longrightarrow> phys s' h = phys s h"
  shows "uspace s' dir" and "upde s' dir = upde s dir" and "udir s' dir = udir s dir"
    and "w < USER_TOP \<Longrightarrow> utrans s' dir w = utrans s dir w" and "KERNEL_BASE \<le> w \<Longrightarrow> kframe s' w = kframe s w"
proof -
  have dk: "KERNEL_BASE \<le> dir" using us heap_page_kernel by (simp add: uspace_def)
  have k: "kpte s' dir = kpte s dir" by (rule kp [OF dk])
  then show ud: "udir s' dir = udir s dir" by (simp add: udir_def)
  have "phys s' (udir s dir) = phys s (udir s dir)" using ph uspace_dir(3) [OF inv(1) us] by simp
  then show ue: "upde s' dir = upde s dir" by (simp add: upde_def [abs_def] ud)
  show us': "uspace s' dir" using us unfolding uspace_def ue ud v k .
  show "utrans s' dir w = utrans s dir w" if w: "w < USER_TOP"
  proof (cases "upde s dir (PDX w) = 0")
    case False
    then have "upte s' dir w = upte s dir w" using ph uspace_present(2) [OF us w] by (simp add: upte_def ue)
    then show ?thesis using utrans_eq [OF us w] utrans_eq [OF us' w] by (simp add: ue)
  qed (use utrans_eq [OF us w] utrans_eq [OF us' w] in \<open>simp add: ue\<close>)
  have m: "kmap_inv s" "kmap_inv s'" using inv by (simp_all add: kheap_inv_def)
  show "kframe s' w = kframe s w" if w: "KERNEL_BASE \<le> w"
    using kframe_kernel [OF m(1) w] kframe_kernel [OF m(2) w] kp [OF w] by simp
qed

text \<open>An entry of the kernel's directory below KERNEL\_BASE.\<close>

lemma kdir_store:
  fixes v :: u32
  assumes inv: "kheap_inv s" and i: "\<not> kernel_index i"
  defines "s' \<equiv> phys_store s (kdir s) i v"
  shows "kheap_inv s'" and "KERNEL_BASE \<le> va \<Longrightarrow> kpte s' va = kpte s va" and "kernel_frame s' = kernel_frame s"
proof -
  have m: "kmap_inv s" using inv by (simp add: kheap_inv_def)
  have kd: "kdir s' = kdir s" by (simp add: s'_def kdir_def)
  have e: "phys s' (kdir s) d = phys s (kdir s) d" if "kernel_index d" for d using that i by (auto simp: s'_def)
  have kt: "ktab s' d = ktab s d" if "kernel_index d" for d using e [OF that] by (simp add: ktab_def kd)
  have o: "phys s' f = phys s f" if "f \<noteq> kdir s" for f using that by (simp add: s'_def)
  have nk: "ktab s d \<noteq> kdir s" if "kernel_index d" for d using m that by (simp add: kmap_inv_def)
  show kp: "kpte s' va = kpte s va" if "KERNEL_BASE \<le> va" for va
  proof -
    have d: "kernel_index (PDX va)" using that kernel_PDX_iff by simp
    show ?thesis by (simp add: kpte_def kt [OF d] o [OF nk [OF d]])
  qed
  show kf: "kernel_frame s' = kernel_frame s" by (rule ext) (use kt in \<open>auto simp: kernel_frame_def kd\<close>)
  have st: "static_mapped s' f" if f: "static_mapped s f" for f
  proof -
    have d: "kernel_index (PDX (static_va f))" using f by (simp add: static_mapped_def)
    then have b: "KERNEL_BASE \<le> static_va f" using kernel_PDX_iff by simp
    have "kframe s' (static_va f) = kframe s (static_va f)"
      using e [OF d] kt [OF d] o [OF nk [OF d]] by (simp add: kframe_def mmu_walk_def Let_def s'_def ktab_def kdir_def)
    then show ?thesis using f by (simp add: static_mapped_def)
  qed
  have m': "kmap_inv s'"
    using m st e kt unfolding kmap_inv_def kd by (simp add: s'_def)
  have "free_frames_inv s'" using inv by (simp add: free_frames_inv_def kf kheap_inv_def) (simp add: s'_def)
  then show "kheap_inv s'"
    using kheap_inv_transfer [OF inv m' kf kp [OF heap_page_kernel]] by (simp add: s'_def)
qed

text \<open>An entry of a directory above the user part.\<close>

lemma dir_store:
  fixes v :: u32
  assumes inv: "kheap_inv s" and us: "uspace s dir" and i: "\<not> user_index i"
  defines "s' \<equiv> phys_store s (udir s dir) i v"
  shows "kheap_inv s'" and "uspace s' dir" and "upde s' dir = (upde s dir)(i := v)"
    and "w < USER_TOP \<Longrightarrow> utrans s' dir w = utrans s dir w" and "KERNEL_BASE \<le> w \<Longrightarrow> kframe s' w = kframe s w"
    and "kernel_frame s' = kernel_frame s"
proof -
  have nk: "\<not> kernel_frame s (udir s dir)" using heap_frame_mapped(2) [OF inv uspace_dir(3) [OF inv us]] .
  note st = kheap_inv_store [OF inv nk, where i = i and v = v, folded s'_def]
  show inv': "kheap_inv s'" "kernel_frame s' = kernel_frame s" by (rule st(1), rule st(3))
  have dk: "KERNEL_BASE \<le> dir" using us heap_page_kernel by (simp add: uspace_def)
  have k: "kpte s' dir = kpte s dir" by (rule st(2) [OF dk])
  then have ud: "udir s' dir = udir s dir" by (simp add: udir_def)
  show ue: "upde s' dir = (upde s dir)(i := v)" by (simp add: upde_def [abs_def] ud fun_eq_iff) (simp add: s'_def)
  have ui: "user_index j \<Longrightarrow> upde s' dir j = upde s dir j" for j using i by (auto simp: ue)
  have vs: "virtualAddresses s' = virtualAddresses s" by (simp add: s'_def)
  have "uspace s' dir = uspace s dir" unfolding uspace_def ud vs k by (simp add: ui cong: conj_cong imp_cong)
  then show us': "uspace s' dir" using us by simp
  show "utrans s' dir w = utrans s dir w" if w: "w < USER_TOP"
  proof (cases "upde s dir (PDX w) = 0")
    case False
    then have "upte s' dir w = upte s dir w"
      using ui [OF user_PDX [OF w]] uspace_present(3) [OF us w] by (simp add: upte_def s'_def)
    then show ?thesis using utrans_eq [OF us w] utrans_eq [OF us' w] ui [OF user_PDX [OF w]] by simp
  qed (use utrans_eq [OF us w] utrans_eq [OF us' w] ui [OF user_PDX [OF w]] in simp)
  have m: "kmap_inv s" "kmap_inv s'" using inv inv' by (simp_all add: kheap_inv_def)
  show "kframe s' w = kframe s w" if w: "KERNEL_BASE \<le> w"
    using kframe_kernel [OF m(1) w] kframe_kernel [OF m(2) w] st(2) [OF w] by simp
qed

text \<open>The window stays when a user page is mapped differently or the disk directory is filled.\<close>

lemma window_keep:
  assumes w: "window s dir K" and ue: "upde s' dir = upde s dir" and n: "number_of_frames s' = number_of_frames s"
    and kf: "kernel_frame s' = kernel_frame s" and v: "virtualAddresses s' = virtualAddresses s"
    and k: "\<And>w. KERNEL_BASE \<le> w \<Longrightarrow> kframe s' w = kframe s w" and kd: "kdir s' = kdir s"
    and ph: "phys s' K = phys s K" "phys s' (kdir s) = phys s (kdir s)"
  shows "window s' dir K"
  using w k unfolding window_def ue n kf v kd ph by simp

text \<open>Opening the window: a cleared frame entered in both directories.\<close>

lemma window_opened:
  assumes inv: "kheap_inv s" and us: "uspace s dir" and one: "user_frame s 1" "kframe s 0xF0001000 = Some 1"
  obtains s' where "kheap_inv s'" and "uspace s' dir" and "window s' dir 1" and "upde s' dir 958 = 0x1003"
    and "upde s' dir 512 = upde s dir 512" and "\<forall>w. w < USER_TOP \<longrightarrow> utrans s' dir w = utrans s dir w"
    and "\<forall>w. KERNEL_BASE \<le> w \<longrightarrow> kframe s' w = kframe s w" and "\<forall>f. user_frame s' f = user_frame s f"
    and "\<forall>f. references s' f = references s f" and "free_frame_list s' = free_frame_list s"
proof -
  have f: "\<not> kernel_frame s 1" "virtualAddresses s 1 = 0" "1 < number_of_frames s" using one by (simp_all add: user_frame_def)
  define s1 where "s1 = phys_fill s 1 (\<lambda>_. 0)"
  define s2 where "s2 = phys_store s1 (kdir s1) 958 0x1003"
  define s3 where "s3 = phys_store s2 (udir s2 dir) 958 0x1003"
  have ix: "\<not> kernel_index 958" "\<not> user_index 958" by (simp_all add: kernel_index_def user_index_def PDX_def fos_consts)
  note a = fill_space [OF inv us f(1,2), where pg = "\<lambda>_. 0", folded s1_def]
  have k1: "kernel_frame s1 = kernel_frame s" using kheap_inv_fill(3) [OF inv f(1)] by (simp add: s1_def)
  note b = kdir_store [OF a(1) ix(1), where v = "0x1003", folded s2_def]
  have nk: "h \<noteq> kdir s1" if "virtualAddresses s1 h \<noteq> 0" for h
    using heap_frame_mapped(2) [OF a(1) that] by (auto simp: kernel_frame_def)
  have v2: "virtualAddresses s2 = virtualAddresses s1" "\<And>h. virtualAddresses s1 h \<noteq> 0 \<Longrightarrow> phys s2 h = phys s1 h"
    using nk by (simp_all add: s2_def)
  note c = space_keep [OF a(2,1) b(1) v2(1) b(2) v2(2)]
  note d = dir_store [OF b(1) c(1) ix(2), where v = "0x1003", folded s3_def]
  have ud: "udir s2 dir \<noteq> 1" "udir s2 dir \<noteq> kdir s1"
    using uspace_dir(3) [OF b(1) c(1)] f(2) nk v2(1) by (auto simp: s1_def)
  have "kernel_frame s (kdir s1)" using k1 by (simp add: kernel_frame_def flip: k1)
  then have kd: "kdir s3 = kdir s1" "kdir s1 \<noteq> 1" using f(1) by (auto simp: kdir_def s3_def s2_def)
  have kf: "kframe s3 w = kframe s w" if "KERNEL_BASE \<le> w" for w using d(5) c(5) a(7) that by simp
  have st: "static_va 1 = 0xF0001000" "KERNEL_BASE \<le> 0xF0001000" by (simp_all add: static_va_def KERNEL_BASE_def)
  have e: "PPN 0x1003 = 1" "0x1003 AND PERM_PRESENT = PERM_PRESENT" by (simp_all add: PPN_def PERM_PRESENT_def)
  have vs: "virtualAddresses s3 = virtualAddresses s" "number_of_frames s3 = number_of_frames s" "free_frame_list s3 = free_frame_list s"
      "frames_info s3 = frames_info s" by (simp_all add: s3_def s2_def s1_def phys_store_def phys_fill_def)
  have "phys s3 (kdir s1) 958 = 0x1003" "phys s3 1 0 = 0"
    using ud kd(2) by (simp_all add: s3_def s2_def) (simp add: s1_def)
  moreover have u: "upde s3 dir 958 = 0x1003" using d(3) by simp
  ultimately have "window s3 dir 1"
    unfolding window_def kd(1) st(1) u using e kf [OF st(2)] one(2) f k1 b(3) d(6) st(2) vs(1,2) by simp
  moreover have "user_frame s3 g = user_frame s g" for g using k1 b(3) d(6) vs by (simp add: user_frame_def)
  ultimately show thesis
    using that [of s3] d(1-4) c(2,4) a(3,6) kf vs u by (simp add: references_def)
qed

lemma window_user_store:
  assumes inv: "kheap_inv s" and us: "uspace s dir" and va: "va < USER_TOP" "upde s dir (PDX va) \<noteq> 0" and w: "window s dir K"
  shows "window (phys_store s (PPN (upde s dir (PDX va))) (PTX va) e) dir K"
proof -
  note st = user_store [OF inv us va, where e = e] and t = user_get_page_table(3,4) [OF inv us va]
  have "virtualAddresses s K = 0" using w by (simp add: window_def)
  then have "PPN (upde s dir (PDX va)) \<noteq> K" "PPN (upde s dir (PDX va)) \<noteq> kdir s" using t by (auto simp: kernel_frame_def)
  then show ?thesis
    by (intro window_keep [OF w st(4) _ st(7) _ st(6)]) (simp_all add: phys_store_def kdir_def)
qed

text \<open>
  The sample address space with the window, its only page at 0x80200000, in frame 150, and modified. As
  in the sample of a clean page, frame 2 plays the disk directory and the page directory the disk table.
\<close>

lemma sample_modified:
  "\<exists>s. kheap_inv s \<and> uspace s 0xF6000000 \<and> window s 0xF6000000 1 \<and> utrans s 0xF6000000 0x80200000 = Some 150
     \<and> upte s 0xF6000000 0x80200000 AND PERM_MODIFIED \<noteq> 0 \<and> utrans s 0xF6000000 0x803BE000 = None
     \<and> user_frame s 150 \<and> references s 150 = 1 \<and> user_frame s 2 \<and> kframe s 0xF0002000 = Some 2
     \<and> upde s 0xF6000000 512 \<noteq> 0 \<and> upde s 0xF6000000 958 \<noteq> 0 \<and> upde s 0xF6000000 958 \<noteq> upde s 0xF6000000 512"
proof -
  let ?dir = "0xF6000000 :: u32" and ?a = "0x80000000 :: u32" and ?b = "0x803BE000 :: u32" and ?c = "0x80200000 :: u32"
  obtain s0 where s0: "kheap_inv s0" "uspace s0 ?dir" "utrans s0 ?dir ?a = Some 150" "user_frame s0 150"
      "references s0 150 = 1" "user_frame s0 2" "kframe s0 0xF0002000 = Some 2" "user_frame s0 1" "kframe s0 0xF0001000 = Some 1"
    using sample_mapped by blast
  obtain s where s: "kheap_inv s" "uspace s ?dir" "window s ?dir 1" "upde s ?dir 958 = 0x1003" "upde s ?dir 512 = upde s0 ?dir 512"
      "\<forall>w. KERNEL_BASE \<le> w \<longrightarrow> kframe s w = kframe s0 w" "\<forall>f. user_frame s f = user_frame s0 f"
      "\<forall>f. references s f = references s0 f"
    using window_opened [OF s0(1,2,8,9)] by metis
  have lt: "?a < USER_TOP" "?b < USER_TOP" "?c < USER_TOP" "KERNEL_BASE \<le> 0xF0002000" by (simp_all add: fos_consts)
  have ix: "PDX ?a = 512" "PDX ?b = 512" "PDX ?c = 512" by (simp_all add: PDX_def)
  have p: "PPN ?c \<noteq> PPN ?a" "PPN ?c \<noteq> PPN ?b" "PPN ?b \<noteq> PPN ?a" "PPN 0x96047 = 150" by (simp_all add: PPN_def)
  have ne: "upde s ?dir 512 \<noteq> 0" using utrans_Some(1) [OF s0(2) lt(1) s0(3)] ix s(5) by simp
  let ?t = "PPN (upde s ?dir 512)"
  define s1 where "s1 = phys_store s ?t (PTX ?a) 0"
  define s2 where "s2 = phys_store s1 ?t (PTX ?b) 0"
  define s3 where "s3 = phys_store s2 ?t (PTX ?c) 0x96047"
  note n1 = ne [folded ix(1)]
  note a = user_store [OF s(1,2) lt(1) n1, where e = 0, unfolded ix, folded s1_def]
  have w1: "window s1 ?dir 1" using window_user_store [OF s(1,2) lt(1) n1 s(3), of 0] by (simp add: ix s1_def)
  have n2: "upde s1 ?dir (PDX ?b) \<noteq> 0" using ne a(4) ix by simp
  note b = user_store [OF a(1,2) lt(2) n2, where e = 0, unfolded ix a(4), folded s2_def]
  have w2: "window s2 ?dir 1" using window_user_store [OF a(1,2) lt(2) n2 w1, of 0] by (simp add: ix a(4) s2_def)
  have n3: "upde s2 ?dir (PDX ?c) \<noteq> 0" using ne a(4) b(4) ix by simp
  note c = user_store [OF b(1,2) lt(3) n3, where e = "0x96047", unfolded ix a(4) b(4), folded s3_def]
  have w3: "window s3 ?dir 1" using window_user_store [OF b(1,2) lt(3) n3 w2, of "0x96047"] by (simp add: ix a(4) b(4) s3_def)
  have ud: "upde s3 ?dir = upde s ?dir" using c(4) b(4) a(4) by simp
  have "utrans s3 ?dir ?c = Some 150"
    using utrans_eq [OF c(2) lt(3)] c(3) ne ud ix p(4) by (simp add: PERM_PRESENT_def)
  moreover have "utrans s3 ?dir ?b = None"
    using c(5) [OF lt(2)] utrans_eq [OF b(2) lt(2)] b(3) p(2) by simp
  moreover have "user_frame s3 f = user_frame s f" "references s3 f = references s f" for f
    using a(7) b(7) c(7) by (simp_all add: user_frame_def s3_def s2_def s1_def phys_store_def references_def)
  moreover have "kframe s3 0xF0002000 = Some 2" using a(6) b(6) c(6) lt(4) s(6) s0(7) by simp
  moreover have "PPN (upde s ?dir 512) \<noteq> 1"
    using uspace_present(2) [OF s(2) lt(1) n1] s(3) ix(1) by (auto simp: window_def)
  then have "upde s3 ?dir 958 \<noteq> upde s3 ?dir 512" using s(4) ud by (auto simp: PPN_def)
  ultimately show ?thesis
    using c(1-3) w3 ud ne s(4,7,8) s0(4-6) by (intro exI [of _ s3]) (simp add: PERM_MODIFIED_def)
qed

definition modified_ws :: "WorkingSetElement list" where
  "modified_ws = [\<lparr>ws_virtual_address = 0x80200000, ws_empty = 0, ws_time_stamp = 7\<rparr>]"

lemma modified_fault:
  "\<exists>s t dfn dfv. can_place s 0 0x803BE000 dfn \<and> ws_wf s 0 \<and> page_WS_max_size (envs s 0) \<le> env_page_ws_get_size s 0
     \<and> choose_victim s 0 = Inr (of_nat 0, s) \<and> ws_size s 0 = 1 \<and> ws_page s 0 0 = 0x80200000
     \<and> env_page_directory (envs s 0) = 0xF6000000 \<and> utrans s 0xF6000000 0x80200000 = Some 150
     \<and> user_frame s 150 \<and> references s 150 = 1 \<and> upte s 0xF6000000 0x80200000 AND PERM_MODIFIED \<noteq> 0
     \<and> on_disk s 0 0x80200000 2 t dfv \<and> disk_apart s 0xF6000000 2 t \<and> dfv \<noteq> dfn \<and> window s 0xF6000000 1
     \<and> PageRepAlgoType s = PG_REP_FIFO"
proof -
  let ?dir = "0xF6000000 :: u32" and ?b = "0x803BE000 :: u32" and ?c = "0x80200000 :: u32"
  obtain s0 where s0: "kheap_inv s0" "uspace s0 ?dir" "user_frame s0 2" "kframe s0 0xF0002000 = Some 2" "window s0 ?dir 1"
      "utrans s0 ?dir ?c = Some 150" "upte s0 ?dir ?c AND PERM_MODIFIED \<noteq> 0" "utrans s0 ?dir ?b = None" "user_frame s0 150"
      "references s0 150 = 1" "upde s0 ?dir 512 \<noteq> 0" "upde s0 ?dir 958 \<noteq> 0" "upde s0 ?dir 958 \<noteq> upde s0 ?dir 512"
    using sample_modified by blast
  let ?s = "paged_state s0 modified_ws"
  note sp = paged_space [OF s0(1-4), where ws = modified_ws] and e = paged_env [of s0 modified_ws]
  have lt: "?b < USER_TOP" "?c < USER_TOP" by (simp_all add: fos_consts)
  have ix: "PDX ?b = 512" "PDX ?c = 512" "PTX ?b = 958" "PTX ?c = 512" by (simp_all add: PDX_def PTX_def)
  have can: "can_place ?s 0 ?b (upde s0 ?dir 958)" using paged_place [OF s0(1-4) lt(1) ix(1)] s0(8,11,12) ix by simp
  have disk: "on_disk ?s 0 ?c 2 (udir s0 ?dir) (upde s0 ?dir 512)" using sp(12) [OF ix(2)] s0(11) ix by simp
  have "kernel_frame s0 (kdir s0)" by (simp add: kernel_frame_def)
  then have "kdir s0 \<noteq> 2" using s0(3) by (auto simp: user_frame_def)
  then have win: "window ?s ?dir 1"
    using sp(7) by (intro window_keep [OF s0(5) sp(3) _ sp(11)]) (simp_all add: paged_state_def Let_def kdir_def phys_fill_def)
  have ws: "ws_wf ?s 0" "page_WS_max_size (envs ?s 0) \<le> env_page_ws_get_size ?s 0"
      "choose_victim ?s 0 = Inr (of_nat 0, ?s)" "ws_size ?s 0 = 1" "ws_page ?s 0 0 = ?c"
    using e by (simp_all add: modified_ws_def ws_wf_def env_page_ws_get_size_def ws_count_def choose_victim_def ws_size_def
        ws_page_def ws_entry_def ROUNDDOWN_def fos_consts)
  have m: "utrans ?s ?dir ?c = Some 150" "upte ?s ?dir ?c AND PERM_MODIFIED \<noteq> 0" "user_frame ?s 150" "references ?s 150 = 1"
    using sp(5) [OF lt(2)] sp(6) [OF lt(2)] sp(8,9) s0(6,7,9-11) ix by simp_all
  have ne: "upde s0 ?dir 512 \<noteq> upde s0 ?dir 958" using s0(13) by simp
  show ?thesis using can ws e(3,5) m disk sp(13) ne win by blast
qed

section \<open>Properties\<close>

text \<open>
  C6. A page fault when the working set is full and the victim the algorithm chooses, entry i, has been
  modified: the victim's page is first written to its frame of the page file, through the window at
  USER\_LIMIT, which is as before afterwards; then the faulting page takes over the victim's frame and
  entry with the contents the page file has for it. Nothing else in the page file changes, all other
  translations are as before, and the victim's page can be brought in again from its frame of the
  page file.
\<close>

theorem page_fault_writes_back:
  assumes can: "can_place s e va dfn" and ws: "ws_wf s e"
    and full: "page_WS_max_size (envs s e) \<le> env_page_ws_get_size s e"
    and victim: "choose_victim s e = Inr (of_nat i, s)" "i < ws_size s e"
    and w: "ws_page s e i < USER_TOP" "utrans s (env_page_directory (envs s e)) (ws_page s e i) = Some g"
    and g: "user_frame s g" "references s g = 1"
    and dirty: "upte s (env_page_directory (envs s e)) (ws_page s e i) AND PERM_MODIFIED \<noteq> 0"
    and disk: "on_disk s e (ws_page s e i) d t dfv" "disk_apart s (env_page_directory (envs s e)) d t" "g \<noteq> d" "dfv \<noteq> dfn"
    and win: "window s (env_page_directory (envs s e)) K" "g \<noteq> K"
  shows "\<exists>s'. page_fault_handler s e va = Inr s' \<and> kheap_inv s'
    \<and> page_file s' = (page_file s)(dfv := phys s g)
    \<and> utrans s' (env_page_directory (envs s e)) va = Some g \<and> phys s' g = page_file s dfn \<and> references s' g = 1
    \<and> utrans s' (env_page_directory (envs s e)) (ws_page s e i) = None
    \<and> (\<forall>w. w < USER_TOP \<and> PPN w \<noteq> PPN va \<and> PPN w \<noteq> PPN (ws_page s e i) \<longrightarrow>
         utrans s' (env_page_directory (envs s e)) w = utrans s (env_page_directory (envs s e)) w)
    \<and> (\<forall>w. KERNEL_BASE \<le> w \<longrightarrow> kframe s' w = kframe s w)
    \<and> free_frame_list s' = free_frame_list s \<and> envs s' = (envs s)(e := placed_ws (envs s e) i va)
    \<and> can_place s' e (ws_page s e i) dfv"
proof -
  obtain s' where "page_fault_handler s e va = Inr s'" "replaced s s' e va i g (page_file s dfn)"
      "page_file s' = (page_file s)(dfv := phys s g)" "can_place s' e (ws_page s e i) dfv"
    using fault_writes [OF assms] by metis
  then show ?thesis by (intro exI [of _ s']) (simp add: replaced_def Let_def)
qed

theorem page_fault_writes_back_witness:
  "\<exists>s s' dfv. page_fault_handler s 0 0x803BE000 = Inr s' \<and> utrans s 0xF6000000 0x80200000 = Some 150
     \<and> page_file s' = (page_file s)(dfv := phys s 150) \<and> utrans s' 0xF6000000 0x803BE000 = Some 150
     \<and> utrans s' 0xF6000000 0x80200000 = None"
proof -
  let ?dir = "0xF6000000 :: u32" and ?c = "0x80200000 :: u32"
  obtain s t dfn dfv where s: "can_place s 0 0x803BE000 dfn" "ws_wf s 0" "page_WS_max_size (envs s 0) \<le> env_page_ws_get_size s 0"
      "choose_victim s 0 = Inr (of_nat 0, s)" "ws_size s 0 = 1" "ws_page s 0 0 = ?c" "env_page_directory (envs s 0) = ?dir"
      "utrans s ?dir ?c = Some 150" "user_frame s 150" "references s 150 = 1" "upte s ?dir ?c AND PERM_MODIFIED \<noteq> 0"
      "on_disk s 0 ?c 2 t dfv" "disk_apart s ?dir 2 t" "dfv \<noteq> dfn" "window s ?dir 1"
    using modified_fault by blast
  have lt: "?c < USER_TOP" by (simp add: fos_consts)
  show ?thesis
    using page_fault_writes_back [OF s(1-4), of 150 2 t dfv 1] s(5-15) lt by auto
qed



end
