(* ===== verification/Spec2Isabelle.thy ===== *)
theory Spec2Isabelle
  imports FOS_Command FOS_Placement FOS_Sort FOS_BootInv FOS_Sprintf FOS_UserIO FOS_Screen FOS_Keyboard FOS_Debug FOS_Disk FOS_Clock FOS_Loader FOS_Start FOS_TrapFault FOS_WriteBack
    FOS_UserSys FOS_Idt
begin

text \<open>
  A model of the memory management and the scheduling of FOS, a teaching kernel for 32-bit x86
  (src/FOS_Project_2016_Template: kern, lib and inc), and its correctness theorems.

  \<^bold>\<open>The program.\<close> The kernel keeps a list of free physical frames with reference counts, maps
  frames into two-level page tables, and allocates its own memory (page tables, working sets,
  page-file directories) from a kernel heap, which itself takes frames and maps them. Each
  environment has a page directory, a page file on disk, a working set of resident pages and a slot
  in the queues of the scheduler. A page fault takes a frame, maps it, reads the page from the page
  file and replaces a resident page when the working set is full. A user program allocates memory
  with malloc() and free(), which call the kernel to reserve and release page-file space.

  \<^bold>\<open>State.\<close> The record \<open>kstate\<close> of FOS_State holds the global variables of the kern directory and
  the machine they are about: physical memory as pages of words, CR2 and CR3, the page file.
  Pointers are 32-bit addresses; a dereference goes through the page tables in that memory, so that
  writing to a page table changes what later dereferences see. Every operation takes a state and
  returns a new one or an error: \<open>Panic\<close>, \<open>Assert_failure\<close>, \<open>Kernel_fault\<close> (a dereference of an
  unmapped address), \<open>Out_of_bounds\<close>, \<open>Uninitialised\<close>, or \<open>Diverges\<close> (a loop that never ends).
  USE_KHEAP is 1 in the source, so the branches for 0 are left out.

  \<^bold>\<open>Theories\<close>, in the order of the imports:
  \<^item> FOS_Prelude: the types of machine integers, the error type and its bind, shared lemmas on lists
    and words, the collection of constants.
  \<^item> FOS_Mmu: inc/mmu.h, inc/memlayout.h, inc/types.h and the entry macros of kern/helpers.h.
  \<^item> FOS_Queue: the doubly linked lists of inc/queue.h on an explicit store of links, refined to
    sequences; the queue of a semaphore (kern/semaphore_manager.c).
  \<^item> FOS_State: structures, global variables and memory accesses.
  \<^item> FOS_Frames and FOS_FrameInv: the frame allocator and initialize_paging() of
    kern/memory_manager.c. The locale \<open>frame_pool\<close> states what a pool of frames promises.
  \<^item> FOS_PageTable, FOS_KHeap, FOS_KernelMap, FOS_KHeapInv: page tables and the kernel heap
    (kern/kheap.c). map_frame() and kmalloc() call each other; the kernel's own tables exist from
    boot on, so the inner call never creates one, and the model makes that call an error which the
    theorems exclude. \<open>kmap_inv\<close> is the invariant of the kernel address space, \<open>kheap_inv\<close> adds
    the heap.
  \<^item> FOS_UserMap: mapping and unmapping pages of an environment, with the creation of its tables.
  \<^item> FOS_PageFile: the page file and the table file of kern/file_manager.c, allocateMem().
  \<^item> FOS_WorkingSet: page and table working sets, time stamps.
  \<^item> FOS_Fault, FOS_Replace and FOS_Placement: fault_handler(), page_fault_handler() and the
    replacement algorithms of kern/trap.c; freeMem(). FOS_Replace shows which page is replaced,
    FOS_Placement follows a fault through eviction, mapping and reading the page file.
  \<^item> FOS_Env and FOS_Load: the life cycle of environments (kern/user_environment.c), program headers,
    envid2env(); env_create(), which loads a program. The program images the build links into the
    kernel are an argument.
  \<^item> FOS_Boot and FOS_BootInv: initialize_kernel_VM() with its boot-time allocator, the check of the
    directory and turn_on_paging(). Memory before paging is read and written at its physical address.
    The theorems show that the boot code establishes \<open>kmap_inv\<close>, \<open>boot_ok\<close> and \<open>kheap_inv\<close>, which
    the other theories assume.
  \<^item> FOS_Sched: kern/sched.c, with a step relation for its operations and a cyclic sequence as the
    abstract specification.
  \<^item> FOS_Syscall and FOS_Trap: the system calls (kern/syscall.c, kern/semaphore_manager.c,
    kern/shared_memory_manager.c) and trap(), which every exception, interrupt and system call goes
    through. The record \<open>sys_context\<close> holds what the calls only read: the tables of semaphores and
    shared objects, the images, the next key and the time-stamp counter.
  \<^item> FOS_String: lib/string.c on a memory of bytes.
  \<^item> FOS_Printf and FOS_Sprintf: the formatter of lib/printfmt.c. It works on any state through a
    putch() function; the locale \<open>character_sink\<close> states what it needs of it, and \<open>format_text\<close> is the
    text of a format as a total function on lists. FOS_Sprintf has vsnprintf().
  \<^item> FOS_UserIO: cprintf(), getchar() and readline() of user programs (lib/printf.c, lib/console.c,
    lib/readline.c) as sequences of system calls.
  \<^item> FOS_Console, FOS_ConsoleQueue, FOS_Screen and FOS_Keyboard: kern/console.c and kern/printf.c. The
    ports and the video memory are a parameter, \<open>ports\<close>; \<open>video_memory\<close> and \<open>keyboard_controller\<close> are
    what the theorems assume of them. The locale \<open>input_queue\<close> is the contract of the input buffer,
    \<open>type_char\<close> the specification of the display.
  \<^item> FOS_Prompt, FOS_Words and FOS_Command: the command prompt (kern/command_prompt.c). FOS_Prompt has
    the line editor with its history and the completion of names, FOS_Words shows that strsplit() cuts a
    line into its words, FOS_Command has the commands and the interpreter. The number a command asks
    for, the program images and the test routines of kern/test_kheap.c are fields of \<open>prompt_context\<close>.
  \<^item> FOS_UHeap: malloc() and free() of lib/uheap.c with first, best, worst and next fit; the locales
    \<open>placement_sound\<close> and \<open>placement\<close> state what a strategy promises and each strategy
    interprets one of them.
  \<^item> FOS_Sort: the user programs that sort an array from malloc() by quicksort and by merge sort
    (user/quicksort_noleakage.c, user/mergesort_noleakage.c), with the heap they use.
  \<^item> FOS_UserSys: the stubs of lib/syscall.c, exit() and env_sleep(), with the trap instruction: a
    call goes through trap() and syscall() and comes back with eax of the trap frame.
  \<^item> FOS_Idt: segment and gate descriptors (inc/mmu.h), idt_init(), the entry points of
    kern/trapentry.S, the trap frame on the stack and env_pop_tf().
  \<^item> FOS_Clock: kern/picirq.c, kern/kclock.c and nvram_read(); \<open>clock_devices\<close> states what the code
    relies on of the timer and the interrupt controllers.
  \<^item> FOS_Loader: the boot loader boot/main.c, on the drive of FOS_Disk and memory before paging.
  \<^item> FOS_Start: FOS_initialize(), _panic() and _warn() of kern/init.c. The record \<open>machine\<close> has the
    states of the console, the kernel, the gates and the controllers, which the calls change in turn;
    the theorem on the start establishes the invariants that the theorems of the other theories assume.
  \<^item> FOS_WriteBack: the eviction of a modified page, written to the page file through the window at
    USER_LIMIT, and the return of the page with the contents it had. The predicate \<open>window\<close> is what
    pf_update_env_page() relies on: the table of the kernel stack, shared by the directories of the
    kernel and of the environment, with its first entry free.
  \<^item> FOS_TrapFault: a page fault from the trap to the resumed instruction, over FOS_Trap and
    FOS_Placement.
  \<^item> FOS_Disk: lib/disk.c. \<open>ata_controller\<close> states the documented behaviour of a drive; the page file
    of \<open>kstate\<close> is shown to be an array of pages on such a drive.
  \<^item> FOS_Debug: kern/kdebug.c, with the symbol tables as arguments.
  \<^item> FOS_Sample: the concrete machine state at which the theorems are applied.

  \<^bold>\<open>Bounds.\<close> Loops over arrays recurse on the number of entries left. Loops whose end depends on the
  data take a bound on the rounds and give \<open>Diverges\<close> beyond it: 2 n + 1 rounds for the CLOCK
  search and n + 1 for the search of an empty entry, where n is the size of the working set; 1024
  rounds over page tables and 1048576 over pages of the address space, more than which would wrap.
  The theorems on these loops show that the bound is enough.

  \<^bold>\<open>Not modelled.\<close> The assembly (boot/boot.S, kern/entry.S) and the inline assembly, functions that
  only print, and the test programs of the kernel and the user directory. kern/uheap.c is an old copy
  of lib/uheap.c that is not compiled. The TLB is not part of the state: the source flushes it after
  each change of a mapping.
\<close>

end
